(* ===== verification/Plaita_Prelude.thy ===== *)
theory Plaita_Prelude
  imports Main "HOL-Library.AList"
begin

text \<open>
  Shared vocabulary of the plaita development.

  \<^item> Results of Python code that may raise are values of \<open>'e + 'a\<close>: \<open>Inl\<close> is the raised
    exception, \<open>Inr\<close> the returned value; \<open>rbind\<close> is sequencing and \<open>rmap\<close> the loop
    that runs a fallible body over a list and stops at the first exception.
  \<^item> A Python \<open>dict\<close> with string keys is an association list in insertion order:
    assignment replaces in place or appends (\<open>dict_set\<close>), deletion drops the key
    (\<open>dict_del\<close>).  The interface a client of a keyed store relies on is the
    locale \<open>py_store\<close>, extended by deletion in \<open>py_dict\<close>; it is interpreted here on
    association lists, and by the component theories on the stores they keep.
  \<^item> The named collections \<open>py_simps\<close> (values), \<open>flow_simps\<close> (flow graph),
    \<open>run_simps\<close> (node runner and strategies) and \<open>bus_simps\<close> (event bus) carry the
    component proofs.
\<close>

named_theorems py_simps
named_theorems flow_simps
named_theorems run_simps
named_theorems bus_simps

section \<open>Results\<close>

definition rbind :: "'e + 'a \<Rightarrow> ('a \<Rightarrow> 'e + 'b) \<Rightarrow> 'e + 'b" where
  "rbind r f = (case r of Inl e \<Rightarrow> Inl e | Inr x \<Rightarrow> f x)"

fun rmap :: "('a \<Rightarrow> 'e + 'b) \<Rightarrow> 'a list \<Rightarrow> 'e + 'b list" where
  "rmap f [] = Inr []"
| "rmap f (x # xs) = rbind (f x) (\<lambda>y. rbind (rmap f xs) (\<lambda>ys. Inr (y # ys)))"

lemma rbind_Inl [simp]: "rbind (Inl e) f = Inl e"
  by (simp add: rbind_def)

lemma rbind_Inr [simp]: "rbind (Inr x) f = f x"
  by (simp add: rbind_def)

lemma rbind_eq_Inr_iff: "rbind r f = Inr y \<longleftrightarrow> (\<exists>x. r = Inr x \<and> f x = Inr y)"
  by (cases r) simp_all

lemma rbind_eq_Inl_iff: "rbind r f = Inl e \<longleftrightarrow> r = Inl e \<or> (\<exists>x. r = Inr x \<and> f x = Inl e)"
  by (cases r) auto

lemma rbind_assoc: "rbind (rbind r f) g = rbind r (\<lambda>x. rbind (f x) g)"
  by (cases r) simp_all

lemma rmap_cong [fundef_cong]:
  "xs = ys \<Longrightarrow> (\<And>x. x \<in> set ys \<Longrightarrow> f x = g x) \<Longrightarrow> rmap f xs = rmap g ys"
  by (induction xs arbitrary: ys) auto

lemma rmap_length: "rmap f xs = Inr ys \<Longrightarrow> length ys = length xs"
  by (induction xs arbitrary: ys) (auto simp: rbind_eq_Inr_iff)

lemma rmap_nth: "rmap f xs = Inr ys \<Longrightarrow> i < length xs \<Longrightarrow> f (xs ! i) = Inr (ys ! i)"
  by (induction xs arbitrary: ys i) (auto simp: rbind_eq_Inr_iff nth_Cons split: nat.splits)

lemma rmap_total: "(\<And>x. x \<in> set xs \<Longrightarrow> f x = Inr (g x)) \<Longrightarrow> rmap f xs = Inr (map g xs)"
  by (induction xs) simp_all

section \<open>Python dictionaries\<close>

type_synonym 'a dict = "(string \<times> 'a) list"

definition dict_get :: "'a dict \<Rightarrow> string \<Rightarrow> 'a option" where
  "dict_get d k = map_of d k"

definition dict_set :: "string \<Rightarrow> 'a \<Rightarrow> 'a dict \<Rightarrow> 'a dict" where
  "dict_set k v d = AList.update k v d"

definition dict_del :: "string \<Rightarrow> 'a dict \<Rightarrow> 'a dict" where
  "dict_del k d = AList.delete k d"

definition dict_has :: "'a dict \<Rightarrow> string \<Rightarrow> bool" where
  "dict_has d k \<longleftrightarrow> k \<in> set (map fst d)"

text \<open>\<open>{**a, **b}\<close> and \<open>a.update(b)\<close>: the entries of \<open>b\<close> are assigned one by one.\<close>

definition dict_update :: "'a dict \<Rightarrow> 'a dict \<Rightarrow> 'a dict" where
  "dict_update a b = fold (\<lambda>(k, v). dict_set k v) b a"

definition dict_wf :: "'a dict \<Rightarrow> bool" where
  "dict_wf d \<longleftrightarrow> distinct (map fst d)"

lemma dict_get_Nil [simp]: "dict_get [] k = None"
  by (simp add: dict_get_def)

lemma dict_get_Cons: "dict_get ((k, v) # d) k' = (if k' = k then Some v else dict_get d k')"
  by (simp add: dict_get_def)

lemma dict_set_get [simp]: "dict_get (dict_set k v d) k' = (if k' = k then Some v else dict_get d k')"
  by (simp add: dict_get_def dict_set_def update_conv)

lemma dict_del_get [simp]: "dict_get (dict_del k d) k' = (if k' = k then None else dict_get d k')"
  by (simp add: dict_get_def dict_del_def delete_conv)

lemma dict_set_has [simp]: "dict_has (dict_set k v d) k' \<longleftrightarrow> k' = k \<or> dict_has d k'"
  by (auto simp: dict_has_def dict_set_def dom_update [symmetric] dom_map_of_conv_image_fst [symmetric] update_conv')

lemma dict_del_has [simp]: "dict_has (dict_del k d) k' \<longleftrightarrow> k' \<noteq> k \<and> dict_has d k'"
  by (auto simp: dict_has_def dict_del_def delete_keys)

lemma dict_has_iff: "dict_has d k \<longleftrightarrow> (\<exists>v. dict_get d k = Some v)"
  by (metis dict_get_def dict_has_def map_of_eq_None_iff not_None_eq set_map)

lemma dict_get_None_iff: "dict_get d k = None \<longleftrightarrow> \<not> dict_has d k"
  using dict_has_iff [of d k] by auto

lemma dict_has_Nil [simp]: "\<not> dict_has [] k"
  by (simp add: dict_has_def)

lemma dict_wf_Nil [simp]: "dict_wf []"
  by (simp add: dict_wf_def)

lemma dict_wf_set [simp]: "dict_wf d \<Longrightarrow> dict_wf (dict_set k v d)"
  by (simp add: dict_wf_def dict_set_def distinct_update)

lemma dict_wf_del [simp]: "dict_wf d \<Longrightarrow> dict_wf (dict_del k d)"
  by (simp add: dict_wf_def dict_del_def distinct_delete)

lemma dict_set_idem: "dict_get d k = Some v \<Longrightarrow> dict_set k v d = d"
  by (induction d) (auto simp: dict_get_def dict_set_def split: if_splits)

text \<open>A key that is already present keeps its position, a new key goes to the end.\<close>

lemma dict_set_keys:
  "map fst (dict_set k v d) = (if dict_has d k then map fst d else map fst d @ [k])"
  by (induction d) (auto simp: dict_has_def dict_set_def)

definition dict_keys :: "'a dict \<Rightarrow> string set" where
  "dict_keys d = set (map fst d)"

lemma dict_keys_set [simp]: "dict_keys (dict_set k v d) = insert k (dict_keys d)"
  by (simp add: dict_keys_def dict_set_keys dict_has_def insert_absorb)

lemma dict_keys_has: "k \<in> dict_keys d \<longleftrightarrow> dict_has d k"
  by (simp add: dict_keys_def dict_has_def)

lemma dict_update_Nil [simp]: "dict_update d [] = d"
  by (simp add: dict_update_def)

lemma dict_update_Cons [simp]: "dict_update d ((k, v) # e) = dict_update (dict_set k v d) e"
  by (simp add: dict_update_def)

lemma dict_update_wf [simp]: "dict_wf d \<Longrightarrow> dict_wf (dict_update d e)"
  by (induction e arbitrary: d) auto

lemma dict_get_append:
  "dict_get (d @ e) k = (case dict_get d k of None \<Rightarrow> dict_get e k | Some v \<Rightarrow> Some v)"
  by (cases "map_of d k") (simp_all add: dict_get_def map_add_def)

lemma dict_update_get:
  "dict_get (dict_update d e) k =
     (case dict_get (rev e) k of None \<Rightarrow> dict_get d k | Some v \<Rightarrow> Some v)"
  by (induction e arbitrary: d)
    (auto simp: dict_get_append dict_get_Cons split: option.splits)

lemma dict_set_append_new: "\<not> dict_has d k \<Longrightarrow> dict_set k v d = d @ [(k, v)]"
  by (induction d) (auto simp: dict_has_def dict_set_def)

lemma dict_set_rebuild:
  "dict_wf (xs @ ys) \<Longrightarrow> fold (\<lambda>(k, v). dict_set k v) ys xs = xs @ ys"
proof (induction ys arbitrary: xs)
  case Nil
  then show ?case by simp
next
  case (Cons p ys)
  obtain k v where p: "p = (k, v)" by (cases p)
  from Cons.prems have "\<not> dict_has xs k"
    by (auto simp: p dict_wf_def dict_has_def)
  then have "dict_set k v xs = xs @ [(k, v)]"
    by (rule dict_set_append_new)
  with Cons.IH [of "xs @ [(k, v)]"] Cons.prems show ?case
    by (simp add: p)
qed

lemma dict_rev: "dict_wf d \<Longrightarrow> map_of (rev d) = map_of d"
  by (subst map_of_inject_set) (simp_all add: dict_wf_def rev_map [symmetric])

text \<open>Copying a dictionary entry by entry, as \<open>dict(d)\<close> and \<open>for k, v in d.items()\<close> do.\<close>

lemma dict_copy: "dict_wf d \<Longrightarrow> dict_update [] d = d"
  using dict_set_rebuild [of "[]" d] by (simp add: dict_update_def)

section \<open>The store interface\<close>

text \<open>
  What a client of a keyed store relies on: a write is read back and leaves the other keys alone.
  The laws hold for stores that satisfy the store's invariant and for the entries it admits.
\<close>

locale py_store =
  fixes getitem :: "'m \<Rightarrow> 'k \<Rightarrow> 'v option"
    and setitem :: "'k \<Rightarrow> 'v \<Rightarrow> 'm \<Rightarrow> 'm"
    and invar :: "'m \<Rightarrow> bool"
    and admits :: "'k \<Rightarrow> 'v \<Rightarrow> bool"
  assumes get_set: "invar m \<Longrightarrow> admits k v \<Longrightarrow>
      getitem (setitem k v m) k' = (if k' = k then Some v else getitem m k')"
    and invar_set: "invar m \<Longrightarrow> admits k v \<Longrightarrow> invar (setitem k v m)"
begin

lemma get_set_same: "invar m \<Longrightarrow> admits k v \<Longrightarrow> getitem (setitem k v m) k = Some v"
  by (simp add: get_set)

lemma get_set_other: "invar m \<Longrightarrow> admits k v \<Longrightarrow> k' \<noteq> k \<Longrightarrow> getitem (setitem k v m) k' = getitem m k'"
  by (simp add: get_set)

lemma set_commute:
  "invar m \<Longrightarrow> admits k v \<Longrightarrow> admits l u \<Longrightarrow> k \<noteq> l \<Longrightarrow>
     getitem (setitem k v (setitem l u m)) k' = getitem (setitem l u (setitem k v m)) k'"
  by (simp add: get_set invar_set)

lemma fold_set_invar:
  "invar m \<Longrightarrow> \<forall>p \<in> set es. admits (fst p) (snd p) \<Longrightarrow> invar (fold (\<lambda>p. setitem (fst p) (snd p)) es m)"
  by (induction es arbitrary: m) (auto simp: invar_set)

text \<open>Writing the entries of a dictionary one by one reads back as that dictionary over the old store.\<close>

lemma fold_set_get:
  "invar m \<Longrightarrow> \<forall>p \<in> set es. admits (fst p) (snd p) \<Longrightarrow>
     getitem (fold (\<lambda>p. setitem (fst p) (snd p)) es m) k =
       (case map_of (rev es) k of None \<Rightarrow> getitem m k | Some v \<Rightarrow> Some v)"
  by (induction es arbitrary: m) (auto simp: invar_set get_set map_add_def split: option.splits)

end

text \<open>A store that can also forget a key.\<close>

locale py_dict = py_store +
  fixes delitem :: "'b \<Rightarrow> 'a \<Rightarrow> 'a"
  assumes get_del: "invar m \<Longrightarrow> getitem (delitem k m) k' = (if k' = k then None else getitem m k')"
    and invar_del: "invar m \<Longrightarrow> invar (delitem k m)"
begin

lemma del_set:
  "invar m \<Longrightarrow> admits k v \<Longrightarrow> getitem (delitem k (setitem k v m)) k' = getitem (delitem k m) k'"
  by (simp add: get_set get_del invar_set)

lemma set_del: "invar m \<Longrightarrow> admits k v \<Longrightarrow> getitem (setitem k v (delitem k m)) k' = getitem (setitem k v m) k'"
  by (simp add: get_set get_del invar_del)

end

interpretation alist: py_dict dict_get dict_set dict_wf "\<lambda>_ _. True" dict_del
  by unfold_locales simp_all

end
