(* ===== verification/Py_Value.thy ===== *)
theory Py_Value
  imports Plaita_Prelude "HOL-Library.Char_ord" "HOL-Library.List_Lexorder" "HOL-Library.Sublist"
begin

text \<open>
  The values that flow through plaita: the data of a flow definition, the node results kept in
  the checkpoint, event payloads.  \<open>pyval\<close> is the JSON universe with the Python list/tuple
  distinction; dictionaries have string keys and keep insertion order.  Floating point numbers
  are outside the universe, strings are sequences of code points below 256.

  The operators are those of the Python language the sources apply to values of unknown type:
  truth value, \<open>==\<close>, the order comparisons and \<open>in\<close> with the \<open>TypeError\<close>s they raise,
  and \<open>str\<close>.
\<close>

datatype pyval =
    PNone
  | PBool bool
  | PInt int
  | PStr string
  | PList "pyval list"
  | PTuple "pyval list"
  | PDict "(string \<times> pyval) list"

datatype py_exc = TypeError | ValueError | KeyError | IndexError | AttributeError | AssertionError

fun truthy :: "pyval \<Rightarrow> bool" where
  "truthy PNone = False"
| "truthy (PBool b) = b"
| "truthy (PInt i) = (i \<noteq> 0)"
| "truthy (PStr s) = (s \<noteq> [])"
| "truthy (PList xs) = (xs \<noteq> [])"
| "truthy (PTuple xs) = (xs \<noteq> [])"
| "truthy (PDict d) = (d \<noteq> [])"

text \<open>\<open>bool\<close> is a subclass of \<open>int\<close>: \<open>True == 1\<close>, \<open>False < 1\<close>.\<close>

fun num_of :: "pyval \<Rightarrow> int option" where
  "num_of (PBool b) = Some (if b then 1 else 0)"
| "num_of (PInt i) = Some i"
| "num_of _ = None"

fun py_eq :: "pyval \<Rightarrow> pyval \<Rightarrow> bool"
  and py_eq_list :: "pyval list \<Rightarrow> pyval list \<Rightarrow> bool"
  and py_eq_items :: "(string \<times> pyval) list \<Rightarrow> (string \<times> pyval) list \<Rightarrow> bool" where
  "py_eq PNone w = (w = PNone)"
| "py_eq (PBool b) w = (num_of w = Some (if b then 1 else 0))"
| "py_eq (PInt i) w = (num_of w = Some i)"
| "py_eq (PStr s) w = (w = PStr s)"
| "py_eq (PList xs) w = (case w of PList ys \<Rightarrow> py_eq_list xs ys | _ \<Rightarrow> False)"
| "py_eq (PTuple xs) w = (case w of PTuple ys \<Rightarrow> py_eq_list xs ys | _ \<Rightarrow> False)"
| "py_eq (PDict d) w =
     (case w of PDict e \<Rightarrow> length d = length e \<and> py_eq_items d e | _ \<Rightarrow> False)"
| "py_eq_list [] ys = (ys = [])"
| "py_eq_list (x # xs) ys = (case ys of [] \<Rightarrow> False | y # ys' \<Rightarrow> py_eq x y \<and> py_eq_list xs ys')"
| "py_eq_items [] e = True"
| "py_eq_items ((k, v) # d) e =
     ((case dict_get e k of None \<Rightarrow> False | Some w \<Rightarrow> py_eq v w) \<and> py_eq_items d e)"

text \<open>
  \<open><\<close>: numbers by value, strings by code point, sequences of one type at their first
  difference; every other pair of types raises \<open>TypeError\<close>.
\<close>

fun py_lt :: "pyval \<Rightarrow> pyval \<Rightarrow> py_exc + bool"
  and py_lt_list :: "pyval list \<Rightarrow> pyval list \<Rightarrow> py_exc + bool" where
  "py_lt (PStr s) w = (case w of PStr t \<Rightarrow> Inr (s < t) | _ \<Rightarrow> Inl TypeError)"
| "py_lt (PList xs) w = (case w of PList ys \<Rightarrow> py_lt_list xs ys | _ \<Rightarrow> Inl TypeError)"
| "py_lt (PTuple xs) w = (case w of PTuple ys \<Rightarrow> py_lt_list xs ys | _ \<Rightarrow> Inl TypeError)"
| "py_lt (PBool b) w =
     (case num_of w of Some j \<Rightarrow> Inr ((if b then 1 else 0) < j) | None \<Rightarrow> Inl TypeError)"
| "py_lt (PInt i) w = (case num_of w of Some j \<Rightarrow> Inr (i < j) | None \<Rightarrow> Inl TypeError)"
| "py_lt PNone w = Inl TypeError"
| "py_lt (PDict d) w = Inl TypeError"
| "py_lt_list [] ys = Inr (ys \<noteq> [])"
| "py_lt_list (x # xs) ys =
     (case ys of [] \<Rightarrow> Inr False
      | y # ys' \<Rightarrow> if py_eq x y then py_lt_list xs ys' else py_lt x y)"

text \<open>\<open><=\<close> agrees with \<open><\<close> up to the first difference and holds on equal operands.\<close>

fun py_le :: "pyval \<Rightarrow> pyval \<Rightarrow> py_exc + bool"
  and py_le_list :: "pyval list \<Rightarrow> pyval list \<Rightarrow> py_exc + bool" where
  "py_le (PStr s) w = (case w of PStr t \<Rightarrow> Inr (s \<le> t) | _ \<Rightarrow> Inl TypeError)"
| "py_le (PList xs) w = (case w of PList ys \<Rightarrow> py_le_list xs ys | _ \<Rightarrow> Inl TypeError)"
| "py_le (PTuple xs) w = (case w of PTuple ys \<Rightarrow> py_le_list xs ys | _ \<Rightarrow> Inl TypeError)"
| "py_le (PBool b) w =
     (case num_of w of Some j \<Rightarrow> Inr ((if b then 1 else 0) \<le> j) | None \<Rightarrow> Inl TypeError)"
| "py_le (PInt i) w = (case num_of w of Some j \<Rightarrow> Inr (i \<le> j) | None \<Rightarrow> Inl TypeError)"
| "py_le PNone w = Inl TypeError"
| "py_le (PDict d) w = Inl TypeError"
| "py_le_list [] ys = Inr True"
| "py_le_list (x # xs) ys =
     (case ys of [] \<Rightarrow> Inr False
      | y # ys' \<Rightarrow> if py_eq x y then py_le_list xs ys' else py_le x y)"

fun hashable :: "pyval \<Rightarrow> bool" where
  "hashable (PList xs) = False"
| "hashable (PDict d) = False"
| "hashable (PTuple xs) = list_all hashable xs"
| "hashable _ = True"

fun str_contains :: "string \<Rightarrow> string \<Rightarrow> bool" where
  "str_contains n [] = (n = [])"
| "str_contains n (c # cs) = (prefix n (c # cs) \<or> str_contains n cs)"

text \<open>\<open>x in c\<close>.\<close>

fun py_in :: "pyval \<Rightarrow> pyval \<Rightarrow> py_exc + bool" where
  "py_in x (PList ys) = Inr (list_ex (\<lambda>y. py_eq x y) ys)"
| "py_in x (PTuple ys) = Inr (list_ex (\<lambda>y. py_eq x y) ys)"
| "py_in x (PStr t) = (case x of PStr s \<Rightarrow> Inr (str_contains s t) | _ \<Rightarrow> Inl TypeError)"
| "py_in x (PDict d) =
     (if \<not> hashable x then Inl TypeError
      else case x of PStr s \<Rightarrow> Inr (dict_has d s) | _ \<Rightarrow> Inr False)"
| "py_in x _ = Inl TypeError"

section \<open>\<open>str\<close>\<close>

fun nat_str :: "nat \<Rightarrow> string" where
  "nat_str n = (if n < 10 then [char_of (48 + n)] else nat_str (n div 10) @ [char_of (48 + n mod 10)])"

definition int_str :: "int \<Rightarrow> string" where
  "int_str i = (if i < 0 then ''-'' @ nat_str (nat (- i)) else nat_str (nat i))"

definition hex_digit :: "nat \<Rightarrow> char" where
  "hex_digit n = (if n < 10 then char_of (48 + n) else char_of (87 + n))"

definition esc_char :: "char \<Rightarrow> char \<Rightarrow> string" where
  "esc_char q c =
     (let n = (of_char c :: nat) in
      if c = q \<or> n = 92 then [CHR 0x5C, c]
      else if n = 10 then [CHR 0x5C, CHR ''n'']
      else if n = 13 then [CHR 0x5C, CHR ''r'']
      else if n = 9 then [CHR 0x5C, CHR ''t'']
      else if n < 32 \<or> 127 \<le> n \<and> n \<le> 160 \<or> n = 173
        then [CHR 0x5C, CHR ''x'', hex_digit (n div 16), hex_digit (n mod 16)]
      else [c])"

definition str_repr :: "string \<Rightarrow> string" where
  "str_repr s =
     (let q = (if CHR 0x27 \<in> set s \<and> CHR 0x22 \<notin> set s then CHR 0x22 else CHR 0x27)
      in [q] @ concat (map (esc_char q) s) @ [q])"

fun join_with :: "string \<Rightarrow> string list \<Rightarrow> string" where
  "join_with sep [] = []"
| "join_with sep [s] = s"
| "join_with sep (s # t # ss) = s @ sep @ join_with sep (t # ss)"

fun py_repr :: "pyval \<Rightarrow> string" where
  "py_repr PNone = ''None''"
| "py_repr (PBool b) = (if b then ''True'' else ''False'')"
| "py_repr (PInt i) = int_str i"
| "py_repr (PStr s) = str_repr s"
| "py_repr (PList xs) = ''['' @ join_with '', '' (map py_repr xs) @ '']''"
| "py_repr (PTuple xs) =
     (if length xs = 1 then ''('' @ concat (map py_repr xs) @ '',)''
      else ''('' @ join_with '', '' (map py_repr xs) @ '')'')"
| "py_repr (PDict d) =
     ''{'' @ join_with '', '' (map (\<lambda>p. str_repr (fst p) @ '': '' @ py_repr (snd p)) d) @ ''}''"

fun py_str :: "pyval \<Rightarrow> string" where
  "py_str (PStr s) = s"
| "py_str v = py_repr v"

section \<open>Accessors on values of unknown type\<close>

definition is_dict :: "pyval \<Rightarrow> bool" where
  "is_dict v = (case v of PDict _ \<Rightarrow> True | _ \<Rightarrow> False)"

definition is_str :: "pyval \<Rightarrow> bool" where
  "is_str v = (case v of PStr _ \<Rightarrow> True | _ \<Rightarrow> False)"

text \<open>\<open>v.get(k, default)\<close> on a dictionary value.\<close>

definition pget :: "(string \<times> pyval) list \<Rightarrow> string \<Rightarrow> pyval \<Rightarrow> pyval" where
  "pget d k dflt = (case dict_get d k of None \<Rightarrow> dflt | Some v \<Rightarrow> v)"

definition opt_str :: "string option \<Rightarrow> pyval" where
  "opt_str o' = (case o' of None \<Rightarrow> PNone | Some s \<Rightarrow> PStr s)"

section \<open>Lemmas\<close>

text \<open>Well-formed values: every dictionary in them has distinct keys.\<close>

fun val_wf :: "pyval \<Rightarrow> bool" where
  "val_wf (PList xs) = list_all val_wf xs"
| "val_wf (PTuple xs) = list_all val_wf xs"
| "val_wf (PDict d) = (dict_wf d \<and> list_all (\<lambda>p. val_wf (snd p)) d)"
| "val_wf _ = True"

lemma str_contains_sublist: "str_contains n h \<longleftrightarrow> sublist n h"
  by (induction h) (auto simp: sublist_Cons_right)

lemma py_eq_list_refl: "(\<And>x. x \<in> set xs \<Longrightarrow> py_eq x x) \<Longrightarrow> py_eq_list xs xs"
  by (induction xs) auto

lemma py_eq_items_refl:
  "\<forall>p \<in> set d. dict_get e (fst p) = Some (snd p) \<and> py_eq (snd p) (snd p) \<Longrightarrow> py_eq_items d e"
  by (induction d) auto

lemma dict_get_member: "dict_wf d \<Longrightarrow> (k, v) \<in> set d \<Longrightarrow> dict_get d k = Some v"
  by (simp add: dict_wf_def dict_get_def)

lemma py_eq_refl: "val_wf v \<Longrightarrow> py_eq v v"
proof (induction v)
  case (PList xs)
  then show ?case by (auto simp: list_all_iff intro!: py_eq_list_refl)
next
  case (PTuple xs)
  then show ?case by (auto simp: list_all_iff intro!: py_eq_list_refl)
next
  case (PDict d)
  have "py_eq_items d d"
  proof (rule py_eq_items_refl, rule ballI)
    fix p
    assume p: "p \<in> set d"
    from p PDict.prems have wf: "val_wf (snd p)" by (auto simp: list_all_iff)
    have "py_eq (snd p) (snd p)"
      by (rule PDict.IH [OF p _ wf]) (rule snds.intros)
    with p PDict.prems show "dict_get d (fst p) = Some (snd p) \<and> py_eq (snd p) (snd p)"
      by (simp add: dict_get_member del: py_eq.simps)
  qed
  then show ?case by simp
qed auto

lemma py_str_PStr [simp]: "py_str (PStr s) = s"
  by simp

lemma pget_set [simp]: "pget (dict_set k v d) k' x = (if k' = k then v else pget d k' x)"
  by (simp add: pget_def)

lemma pget_Nil [simp]: "pget [] k x = x"
  by (simp add: pget_def)

lemma is_dict_simps [simp]:
  "is_dict (PDict d)" "\<not> is_dict PNone" "\<not> is_dict (PStr s)" "\<not> is_dict (PList xs)"
  "\<not> is_dict (PInt i)" "\<not> is_dict (PBool b)" "\<not> is_dict (PTuple xs)"
  by (simp_all add: is_dict_def)

text \<open>On numbers, and on strings, \<open><\<close> and \<open><=\<close> are the orders of the value.\<close>

lemma py_lt_num:
  "num_of v = Some i \<Longrightarrow> num_of w = Some j \<Longrightarrow> py_lt v w = Inr (i < j)"
  by (cases v) auto

lemma py_le_num:
  "num_of v = Some i \<Longrightarrow> num_of w = Some j \<Longrightarrow> py_le v w = Inr (i \<le> j)"
  by (cases v) auto

lemmas [py_simps] = dict_get_Cons pget_def rbind_eq_Inr_iff

end
