(* ===== verification/Flow_Errors.thy ===== *)
theory Flow_Errors
  imports Py_Value
begin

text \<open>
  \<^verbatim>\<open>plaita/core/errors.py\<close>: the exception classes of the engine with their inheritance,
  the error-handling strategies, the handlers of a node and the resume types.  An exception is
  a record with the class of the raised object and the attributes the engine reads back
  (\<open>code\<close>, \<open>error_type\<close>, the user-supplied message, the origin type and the output-validation
  mark); message texts composed by the engine are not kept.
\<close>

datatype flow_error_type =
    NODE_ERROR | FLOW_ERROR | ERROR_RESULT | INVALID_CALLBACK | EXECUTION_NOT_FOUND
  | NODE_NOT_FOUND | INVALID_NODE_TYPE | EXECUTION_TIMEOUT | CALLBACK_TIMEOUT
  | SUSPEND_NOT_EXECUTABLE | EXECUTION_PROFILE_UNSATISFIED

datatype exc_class =
    FlowResultError | NodeException | FlowExecutionException
  | NodeNotFoundError | FlowStartMissingError | NodeExecutionError | NodeTimeoutError
  | FlowTimeoutError | ExecutionDeadlineError | FlowErrorException | FlowCancelledException
  | ErrorResultException | FlowSuspendedCarrier | FlowSuspendRejectedError
  | SuspendNotExecutableError | ExecutionProfileError | ResumeError | ResumeGuardError
  | StateSnapshotError | NodeBudgetExceeded | Builtin py_exc | NameErr | SyntaxErr | OtherError

text \<open>The direct base class, for the classes the package declares.\<close>

fun exc_base :: "exc_class \<Rightarrow> exc_class option" where
  "exc_base NodeNotFoundError = Some FlowExecutionException"
| "exc_base FlowStartMissingError = Some NodeNotFoundError"
| "exc_base NodeExecutionError = Some FlowExecutionException"
| "exc_base NodeTimeoutError = Some FlowExecutionException"
| "exc_base FlowTimeoutError = Some FlowExecutionException"
| "exc_base ExecutionDeadlineError = Some FlowTimeoutError"
| "exc_base FlowErrorException = Some FlowExecutionException"
| "exc_base FlowCancelledException = Some FlowExecutionException"
| "exc_base ErrorResultException = Some FlowExecutionException"
| "exc_base FlowSuspendedCarrier = Some FlowExecutionException"
| "exc_base FlowSuspendRejectedError = Some FlowExecutionException"
| "exc_base SuspendNotExecutableError = Some FlowExecutionException"
| "exc_base ExecutionProfileError = Some FlowExecutionException"
| "exc_base ResumeError = Some FlowExecutionException"
| "exc_base ResumeGuardError = Some ResumeError"
| "exc_base StateSnapshotError = Some FlowExecutionException"
| "exc_base _ = None"

text \<open>\<open>isinstance\<close> along the base chain; the longest chain has three links.\<close>

definition exc_isa :: "exc_class \<Rightarrow> exc_class \<Rightarrow> bool" where
  "exc_isa c d \<longleftrightarrow> c = d \<or>
     (case exc_base c of None \<Rightarrow> False
      | Some b \<Rightarrow> b = d \<or> (case exc_base b of None \<Rightarrow> False | Some b' \<Rightarrow> b' = d))"

record exc =
  e_class :: exc_class
  e_code :: pyval
  e_type :: "flow_error_type option"
  e_message :: pyval
  e_origin :: "string option"
  e_retry_mark :: bool

definition plain_exc :: "exc_class \<Rightarrow> exc" where
  "plain_exc c = \<lparr>e_class = c, e_code = PNone, e_type = None, e_message = PNone,
     e_origin = None, e_retry_mark = False\<rparr>"

text \<open>The constructors of the engine's exceptions with their class-level code and error type.\<close>

definition flow_exc :: "exc_class \<Rightarrow> int \<Rightarrow> flow_error_type \<Rightarrow> exc" where
  "flow_exc c n t = (plain_exc c)\<lparr>e_code := PInt n, e_type := Some t\<rparr>"

definition flow_execution_exception :: exc where
  "flow_execution_exception = flow_exc FlowExecutionException (- 500) FLOW_ERROR"

definition node_not_found_error :: exc where
  "node_not_found_error = flow_exc NodeNotFoundError (- 500) NODE_NOT_FOUND"

definition flow_start_missing_error :: exc where
  "flow_start_missing_error = flow_exc FlowStartMissingError (- 500) NODE_NOT_FOUND"

definition node_execution_error :: "pyval \<Rightarrow> pyval \<Rightarrow> exc" where
  "node_execution_error code msg =
     (flow_exc NodeExecutionError 0 NODE_ERROR)\<lparr>e_code := code, e_message := msg\<rparr>"

definition node_timeout_error :: "flow_error_type \<Rightarrow> exc" where
  "node_timeout_error t = flow_exc NodeTimeoutError (- 1) t"

definition execution_deadline_error :: exc where
  "execution_deadline_error = flow_exc ExecutionDeadlineError (- 1) FLOW_ERROR"

definition flow_cancelled_exception :: exc where
  "flow_cancelled_exception = flow_exc FlowCancelledException (- 4) FLOW_ERROR"

definition error_result_exception :: "pyval \<Rightarrow> pyval \<Rightarrow> exc" where
  "error_result_exception code msg =
     (flow_exc ErrorResultException 0 ERROR_RESULT)\<lparr>e_code := code, e_message := msg\<rparr>"

definition flow_suspend_rejected_error :: exc where
  "flow_suspend_rejected_error = flow_exc FlowSuspendRejectedError (- 500) FLOW_ERROR"

definition flow_suspended_carrier :: exc where
  "flow_suspended_carrier = flow_exc FlowSuspendedCarrier (- 500) FLOW_ERROR"

definition resume_error :: exc where
  "resume_error = flow_exc ResumeError (- 500) NODE_ERROR"

definition resume_guard_error :: exc where
  "resume_guard_error = flow_exc ResumeGuardError (- 500) NODE_ERROR"

section \<open>Strategies and handlers\<close>

datatype error_strategy = ABORT | CONTINUE | CONTINUE_WITH

definition DEFAULT_NODE_ABORT_CODE :: int where
  "DEFAULT_NODE_ABORT_CODE = - 520"

definition MAX_RETRY_TIMES :: int where
  "MAX_RETRY_TIMES = 10"

record error_handler =
  strategy :: error_strategy
  default_value :: pyval
  error_code :: "int option"
  error_message :: "string option"
  retry_times :: int

text \<open>\<open>RecoverableErrorHandler()\<close>: the handler every node has when none is configured.\<close>

definition default_error_handler :: error_handler where
  "default_error_handler = \<lparr>strategy = ABORT, default_value = PNone, error_code = Some (- 9527),
     error_message = None, retry_times = 0\<rparr>"

definition validate_strategy :: "pyval \<Rightarrow> py_exc + error_strategy" where
  "validate_strategy v =
     (case v of
        PNone \<Rightarrow> Inr ABORT
      | PStr s \<Rightarrow>
          (let s' = (if s = ''continue_with'' then ''continue-with'' else s) in
           if s' = ''abort'' then Inr ABORT
           else if s' = ''continue'' then Inr CONTINUE
           else if s' = ''continue-with'' then Inr CONTINUE_WITH
           else Inl ValueError)
      | _ \<Rightarrow> Inl ValueError)"

text \<open>The two validators of \<open>retryTimes\<close>: no booleans, no strings, within \<open>0..MAX_RETRY_TIMES\<close>.\<close>

definition validate_retry_times :: "pyval \<Rightarrow> py_exc + int" where
  "validate_retry_times v =
     (case v of
        PInt n \<Rightarrow> if n < 0 then Inl ValueError
                  else if n > MAX_RETRY_TIMES then Inl ValueError else Inr n
      | _ \<Rightarrow> Inl ValueError)"

text \<open>\<open>ErrorHandler.handle\<close>: \<open>None\<close> is the \<open>TimeoutError\<close> of the abort strategy.\<close>

definition handle :: "error_handler \<Rightarrow> pyval option" where
  "handle h = (case strategy h of
      ABORT \<Rightarrow> None
    | CONTINUE \<Rightarrow> Some PNone
    | CONTINUE_WITH \<Rightarrow> Some (default_value h))"

section \<open>Resume types\<close>

datatype resume_type = RT_CONTINUE | RT_RETRY | RT_CANCEL | RT_TIMEOUT | RT_EVENT

definition resume_type_coerce :: "pyval \<Rightarrow> exc + resume_type" where
  "resume_type_coerce v =
     (case v of
        PStr s \<Rightarrow>
          if s = ''continue'' then Inr RT_CONTINUE
          else if s = ''retry'' then Inr RT_RETRY
          else if s = ''cancel'' then Inr RT_CANCEL
          else if s = ''timeout'' then Inr RT_TIMEOUT
          else if s = ''event'' then Inr RT_EVENT
          else Inl resume_error
      | _ \<Rightarrow> Inl resume_error)"

definition resume_type_value :: "resume_type \<Rightarrow> string" where
  "resume_type_value t = (case t of
      RT_CONTINUE \<Rightarrow> ''continue'' | RT_RETRY \<Rightarrow> ''retry'' | RT_CANCEL \<Rightarrow> ''cancel''
    | RT_TIMEOUT \<Rightarrow> ''timeout'' | RT_EVENT \<Rightarrow> ''event'')"

section \<open>Lemmas\<close>

lemmas exc_defs [run_simps] =
  plain_exc_def flow_exc_def flow_execution_exception_def node_not_found_error_def
  flow_start_missing_error_def node_execution_error_def node_timeout_error_def
  execution_deadline_error_def flow_cancelled_exception_def error_result_exception_def
  flow_suspend_rejected_error_def flow_suspended_carrier_def resume_error_def
  resume_guard_error_def

lemma exc_isa_refl [simp]: "exc_isa c c"
  by (simp add: exc_isa_def)

text \<open>The two-link unfolding is the whole chain: no declared class is deeper.\<close>

lemma exc_base_depth: "exc_base c = Some b \<Longrightarrow> exc_base b = Some b' \<Longrightarrow> exc_base b' = None"
  by (cases c) auto

lemma exc_isa_trans: "exc_isa c d \<Longrightarrow> exc_isa d e \<Longrightarrow> exc_isa c e"
  by (cases c) (auto simp: exc_isa_def split: option.splits)

lemma validate_retry_times_bounds:
  "validate_retry_times v = Inr n \<Longrightarrow> 0 \<le> n \<and> n \<le> MAX_RETRY_TIMES"
  by (auto simp: validate_retry_times_def split: pyval.splits if_splits)

lemma resume_type_roundtrip [simp]: "resume_type_coerce (PStr (resume_type_value t)) = Inr t"
  by (cases t) (simp_all add: resume_type_coerce_def resume_type_value_def)

end
