(* ===== verification/Decide.thy ===== *)
theory Decide
  imports Flow_Errors
begin

text \<open>
  \<^verbatim>\<open>plaita/node/decide.py\<close>: conditions, condition groups, branches and the three branching
  nodes (\<open>switch\<close>, \<open>if\<close>, \<open>case\<close>).  The expression evaluator
  (\<^verbatim>\<open>plaita.io.evaluate\<close>) is the argument \<open>ev\<close>, already applied to the context and
  the prefix.
\<close>

datatype cond_op =
    OP_EQ | OP_NE | OP_GT | OP_GTE | OP_LT | OP_LTE | OP_IN | OP_NOTIN
  | OP_CONTAINS | OP_NOT_CONTAINS | OP_TRUTHY | OP_FALSY

datatype relation = REL_AND | REL_OR

datatype condition =
    Condition (field: pyval) (operator: cond_op) (cond_val: pyval)
  | ConditionGroup relation "condition list"

definition lift_py :: "py_exc + 'a \<Rightarrow> exc + 'a" where
  "lift_py r = (case r of Inl e \<Rightarrow> Inl (plain_exc (Builtin e)) | Inr x \<Rightarrow> Inr x)"

text \<open>\<open>condition_matcher\<close>: the comparison each operator stands for.\<close>

fun condition_matcher :: "cond_op \<Rightarrow> pyval \<Rightarrow> pyval \<Rightarrow> py_exc + bool" where
  "condition_matcher OP_EQ l r = Inr (py_eq l r)"
| "condition_matcher OP_NE l r = Inr (\<not> py_eq l r)"
| "condition_matcher OP_GT l r = py_lt r l"
| "condition_matcher OP_GTE l r = py_le r l"
| "condition_matcher OP_LT l r = py_lt l r"
| "condition_matcher OP_LTE l r = py_le l r"
| "condition_matcher OP_IN l r = py_in l r"
| "condition_matcher OP_NOTIN l r = rbind (py_in l r) (\<lambda>b. Inr (\<not> b))"
| "condition_matcher OP_CONTAINS l r = py_in r l"
| "condition_matcher OP_NOT_CONTAINS l r = rbind (py_in r l) (\<lambda>b. Inr (\<not> b))"
| "condition_matcher OP_TRUTHY l r = Inr (truthy l)"
| "condition_matcher OP_FALSY l r = Inr (\<not> truthy l)"

text \<open>\<open>Condition.match\<close>: truth-value operators first, then the \<open>None\<close> rule, then the matcher.\<close>

definition match_condition ::
  "(pyval \<Rightarrow> exc + pyval) \<Rightarrow> pyval \<Rightarrow> cond_op \<Rightarrow> pyval \<Rightarrow> exc + bool" where
  "match_condition ev fld op val =
     rbind (ev fld) (\<lambda>left.
       if op = OP_TRUTHY then Inr (truthy left)
       else if op = OP_FALSY then Inr (\<not> truthy left)
       else rbind (ev val) (\<lambda>right.
         if left = PNone \<or> right = PNone
         then Inr (if op = OP_EQ then left = PNone \<and> right = PNone
                   else if op = OP_NE then \<not> (left = PNone \<and> right = PNone)
                   else False)
         else lift_py (condition_matcher op left right)))"

text \<open>
  \<open>ConditionGroup.match\<close>: every member is evaluated (the list is built before \<open>all\<close>/\<open>any\<close>
  looks at it), so an exception in a later member surfaces even when an earlier one decides.
\<close>

fun match :: "(pyval \<Rightarrow> exc + pyval) \<Rightarrow> condition \<Rightarrow> exc + bool" where
  "match ev (Condition f op v) = match_condition ev f op v"
| "match ev (ConditionGroup rel cs) =
     (if cs = [] then Inr True
      else rbind (rmap (\<lambda>c. match ev c) cs) (\<lambda>bs.
        Inr (case rel of REL_AND \<Rightarrow> list_all (\<lambda>b. b) bs | REL_OR \<Rightarrow> list_ex (\<lambda>b. b) bs)))"

record branch =
  b_name :: "string option"
  b_condition :: "condition option"
  b_priority :: "int option"
  b_label :: "string option"
  b_next :: "string option"
  b_is_default :: bool

definition str_truthy :: "string option \<Rightarrow> bool" where
  "str_truthy s \<longleftrightarrow> s \<noteq> None \<and> s \<noteq> Some []"

definition resolve_branch_target :: "bool \<Rightarrow> branch \<Rightarrow> string option" where
  "resolve_branch_target name_as_target b =
     (if str_truthy (b_next b) then b_next b
      else if name_as_target then b_name b
      else None)"

definition prio :: "branch \<Rightarrow> int" where
  "prio b = (case b_priority b of None \<Rightarrow> 0 | Some p \<Rightarrow> p)"

fun first_matching :: "(pyval \<Rightarrow> exc + pyval) \<Rightarrow> branch list \<Rightarrow> exc + branch option" where
  "first_matching ev [] = Inr None"
| "first_matching ev (b # bs) =
     (case b_condition b of
        None \<Rightarrow> first_matching ev bs
      | Some c \<Rightarrow> rbind (match ev c) (\<lambda>m. if m then Inr (Some b) else first_matching ev bs))"

text \<open>\<open>Switch.execute\<close>: conditions in priority order (a stable sort), then the default branch.\<close>

definition switch_execute ::
  "(pyval \<Rightarrow> exc + pyval) \<Rightarrow> bool \<Rightarrow> branch list \<Rightarrow> exc + string option" where
  "switch_execute ev name_as_target bs =
     rbind (first_matching ev (sort_key (\<lambda>b. - prio b) bs)) (\<lambda>r.
       case r of
         Some b \<Rightarrow> Inr (resolve_branch_target name_as_target b)
       | None \<Rightarrow>
           (case find b_is_default bs of
              Some b \<Rightarrow> Inr (resolve_branch_target name_as_target b)
            | None \<Rightarrow> Inr None))"

text \<open>\<open>Bool.setup_branches\<close>: the two branches of an \<open>if\<close> node.\<close>

definition bool_branches :: "condition option \<Rightarrow> string option \<Rightarrow> string option \<Rightarrow> branch list" where
  "bool_branches c nxt else_nxt =
     [\<lparr>b_name = nxt, b_condition = c, b_priority = Some 0, b_label = Some ''true'',
        b_next = nxt, b_is_default = False\<rparr>,
      \<lparr>b_name = else_nxt, b_condition = None, b_priority = Some 0, b_label = Some ''false'',
        b_next = else_nxt, b_is_default = True\<rparr>]"

text \<open>
  \<open>SwitchLegacy.setup_branches\<close>: one branch per case (its id and value), compared with the target,
  and the default branch last.  A case without \<open>id\<close> or \<open>value\<close> (\<open>None\<close> here) is a \<open>ValueError\<close>.
\<close>

record switch_case =
  case_id :: "string option"
  case_value :: "pyval option"
  case_name :: "string option"

definition case_branch :: "pyval \<Rightarrow> switch_case \<Rightarrow> exc + branch" where
  "case_branch target c =
     (case (case_id c, case_value c) of
        (Some i, Some v) \<Rightarrow>
          Inr \<lparr>b_name = Some i, b_condition = Some (Condition target OP_EQ v), b_priority = Some 0,
               b_label = case_name c, b_next = Some i, b_is_default = False\<rparr>
      | _ \<Rightarrow> Inl (plain_exc (Builtin ValueError)))"

definition case_branches :: "pyval \<Rightarrow> switch_case list \<Rightarrow> string option \<Rightarrow> exc + branch list" where
  "case_branches target cs dflt =
     rbind (rmap (case_branch target) cs) (\<lambda>bs.
       Inr (bs @ [\<lparr>b_name = Some ''default'', b_condition = None, b_priority = Some 0,
                   b_label = Some ''default'', b_next = dflt, b_is_default = True\<rparr>]))"

section \<open>Conditions\<close>

lemma match_condition_truthy [py_simps]:
  "ev f = Inr l \<Longrightarrow> match_condition ev f OP_TRUTHY v = Inr (truthy l)"
  "ev f = Inr l \<Longrightarrow> match_condition ev f OP_FALSY v = Inr (\<not> truthy l)"
  by (simp_all add: match_condition_def)

text \<open>A group of conditions that all evaluate is their conjunction or disjunction.\<close>

lemma match_group:
  assumes "\<And>c. c \<in> set cs \<Longrightarrow> match ev c = Inr (t c)"
  shows "match ev (ConditionGroup REL_AND cs) = Inr (\<forall>c \<in> set cs. t c)"
    and "match ev (ConditionGroup REL_OR cs) = Inr (cs = [] \<or> (\<exists>c \<in> set cs. t c))"
  using rmap_total [of cs "match ev" t] assms
  by (auto simp: list_all_iff list_ex_iff)

text \<open>Each pair of opposite operators: complementary wherever both operands are present.\<close>

fun opposite :: "cond_op \<Rightarrow> cond_op" where
  "opposite OP_EQ = OP_NE"
| "opposite OP_NE = OP_EQ"
| "opposite OP_IN = OP_NOTIN"
| "opposite OP_NOTIN = OP_IN"
| "opposite OP_CONTAINS = OP_NOT_CONTAINS"
| "opposite OP_NOT_CONTAINS = OP_CONTAINS"
| "opposite OP_TRUTHY = OP_FALSY"
| "opposite OP_FALSY = OP_TRUTHY"
| "opposite op = op"

definition has_opposite :: "cond_op \<Rightarrow> bool" where
  "has_opposite op \<longleftrightarrow> opposite op \<noteq> op"

lemma opposite_matcher:
  "has_opposite op \<Longrightarrow>
     condition_matcher (opposite op) l r = rbind (condition_matcher op l r) (\<lambda>b. Inr (\<not> b))"
  by (cases op) (auto simp: has_opposite_def rbind_def split: sum.splits)

section \<open>Branch selection\<close>

text \<open>\<open>hit\<close>: the branch has a condition and it holds.\<close>

definition hit :: "(pyval \<Rightarrow> exc + pyval) \<Rightarrow> branch \<Rightarrow> bool" where
  "hit ev b \<longleftrightarrow> (\<exists>c. b_condition b = Some c \<and> match ev c = Inr True)"

definition decidable_branches :: "(pyval \<Rightarrow> exc + pyval) \<Rightarrow> branch list \<Rightarrow> bool" where
  "decidable_branches ev bs \<longleftrightarrow>
     (\<forall>b \<in> set bs. \<forall>c. b_condition b = Some c \<longrightarrow> (\<exists>m. match ev c = Inr m))"

lemma hit_None: "b_condition b = None \<Longrightarrow> \<not> hit ev b"
  by (simp add: hit_def)

lemma hit_Some: "b_condition b = Some c \<Longrightarrow> match ev c = Inr m \<Longrightarrow> hit ev b = m"
  by (simp add: hit_def)

lemma first_matching_find:
  "decidable_branches ev bs \<Longrightarrow> first_matching ev bs = Inr (find (hit ev) bs)"
proof (induction bs)
  case Nil
  then show ?case by simp
next
  case (Cons b bs)
  then have IH: "first_matching ev bs = Inr (find (hit ev) bs)"
    by (simp add: decidable_branches_def)
  show ?case
  proof (cases "b_condition b")
    case None
    then show ?thesis by (simp add: IH hit_None)
  next
    case (Some c)
    with Cons.prems obtain m where "match ev c = Inr m"
      by (auto simp: decidable_branches_def)
    with Some show ?thesis by (simp add: IH hit_Some)
  qed
qed

lemma find_SomeD: "find P xs = Some x \<Longrightarrow> x \<in> set xs \<and> P x"
  by (induction xs) (auto split: if_splits)

lemma find_NoneD: "find P xs = None \<Longrightarrow> x \<in> set xs \<Longrightarrow> \<not> P x"
  by (induction xs) (auto split: if_splits)

lemma find_append_no: "\<forall>x \<in> set xs. \<not> P x \<Longrightarrow> find P (xs @ ys) = find P ys"
  by (induction xs) auto

text \<open>The first hit of a list sorted by a key has the least key, and is the earliest with it.\<close>

lemma find_sorted_least:
  "sorted (map k xs) \<Longrightarrow> find P xs = Some x \<Longrightarrow> y \<in> set xs \<Longrightarrow> P y \<Longrightarrow> k x \<le> k y"
  by (induction xs) (auto split: if_splits dest: find_SomeD)

lemma find_filter: "find P (filter Q xs) = find (\<lambda>x. Q x \<and> P x) xs"
  by (induction xs) auto

lemma find_cong_key:
  "find P xs = Some x \<Longrightarrow> find (\<lambda>y. k y = k x \<and> P y) xs = Some x"
  by (induction xs) (auto split: if_splits dest: find_SomeD)

lemma find_sort_key:
  assumes "find P (sort_key k xs) = Some x"
  shows "find (\<lambda>y. k y = k x \<and> P y) xs = Some x"
proof -
  from assms have "find (\<lambda>y. k y = k x \<and> P y) (sort_key k xs) = Some x"
    by (rule find_cong_key)
  then have "find P (filter (\<lambda>y. k y = k x) (sort_key k xs)) = Some x"
    by (simp add: find_filter)
  then have "find P (filter (\<lambda>y. k y = k x) xs) = Some x"
    by (simp only: sort_key_stable)
  then show ?thesis by (simp add: find_filter)
qed

lemma switch_execute_eq:
  "decidable_branches ev bs \<Longrightarrow>
     switch_execute ev as_target bs =
       Inr (case find (hit ev) (sort_key (\<lambda>b. - prio b) bs) of
              Some b \<Rightarrow> resolve_branch_target as_target b
            | None \<Rightarrow>
                (case find b_is_default bs of
                   Some b \<Rightarrow> resolve_branch_target as_target b
                 | None \<Rightarrow> None))"
  by (subst switch_execute_def, subst first_matching_find)
    (auto simp: decidable_branches_def split: option.splits)

text \<open>
  The target returned by a switch is always the target of one of its branches.
\<close>

lemma first_matching_member: "first_matching ev bs = Inr (Some b) \<Longrightarrow> b \<in> set bs"
  by (induction bs) (auto simp: rbind_eq_Inr_iff split: option.splits if_splits)

lemma switch_execute_target:
  assumes "switch_execute ev as_target bs = Inr (Some t)"
  shows "\<exists>b \<in> set bs. resolve_branch_target as_target b = Some t"
  using assms
  by (fastforce simp: switch_execute_def rbind_eq_Inr_iff split: option.splits
      dest!: first_matching_member find_SomeD)

lemma case_branch_Inr_iff:
  "case_branch target c = Inr b \<longleftrightarrow>
     (\<exists>i v. case_id c = Some i \<and> case_value c = Some v \<and>
        b = \<lparr>b_name = Some i, b_condition = Some (Condition target OP_EQ v), b_priority = Some 0,
             b_label = case_name c, b_next = Some i, b_is_default = False\<rparr>)"
  by (auto simp: case_branch_def split: option.splits)

lemma case_branches_decidable:
  assumes "case_branches target cs dflt = Inr bs"
    and "ev target = Inr l" and "\<And>c v. c \<in> set cs \<Longrightarrow> case_value c = Some v \<Longrightarrow> \<exists>r. ev v = Inr r"
  shows "decidable_branches ev bs"
proof -
  obtain bs0 where r: "rmap (case_branch target) cs = Inr bs0"
    and bs: "bs = bs0 @ [\<lparr>b_name = Some ''default'', b_condition = None, b_priority = Some 0,
                   b_label = Some ''default'', b_next = dflt, b_is_default = True\<rparr>]"
    using assms(1) by (auto simp: case_branches_def rbind_eq_Inr_iff)
  have "\<exists>m. match ev c = Inr m" if b: "b \<in> set bs0" "b_condition b = Some c" for b c
  proof -
    from b(1) obtain i where i: "i < length bs0" "b = bs0 ! i" by (auto simp: in_set_conv_nth)
    with r have "case_branch target (cs ! i) = Inr b" and m: "cs ! i \<in> set cs"
      by (auto simp: rmap_nth rmap_length [OF r])
    with b(2) obtain v where "case_value (cs ! i) = Some v" and c: "c = Condition target OP_EQ v"
      by (auto simp: case_branch_def split: option.splits)
    with assms(3) [OF m] obtain r' where "ev v = Inr r'" by auto
    with assms(2) c show ?thesis by (simp add: match_condition_def lift_py_def)
  qed
  then show ?thesis by (auto simp: bs decidable_branches_def)
qed

section \<open>Properties\<close>

lemma sort_key_const_on: "(\<And>x. x \<in> set xs \<Longrightarrow> f x = c) \<Longrightarrow> sort_key f xs = xs"
proof (induction xs)
  case Nil
  then show ?case by simp
next
  case (Cons x xs)
  then have "sort_key f xs = xs" by simp
  moreover have "insort_key f x xs = x # xs"
    using Cons.prems by (intro insort_is_Cons) simp
  ultimately show ?case by simp
qed

text \<open>
  Among the branches of a switch whose condition holds, the one with the highest priority
  is taken, and of several with that priority the one declared first; the switch returns the
  target of exactly that branch.
\<close>

theorem switch_highest_priority:
  assumes "decidable_branches ev bs" and "\<exists>b \<in> set bs. hit ev b"
  shows "\<exists>b \<in> set bs. switch_execute ev as_target bs = Inr (resolve_branch_target as_target b)
           \<and> hit ev b \<and> (\<forall>b' \<in> set bs. hit ev b' \<longrightarrow> prio b' \<le> prio b)
           \<and> find (\<lambda>b'. prio b' = prio b \<and> hit ev b') bs = Some b"
proof -
  let ?s = "sort_key (\<lambda>b. - prio b) bs"
  from assms(2) obtain b where f: "find (hit ev) ?s = Some b"
    using find_NoneD [of "hit ev" ?s] by (cases "find (hit ev) ?s") auto
  then have b: "b \<in> set bs" "hit ev b" by (auto dest!: find_SomeD)
  moreover from f have "prio b' \<le> prio b" if "b' \<in> set bs" "hit ev b'" for b'
    using find_sorted_least [of "\<lambda>b. - prio b" ?s "hit ev" b b'] that by simp
  moreover from find_sort_key [OF f] have "find (\<lambda>b'. prio b' = prio b \<and> hit ev b') bs = Some b"
    by simp
  ultimately show ?thesis
    using f by (auto simp: switch_execute_eq [OF assms(1)])
qed

theorem switch_highest_priority_witness:
  "\<exists>b \<in> set [\<lparr>b_name = Some ''a'', b_condition = Some (Condition (PInt 1) OP_TRUTHY PNone),
               b_priority = None, b_label = None, b_next = Some ''x'', b_is_default = False\<rparr>,
             \<lparr>b_name = Some ''b'', b_condition = Some (Condition (PInt 1) OP_LT (PInt 2)),
               b_priority = Some 5, b_label = None, b_next = None, b_is_default = False\<rparr>].
     switch_execute Inr True
       [\<lparr>b_name = Some ''a'', b_condition = Some (Condition (PInt 1) OP_TRUTHY PNone),
               b_priority = None, b_label = None, b_next = Some ''x'', b_is_default = False\<rparr>,
             \<lparr>b_name = Some ''b'', b_condition = Some (Condition (PInt 1) OP_LT (PInt 2)),
               b_priority = Some 5, b_label = None, b_next = None, b_is_default = False\<rparr>]
       = Inr (resolve_branch_target True b) \<and> hit Inr b \<and> prio b = 5"
proof -
  let ?bs = "[\<lparr>b_name = Some ''a'', b_condition = Some (Condition (PInt 1) OP_TRUTHY PNone),
               b_priority = None, b_label = None, b_next = Some ''x'', b_is_default = False\<rparr>,
             \<lparr>b_name = Some ''b'', b_condition = Some (Condition (PInt 1) OP_LT (PInt 2)),
               b_priority = Some 5, b_label = None, b_next = None, b_is_default = False\<rparr>] :: branch list"
  have d: "decidable_branches Inr ?bs"
    by (auto simp: decidable_branches_def match_condition_def lift_py_def)
  have h: "\<exists>b \<in> set ?bs. hit Inr b"
    by (auto simp: hit_def match_condition_def lift_py_def)
  show ?thesis
    using switch_highest_priority [OF d h, of True]
    by (auto simp: hit_def match_condition_def lift_py_def prio_def)
qed

text \<open>
  When no condition of a switch holds, the first branch marked as default decides; without
  one the switch returns no target.
\<close>

theorem switch_default_branch:
  assumes "decidable_branches ev bs" and "\<forall>b \<in> set bs. \<not> hit ev b"
  shows "switch_execute ev as_target bs =
           Inr (Option.bind (find b_is_default bs) (resolve_branch_target as_target))"
proof -
  have "find (hit ev) (sort_key (\<lambda>b. - prio b) bs) = None"
    using assms(2) by (auto simp: find_None_iff)
  then show ?thesis
    by (simp add: switch_execute_eq [OF assms(1)] split: option.splits)
qed

theorem switch_default_branch_witness:
  "switch_execute Inr True
     [\<lparr>b_name = Some ''a'', b_condition = Some (Condition (PInt 0) OP_TRUTHY PNone),
        b_priority = None, b_label = None, b_next = Some ''x'', b_is_default = False\<rparr>,
      \<lparr>b_name = Some ''b'', b_condition = None, b_priority = None, b_label = None,
        b_next = Some ''y'', b_is_default = True\<rparr>] = Inr (Some ''y'')"
  by (subst switch_default_branch)
    (auto simp: decidable_branches_def hit_def match_condition_def resolve_branch_target_def
      str_truthy_def)

text \<open>
  An \<open>if\<close> node goes to \<open>next\<close> when its condition holds and to \<open>else_next\<close> when it does not.
\<close>

theorem if_node_routes:
  assumes "match ev c = Inr m"
  shows "switch_execute ev True (bool_branches (Some c) nxt els) = Inr (if m then nxt else els)"
  using assms
  by (simp add: switch_execute_def bool_branches_def resolve_branch_target_def prio_def)

theorem if_node_routes_witness:
  "switch_execute Inr True
     (bool_branches (Some (Condition (PStr ''b'') OP_IN (PList [PStr ''a'', PStr ''b''])))
        (Some ''yes'') (Some ''no'')) = Inr (Some ''yes'')"
proof -
  have "match Inr (Condition (PStr ''b'') OP_IN (PList [PStr ''a'', PStr ''b''])) = Inr True"
    by (simp add: match_condition_def lift_py_def)
  from if_node_routes [OF this, of "Some ''yes''" "Some ''no''"] show ?thesis by simp
qed

text \<open>
  A \<open>case\<close> node goes to the id of the first case whose value equals the target, and to the
  default when no case does.
\<close>

theorem case_node_first_equal:
  assumes "case_branches target cs dflt = Inr bs"
    and "ev target = Inr l" and "l \<noteq> PNone"
    and vals: "\<And>c. c \<in> set cs \<Longrightarrow> \<exists>v. case_value c = Some v \<and> ev v = Inr (val c) \<and> val c \<noteq> PNone"
  shows "switch_execute ev True bs =
           Inr (case find (\<lambda>c. py_eq l (val c)) cs of
                  Some c \<Rightarrow> case_id c
                | None \<Rightarrow> if str_truthy dflt then dflt else Some ''default'')"
proof -
  let ?d = "\<lparr>b_name = Some ''default'', b_condition = None, b_priority = Some 0,
             b_label = Some ''default'', b_next = dflt, b_is_default = True\<rparr>"
  obtain bs0 where r: "rmap (case_branch target) cs = Inr bs0" and bs: "bs = bs0 @ [?d]"
    using assms(1) by (auto simp: case_branches_def rbind_eq_Inr_iff)
  have first: "first_matching ev (bs0 @ [?d]) =
      Inr (map_option (\<lambda>c. \<lparr>b_name = case_id c, b_condition = Some (Condition target OP_EQ (the (case_value c))),
             b_priority = Some 0, b_label = case_name c, b_next = case_id c, b_is_default = False\<rparr>)
           (find (\<lambda>c. py_eq l (val c)) cs))
      \<and> (\<forall>b \<in> set bs0. prio b = 0 \<and> \<not> b_is_default b)"
    using r vals
  proof (induction cs arbitrary: bs0)
    case Nil
    then show ?case by simp
  next
    case (Cons c cs)
    from Cons.prems(2) [of c] obtain v where
      v: "case_value c = Some v" "ev v = Inr (val c)" "val c \<noteq> PNone" by auto
    from Cons.prems(1) v obtain i bs1 where i: "case_id c = Some i"
      and bs1: "rmap (case_branch target) cs = Inr bs1"
      and bs0: "bs0 = \<lparr>b_name = Some i, b_condition = Some (Condition target OP_EQ v),
                 b_priority = Some 0, b_label = case_name c, b_next = Some i, b_is_default = False\<rparr> # bs1"
      by (auto simp: rbind_eq_Inr_iff case_branch_Inr_iff)
    from Cons.IH [OF bs1] Cons.prems(2) v i bs0 assms(2,3) show ?case
      by (simp add: match_condition_def lift_py_def prio_def)
  qed
  have "sort_key (\<lambda>b. - prio b) bs = bs"
    using first by (intro sort_key_const_on [of _ _ 0]) (auto simp: bs prio_def)
  moreover have "find b_is_default bs = Some ?d"
    using first by (simp add: bs find_append_no)
  ultimately show ?thesis
    using first by (auto simp: switch_execute_def bs resolve_branch_target_def split: option.splits)
qed

theorem case_node_first_equal_witness:
  "\<exists>bs. case_branches (PStr ''b'')
          [\<lparr>case_id = Some ''n1'', case_value = Some (PStr ''a''), case_name = None\<rparr>,
           \<lparr>case_id = Some ''n2'', case_value = Some (PStr ''b''), case_name = None\<rparr>] None = Inr bs
        \<and> switch_execute Inr True bs = Inr (Some ''n2'')"
proof -
  let ?cs = "[\<lparr>case_id = Some ''n1'', case_value = Some (PStr ''a''), case_name = None\<rparr>,
              \<lparr>case_id = Some ''n2'', case_value = Some (PStr ''b''), case_name = None\<rparr>]"
  obtain bs where bs: "case_branches (PStr ''b'') ?cs None = Inr bs"
    by (simp add: case_branches_def case_branch_def)
  have v: "\<exists>v. case_value c = Some v \<and> Inr v = Inr (the (case_value c)) \<and> the (case_value c) \<noteq> PNone"
    if "c \<in> set ?cs" for c
    using that by auto
  have "switch_execute Inr True bs = Inr (Some ''n2'')"
    using case_node_first_equal [of "PStr ''b''" ?cs None bs Inr "PStr ''b''" "\<lambda>c. the (case_value c)", OF bs _ _ v]
    by simp
  with bs show ?thesis by blast
qed

text \<open>
  Opposite operators (\<open>eq\<close>/\<open>ne\<close>, \<open>in\<close>/\<open>notIn\<close>, \<open>contains\<close>/\<open>notContains\<close>,
  \<open>truthy\<close>/\<open>falsy\<close>) are complementary on operands that are present, but on an absent operand
  both \<open>in\<close> and \<open>notIn\<close>, and both \<open>contains\<close> and \<open>notContains\<close>, are false.
\<close>

theorem opposite_operators:
  assumes "ev f = Inr l" and "ev v = Inr r" and "has_opposite op"
  shows "(l \<noteq> PNone \<and> r \<noteq> PNone \<longrightarrow>
            match_condition ev f (opposite op) v = rbind (match_condition ev f op v) (\<lambda>b. Inr (\<not> b)))
       \<and> ((l = PNone \<or> r = PNone) \<and> op \<in> {OP_IN, OP_NOTIN, OP_CONTAINS, OP_NOT_CONTAINS} \<longrightarrow>
            match_condition ev f op v = Inr False \<and> match_condition ev f (opposite op) v = Inr False)"
proof -
  have "match_condition ev f (opposite op) v = rbind (match_condition ev f op v) (\<lambda>b. Inr (\<not> b))"
    if "l \<noteq> PNone" "r \<noteq> PNone"
    using assms that opposite_matcher [of op l r]
    by (cases op) (auto simp: match_condition_def lift_py_def has_opposite_def rbind_def
        split: sum.splits)
  moreover have "match_condition ev f op v = Inr False \<and> match_condition ev f (opposite op) v = Inr False"
    if "l = PNone \<or> r = PNone" "op \<in> {OP_IN, OP_NOTIN, OP_CONTAINS, OP_NOT_CONTAINS}"
    using assms that by (auto simp: match_condition_def)
  ultimately show ?thesis by blast
qed

theorem opposite_operators_witness:
  "match_condition Inr (PInt 3) OP_NOTIN (PList [PInt 1, PInt 2]) = Inr True
     \<and> match_condition Inr PNone OP_NOTIN (PList [PInt 1]) = Inr False"
proof -
  have h: "has_opposite OP_IN" by (simp add: has_opposite_def)
  show ?thesis
    using opposite_operators [of Inr "PInt 3" "PInt 3" "PList [PInt 1, PInt 2]" "PList [PInt 1, PInt 2]" OP_IN]
      opposite_operators [of Inr PNone PNone "PList [PInt 1]" "PList [PInt 1]" OP_IN] h
    by (simp add: match_condition_def lift_py_def)
qed

end
