(* ===== verification/Flow_Graph.thy ===== *)
theory Flow_Graph
  imports Decide
begin

text \<open>
  \<^verbatim>\<open>plaita/core/flow.py\<close>: a flow and its nodes, the node index, the entry node, the routing
  from a node to its successor, the detection of cycles at resolve time and the scan for
  \<open>$ENV\<close> references.  A node carries the attributes the engine reads (class-level flags of its
  node type included); what a node computes is the business of the runner's environment.
\<close>

section \<open>Data\<close>

datatype node = Node
    (nd_id: string) (nd_type: string) (nd_name: "string option") (nd_next: "string option")
    (nd_branching: bool) (nd_branches: "branch list option") (nd_name_as_target: bool)
    (nd_suspending: bool) (nd_timeout: pyval)
    (nd_timeout_handler: error_handler) (nd_error_handler: error_handler)
    (nd_event_type: string) (nd_event_filter: "(string \<times> pyval) list")
    (nd_subscription_timeout: "int option") (nd_child_flow: "flow option")
  and flow = Flow
    (flow_id: "string option") (nodes: "node list") (flow_timeout: pyval)
    (global_context: "(string \<times> pyval) list") (expose_env: "string list")

text \<open>A node with the defaults of \<open>Node\<close>: no branches, no timeout, default handlers.\<close>

definition simple_node :: "string \<Rightarrow> string \<Rightarrow> string option \<Rightarrow> node" where
  "simple_node i t nxt =
     Node i t None nxt False None False False (PStr []) default_error_handler
       default_error_handler [] [] None None"

definition switch_node :: "string \<Rightarrow> branch list \<Rightarrow> node" where
  "switch_node i bs =
     Node i ''switch'' None None True (Some bs) True False (PStr []) default_error_handler
       default_error_handler [] [] None None"

section \<open>Index and routing\<close>

text \<open>\<open>{n.id: n for n in nodes}\<close>: a later node replaces an earlier one with the same id.\<close>

definition build_index :: "node list \<Rightarrow> node dict" where
  "build_index ns = fold (\<lambda>n. dict_set (nd_id n) n) ns []"

text \<open>
  The lazily built index of a flow object: the node list with the identity of the list object,
  the cached index and its fingerprint \<open>(id(nodes), ids)\<close> (\<open>None\<close> is the empty tuple).
\<close>

record index_state =
  ix_list :: nat
  ix_nodes :: "node list"
  ix_index :: "node dict"
  ix_sig :: "(nat \<times> string list) option"

definition ensure_index :: "index_state \<Rightarrow> index_state" where
  "ensure_index s =
     (let sig = (ix_list s, map nd_id (ix_nodes s)) in
      if ix_index s \<noteq> [] \<and> ix_sig s = Some sig then s
      else s\<lparr>ix_index := build_index (ix_nodes s), ix_sig := Some sig\<rparr>)"

definition rebuild_node_index :: "index_state \<Rightarrow> index_state" where
  "rebuild_node_index s = ensure_index (s\<lparr>ix_sig := None\<rparr>)"

definition start_node :: "flow \<Rightarrow> exc + node option" where
  "start_node f =
     (case find (\<lambda>n. nd_type n = ''start'') (nodes f) of
        Some n \<Rightarrow> Inr (Some n)
      | None \<Rightarrow> if nodes f = [] then Inr None else Inl flow_start_missing_error)"

definition find_node_by_id :: "flow \<Rightarrow> string option \<Rightarrow> exc + node option" where
  "find_node_by_id f i =
     (case i of
        None \<Rightarrow> Inr None
      | Some k \<Rightarrow>
          (case dict_get (build_index (nodes f)) k of
             None \<Rightarrow> Inl node_not_found_error
           | Some n \<Rightarrow> Inr (Some n)))"

definition is_end_node :: "node \<Rightarrow> bool" where
  "is_end_node n \<longleftrightarrow> nd_type n = ''end''"

definition get_branch_target :: "node \<Rightarrow> string option \<Rightarrow> string option" where
  "get_branch_target n br =
     (case nd_branches n of
        None \<Rightarrow> None
      | Some bs \<Rightarrow>
          if \<not> str_truthy br then None
          else (case find (\<lambda>b. resolve_branch_target (nd_name_as_target n) b = br) bs of
                  None \<Rightarrow> None
                | Some b \<Rightarrow> resolve_branch_target (nd_name_as_target n) b))"

definition get_target_node :: "node \<Rightarrow> string option \<Rightarrow> string option" where
  "get_target_node n br =
     (if \<not> nd_branching n \<and> str_truthy (nd_next n) then nd_next n else get_branch_target n br)"

definition next_node :: "flow \<Rightarrow> node \<Rightarrow> string option \<Rightarrow> exc + node option" where
  "next_node f n br =
     (if is_end_node n then Inr None else find_node_by_id f (get_target_node n br))"

section \<open>Cycle detection\<close>

datatype color = GRAY | BLACK

definition targets :: "string list dict \<Rightarrow> string \<Rightarrow> string list" where
  "targets adj n = (case dict_get adj n of None \<Rightarrow> [] | Some ts \<Rightarrow> ts)"

definition mentioned :: "string list dict \<Rightarrow> (string \<times> string list) list \<Rightarrow> string set" where
  "mentioned adj st = (\<Union>(set ` snd ` set adj)) \<union> (\<Union>(set ` snd ` set st))"

lemma finite_mentioned [simp]: "finite (mentioned adj st)"
  by (simp add: mentioned_def)

lemma targets_mentioned: "set (targets adj n) \<subseteq> mentioned adj st"
proof (cases "dict_get adj n")
  case None
  then show ?thesis by (simp add: targets_def)
next
  case (Some ts)
  then have "(n, ts) \<in> set adj" by (simp add: dict_get_def map_of_SomeD)
  with Some show ?thesis by (force simp: targets_def mentioned_def)
qed

lemma resolve_loop_push_less:
  assumes "dict_get col t = None"
  shows "card (mentioned adj ((t, targets adj t) # (n, ts) # st) - dict_keys (dict_set t GRAY col))
         < card (mentioned adj ((n, t # ts) # st) - dict_keys col)"
proof (rule psubset_card_mono)
  show "finite (mentioned adj ((n, t # ts) # st) - dict_keys col)" by simp
  have t: "t \<in> mentioned adj ((n, t # ts) # st)" by (auto simp: mentioned_def)
  have "mentioned adj ((t, targets adj t) # (n, ts) # st) \<subseteq> mentioned adj ((n, t # ts) # st)"
    using targets_mentioned [of adj t "(n, ts) # st"] by (auto simp: mentioned_def)
  with t assms show "mentioned adj ((t, targets adj t) # (n, ts) # st) - dict_keys (dict_set t GRAY col)
      \<subset> mentioned adj ((n, t # ts) # st) - dict_keys col"
    by (auto simp: dict_get_None_iff dict_keys_has)
qed

lemma card_mentioned_mono:
  "mentioned adj st' \<subseteq> mentioned adj st \<Longrightarrow> dict_keys col \<subseteq> dict_keys col' \<Longrightarrow>
     card (mentioned adj st' - dict_keys col') \<le> card (mentioned adj st - dict_keys col)"
  by (intro card_mono) auto

text \<open>
  The loop of \<open>_resolve_cycle\<close>: the stack of frames (top first; a frame is a node and the targets
  still to visit) and the colours (white is absence).  A gray target is a back edge: the path
  from that ancestor to the top, closed by the target, is the answer.
\<close>

function (sequential) resolve_loop ::
  "string list dict \<Rightarrow> (string \<times> string list) list \<Rightarrow> color dict \<Rightarrow> exc + string list" where
  "resolve_loop adj [] col = Inr []"
| "resolve_loop adj ((n, []) # st) col = resolve_loop adj st (dict_set n BLACK col)"
| "resolve_loop adj ((n, t # ts) # st) col =
     (case dict_get col t of
        Some GRAY \<Rightarrow>
          if t \<in> set (n # map fst st)
          then Inr (dropWhile (\<lambda>m. m \<noteq> t) (rev (n # map fst st)) @ [t])
          else Inl (plain_exc OtherError)
      | Some BLACK \<Rightarrow> resolve_loop adj ((n, ts) # st) col
      | None \<Rightarrow> resolve_loop adj ((t, targets adj t) # (n, ts) # st) (dict_set t GRAY col))"
  by pat_completeness auto

termination
proof (relation "measures [\<lambda>(adj, st, col). card (mentioned adj st - dict_keys col),
    \<lambda>(adj, st, col). sum_list (map (\<lambda>f. Suc (length (snd f))) st)]", goal_cases)
  case 1
  then show ?case by simp
next
  case (2 adj n st col)
  have "card (mentioned adj st - dict_keys (dict_set n BLACK col))
        \<le> card (mentioned adj ((n, []) # st) - dict_keys col)"
    by (rule card_mentioned_mono) (auto simp: mentioned_def)
  then show ?case by (auto simp: le_less)
next
  case (3 adj n t ts st col)
  then show ?case using resolve_loop_push_less [of col t adj n ts st] by simp
next
  case (4 adj n t ts st col)
  have "card (mentioned adj ((n, ts) # st) - dict_keys col)
        \<le> card (mentioned adj ((n, t # ts) # st) - dict_keys col)"
    by (rule card_mentioned_mono) (auto simp: mentioned_def)
  then show ?case by (auto simp: le_less)
qed

definition resolve_cycle :: "string list dict \<Rightarrow> string \<Rightarrow> exc + string list" where
  "resolve_cycle adj root = resolve_loop adj [(root, targets adj root)] [(root, GRAY)]"

text \<open>The adjacency \<open>resolve_nodes\<close> builds: \<open>next\<close> and branch targets that are ids of the flow.\<close>

definition node_targets :: "node \<Rightarrow> string list" where
  "node_targets n =
     (if str_truthy (nd_next n) then [the (nd_next n)] else [])
     @ concat (map (\<lambda>b. case b_next b of None \<Rightarrow> [] | Some t \<Rightarrow> [t])
         (case nd_branches n of None \<Rightarrow> [] | Some bs \<Rightarrow> bs))"

definition adjacency :: "node list \<Rightarrow> string list dict" where
  "adjacency ns =
     (let idx = build_index (filter (\<lambda>n. nd_id n \<noteq> []) ns)
      in map (\<lambda>(i, n). (i, filter (dict_has idx) (node_targets n))) idx)"

text \<open>The cycle warning of \<open>resolve_nodes\<close>: the cycle found, if one is reported.\<close>

definition cycle_warning :: "flow \<Rightarrow> exc + string list option" where
  "cycle_warning f =
     rbind (start_node f) (\<lambda>s.
       case s of
         None \<Rightarrow> Inr None
       | Some n \<Rightarrow>
           if dict_has (adjacency (nodes f)) (nd_id n)
           then rbind (resolve_cycle (adjacency (nodes f)) (nd_id n)) (\<lambda>c.
                  Inr (if c \<noteq> [] \<and> \<not> truthy (flow_timeout f) then Some c else None))
           else Inr None)"

section \<open>Scan for \<open>$ENV\<close> references\<close>

definition is_key_char :: "char \<Rightarrow> bool" where
  "is_key_char c \<longleftrightarrow>
     (let n = (of_char c :: nat) in
      48 \<le> n \<and> n \<le> 57 \<or> 65 \<le> n \<and> n \<le> 90 \<or> 97 \<le> n \<and> n \<le> 122 \<or> n = 95)"

definition ENV_REF_PREFIX :: string where
  "ENV_REF_PREFIX = ''$ENV.''"

text \<open>
  The \<open>while\<close> loop on one string: \<open>s\<close> is \<open>obj[start:]\<close>.  The next search starts one character
  after the end of the key (\<open>start = j + 1\<close>).
\<close>

function env_refs_str :: "string \<Rightarrow> string list" where
  "env_refs_str s =
     (if s = [] then []
      else if prefix ENV_REF_PREFIX s then
        (let rest = drop (length ENV_REF_PREFIX) s;
             key = takeWhile is_key_char rest;
             after = drop (Suc (length key)) rest
         in (if key \<noteq> [] then [key] else []) @ env_refs_str after)
      else env_refs_str (tl s))"
  by pat_completeness auto
termination
  by (relation "measure length") (auto simp: ENV_REF_PREFIX_def)

declare env_refs_str.simps [simp del]

fun collect_env_refs :: "pyval \<Rightarrow> string list" where
  "collect_env_refs (PStr s) = env_refs_str s"
| "collect_env_refs (PDict d) = concat (map (\<lambda>p. collect_env_refs (snd p)) d)"
| "collect_env_refs (PList xs) = concat (map collect_env_refs xs)"
| "collect_env_refs (PTuple xs) = concat (map collect_env_refs xs)"
| "collect_env_refs _ = []"

section \<open>Entry point checks\<close>

definition enforce_dict_input :: "pyval list \<Rightarrow> exc + unit" where
  "enforce_dict_input args =
     (case args of
        [] \<Rightarrow> Inr ()
      | [PDict _] \<Rightarrow> Inr ()
      | _ \<Rightarrow> Inl (plain_exc (Builtin TypeError)))"

definition RESERVED_RUN_KEYWORDS :: "string list" where
  "RESERVED_RUN_KEYWORDS = [''inputs_data'', ''input_data'', ''lazy'']"

definition reject_reserved_run_keywords :: "(string \<times> pyval) list \<Rightarrow> exc + unit" where
  "reject_reserved_run_keywords params =
     (if list_ex (\<lambda>p. fst p \<in> set RESERVED_RUN_KEYWORDS) params
      then Inl (plain_exc (Builtin TypeError)) else Inr ())"

section \<open>Index lemmas\<close>

lemma build_index_snoc: "build_index (ns @ [n]) = dict_set (nd_id n) n (build_index ns)"
  by (simp add: build_index_def)

lemma build_index_Nil [simp]: "build_index [] = []"
  by (simp add: build_index_def)

lemma build_index_wf: "dict_wf (build_index ns)"
  by (induction ns rule: rev_induct) (simp_all add: build_index_snoc)

lemma build_index_get:
  "dict_get (build_index ns) k = find (\<lambda>n. nd_id n = k) (rev ns)"
  by (induction ns rule: rev_induct) (auto simp: build_index_snoc)

lemma build_index_get_id: "dict_get (build_index ns) k = Some n \<Longrightarrow> nd_id n = k \<and> n \<in> set ns"
  by (auto simp: build_index_get dest: find_SomeD)

lemma build_index_has: "dict_has (build_index ns) k \<longleftrightarrow> k \<in> nd_id ` set ns"
  by (induction ns rule: rev_induct) (auto simp: build_index_snoc)

lemma build_index_distinct:
  "distinct (map nd_id ns) \<Longrightarrow> n \<in> set ns \<Longrightarrow> dict_get (build_index ns) (nd_id n) = Some n"
proof (induction ns rule: rev_induct)
  case Nil
  then show ?case by simp
next
  case (snoc m ns)
  then show ?case by (auto simp: build_index_snoc) (metis image_eqI)
qed

section \<open>Cycle detection is correct\<close>

definition edge :: "string list dict \<Rightarrow> string \<Rightarrow> string \<Rightarrow> bool" where
  "edge adj u v \<longleftrightarrow> v \<in> set (targets adj u)"

definition reachable_cycle :: "string list dict \<Rightarrow> string \<Rightarrow> bool" where
  "reachable_cycle adj root \<longleftrightarrow> (\<exists>v. (edge adj)\<^sup>*\<^sup>* root v \<and> (edge adj)\<^sup>+\<^sup>+ v v)"

text \<open>A closed walk: consecutive nodes are joined by edges and the last is the first.\<close>

definition closed_walk :: "string list dict \<Rightarrow> string list \<Rightarrow> bool" where
  "closed_walk adj p \<longleftrightarrow> 2 \<le> length p \<and> hd p = last p \<and>
     (\<forall>i. Suc i < length p \<longrightarrow> edge adj (p ! i) (p ! Suc i))"

text \<open>The stack, bottom to top, is a path from the root.\<close>

fun chain :: "string list dict \<Rightarrow> string \<Rightarrow> string list \<Rightarrow> bool" where
  "chain adj root [] = True"
| "chain adj root [n] = (n = root)"
| "chain adj root (n # m # ns) = (edge adj m n \<and> chain adj root (m # ns))"

text \<open>Targets of a frame are still to visit, black, or (below the top) the frame above.\<close>

fun cover :: "string list dict \<Rightarrow> string set \<Rightarrow> string set \<Rightarrow> (string \<times> string list) list \<Rightarrow> bool" where
  "cover adj A B [] = True"
| "cover adj A B ((n, r) # st) =
     (set (targets adj n) \<subseteq> set r \<union> B \<union> A \<and> set r \<subseteq> set (targets adj n) \<and> cover adj {n} B st)"

text \<open>The black nodes in the order they were finished, the latest first.\<close>

fun ranked :: "string list dict \<Rightarrow> string list \<Rightarrow> bool" where
  "ranked adj [] = True"
| "ranked adj (n # ns) = (n \<notin> set ns \<and> set (targets adj n) \<subseteq> set ns \<and> ranked adj ns)"

definition coloured :: "color dict \<Rightarrow> color \<Rightarrow> string set" where
  "coloured col c = {k. dict_get col k = Some c}"

definition dfs_inv :: "string list dict \<Rightarrow> string \<Rightarrow> (string \<times> string list) list \<Rightarrow> color dict \<Rightarrow> bool" where
  "dfs_inv adj root st col \<longleftrightarrow>
     distinct (map fst st) \<and> set (map fst st) = coloured col GRAY
     \<and> chain adj root (map fst st) \<and> cover adj {} (coloured col BLACK) st
     \<and> (\<exists>fin. set fin = coloured col BLACK \<and> ranked adj fin)
     \<and> root \<in> coloured col GRAY \<union> coloured col BLACK"

lemma coloured_set: "coloured (dict_set k c col) c' = (if c' = c then insert k (coloured col c') else coloured col c' - {k})"
  by (auto simp: coloured_def)

lemma cover_finish: "cover adj A B st \<Longrightarrow> cover adj {} (A \<union> B) st"
proof (induction adj A B st rule: cover.induct)
  case (2 adj A B n r st)
  have "cover adj {n} B st \<Longrightarrow> cover adj {n} (A \<union> B) st" for n
    by (induction adj "{n}" B st arbitrary: n rule: cover.induct) auto
  with 2 show ?case by auto
qed simp

lemma ranked_closed: "ranked adj fin \<Longrightarrow> u \<in> set fin \<Longrightarrow> edge adj u v \<Longrightarrow> v \<in> set fin"
  by (induction fin) (auto simp: edge_def)

lemma ranked_closed_star: "ranked adj fin \<Longrightarrow> (edge adj)\<^sup>*\<^sup>* u v \<Longrightarrow> u \<in> set fin \<Longrightarrow> v \<in> set fin"
  by (rotate_tac, induction rule: rtranclp_induct) (auto intro: ranked_closed)

lemma ranked_acyclic: "ranked adj fin \<Longrightarrow> v \<in> set fin \<Longrightarrow> \<not> (edge adj)\<^sup>+\<^sup>+ v v"
proof (induction fin)
  case Nil
  then show ?case by simp
next
  case (Cons n fin)
  show ?case
  proof (cases "v = n")
    case True
    show ?thesis
    proof
      assume "(edge adj)\<^sup>+\<^sup>+ v v"
      then obtain w where "edge adj v w" and "(edge adj)\<^sup>*\<^sup>* w v"
        by (auto dest: tranclpD)
      with True Cons.prems have "w \<in> set fin" by (auto simp: edge_def)
      with Cons.prems \<open>(edge adj)\<^sup>*\<^sup>* w v\<close> have "v \<in> set fin" by (auto intro: ranked_closed_star)
      with True Cons.prems show False by simp
    qed
  next
    case False
    with Cons show ?thesis by simp
  qed
qed

lemma chain_reaches: "chain adj root ns \<Longrightarrow> n \<in> set ns \<Longrightarrow> (edge adj)\<^sup>*\<^sup>* root n"
proof (induction adj root ns arbitrary: n rule: chain.induct)
  case (3 adj root n m ns)
  then have "(edge adj)\<^sup>*\<^sup>* root m" by simp
  with 3 show ?case by (auto intro: rtranclp.rtrancl_into_rtrancl)
qed auto

lemma chain_edges:
  "chain adj root ns \<Longrightarrow> Suc j < length ns \<Longrightarrow> edge adj (ns ! Suc j) (ns ! j)"
proof (induction adj root ns arbitrary: j rule: chain.induct)
  case (3 adj root n m ns)
  then show ?case by (cases j) auto
qed auto

lemma chain_rev_edges:
  assumes "chain adj root ns" and "Suc i < length ns"
  shows "edge adj (rev ns ! i) (rev ns ! Suc i)"
proof -
  let ?j = "length ns - Suc (Suc i)"
  have "Suc ?j = length ns - Suc i" using assms(2) by simp
  with chain_edges [OF assms(1), of ?j] assms(2) show ?thesis by (simp add: rev_nth)
qed

text \<open>A suffix of the path from the first occurrence of \<open>t\<close>, closed by a back edge to \<open>t\<close>.\<close>

lemma back_edge_walk:
  assumes "chain adj root (n # ns)" and "t \<in> set (n # ns)" and "edge adj n t"
  shows "closed_walk adj (dropWhile (\<lambda>m. m \<noteq> t) (rev (n # ns)) @ [t])"
proof -
  define r where "r = rev (n # ns)"
  define d where "d = dropWhile (\<lambda>m. m \<noteq> t) r"
  define k where "k = length (takeWhile (\<lambda>m. m \<noteq> t) r)"
  have d: "d = drop k r" by (simp add: d_def k_def dropWhile_eq_drop)
  have ne: "d \<noteq> []" using assms(2) by (auto simp: d_def r_def dropWhile_eq_Nil_conv)
  then have hd: "hd d = t" using hd_dropWhile [of "\<lambda>m. m \<noteq> t" r] by (auto simp: d_def)
  have last: "last d = n"
    using ne by (simp add: d) (simp add: r_def last_rev)
  have "edge adj ((d @ [t]) ! i) ((d @ [t]) ! Suc i)" if i: "Suc i < length (d @ [t])" for i
  proof (cases "Suc i < length d")
    case True
    then have "Suc (k + i) < length (n # ns)" by (simp add: d r_def)
    then have "edge adj (r ! (k + i)) (r ! Suc (k + i))"
      unfolding r_def by (rule chain_rev_edges [OF assms(1)])
    with True show ?thesis by (simp add: nth_append d)
  next
    case False
    with i have "i = length d - 1" using ne by (simp add: not_less_eq less_Suc_eq)
    then have "(d @ [t]) ! i = n" and "(d @ [t]) ! Suc i = t"
      using ne last by (simp_all add: nth_append last_conv_nth)
    with assms(3) show ?thesis by simp
  qed
  with ne hd have "closed_walk adj (d @ [t])"
    by (cases d) (auto simp: closed_walk_def)
  then show ?thesis by (simp only: d_def r_def)
qed

lemma closed_walk_cycle: "closed_walk adj p \<Longrightarrow> (edge adj)\<^sup>+\<^sup>+ (hd p) (hd p)"
proof -
  assume cw: "closed_walk adj p"
  have "(edge adj)\<^sup>+\<^sup>+ (p ! 0) (p ! Suc i)" if "Suc i < length p" for i
    using that
  proof (induction i)
    case 0
    with cw show ?case by (auto simp: closed_walk_def)
  next
    case (Suc i)
    with cw have "edge adj (p ! Suc i) (p ! Suc (Suc i))" by (auto simp: closed_walk_def)
    with Suc show ?case by (auto intro: tranclp.trancl_into_trancl)
  qed
  moreover from cw have "2 \<le> length p" "p \<noteq> []" "hd p = last p" by (auto simp: closed_walk_def)
  then have "p ! 0 = hd p" "p ! Suc (length p - 2) = hd p" "Suc (length p - 2) < length p"
    by (simp_all add: hd_conv_nth last_conv_nth Suc_diff_Suc numeral_2_eq_2 [symmetric])
      (simp add: numeral_2_eq_2 Suc_diff_Suc)
  ultimately show ?thesis by metis
qed

definition dfs_answer :: "string list dict \<Rightarrow> string \<Rightarrow> exc + string list \<Rightarrow> bool" where
  "dfs_answer adj root r \<longleftrightarrow>
     (case r of
        Inl _ \<Rightarrow> False
      | Inr p \<Rightarrow> if p = [] then \<not> reachable_cycle adj root
                 else closed_walk adj p \<and> (edge adj)\<^sup>*\<^sup>* root (hd p))"

lemma dfs_done:
  assumes "dfs_inv adj root [] col"
  shows "\<not> reachable_cycle adj root"
proof -
  from assms obtain fin where "root \<in> set fin" and "ranked adj fin"
    by (auto simp: dfs_inv_def)
  then show ?thesis
    unfolding reachable_cycle_def using ranked_closed_star ranked_acyclic by blast
qed

lemma dfs_pop:
  assumes "dfs_inv adj root ((n, []) # st) col"
  shows "dfs_inv adj root st (dict_set n BLACK col)"
proof -
  from assms obtain fin where fin: "set fin = coloured col BLACK" "ranked adj fin"
    by (auto simp: dfs_inv_def)
  from assms have "n \<in> coloured col GRAY" by (auto simp: dfs_inv_def)
  then have "n \<notin> set fin" by (auto simp: fin coloured_def)
  with assms fin have "ranked adj (n # fin)" by (auto simp: dfs_inv_def)
  moreover from fin have "set (n # fin) = insert n (coloured col BLACK)" by simp
  ultimately have ex: "\<exists>fin. set fin = insert n (coloured col BLACK) \<and> ranked adj fin" by blast
  have cov: "cover adj {} (insert n (coloured col BLACK)) st"
    using assms cover_finish [of adj "{n}" "coloured col BLACK" st]
    by (simp add: dfs_inv_def)
  have ch: "chain adj root (map fst st)"
    using assms by (cases st) (auto simp: dfs_inv_def)
  have gray: "set (map fst st) = coloured col GRAY - {n}"
    using assms by (auto simp: dfs_inv_def)
  show ?thesis
    using assms ex cov ch gray unfolding dfs_inv_def coloured_set by simp blast
qed

lemma dfs_push:
  assumes "dfs_inv adj root ((n, t # ts) # st) col" and "dict_get col t = None"
  shows "dfs_inv adj root ((t, targets adj t) # (n, ts) # st) (dict_set t GRAY col)"
proof -
  have "t \<notin> coloured col BLACK" "t \<notin> coloured col GRAY" using assms(2) by (auto simp: coloured_def)
  with assms(1) show ?thesis
    by (auto simp: dfs_inv_def coloured_set edge_def)
qed

lemma dfs_skip:
  assumes "dfs_inv adj root ((n, t # ts) # st) col" and "dict_get col t = Some BLACK"
  shows "dfs_inv adj root ((n, ts) # st) col"
proof -
  have "t \<in> coloured col BLACK" using assms(2) by (simp add: coloured_def)
  with assms(1) show ?thesis by (auto simp: dfs_inv_def)
qed

lemma dfs_back_edge:
  assumes "dfs_inv adj root ((n, t # ts) # st) col" and "dict_get col t = Some GRAY"
  shows "t \<in> set (n # map fst st)"
    and "closed_walk adj (dropWhile (\<lambda>m. m \<noteq> t) (rev (n # map fst st)) @ [t])"
    and "(edge adj)\<^sup>*\<^sup>* root t"
proof -
  show t: "t \<in> set (n # map fst st)"
    using assms by (auto simp: dfs_inv_def coloured_def)
  show "closed_walk adj (dropWhile (\<lambda>m. m \<noteq> t) (rev (n # map fst st)) @ [t])"
    using assms(1) t by (intro back_edge_walk [of adj root]) (auto simp: dfs_inv_def edge_def)
  show "(edge adj)\<^sup>*\<^sup>* root t"
    using assms(1) t by (intro chain_reaches [of adj root "n # map fst st"]) (auto simp: dfs_inv_def)
qed

lemma resolve_loop_answer:
  "dfs_inv adj root st col \<Longrightarrow> dfs_answer adj root (resolve_loop adj st col)"
proof (induction adj st col rule: resolve_loop.induct)
  case (1 adj col)
  then show ?case by (simp add: dfs_answer_def dfs_done)
next
  case (2 adj n st col)
  then show ?case by (simp add: dfs_pop)
next
  case (3 adj n t ts st col)
  show ?case
  proof (cases "dict_get col t")
    case None
    with 3 show ?thesis by (simp add: dfs_push)
  next
    case (Some c)
    show ?thesis
    proof (cases c)
      case BLACK
      with Some 3 show ?thesis by (simp add: dfs_skip)
    next
      case GRAY
      let ?p = "dropWhile (\<lambda>m. m \<noteq> t) (rev (n # map fst st)) @ [t]"
      from Some GRAY have g: "dict_get col t = Some GRAY" by simp
      note bk = dfs_back_edge [OF "3.prems" g]
      have "hd ?p = t" using bk(2) by (simp add: closed_walk_def)
      with bk Some GRAY show ?thesis
        by (simp add: dfs_answer_def)
    qed
  qed
qed

lemma dfs_init: "dfs_inv adj root [(root, targets adj root)] [(root, GRAY)]"
proof -
  have "coloured [(root, GRAY)] GRAY = {root}" "coloured [(root, GRAY)] BLACK = {}"
    by (auto simp: coloured_def dict_get_def)
  then show ?thesis by (auto simp: dfs_inv_def)
qed

text \<open>
  Property C38.  Cycle detection is exact: it always answers, it reports no cycle exactly when no cycle can be
  reached from the start node, and what it reports is a closed walk of the graph that can be
  reached from the start node.
\<close>

theorem resolve_cycle_exact:
  "\<exists>p. resolve_cycle adj root = Inr p \<and> (p = [] \<longleftrightarrow> \<not> reachable_cycle adj root)
     \<and> (p = [] \<or> closed_walk adj p \<and> (edge adj)\<^sup>*\<^sup>* root (hd p))"
proof -
  have "dfs_answer adj root (resolve_cycle adj root)"
    unfolding resolve_cycle_def by (rule resolve_loop_answer [OF dfs_init])
  then obtain p where p: "resolve_cycle adj root = Inr p"
    and a: "if p = [] then \<not> reachable_cycle adj root
            else closed_walk adj p \<and> (edge adj)\<^sup>*\<^sup>* root (hd p)"
    by (auto simp: dfs_answer_def split: sum.splits)
  have "reachable_cycle adj root" if "p \<noteq> []"
    using a that closed_walk_cycle [of adj p] by (auto simp: reachable_cycle_def)
  with p a show ?thesis by (auto split: if_splits)
qed

section \<open>Properties of the flow\<close>

lemma adjacency_has: "dict_has (adjacency ns) k \<longleftrightarrow> k \<noteq> [] \<and> k \<in> nd_id ` set ns"
proof -
  have "dict_has (adjacency ns) k \<longleftrightarrow> dict_has (build_index (filter (\<lambda>n. nd_id n \<noteq> []) ns)) k"
    by (auto simp: adjacency_def dict_has_def Let_def image_image case_prod_beta)
  also have "\<dots> \<longleftrightarrow> k \<noteq> [] \<and> k \<in> nd_id ` set ns"
    by (auto simp: build_index_has)
  finally show ?thesis .
qed

lemma start_node_member: "start_node f = Inr (Some n) \<Longrightarrow> n \<in> set (nodes f) \<and> nd_type n = ''start''"
  by (auto simp: start_node_def split: option.splits if_splits dest: find_SomeD)

text \<open>
  The cycle warning of a resolved flow is emitted exactly when a cycle of \<open>next\<close>/branch
  targets can be reached from the start node and the flow has no timeout.
\<close>

theorem cycle_warning_iff:
  assumes "start_node f = Inr (Some n)" and "nd_id n \<noteq> []"
  shows "\<exists>w. cycle_warning f = Inr w \<and>
           (w \<noteq> None \<longleftrightarrow> reachable_cycle (adjacency (nodes f)) (nd_id n) \<and> \<not> truthy (flow_timeout f))"
proof -
  let ?adj = "adjacency (nodes f)"
  have h: "dict_has ?adj (nd_id n)"
    using start_node_member [OF assms(1)] assms(2) by (auto simp: adjacency_has)
  have "dfs_answer ?adj (nd_id n) (resolve_cycle ?adj (nd_id n))"
    unfolding resolve_cycle_def by (rule resolve_loop_answer [OF dfs_init])
  then obtain p where p: "resolve_cycle ?adj (nd_id n) = Inr p"
    and a: "if p = [] then \<not> reachable_cycle ?adj (nd_id n)
            else closed_walk ?adj p \<and> (edge ?adj)\<^sup>*\<^sup>* (nd_id n) (hd p)"
    by (auto simp: dfs_answer_def split: sum.splits)
  then have "p \<noteq> [] \<longleftrightarrow> reachable_cycle ?adj (nd_id n)"
    using closed_walk_cycle [of ?adj p] by (auto simp: reachable_cycle_def split: if_splits)
  with h p assms(1) show ?thesis by (auto simp: cycle_warning_def)
qed

theorem cycle_warning_iff_witness:
  "\<exists>w. cycle_warning (Flow None [simple_node ''s'' ''start'' (Some ''a''), simple_node ''a'' ''mock'' (Some ''a'')]
          (PStr []) [] []) = Inr w \<and>
       (w \<noteq> None \<longleftrightarrow>
          reachable_cycle (adjacency [simple_node ''s'' ''start'' (Some ''a''), simple_node ''a'' ''mock'' (Some ''a'')]) ''s'')"
  using cycle_warning_iff [of "Flow None [simple_node ''s'' ''start'' (Some ''a''),
      simple_node ''a'' ''mock'' (Some ''a'')] (PStr []) [] []" "simple_node ''s'' ''start'' (Some ''a'')"]
  by (simp add: start_node_def simple_node_def)

text \<open>
  The node index after an edit of the node list: a lookup sees the edited nodes, except when
  the list object and the sequence of ids are unchanged, where it still sees the nodes of the last
  build.  In particular replacing a node in place by another with the same id is not noticed until
  \<open>rebuild_node_index\<close> is called.
\<close>

theorem node_index_after_edit:
  assumes "ix_sig s = None" and "s' = ensure_index s"
  shows "ix_index (ensure_index (s'\<lparr>ix_list := l, ix_nodes := ns\<rparr>)) =
           (if ix_nodes s \<noteq> [] \<and> l = ix_list s \<and> map nd_id ns = map nd_id (ix_nodes s)
            then build_index (ix_nodes s) else build_index ns)
       \<and> ix_index (rebuild_node_index (s'\<lparr>ix_list := l, ix_nodes := ns\<rparr>)) = build_index ns"
proof -
  have "build_index xs = [] \<longleftrightarrow> xs = []" for xs
    using build_index_has [of xs "nd_id (last xs)"] by (cases "xs = []") auto
  then show ?thesis
    using assms by (auto simp: ensure_index_def rebuild_node_index_def Let_def)
qed

theorem node_index_after_edit_witness:
  "let old = simple_node ''a'' ''mock'' None; new = simple_node ''a'' ''http'' None;
       s = \<lparr>ix_list = 1, ix_nodes = [old], ix_index = [], ix_sig = None\<rparr>;
       edited = (ensure_index s)\<lparr>ix_list := 1, ix_nodes := [new]\<rparr>
   in dict_get (ix_index (ensure_index edited)) ''a'' = Some old
      \<and> dict_get (ix_index (rebuild_node_index edited)) ''a'' = Some new"
  unfolding Let_def
  using node_index_after_edit
    [where s = "\<lparr>ix_list = 1, ix_nodes = [simple_node ''a'' ''mock'' None], ix_index = [], ix_sig = None\<rparr>"
      and l = 1 and ns = "[simple_node ''a'' ''http'' None]", OF _ refl]
  by (simp add: build_index_get simple_node_def)

text \<open>
  A switch is routed to the node it chose: a non-empty target returned by its execution is the
  id that \<open>next_node\<close> looks up, so the flow continues there or fails with \<open>NodeNotFoundError\<close>.
\<close>

theorem switch_result_is_routed:
  assumes "nd_branches n = Some bs" and "nd_branching n" and "\<not> is_end_node n"
    and "switch_execute ev (nd_name_as_target n) bs = Inr (Some t)" and "t \<noteq> []"
  shows "next_node f n (Some t) =
           (case find (\<lambda>m. nd_id m = t) (rev (nodes f)) of
              Some m \<Rightarrow> Inr (Some m)
            | None \<Rightarrow> Inl node_not_found_error)"
proof -
  from switch_execute_target [OF assms(4)] obtain b where
    "b \<in> set bs" "resolve_branch_target (nd_name_as_target n) b = Some t" by auto
  then have "\<exists>b'. find (\<lambda>b. resolve_branch_target (nd_name_as_target n) b = Some t) bs = Some b'"
    by (auto simp: find_None_iff not_None_eq [symmetric])
  then have "get_branch_target n (Some t) = Some t"
    using assms(1,5) by (auto simp: get_branch_target_def str_truthy_def dest: find_SomeD)
  then show ?thesis
    using assms(2,3)
    by (auto simp: next_node_def get_target_node_def find_node_by_id_def build_index_get
        split: option.splits)
qed

theorem switch_result_is_routed_witness:
  "let n = switch_node ''sw'' [\<lparr>b_name = Some ''x'', b_condition = Some (Condition (PInt 1) OP_TRUTHY PNone),
               b_priority = None, b_label = None, b_next = None, b_is_default = False\<rparr>]
   in next_node (Flow None [n, simple_node ''x'' ''end'' None] PNone [] []) n (Some ''x'')
        = Inr (Some (simple_node ''x'' ''end'' None))"
  unfolding Let_def
  by (subst switch_result_is_routed
      [where ev = Inr and bs = "[\<lparr>b_name = Some ''x'', b_condition = Some (Condition (PInt 1) OP_TRUTHY PNone),
               b_priority = None, b_label = None, b_next = None, b_is_default = False\<rparr>]"])
    (simp_all add: switch_node_def simple_node_def is_end_node_def switch_execute_def prio_def
      match_condition_def resolve_branch_target_def str_truthy_def)

lemma env_refs_str_sound: "k \<in> set (env_refs_str s) \<Longrightarrow> k \<noteq> [] \<and> list_all is_key_char k \<and> sublist (ENV_REF_PREFIX @ k) s"
proof (induction s rule: env_refs_str.induct)
  case (1 s)
  show ?case
  proof (cases "s \<noteq> [] \<and> prefix ENV_REF_PREFIX s")
    case True
    define rest where "rest = drop (length ENV_REF_PREFIX) s"
    define key where "key = takeWhile is_key_char rest"
    from True have s: "s = ENV_REF_PREFIX @ rest" by (auto simp: rest_def prefix_def)
    from True "1.prems" consider "k = key" "key \<noteq> []" | "k \<in> set (env_refs_str (drop (Suc (length key)) rest))"
      by (subst (asm) env_refs_str.simps) (auto simp: Let_def rest_def key_def split: if_splits)
    then show ?thesis
    proof cases
      case 1
      have "prefix key rest" by (simp add: key_def takeWhile_is_prefix)
      with 1 s show ?thesis
        by (auto simp: key_def list_all_iff dest: set_takeWhileD intro!: prefix_imp_sublist)
    next
      case 2
      with "1.IH"(1) True have k: "k \<noteq> [] \<and> list_all is_key_char k
            \<and> sublist (ENV_REF_PREFIX @ k) (drop (Suc (length key)) rest)"
        by (simp add: rest_def key_def)
      have "sublist (drop (Suc (length key)) rest) s"
        unfolding sublist_def
        by (rule exI [of _ "ENV_REF_PREFIX @ take (Suc (length key)) rest"], rule exI [of _ "[]"])
          (simp add: s)
      with k show ?thesis by (meson sublist_order.order.trans)
    qed
  next
    case False
    with "1.prems" have "s \<noteq> []" and k: "k \<in> set (env_refs_str (tl s))"
      by (auto simp: env_refs_str.simps [of s] split: if_splits)
    with False "1.IH"(2) have "k \<noteq> [] \<and> list_all is_key_char k \<and> sublist (ENV_REF_PREFIX @ k) (tl s)"
      by simp
    then show ?thesis by (meson sublist_tl sublist_order.order.trans)
  qed
qed

text \<open>
  The \<open>$ENV\<close> scan is sound but not complete: every key it reports is an identifier that occurs
  after \<open>$ENV.\<close> in the string, yet a reference that follows another one without a separator is
  missed, because the scan resumes one character too late.
\<close>

theorem env_scan_sound_incomplete:
  "(\<forall>s. \<forall>k \<in> set (collect_env_refs (PStr s)). k \<noteq> [] \<and> list_all is_key_char k \<and> sublist (''$ENV.'' @ k) s)
   \<and> collect_env_refs (PStr ''$ENV.A-$ENV.B'') = [''A'', ''B'']
   \<and> collect_env_refs (PStr ''$ENV.A$ENV.B'') = [''A'']"
proof (intro conjI allI ballI)
  fix s k
  assume "k \<in> set (collect_env_refs (PStr s))"
  then have k: "k \<noteq> [] \<and> list_all is_key_char k \<and> sublist (ENV_REF_PREFIX @ k) s"
    using env_refs_str_sound by simp
  then show "k \<noteq> []" and "list_all is_key_char k" and "sublist (''$ENV.'' @ k) s"
    by (simp_all add: ENV_REF_PREFIX_def)
next
  show "collect_env_refs (PStr ''$ENV.A-$ENV.B'') = [''A'', ''B'']"
    by (simp add: env_refs_str.simps ENV_REF_PREFIX_def is_key_char_def of_char_def)
next
  show "collect_env_refs (PStr ''$ENV.A$ENV.B'') = [''A'']"
    by (simp add: env_refs_str.simps ENV_REF_PREFIX_def is_key_char_def of_char_def)
qed

theorem env_scan_sound_incomplete_witness:
  "''B'' \<notin> set (collect_env_refs (PStr ''$ENV.A$ENV.B''))"
  using env_scan_sound_incomplete by simp

lemmas [flow_simps] = next_node_def find_node_by_id_def get_target_node_def get_branch_target_def
  start_node_def is_end_node_def build_index_get str_truthy_def simple_node_def

end
