(* ===== verification/Checkpoint.thy ===== *)
theory Checkpoint
  imports Flow_Graph
begin

text \<open>
  \<^verbatim>\<open>plaita/core/state.py\<close> (the live checkpoint and its storage form) and the state half of
  \<^verbatim>\<open>plaita/core/context.py\<close>.  A checkpoint is a dictionary-like object: system and
  expression keys (prefix and name, e.g. \<open>$NODE\<close>) live in typed fields, \<open>EXPRESS_PREFIX\<close> in its
  own field, every other key in the extras; scratch bindings can be read by expressions but are
  never part of the storage form.  \<open>_present\<close>, a Python \<open>set\<close>, is a list here, so statements
  about the storage form speak of its entries, not of their order.
\<close>

section \<open>Snapshots\<close>

fun val_depth :: "pyval \<Rightarrow> nat" where
  "val_depth (PList xs) = Suc (fold max (map val_depth xs) 0)"
| "val_depth (PTuple xs) = Suc (fold max (map val_depth xs) 0)"
| "val_depth (PDict d) = Suc (fold max (map (\<lambda>p. val_depth (snd p)) d) 0)"
| "val_depth _ = 0"

definition SNAPSHOT_MAX_DEPTH :: nat where
  "SNAPSHOT_MAX_DEPTH = 10000"

text \<open>
  \<open>_snapshot_value\<close> on the values of the model, which are trees: a copy, unless a container is
  nested deeper than the limit (the root container is at depth 0).
\<close>

definition snapshot_value :: "pyval \<Rightarrow> exc + pyval" where
  "snapshot_value v =
     (if val_depth v > Suc SNAPSHOT_MAX_DEPTH
      then Inl (flow_exc StateSnapshotError (- 500) FLOW_ERROR) else Inr v)"

section \<open>The checkpoint\<close>

datatype ckfield =
    LAST_NODE_ID | LAST_BRANCH | FLOW_ID | EXECUTION_ID | INPUT_VALUE | NODE_RESULTS
  | GLOBAL_CONTEXT | PARENT_CONTEXT | ENV_FIELD

definition all_fields :: "ckfield list" where
  "all_fields = [LAST_NODE_ID, LAST_BRANCH, FLOW_ID, EXECUTION_ID, INPUT_VALUE, NODE_RESULTS,
     GLOBAL_CONTEXT, PARENT_CONTEXT, ENV_FIELD]"

instantiation ckfield :: enum
begin

definition enum_ckfield_def: "enum_class.enum = all_fields"

definition enum_all_ckfield_def: "enum_class.enum_all P \<longleftrightarrow> list_all P all_fields"

definition enum_ex_ckfield_def: "enum_class.enum_ex P \<longleftrightarrow> list_ex P all_fields"

instance
proof
  have all: "(UNIV :: ckfield set) = set all_fields"
  proof (intro set_eqI iffI)
    fix x :: ckfield assume "x \<in> UNIV"
    show "x \<in> set all_fields" by (cases x) (simp_all add: all_fields_def)
  qed simp
  show "(UNIV :: ckfield set) = set enum_class.enum" by (simp add: enum_ckfield_def all)
  show "distinct (enum_class.enum :: ckfield list)" by (simp add: enum_ckfield_def all_fields_def)
  fix P :: "ckfield \<Rightarrow> bool"
  show "enum_class.enum_all P = Ball UNIV P" by (simp add: enum_all_ckfield_def all list_all_iff)
  show "enum_class.enum_ex P = Bex UNIV P" by (simp add: enum_ex_ckfield_def all list_ex_iff)
qed

end

record ckpt =
  prefix :: pyval
  input_name :: string
  parent_name :: string
  node_name :: string
  global_name :: string
  env_name :: string
  field_val :: "ckfield \<Rightarrow> pyval"
  present :: "string list"
  extras :: "pyval dict"
  scratch_bindings :: "pyval dict"

definition key_of :: "pyval \<Rightarrow> string \<Rightarrow> string" where
  "key_of p name = py_str p @ name"

definition field_to_key :: "ckpt \<Rightarrow> ckfield \<Rightarrow> string" where
  "field_to_key c f = key_of (prefix c) (case f of
      LAST_NODE_ID \<Rightarrow> ''LAST_NODE'' | LAST_BRANCH \<Rightarrow> ''BRANCH'' | FLOW_ID \<Rightarrow> ''FLOW_ID''
    | EXECUTION_ID \<Rightarrow> ''EXECUTION_ID'' | INPUT_VALUE \<Rightarrow> input_name c | NODE_RESULTS \<Rightarrow> node_name c
    | GLOBAL_CONTEXT \<Rightarrow> global_name c | PARENT_CONTEXT \<Rightarrow> parent_name c | ENV_FIELD \<Rightarrow> env_name c)"

text \<open>\<open>{v: k for k, v in ...}\<close>: with two fields on one key the later field wins.\<close>

definition key_to_field :: "ckpt \<Rightarrow> string \<Rightarrow> ckfield option" where
  "key_to_field c k = find (\<lambda>f. field_to_key c f = k) (rev all_fields)"

abbreviation EXPRESS_PREFIX :: string where
  "EXPRESS_PREFIX \<equiv> ''EXPRESS_PREFIX''"

text \<open>\<open>__getitem__\<close>; \<open>None\<close> is \<open>KeyError\<close>.\<close>

definition ck_getitem :: "ckpt \<Rightarrow> string \<Rightarrow> pyval option" where
  "ck_getitem c k =
     (if k = EXPRESS_PREFIX then (if k \<in> set (present c) then Some (prefix c) else None)
      else case key_to_field c k of
        Some f \<Rightarrow> if k \<in> set (present c) then Some (field_val c f) else None
      | None \<Rightarrow>
          (case dict_get (extras c) k of
             Some v \<Rightarrow> Some v
           | None \<Rightarrow> dict_get (scratch_bindings c) k))"

definition add_present :: "string \<Rightarrow> string list \<Rightarrow> string list" where
  "add_present k ks = (if k \<in> set ks then ks else ks @ [k])"

definition ck_setitem :: "string \<Rightarrow> pyval \<Rightarrow> ckpt \<Rightarrow> ckpt" where
  "ck_setitem k v c =
     (if k = EXPRESS_PREFIX then c\<lparr>prefix := v, present := add_present k (present c)\<rparr>
      else let c1 = c\<lparr>scratch_bindings := dict_del k (scratch_bindings c)\<rparr> in
        case key_to_field c k of
          Some f \<Rightarrow> c1\<lparr>field_val := (field_val c)(f := v), present := add_present k (present c)\<rparr>
        | None \<Rightarrow> c1\<lparr>extras := dict_set k v (extras c)\<rparr>)"

definition ck_contains :: "ckpt \<Rightarrow> string \<Rightarrow> bool" where
  "ck_contains c k =
     (if k = EXPRESS_PREFIX then k \<in> set (present c)
      else k \<in> set (present c) \<or> dict_has (extras c) k \<or> dict_has (scratch_bindings c) k)"

definition ck_keys :: "ckpt \<Rightarrow> string list" where
  "ck_keys c = present c @ filter (\<lambda>k. k \<notin> set (present c)) (map fst (extras c))"

definition ck_get :: "ckpt \<Rightarrow> string \<Rightarrow> pyval \<Rightarrow> pyval" where
  "ck_get c k dflt = (case ck_getitem c k of None \<Rightarrow> dflt | Some v \<Rightarrow> v)"

definition set_scratch :: "string \<Rightarrow> pyval \<Rightarrow> ckpt \<Rightarrow> exc + ckpt" where
  "set_scratch k v c =
     (if k = [] \<or> key_to_field c k \<noteq> None \<or> k = EXPRESS_PREFIX
         \<or> k \<in> set (present c) \<or> dict_has (extras c) k
      then Inl (plain_exc (Builtin ValueError))
      else Inr (c\<lparr>scratch_bindings := dict_set k v (scratch_bindings c)\<rparr>))"

definition clear_scratch :: "string option \<Rightarrow> ckpt \<Rightarrow> ckpt" where
  "clear_scratch k c =
     (case k of
        None \<Rightarrow> c\<lparr>scratch_bindings := []\<rparr>
      | Some k' \<Rightarrow> c\<lparr>scratch_bindings := dict_del k' (scratch_bindings c)\<rparr>)"

text \<open>
  \<open>to_checkpoint_dict\<close>: one snapshot per key of the checkpoint view.  A key that is listed but
  cannot be read raises \<open>KeyError\<close>.
\<close>

definition to_checkpoint_dict :: "ckpt \<Rightarrow> exc + pyval dict" where
  "to_checkpoint_dict c =
     rmap (\<lambda>k. case ck_getitem c k of
                 None \<Rightarrow> Inl (plain_exc (Builtin KeyError))
               | Some v \<Rightarrow> rbind (snapshot_value v) (\<lambda>v'. Inr (k, v')))
       (ck_keys c)"

record express_names =
  en_prefix :: string
  en_input :: string
  en_parent :: string
  en_node :: string
  en_global :: string
  en_env :: string

definition default_names :: express_names where
  "default_names = \<lparr>en_prefix = ''$'', en_input = ''INPUT'', en_parent = ''PARENT'',
     en_node = ''NODE'', en_global = ''GLOBAL'', en_env = ''ENV''\<rparr>"

definition new_ckpt :: "pyval \<Rightarrow> express_names \<Rightarrow> ckpt" where
  "new_ckpt p ns = \<lparr>prefix = p, input_name = en_input ns, parent_name = en_parent ns,
     node_name = en_node ns, global_name = en_global ns, env_name = en_env ns,
     field_val = (\<lambda>_. PNone), present = [], extras = [], scratch_bindings = []\<rparr>"

definition from_checkpoint_dict :: "pyval dict \<Rightarrow> express_names \<Rightarrow> exc + ckpt" where
  "from_checkpoint_dict data ns =
     rbind (rmap (\<lambda>(k, v). rbind (snapshot_value v) (\<lambda>v'. Inr (k, v'))) data) (\<lambda>es.
       Inr (fold (\<lambda>p. ck_setitem (fst p) (snd p)) es
              (new_ckpt (pget data EXPRESS_PREFIX (PStr (en_prefix ns))) ns)))"

definition fresh :: "express_names \<Rightarrow> string \<Rightarrow> pyval dict \<Rightarrow> ckpt" where
  "fresh ns execution_id env =
     ck_setitem (en_prefix ns @ en_env ns) (PDict env)
       (ck_setitem (en_prefix ns @ ''EXECUTION_ID'') (PStr execution_id)
         (new_ckpt (PStr (en_prefix ns)) ns))"

definition ck_setup_flow ::
  "pyval \<Rightarrow> pyval \<Rightarrow> pyval dict \<Rightarrow> string option \<Rightarrow> pyval dict \<Rightarrow> ckpt \<Rightarrow> ckpt" where
  "ck_setup_flow input parent_ctx global_ctx fid env c =
     (let p = prefix c in
      ck_setitem (key_of p (env_name c)) (PDict env)
        (ck_setitem (key_of p ''FLOW_ID'') (opt_str fid)
          (ck_setitem EXPRESS_PREFIX p
            (ck_setitem (key_of p (global_name c)) (PDict global_ctx)
              (ck_setitem (key_of p (parent_name c)) parent_ctx
                (ck_setitem (key_of p (input_name c)) input c))))))"

text \<open>
  \<open>update_node_result\<close>: the results dictionary is copied and re-assigned.  \<open>dict(x)\<close> of a value
  that is not a mapping raises.
\<close>

definition ck_update_node_result :: "string \<Rightarrow> pyval \<Rightarrow> ckpt \<Rightarrow> exc + ckpt" where
  "ck_update_node_result node_id result c =
     (let k = key_of (prefix c) (node_name c) in
      case ck_get c k (PDict []) of
        PDict d \<Rightarrow> rbind (snapshot_value result) (\<lambda>r. Inr (ck_setitem k (PDict (dict_set node_id r d)) c))
      | _ \<Rightarrow> Inl (plain_exc (Builtin TypeError)))"

section \<open>Schema check\<close>

definition SYSTEM_KEY_NAMES :: "string list" where
  "SYSTEM_KEY_NAMES = [''LAST_NODE'', ''BRANCH'', ''FLOW_ID'', ''EXECUTION_ID'', ''SUSPEND_FRAMES'']"

definition EXPRESSION_NAMES :: "string list" where
  "EXPRESSION_NAMES = [''INPUT'', ''NODE'', ''GLOBAL'', ''PARENT'', ''ENV'']"

definition all_known_keys :: "string \<Rightarrow> string list" where
  "all_known_keys p = map (\<lambda>n. p @ n) SYSTEM_KEY_NAMES @ [EXPRESS_PREFIX] @ map (\<lambda>n. p @ n) EXPRESSION_NAMES"

definition str_isupper :: "string \<Rightarrow> bool" where
  "str_isupper s \<longleftrightarrow>
     list_ex (\<lambda>c. let n = (of_char c :: nat) in 65 \<le> n \<and> n \<le> 90) s
     \<and> list_all (\<lambda>c. let n = (of_char c :: nat) in \<not> (97 \<le> n \<and> n \<le> 122)) s"

text \<open>\<open>validate_checkpoint\<close>: the keys a warning is issued for.\<close>

definition validate_checkpoint :: "pyval dict \<Rightarrow> string \<Rightarrow> string list" where
  "validate_checkpoint data p =
     filter (\<lambda>k. k \<notin> set (all_known_keys p) \<and> Sublist.prefix p k \<and> str_isupper (drop (length p) k))
       (map fst data)"

section \<open>The invariant and the store interface\<close>

text \<open>
  Present keys are routed to fields, extras are not, and the prefix is the one the keys were
  written under.
\<close>

definition ckpt_inv :: "pyval \<Rightarrow> ckpt \<Rightarrow> bool" where
  "ckpt_inv p c \<longleftrightarrow> prefix c = p \<and> distinct (present c) \<and> dict_wf (extras c)
     \<and> (\<forall>k \<in> set (present c). k = EXPRESS_PREFIX \<or> key_to_field c k \<noteq> None)
     \<and> (\<forall>k. dict_has (extras c) k \<longrightarrow> key_to_field c k = None \<and> k \<noteq> EXPRESS_PREFIX)
     \<and> (\<forall>k. dict_has (scratch_bindings c) k \<longrightarrow> \<not> dict_has (extras c) k \<and> k \<noteq> EXPRESS_PREFIX
           \<and> key_to_field c k = None)"

lemma field_to_key_updates [simp]:
  "field_to_key (c\<lparr>scratch_bindings := b\<rparr>) = field_to_key c"
  "field_to_key (c\<lparr>field_val := fv\<rparr>) = field_to_key c"
  "field_to_key (c\<lparr>present := ps\<rparr>) = field_to_key c"
  "field_to_key (c\<lparr>extras := es\<rparr>) = field_to_key c"
  by (auto simp: field_to_key_def fun_eq_iff split: ckfield.splits)

lemma key_to_field_updates [simp]:
  "key_to_field (c\<lparr>scratch_bindings := b\<rparr>) = key_to_field c"
  "key_to_field (c\<lparr>field_val := fv\<rparr>) = key_to_field c"
  "key_to_field (c\<lparr>present := ps\<rparr>) = key_to_field c"
  "key_to_field (c\<lparr>extras := es\<rparr>) = key_to_field c"
  by (auto simp: key_to_field_def fun_eq_iff)

lemma prefix_same: "prefix c = p \<Longrightarrow> c\<lparr>prefix := p\<rparr> = c"
  by simp

lemma key_to_field_key: "key_to_field c k = Some f \<Longrightarrow> field_to_key c f = k"
  by (auto simp: key_to_field_def dest: find_SomeD)

lemma key_to_field_inj: "key_to_field c k = Some f \<Longrightarrow> key_to_field c k' = Some f \<Longrightarrow> k = k'"
  using key_to_field_key by metis

lemma set_add_present [simp]: "set (add_present k ks) = insert k (set ks)"
  by (auto simp: add_present_def)

lemma distinct_add_present [simp]: "distinct (add_present k ks) \<longleftrightarrow> distinct ks"
  by (auto simp: add_present_def)

definition ck_admits :: "pyval \<Rightarrow> string \<Rightarrow> pyval \<Rightarrow> bool" where
  "ck_admits p k v \<longleftrightarrow> (k = EXPRESS_PREFIX \<longrightarrow> v = p)"

lemma ck_setitem_inv:
  assumes "ckpt_inv p c" and "ck_admits p k v"
  shows "ckpt_inv p (ck_setitem k v c)"
proof (cases "k = EXPRESS_PREFIX")
  case True
  then have "ck_setitem k v c = c\<lparr>present := add_present k (present c)\<rparr>"
    using assms by (simp add: ck_setitem_def ckpt_inv_def ck_admits_def)
  with True assms(1) show ?thesis by (auto simp: ckpt_inv_def)
next
  case False
  with assms(1) show ?thesis
    by (cases "key_to_field c k") (auto simp: ck_setitem_def ckpt_inv_def Let_def)
qed

lemma ck_setitem_get:
  assumes "ckpt_inv p c" and "ck_admits p k v"
  shows "ck_getitem (ck_setitem k v c) k' = (if k' = k then Some v else ck_getitem c k')"
proof (cases "k = EXPRESS_PREFIX")
  case True
  then have "ck_setitem k v c = c\<lparr>present := add_present k (present c)\<rparr>"
    using assms by (simp add: ck_setitem_def ckpt_inv_def ck_admits_def)
  with True assms show ?thesis
    by (auto simp: ck_getitem_def ckpt_inv_def ck_admits_def split: option.splits)
next
  case False
  show ?thesis
  proof (cases "key_to_field c k")
    case None
    with False show ?thesis
      by (auto simp: ck_setitem_def ck_getitem_def Let_def split: option.splits)
  next
    case (Some f)
    with False show ?thesis
      by (auto simp: ck_setitem_def ck_getitem_def Let_def split: option.splits
          dest: key_to_field_inj)
  qed
qed

interpretation ck: py_store ck_getitem ck_setitem "ckpt_inv p" "ck_admits p" for p
  by unfold_locales (simp_all add: ck_setitem_get ck_setitem_inv)

lemma new_ckpt_inv [simp]: "ckpt_inv p (new_ckpt p ns)"
  by (simp add: ckpt_inv_def new_ckpt_def)

lemma new_ckpt_get [simp]: "ck_getitem (new_ckpt p ns) k = None"
  by (auto simp: ck_getitem_def new_ckpt_def split: option.splits)

section \<open>The storage form\<close>

definition shallow :: "pyval \<Rightarrow> bool" where
  "shallow v \<longleftrightarrow> val_depth v \<le> Suc SNAPSHOT_MAX_DEPTH"

lemma snapshot_shallow: "shallow v \<Longrightarrow> snapshot_value v = Inr v"
  by (simp add: shallow_def snapshot_value_def)

definition ck_shallow :: "ckpt \<Rightarrow> bool" where
  "ck_shallow c \<longleftrightarrow> (\<forall>k v. ck_getitem c k = Some v \<longrightarrow> shallow v)"

lemma ck_keys_distinct: "ckpt_inv p c \<Longrightarrow> distinct (ck_keys c)"
  by (auto simp: ck_keys_def ckpt_inv_def dict_wf_def)

lemma ck_keys_mem: "k \<in> set (ck_keys c) \<longleftrightarrow> k \<in> set (present c) \<or> dict_has (extras c) k"
  by (auto simp: ck_keys_def dict_has_def)

lemma ck_keys_readable: "ckpt_inv p c \<Longrightarrow> k \<in> set (ck_keys c) \<Longrightarrow> \<exists>v. ck_getitem c k = Some v"
  by (auto simp: ck_keys_def ckpt_inv_def ck_getitem_def dict_has_iff split: option.splits)
    (metis dict_get_None_iff dict_has_def image_eqI fst_conv option.distinct(1) set_map)+

lemma ck_keys_iff:
  assumes "ckpt_inv p c"
  shows "k \<in> set (ck_keys c) \<longleftrightarrow> ck_getitem c k \<noteq> None \<and> \<not> dict_has (scratch_bindings c) k"
proof
  assume k: "k \<in> set (ck_keys c)"
  then have "ck_getitem c k \<noteq> None" using ck_keys_readable [OF assms] by auto
  moreover have "\<not> dict_has (scratch_bindings c) k"
    using k assms by (auto simp: ck_keys_mem ckpt_inv_def)
  ultimately show "ck_getitem c k \<noteq> None \<and> \<not> dict_has (scratch_bindings c) k" by blast
next
  assume "ck_getitem c k \<noteq> None \<and> \<not> dict_has (scratch_bindings c) k"
  then show "k \<in> set (ck_keys c)"
    by (auto simp: ck_getitem_def ck_keys_def dict_has_iff dict_get_def split: if_splits option.splits
        dest: map_of_SomeD) (metis fst_conv image_eqI map_of_SomeD)+
qed

lemma to_checkpoint_dict_eq:
  assumes "ckpt_inv p c" and "ck_shallow c"
  shows "to_checkpoint_dict c = Inr (map (\<lambda>k. (k, the (ck_getitem c k))) (ck_keys c))"
  unfolding to_checkpoint_dict_def
proof (rule rmap_total)
  fix k
  assume "k \<in> set (ck_keys c)"
  from ck_keys_readable [OF assms(1) this] obtain v where v: "ck_getitem c k = Some v" ..
  with assms(2) have "shallow v" by (auto simp: ck_shallow_def)
  with v show "(case ck_getitem c k of None \<Rightarrow> Inl (plain_exc (Builtin KeyError))
      | Some v \<Rightarrow> rbind (snapshot_value v) (\<lambda>v'. Inr (k, v'))) = Inr (k, the (ck_getitem c k))"
    by (simp add: snapshot_shallow)
qed

lemma map_of_self: "map_of (map (\<lambda>k. (k, g k)) ks) k = (if k \<in> set ks then Some (g k) else None)"
  by (induction ks) auto

lemma to_checkpoint_dict_get:
  assumes "ckpt_inv p c" and "ck_shallow c"
  shows "\<exists>d. to_checkpoint_dict c = Inr d \<and> dict_wf d \<and>
           (\<forall>k. dict_get d k = (if dict_has (scratch_bindings c) k then None else ck_getitem c k))"
proof -
  let ?d = "map (\<lambda>k. (k, the (ck_getitem c k))) (ck_keys c)"
  have "dict_wf ?d" using ck_keys_distinct [OF assms(1)] by (simp add: dict_wf_def comp_def)
  moreover have "dict_get ?d k = (if dict_has (scratch_bindings c) k then None else ck_getitem c k)" for k
    using ck_keys_iff [OF assms(1), of k] by (auto simp: dict_get_def map_of_self)
  ultimately show ?thesis using to_checkpoint_dict_eq [OF assms] by blast
qed

lemma from_checkpoint_dict_get:
  assumes "dict_wf d" and "\<And>k v. dict_get d k = Some v \<Longrightarrow> shallow v"
  shows "\<exists>c. from_checkpoint_dict d ns = Inr c \<and> ckpt_inv (pget d EXPRESS_PREFIX (PStr (en_prefix ns))) c
           \<and> scratch_bindings c = [] \<and> (\<forall>k. ck_getitem c k = dict_get d k)"
proof -
  let ?p = "pget d EXPRESS_PREFIX (PStr (en_prefix ns))"
  let ?c = "fold (\<lambda>p. ck_setitem (fst p) (snd p)) d (new_ckpt ?p ns)"
  have snap: "(case p of (k, v) \<Rightarrow> rbind (snapshot_value v) (\<lambda>v'. Inr (k, v'))) = Inr p" if p: "p \<in> set d" for p
  proof -
    have "dict_get d (fst p) = Some (snd p)" using p assms(1) by (simp add: dict_get_member)
    then have "shallow (snd p)" by (rule assms(2))
    then show ?thesis by (simp add: snapshot_shallow case_prod_beta)
  qed
  have "rmap (\<lambda>(k, v). rbind (snapshot_value v) (\<lambda>v'. Inr (k, v'))) d = Inr (map (\<lambda>p. p) d)"
    by (rule rmap_total) (rule snap)
  then have "from_checkpoint_dict d ns = Inr ?c"
    by (simp add: from_checkpoint_dict_def)
  moreover have adm: "\<forall>p \<in> set d. ck_admits ?p (fst p) (snd p)"
    using assms(1) by (auto simp: ck_admits_def pget_def dest: dict_get_member)
  then have "ckpt_inv ?p ?c" by (rule ck.fold_set_invar [OF new_ckpt_inv])
  moreover have "scratch_bindings (fold (\<lambda>p. ck_setitem (fst p) (snd p)) es c) = []"
    if "scratch_bindings c = []" for es c
    using that
  proof (induction es arbitrary: c)
    case (Cons p es)
    then show ?case
      by (auto simp: ck_setitem_def dict_del_def Let_def split: option.splits)
  qed simp
  then have "scratch_bindings ?c = []" by (simp add: new_ckpt_def)
  moreover have "ck_getitem ?c k = dict_get d k" for k
    using assms(1) ck.fold_set_get [OF new_ckpt_inv adm, of ns k]
    by (auto simp: dict_get_def dict_wf_def dict_rev [unfolded dict_wf_def] split: option.splits)
  ultimately show ?thesis by blast
qed

text \<open>
  The storage form is lossless: a checkpoint dictionary read into a live checkpoint and written
  out again has exactly the same entries, under any configuration of the expression names.
\<close>

theorem checkpoint_dict_roundtrip:
  assumes "dict_wf d" and "\<forall>k v. dict_get d k = Some v \<longrightarrow> shallow v"
  shows "\<exists>c d'. from_checkpoint_dict d ns = Inr c \<and> to_checkpoint_dict c = Inr d'
           \<and> dict_wf d' \<and> (\<forall>k. dict_get d' k = dict_get d k)"
proof -
  obtain c where c: "from_checkpoint_dict d ns = Inr c" "scratch_bindings c = []"
      "\<forall>k. ck_getitem c k = dict_get d k"
    and inv: "ckpt_inv (pget d EXPRESS_PREFIX (PStr (en_prefix ns))) c"
    using from_checkpoint_dict_get [OF assms(1)] assms(2) by blast
  have "ck_shallow c" using c(3) assms(2) by (simp add: ck_shallow_def)
  from to_checkpoint_dict_get [OF inv this] c show ?thesis by auto
qed

theorem checkpoint_dict_roundtrip_witness:
  "\<exists>c d'. from_checkpoint_dict [(''$NODE'', PDict [(''a'', PInt 1)]), (''EXPRESS_PREFIX'', PStr ''@''),
             (''note'', PStr ''x'')] default_names = Inr c
     \<and> to_checkpoint_dict c = Inr d' \<and> dict_wf d'
     \<and> (\<forall>k. dict_get d' k = dict_get [(''$NODE'', PDict [(''a'', PInt 1)]), (''EXPRESS_PREFIX'', PStr ''@''),
             (''note'', PStr ''x'')] k)"
  by (rule checkpoint_dict_roundtrip)
    (auto simp: dict_wf_def dict_get_def shallow_def SNAPSHOT_MAX_DEPTH_def split: if_splits)

text \<open>
  Property C37.  A live checkpoint survives storage: writing it out and reading it back (in another process,
  possibly with other expression names) restores every binding except the scratch bindings, which
  are gone.
\<close>

theorem checkpoint_state_roundtrip:
  assumes "ckpt_inv p c" and "ck_shallow c"
  shows "\<exists>d c'. to_checkpoint_dict c = Inr d \<and> from_checkpoint_dict d ns = Inr c'
           \<and> (\<forall>k. ck_getitem c' k = (if dict_has (scratch_bindings c) k then None else ck_getitem c k))"
proof -
  obtain d where d: "to_checkpoint_dict c = Inr d" "dict_wf d"
      "\<forall>k. dict_get d k = (if dict_has (scratch_bindings c) k then None else ck_getitem c k)"
    using to_checkpoint_dict_get [OF assms] by blast
  have sh: "shallow v" if "dict_get d k = Some v" for k v
    using that d(3) assms(2) by (auto simp: ck_shallow_def split: if_splits)
  obtain c' where "from_checkpoint_dict d ns = Inr c'" and "\<forall>k. ck_getitem c' k = dict_get d k"
    using from_checkpoint_dict_get [OF d(2), of ns] sh by blast
  with d show ?thesis by auto
qed

theorem checkpoint_state_roundtrip_witness:
  "let c = ck_setitem ''$LAST_NODE'' (PStr ''n1'') (new_ckpt (PStr ''$'') default_names)
   in \<exists>d c'. to_checkpoint_dict c = Inr d \<and> from_checkpoint_dict d default_names = Inr c'
        \<and> ck_getitem c' ''$LAST_NODE'' = Some (PStr ''n1'')"
proof -
  let ?c = "ck_setitem ''$LAST_NODE'' (PStr ''n1'') (new_ckpt (PStr ''$'') default_names)"
  have inv: "ckpt_inv (PStr ''$'') ?c"
    by (rule ck_setitem_inv) (simp_all add: ck_admits_def)
  have get: "ck_getitem ?c k = (if k = ''$LAST_NODE'' then Some (PStr ''n1'') else None)" for k
    by (subst ck_setitem_get [of "PStr ''$''"]) (simp_all add: ck_admits_def)
  have "ck_shallow ?c" by (auto simp: ck_shallow_def get shallow_def split: if_splits)
  from checkpoint_state_roundtrip [OF inv this, of default_names] obtain d c' where
    r: "to_checkpoint_dict ?c = Inr d" "from_checkpoint_dict d default_names = Inr c'"
      "\<And>k. ck_getitem c' k = (if dict_has (scratch_bindings ?c) k then None else ck_getitem ?c k)"
    by blast
  have "scratch_bindings ?c = []"
    by (simp add: ck_setitem_def new_ckpt_def dict_del_def Let_def split: option.splits)
  with r(3) [of "''$LAST_NODE''"] get have "ck_getitem c' ''$LAST_NODE'' = Some (PStr ''n1'')" by simp
  with r(1,2) show ?thesis by (auto simp: Let_def)
qed

text \<open>
  A scratch binding is visible to expressions and invisible to the storage form; it can never
  take the place of a checkpointed key.
\<close>

theorem scratch_is_private:
  assumes "ckpt_inv p c" and "ck_shallow c" and "shallow v" and "set_scratch k v c = Inr c'"
  shows "ckpt_inv p c' \<and> ck_getitem c k \<in> {None, dict_get (scratch_bindings c) k}
       \<and> (\<forall>k'. ck_getitem c' k' = (if k' = k then Some v else ck_getitem c k'))
       \<and> to_checkpoint_dict c' = to_checkpoint_dict c"
proof -
  from assms(4) have c': "c' = c\<lparr>scratch_bindings := dict_set k v (scratch_bindings c)\<rparr>"
    and k: "key_to_field c k = None" "k \<noteq> EXPRESS_PREFIX" "k \<notin> set (present c)" "\<not> dict_has (extras c) k"
    by (auto simp: set_scratch_def split: if_splits)
  from k have nk: "k \<notin> set (ck_keys c)" by (auto simp: ck_keys_def dict_has_def)
  from k have none: "dict_get (extras c) k = None" by (simp add: dict_get_None_iff)
  have inv: "ckpt_inv p c'" using assms(1) k by (auto simp: ckpt_inv_def c')
  have get: "ck_getitem c' k' = (if k' = k then Some v else ck_getitem c k')" for k'
    using k none by (auto simp: ck_getitem_def c' split: option.splits)
  have keys: "ck_keys c' = ck_keys c" by (simp add: ck_keys_def c')
  have "ck_shallow c'" using assms(2,3) get by (auto simp: ck_shallow_def split: if_splits)
  then have "to_checkpoint_dict c' = to_checkpoint_dict c"
    using to_checkpoint_dict_eq [OF inv] to_checkpoint_dict_eq [OF assms(1,2)] nk
    by (auto simp: keys get)
  with inv get k none show ?thesis by (auto simp: ck_getitem_def)
qed

theorem scratch_is_private_witness:
  "\<exists>c'. set_scratch ''$TMP'' (PInt 7) (new_ckpt (PStr ''$'') default_names) = Inr c'
     \<and> ck_getitem c' ''$TMP'' = Some (PInt 7)
     \<and> to_checkpoint_dict c' = to_checkpoint_dict (new_ckpt (PStr ''$'') default_names)"
proof -
  have "ck_shallow (new_ckpt (PStr ''$'') default_names)" by (simp add: ck_shallow_def)
  moreover obtain c' where "set_scratch ''$TMP'' (PInt 7) (new_ckpt (PStr ''$'') default_names) = Inr c'"
    by (simp add: set_scratch_def new_ckpt_def key_to_field_def all_fields_def field_to_key_def
        key_of_def default_names_def)
  ultimately show ?thesis
    using scratch_is_private [of "PStr ''$''" "new_ckpt (PStr ''$'') default_names" "PInt 7" "''$TMP''" c']
    by (simp add: shallow_def)
qed

end
