(* ===== verification/Exec_Context.thy ===== *)
theory Exec_Context
  imports Checkpoint
begin

text \<open>
  \<^verbatim>\<open>plaita/core/context.py\<close>: the execution context around a checkpoint.  A context object has
  an identity, the names of the expression namespace, the environment allowlist and, for the
  context of a child flow, the states of the enclosing contexts (nearest first) together with the
  root snapshot taken of the parent when the child was created.  The expression engine is an
  argument \<open>ev\<close>, the process environment an argument \<open>os_env\<close>, and the identifiers
  \<open>uuid4\<close> draws are arguments.
\<close>

record ctx =
  cx_state :: ckpt
  cx_names :: express_names
  cx_id :: nat
  cx_expose :: "string list"
  cx_inherited :: "string list"
  cx_parents :: "ckpt list"
  cx_snapshot :: "pyval dict"

section \<open>Environment and input\<close>

definition is_space :: "char \<Rightarrow> bool" where
  "is_space c \<longleftrightarrow> (let n = (of_char c :: nat) in
     9 \<le> n \<and> n \<le> 13 \<or> 28 \<le> n \<and> n \<le> 32 \<or> n = 133 \<or> n = 160)"

definition str_strip :: "string \<Rightarrow> string" where
  "str_strip s = rev (dropWhile is_space (rev (dropWhile is_space s)))"

definition bad_env_key :: "string \<Rightarrow> bool" where
  "bad_env_key k \<longleftrightarrow> k = [] \<or> str_strip k \<noteq> k \<or> CHR ''*'' \<in> set k"

definition safe_environment :: "string dict \<Rightarrow> string list \<Rightarrow> exc + pyval dict" where
  "safe_environment os_env allowlist =
     (if allowlist = [] then Inr []
      else if list_ex bad_env_key allowlist then Inl (plain_exc (Builtin ValueError))
      else Inr (fold (\<lambda>k e. case dict_get os_env k of None \<Rightarrow> e | Some v \<Rightarrow> dict_set k (PStr v) e) allowlist []))"

definition coerce_input_value :: "pyval list \<Rightarrow> pyval dict \<Rightarrow> exc + pyval" where
  "coerce_input_value args kwargs =
     (if kwargs \<noteq> [] then
        (case args of
           [] \<Rightarrow> Inr (PDict kwargs)
         | [PDict d] \<Rightarrow> Inr (PDict (dict_update d kwargs))
         | _ \<Rightarrow> Inl (plain_exc (Builtin TypeError)))
      else (case args of
           [] \<Rightarrow> Inr (PDict [])
         | [v] \<Rightarrow> Inr v
         | _ \<Rightarrow> Inl (plain_exc (Builtin TypeError))))"

section \<open>State access\<close>

definition sys_key :: "ctx \<Rightarrow> string \<Rightarrow> string" where
  "sys_key cx name = en_prefix (cx_names cx) @ name"

definition node_key :: "ctx \<Rightarrow> string" where
  "node_key cx = sys_key cx (en_node (cx_names cx))"

definition get_state :: "ctx \<Rightarrow> string \<Rightarrow> pyval \<Rightarrow> pyval" where
  "get_state cx k dflt = ck_get (cx_state cx) k dflt"

definition set_state :: "string \<Rightarrow> pyval \<Rightarrow> ctx \<Rightarrow> ctx" where
  "set_state k v cx = cx\<lparr>cx_state := ck_setitem k v (cx_state cx)\<rparr>"

definition last_node_id :: "ctx \<Rightarrow> pyval" where
  "last_node_id cx = get_state cx (sys_key cx ''LAST_NODE'') PNone"

definition set_last_node_id :: "pyval \<Rightarrow> ctx \<Rightarrow> ctx" where
  "set_last_node_id v cx = set_state (sys_key cx ''LAST_NODE'') v cx"

definition last_branch :: "ctx \<Rightarrow> pyval" where
  "last_branch cx = get_state cx (sys_key cx ''BRANCH'') PNone"

definition set_last_branch :: "pyval \<Rightarrow> ctx \<Rightarrow> ctx" where
  "set_last_branch v cx = set_state (sys_key cx ''BRANCH'') v cx"

definition execution_id :: "ctx \<Rightarrow> pyval" where
  "execution_id cx = get_state cx (sys_key cx ''EXECUTION_ID'') (PStr [])"

definition node_results :: "ctx \<Rightarrow> pyval" where
  "node_results cx = get_state cx (node_key cx) (PDict [])"

section \<open>Lifecycle\<close>

text \<open>The constructor, for a context without parent.\<close>

definition new_context :: "express_names \<Rightarrow> nat \<Rightarrow> string \<Rightarrow> string list \<Rightarrow> ctx" where
  "new_context ns oid uuid expose =
     \<lparr>cx_state = ck_setitem (en_prefix ns @ ''EXECUTION_ID'') (PStr uuid) (new_ckpt (PStr (en_prefix ns)) ns),
      cx_names = ns, cx_id = oid, cx_expose = expose, cx_inherited = [], cx_parents = [], cx_snapshot = []\<rparr>"

text \<open>\<open>clean\<close>; the fresh cancellation events it installs belong to the runner's environment.\<close>

definition clean :: "string dict \<Rightarrow> string \<Rightarrow> string option \<Rightarrow> ctx \<Rightarrow> exc + ctx" where
  "clean os_env uuid eid cx =
     rbind (safe_environment os_env (cx_expose cx)) (\<lambda>env.
       Inr (cx\<lparr>cx_state := fresh (cx_names cx)
                 (case eid of Some (c # cs) \<Rightarrow> c # cs | _ \<Rightarrow> uuid) env\<rparr>))"

text \<open>
  \<open>setup_flow\<close>.  The allowlist is validated before it is committed to the context; the
  context after a failure is returned with the exception.
\<close>

definition flow_globals :: "flow \<Rightarrow> ctx \<Rightarrow> exc + pyval dict" where
  "flow_globals f cx =
     rbind (snapshot_value (PDict (global_context f))) (\<lambda>g.
       let g1 = dict_set ''flow_id'' (opt_str (flow_id f)) (case g of PDict d \<Rightarrow> d | _ \<Rightarrow> []) in
       Inr (if cx_parents cx = [] \<and> \<not> dict_has g1 ''run_token''
            then dict_set ''run_token'' (execution_id cx) g1 else g1))"

definition parent_value :: "ctx \<Rightarrow> pyval" where
  "parent_value cx = PDict (if cx_parents cx = [] then [] else cx_snapshot cx)"

definition setup_flow :: "string dict \<Rightarrow> flow \<Rightarrow> pyval list \<Rightarrow> pyval dict \<Rightarrow> ctx \<Rightarrow> (exc + unit) \<times> ctx" where
  "setup_flow os_env f args kwargs cx =
     (let allowlist = (if expose_env f = [] then cx_inherited cx else expose_env f) in
      case safe_environment os_env allowlist of
        Inl e \<Rightarrow> (Inl e, cx)
      | Inr env \<Rightarrow>
          (let cx1 = cx\<lparr>cx_expose := allowlist\<rparr> in
           case flow_globals f cx of
             Inl e \<Rightarrow> (Inl e, cx1)
           | Inr g \<Rightarrow>
               (case coerce_input_value args kwargs of
                  Inl e \<Rightarrow> (Inl e, cx1)
                | Inr inp \<Rightarrow>
                    (Inr (), cx1\<lparr>cx_state :=
                       ck_setup_flow inp (parent_value cx) g (flow_id f) env (cx_state cx)\<rparr>))))"

text \<open>
  \<open>update_node_result\<close>.  \<open>payload\<close> is what the node's \<open>node_result_payload\<close> returned, with the
  outcome of the identity test \<open>raw_body is not result\<close>; \<open>None\<close> when the node has no such method
  or it failed.
\<close>

definition update_node_result ::
  "(pyval dict \<times> bool) option \<Rightarrow> string \<Rightarrow> pyval \<Rightarrow> ctx \<Rightarrow> exc + ctx" where
  "update_node_result payload nid result cx =
     (let stored = (case payload of
          Some (p # ps, fresh_body) \<Rightarrow>
            (let raw = pget (p # ps) ''data'' PNone;
                 d = dict_set ''data'' result (p # ps) in
             PDict (if raw \<noteq> PNone \<and> fresh_body \<and> \<not> dict_has d ''body'' then dict_set ''body'' raw d else d))
        | _ \<Rightarrow> result) in
      rbind (ck_update_node_result nid stored (cx_state cx)) (\<lambda>c. Inr (cx\<lparr>cx_state := c\<rparr>)))"

text \<open>The context of a child flow: the root snapshot is \<open>dict(parent.context)\<close>.\<close>

definition ck_view :: "ckpt \<Rightarrow> exc + pyval dict" where
  "ck_view c =
     rmap (\<lambda>k. case ck_getitem c k of
                 None \<Rightarrow> Inl (plain_exc (Builtin KeyError)) | Some v \<Rightarrow> Inr (k, v)) (ck_keys c)"

definition child :: "nat \<Rightarrow> string \<Rightarrow> ctx \<Rightarrow> exc + ctx" where
  "child oid uuid cx =
     rbind (ck_view (cx_state cx)) (\<lambda>snap.
       Inr \<lparr>cx_state = ck_setitem (sys_key cx ''EXECUTION_ID'') (PStr uuid)
                (new_ckpt (PStr (en_prefix (cx_names cx))) (cx_names cx)),
            cx_names = cx_names cx, cx_id = oid, cx_expose = cx_expose cx,
            cx_inherited = cx_expose cx, cx_parents = cx_state cx # cx_parents cx,
            cx_snapshot = snap\<rparr>)"

definition to_dict :: "ctx \<Rightarrow> exc + pyval dict" where
  "to_dict cx = to_checkpoint_dict (cx_state cx)"

definition load_context :: "pyval dict \<Rightarrow> ctx \<Rightarrow> exc + ctx" where
  "load_context data cx =
     rbind (from_checkpoint_dict data (cx_names cx)) (\<lambda>c. Inr (cx\<lparr>cx_state := c\<rparr>))"

section \<open>Lookups that fall back to the enclosing contexts\<close>

fun global_variable :: "string \<Rightarrow> ckpt list \<Rightarrow> string \<Rightarrow> pyval \<Rightarrow> exc + pyval" where
  "global_variable gkey [] key dflt = Inr dflt"
| "global_variable gkey (c # cs) key dflt =
     (case ck_get c gkey (PDict []) of
        PDict d \<Rightarrow> (case dict_get d key of Some v \<Rightarrow> Inr v | None \<Rightarrow> global_variable gkey cs key dflt)
      | v \<Rightarrow> rbind (lift_py (py_in (PStr key) v)) (\<lambda>b.
               if b then Inl (plain_exc (Builtin TypeError)) else global_variable gkey cs key dflt))"

definition get_global_variable :: "ctx \<Rightarrow> string \<Rightarrow> pyval \<Rightarrow> exc + pyval" where
  "get_global_variable cx key dflt =
     global_variable (sys_key cx (en_global (cx_names cx))) (cx_state cx # cx_parents cx) key dflt"

fun resolve_expression_string ::
  "(ckpt \<Rightarrow> string \<Rightarrow> pyval \<Rightarrow> exc + pyval) \<Rightarrow> string \<Rightarrow> ckpt list \<Rightarrow> pyval \<Rightarrow> exc + pyval" where
  "resolve_expression_string ev p [] v = Inr PNone"
| "resolve_expression_string ev p [c] v = ev c p v"
| "resolve_expression_string ev p (c # c' # cs) v =
     rbind (ev c p v) (\<lambda>r.
       case v of
         PStr s \<Rightarrow> if r = PNone \<and> Sublist.prefix p s then resolve_expression_string ev p (c' # cs) v else Inr r
       | _ \<Rightarrow> Inr r)"

fun evaluate_in ::
  "(ckpt \<Rightarrow> string \<Rightarrow> pyval \<Rightarrow> exc + pyval) \<Rightarrow> string \<Rightarrow> ckpt list \<Rightarrow> pyval \<Rightarrow> exc + pyval" where
  "evaluate_in ev p cs (PList xs) = rbind (rmap (evaluate_in ev p cs) xs) (\<lambda>ys. Inr (PList ys))"
| "evaluate_in ev p cs (PDict d) =
     rbind (rmap (\<lambda>kv. rbind (evaluate_in ev p cs (snd kv)) (\<lambda>v. Inr (fst kv, v))) d)
       (\<lambda>e. Inr (PDict e))"
| "evaluate_in ev p cs v = resolve_expression_string ev p cs v"

definition evaluate ::
  "(ckpt \<Rightarrow> string \<Rightarrow> pyval \<Rightarrow> exc + pyval) \<Rightarrow> ctx \<Rightarrow> pyval \<Rightarrow> exc + pyval" where
  "evaluate ev cx v = evaluate_in ev (en_prefix (cx_names cx)) (cx_state cx # cx_parents cx) v"

section \<open>Invariant\<close>

text \<open>The names of the expression namespace do not collide with each other or with the system keys.\<close>

definition names_ok :: "express_names \<Rightarrow> bool" where
  "names_ok ns \<longleftrightarrow>
     distinct [''LAST_NODE'', ''BRANCH'', ''FLOW_ID'', ''EXECUTION_ID'', ''SUSPEND_FRAMES'', en_input ns,
       en_parent ns, en_node ns, en_global ns, en_env ns]
     \<and> (\<forall>n \<in> set [''LAST_NODE'', ''BRANCH'', ''FLOW_ID'', ''EXECUTION_ID'', ''SUSPEND_FRAMES'', en_input ns,
          en_parent ns, en_node ns, en_global ns, en_env ns]. en_prefix ns @ n \<noteq> EXPRESS_PREFIX)"

definition names_agree :: "express_names \<Rightarrow> ckpt \<Rightarrow> bool" where
  "names_agree ns c \<longleftrightarrow> input_name c = en_input ns \<and> parent_name c = en_parent ns
     \<and> node_name c = en_node ns \<and> global_name c = en_global ns \<and> env_name c = en_env ns"

definition ctx_ok :: "ctx \<Rightarrow> bool" where
  "ctx_ok cx \<longleftrightarrow> names_ok (cx_names cx) \<and> names_agree (cx_names cx) (cx_state cx)
     \<and> ckpt_inv (PStr (en_prefix (cx_names cx))) (cx_state cx)"

lemma names_agree_set [simp]: "names_agree ns (ck_setitem k v c) \<longleftrightarrow> names_agree ns c"
  by (auto simp: names_agree_def ck_setitem_def Let_def split: option.splits)

lemma names_of_setitem [simp]:
  "input_name (ck_setitem k v c) = input_name c" "parent_name (ck_setitem k v c) = parent_name c"
  "node_name (ck_setitem k v c) = node_name c" "global_name (ck_setitem k v c) = global_name c"
  "env_name (ck_setitem k v c) = env_name c"
  by (auto simp: ck_setitem_def Let_def split: option.splits)

lemma default_names_ok [simp]: "names_ok default_names"
  by (simp add: names_ok_def default_names_def)

lemma names_agree_new [simp]: "names_agree ns (new_ckpt p ns)"
  by (simp add: names_agree_def new_ckpt_def)

lemma set_state_names [simp]:
  "cx_names (set_state k v cx) = cx_names cx" "cx_id (set_state k v cx) = cx_id cx"
  "cx_parents (set_state k v cx) = cx_parents cx" "sys_key (set_state k v cx) = sys_key cx"
  "node_key (set_state k v cx) = node_key cx"
  by (simp_all add: set_state_def sys_key_def node_key_def fun_eq_iff)

lemma set_last_keys [simp]:
  "sys_key (set_last_branch b cx) = sys_key cx" "node_key (set_last_branch b cx) = node_key cx"
  "sys_key (set_last_node_id b cx) = sys_key cx" "node_key (set_last_node_id b cx) = node_key cx"
  by (simp_all add: set_last_branch_def set_last_node_id_def)

lemma set_state_ok: "ctx_ok cx \<Longrightarrow> k \<noteq> EXPRESS_PREFIX \<Longrightarrow> ctx_ok (set_state k v cx)"
  by (auto simp: ctx_ok_def set_state_def ck_admits_def intro: ck.invar_set)

lemma get_set_state:
  "ctx_ok cx \<Longrightarrow> k \<noteq> EXPRESS_PREFIX \<Longrightarrow>
     get_state (set_state k v cx) k' d = (if k' = k then v else get_state cx k' d)"
  using ck.get_set [of "PStr (en_prefix (cx_names cx))" "cx_state cx" k v k']
  by (auto simp: ctx_ok_def get_state_def set_state_def ck_get_def ck_admits_def)

lemma sys_keys_free:
  assumes "ctx_ok cx"
  shows "sys_key cx ''LAST_NODE'' \<noteq> EXPRESS_PREFIX" "sys_key cx ''BRANCH'' \<noteq> EXPRESS_PREFIX"
    "sys_key cx ''EXECUTION_ID'' \<noteq> EXPRESS_PREFIX" "sys_key cx ''SUSPEND_FRAMES'' \<noteq> EXPRESS_PREFIX"
    "node_key cx \<noteq> EXPRESS_PREFIX"
  using assms by (auto simp: ctx_ok_def names_ok_def sys_key_def node_key_def)

lemma sys_keys_distinct:
  assumes "ctx_ok cx"
  shows "distinct [sys_key cx ''LAST_NODE'', sys_key cx ''BRANCH'', sys_key cx ''EXECUTION_ID'',
           sys_key cx ''SUSPEND_FRAMES'', node_key cx]"
  using assms by (auto simp: ctx_ok_def names_ok_def sys_key_def node_key_def)

lemma node_key_of: "ctx_ok cx \<Longrightarrow> key_of (prefix (cx_state cx)) (node_name (cx_state cx)) = node_key cx"
  by (simp add: ctx_ok_def names_agree_def ckpt_inv_def key_of_def node_key_def sys_key_def)

lemma new_context_ok: "names_ok ns \<Longrightarrow> ctx_ok (new_context ns oid uuid expose)"
  by (auto simp: ctx_ok_def new_context_def names_ok_def ck_admits_def intro: ck_setitem_inv)

lemma new_context_get:
  assumes "names_ok ns"
  shows "get_state (new_context ns oid uuid expose) k d =
     (if k = en_prefix ns @ ''EXECUTION_ID'' then PStr uuid else d)"
proof -
  have "ck_admits (PStr (en_prefix ns)) (en_prefix ns @ ''EXECUTION_ID'') (PStr uuid)"
    using assms by (simp add: names_ok_def ck_admits_def)
  from ck_setitem_get [OF new_ckpt_inv this] show ?thesis
    by (simp add: get_state_def new_context_def ck_get_def)
qed

text \<open>The context of the examples.\<close>

definition example_ctx :: ctx where
  "example_ctx = new_context default_names 0 ''x1'' []"

lemma example_ctx_ok [simp]: "ctx_ok example_ctx"
  by (simp add: example_ctx_def new_context_ok)

lemma example_ctx_names [simp]:
  "cx_names example_ctx = default_names" "cx_parents example_ctx = []" "cx_id example_ctx = 0"
  by (simp_all add: example_ctx_def new_context_def)

lemma example_ctx_get: "get_state example_ctx k d = (if k = ''$EXECUTION_ID'' then PStr ''x1'' else d)"
  by (simp add: example_ctx_def new_context_get) (simp add: default_names_def)

lemma example_node_results [simp]: "node_results example_ctx = PDict []"
  by (simp add: node_results_def example_ctx_get node_key_def sys_key_def default_names_def)

text \<open>Recording a result is a write to the key of the node results.\<close>

lemma update_node_result_eq:
  assumes "ctx_ok cx" and "node_results cx = PDict d" and "shallow v"
  shows "update_node_result None nid v cx = Inr (set_state (node_key cx) (PDict (dict_set nid v d)) cx)"
  using assms
  by (simp add: update_node_result_def ck_update_node_result_def node_key_of node_results_def
      get_state_def set_state_def snapshot_shallow Let_def)

lemma update_node_result_inv:
  assumes "update_node_result None nid v cx = Inr cx'" and "ctx_ok cx" and "node_results cx = PDict d"
  shows "cx' = set_state (node_key cx) (PDict (dict_set nid v d)) cx"
proof -
  have snap: "snapshot_value v = Inr r \<Longrightarrow> r = v" for r by (auto simp: snapshot_value_def split: if_splits)
  have "ck_get (cx_state cx) (node_key cx) (PDict []) = PDict d"
    using assms(3) by (simp add: node_results_def get_state_def)
  with assms(1) show ?thesis
    by (auto simp: update_node_result_def ck_update_node_result_def node_key_of [OF assms(2)] Let_def set_state_def
        rbind_eq_Inr_iff dest: snap)
qed

lemma ck_getitem_contains: "ck_getitem c k = Some v \<Longrightarrow> ck_contains c k"
  by (auto simp: ck_getitem_def ck_contains_def dict_has_iff split: if_splits option.splits)

lemma set_state_shallow:
  "ctx_ok cx \<Longrightarrow> k \<noteq> EXPRESS_PREFIX \<Longrightarrow> ck_shallow (cx_state cx) \<Longrightarrow> shallow v \<Longrightarrow>
     ck_shallow (cx_state (set_state k v cx))"
  using ck.get_set [of "PStr (en_prefix (cx_names cx))" "cx_state cx" k v]
  by (auto simp: ck_shallow_def ctx_ok_def set_state_def ck_admits_def split: if_splits)

lemma to_dict_ok: "ctx_ok cx \<Longrightarrow> ck_shallow (cx_state cx) \<Longrightarrow> \<exists>d. to_dict cx = Inr d"
  using to_checkpoint_dict_get [of "PStr (en_prefix (cx_names cx))" "cx_state cx"]
  by (auto simp: ctx_ok_def to_dict_def)

lemma example_ctx_shallow [simp]: "ck_shallow (cx_state example_ctx)"
proof -
  have "shallow v" if "ck_getitem (cx_state example_ctx) k = Some v" for k v
    using that example_ctx_get [of k v] example_ctx_get [of k PNone]
    by (auto simp: get_state_def ck_get_def shallow_def split: if_splits)
  then show ?thesis by (simp add: ck_shallow_def)
qed

text \<open>
  A context stored and loaded into another context object with the same names reads the same,
  up to scratch bindings.
\<close>

lemma store_load:
  assumes "ctx_ok cx" and "to_dict cx = Inr d" and "ck_shallow (cx_state cx)" and "cx_names cx0 = cx_names cx"
  obtains cx2 where "load_context d cx0 = Inr cx2" "cx_names cx2 = cx_names cx"
    "\<And>k. ck_getitem (cx_state cx2) k = (if dict_has (scratch_bindings (cx_state cx)) k then None else ck_getitem (cx_state cx) k)"
proof -
  have inv: "ckpt_inv (PStr (en_prefix (cx_names cx))) (cx_state cx)" using assms(1) by (simp add: ctx_ok_def)
  from to_checkpoint_dict_get [OF inv assms(3)] assms(2) have wf: "dict_wf d"
    and get: "\<And>k. dict_get d k = (if dict_has (scratch_bindings (cx_state cx)) k then None else ck_getitem (cx_state cx) k)"
    by (auto simp: to_dict_def)
  have "shallow v" if "dict_get d k = Some v" for k v
    using that get assms(3) by (auto simp: ck_shallow_def split: if_splits)
  then obtain c where "from_checkpoint_dict d (cx_names cx) = Inr c" "\<forall>k. ck_getitem c k = dict_get d k"
    using from_checkpoint_dict_get [OF wf, of "cx_names cx"] by blast
  with that [of "cx0\<lparr>cx_state := c\<rparr>"] assms(4) get show thesis by (simp add: load_context_def)
qed

section \<open>Properties\<close>

lemma env_fold_get:
  "dict_get (fold (\<lambda>k e. case dict_get os_env k of None \<Rightarrow> e | Some v \<Rightarrow> dict_set k (PStr v) e) ks e0) k =
     (case dict_get os_env k of None \<Rightarrow> dict_get e0 k
      | Some v \<Rightarrow> if k \<in> set ks then Some (PStr v) else dict_get e0 k)"
  by (induction ks arbitrary: e0) (auto split: option.splits)

text \<open>
  The environment a flow sees is exactly the allowlisted part of the process
  environment: nothing without an allowlist, no key outside it, every listed key that exists; an
  allowlist with a wildcard, a blank or a padded key is refused.
\<close>

theorem safe_environment_exact:
  "case safe_environment os_env allowlist of
     Inl e \<Rightarrow> e_class e = Builtin ValueError \<and> list_ex bad_env_key allowlist
   | Inr env \<Rightarrow> \<not> list_ex bad_env_key allowlist
       \<and> dict_get env = (\<lambda>k. if k \<in> set allowlist then map_option PStr (dict_get os_env k) else None)"
  by (auto simp: safe_environment_def env_fold_get plain_exc_def fun_eq_iff split: option.splits)

lemma ck_setup_flow_get:
  assumes "ctx_ok cx"
  defines "key \<equiv> sys_key cx" and "ns \<equiv> cx_names cx"
  shows "ckpt_inv (PStr (en_prefix ns)) (ck_setup_flow i p g fid env (cx_state cx))"
    and "names_agree ns (ck_setup_flow i p g fid env (cx_state cx))"
    and "ck_getitem (ck_setup_flow i p g fid env (cx_state cx)) k =
      (if k = key (en_env ns) then Some (PDict env)
       else if k = key ''FLOW_ID'' then Some (opt_str fid)
       else if k = EXPRESS_PREFIX then Some (PStr (en_prefix ns))
       else if k = key (en_global ns) then Some (PDict g)
       else if k = key (en_parent ns) then Some p
       else if k = key (en_input ns) then Some i else ck_getitem (cx_state cx) k)"
proof -
  let ?p = "PStr (en_prefix ns)"
  let ?c0 = "cx_state cx"
  let ?c1 = "ck_setitem (key (en_input ns)) i ?c0"
  let ?c2 = "ck_setitem (key (en_parent ns)) p ?c1"
  let ?c3 = "ck_setitem (key (en_global ns)) (PDict g) ?c2"
  let ?c4 = "ck_setitem EXPRESS_PREFIX ?p ?c3"
  let ?c5 = "ck_setitem (key ''FLOW_ID'') (opt_str fid) ?c4"
  let ?c6 = "ck_setitem (key (en_env ns)) (PDict env) ?c5"
  have eq: "ck_setup_flow i p g fid env (cx_state cx) = ?c6"
    using assms(1)
    by (simp add: ck_setup_flow_def ctx_ok_def ckpt_inv_def names_agree_def key_of_def
        sys_key_def key_def ns_def Let_def)
  have adm: "ck_admits ?p (key ''FLOW_ID'') v" "ck_admits ?p (key (en_input ns)) v"
    "ck_admits ?p (key (en_parent ns)) v" "ck_admits ?p (key (en_global ns)) v"
    "ck_admits ?p (key (en_env ns)) v" for v
    using assms(1) by (auto simp: ctx_ok_def names_ok_def ck_admits_def sys_key_def key_def ns_def)
  have admp: "ck_admits ?p EXPRESS_PREFIX ?p" by (simp add: ck_admits_def)
  have i0: "ckpt_inv ?p ?c0" using assms(1) by (simp add: ctx_ok_def ns_def)
  note i1 = ck_setitem_inv [OF i0 adm(2)]
  note i2 = ck_setitem_inv [OF i1 adm(3)]
  note i3 = ck_setitem_inv [OF i2 adm(4)]
  note i4 = ck_setitem_inv [OF i3 admp]
  note i5 = ck_setitem_inv [OF i4 adm(1)]
  note i6 = ck_setitem_inv [OF i5 adm(5)]
  show "ckpt_inv ?p (ck_setup_flow i p g fid env (cx_state cx))"
    unfolding eq by (rule i6)
  show "names_agree ns (ck_setup_flow i p g fid env (cx_state cx))"
    using assms(1) unfolding eq by (simp add: ctx_ok_def ns_def)
  show "ck_getitem (ck_setup_flow i p g fid env (cx_state cx)) k =
      (if k = key (en_env ns) then Some (PDict env)
       else if k = key ''FLOW_ID'' then Some (opt_str fid)
       else if k = EXPRESS_PREFIX then Some (PStr (en_prefix ns))
       else if k = key (en_global ns) then Some (PDict g)
       else if k = key (en_parent ns) then Some p
       else if k = key (en_input ns) then Some i else ck_getitem (cx_state cx) k)"
    unfolding eq
    by (simp only: ck_setitem_get [OF i5 adm(5)] ck_setitem_get [OF i4 adm(1)] ck_setitem_get [OF i3 admp]
        ck_setitem_get [OF i2 adm(4)] ck_setitem_get [OF i1 adm(3)] ck_setitem_get [OF i0 adm(2)])
qed

lemma flow_globals_id: "flow_globals f cx = Inr g \<Longrightarrow> dict_get g ''flow_id'' = Some (opt_str (flow_id f))"
  by (auto simp: flow_globals_def Let_def rbind_eq_Inr_iff split: if_splits)

lemma setup_flow_success:
  assumes "setup_flow os_env f args kwargs cx = (Inr u, cx')"
  obtains i g env where "coerce_input_value args kwargs = Inr i"
    "dict_get g ''flow_id'' = Some (opt_str (flow_id f))"
    "safe_environment os_env (cx_expose cx') = Inr env" "cx_names cx' = cx_names cx"
    "cx_state cx' = ck_setup_flow i (parent_value cx) g (flow_id f) env (cx_state cx)"
proof -
  let ?a = "if expose_env f = [] then cx_inherited cx else expose_env f"
  from assms obtain env g i where "safe_environment os_env ?a = Inr env" "flow_globals f cx = Inr g"
    "coerce_input_value args kwargs = Inr i"
    "cx' = cx\<lparr>cx_expose := ?a, cx_state := ck_setup_flow i (parent_value cx) g (flow_id f) env (cx_state cx)\<rparr>"
    by (auto simp: setup_flow_def Let_def split: sum.splits)
  with that [of i g env] show thesis by (simp add: flow_globals_id)
qed

text \<open>
  Setting up a flow keeps the context invariant, binds the input, the parent snapshot, the
  globals (with the flow id), the environment and the flow id, and leaves every other key of
  the state alone; a refused allowlist leaves the context as it was.
\<close>

theorem setup_flow_binds:
  assumes "ctx_ok cx" and "setup_flow os_env f args kwargs cx = (r, cx')"
  shows "case r of
      Inl e \<Rightarrow> cx_state cx' = cx_state cx
        \<and> (list_ex bad_env_key (if expose_env f = [] then cx_inherited cx else expose_env f) \<longrightarrow> cx' = cx)
    | Inr _ \<Rightarrow> ctx_ok cx'
        \<and> coerce_input_value args kwargs = Inr (get_state cx' (sys_key cx (en_input (cx_names cx))) PNone)
        \<and> get_state cx' (sys_key cx (en_parent (cx_names cx))) PNone
            = parent_value cx
        \<and> (\<exists>g. get_state cx' (sys_key cx (en_global (cx_names cx))) PNone = PDict g
             \<and> dict_get g ''flow_id'' = Some (opt_str (flow_id f)))
        \<and> (\<exists>env. safe_environment os_env (cx_expose cx') = Inr env
             \<and> get_state cx' (sys_key cx (en_env (cx_names cx))) PNone = PDict env)
        \<and> execution_id cx' = execution_id cx"
proof -
  have ok: "names_ok (cx_names cx)" using assms(1) by (simp add: ctx_ok_def)
  note K = ck_setup_flow_get [OF assms(1)]
  show ?thesis
  proof (cases r)
    case (Inl e)
    with assms(2) show ?thesis
      by (auto simp: setup_flow_def Let_def safe_environment_def split: sum.splits if_splits)
  next
    case (Inr u)
    from setup_flow_success [OF assms(2) [unfolded Inr]] obtain i g env where
      S: "coerce_input_value args kwargs = Inr i" "dict_get g ''flow_id'' = Some (opt_str (flow_id f))"
        "safe_environment os_env (cx_expose cx') = Inr env" "cx_names cx' = cx_names cx"
        "cx_state cx' = ck_setup_flow i (parent_value cx)
           g (flow_id f) env (cx_state cx)" by blast
    have same: "sys_key cx' = sys_key cx" by (simp add: sys_key_def S fun_eq_iff)
    have D: "sys_key cx n = sys_key cx m \<longleftrightarrow> n = m" for n m by (simp add: sys_key_def)
    have P: "sys_key cx n \<noteq> EXPRESS_PREFIX"
      if "n \<in> {''EXECUTION_ID'', en_input (cx_names cx), en_parent (cx_names cx), en_global (cx_names cx)}" for n
      using ok that by (auto simp: names_ok_def sys_key_def)
    have N: "''EXECUTION_ID'' \<noteq> en_input (cx_names cx)" "''EXECUTION_ID'' \<noteq> en_parent (cx_names cx)"
      "''EXECUTION_ID'' \<noteq> en_global (cx_names cx)" "''EXECUTION_ID'' \<noteq> en_env (cx_names cx)"
      "''FLOW_ID'' \<noteq> en_input (cx_names cx)" "''FLOW_ID'' \<noteq> en_parent (cx_names cx)"
      "''FLOW_ID'' \<noteq> en_global (cx_names cx)"
      "distinct [en_input (cx_names cx), en_parent (cx_names cx), en_global (cx_names cx), en_env (cx_names cx)]"
      using ok by (auto simp: names_ok_def)
    note not_sym = N(1-7) [symmetric]
    have "ctx_ok cx'" using K(1,2) ok S by (simp add: ctx_ok_def)
    with N show ?thesis
      by (simp add: Inr S get_state_def ck_get_def execution_id_def same K(3) D P not_sym)
  qed
qed

theorem setup_flow_binds_witness:
  "get_state (snd (setup_flow [] (Flow (Some ''f'') [] PNone [] []) [] [(''a'', PInt 1)] example_ctx)) ''$INPUT'' PNone
     = PDict [(''a'', PInt 1)]"
proof -
  let ?r = "setup_flow [] (Flow (Some ''f'') [] PNone [] []) [] [(''a'', PInt 1)] example_ctx"
  have "fst ?r = Inr ()"
    by (simp add: setup_flow_def safe_environment_def snapshot_value_def coerce_input_value_def
        SNAPSHOT_MAX_DEPTH_def flow_globals_def Let_def example_ctx_def new_context_def)
  then have r: "?r = (Inr (), snd ?r)" by (metis prod.collapse)
  have "coerce_input_value [] [(''a'', PInt 1)] = Inr (get_state (snd ?r) ''$INPUT'' PNone)"
    using setup_flow_binds [OF example_ctx_ok r] by (simp add: sys_key_def) (simp add: default_names_def)
  then have "get_state (snd ?r) ''$INPUT'' PNone = PDict [(''a'', PInt 1)]"
    by (simp add: coerce_input_value_def)
  then show ?thesis by simp
qed

text \<open>
  Recording a node result in a well-formed context makes it readable under the
  node's id, keeps the results of the other nodes and every other key of the state, and keeps
  the context invariant.
\<close>

theorem node_result_recorded:
  assumes "ctx_ok cx" and "node_results cx = PDict d" and "shallow v"
  shows "\<exists>cx'. update_node_result None nid v cx = Inr cx' \<and> ctx_ok cx'
     \<and> (\<exists>d'. node_results cx' = PDict d' \<and> (\<forall>k. dict_get d' k = (if k = nid then Some v else dict_get d k)))
     \<and> (\<forall>k dflt. k \<noteq> node_key cx \<longrightarrow> get_state cx' k dflt = get_state cx k dflt)"
proof -
  note free = sys_keys_free(5) [OF assms(1)]
  have "node_results (set_state (node_key cx) w cx) = w" for w
    using get_set_state [OF assms(1) free] by (simp add: node_results_def)
  then show ?thesis
    by (simp add: update_node_result_eq [OF assms] set_state_ok [OF assms(1) free]
        get_set_state [OF assms(1) free])
qed

theorem node_result_recorded_witness:
  "\<exists>cx' d'. update_node_result None ''n'' (PInt 3) example_ctx = Inr cx' \<and> node_results cx' = PDict d'
     \<and> dict_get d' ''n'' = Some (PInt 3)"
proof -
  have "shallow (PInt 3)" by (simp add: shallow_def)
  then show ?thesis
    using node_result_recorded [OF example_ctx_ok example_node_results, of "PInt 3" "''n''"] by auto
qed

end
