(* ===== verification/Timeouts.thy ===== *)
theory Timeouts
  imports Exec_Context
begin

text \<open>
  Execution budgets: the parser of \<open>timeout\<close> values (\<^verbatim>\<open>plaita/core/runner.py\<close>), their
  validation at node construction (\<^verbatim>\<open>plaita/node/basic.py\<close>) and at the distributed entry
  (\<^verbatim>\<open>plaita/core/executor.py\<close>), and the default deadline (\<^verbatim>\<open>plaita/core/deadline.py\<close>).
  Budgets are milliseconds; \<open>None\<close> is no limit.  What the \<open>isodate\<close> package makes of a duration
  string is the argument \<open>isod\<close>.
\<close>

text \<open>
  \<open>isodate.parse_duration\<close> with the conversion of a fixed-length duration: the sign of
  \<open>total_seconds()\<close> and \<open>int(total_seconds * 1000)\<close>.
\<close>

datatype iso_duration = IsoInvalid | IsoCalendar | IsoFixed (iso_negative: bool) (iso_ms: int)

text \<open>\<open>InvalidTimeoutError\<close> is a subclass of \<open>ValueError\<close>; \<open>BareValueError\<close> is one that \<open>int\<close> raises itself.\<close>

datatype timeout_error = InvalidTimeoutError | BareValueError

definition MAX_TIMEOUT_MS :: int where
  "MAX_TIMEOUT_MS = 2 ^ 1024 - 2 ^ 971"

definition MAX_NODE_TIMEOUT_MS :: int where
  "MAX_NODE_TIMEOUT_MS = 24 * 60 * 60 * 1000"

text \<open>\<open>str.isdigit\<close> below code point 256: the ASCII digits and the superscripts one, two, three.\<close>

definition ascii_digit :: "char \<Rightarrow> bool" where
  "ascii_digit c \<longleftrightarrow> (let n = (of_char c :: nat) in 48 \<le> n \<and> n \<le> 57)"

definition is_digit :: "char \<Rightarrow> bool" where
  "is_digit c \<longleftrightarrow> ascii_digit c \<or> (of_char c :: nat) \<in> {178, 179, 185}"

definition str_isdigit :: "string \<Rightarrow> bool" where
  "str_isdigit s \<longleftrightarrow> s \<noteq> [] \<and> list_all is_digit s"

text \<open>\<open>int(s)\<close> of a string of digits: superscripts and more than 4300 digits raise \<open>ValueError\<close>.\<close>

definition digits_int :: "string \<Rightarrow> int option" where
  "digits_int s =
     (if list_all ascii_digit s \<and> length s \<le> 4300
      then Some (foldl (\<lambda>a c. a * 10 + (of_char c - 48)) 0 s) else None)"

definition parse_timeout_int :: "int \<Rightarrow> timeout_error + int option" where
  "parse_timeout_int n =
     (if n < 0 then Inl InvalidTimeoutError
      else if n > MAX_TIMEOUT_MS then Inl InvalidTimeoutError else Inr (Some n))"

definition parse_timeout :: "(string \<Rightarrow> iso_duration) \<Rightarrow> pyval \<Rightarrow> timeout_error + int option" where
  "parse_timeout isod v =
     (case v of
        PNone \<Rightarrow> Inr None
      | PBool b \<Rightarrow> parse_timeout_int (if b then 1 else 0)
      | PInt n \<Rightarrow> parse_timeout_int n
      | PStr s \<Rightarrow>
          if s = [] then Inr None
          else if str_isdigit s then
            (case digits_int s of
               None \<Rightarrow> Inl BareValueError
             | Some n \<Rightarrow> if n > MAX_TIMEOUT_MS then Inl InvalidTimeoutError else Inr (Some n))
          else (case isod s of
               IsoInvalid \<Rightarrow> Inl InvalidTimeoutError
             | IsoCalendar \<Rightarrow> Inl InvalidTimeoutError
             | IsoFixed neg ms \<Rightarrow> if neg then Inl InvalidTimeoutError else Inr (Some ms))
      | _ \<Rightarrow> Inl InvalidTimeoutError)"

text \<open>\<open>Node._validate_timeout_budget\<close>: a node may not ask for more than a day.\<close>

definition validate_timeout_budget :: "(string \<Rightarrow> iso_duration) \<Rightarrow> pyval \<Rightarrow> exc + pyval" where
  "validate_timeout_budget isod v =
     (if v = PNone \<or> v = PStr [] then Inr v
      else case parse_timeout isod v of
        Inl _ \<Rightarrow> Inl (plain_exc (Builtin ValueError))
      | Inr (Some ms) \<Rightarrow>
          if ms > MAX_NODE_TIMEOUT_MS then Inl (plain_exc (Builtin ValueError)) else Inr v
      | Inr None \<Rightarrow> Inr v)"

section \<open>The distributed entry\<close>

definition validated_timeout_ms :: "(string \<Rightarrow> iso_duration) \<Rightarrow> pyval \<Rightarrow> exc + int option" where
  "validated_timeout_ms isod v =
     (case v of
        PNone \<Rightarrow> Inr None
      | PStr [] \<Rightarrow> Inr None
      | PBool b \<Rightarrow>
          (case parse_timeout isod (PInt (if b then 1 else 0)) of
             Inl _ \<Rightarrow> Inl (plain_exc (Builtin ValueError)) | Inr r \<Rightarrow> Inr r)
      | PInt n \<Rightarrow>
          (case parse_timeout isod v of Inl _ \<Rightarrow> Inl (plain_exc (Builtin ValueError)) | Inr r \<Rightarrow> Inr r)
      | PStr s \<Rightarrow>
          (case parse_timeout isod v of Inl _ \<Rightarrow> Inl (plain_exc (Builtin ValueError)) | Inr r \<Rightarrow> Inr r)
      | _ \<Rightarrow> Inl (plain_exc (Builtin ValueError)))"

definition distributed_timeout_ms ::
  "(string \<Rightarrow> iso_duration) \<Rightarrow> flow \<Rightarrow> pyval \<Rightarrow> pyval \<Rightarrow> exc + int option" where
  "distributed_timeout_ms isod f inst call =
     rbind (validated_timeout_ms isod (flow_timeout f)) (\<lambda>a.
       rbind (validated_timeout_ms isod inst) (\<lambda>b.
         rbind (validated_timeout_ms isod call) (\<lambda>c.
           let parsed = List.map_filter id [a, b, c]
           in Inr (if parsed = [] then None else Some (Min (set parsed))))))"

definition merge_timeout_ms :: "int option \<Rightarrow> int option \<Rightarrow> int option" where
  "merge_timeout_ms a b =
     (case a of None \<Rightarrow> b | Some x \<Rightarrow> (case b of None \<Rightarrow> a | Some y \<Rightarrow> Some (min x y)))"

section \<open>The default deadline\<close>

text \<open>
  \<open>default_execution_deadline_ms\<close>: \<open>raw\<close> is the stripped environment variable, \<open>parsed\<close> what
  \<open>float\<close> makes of it as milliseconds: \<open>None\<close> for a string that is no number, is not finite or
  not positive.
\<close>

definition DEFAULT_DEADLINE_MS :: int where
  "DEFAULT_DEADLINE_MS = 1800 * 1000"

definition default_execution_deadline_ms :: "string option \<Rightarrow> (string \<Rightarrow> int option) \<Rightarrow> int" where
  "default_execution_deadline_ms raw positive_ms =
     (let s = (case raw of None \<Rightarrow> [] | Some r \<Rightarrow> str_strip r) in
      if s = [] then DEFAULT_DEADLINE_MS
      else case positive_ms s of None \<Rightarrow> DEFAULT_DEADLINE_MS | Some ms \<Rightarrow> ms)"

definition execution_deadline_ms :: "int \<Rightarrow> int option \<Rightarrow> int" where
  "execution_deadline_ms dflt configured = (case configured of Some ms \<Rightarrow> ms | None \<Rightarrow> dflt)"

section \<open>Properties\<close>

text \<open>The environment's answers are durations: a non-negative one has non-negative milliseconds.\<close>

definition iso_sane :: "(string \<Rightarrow> iso_duration) \<Rightarrow> bool" where
  "iso_sane isod \<longleftrightarrow> (\<forall>s ms. isod s = IsoFixed False ms \<longrightarrow> 0 \<le> ms \<and> ms \<le> MAX_TIMEOUT_MS)"

lemma digits_int_nonneg: "digits_int s = Some n \<Longrightarrow> 0 \<le> n"
proof -
  have "0 \<le> foldl (\<lambda>a c. a * 10 + (of_char c - 48 :: int)) a s" if "list_all ascii_digit s" "0 \<le> a" for a :: int
    using that
  proof (induction s arbitrary: a)
    case (Cons c s)
    then have "(48 :: nat) \<le> of_char c" by (simp add: ascii_digit_def Let_def)
    then have "(48 :: int) \<le> of_char c" by (metis of_nat_le_iff of_nat_numeral of_nat_of_char)
    with Cons show ?case by (simp add: mult_nonneg_nonneg)
  qed simp
  then show "digits_int s = Some n \<Longrightarrow> 0 \<le> n" by (auto simp: digits_int_def split: if_splits)
qed

lemma parse_timeout_range:
  "iso_sane isod \<Longrightarrow> parse_timeout isod v = Inr (Some n) \<Longrightarrow> 0 \<le> n \<and> n \<le> MAX_TIMEOUT_MS"
  by (auto simp: parse_timeout_def parse_timeout_int_def iso_sane_def dest: digits_int_nonneg
      split: pyval.splits if_splits option.splits iso_duration.splits)

lemma parse_timeout_None: "parse_timeout isod v = Inr None \<longleftrightarrow> v = PNone \<or> v = PStr []"
  by (auto simp: parse_timeout_def parse_timeout_int_def
      split: pyval.splits option.splits iso_duration.splits)

lemma validated_timeout_cases:
  "validated_timeout_ms isod v = Inr r \<longleftrightarrow> parse_timeout isod v = Inr r"
  by (cases v) (auto simp: validated_timeout_ms_def parse_timeout_def split: sum.splits list.splits)

text \<open>
  A timeout is never lost on the way to the distributed strategy: the merged budget is absent
  exactly when the flow, the instance and the call all left theirs unset; otherwise it is one of
  the given budgets, none of them is stricter, and zero stays zero.  A malformed value in any of
  the three is a \<open>ValueError\<close>.
\<close>

theorem distributed_timeout_is_strictest:
  assumes "iso_sane isod"
  shows "case distributed_timeout_ms isod f inst call of
      Inl e \<Rightarrow> e_class e = Builtin ValueError
        \<and> (\<exists>v \<in> {flow_timeout f, inst, call}. \<exists>err. parse_timeout isod v = Inl err)
    | Inr None \<Rightarrow> (\<forall>v \<in> {flow_timeout f, inst, call}. v = PNone \<or> v = PStr [])
    | Inr (Some ms) \<Rightarrow> 0 \<le> ms
        \<and> (\<exists>v \<in> {flow_timeout f, inst, call}. parse_timeout isod v = Inr (Some ms))
        \<and> (\<forall>v \<in> {flow_timeout f, inst, call}. \<forall>n. parse_timeout isod v = Inr (Some n) \<longrightarrow> ms \<le> n)"
proof -
  have err: "e_class e = Builtin ValueError \<and> (\<exists>x. parse_timeout isod v = Inl x)"
    if "validated_timeout_ms isod v = Inl e" for v e
    using that
    by (cases v) (auto simp: validated_timeout_ms_def parse_timeout_def plain_exc_def
        split: sum.splits list.splits)
  show ?thesis
  proof (cases "distributed_timeout_ms isod f inst call")
    case (Inl e)
    then show ?thesis
      by (auto simp: distributed_timeout_ms_def rbind_eq_Inl_iff Let_def dest: err)
  next
    case (Inr r)
    then obtain a b c where abc: "parse_timeout isod (flow_timeout f) = Inr a" "parse_timeout isod inst = Inr b"
      "parse_timeout isod call = Inr c"
      and r: "r = (let parsed = List.map_filter id [a, b, c]
           in if parsed = [] then None else Some (Min (set parsed)))"
      by (auto simp: distributed_timeout_ms_def rbind_eq_Inr_iff Let_def validated_timeout_cases)
    have nn: "0 \<le> n" if "Some n \<in> {a, b, c}" for n
      using that abc parse_timeout_range [OF assms] by fastforce
    show ?thesis
    proof (cases r)
      case None
      with r have "a = None \<and> b = None \<and> c = None"
        by (cases a; cases b; cases c) (auto simp: map_filter_simps)
      with abc Inr None show ?thesis by (auto simp: parse_timeout_None)
    next
      case (Some ms)
      with r have "Some ms \<in> {a, b, c} \<and> (\<forall>n. Some n \<in> {a, b, c} \<longrightarrow> ms \<le> n)"
        by (cases a; cases b; cases c) (auto simp: map_filter_simps min_def split: if_splits)
      with abc Inr Some nn show ?thesis by auto
    qed
  qed
qed

theorem distributed_timeout_is_strictest_witness:
  "iso_sane (\<lambda>_. IsoInvalid)
   \<and> distributed_timeout_ms (\<lambda>_. IsoInvalid) (Flow None [] (PStr ''300'') [] []) (PInt 0) PNone = Inr (Some 0)
   \<and> (\<exists>v \<in> {PStr ''300'', PInt 0, PNone}. parse_timeout (\<lambda>_. IsoInvalid) v = Inr (Some 0))"
proof -
  have s: "iso_sane (\<lambda>_. IsoInvalid)" by (simp add: iso_sane_def)
  have v: "distributed_timeout_ms (\<lambda>_. IsoInvalid) (Flow None [] (PStr ''300'') [] []) (PInt 0) PNone = Inr (Some 0)"
    by (simp add: distributed_timeout_ms_def validated_timeout_ms_def parse_timeout_def parse_timeout_int_def
        str_isdigit_def is_digit_def ascii_digit_def digits_int_def MAX_TIMEOUT_MS_def map_filter_simps)
  with s distributed_timeout_is_strictest [OF s, of "Flow None [] (PStr ''300'') [] []" "PInt 0" PNone]
  show ?thesis by auto
qed

text \<open>
  A node timeout that passed the construction check parses at run time, to no budget or to one
  between zero and a day.
\<close>

theorem node_timeout_in_range:
  assumes "iso_sane isod" and "validate_timeout_budget isod v = Inr v'"
  shows "v' = v \<and> (\<exists>r. parse_timeout isod v' = Inr r
     \<and> (case r of None \<Rightarrow> v = PNone \<or> v = PStr [] | Some ms \<Rightarrow> 0 \<le> ms \<and> ms \<le> MAX_NODE_TIMEOUT_MS))"
proof (cases "v = PNone \<or> v = PStr []")
  case True
  with assms(2) show ?thesis
    by (auto simp: validate_timeout_budget_def parse_timeout_def)
next
  case False
  with assms(2) obtain r where r: "parse_timeout isod v = Inr r" "v' = v"
    "case r of None \<Rightarrow> True | Some ms \<Rightarrow> ms \<le> MAX_NODE_TIMEOUT_MS"
    by (auto simp: validate_timeout_budget_def split: sum.splits option.splits if_splits)
  with False parse_timeout_None [of isod v] parse_timeout_range [OF assms(1), of v] show ?thesis
    by (cases r) auto
qed

theorem node_timeout_in_range_witness:
  "validate_timeout_budget (\<lambda>_. IsoInvalid) (PInt 0) = Inr (PInt 0)
   \<and> (\<exists>ms. parse_timeout (\<lambda>_. IsoInvalid) (PInt 0) = Inr (Some ms) \<and> 0 \<le> ms \<and> ms \<le> MAX_NODE_TIMEOUT_MS)"
proof -
  have s: "iso_sane (\<lambda>_. IsoInvalid)" by (simp add: iso_sane_def)
  have v: "validate_timeout_budget (\<lambda>_. IsoInvalid) (PInt 0) = Inr (PInt 0)"
    by (simp add: validate_timeout_budget_def parse_timeout_def parse_timeout_int_def MAX_TIMEOUT_MS_def
        MAX_NODE_TIMEOUT_MS_def)
  from node_timeout_in_range [OF s v] v show ?thesis by (auto split: option.splits)
qed

end
