(* ===== verification/Runner.thy ===== *)
theory Runner
  imports Timeouts
begin

text \<open>
  \<^verbatim>\<open>plaita/core/runner.py\<close>: one node execution with its budget, retries, backoff, cancellation
  and error strategies.  The rest of the process is the environment \<open>'w env\<close>: a world that is
  threaded through clock reads, sleeps and node bodies.  A node body may change the context and
  the world, return a value, raise an exception or raise the carrier of a nested suspension.
  Time is an integer number of microseconds.  The calls the runner makes are recorded in
  a log of \<open>run_event\<close>s, in order; logging, spans and source-line marks are left out.
\<close>

section \<open>Environment\<close>

record carrier =
  ca_node :: node
  ca_flow :: flow
  ca_ctx :: ctx
  ca_result :: pyval
  ca_frames :: "(flow \<times> ctx \<times> node) list"

datatype raised = Exc exc | Carrier carrier

record 'w env =
  time_time :: "'w \<Rightarrow> int \<times> 'w"
  cancel_requested :: "('w \<Rightarrow> bool) option"
  clear_cancel_event :: "'w \<Rightarrow> 'w"
  assert_executable :: "node \<Rightarrow> flow \<Rightarrow> 'w \<Rightarrow> exc + unit"
  run_body :: "node \<Rightarrow> int option \<Rightarrow> ctx \<Rightarrow> 'w \<Rightarrow> (raised + pyval) \<times> ctx \<times> 'w"
  sleep :: "int \<Rightarrow> 'w \<Rightarrow> 'w"
  isodur :: "string \<Rightarrow> iso_duration"
  result_payload :: "node \<Rightarrow> 'w \<Rightarrow> (pyval dict \<times> bool) option"

datatype run_event = NodeStart string | Attempt "int option" | Sleep int | NodeEnd string bool

section \<open>Classification and error strategies\<close>

definition coerce_strategy :: "pyval \<Rightarrow> error_strategy" where
  "coerce_strategy v =
     (case v of
        PStr s \<Rightarrow>
          if s = ''continue_with'' then CONTINUE_WITH
          else if s = ''abort'' then ABORT
          else if s = ''continue'' then CONTINUE
          else if s = ''continue-with'' then CONTINUE_WITH else ABORT
      | _ \<Rightarrow> ABORT)"

definition DETERMINISTIC_ERROR_TYPES :: "string list" where
  "DETERMINISTIC_ERROR_TYPES = [''ValueError'', ''TypeError'', ''NameError'', ''SyntaxError'']"

definition deterministic_class :: "exc_class \<Rightarrow> bool" where
  "deterministic_class c \<longleftrightarrow> c \<in> {Builtin ValueError, Builtin TypeError, NameErr, SyntaxErr}"

definition is_retryable_error :: "exc \<Rightarrow> bool" where
  "is_retryable_error e =
     (if exc_isa (e_class e) NodeException then
        (if py_eq (e_code e) (PInt 1002) \<or> py_eq (e_code e) (PInt 1003) then True
         else if py_eq (e_code e) (PInt 1001) then False else True)
      else if (case e_origin e of Some t \<Rightarrow> t \<in> set DETERMINISTIC_ERROR_TYPES | None \<Rightarrow> False) then False
      else if deterministic_class (e_class e) then e_retry_mark e
      else if exc_isa (e_class e) SuspendNotExecutableError then False
      else True)"

definition retry_backoff_seconds :: "int \<Rightarrow> int" where
  "retry_backoff_seconds attempt = min 30 (2 ^ nat (min (max attempt 0) 30))"

definition handle_timeout :: "error_handler option \<Rightarrow> bool \<Rightarrow> exc + pyval" where
  "handle_timeout handler by_flow =
     (case Option.bind handler handle of
        Some v \<Rightarrow> Inr v
      | None \<Rightarrow> Inl (node_timeout_error (if by_flow then FLOW_ERROR else NODE_ERROR)))"

definition handle_flow_result_error :: "exc \<Rightarrow> exc" where
  "handle_flow_result_error e = error_result_exception (e_code e) (e_message e)"

definition opt_int :: "int option \<Rightarrow> pyval" where
  "opt_int i = (case i of None \<Rightarrow> PNone | Some n \<Rightarrow> PInt n)"

text \<open>\<open>_handle_node_error\<close>: a configured message replaces the composed one, which is not kept.\<close>

definition handle_node_error :: "error_handler option \<Rightarrow> exc \<Rightarrow> exc + pyval" where
  "handle_node_error handler e =
     (case handler of
        None \<Rightarrow> Inl (node_execution_error (PInt DEFAULT_NODE_ABORT_CODE) PNone)
      | Some h \<Rightarrow>
          (case strategy h of
             ABORT \<Rightarrow> Inl (node_execution_error (opt_int (error_code h))
                (if str_truthy (error_message h) then opt_str (error_message h) else PNone))
           | CONTINUE \<Rightarrow> Inr PNone
           | CONTINUE_WITH \<Rightarrow> Inr (default_value h)))"

definition get_error_result :: "error_handler option \<Rightarrow> pyval" where
  "get_error_result handler =
     (case handler of
        None \<Rightarrow> PNone
      | Some h \<Rightarrow> (case strategy h of CONTINUE_WITH \<Rightarrow> default_value h | _ \<Rightarrow> PNone))"

section \<open>Cancellation and backoff\<close>

definition cancelled :: "'w env \<Rightarrow> 'w \<Rightarrow> bool" where
  "cancelled E w = (case cancel_requested E of None \<Rightarrow> False | Some is_set \<Rightarrow> is_set w)"

definition raise_if_cancel_requested :: "'w env \<Rightarrow> 'w \<Rightarrow> exc + unit" where
  "raise_if_cancel_requested E w = (if cancelled E w then Inl flow_cancelled_exception else Inr ())"

definition CANCEL_POLL_INTERVAL_MS :: int where
  "CANCEL_POLL_INTERVAL_MS = 500"

text \<open>
  The polling loop of \<open>_backoff_sleep_cancellable\<close>: \<open>asyncio.wait\<close> returns after half a second
  or when the sleeper is done, whichever is first.
\<close>

function poll_sleep :: "'w env \<Rightarrow> int \<Rightarrow> 'w \<Rightarrow> (exc + unit) \<times> 'w" where
  "poll_sleep E ms w =
     (if ms \<le> CANCEL_POLL_INTERVAL_MS then (Inr (), sleep E ms w)
      else let w' = sleep E CANCEL_POLL_INTERVAL_MS w in
        if cancelled E w' then (Inl flow_cancelled_exception, w')
        else poll_sleep E (ms - CANCEL_POLL_INTERVAL_MS) w')"
  by pat_completeness auto
termination
  by (relation "measure (\<lambda>(E, ms, w). nat ms)") (auto simp: CANCEL_POLL_INTERVAL_MS_def)

declare poll_sleep.simps [simp del]

definition backoff_sleep_cancellable :: "'w env \<Rightarrow> int \<Rightarrow> 'w \<Rightarrow> (exc + unit) \<times> 'w" where
  "backoff_sleep_cancellable E ms w =
     (case cancel_requested E of
        None \<Rightarrow> (Inr (), sleep E ms w)
      | Some _ \<Rightarrow>
          if cancelled E w then (Inl flow_cancelled_exception, w)
          else if ms \<le> 0 then (Inr (), sleep E ms w) else poll_sleep E ms w)"

section \<open>The retry loop\<close>

text \<open>\<open>int(x * 1000)\<close> of a time difference: truncation towards zero.\<close>

definition trunc_ms :: "int \<Rightarrow> int" where
  "trunc_ms us = (if 0 \<le> us then us div 1000 else - ((- us) div 1000))"

definition elapsed_ms :: "'w env \<Rightarrow> int \<Rightarrow> 'w \<Rightarrow> int \<times> 'w" where
  "elapsed_ms E start w = (let (t, w') = time_time E w in (trunc_ms (t - start), w'))"

definition remaining_timeout :: "'w env \<Rightarrow> int option \<Rightarrow> int \<Rightarrow> 'w \<Rightarrow> int option \<times> 'w" where
  "remaining_timeout E budget start w =
     (case budget of
        None \<Rightarrow> (None, w)
      | Some t \<Rightarrow> let (el, w') = elapsed_ms E start w in (Some (max 0 (t - el)), w'))"

definition backoff_delay :: "'w env \<Rightarrow> int option \<Rightarrow> int \<Rightarrow> int \<Rightarrow> 'w \<Rightarrow> int \<times> 'w" where
  "backoff_delay E budget start attempt w =
     (let d = 1000 * retry_backoff_seconds attempt in
      case budget of
        None \<Rightarrow> (d, w)
      | Some t \<Rightarrow> let (el, w') = elapsed_ms E start w in (min d (max 0 (t - el)), w'))"

datatype decision = Finish "raised + pyval" | Retry

definition lift_exc :: "exc + pyval \<Rightarrow> raised + pyval" where
  "lift_exc r = (case r of Inl e \<Rightarrow> Inl (Exc e) | Inr v \<Rightarrow> Inr v)"

text \<open>
  The \<open>except\<close> clauses of \<open>_execute_with_retry\<close>, in order; \<open>canc\<close> is whether cancellation has
  been requested, \<open>final\<close> whether this is the last attempt.
\<close>

definition on_failure :: "bool \<Rightarrow> bool \<Rightarrow> bool \<Rightarrow> node \<Rightarrow> raised \<Rightarrow> decision" where
  "on_failure canc by_flow final n r =
     (case r of
        Carrier c \<Rightarrow> Finish (Inl r)
      | Exc e \<Rightarrow>
          if exc_isa (e_class e) FlowResultError then Finish (Inl (Exc (handle_flow_result_error e)))
          else if exc_isa (e_class e) NodeBudgetExceeded then
            (if canc then Finish (Inl (Exc flow_cancelled_exception))
             else if by_flow then Finish (Inl (Exc execution_deadline_error))
             else Finish (lift_exc (handle_timeout (Some (nd_timeout_handler n)) by_flow)))
          else if exc_isa (e_class e) FlowSuspendedCarrier \<or> exc_isa (e_class e) SuspendNotExecutableError
            then Finish (Inl r)
          else if canc then Finish (Inl (Exc flow_cancelled_exception))
          else if final \<or> \<not> is_retryable_error e
            then Finish (lift_exc (handle_node_error (Some (nd_error_handler n)) e))
          else Retry)"

type_synonym 'w run = "(raised + pyval) \<times> run_event list \<times> ctx \<times> 'w"

text \<open>The \<open>for attempt in range(max_retries + 1)\<close> loop over the attempts that are left.\<close>

fun retry_loop ::
  "'w env \<Rightarrow> node \<Rightarrow> int option \<Rightarrow> bool \<Rightarrow> int \<Rightarrow> int \<Rightarrow> int list \<Rightarrow> ctx \<Rightarrow> 'w \<Rightarrow> 'w run" where
  "retry_loop E n budget by_flow start maxr [] cx w =
     (Inr (get_error_result (Some (nd_error_handler n))), [], cx, w)"
| "retry_loop E n budget by_flow start maxr (attempt # attempts) cx w =
     (case raise_if_cancel_requested E w of
        Inl e \<Rightarrow> (Inl (Exc e), [], cx, w)
      | Inr _ \<Rightarrow>
          (let (remaining, w1) = remaining_timeout E budget start w;
               (r, cx1, w2) = run_body E n remaining cx w1 in
           case r of
             Inr v \<Rightarrow> (Inr v, [Attempt remaining], cx1, w2)
           | Inl err \<Rightarrow>
               (case on_failure (cancelled E w2) by_flow (attempt = maxr) n err of
                  Finish res \<Rightarrow> (res, [Attempt remaining], cx1, w2)
                | Retry \<Rightarrow>
                    (let (delay, w3) = backoff_delay E budget start attempt w2;
                         (s, w4) = backoff_sleep_cancellable E delay w3 in
                     case s of
                       Inl e \<Rightarrow> (Inl (Exc e), [Attempt remaining, Sleep delay], cx1, w4)
                     | Inr _ \<Rightarrow>
                         (let (res, lg, cx2, w5) = retry_loop E n budget by_flow start maxr attempts cx1 w4
                          in (res, Attempt remaining # Sleep delay # lg, cx2, w5))))))"

definition max_retries :: "node \<Rightarrow> int" where
  "max_retries n = max 0 (retry_times (nd_error_handler n))"

definition total_timeout :: "int option \<Rightarrow> int option \<Rightarrow> int option" where
  "total_timeout config max_ms =
     (case config of
        Some c \<Rightarrow> (case max_ms of Some m \<Rightarrow> Some (min c m) | None \<Rightarrow> Some c)
      | None \<Rightarrow> max_ms)"

definition time_limit_by_flow :: "int option \<Rightarrow> int option \<Rightarrow> bool" where
  "time_limit_by_flow config max_ms =
     (case max_ms of None \<Rightarrow> False | Some m \<Rightarrow> (case config of None \<Rightarrow> True | Some c \<Rightarrow> m < c))"

text \<open>An illegal \<open>node.timeout\<close> raises its \<open>ValueError\<close> before anything else happens.\<close>

definition execute_with_retry :: "'w env \<Rightarrow> flow \<Rightarrow> node \<Rightarrow> int option \<Rightarrow> ctx \<Rightarrow> 'w \<Rightarrow> 'w run" where
  "execute_with_retry E f n max_ms cx w =
     (case parse_timeout (isodur E) (nd_timeout n) of
        Inl _ \<Rightarrow> (Inl (Exc (plain_exc (Builtin ValueError))), [], cx, w)
      | Inr config \<Rightarrow>
          (let w1 = clear_cancel_event E w in
           if cancelled E w1 then (Inl (Exc flow_cancelled_exception), [], cx, w1)
           else case assert_executable E n f w1 of
             Inl e \<Rightarrow> (Inl (Exc e), [], cx, w1)
           | Inr _ \<Rightarrow>
               (let (start, w2) = time_time E w1 in
                retry_loop E n (total_timeout config max_ms) (time_limit_by_flow config max_ms)
                  start (max_retries n) [0..max_retries n] cx w2)))"

section \<open>Running a node\<close>

text \<open>
  \<open>run_node\<close>: the result and the branch.  After a success the last node, the last branch and the
  node result are recorded; after an exception the context is what the body left.
\<close>

definition run_node ::
  "'w env \<Rightarrow> flow \<Rightarrow> node \<Rightarrow> int option \<Rightarrow> ctx \<Rightarrow> 'w \<Rightarrow>
     (raised + pyval \<times> pyval) \<times> run_event list \<times> ctx \<times> 'w" where
  "run_node E f n max_ms cx w =
     (let (r, lg, cx1, w1) = execute_with_retry E f n max_ms cx w in
      case r of
        Inl err \<Rightarrow> (Inl err, NodeStart (nd_id n) # lg @ [NodeEnd (nd_id n) False], cx1, w1)
      | Inr v \<Rightarrow>
          (let br = (if nd_branching n then v else PNone);
               cx2 = set_last_branch br (set_last_node_id (PStr (nd_id n)) cx1) in
           case update_node_result (result_payload E n w1) (nd_id n) v cx2 of
             Inl e \<Rightarrow> (Inl (Exc e), NodeStart (nd_id n) # lg, cx2, w1)
           | Inr cx3 \<Rightarrow> (Inr (v, br), NodeStart (nd_id n) # lg @ [NodeEnd (nd_id n) True], cx3, w1)))"

section \<open>Lemmas on the loop\<close>

definition is_attempt :: "run_event \<Rightarrow> bool" where
  "is_attempt ev = (case ev of Attempt _ \<Rightarrow> True | _ \<Rightarrow> False)"

definition n_attempts :: "run_event list \<Rightarrow> nat" where
  "n_attempts lg = length (filter is_attempt lg)"

definition slept :: "run_event list \<Rightarrow> int" where
  "slept lg = sum_list (map (\<lambda>ev. case ev of Sleep d \<Rightarrow> d | _ \<Rightarrow> 0) lg)"

lemma log_simps [run_simps, simp]:
  "n_attempts [] = 0" "n_attempts (Attempt r # lg) = Suc (n_attempts lg)"
  "n_attempts (Sleep d # lg) = n_attempts lg" "n_attempts (NodeStart i # lg) = n_attempts lg"
  "n_attempts (NodeEnd i b # lg) = n_attempts lg"
  "slept [] = 0" "slept (Attempt r # lg) = slept lg" "slept (Sleep d # lg) = d + slept lg"
  "slept (NodeStart i # lg) = slept lg" "slept (NodeEnd i b # lg) = slept lg"
  by (simp_all add: n_attempts_def is_attempt_def slept_def)

lemma retry_backoff_range: "1 \<le> retry_backoff_seconds a \<and> retry_backoff_seconds a \<le> 30"
  by (auto simp: retry_backoff_seconds_def min_def)

lemma backoff_delay_range:
  "backoff_delay E budget start a w = (d, w') \<Longrightarrow> 0 \<le> d \<and> d \<le> 1000 * retry_backoff_seconds a"
  using retry_backoff_range [of a]
  by (auto simp: backoff_delay_def Let_def elapsed_ms_def split: option.splits prod.splits)

lemma backoff_delay_budget:
  "backoff_delay E (Some b) start a w = (d, w') \<Longrightarrow> d \<le> max 0 (b - fst (elapsed_ms E start w))"
  by (auto simp: backoff_delay_def Let_def elapsed_ms_def split: prod.splits)

lemma poll_sleep_result: "fst (poll_sleep E ms w) \<in> {Inr (), Inl flow_cancelled_exception}"
proof (induction E ms w rule: poll_sleep.induct)
  case (1 E ms w)
  show ?case
  proof (cases "ms \<le> CANCEL_POLL_INTERVAL_MS \<or> cancelled E (sleep E CANCEL_POLL_INTERVAL_MS w)")
    case True
    then show ?thesis by (subst poll_sleep.simps) (auto simp: Let_def)
  next
    case False
    with 1 show ?thesis by (subst poll_sleep.simps) (simp add: Let_def)
  qed
qed

text \<open>One turn of the loop, by what the body did.\<close>

lemma retry_loop_cases [consumes 1, case_names cancel return finish interrupted again]:
  assumes "retry_loop E n budget by_flow start maxr (a # as) cx w = (res, lg, cx', w')"
  obtains
    "cancelled E w" "res = Inl (Exc flow_cancelled_exception)" "lg = []" "cx' = cx" "w' = w"
  | rem w1 v where "\<not> cancelled E w" "remaining_timeout E budget start w = (rem, w1)"
      "run_body E n rem cx w1 = (Inr v, cx', w')" "res = Inr v" "lg = [Attempt rem]"
  | rem w1 err where "\<not> cancelled E w" "remaining_timeout E budget start w = (rem, w1)"
      "run_body E n rem cx w1 = (Inl err, cx', w')"
      "on_failure (cancelled E w') by_flow (a = maxr) n err = Finish res" "lg = [Attempt rem]"
  | rem w1 err w2 d w3 where "\<not> cancelled E w" "remaining_timeout E budget start w = (rem, w1)"
      "run_body E n rem cx w1 = (Inl err, cx', w2)" "on_failure (cancelled E w2) by_flow (a = maxr) n err = Retry"
      "backoff_delay E budget start a w2 = (d, w3)"
      "backoff_sleep_cancellable E d w3 = (Inl flow_cancelled_exception, w')"
      "res = Inl (Exc flow_cancelled_exception)" "lg = [Attempt rem, Sleep d]"
  | rem w1 err cx1 w2 d w3 w4 lg' where "\<not> cancelled E w" "remaining_timeout E budget start w = (rem, w1)"
      "run_body E n rem cx w1 = (Inl err, cx1, w2)" "on_failure (cancelled E w2) by_flow (a = maxr) n err = Retry"
      "backoff_delay E budget start a w2 = (d, w3)" "backoff_sleep_cancellable E d w3 = (Inr (), w4)"
      "retry_loop E n budget by_flow start maxr as cx1 w4 = (res, lg', cx', w')"
      "lg = Attempt rem # Sleep d # lg'"
proof -
  have poll: "fst (poll_sleep E ms x) \<in> {Inr (), Inl flow_cancelled_exception}" for ms x
    by (rule poll_sleep_result)
  have slp: "fst (backoff_sleep_cancellable E d x) \<in> {Inr (), Inl flow_cancelled_exception}" for d x
  proof (cases "cancel_requested E")
    case None
    then show ?thesis by (simp add: backoff_sleep_cancellable_def)
  next
    case (Some c)
    with poll [of d x] show ?thesis by (simp add: backoff_sleep_cancellable_def)
  qed
  obtain rem w1 where R: "remaining_timeout E budget start w = (rem, w1)" by fastforce
  obtain r cx1 w2 where B: "run_body E n rem cx w1 = (r, cx1, w2)" by (metis prod_cases3)
  obtain d w3 where D: "backoff_delay E budget start a w2 = (d, w3)" by fastforce
  obtain s w4 where S: "backoff_sleep_cancellable E d w3 = (s, w4)" by fastforce
  have s: "s = Inr () \<or> s = Inl flow_cancelled_exception" using slp [of d w3] by (auto simp: S)
  show thesis
  proof (cases "cancelled E w")
    case True
    show ?thesis
      by (rule that(1)) (use assms True in \<open>simp_all add: raise_if_cancel_requested_def\<close>)
  next
    case nc: False
    show ?thesis
    proof (cases r)
      case (Inr v)
      show ?thesis
        by (rule that(2) [of rem w1 v])
          (use assms nc R B Inr in \<open>simp_all add: raise_if_cancel_requested_def\<close>)
    next
      case (Inl err)
      show ?thesis
      proof (cases "on_failure (cancelled E w2) by_flow (a = maxr) n err")
        case (Finish x)
        show ?thesis
          by (rule that(3) [of rem w1 err])
            (use assms nc R B Inl Finish in \<open>simp_all add: raise_if_cancel_requested_def\<close>)
      next
        case Retry
        obtain res' lg' cx2 w5 where L: "retry_loop E n budget by_flow start maxr as cx1 w4 = (res', lg', cx2, w5)"
          by (metis prod_cases4)
        from s show ?thesis
        proof
          assume s1: "s = Inr ()"
          show ?thesis
            by (rule that(5) [of rem w1 err cx1 w2 d w3 w4 lg'])
              (use assms nc R B Inl Retry D S L s1 in \<open>simp_all add: raise_if_cancel_requested_def\<close>)
        next
          assume s2: "s = Inl flow_cancelled_exception"
          show ?thesis
            by (rule that(4) [of rem w1 err w2 d w3])
              (use assms nc R B Inl Retry D S s2 in \<open>simp_all add: raise_if_cancel_requested_def\<close>)
        qed
      qed
    qed
  qed
qed

text \<open>The last attempt of \<open>range(max_retries + 1)\<close> never asks for another one.\<close>

lemma on_failure_final: "on_failure canc by_flow True n err \<noteq> Retry"
  by (auto simp: on_failure_def split: raised.splits)

lemma retry_loop_attempts:
  "retry_loop E n budget by_flow start maxr as cx w = (res, lg, cx', w') \<Longrightarrow>
     n_attempts lg \<le> length as \<and> 0 \<le> slept lg
     \<and> slept lg \<le> sum_list (map (\<lambda>a. 1000 * retry_backoff_seconds a) (filter (\<lambda>a. a \<noteq> maxr) as))"
proof (induction as arbitrary: cx w lg)
  case Nil
  then show ?case by simp
next
  case (Cons a as)
  have nn: "0 \<le> sum_list (map (\<lambda>a. 1000 * retry_backoff_seconds a) as)" for as
  proof (rule sum_list_nonneg)
    fix x assume "x \<in> set (map (\<lambda>a. 1000 * retry_backoff_seconds a) as)"
    then obtain b where "x = 1000 * retry_backoff_seconds b" by auto
    with retry_backoff_range [of b] show "0 \<le> x" by simp
  qed
  note ra = retry_backoff_range [of a] nn [of "filter (\<lambda>a. a \<noteq> maxr) as"]
  from Cons.prems show ?case
  proof (cases rule: retry_loop_cases)
    case (interrupted rem w1 err w2 d w3)
    then have "a \<noteq> maxr" using on_failure_final by auto
    with interrupted show ?thesis using backoff_delay_range [OF interrupted(5)] ra by simp
  next
    case (again rem w1 err cx1 w2 d w3 w4 lg')
    then have "a \<noteq> maxr" using on_failure_final by auto
    with again show ?thesis using backoff_delay_range [OF again(5)] Cons.IH [OF again(7)] by simp
  qed (use ra in simp_all)
qed

text \<open>A clock that never runs backwards, whatever the engine calls.\<close>

definition clock_ok :: "'w env \<Rightarrow> ('w \<Rightarrow> int) \<Rightarrow> bool" where
  "clock_ok E now \<longleftrightarrow>
     (\<forall>w. fst (time_time E w) = now w \<and> now w \<le> now (snd (time_time E w)))
     \<and> (\<forall>n r cx w. now w \<le> now (snd (snd (run_body E n r cx w))))
     \<and> (\<forall>d w. now w \<le> now (sleep E d w)) \<and> (\<forall>w. now w \<le> now (clear_cancel_event E w))"

lemma clock_time: "clock_ok E now \<Longrightarrow> time_time E w = (t, w') \<Longrightarrow> t = now w \<and> now w \<le> now w'"
  by (metis clock_ok_def fst_conv snd_conv)

lemma clock_body: "clock_ok E now \<Longrightarrow> run_body E n r cx w = (x, cx', w') \<Longrightarrow> now w \<le> now w'"
  by (metis clock_ok_def snd_conv)

lemma clock_poll: "clock_ok E now \<Longrightarrow> now w \<le> now (snd (poll_sleep E ms w))"
proof (induction E ms w rule: poll_sleep.induct)
  case (1 E ms w)
  have sl: "now x \<le> now (sleep E d x)" for d x using 1(2) by (simp add: clock_ok_def)
  show ?case
  proof (cases "ms \<le> CANCEL_POLL_INTERVAL_MS \<or> cancelled E (sleep E CANCEL_POLL_INTERVAL_MS w)")
    case True
    with sl show ?thesis by (subst poll_sleep.simps) (auto simp: Let_def)
  next
    case False
    with 1 have "now (sleep E CANCEL_POLL_INTERVAL_MS w)
        \<le> now (snd (poll_sleep E (ms - CANCEL_POLL_INTERVAL_MS) (sleep E CANCEL_POLL_INTERVAL_MS w)))"
      by simp
    with sl [of w CANCEL_POLL_INTERVAL_MS] False show ?thesis
      by (subst poll_sleep.simps) (simp add: Let_def)
  qed
qed

lemma clock_sleep:
  assumes "clock_ok E now" and "backoff_sleep_cancellable E d w = (r, w')"
  shows "now w \<le> now w'"
proof -
  have sl: "now x \<le> now (sleep E d x)" for d x using assms(1) by (simp add: clock_ok_def)
  show ?thesis
  proof (cases "cancel_requested E")
    case None
    with assms(2) sl show ?thesis by (auto simp: backoff_sleep_cancellable_def)
  next
    case (Some c)
    with assms(2) sl clock_poll [OF assms(1), of w d] show ?thesis
      by (auto simp: backoff_sleep_cancellable_def split: if_splits)
  qed
qed

lemma elapsed_nonneg:
  "clock_ok E now \<Longrightarrow> start \<le> now w \<Longrightarrow> elapsed_ms E start w = (el, w') \<Longrightarrow> 0 \<le> el \<and> now w \<le> now w'"
  using clock_time [of E now w]
  by (auto simp: elapsed_ms_def trunc_ms_def pos_imp_zdiv_nonneg_iff split: prod.splits)

text \<open>Every event of the loop stays within the budget.\<close>

definition within_budget :: "int option \<Rightarrow> run_event \<Rightarrow> bool" where
  "within_budget budget ev =
     (case ev of
        Attempt rem \<Rightarrow> (case budget of None \<Rightarrow> rem = None | Some b \<Rightarrow> \<exists>r. rem = Some r \<and> 0 \<le> r \<and> r \<le> b)
      | Sleep d \<Rightarrow> 0 \<le> d \<and> d \<le> 30000 \<and> (case budget of None \<Rightarrow> True | Some b \<Rightarrow> d \<le> b)
      | _ \<Rightarrow> True)"

lemma remaining_within:
  assumes "clock_ok E now" and "start \<le> now w" and "\<forall>b. budget = Some b \<longrightarrow> 0 \<le> b"
    and "remaining_timeout E budget start w = (rem, w1)"
  shows "within_budget budget (Attempt rem) \<and> now w \<le> now w1"
proof (cases budget)
  case (Some b)
  obtain el w2 where el: "elapsed_ms E start w = (el, w2)" by fastforce
  with elapsed_nonneg [OF assms(1,2) el] Some assms(3,4) show ?thesis
    by (auto simp: remaining_timeout_def within_budget_def)
qed (use assms(4) in \<open>simp add: remaining_timeout_def within_budget_def\<close>)

lemma delay_within:
  assumes "clock_ok E now" and "start \<le> now w" and "\<forall>b. budget = Some b \<longrightarrow> 0 \<le> b"
    and "backoff_delay E budget start a w = (d, w1)"
  shows "within_budget budget (Sleep d) \<and> now w \<le> now w1"
proof -
  have r: "0 \<le> d \<and> d \<le> 30000"
    using backoff_delay_range [OF assms(4)] retry_backoff_range [of a] by auto
  show ?thesis
  proof (cases budget)
    case (Some b)
    obtain el w2 where el: "elapsed_ms E start w = (el, w2)" by fastforce
    with elapsed_nonneg [OF assms(1,2) el] Some assms(3,4) r show ?thesis
      by (auto simp: backoff_delay_def within_budget_def Let_def)
  qed (use assms(4) r in \<open>simp add: backoff_delay_def within_budget_def Let_def\<close>)
qed

lemma retry_loop_within:
  assumes "clock_ok E now" and "\<forall>b. budget = Some b \<longrightarrow> 0 \<le> b"
  shows "retry_loop E n budget by_flow start maxr as cx w = (res, lg, cx', w') \<Longrightarrow> start \<le> now w \<Longrightarrow>
     list_all (within_budget budget) lg"
proof (induction as arbitrary: cx w lg)
  case Nil
  then show ?case by simp
next
  case (Cons a as)
  from Cons.prems(1) show ?case
  proof (cases rule: retry_loop_cases)
    case cancel
    then show ?thesis by simp
  next
    case (return rem w1 v)
    with remaining_within [OF assms(1) Cons.prems(2) assms(2) return(2)] show ?thesis by simp
  next
    case (finish rem w1 err)
    with remaining_within [OF assms(1) Cons.prems(2) assms(2) finish(2)] show ?thesis by simp
  next
    case (interrupted rem w1 err w2 d w3)
    note R = remaining_within [OF assms(1) Cons.prems(2) assms(2) interrupted(2)]
    with clock_body [OF assms(1) interrupted(3)] Cons.prems(2) have "start \<le> now w2" by simp
    from delay_within [OF assms(1) this assms(2) interrupted(5)] R interrupted show ?thesis by simp
  next
    case (again rem w1 err cx1 w2 d w3 w4 lg')
    note R = remaining_within [OF assms(1) Cons.prems(2) assms(2) again(2)]
    with clock_body [OF assms(1) again(3)] Cons.prems(2) have s2: "start \<le> now w2" by simp
    note D = delay_within [OF assms(1) s2 assms(2) again(5)]
    with clock_sleep [OF assms(1) again(6)] s2 have "start \<le> now w4" by simp
    from Cons.IH [OF again(7) this] R D again show ?thesis by simp
  qed
qed

text \<open>The loop is entered with the effective budget, or not at all.\<close>

lemma execute_with_retry_cases [consumes 1, case_names stopped loop]:
  assumes "execute_with_retry E f n max_ms cx w = (res, lg, cx', w')"
  obtains e where "res = Inl (Exc e)" "lg = []" "cx' = cx"
  | config w1 start w2 where "parse_timeout (isodur E) (nd_timeout n) = Inr config"
      "w1 = clear_cancel_event E w" "\<not> cancelled E w1" "assert_executable E n f w1 = Inr ()"
      "time_time E w1 = (start, w2)"
      "retry_loop E n (total_timeout config max_ms) (time_limit_by_flow config max_ms) start
         (max_retries n) [0..max_retries n] cx w2 = (res, lg, cx', w')"
proof (cases "parse_timeout (isodur E) (nd_timeout n)")
  case (Inl x)
  show ?thesis
    by (rule that(1) [of "plain_exc (Builtin ValueError)"]) (use assms Inl in \<open>simp_all add: execute_with_retry_def\<close>)
next
  case (Inr config)
  let ?w1 = "clear_cancel_event E w"
  obtain start w2 where T: "time_time E ?w1 = (start, w2)" by fastforce
  show ?thesis
  proof (cases "cancelled E ?w1")
    case True
    show ?thesis
      by (rule that(1) [of flow_cancelled_exception]) (use assms Inr True in \<open>simp_all add: execute_with_retry_def Let_def\<close>)
  next
    case nc: False
    show ?thesis
    proof (cases "assert_executable E n f ?w1")
      case (Inl e)
      show ?thesis
        by (rule that(1) [of e]) (use assms Inr nc Inl in \<open>simp_all add: execute_with_retry_def Let_def\<close>)
    next
      case ae: (Inr u)
      show ?thesis
        by (rule that(2) [of config ?w1 start w2])
          (use assms Inr nc ae T in \<open>simp_all add: execute_with_retry_def Let_def\<close>)
    qed
  qed
qed

lemma backoff_sum:
  assumes "0 \<le> m" and "m \<le> 10"
  shows "length [0..m] \<le> 11 \<and> sum_list (map (\<lambda>a. 1000 * retry_backoff_seconds a) (filter (\<lambda>a. a \<noteq> m) [0..m])) \<le> 181000"
proof -
  have "m \<in> {0, 1, 2, 3, 4, 5, 6, 7, 8, 9, 10}" using assms by (simp, presburger)
  then show ?thesis
    by (elim insertE emptyE) (simp_all add: retry_backoff_seconds_def upto_rec1)
qed

section \<open>Properties\<close>

text \<open>
  An environment that plays a script: the world counts the attempts, the clock stands still and
  nothing is cancelled.
\<close>

definition script_env :: "(nat \<Rightarrow> raised + pyval) \<Rightarrow> nat env" where
  "script_env outs = \<lparr>time_time = (\<lambda>w. (0, w)), cancel_requested = Some (\<lambda>_. False),
     clear_cancel_event = (\<lambda>w. w), assert_executable = (\<lambda>_ _ _. Inr ()),
     run_body = (\<lambda>n r cx w. (outs w, cx, Suc w)), sleep = (\<lambda>d w. w),
     isodur = (\<lambda>_. IsoInvalid), result_payload = (\<lambda>_ _. None)\<rparr>"

definition retrying_node :: "int \<Rightarrow> error_strategy \<Rightarrow> node" where
  "retrying_node k st = Node ''n'' ''op'' None (Some ''e'') False None False False (PStr [])
     default_error_handler (default_error_handler\<lparr>retry_times := k, strategy := st\<rparr>) [] [] None None"

lemma script_clock: "clock_ok (script_env outs) (\<lambda>_. 0)"
  by (simp add: clock_ok_def script_env_def)

lemma script_iso: "iso_sane (isodur (script_env outs))"
  by (simp add: iso_sane_def script_env_def)

text \<open>
  A node execution stays within its budget: with a \<open>retryTimes\<close> its validator accepted there are
  at most ten retries, the backoff sums to at most 181 seconds, and under a clock that does not
  run backwards every attempt is given at most the effective budget (the smaller of the
  node's and the flow's) and no single wait exceeds thirty seconds or that budget.
\<close>

theorem retry_within_budget:
  assumes "clock_ok E now" and "iso_sane (isodur E)"
    and "validate_retry_times v = Inr (retry_times (nd_error_handler n))"
    and "\<forall>m. max_ms = Some m \<longrightarrow> 0 \<le> m"
    and "execute_with_retry E f n max_ms cx w = (res, lg, cx', w')"
  shows "int (n_attempts lg) \<le> retry_times (nd_error_handler n) + 1 \<and> n_attempts lg \<le> 11 \<and> slept lg \<le> 181000
    \<and> (\<forall>config. parse_timeout (isodur E) (nd_timeout n) = Inr config \<longrightarrow>
         list_all (within_budget (total_timeout config max_ms)) lg)"
  using assms(5)
proof (cases rule: execute_with_retry_cases)
  case (stopped e)
  with validate_retry_times_bounds [OF assms(3)] show ?thesis by simp
next
  case (loop config w1 start w2)
  have m: "max_retries n = retry_times (nd_error_handler n)" "0 \<le> max_retries n" "max_retries n \<le> 10"
    using validate_retry_times_bounds [OF assms(3)] by (auto simp: max_retries_def MAX_RETRY_TIMES_def)
  have nn: "\<forall>b. total_timeout config max_ms = Some b \<longrightarrow> 0 \<le> b"
    using parse_timeout_range [OF assms(2)] loop(1) assms(4)
    by (auto simp: total_timeout_def split: option.splits)
  have "start \<le> now w2" using clock_time [OF assms(1) loop(5)] by simp
  from retry_loop_within [OF assms(1) nn loop(6) this] retry_loop_attempts [OF loop(6)]
    backoff_sum [OF m(2,3)] m loop(1)
  show ?thesis by auto
qed

theorem retry_within_budget_witness:
  "n_attempts (fst (snd (execute_with_retry (script_env (\<lambda>_. Inl (Exc (plain_exc OtherError))))
      (Flow None [] PNone [] []) (retrying_node 2 CONTINUE) (Some 700) example_ctx 0))) \<le> 11"
proof -
  let ?E = "script_env (\<lambda>_. Inl (Exc (plain_exc OtherError)))"
  obtain res lg cx' w' where
    r: "execute_with_retry ?E (Flow None [] PNone [] []) (retrying_node 2 CONTINUE) (Some 700) example_ctx 0 = (res, lg, cx', w')"
    by (metis prod_cases4)
  have "validate_retry_times (PInt 2) = Inr (retry_times (nd_error_handler (retrying_node 2 CONTINUE)))"
    by (simp add: validate_retry_times_def MAX_RETRY_TIMES_def retrying_node_def)
  from retry_within_budget [OF script_clock script_iso this _ r] r show ?thesis by simp
qed

text \<open>An error that asks for another attempt when one is left.\<close>

definition transient :: "raised \<Rightarrow> bool" where
  "transient r =
     (case r of
        Carrier _ \<Rightarrow> False
      | Exc e \<Rightarrow> \<not> exc_isa (e_class e) FlowResultError \<and> \<not> exc_isa (e_class e) NodeBudgetExceeded
          \<and> \<not> exc_isa (e_class e) FlowSuspendedCarrier \<and> \<not> exc_isa (e_class e) SuspendNotExecutableError
          \<and> is_retryable_error e)"

lemma on_failure_Retry: "on_failure False by_flow final n err = Retry \<longleftrightarrow> \<not> final \<and> transient err"
  by (auto simp: on_failure_def transient_def split: raised.splits)

definition scripted :: "'w env \<Rightarrow> node \<Rightarrow> ('w \<Rightarrow> nat) \<Rightarrow> (nat \<Rightarrow> raised + pyval) \<Rightarrow> bool" where
  "scripted E n cnt outs \<longleftrightarrow> (\<forall>w. \<not> cancelled E w)
     \<and> (\<forall>w. cnt (snd (time_time E w)) = cnt w) \<and> (\<forall>d w. cnt (sleep E d w) = cnt w)
     \<and> (\<forall>rem cx w. fst (run_body E n rem cx w) = outs (cnt w) \<and> cnt (snd (snd (run_body E n rem cx w))) = Suc (cnt w))"

lemma scripted_sleep:
  assumes "scripted E n cnt outs" and "backoff_sleep_cancellable E d w = (r, w')"
  shows "r = Inr () \<and> cnt w' = cnt w"
proof -
  have nc: "\<not> cancelled E x" and sl: "cnt (sleep E y x) = cnt x" for x y using assms(1) by (auto simp: scripted_def)
  have "fst (poll_sleep E ms x) = Inr () \<and> cnt (snd (poll_sleep E ms x)) = cnt x" for ms x
    using nc sl
  proof (induction E ms x rule: poll_sleep.induct)
    case (1 E ms x)
    show ?case
    proof (cases "ms \<le> CANCEL_POLL_INTERVAL_MS")
      case True
      with 1(3) show ?thesis by (subst (1 2) poll_sleep.simps) simp
    next
      case False
      with 1 show ?thesis by (subst (1 2) poll_sleep.simps) (simp add: Let_def)
    qed
  qed
  then show ?thesis using assms(2) nc sl
    by (auto simp: backoff_sleep_cancellable_def split: option.splits if_splits)
      (metis fst_conv snd_conv)+
qed

lemma scripted_remaining:
  "scripted E n cnt outs \<Longrightarrow> remaining_timeout E budget start w = (r, w') \<Longrightarrow> cnt w' = cnt w"
  by (auto simp: scripted_def remaining_timeout_def elapsed_ms_def split: option.splits prod.splits)
    (metis snd_conv)

lemma scripted_delay:
  "scripted E n cnt outs \<Longrightarrow> backoff_delay E budget start a w = (r, w') \<Longrightarrow> cnt w' = cnt w"
  by (auto simp: scripted_def backoff_delay_def elapsed_ms_def Let_def split: option.splits prod.splits)
    (metis snd_conv)

lemma scripted_body:
  "scripted E n cnt outs \<Longrightarrow> run_body E n rem cx w = (r, cx', w') \<Longrightarrow> r = outs (cnt w) \<and> cnt w' = Suc (cnt w)"
  by (metis scripted_def fst_conv snd_conv)

lemma retry_loop_scripted:
  assumes "scripted E n cnt outs"
  shows "retry_loop E n budget by_flow start maxr as cx w = (res, lg, cx', w') \<Longrightarrow> as \<noteq> [] \<Longrightarrow> last as = maxr \<Longrightarrow>
    distinct as \<Longrightarrow>
    \<exists>k < length as. n_attempts lg = Suc k \<and> (\<forall>j < k. \<exists>err. outs (cnt w + j) = Inl err \<and> transient err)
      \<and> (case outs (cnt w + k) of Inr v \<Rightarrow> res = Inr v
         | Inl err \<Rightarrow> on_failure False by_flow (Suc k = length as) n err = Finish res)"
proof (induction as arbitrary: cx w lg)
  case Nil
  then show ?case by simp
next
  case (Cons a as)
  have nc: "\<not> cancelled E x" for x using assms by (auto simp: scripted_def)
  have fin: "a = maxr \<longleftrightarrow> as = []" using Cons.prems by (auto split: if_splits)
  from Cons.prems(1) show ?case
  proof (cases rule: retry_loop_cases)
    case cancel
    with nc show ?thesis by simp
  next
    case (return rem w1 v)
    with scripted_remaining [OF assms return(2)] scripted_body [OF assms return(3)]
    have "outs (cnt w) = Inr v" by simp
    with return show ?thesis by (intro exI [of _ 0]) simp
  next
    case (finish rem w1 err)
    with scripted_remaining [OF assms finish(2)] scripted_body [OF assms finish(3)]
    have "outs (cnt w) = Inl err" by simp
    with finish nc fin show ?thesis by (intro exI [of _ 0]) simp
  next
    case (interrupted rem w1 err w2 d w3)
    with scripted_sleep [OF assms interrupted(6)] show ?thesis by simp
  next
    case (again rem w1 err cx1 w2 d w3 w4 lg')
    have c: "cnt w4 = Suc (cnt w)" "outs (cnt w) = Inl err"
      using scripted_remaining [OF assms again(2)] scripted_body [OF assms again(3)]
        scripted_delay [OF assms again(5)] scripted_sleep [OF assms again(6)] by auto
    have tr: "transient err" "as \<noteq> []" using again(4) nc fin on_failure_Retry by auto
    from Cons.IH [OF again(7) tr(2)] Cons.prems tr(2) obtain k where k: "k < length as" "n_attempts lg' = Suc k"
      "\<forall>j < k. \<exists>err. outs (Suc (cnt w) + j) = Inl err \<and> transient err"
      "case outs (Suc (cnt w) + k) of Inr v \<Rightarrow> res = Inr v
         | Inl err \<Rightarrow> on_failure False by_flow (Suc k = length as) n err = Finish res"
      by (auto simp: c)
    have "\<exists>err. outs (cnt w + j) = Inl err \<and> transient err" if "j < Suc k" for j
      using that k(3) c tr by (cases j) auto
    with k again(8) show ?thesis by (intro exI [of _ "Suc k"]) (simp split: sum.splits)
  qed
qed

text \<open>
  Property C36.  When the attempts of a node are those of a script (one outcome per attempt, nothing
  cancelled), the runner stops at the first outcome that is not a transient error, or at the last
  attempt \<open>retryTimes\<close> allows, and returns what that outcome decides: the value, or what the
  \<open>except\<close> clauses make of the error.
\<close>

theorem retries_until_final_outcome:
  assumes "scripted E n cnt outs" and "parse_timeout (isodur E) (nd_timeout n) = Inr config"
    and "assert_executable E n f (clear_cancel_event E w) = Inr ()" and "cnt (clear_cancel_event E w) = 0"
    and "execute_with_retry E f n max_ms cx w = (res, lg, cx', w')"
  shows "\<exists>k. int k \<le> max_retries n \<and> n_attempts lg = Suc k
    \<and> (\<forall>j < k. \<exists>err. outs j = Inl err \<and> transient err)
    \<and> (case outs k of Inr v \<Rightarrow> res = Inr v
       | Inl err \<Rightarrow> on_failure False (time_limit_by_flow config max_ms) (int k = max_retries n) n err = Finish res)"
proof -
  obtain start w2 where T: "time_time E (clear_cancel_event E w) = (start, w2)" by fastforce
  have c: "cnt w2 = 0" using assms(1,4) T by (auto simp: scripted_def) (metis snd_conv)
  have nc: "\<not> cancelled E x" for x using assms(1) by (auto simp: scripted_def)
  have L: "retry_loop E n (total_timeout config max_ms) (time_limit_by_flow config max_ms) start
      (max_retries n) [0..max_retries n] cx w2 = (res, lg, cx', w')"
    using assms(2,3,5) nc T by (simp add: execute_with_retry_def Let_def)
  have m: "0 \<le> max_retries n" by (simp add: max_retries_def)
  have "last [0..max_retries n] = max_retries n" using m by (simp add: upto_rec2)
  with retry_loop_scripted [OF assms(1) L] m obtain k where k: "k < length [0..max_retries n]" "n_attempts lg = Suc k"
    "\<forall>j < k. \<exists>err. outs j = Inl err \<and> transient err"
    "case outs k of Inr v \<Rightarrow> res = Inr v
       | Inl err \<Rightarrow> on_failure False (time_limit_by_flow config max_ms) (Suc k = length [0..max_retries n]) n err = Finish res"
    by (auto simp: c)
  have eq: "(Suc k = length [0..max_retries n]) = (int k = max_retries n)" and "int k \<le> max_retries n"
    using m k(1) by auto
  with k(2,3) k(4) [unfolded eq] show ?thesis by (intro exI [of _ k] conjI)
qed

text \<open>Two transient failures, then a value: three attempts and the value.\<close>

theorem retries_until_final_outcome_witness:
  "\<exists>lg cx' w'. execute_with_retry (script_env (\<lambda>i. if i < 2 then Inl (Exc (plain_exc OtherError)) else Inr (PInt 7)))
       (Flow None [] PNone [] []) (retrying_node 5 ABORT) None example_ctx 0 = (Inr (PInt 7), lg, cx', w')
     \<and> n_attempts lg = 3"
proof -
  let ?outs = "\<lambda>i :: nat. if i < 2 then Inl (Exc (plain_exc OtherError)) else Inr (PInt 7)"
  let ?E = "script_env ?outs" let ?n = "retrying_node 5 ABORT" let ?f = "Flow None [] PNone [] []"
  obtain res lg cx' w' where r: "execute_with_retry ?E ?f ?n None example_ctx 0 = (res, lg, cx', w')"
    by (metis prod_cases4)
  have sc: "scripted ?E ?n (\<lambda>w. w) ?outs" by (simp add: scripted_def script_env_def cancelled_def)
  have m: "max_retries ?n = 5" by (simp add: max_retries_def retrying_node_def)
  have p: "parse_timeout (isodur ?E) (nd_timeout ?n) = Inr None"
    "assert_executable ?E ?n ?f (clear_cancel_event ?E 0) = Inr ()" "clear_cancel_event ?E 0 = 0"
    "time_limit_by_flow None None = False"
    by (simp_all add: script_env_def parse_timeout_def retrying_node_def time_limit_by_flow_def)
  have t: "transient (Exc (plain_exc OtherError))"
    by (simp add: transient_def plain_exc_def is_retryable_error_def exc_isa_def deterministic_class_def)
  obtain k where k: "int k \<le> 5" "n_attempts lg = Suc k" "\<forall>j < k. \<exists>err. ?outs j = Inl err \<and> transient err"
    "case ?outs k of Inr v \<Rightarrow> res = Inr v | Inl err \<Rightarrow> on_failure False False (int k = 5) ?n err = Finish res"
    using retries_until_final_outcome [OF sc p(1-3) r, unfolded m p(4)] by blast
  have "\<not> k < 2"
  proof
    assume "k < 2"
    with k(4) have "on_failure False False (int k = 5) ?n (Exc (plain_exc OtherError)) = Finish res" by simp
    with \<open>k < 2\<close> t on_failure_Retry [of False "int k = 5" ?n "Exc (plain_exc OtherError)"] show False by simp
  qed
  moreover have "\<not> 2 < k" using k(3) by (auto dest: spec [of _ 2])
  ultimately have "k = 2" by simp
  with k r show ?thesis by auto
qed

text \<open>What a first attempt decides, for an environment in which the loop is entered.\<close>

lemma first_attempt:
  assumes "parse_timeout (isodur E) (nd_timeout n) = Inr config"
    and "\<not> cancelled E (clear_cancel_event E w)" and "assert_executable E n f (clear_cancel_event E w) = Inr ()"
    and "time_time E (clear_cancel_event E w) = (start, w2)" and "\<not> cancelled E w2"
    and "remaining_timeout E (total_timeout config max_ms) start w2 = (rem, w3)"
    and "run_body E n rem cx w3 = (Inl err, cx', w')"
    and "on_failure (cancelled E w') (time_limit_by_flow config max_ms) (max_retries n = 0) n err = Finish res"
  shows "execute_with_retry E f n max_ms cx w = (res, [Attempt rem], cx', w')"
proof -
  have "[0..max_retries n] = 0 # [1..max_retries n]" by (simp add: max_retries_def upto_rec1)
  with assms show ?thesis
    by (simp add: execute_with_retry_def Let_def raise_if_cancel_requested_def)
qed

text \<open>
  Outcomes no node configuration can change.  When the first attempt of a node fails after
  cancellation was requested, with an ordinary error or an exceeded budget, the run is
  cancelled; when it exceeds a budget the flow imposed, the execution ends with the deadline
  error; when it raises the carrier of a nested suspension or reports that suspension is not
  executable here, that is passed on unchanged.  In each case there is one attempt, whatever the
  retry count and the strategies of the node.
\<close>

theorem terminal_outcomes:
  assumes "parse_timeout (isodur E) (nd_timeout n) = Inr config"
    and "\<not> cancelled E (clear_cancel_event E w)" and "assert_executable E n f (clear_cancel_event E w) = Inr ()"
    and "time_time E (clear_cancel_event E w) = (start, w2)" and "\<not> cancelled E w2"
    and "remaining_timeout E (total_timeout config max_ms) start w2 = (rem, w3)"
    and "run_body E n rem cx w3 = (Inl err, cx', w')"
    and "execute_with_retry E f n max_ms cx w = (res, lg, cx2, w4)"
  shows "(cancelled E w' \<and> (\<exists>e. err = Exc e \<and> e_class e \<notin> {FlowResultError, FlowSuspendedCarrier, SuspendNotExecutableError})
            \<longrightarrow> res = Inl (Exc flow_cancelled_exception) \<and> lg = [Attempt rem])
       \<and> (\<not> cancelled E w' \<and> (\<exists>e. err = Exc e \<and> e_class e = NodeBudgetExceeded) \<and> time_limit_by_flow config max_ms
            \<longrightarrow> res = Inl (Exc execution_deadline_error) \<and> lg = [Attempt rem])
       \<and> ((\<exists>c. err = Carrier c) \<or> (\<exists>e. err = Exc e \<and> e_class e = SuspendNotExecutableError)
            \<longrightarrow> res = Inl err \<and> lg = [Attempt rem])"
proof -
  note F = first_attempt [OF assms(1-7)]
  have isa: "exc_isa c FlowResultError \<longleftrightarrow> c = FlowResultError" "exc_isa c NodeBudgetExceeded \<longleftrightarrow> c = NodeBudgetExceeded"
    "exc_isa c FlowSuspendedCarrier \<longleftrightarrow> c = FlowSuspendedCarrier"
    "exc_isa c SuspendNotExecutableError \<longleftrightarrow> c = SuspendNotExecutableError" for c
    by (cases c; simp add: exc_isa_def)+
  have 1: "on_failure True by_flow final n err = Finish (Inl (Exc flow_cancelled_exception))"
    if "err = Exc e" "e_class e \<notin> {FlowResultError, FlowSuspendedCarrier, SuspendNotExecutableError}" for e by_flow final
    using that by (auto simp: on_failure_def isa)
  have 2: "on_failure False True final n err = Finish (Inl (Exc execution_deadline_error))"
    if "err = Exc e" "e_class e = NodeBudgetExceeded" for e final
    using that by (auto simp: on_failure_def isa)
  have 3: "on_failure canc by_flow final n err = Finish (Inl err)"
    if "(\<exists>c. err = Carrier c) \<or> (\<exists>e. err = Exc e \<and> e_class e = SuspendNotExecutableError)" for canc by_flow final
    using that by (auto simp: on_failure_def isa)
  have R: "res = r' \<and> lg = [Attempt rem]"
    if "on_failure (cancelled E w') (time_limit_by_flow config max_ms) (max_retries n = 0) n err = Finish r'" for r'
    using F [OF that] assms(8) by simp
  show ?thesis
  proof (intro conjI impI; (elim conjE)?)
    assume "cancelled E w'" "\<exists>e. err = Exc e \<and> e_class e \<notin> {FlowResultError, FlowSuspendedCarrier, SuspendNotExecutableError}"
    with 1 R show "res = Inl (Exc flow_cancelled_exception)" "lg = [Attempt rem]" by metis+
  next
    assume "\<not> cancelled E w'" "\<exists>e. err = Exc e \<and> e_class e = NodeBudgetExceeded" "time_limit_by_flow config max_ms"
    with 2 R show "res = Inl (Exc execution_deadline_error)" "lg = [Attempt rem]" by metis+
  next
    assume "(\<exists>c. err = Carrier c) \<or> (\<exists>e. err = Exc e \<and> e_class e = SuspendNotExecutableError)"
    from R [OF 3 [OF this]] show "res = Inl err" "lg = [Attempt rem]" by blast+
  qed
qed

theorem terminal_outcomes_witness:
  "fst (execute_with_retry (script_env (\<lambda>_. Inl (Exc (plain_exc NodeBudgetExceeded)))) (Flow None [] PNone [] [])
      (retrying_node 5 CONTINUE) (Some 10) example_ctx 0) = Inl (Exc execution_deadline_error)"
proof -
  let ?E = "script_env (\<lambda>_. Inl (Exc (plain_exc NodeBudgetExceeded)))" let ?n = "retrying_node 5 CONTINUE"
  obtain res lg cx' w' where r: "execute_with_retry ?E (Flow None [] PNone [] []) ?n (Some 10) example_ctx 0 = (res, lg, cx', w')"
    by (metis prod_cases4)
  show ?thesis
    using terminal_outcomes [OF _ _ _ _ _ _ _ r, of None 0 0 "Some 10" 0 "Exc (plain_exc NodeBudgetExceeded)" example_ctx 1] r
    by (simp add: script_env_def parse_timeout_def retrying_node_def cancelled_def time_limit_by_flow_def
        remaining_timeout_def elapsed_ms_def trunc_ms_def total_timeout_def plain_exc_def)
qed

text \<open>
  What the strategies of a node decide.  An ordinary error that is not retried aborts with the
  code and message of the node's error handler, or continues with \<open>None\<close> or with the default
  value; a budget of the node's own that is exceeded is answered the same way by the timeout handler.
\<close>

theorem strategy_outcomes:
  assumes "parse_timeout (isodur E) (nd_timeout n) = Inr config"
    and "\<not> cancelled E (clear_cancel_event E w)" and "assert_executable E n f (clear_cancel_event E w) = Inr ()"
    and "time_time E (clear_cancel_event E w) = (start, w2)" and "\<not> cancelled E w2"
    and "remaining_timeout E (total_timeout config max_ms) start w2 = (rem, w3)"
    and "run_body E n rem cx w3 = (Inl (Exc e), cx', w')" and "\<not> cancelled E w'"
    and "e_class e \<notin> {FlowResultError, FlowSuspendedCarrier, SuspendNotExecutableError}"
    and "e_class e = NodeBudgetExceeded \<Longrightarrow> \<not> time_limit_by_flow config max_ms"
    and "e_class e \<noteq> NodeBudgetExceeded \<Longrightarrow> max_retries n = 0 \<or> \<not> is_retryable_error e"
    and "h = (if e_class e = NodeBudgetExceeded then nd_timeout_handler n else nd_error_handler n)"
  shows "execute_with_retry E f n max_ms cx w =
    ((case strategy h of
        ABORT \<Rightarrow> Inl (Exc (if e_class e = NodeBudgetExceeded then node_timeout_error NODE_ERROR
          else node_execution_error (opt_int (error_code h))
            (if str_truthy (error_message h) then opt_str (error_message h) else PNone)))
      | CONTINUE \<Rightarrow> Inr PNone
      | CONTINUE_WITH \<Rightarrow> Inr (default_value h)), [Attempt rem], cx', w')"
proof (rule first_attempt [OF assms(1-7)])
  have isa: "exc_isa c FlowResultError \<longleftrightarrow> c = FlowResultError" "exc_isa c NodeBudgetExceeded \<longleftrightarrow> c = NodeBudgetExceeded"
    "exc_isa c FlowSuspendedCarrier \<longleftrightarrow> c = FlowSuspendedCarrier"
    "exc_isa c SuspendNotExecutableError \<longleftrightarrow> c = SuspendNotExecutableError" for c
    by (cases c; simp add: exc_isa_def)+
  show "on_failure (cancelled E w') (time_limit_by_flow config max_ms) (max_retries n = 0) n (Exc e) =
    Finish (case strategy h of
        ABORT \<Rightarrow> Inl (Exc (if e_class e = NodeBudgetExceeded then node_timeout_error NODE_ERROR
          else node_execution_error (opt_int (error_code h))
            (if str_truthy (error_message h) then opt_str (error_message h) else PNone)))
      | CONTINUE \<Rightarrow> Inr PNone
      | CONTINUE_WITH \<Rightarrow> Inr (default_value h))"
    using assms(8-12)
    by (cases "strategy h"; cases "e_class e = NodeBudgetExceeded")
      (simp_all add: on_failure_def isa lift_exc_def handle_timeout_def handle_node_error_def handle_def)
qed

text \<open>A node without an error handler of its own aborts with the code of the default handler.\<close>

theorem strategy_outcomes_witness:
  "fst (execute_with_retry (script_env (\<lambda>_. Inl (Exc (plain_exc (Builtin KeyError))))) (Flow None [] PNone [] [])
      (simple_node ''n'' ''op'' (Some ''e'')) None example_ctx 0) = Inl (Exc (node_execution_error (PInt (- 9527)) PNone))"
proof -
  let ?E = "script_env (\<lambda>_. Inl (Exc (plain_exc (Builtin KeyError))))" let ?n = "simple_node ''n'' ''op'' (Some ''e'')"
  show ?thesis
    by (subst strategy_outcomes [where config = None and start = 0 and rem = None and e = "plain_exc (Builtin KeyError)"
          and cx' = example_ctx and w' = 1 and ?w2.0 = 0 and ?w3.0 = 0 and h = default_error_handler])
      (simp_all add: script_env_def parse_timeout_def simple_node_def cancelled_def remaining_timeout_def
        total_timeout_def plain_exc_def max_retries_def default_error_handler_def opt_int_def str_truthy_def)
qed

text \<open>The context after a recorded success, and what it holds.\<close>

definition recorded :: "node \<Rightarrow> pyval \<Rightarrow> pyval dict \<Rightarrow> ctx \<Rightarrow> ctx" where
  "recorded n v d cx =
     set_state (node_key cx) (PDict (dict_set (nd_id n) v d))
       (set_last_branch (if nd_branching n then v else PNone) (set_last_node_id (PStr (nd_id n)) cx))"

lemma recorded_names [simp]:
  "sys_key (recorded n v d cx) = sys_key cx" "node_key (recorded n v d cx) = node_key cx"
  "cx_names (recorded n v d cx) = cx_names cx" "cx_id (recorded n v d cx) = cx_id cx"
  by (simp_all add: recorded_def) (simp_all add: set_last_branch_def set_last_node_id_def)

lemma recorded_ok:
  assumes "ctx_ok cx"
  shows "ctx_ok (recorded n v d cx)"
  unfolding recorded_def set_last_branch_def set_last_node_id_def
  using sys_keys_free [OF assms] assms by (simp add: set_state_ok)

lemma recorded_get:
  assumes "ctx_ok cx"
  shows "get_state (recorded n v d cx) k x =
    (if k = node_key cx then PDict (dict_set (nd_id n) v d)
     else if k = sys_key cx ''BRANCH'' then (if nd_branching n then v else PNone)
     else if k = sys_key cx ''LAST_NODE'' then PStr (nd_id n) else get_state cx k x)"
proof -
  let ?a = "set_last_node_id (PStr (nd_id n)) cx"
  let ?b = "set_last_branch (if nd_branching n then v else PNone) ?a"
  note K = sys_keys_free [OF assms]
  have a: "ctx_ok ?a" unfolding set_last_node_id_def by (rule set_state_ok [OF assms K(1)])
  have b: "ctx_ok ?b" unfolding set_last_branch_def by (rule set_state_ok [OF a]) (use K in simp)
  have "get_state ?a k x = (if k = sys_key cx ''LAST_NODE'' then PStr (nd_id n) else get_state cx k x)"
    unfolding set_last_node_id_def by (rule get_set_state [OF assms K(1)])
  moreover have "get_state ?b k x = (if k = sys_key cx ''BRANCH'' then (if nd_branching n then v else PNone) else get_state ?a k x)"
    using get_set_state [OF a, of "sys_key cx ''BRANCH''"] K(2) by (simp add: set_last_branch_def)
  ultimately show ?thesis
    using get_set_state [OF b K(5)] by (simp add: recorded_def)
qed

lemma recorded_reads:
  assumes "ctx_ok cx"
  shows "last_node_id (recorded n v d cx) = PStr (nd_id n)"
    "last_branch (recorded n v d cx) = (if nd_branching n then v else PNone)"
    "node_results (recorded n v d cx) = PDict (dict_set (nd_id n) v d)"
    "execution_id (recorded n v d cx) = execution_id cx"
  using sys_keys_distinct [OF assms]
  by (auto simp: last_node_id_def last_branch_def node_results_def execution_id_def recorded_get [OF assms])

lemma recorded_shallow:
  assumes "ctx_ok cx" and "ck_shallow (cx_state cx)" and "shallow v" and "shallow (PDict (dict_set (nd_id n) v d))"
  shows "ck_shallow (cx_state (recorded n v d cx))"
proof -
  have P: "shallow PNone" "shallow (PStr x)" for x by (simp_all add: shallow_def)
  let ?a = "set_last_node_id (PStr (nd_id n)) cx"
  note K = sys_keys_free [OF assms(1)]
  have a: "ctx_ok ?a \<and> ck_shallow (cx_state ?a)"
    unfolding set_last_node_id_def using set_state_ok set_state_shallow assms K P by blast
  then have b: "ctx_ok (set_last_branch (if nd_branching n then v else PNone) ?a)
      \<and> ck_shallow (cx_state (set_last_branch (if nd_branching n then v else PNone) ?a))"
    using assms(3) K P
    by (auto simp: set_last_branch_def intro!: set_state_ok set_state_shallow)
  with assms(4) K show ?thesis unfolding recorded_def by (intro set_state_shallow) auto
qed

lemma run_node_success:
  assumes "execute_with_retry E f n max_ms cx w = (Inr v, lg, cx1, w1)"
    and "ctx_ok cx1" and "node_results cx1 = PDict d" and "shallow v" and "result_payload E n w1 = None"
  shows "run_node E f n max_ms cx w =
      (Inr (v, if nd_branching n then v else PNone), NodeStart (nd_id n) # lg @ [NodeEnd (nd_id n) True],
       recorded n v d cx1, w1)"
proof -
  let ?a = "set_last_node_id (PStr (nd_id n)) cx1"
  let ?b = "set_last_branch (if nd_branching n then v else PNone) ?a"
  note K = sys_keys_free [OF assms(2)] and D = sys_keys_distinct [OF assms(2)]
  have a: "ctx_ok ?a" unfolding set_last_node_id_def by (rule set_state_ok [OF assms(2) K(1)])
  have b: "ctx_ok ?b" unfolding set_last_branch_def by (rule set_state_ok [OF a]) (use K in simp)
  have "get_state ?b (node_key cx1) x = get_state cx1 (node_key cx1) x" for x
    using get_set_state [OF a, of "sys_key cx1 ''BRANCH''"] get_set_state [OF assms(2) K(1)] K D
    by (auto simp: set_last_branch_def set_last_node_id_def)
  then have "node_results ?b = PDict d" using assms(3) by (simp add: node_results_def)
  from update_node_result_eq [OF b this assms(4), of "nd_id n"] show ?thesis
    by (simp add: run_node_def assms(1,5) Let_def recorded_def)
qed

text \<open>
  Running a node leaves a complete trace: the log starts with the node's start and, when the result
  could be recorded, ends with the node's end, flagged by success; after a success the context
  names the node as the last one, holds its branch and its result, and keeps the results of
  the other nodes as the body left them.
\<close>

theorem run_node_records:
  assumes "execute_with_retry E f n max_ms cx w = (Inr v, lg, cx1, w1)"
    and "ctx_ok cx1" and "node_results cx1 = PDict d" and "shallow v" and "result_payload E n w1 = None"
  shows "\<exists>cx'. run_node E f n max_ms cx w =
      (Inr (v, if nd_branching n then v else PNone), NodeStart (nd_id n) # lg @ [NodeEnd (nd_id n) True], cx', w1)
    \<and> ctx_ok cx' \<and> last_node_id cx' = PStr (nd_id n) \<and> last_branch cx' = (if nd_branching n then v else PNone)
    \<and> node_results cx' = PDict (dict_set (nd_id n) v d) \<and> execution_id cx' = execution_id cx1"
  using run_node_success [OF assms] recorded_ok [OF assms(2)] recorded_reads [OF assms(2)]
  by (intro exI [of _ "recorded n v d cx1"]) simp

theorem run_node_records_witness:
  "\<exists>lg cx' w1. run_node (script_env (\<lambda>_. Inr (PInt 7))) (Flow None [] PNone [] []) (simple_node ''n'' ''op'' (Some ''e''))
      None example_ctx 0 = (Inr (PInt 7, PNone), lg, cx', w1) \<and> last_node_id cx' = PStr ''n''
      \<and> node_results cx' = PDict [(''n'', PInt 7)]"
proof -
  let ?E = "script_env (\<lambda>_. Inr (PInt 7))" let ?n = "simple_node ''n'' ''op'' (Some ''e'')"
  have r: "execute_with_retry ?E (Flow None [] PNone [] []) ?n None example_ctx 0 = (Inr (PInt 7), [Attempt None], example_ctx, 1)"
    by (simp add: execute_with_retry_def script_env_def simple_node_def parse_timeout_def cancelled_def Let_def
        max_retries_def default_error_handler_def raise_if_cancel_requested_def total_timeout_def remaining_timeout_def)
  have s: "shallow (PInt 7)" by (simp add: shallow_def)
  have p: "result_payload ?E ?n 1 = None" by (simp add: script_env_def)
  from run_node_records [OF r example_ctx_ok example_node_results s p] show ?thesis
    by (auto simp: simple_node_def dict_set_def)
qed

end
