(* ===== verification/Event_Node.thy ===== *)
theory Event_Node
  imports Runner
begin

text \<open>
  \<^verbatim>\<open>plaita/node/event_node.py\<close>: the node that suspends a flow until an event arrives.  Its state
  is the dictionary it stores as its node result; \<open>status\<close> moves from \<open>pending\<close> to one of
  \<open>completed\<close>, \<open>timeout\<close>, \<open>cancelled\<close> or \<open>error\<close>.  The handlers change the stored dictionary in
  place; every caller stores the returned dictionary right after, so the model returns it.
\<close>

definition PENDING :: string where "PENDING = ''pending''"
definition COMPLETED :: string where "COMPLETED = ''completed''"
definition ERROR :: string where "ERROR = ''error''"
definition TIMEOUT :: string where "TIMEOUT = ''timeout''"
definition CANCELLED :: string where "CANCELLED = ''cancelled''"

lemmas status_defs [run_simps] = PENDING_def COMPLETED_def ERROR_def TIMEOUT_def CANCELLED_def

text \<open>The key is the prefix and the literal \<open>NODE\<close>, whatever the namespace calls the results.\<close>

definition get_node_state :: "node \<Rightarrow> ctx \<Rightarrow> pyval" where
  "get_node_state n cx =
     (let k = sys_key cx ''NODE'' in
      if ck_contains (cx_state cx) k then
        (case get_state cx k (PDict []) of
           PDict d \<Rightarrow> pget d (nd_id n) (PDict [])
         | _ \<Rightarrow> PDict [])
      else PDict [])"

text \<open>A stored state that is no dictionary cannot be updated.\<close>

definition state_dict :: "pyval \<Rightarrow> exc + pyval dict" where
  "state_dict v = (case v of PDict d \<Rightarrow> Inr d | _ \<Rightarrow> Inl (plain_exc (Builtin TypeError)))"

definition create_result :: "node \<Rightarrow> pyval dict \<Rightarrow> pyval dict" where
  "create_result n st =
     dict_update [(''event_type'', PStr (nd_event_type n)), (''event_filter'', PDict (nd_event_filter n)),
       (''is_async'', PBool True)] st"

text \<open>
  \<open>execute\<close>: \<open>now_ms\<close> is the clock in milliseconds; a failing evaluation of the event type
  keeps the reference as it is written.
\<close>

definition resolved_event_type ::
  "(ckpt \<Rightarrow> string \<Rightarrow> pyval \<Rightarrow> exc + pyval) \<Rightarrow> node \<Rightarrow> ctx \<Rightarrow> string" where
  "resolved_event_type ev n cx =
     (if Sublist.prefix ''$'' (nd_event_type n) then
        (case evaluate ev cx (PStr (nd_event_type n)) of
           Inr (PStr s) \<Rightarrow> if s = [] then nd_event_type n else s
         | _ \<Rightarrow> nd_event_type n)
      else nd_event_type n)"

definition event_execute ::
  "(ckpt \<Rightarrow> string \<Rightarrow> pyval \<Rightarrow> exc + pyval) \<Rightarrow> int \<Rightarrow> node \<Rightarrow> ctx \<Rightarrow> pyval dict" where
  "event_execute ev now_ms n cx =
     dict_set ''event_type'' (PStr (resolved_event_type ev n cx))
       (create_result n
         [(''event_id'', PStr (''event_'' @ nd_id n @ ''_'' @ int_str now_ms)), (''status'', PStr PENDING)])"

definition on_event :: "node \<Rightarrow> ctx \<Rightarrow> pyval \<Rightarrow> exc + pyval dict" where
  "on_event n cx event_data =
     rbind (state_dict (get_node_state n cx)) (\<lambda>st.
       if \<not> truthy event_data then Inr (create_result n st)
       else Inr (create_result n (dict_set ''event_data'' event_data (dict_set ''status'' (PStr COMPLETED) st))))"

definition on_timeout :: "node \<Rightarrow> ctx \<Rightarrow> exc + pyval dict" where
  "on_timeout n cx =
     rbind (state_dict (get_node_state n cx)) (\<lambda>st.
       Inr (create_result n (dict_set ''status'' (PStr TIMEOUT) st)))"

definition on_error :: "node \<Rightarrow> ctx \<Rightarrow> pyval \<Rightarrow> exc + pyval dict" where
  "on_error n cx msg =
     rbind (state_dict (get_node_state n cx)) (\<lambda>st.
       Inr (create_result n (dict_set ''error_message'' msg (dict_set ''status'' (PStr ERROR) st))))"

definition on_cancel :: "node \<Rightarrow> ctx \<Rightarrow> exc + pyval dict" where
  "on_cancel n cx =
     rbind (state_dict (get_node_state n cx)) (\<lambda>st.
       Inr (create_result n (dict_set ''status'' (PStr CANCELLED) st)))"

definition event_resume :: "node \<Rightarrow> ctx \<Rightarrow> resume_type \<Rightarrow> pyval \<Rightarrow> exc + pyval dict" where
  "event_resume n cx rt resume_data =
     (case rt of
        RT_CANCEL \<Rightarrow> on_cancel n cx
      | RT_TIMEOUT \<Rightarrow> on_timeout n cx
      | _ \<Rightarrow> on_event n cx resume_data)"

section \<open>Filters\<close>

text \<open>\<open>s.split('.')\<close>.\<close>

fun split_dot :: "string \<Rightarrow> string list" where
  "split_dot [] = [[]]"
| "split_dot (c # cs) =
     (if c = CHR ''.'' then [] # split_dot cs
      else case split_dot cs of [] \<Rightarrow> [[c]] | s # ss \<Rightarrow> (c # s) # ss)"

fun walk_path :: "pyval \<Rightarrow> string list \<Rightarrow> pyval option" where
  "walk_path v [] = Some v"
| "walk_path v (k # ks) =
     (case v of
        PDict d \<Rightarrow> (case dict_get d k of Some v' \<Rightarrow> walk_path v' ks | None \<Rightarrow> None)
      | _ \<Rightarrow> None)"

definition path_equals :: "pyval \<Rightarrow> string \<times> pyval \<Rightarrow> bool" where
  "path_equals data kv =
     (case walk_path data (split_dot (fst kv)) of None \<Rightarrow> False | Some v \<Rightarrow> py_eq v (snd kv))"

definition can_handle_event :: "node \<Rightarrow> string \<Rightarrow> pyval \<Rightarrow> bool" where
  "can_handle_event n event_type event_data =
     (if event_type \<noteq> nd_event_type n then False
      else if nd_event_filter n = [] then True
      else list_all (path_equals event_data) (nd_event_filter n))"

section \<open>Lemmas\<close>

lemma create_result_get:
  "dict_get (create_result n st) k =
     (case dict_get (rev st) k of
        Some v \<Rightarrow> Some v
      | None \<Rightarrow> if k = ''event_type'' then Some (PStr (nd_event_type n))
          else if k = ''event_filter'' then Some (PDict (nd_event_filter n))
          else if k = ''is_async'' then Some (PBool True) else None)"
  by (auto simp: create_result_def dict_update_get dict_get_Cons split: option.splits)

lemma create_result_wf [simp]: "dict_wf (create_result n st)"
  unfolding create_result_def by (rule dict_update_wf) (simp add: dict_wf_def)

lemma create_result_keeps:
  assumes "dict_wf st" and "dict_get st k = Some v"
  shows "dict_get (create_result n st) k = Some v"
proof -
  have "dict_get (rev st) k = Some v" using assms by (simp add: dict_get_def dict_rev)
  then show ?thesis by (simp add: create_result_get)
qed

lemma create_result_status:
  "dict_wf st \<Longrightarrow> dict_get (create_result n (dict_set ''status'' v st)) ''status'' = Some v"
  by (rule create_result_keeps) simp_all

lemma split_dot_nonempty [simp]: "split_dot s \<noteq> []"
  by (induction s) (auto split: list.splits)

end
