(* ===== verification/Strategies.thy ===== *)
theory Strategies
  imports Event_Node
begin

text \<open>
  \<^verbatim>\<open>plaita/core/strategies.py\<close>, first part: the step shared by all strategies
  (\<open>_advance_one\<close>) and the in-process strategies.  \<open>NormalStrategy\<close> runs a flow to its result,
  \<open>GeneratorStrategy\<close> yields an output per node (the model is the drained generator).  The
  strategies run a loop over the flow graph that ends by itself only on an acyclic path; the
  model takes fuel, \<open>None\<close> is a loop that has not returned yet, and the deadline theorem shows
  how much fuel is enough.  Callbacks are the log of the runner and are not repeated here.
\<close>

section \<open>Actions\<close>

text \<open>Code that reads and writes a context and the world and may raise.\<close>

type_synonym ('a, 'w) act = "ctx \<Rightarrow> 'w \<Rightarrow> (raised + 'a) \<times> ctx \<times> 'w"

definition aret :: "'a \<Rightarrow> ('a, 'w) act" where
  "aret x = (\<lambda>cx w. (Inr x, cx, w))"

definition araise :: "raised \<Rightarrow> ('a, 'w) act" where
  "araise e = (\<lambda>cx w. (Inl e, cx, w))"

definition abind :: "('a, 'w) act \<Rightarrow> ('a \<Rightarrow> ('b, 'w) act) \<Rightarrow> ('b, 'w) act" where
  "abind m k = (\<lambda>cx w. case m cx w of (Inl e, cx', w') \<Rightarrow> (Inl e, cx', w') | (Inr x, cx', w') \<Rightarrow> k x cx' w')"

definition alift :: "exc + 'a \<Rightarrow> ('a, 'w) act" where
  "alift r = (case r of Inl e \<Rightarrow> araise (Exc e) | Inr x \<Rightarrow> aret x)"

definition acx :: "(ctx, 'w) act" where
  "acx = (\<lambda>cx w. (Inr cx, cx, w))"

definition aput :: "ctx \<Rightarrow> (unit, 'w) act" where
  "aput cx' = (\<lambda>cx w. (Inr (), cx', w))"

definition aworld :: "('w \<Rightarrow> 'a \<times> 'w) \<Rightarrow> ('a, 'w) act" where
  "aworld f = (\<lambda>cx w. let (x, w') = f w in (Inr x, cx, w'))"

lemma act_simps [run_simps]:
  "aret x cx w = (Inr x, cx, w)" "araise e cx w = (Inl e, cx, w)" "acx cx w = (Inr cx, cx, w)"
  "aput cx' cx w = (Inr (), cx', w)" "abind (aret x) k = k x"
  "alift (Inl ex) = araise (Exc ex)" "alift (Inr y) = aret y"
  "aworld f cx w = (Inr (fst (f w)), cx, snd (f w))"
  by (simp_all add: aret_def araise_def acx_def aput_def abind_def alift_def aworld_def split: prod.split)

lemma abind_eqs [run_simps]:
  "m cx w = (Inl e, cx', w') \<Longrightarrow> abind m k cx w = (Inl e, cx', w')"
  "m cx w = (Inr x, cx', w') \<Longrightarrow> abind m k cx w = k x cx' w'"
  by (simp_all add: abind_def)

section \<open>The shared step\<close>

definition handle_missing_next :: "node \<Rightarrow> exc + unit" where
  "handle_missing_next n =
     (if strategy (nd_error_handler n) \<in> {CONTINUE, CONTINUE_WITH} then Inr ()
      else Inl flow_execution_exception)"

definition handle_unmatched_branch :: "node \<Rightarrow> exc + unit" where
  "handle_unmatched_branch n =
     (if strategy (nd_error_handler n) \<in> {CONTINUE, CONTINUE_WITH} then Inr ()
      else Inl flow_execution_exception)"

text \<open>
  A branch as \<open>Flow.next_node\<close> uses it: targets are strings, so a value of another type
  matches none of them.
\<close>

definition branch_str :: "pyval \<Rightarrow> string option" where
  "branch_str b = (case b of PStr s \<Rightarrow> Some s | _ \<Rightarrow> None)"

text \<open>The successor with the fail-closed handling of a dead end that the strategies share.\<close>

definition successor :: "flow \<Rightarrow> node \<Rightarrow> pyval \<Rightarrow> exc + node option" where
  "successor f n br =
     rbind (next_node f n (branch_str br)) (\<lambda>nx.
       if nx = None \<and> \<not> is_end_node n
       then rbind (if nd_branching n then handle_unmatched_branch n else handle_missing_next n) (\<lambda>_. Inr None)
       else Inr nx)"

definition push_frame :: "flow \<Rightarrow> ctx \<Rightarrow> node \<Rightarrow> carrier \<Rightarrow> carrier" where
  "push_frame f cx n c = c\<lparr>ca_frames := ca_frames c @ [(f, cx, n)]\<rparr>"

definition new_carrier :: "node \<Rightarrow> flow \<Rightarrow> ctx \<Rightarrow> pyval \<Rightarrow> carrier" where
  "new_carrier n f cx v = \<lparr>ca_node = n, ca_flow = f, ca_ctx = cx, ca_result = v, ca_frames = []\<rparr>"

definition run_node_act :: "'w env \<Rightarrow> flow \<Rightarrow> node \<Rightarrow> int option \<Rightarrow> (pyval \<times> pyval, 'w) act" where
  "run_node_act E f n max_ms = (\<lambda>cx w. let (r, lg, cx', w') = run_node E f n max_ms cx w in (r, cx', w'))"

definition advance_one ::
  "'w env \<Rightarrow> flow \<Rightarrow> int option \<Rightarrow> node \<Rightarrow> (pyval \<times> pyval \<times> node option \<times> bool, 'w) act" where
  "advance_one E f max_ms n = (\<lambda>cx w.
     case run_node_act E f n max_ms cx w of
       (Inl (Carrier c), cx', w') \<Rightarrow> (Inl (Carrier (push_frame f cx' n c)), cx', w')
     | (Inl (Exc e), cx', w') \<Rightarrow> (Inl (Exc e), cx', w')
     | (Inr (v, br), cx', w') \<Rightarrow>
         if nd_suspending n then (Inl (Carrier (new_carrier n f cx' v)), cx', w')
         else if is_end_node n then (Inr (v, br, None, True), cx', w')
         else case successor f n br of
           Inl e \<Rightarrow> (Inl (Exc e), cx', w')
         | Inr nx \<Rightarrow> (Inr (v, br, nx, False), cx', w'))"

section \<open>Normal strategy\<close>

text \<open>
  One turn of the loop body up to the deadline check gives what the shared step returns: result,
  branch, next node and whether the end was reached.  The message of the deadline error reads
  \<open>next_node.id\<close>.
\<close>

definition deadline_exceeded :: "'w env \<Rightarrow> int \<Rightarrow> int \<Rightarrow> 'w \<Rightarrow> bool \<times> 'w" where
  "deadline_exceeded E start timeout_ms w =
     (let (t, w') = time_time E w in (t - start > timeout_ms * 1000, w'))"

definition deadline_error :: "node option \<Rightarrow> exc" where
  "deadline_error nx =
     (case nx of None \<Rightarrow> plain_exc (Builtin AttributeError) | Some _ \<Rightarrow> execution_deadline_error)"

definition turn :: "'w env \<Rightarrow> flow \<Rightarrow> int \<Rightarrow> int \<Rightarrow> node \<Rightarrow> (pyval \<times> pyval \<times> node option \<times> bool, 'w) act" where
  "turn E f timeout_ms start n =
     abind (aworld (elapsed_ms E start)) (\<lambda>el.
       advance_one E f (Some (max 0 (timeout_ms - el))) n)"

definition check_deadline :: "'w env \<Rightarrow> int \<Rightarrow> int \<Rightarrow> node option \<Rightarrow> (unit, 'w) act" where
  "check_deadline E timeout_ms start nx =
     abind (aworld (deadline_exceeded E start timeout_ms)) (\<lambda>late.
       if late then araise (Exc (deadline_error nx)) else aret ())"

definition legacy_result :: "(pyval, 'w) act" where
  "legacy_result = abind acx (\<lambda>cx. aret (node_results cx))"

fun normal_loop ::
  "nat \<Rightarrow> 'w env \<Rightarrow> flow \<Rightarrow> int \<Rightarrow> int \<Rightarrow> node option \<Rightarrow> ctx \<Rightarrow> 'w \<Rightarrow> ((raised + pyval) \<times> ctx \<times> 'w) option" where
  "normal_loop 0 E f timeout_ms start nx cx w = None"
| "normal_loop (Suc fuel) E f timeout_ms start nx cx w =
     (case nx of
        None \<Rightarrow> Some (legacy_result cx w)
      | Some n \<Rightarrow>
          (case turn E f timeout_ms start n cx w of
             (Inl e, cx', w') \<Rightarrow> Some (Inl e, cx', w')
           | (Inr (v, br, nx', reached_end), cx', w') \<Rightarrow>
               if reached_end then Some (Inr v, cx', w')
               else (case check_deadline E timeout_ms start nx' cx' w' of
                       (Inl e, cx'', w'') \<Rightarrow> Some (Inl e, cx'', w'')
                     | (Inr _, cx'', w'') \<Rightarrow> normal_loop fuel E f timeout_ms start nx' cx'' w'')))"

definition entry_node :: "flow \<Rightarrow> exc + node" where
  "entry_node f =
     rbind (start_node f) (\<lambda>s. case s of None \<Rightarrow> Inl flow_start_missing_error | Some n \<Rightarrow> Inr n)"

definition normal_execute ::
  "nat \<Rightarrow> 'w env \<Rightarrow> int \<Rightarrow> flow \<Rightarrow> int option \<Rightarrow> ctx \<Rightarrow> 'w \<Rightarrow> ((raised + pyval) \<times> ctx \<times> 'w) option" where
  "normal_execute fuel E dflt f timeout_ms cx w =
     (case entry_node f of
        Inl e \<Rightarrow> Some (Inl (Exc e), cx, w)
      | Inr n \<Rightarrow>
          (let (start, w') = time_time E w in
           normal_loop fuel E f (execution_deadline_ms dflt timeout_ms) start (Some n) cx w'))"

section \<open>Generator strategy\<close>

record lazy_out =
  o_id :: pyval
  o_type :: string
  o_name :: pyval
  o_result :: pyval
  o_branch :: pyval
  o_context :: "pyval dict"
  o_is_end :: bool
  o_is_suspend :: bool
  o_execution_id :: pyval

definition create_lazy_output ::
  "node \<Rightarrow> pyval \<Rightarrow> pyval \<Rightarrow> pyval dict \<Rightarrow> bool \<Rightarrow> pyval \<Rightarrow> bool \<Rightarrow> lazy_out" where
  "create_lazy_output n v br c is_suspend eid is_end =
     \<lparr>o_id = PStr (nd_id n), o_type = nd_type n, o_name = opt_str (nd_name n), o_result = v,
      o_branch = (if truthy br then br else PStr []), o_context = c, o_is_end = is_end,
      o_is_suspend = is_suspend, o_execution_id = eid\<rparr>"

text \<open>The name of the artificial end output is the Chinese word for it, kept here as \<open>''end''\<close>.\<close>

definition create_end_output :: "node option \<Rightarrow> pyval \<Rightarrow> pyval dict \<Rightarrow> pyval \<Rightarrow> lazy_out" where
  "create_end_output n v c eid =
     \<lparr>o_id = (case n of None \<Rightarrow> PNone | Some m \<Rightarrow> PStr (nd_id m)), o_type = ''end'',
      o_name = (case n of None \<Rightarrow> PStr ''end'' | Some m \<Rightarrow> opt_str (nd_name m)), o_result = v,
      o_branch = PStr [], o_context = c, o_is_end = True, o_is_suspend = False, o_execution_id = eid\<rparr>"

definition lazy_output_act :: "node \<Rightarrow> pyval \<Rightarrow> pyval \<Rightarrow> bool \<Rightarrow> bool \<Rightarrow> (lazy_out, 'w) act" where
  "lazy_output_act n v br is_suspend is_end =
     abind acx (\<lambda>cx. abind (alift (to_dict cx)) (\<lambda>d.
       aret (create_lazy_output n v br d is_suspend (execution_id cx) is_end)))"

definition end_output_act :: "node option \<Rightarrow> pyval \<Rightarrow> (lazy_out, 'w) act" where
  "end_output_act n v =
     abind acx (\<lambda>cx. abind (alift (to_dict cx)) (\<lambda>d. aret (create_end_output n v d (execution_id cx))))"

type_synonym 'w drained = "(lazy_out list \<times> (raised + unit) \<times> ctx \<times> 'w) option"

definition yielding :: "lazy_out \<Rightarrow> 'w drained \<Rightarrow> 'w drained" where
  "yielding out r = map_option (\<lambda>(outs, x). (out # outs, x)) r"

fun generator_loop ::
  "nat \<Rightarrow> 'w env \<Rightarrow> flow \<Rightarrow> int \<Rightarrow> int \<Rightarrow> node option \<Rightarrow> ctx \<Rightarrow> 'w \<Rightarrow> 'w drained" where
  "generator_loop 0 E f timeout_ms start nx cx w = None"
| "generator_loop (Suc fuel) E f timeout_ms start nx cx w =
     (case nx of
        None \<Rightarrow>
          (case abind legacy_result (end_output_act None) cx w of
             (Inl e, cx', w') \<Rightarrow> Some ([], Inl e, cx', w')
           | (Inr out, cx', w') \<Rightarrow> Some ([out], Inr (), cx', w'))
      | Some n \<Rightarrow>
          (case turn E f timeout_ms start n cx w of
             (Inl e, cx', w') \<Rightarrow> Some ([], Inl e, cx', w')
           | (Inr (v, br, nx', reached_end), cx', w') \<Rightarrow>
               (case lazy_output_act n v br False reached_end cx' w' of
                  (Inl e, cx'', w'') \<Rightarrow> Some ([], Inl e, cx'', w'')
                | (Inr out, cx'', w'') \<Rightarrow>
                    if reached_end then Some ([out], Inr (), cx'', w'')
                    else (case check_deadline E timeout_ms start nx' cx'' w'' of
                            (Inl e, cx3, w3) \<Rightarrow> Some ([out], Inl e, cx3, w3)
                          | (Inr _, cx3, w3) \<Rightarrow>
                              yielding out (generator_loop fuel E f timeout_ms start nx' cx3 w3)))))"

definition generator_execute ::
  "nat \<Rightarrow> 'w env \<Rightarrow> int \<Rightarrow> flow \<Rightarrow> int option \<Rightarrow> ctx \<Rightarrow> 'w \<Rightarrow> 'w drained" where
  "generator_execute fuel E dflt f timeout_ms cx w =
     (case entry_node f of
        Inl e \<Rightarrow> Some ([], Inl (Exc e), cx, w)
      | Inr n \<Rightarrow>
          (let (start, w') = time_time E w in
           generator_loop fuel E f (execution_deadline_ms dflt timeout_ms) start (Some n) cx w'))"

section \<open>Generator and normal strategy agree\<close>

lemma lazy_output_act_cases:
  "lazy_output_act n v br susp ie cx w =
     (case to_dict cx of Inl e \<Rightarrow> (Inl (Exc e), cx, w)
      | Inr d \<Rightarrow> (Inr (create_lazy_output n v br d susp (execution_id cx) ie), cx, w))"
  by (simp add: lazy_output_act_def abind_def acx_def aret_def alift_def araise_def split: sum.splits)

lemma end_output_act_cases:
  "end_output_act n v cx w =
     (case to_dict cx of Inl e \<Rightarrow> (Inl (Exc e), cx, w)
      | Inr d \<Rightarrow> (Inr (create_end_output n v d (execution_id cx)), cx, w))"
  by (simp add: end_output_act_def abind_def acx_def aret_def alift_def araise_def split: sum.splits)

lemma legacy_result_eq: "legacy_result cx w = (Inr (node_results cx), cx, w)"
  by (simp add: legacy_result_def abind_def acx_def aret_def)

lemma lazy_output_fields [simp]:
  "o_result (create_lazy_output n v br d susp eid ie) = v" "o_is_end (create_lazy_output n v br d susp eid ie) = ie"
  "o_is_suspend (create_lazy_output n v br d susp eid ie) = susp"
  "o_result (create_end_output m v d eid) = v" "o_is_end (create_end_output m v d eid) = True"
  "o_is_suspend (create_end_output m v d eid) = False"
  by (simp_all add: create_lazy_output_def create_end_output_def)

definition drained_ok :: "lazy_out list \<Rightarrow> raised + unit \<Rightarrow> ctx \<Rightarrow> 'w \<Rightarrow> ((raised + pyval) \<times> ctx \<times> 'w) option \<Rightarrow> bool" where
  "drained_ok outs r cx' w' normal \<longleftrightarrow>
     list_all (\<lambda>o'. \<not> o_is_suspend o') outs \<and>
     (case r of
        Inr _ \<Rightarrow> outs \<noteq> [] \<and> normal = Some (Inr (o_result (last outs)), cx', w') \<and> o_is_end (last outs)
          \<and> list_all (\<lambda>o'. \<not> o_is_end o') (butlast outs)
      | Inl e \<Rightarrow> list_all (\<lambda>o'. \<not> o_is_end o') outs
          \<and> (normal = Some (Inl e, cx', w') \<or> (\<exists>ex. e = Exc ex \<and> to_dict cx' = Inl ex)))"

lemma drained_ok_Cons:
  "\<not> o_is_suspend o1 \<Longrightarrow> \<not> o_is_end o1 \<Longrightarrow> drained_ok outs r cx' w' nr \<Longrightarrow> drained_ok (o1 # outs) r cx' w' nr"
  by (auto simp: drained_ok_def split: sum.splits)

lemma generator_loop_normal:
  "generator_loop fuel E f timeout_ms start nx cx w = Some (outs, r, cx', w') \<Longrightarrow>
     drained_ok outs r cx' w' (normal_loop fuel E f timeout_ms start nx cx w)"
proof (induction fuel arbitrary: nx cx w outs)
  case 0
  then show ?case by simp
next
  case (Suc fuel)
  show ?case
  proof (cases nx)
    case None
    with Suc.prems show ?thesis
      by (auto simp: abind_def legacy_result_eq end_output_act_cases drained_ok_def split: sum.splits)
  next
    case (Some n)
    obtain t cx1 w1 where T: "turn E f timeout_ms start n cx w = (t, cx1, w1)" by (metis prod_cases3)
    show ?thesis
    proof (cases t)
      case (Inl e)
      with Suc.prems Some T show ?thesis by (auto simp: drained_ok_def)
    next
      case (Inr q)
      obtain v br nx' ie where q: "q = (v, br, nx', ie)" by (metis prod_cases4)
      show ?thesis
      proof (cases "to_dict cx1")
        case dl: (Inl e)
        with Suc.prems Some T Inr q show ?thesis
          by (auto simp: lazy_output_act_cases drained_ok_def)
      next
        case d: (Inr d)
        obtain x cx3 w3 where C: "check_deadline E timeout_ms start nx' cx1 w1 = (x, cx3, w3)" by (metis prod_cases3)
        let ?o = "create_lazy_output n v br d False (execution_id cx1) ie"
        show ?thesis
        proof (cases ie)
          case True
          with Suc.prems Some T Inr q d show ?thesis by (auto simp: lazy_output_act_cases drained_ok_def)
        next
          case nie: False
          show ?thesis
          proof (cases x)
            case xl: (Inl e)
            with Suc.prems Some T Inr q d nie C show ?thesis by (auto simp: lazy_output_act_cases drained_ok_def)
          next
            case xr: (Inr u)
            with Suc.prems Some T Inr q d nie C obtain outs' where
              G: "generator_loop fuel E f timeout_ms start nx' cx3 w3 = Some (outs', r, cx', w')" "outs = ?o # outs'"
              by (auto simp: lazy_output_act_cases yielding_def)
            have "normal_loop (Suc fuel) E f timeout_ms start nx cx w = normal_loop fuel E f timeout_ms start nx' cx3 w3"
              using Some T Inr q nie C xr by simp
            with drained_ok_Cons [OF _ _ Suc.IH [OF G(1)], of ?o] nie G(2) show ?thesis by simp
          qed
        qed
      qed
    qed
  qed
qed

text \<open>
  Property C1.  Draining the generator strategy computes what the normal strategy computes: when the generator
  ends normally, its last output is the only one marked as end and carries the result the
  normal strategy returns in the same environment, with the same final context; when it raises, the normal
  strategy raises the same, unless what failed was the snapshot for an output.  It never yields a
  suspended output.
\<close>

theorem generator_refines_normal:
  assumes "generator_execute fuel E dflt f timeout_ms cx w = Some (outs, r, cx', w')"
  shows "drained_ok outs r cx' w' (normal_execute fuel E dflt f timeout_ms cx w)"
proof (cases "entry_node f")
  case (Inl e)
  with assms show ?thesis by (auto simp: generator_execute_def normal_execute_def drained_ok_def)
next
  case (Inr n)
  with assms show ?thesis
    by (auto simp: generator_execute_def normal_execute_def split: prod.splits intro: generator_loop_normal)
qed

section \<open>The shared step fails closed\<close>

lemma find_node_by_id_mem:
  "find_node_by_id f i = Inr (Some n) \<Longrightarrow> n \<in> set (nodes f) \<and> i = Some (nd_id n)"
  by (auto simp: find_node_by_id_def split: option.splits dest: build_index_get_id)

lemma successor_cases:
  assumes "successor f n br = Inr nx"
  shows "(nx = None \<longrightarrow> is_end_node n \<or> strategy (nd_error_handler n) \<in> {CONTINUE, CONTINUE_WITH})
    \<and> (\<forall>m. nx = Some m \<longrightarrow> m \<in> set (nodes f) \<and> get_target_node n (branch_str br) = Some (nd_id m))"
  using assms
  by (auto simp: successor_def rbind_eq_Inr_iff handle_unmatched_branch_def handle_missing_next_def next_node_def
      split: if_splits dest: find_node_by_id_mem)

text \<open>
  The step the strategies share never loses control of a flow silently: it returns only for a node
  that does not suspend; it stops without being at an end node only if the error strategy of the
  node says to continue; and the successor it returns is a node of the flow, the one the routing
  of the node names for the branch taken.
\<close>

theorem step_fails_closed:
  assumes "advance_one E f max_ms n cx w = (Inr (v, br, nx, reached_end), cx', w')"
  shows "\<not> nd_suspending n \<and> reached_end = is_end_node n
    \<and> (nx = None \<longrightarrow> is_end_node n \<or> strategy (nd_error_handler n) \<in> {CONTINUE, CONTINUE_WITH})
    \<and> (\<forall>m. nx = Some m \<longrightarrow> m \<in> set (nodes f) \<and> get_target_node n (branch_str br) = Some (nd_id m))
    \<and> br = (if nd_branching n then v else PNone)"
proof -
  from assms obtain lg where R: "run_node E f n max_ms cx w = (Inr (v, br), lg, cx', w')"
    "\<not> nd_suspending n" "reached_end = is_end_node n"
    "is_end_node n \<and> nx = None \<or> successor f n br = Inr nx"
    by (auto simp: advance_one_def run_node_act_def Let_def split: prod.splits sum.splits raised.splits if_splits)
  have "br = (if nd_branching n then v else PNone)"
    using R(1) by (auto simp: run_node_def Let_def split: prod.splits sum.splits if_splits)
  with R(2-4) successor_cases [of f n br nx] show ?thesis by blast
qed

section \<open>The deadline ends every run\<close>

text \<open>A clock that advances whenever a node body runs.\<close>

definition clock_runs :: "'w env \<Rightarrow> ('w \<Rightarrow> int) \<Rightarrow> bool" where
  "clock_runs E now \<longleftrightarrow> clock_ok E now \<and> (\<forall>n r cx w. now w < now (snd (snd (run_body E n r cx w))))"

lemma clock_remaining:
  "clock_ok E now \<Longrightarrow> remaining_timeout E budget start w = (r, w') \<Longrightarrow> now w \<le> now w'"
  by (auto simp: remaining_timeout_def elapsed_ms_def split: option.splits prod.splits dest: clock_time)

lemma clock_delay:
  "clock_ok E now \<Longrightarrow> backoff_delay E budget start a w = (r, w') \<Longrightarrow> now w \<le> now w'"
  by (auto simp: backoff_delay_def elapsed_ms_def Let_def split: option.splits prod.splits dest: clock_time)

lemma retry_loop_mono:
  assumes "clock_ok E now"
  shows "retry_loop E n budget by_flow start maxr as cx w = (res, lg, cx', w') \<Longrightarrow> now w \<le> now w'"
proof (induction as arbitrary: cx w lg)
  case Nil
  then show ?case by simp
next
  case (Cons a as)
  from Cons.prems show ?case
  proof (cases rule: retry_loop_cases)
    case (return rem w1 v)
    with clock_remaining [OF assms return(2)] clock_body [OF assms return(3)] show ?thesis by simp
  next
    case (finish rem w1 err)
    with clock_remaining [OF assms finish(2)] clock_body [OF assms finish(3)] show ?thesis by simp
  next
    case (interrupted rem w1 err w2 d w3)
    with clock_remaining [OF assms interrupted(2)] clock_body [OF assms interrupted(3)]
      clock_delay [OF assms interrupted(5)] clock_sleep [OF assms interrupted(6)] show ?thesis by simp
  next
    case (again rem w1 err cx1 w2 d w3 w4 lg')
    with clock_remaining [OF assms again(2)] clock_body [OF assms again(3)]
      clock_delay [OF assms again(5)] clock_sleep [OF assms again(6)] Cons.IH [OF again(7)] show ?thesis by simp
  qed simp
qed

lemma retry_loop_runs:
  assumes "clock_runs E now" and "as \<noteq> []" and "retry_loop E n budget by_flow start maxr as cx w = (Inr v, lg, cx', w')"
  shows "now w < now w'"
proof -
  have ok: "clock_ok E now" using assms(1) by (simp add: clock_runs_def)
  have body: "now x < now x'" if "run_body E n r c x = (y, c', x')" for r c x y c' x'
    using assms(1) that by (metis clock_runs_def snd_conv)
  from assms(2) obtain a as' where as: "as = a # as'" by (cases as) auto
  from assms(3) [unfolded as] show ?thesis
  proof (cases rule: retry_loop_cases)
    case (return rem w1 v')
    with clock_remaining [OF ok return(2)] body [OF return(3)] show ?thesis by simp
  next
    case (finish rem w1 err)
    with clock_remaining [OF ok finish(2)] body [OF finish(3)] show ?thesis by simp
  next
    case (again rem w1 err cx1 w2 d w3 w4 lg')
    with clock_remaining [OF ok again(2)] body [OF again(3)] clock_delay [OF ok again(5)]
      clock_sleep [OF ok again(6)] retry_loop_mono [OF ok again(7)] show ?thesis by simp
  qed simp_all
qed

lemma execute_runs:
  assumes "clock_runs E now" and "execute_with_retry E f n max_ms cx w = (Inr v, lg, cx', w')"
  shows "now w < now w'"
  using assms(2)
proof (cases rule: execute_with_retry_cases)
  case (loop config w1 start w2)
  have ok: "clock_ok E now" using assms(1) by (simp add: clock_runs_def)
  have "now w \<le> now w1" using ok loop(2) by (simp add: clock_ok_def)
  moreover have "[0..max_retries n] \<noteq> []" by (simp add: max_retries_def)
  ultimately show ?thesis
    using clock_time [OF ok loop(5)] retry_loop_runs [OF assms(1) _ loop(6)] by simp
qed simp

lemma turn_runs:
  assumes "clock_runs E now" and "turn E f timeout_ms start n cx w = (Inr q, cx', w')"
  shows "now w < now w'"
proof -
  have ok: "clock_ok E now" using assms(1) by (simp add: clock_runs_def)
  obtain el w1 where el: "elapsed_ms E start w = (el, w1)" by fastforce
  then have "now w \<le> now w1" using ok by (auto simp: elapsed_ms_def split: prod.splits dest: clock_time)
  moreover from assms(2) el have "advance_one E f (Some (max 0 (timeout_ms - el))) n cx w1 = (Inr q, cx', w')"
    by (simp add: turn_def abind_def aworld_def)
  then obtain y lg where "run_node E f n (Some (max 0 (timeout_ms - el))) cx w1 = (Inr y, lg, cx', w')"
    by (auto simp: advance_one_def run_node_act_def Let_def split: prod.splits sum.splits raised.splits if_splits)
  then obtain v lg' cx1 where "execute_with_retry E f n (Some (max 0 (timeout_ms - el))) cx w1 = (Inr v, lg', cx1, w')"
    by (auto simp: run_node_def Let_def split: prod.splits sum.splits)
  from execute_runs [OF assms(1) this] have "now w1 < now w'" .
  ultimately show ?thesis by simp
qed

lemma normal_loop_returns:
  assumes "clock_runs E now"
  shows "nat (start + timeout_ms * 1000 - now w) + 2 \<le> fuel \<Longrightarrow>
    \<exists>r. normal_loop fuel E f timeout_ms start nx cx w = Some r"
proof (induction fuel arbitrary: nx cx w)
  case 0
  then show ?case by simp
next
  case (Suc fuel)
  have ok: "clock_ok E now" using assms by (simp add: clock_runs_def)
  show ?case
  proof (cases nx)
    case None
    then show ?thesis by (simp add: legacy_result_eq)
  next
    case (Some n)
    obtain t cx1 w1 where T: "turn E f timeout_ms start n cx w = (t, cx1, w1)" by (metis prod_cases3)
    show ?thesis
    proof (cases t)
      case (Inl e)
      with Some T show ?thesis by simp
    next
      case (Inr q)
      obtain v br nx' ie where q: "q = (v, br, nx', ie)" by (metis prod_cases4)
      obtain tm w2 where tm: "time_time E w1 = (tm, w2)" by fastforce
      note adv = turn_runs [OF assms T [unfolded Inr]] clock_time [OF ok tm]
      show ?thesis
      proof (cases "ie \<or> tm - start > timeout_ms * 1000")
        case True
        with Some T Inr q tm show ?thesis
          by (auto simp: check_deadline_def abind_def aworld_def deadline_exceeded_def araise_def)
      next
        case False
        with adv have "nat (start + timeout_ms * 1000 - now w2) < nat (start + timeout_ms * 1000 - now w)" by auto
        with Suc.prems have "nat (start + timeout_ms * 1000 - now w2) + 2 \<le> fuel" by linarith
        from Suc.IH [OF this, of nx' cx1] False Some T Inr q tm show ?thesis
          by (auto simp: check_deadline_def abind_def aworld_def deadline_exceeded_def aret_def)
      qed
    qed
  qed
qed

text \<open>
  Property C2.  Every run of the normal strategy returns, cyclic flows included, as long as time
  passes while nodes run: with a budget of \<open>t\<close> milliseconds and a clock that advances by at least a
  microsecond per node, \<open>1000 * t + 2\<close> turns of the loop are enough.
\<close>

theorem deadline_ends_every_run:
  assumes "clock_runs E now" and "t = execution_deadline_ms dflt timeout_ms"
  shows "\<exists>r. normal_execute (nat (t * 1000) + 2) E dflt f timeout_ms cx w = Some r"
proof (cases "entry_node f")
  case (Inl e)
  then show ?thesis by (simp add: normal_execute_def)
next
  case (Inr n)
  obtain start w' where T: "time_time E w = (start, w')" by fastforce
  have "start \<le> now w'" using clock_time [of E now w] T assms(1) by (auto simp: clock_runs_def)
  then have "nat (start + t * 1000 - now w') + 2 \<le> nat (t * 1000) + 2" by simp
  from normal_loop_returns [OF assms(1) this, of f "Some n" cx] Inr T assms(2) show ?thesis
    by (simp add: normal_execute_def del: normal_loop.simps)
qed

text \<open>An environment whose clock ticks once per body, and a flow that loops forever without a deadline.\<close>

definition ticking_env :: "(node \<Rightarrow> raised + pyval) \<Rightarrow> int env" where
  "ticking_env outs = \<lparr>time_time = (\<lambda>w. (w, w)), cancel_requested = None,
     clear_cancel_event = (\<lambda>w. w), assert_executable = (\<lambda>_ _ _. Inr ()),
     run_body = (\<lambda>n r cx w. (outs n, cx, w + 1000)), sleep = (\<lambda>d w. w + max 0 d),
     isodur = (\<lambda>_. IsoInvalid), result_payload = (\<lambda>_ _. None)\<rparr>"

definition cyclic_flow :: flow where
  "cyclic_flow = Flow (Some ''f'') [simple_node ''s'' ''start'' (Some ''a''), simple_node ''a'' ''op'' (Some ''s'')] PNone [] []"

theorem deadline_ends_every_run_witness:
  "\<exists>r. normal_execute (nat (execution_deadline_ms 5 None * 1000) + 2) (ticking_env (\<lambda>_. Inr PNone)) 5 cyclic_flow None
     example_ctx 0 = Some r"
proof (rule deadline_ends_every_run)
  show "clock_runs (ticking_env (\<lambda>_. Inr PNone)) (\<lambda>w. w)"
    by (simp add: clock_runs_def clock_ok_def ticking_env_def)
qed simp

text \<open>A flow of a start and an end node, and a scripted node execution.\<close>

definition line_flow :: flow where
  "line_flow = Flow (Some ''f'') [simple_node ''s'' ''start'' (Some ''e''), simple_node ''e'' ''end'' None] PNone [] []"

lemma script_run_node:
  assumes "ctx_ok cx" and "node_results cx = PDict d" and "shallow v" and "nd_timeout n = PStr []"
    and "outs w = Inr v"
  shows "run_node_act (script_env outs) f n max_ms cx w =
    (Inr (v, if nd_branching n then v else PNone), recorded n v d cx, Suc w)"
proof -
  have "[0..max_retries n] = 0 # [1..max_retries n]" by (simp add: max_retries_def upto_rec1)
  moreover obtain rem where "remaining_timeout (script_env outs) (total_timeout None max_ms) 0 w = (rem, w)"
    by (cases "total_timeout None max_ms") (simp_all add: remaining_timeout_def elapsed_ms_def script_env_def)
  ultimately have "execute_with_retry (script_env outs) f n max_ms cx w = (Inr v, [Attempt rem], cx, Suc w)"
    using assms(4,5)
    by (simp add: execute_with_retry_def script_env_def parse_timeout_def cancelled_def Let_def
        raise_if_cancel_requested_def)
  from run_node_success [OF this assms(1-3)] show ?thesis
    by (simp add: script_env_def run_node_act_def)
qed

theorem step_fails_closed_witness:
  "\<exists>cx' w'. advance_one (script_env (\<lambda>_. Inr (PInt 1))) line_flow None (simple_node ''s'' ''start'' (Some ''e'')) example_ctx 0
      = (Inr (PInt 1, PNone, Some (simple_node ''e'' ''end'' None), False), cx', w')
    \<and> simple_node ''e'' ''end'' None \<in> set (nodes line_flow)"
proof -
  let ?n = "simple_node ''s'' ''start'' (Some ''e'')"
  obtain cx' where "run_node_act (script_env (\<lambda>_. Inr (PInt 1))) line_flow ?n None example_ctx 0 = (Inr (PInt 1, PNone), cx', Suc 0)"
    using script_run_node [OF example_ctx_ok example_node_results, of "PInt 1" ?n "\<lambda>_. Inr (PInt 1)" 0 line_flow None]
    by (auto simp: shallow_def simple_node_def)
  then have "advance_one (script_env (\<lambda>_. Inr (PInt 1))) line_flow None ?n example_ctx 0
      = (Inr (PInt 1, PNone, Some (simple_node ''e'' ''end'' None), False), cx', Suc 0)"
    by (simp add: advance_one_def simple_node_def line_flow_def is_end_node_def successor_def next_node_def branch_str_def
        get_target_node_def str_truthy_def find_node_by_id_def build_index_def)
  with step_fails_closed [OF this] show ?thesis by blast
qed

theorem generator_refines_normal_witness:
  "\<exists>outs r cx' w'. generator_execute 3 (script_env (\<lambda>_. Inr (PInt 1))) 5 line_flow None example_ctx 0 = Some (outs, r, cx', w')
     \<and> drained_ok outs r cx' w' (normal_execute 3 (script_env (\<lambda>_. Inr (PInt 1))) 5 line_flow None example_ctx 0)"
proof -
  let ?E = "script_env (\<lambda>_. Inr (PInt 1))"
  let ?s = "simple_node ''s'' ''start'' (Some ''e'')" let ?e = "simple_node ''e'' ''end'' None"
  have P: "shallow (PInt 1)" "nd_timeout ?s = PStr []" "nd_timeout ?e = PStr []"
    by (simp_all add: shallow_def simple_node_def)
  obtain c1 d1 where R1: "run_node_act ?E line_flow ?s (Some 5) example_ctx 0 = (Inr (PInt 1, PNone), c1, 1)"
    "ctx_ok c1" "node_results c1 = PDict d1"
    using script_run_node [OF example_ctx_ok example_node_results P(1,2), of "\<lambda>_. Inr (PInt 1)" 0 line_flow "Some 5"]
      recorded_ok [OF example_ctx_ok] recorded_reads(3) [OF example_ctx_ok]
    by (auto simp: simple_node_def)
  obtain c2 where R2: "run_node_act ?E line_flow ?e (Some 5) c1 1 = (Inr (PInt 1, PNone), c2, 2)"
    using script_run_node [OF R1(2,3) P(1,3), of "\<lambda>_. Inr (PInt 1)" 1 line_flow "Some 5"]
    by (auto simp: simple_node_def numeral_2_eq_2)
  have el: "elapsed_ms ?E 0 w = (0, w)" for w by (simp add: elapsed_ms_def script_env_def trunc_ms_def)
  have T1: "turn ?E line_flow 5 0 ?s example_ctx 0 = (Inr (PInt 1, PNone, Some ?e, False), c1, 1)"
    using R1(1)
    by (simp add: turn_def abind_def aworld_def el advance_one_def) (simp add: simple_node_def line_flow_def is_end_node_def
        successor_def next_node_def branch_str_def get_target_node_def str_truthy_def find_node_by_id_def build_index_def)
  have T2: "turn ?E line_flow 5 0 ?e c1 1 = (Inr (PInt 1, PNone, None, True), c2, 2)"
    using R2
    by (simp add: turn_def abind_def aworld_def el advance_one_def) (simp add: simple_node_def is_end_node_def)
  have C: "check_deadline ?E 5 0 nx c w = (Inr (), c, w)" for nx c w
    by (simp add: check_deadline_def abind_def aworld_def deadline_exceeded_def aret_def script_env_def)
  have S: "entry_node line_flow = Inr ?s" "time_time ?E 0 = (0, 0)"
    by (simp_all add: entry_node_def start_node_def line_flow_def simple_node_def script_env_def)
  have "\<exists>x. generator_execute 3 ?E 5 line_flow None example_ctx 0 = Some x"
    by (cases "to_dict c1"; cases "to_dict c2")
      (simp_all add: generator_execute_def S execution_deadline_ms_def eval_nat_numeral T1 T2 [unfolded One_nat_def]
        C lazy_output_act_cases yielding_def)
  then obtain outs r cx' w' where G: "generator_execute 3 ?E 5 line_flow None example_ctx 0 = Some (outs, r, cx', w')"
    by (metis prod_cases4)
  from generator_refines_normal [OF G] G show ?thesis by blast
qed

text \<open>
  When the deadline passes in the turn that left the flow through the legacy exit of a dead end,
  the message of the deadline error cannot be built: there is no next node to name.
\<close>

lemma late_dead_end:
  assumes "turn E f t start n cx w = (Inr (v, br, None, False), cx', w')"
    and "deadline_exceeded E start t w' = (True, w'')"
  shows "normal_loop (Suc fuel) E f t start (Some n) cx w = Some (Inl (Exc (plain_exc (Builtin AttributeError))), cx', w'')"
  using assms by (simp add: check_deadline_def abind_def aworld_def araise_def deadline_error_def)

end
