(* ===== verification/Distributed.thy ===== *)
theory Distributed
  imports Strategies
begin

text \<open>
  \<^verbatim>\<open>plaita/core/strategies.py\<close>, second part: the distributed strategy.  One call executes one
  step of a flow and returns an output with the checkpoint to store; a later call continues from
  a stored checkpoint or resolves a suspension (event, timeout, cancel).  Suspensions inside
  called child flows travel as carriers to this boundary, where they are parked as a path of
  frames in the root checkpoint and later resumed along that path.  Event bus, uuid source and
  process environment are the host; the in-memory bus of the event theory is one such bus.
\<close>

section \<open>Host\<close>

record sub_req =
  sr_event_type :: pyval
  sr_filter :: "pyval dict"
  sr_correlation :: pyval
  sr_flow_id :: "string option"
  sr_node_id :: string
  sr_timeout :: "int option"
  sr_tenant :: "string option"

record 'w host =
  h_env :: "'w env"
  h_deadline :: int
  h_os_env :: "string dict"
  h_uuid :: "'w \<Rightarrow> string \<times> 'w"
  h_register :: "(sub_req \<Rightarrow> 'w \<Rightarrow> (exc + pyval) \<times> 'w) option"
  h_unregister :: "(pyval \<Rightarrow> 'w \<Rightarrow> (exc + unit) \<times> 'w) option"
  h_tenant :: string
  h_str :: "exc \<Rightarrow> string"

definition DEFAULT_TENANT_ID :: string where
  "DEFAULT_TENANT_ID = ''default''"

definition RESUME_BINDING_KEY :: string where
  "RESUME_BINDING_KEY = ''__plaita_subscription_id''"

definition SUSPEND_FRAMES_KEY :: string where
  "SUSPEND_FRAMES_KEY = ''SUSPEND_FRAMES''"

definition SUSPEND_ALLOWED_FRAME_NODE_TYPES :: "string list" where
  "SUSPEND_ALLOWED_FRAME_NODE_TYPES = [''child'', ''reference'']"

section \<open>Subscribing\<close>

definition update_result_act :: "'w host \<Rightarrow> node \<Rightarrow> pyval \<Rightarrow> (unit, 'w) act" where
  "update_result_act H n v = (\<lambda>cx w.
     case update_node_result (result_payload (h_env H) n w) (nd_id n) v cx of
       Inl e \<Rightarrow> (Inl (Exc e), cx, w) | Inr cx' \<Rightarrow> (Inr (), cx', w))"

definition subscribe_fail :: "'w host \<Rightarrow> node \<Rightarrow> pyval \<Rightarrow> string \<Rightarrow> (bool \<times> pyval, 'w) act" where
  "subscribe_fail H n st msg =
     abind acx (\<lambda>cx. abind (alift (on_error n cx (PStr msg))) (\<lambda>err.
       abind (update_result_act H n (PDict err)) (\<lambda>_. aret (False, st))))"

text \<open>
  \<open>_subscribe_event\<close>: whether the subscription is active, and the node state, which the code
  extends in place with the subscription id, the resolved event type and the timeout.
\<close>

definition subscription_request :: "'w host \<Rightarrow> node \<Rightarrow> flow \<Rightarrow> pyval dict \<Rightarrow> pyval \<Rightarrow> ctx \<Rightarrow> sub_req" where
  "subscription_request H n f d correlation_id cx =
     \<lparr>sr_event_type = pget d ''event_type'' (PStr (nd_event_type n)), sr_filter = nd_event_filter n,
      sr_correlation = (if truthy correlation_id then correlation_id else execution_id cx),
      sr_flow_id = flow_id f, sr_node_id = nd_id n, sr_timeout = nd_subscription_timeout n,
      sr_tenant = (if h_tenant H \<noteq> [] \<and> h_tenant H \<noteq> DEFAULT_TENANT_ID then Some (h_tenant H) else None)\<rparr>"

definition subscribed_state :: "node \<Rightarrow> pyval \<Rightarrow> pyval dict \<Rightarrow> pyval dict" where
  "subscribed_state n sid d =
     dict_set ''subscription_timeout'' (opt_int (nd_subscription_timeout n))
       (dict_set ''event_type'' (pget d ''event_type'' (PStr (nd_event_type n)))
         (dict_set ''subscription_id'' sid d))"

definition subscribe_event :: "'w host \<Rightarrow> node \<Rightarrow> flow \<Rightarrow> pyval \<Rightarrow> pyval \<Rightarrow> (bool \<times> pyval, 'w) act" where
  "subscribe_event H n f st correlation_id = (\<lambda>cx w.
     case h_register H of
       None \<Rightarrow> subscribe_fail H n st ''Unable to get event bus'' cx w
     | Some register \<Rightarrow>
         (case st of
            PDict d \<Rightarrow>
              (let (r, w1) = register (subscription_request H n f d correlation_id cx) w in
               case r of
                 Inl e \<Rightarrow> subscribe_fail H n st (''Subscribe failed: '' @ h_str H e) cx w1
               | Inr sid \<Rightarrow>
                   (let st' = PDict (subscribed_state n sid d) in
                    case update_result_act H n st' cx w1 of
                      (Inl (Exc e), cx', w2) \<Rightarrow> subscribe_fail H n st' (''Subscribe failed: '' @ h_str H e) cx' w2
                    | (Inl (Carrier c), cx', w2) \<Rightarrow> (Inl (Carrier c), cx', w2)
                    | (Inr _, cx', w2) \<Rightarrow> (Inr (True, st'), cx', w2)))
          | _ \<Rightarrow> subscribe_fail H n st (''Subscribe failed: '' @ h_str H (plain_exc (Builtin AttributeError))) cx w))"

text \<open>Unregistering never disturbs the resume: failures are logged and dropped.\<close>

definition unregister_suspended_subscription :: "'w host \<Rightarrow> pyval \<Rightarrow> 'w \<Rightarrow> 'w" where
  "unregister_suspended_subscription H prev w =
     (case prev of
        PDict d \<Rightarrow>
          (let sid = pget d ''subscription_id'' PNone in
           if \<not> truthy sid \<or> h_register H = None then w
           else case h_unregister H of None \<Rightarrow> w | Some u \<Rightarrow> snd (u sid w))
      | _ \<Rightarrow> w)"

section \<open>Admission of a resume\<close>

text \<open>\<open>_resume_binding_violation\<close>: whether a message is not bound to the pending subscription.\<close>

definition resume_binding_violation :: "pyval \<Rightarrow> resume_type \<Rightarrow> pyval \<Rightarrow> bool" where
  "resume_binding_violation prev rt resume_data =
     (if rt \<noteq> RT_EVENT \<and> rt \<noteq> RT_TIMEOUT then False
      else case prev of
        PDict d \<Rightarrow>
          (let expected = pget d ''subscription_id'' PNone in
           if \<not> truthy expected then False
           else case resume_data of
             PDict m \<Rightarrow>
               (let sub = pget m ''subscription_id'' PNone;
                    got = (if truthy sub then sub else pget m RESUME_BINDING_KEY PNone);
                    expected_type = pget d ''event_type'' PNone;
                    got_type = pget m ''event_type'' PNone in
                if \<not> truthy got then True
                else if py_str got \<noteq> py_str expected then True
                else truthy expected_type \<and> truthy got_type \<and> py_str got_type \<noteq> py_str expected_type)
           | _ \<Rightarrow> True)
      | _ \<Rightarrow> False)"

definition gate_resume_carrier :: "pyval \<Rightarrow> resume_type \<Rightarrow> pyval \<Rightarrow> exc + pyval" where
  "gate_resume_carrier prev rt resume_data =
     (let d = (case prev of PDict d \<Rightarrow> d | _ \<Rightarrow> []) in
      if \<not> py_eq (pget d ''status'' (PStr [])) (PStr PENDING) then Inl resume_guard_error
      else if rt \<notin> {RT_CANCEL, RT_TIMEOUT, RT_EVENT} then Inl resume_error
      else if resume_binding_violation (PDict d) rt resume_data then Inl resume_guard_error
      else Inr (case resume_data of
          PDict m \<Rightarrow> PDict (filter (\<lambda>kv. fst kv \<noteq> RESUME_BINDING_KEY) m)
        | v \<Rightarrow> v))"

section \<open>Nested suspensions: parking\<close>

definition load_suspend_frames :: "ctx \<Rightarrow> pyval list" where
  "load_suspend_frames cx =
     (case get_state cx (sys_key cx SUSPEND_FRAMES_KEY) PNone of PList xs \<Rightarrow> xs | _ \<Rightarrow> [])"

definition frame_dict :: "string \<Rightarrow> string option \<Rightarrow> pyval \<Rightarrow> pyval" where
  "frame_dict nid fid c = PDict [(''node_id'', PStr nid), (''flow_id'', opt_str fid), (''context'', c)]"

definition carrier_frame_dicts :: "carrier \<Rightarrow> nat \<Rightarrow> exc + pyval list" where
  "carrier_frame_dicts c root_id =
     rbind (to_dict (ca_ctx c)) (\<lambda>d.
       rbind (rmap (\<lambda>(f, cx, n).
           if cx_id cx = root_id then Inr (frame_dict (nd_id n) (flow_id f) PNone)
           else rbind (to_dict cx) (\<lambda>e. Inr (frame_dict (nd_id n) (flow_id f) (PDict e)))) (ca_frames c)) (\<lambda>fs.
         Inr (frame_dict (nd_id (ca_node c)) (flow_id (ca_flow c)) (PDict d) # fs)))"

definition scope_gate_blocker :: "carrier \<Rightarrow> (flow \<times> ctx \<times> node) option" where
  "scope_gate_blocker c =
     find (\<lambda>(f, cx, n). nd_type n \<notin> set SUSPEND_ALLOWED_FRAME_NODE_TYPES) (ca_frames c)"

text \<open>The action runs on the root context; \<open>on_ctx\<close> runs one on the carrier's context object.\<close>

definition on_ctx :: "ctx \<Rightarrow> ('a, 'w) act \<Rightarrow> ('a \<times> ctx, 'w) act" where
  "on_ctx other m = (\<lambda>cx w.
     case m other w of
       (Inl e, other', w') \<Rightarrow> (Inl e, if cx_id other = cx_id cx then other' else cx, w')
     | (Inr x, other', w') \<Rightarrow> (Inr (x, other'), if cx_id other = cx_id cx then other' else cx, w'))"

definition park_nested_suspension :: "'w host \<Rightarrow> carrier \<Rightarrow> (lazy_out, 'w) act" where
  "park_nested_suspension H c =
     (case scope_gate_blocker c of
        Some _ \<Rightarrow> araise (Exc flow_suspend_rejected_error)
      | None \<Rightarrow>
          abind acx (\<lambda>root.
            abind (on_ctx (ca_ctx c) (subscribe_event H (ca_node c) (ca_flow c) (ca_result c) (execution_id root))) (\<lambda>r.
              case r of ((subscribed, pending), inner) \<Rightarrow>
                if \<not> subscribed then araise (Exc flow_execution_exception)
                else abind (alift (carrier_frame_dicts (c\<lparr>ca_ctx := inner\<rparr>) (cx_id root))) (\<lambda>frames.
                  abind acx (\<lambda>cx. abind (aput (set_state (sys_key cx SUSPEND_FRAMES_KEY) (PList frames) cx)) (\<lambda>_.
                    lazy_output_act (if ca_frames c = [] then ca_node c else snd (snd (last (ca_frames c))))
                      pending PNone True False))))))"

section \<open>One step\<close>

definition find_by_value :: "flow \<Rightarrow> pyval \<Rightarrow> exc + node option" where
  "find_by_value f v =
     (case v of
        PNone \<Rightarrow> Inr None
      | PStr s \<Rightarrow> find_node_by_id f (Some s)
      | _ \<Rightarrow> if hashable v then Inl node_not_found_error else Inl (plain_exc (Builtin TypeError)))"

text \<open>\<open>node_results.get(key)\<close> of a value that may be no dictionary.\<close>

definition results_get :: "pyval \<Rightarrow> pyval \<Rightarrow> pyval \<Rightarrow> exc + pyval" where
  "results_get results key dflt =
     (case results of
        PDict d \<Rightarrow> (case key of PStr k \<Rightarrow> Inr (pget d k dflt)
                     | _ \<Rightarrow> if hashable key then Inr dflt else Inl (plain_exc (Builtin TypeError)))
      | _ \<Rightarrow> Inl (plain_exc (Builtin AttributeError)))"

definition get_next_from_last :: "flow \<Rightarrow> pyval \<Rightarrow> (node option, 'w) act" where
  "get_next_from_last f last_id =
     abind acx (\<lambda>cx. abind (alift (find_by_value f last_id)) (\<lambda>cur.
       abind (alift (results_get (node_results cx) last_id PNone)) (\<lambda>_.
         case cur of
           None \<Rightarrow> araise (Exc (plain_exc (Builtin AttributeError)))
         | Some n \<Rightarrow> alift (successor f n (last_branch cx)))))"

definition start_new_flow :: "'w host \<Rightarrow> flow \<Rightarrow> int option \<Rightarrow> (node option, 'w) act" where
  "start_new_flow H f max_ms =
     abind (alift (start_node f)) (\<lambda>s.
       case s of
         None \<Rightarrow> aret None
       | Some n \<Rightarrow>
           abind (run_node_act (h_env H) f n max_ms) (\<lambda>(v, br).
             if nd_suspending n
             then abind acx (\<lambda>cx. araise (Carrier (push_frame f cx n (new_carrier n f cx v))))
             else alift (successor f n br)))"

definition determine_current_node :: "'w host \<Rightarrow> flow \<Rightarrow> int option \<Rightarrow> (node option, 'w) act" where
  "determine_current_node H f max_ms =
     abind acx (\<lambda>cx.
       if truthy (last_node_id cx) then get_next_from_last f (last_node_id cx)
       else start_new_flow H f max_ms)"

definition catch_carrier :: "('a, 'w) act \<Rightarrow> (carrier \<Rightarrow> ('a, 'w) act) \<Rightarrow> ('a, 'w) act" where
  "catch_carrier m h = (\<lambda>cx w.
     case m cx w of
       (Inl (Carrier c), cx', w') \<Rightarrow> h c cx' w'
     | r \<Rightarrow> r)"

definition execute_current_node :: "'w host \<Rightarrow> flow \<Rightarrow> node \<Rightarrow> int option \<Rightarrow> (lazy_out, 'w) act" where
  "execute_current_node H f n max_ms = (\<lambda>cx w.
     case run_node_act (h_env H) f n max_ms cx w of
       (Inl (Carrier c), cx', w') \<Rightarrow> park_nested_suspension H (push_frame f cx' n c) cx' w'
     | (Inl (Exc e), cx', w') \<Rightarrow> (Inl (Exc e), cx', w')
     | (Inr (v, br), cx', w') \<Rightarrow>
         (if is_end_node n then end_output_act (Some n) v
          else if nd_suspending n then
            abind (subscribe_event H n f v PNone) (\<lambda>(subscribed, v').
              if \<not> subscribed then araise (Exc flow_execution_exception)
              else lazy_output_act n v' br True False)
          else lazy_output_act n v br False False) cx' w')"

section \<open>Resuming\<close>

type_synonym ('a, 'w) pact = "ctx \<Rightarrow> 'w \<Rightarrow> ((raised + 'a) \<times> ctx \<times> 'w) option"

definition pret :: "('a, 'w) act \<Rightarrow> ('a, 'w) pact" where
  "pret m = (\<lambda>cx w. Some (m cx w))"

definition pbind :: "('a, 'w) act \<Rightarrow> ('a \<Rightarrow> ('b, 'w) pact) \<Rightarrow> ('b, 'w) pact" where
  "pbind m k = (\<lambda>cx w.
     case m cx w of (Inl e, cx', w') \<Rightarrow> Some (Inl e, cx', w') | (Inr x, cx', w') \<Rightarrow> k x cx' w')"

text \<open>
  The decision step: the handler of the suspended node runs on the node's context and its result is
  recorded there; whatever it raises becomes a \<open>ResumeError\<close>.  Then the subscription is dropped.
\<close>

definition resume_node :: "'w host \<Rightarrow> node \<Rightarrow> pyval \<Rightarrow> resume_type \<Rightarrow> pyval \<Rightarrow> (pyval, 'w) act" where
  "resume_node H n prev rt resume_data =
     abind acx (\<lambda>cx.
       case event_resume n cx rt resume_data of
         Inl e \<Rightarrow> araise (Exc resume_error)
       | Inr st \<Rightarrow>
           abind (update_result_act H n (PDict st)) (\<lambda>_.
             abind (aworld (\<lambda>w. ((), unregister_suspended_subscription H prev w))) (\<lambda>_. aret (PDict st))))"

definition handle_root_resume :: "'w host \<Rightarrow> flow \<Rightarrow> resume_type \<Rightarrow> pyval \<Rightarrow> (lazy_out, 'w) act" where
  "handle_root_resume H f rt resume_data =
     abind acx (\<lambda>cx.
       if \<not> truthy (last_node_id cx) then araise (Exc resume_guard_error)
       else abind (alift (find_by_value f (last_node_id cx))) (\<lambda>cur.
         case cur of
           None \<Rightarrow> araise (Exc (plain_exc (Builtin AttributeError)))
         | Some n \<Rightarrow>
             if \<not> nd_suspending n then araise (Exc resume_guard_error)
             else abind (alift (results_get (node_results cx) (last_node_id cx) (PDict []))) (\<lambda>prev.
               abind (alift (gate_resume_carrier prev rt resume_data)) (\<lambda>data.
                 abind (resume_node H n prev rt data) (\<lambda>st. lazy_output_act n st PNone False False)))))"

text \<open>\<open>_advance_frame_to_end\<close>: drive one frame to its end node; its loop takes fuel like the others.\<close>

fun frame_loop ::
  "nat \<Rightarrow> 'w env \<Rightarrow> flow \<Rightarrow> int \<Rightarrow> int \<Rightarrow> node option \<Rightarrow> ctx \<Rightarrow> 'w \<Rightarrow> ((raised + pyval) \<times> ctx \<times> 'w) option" where
  "frame_loop 0 E f max_ms start nx cx w = None"
| "frame_loop (Suc fuel) E f max_ms start nx cx w =
     (case nx of
        None \<Rightarrow> Some (legacy_result cx w)
      | Some n \<Rightarrow>
          (case advance_one E f (Some max_ms) n cx w of
             (Inl e, cx', w') \<Rightarrow> Some (Inl e, cx', w')
           | (Inr (v, br, nx', is_end), cx', w') \<Rightarrow>
               if is_end then Some (Inr v, cx', w')
               else if nx' = None then Some (legacy_result cx' w')
               else (case check_deadline E max_ms start nx' cx' w' of
                       (Inl e, cx'', w'') \<Rightarrow> Some (Inl e, cx'', w'')
                     | (Inr _, cx'', w'') \<Rightarrow> frame_loop fuel E f max_ms start nx' cx'' w'')))"

definition advance_frame_to_end ::
  "nat \<Rightarrow> 'w host \<Rightarrow> flow \<Rightarrow> int option \<Rightarrow> node option \<Rightarrow> ctx \<Rightarrow> 'w \<Rightarrow> ((raised + pyval) \<times> ctx \<times> 'w) option" where
  "advance_frame_to_end fuel H f max_ms nx cx w =
     (let (start, w') = time_time (h_env H) w in
      frame_loop fuel (h_env H) f (execution_deadline_ms (h_deadline H) max_ms) start nx cx w')"

text \<open>
  Resolving the stored frame path against the flow definition, from the root inwards.  A child
  context is built for every frame but the root's and loaded with the stored state.
\<close>

fun resolve_frames ::
  "'w host \<Rightarrow> ctx \<Rightarrow> nat \<Rightarrow> flow \<Rightarrow> pyval list \<Rightarrow> 'w \<Rightarrow> (exc + (node option \<times> flow \<times> ctx) list) \<times> 'w" where
  "resolve_frames H root depth f [] w = (Inr [], w)"
| "resolve_frames H root depth f (entry # entries) w =
     (case entry of
        PDict d \<Rightarrow>
          (let saved = pget d ''context'' PNone;
               (uuid, w1) = (if depth = 0 \<or> saved = PNone then ([], w) else h_uuid H w);
               frame_ctx =
                 (if depth = 0 then Inr root
                  else if saved = PNone then Inl resume_error
                  else rbind (child (cx_id root + depth) uuid root) (\<lambda>cx.
                    case saved of PDict s \<Rightarrow> load_context s cx | _ \<Rightarrow> Inl (plain_exc (Builtin AttributeError)))) in
           case frame_ctx of
             Inl e \<Rightarrow> (Inl e, w1)
           | Inr cx \<Rightarrow>
               (case find_by_value f (pget d ''node_id'' PNone) of
                  Inl _ \<Rightarrow> (Inl resume_error, w1)
                | Inr cur \<Rightarrow>
                    (let fid = pget d ''flow_id'' PNone in
                     if truthy fid \<and> \<not> py_eq (opt_str (flow_id f)) fid then (Inl resume_error, w1)
                     else if entries = [] then (Inr [(cur, f, cx)], w1)
                     else (case Option.bind cur nd_child_flow of
                             None \<Rightarrow> (Inl resume_error, w1)
                           | Some sub \<Rightarrow>
                               (case resolve_frames H root (Suc depth) sub entries w1 of
                                  (Inl e, w2) \<Rightarrow> (Inl e, w2)
                                | (Inr rest, w2) \<Rightarrow> (Inr ((cur, f, cx) # rest), w2))))))
      | _ \<Rightarrow> (Inl (plain_exc (Builtin AttributeError)), w))"

text \<open>
  Returning through the frames, innermost first: each frame runs to its end, its value becomes the
  result of the calling node.  A new suspension on the way is parked again with the frames that
  are still open.  The root frame only records the value: the next step continues from it.
\<close>

fun return_frames ::
  "nat \<Rightarrow> 'w host \<Rightarrow> int option \<Rightarrow> flow \<Rightarrow> ctx \<Rightarrow> node option \<Rightarrow> (flow \<times> ctx \<times> node) list \<Rightarrow> (lazy_out, 'w) pact" where
  "return_frames fuel H max_ms f fcx nx [] root w =
     (case advance_frame_to_end fuel H f max_ms nx fcx w of
        None \<Rightarrow> None
      | Some (Inl (Carrier c), _, w') \<Rightarrow> Some (park_nested_suspension H c root w')
      | Some (Inl (Exc e), _, w') \<Rightarrow> Some (Inl (Exc e), root, w')
      | Some (Inr v, _, w') \<Rightarrow> Some (Inl (Exc resume_error), root, w'))"
| "return_frames fuel H max_ms f fcx nx ((f', fcx', child_node) # stack) root w =
     (case advance_frame_to_end fuel H f max_ms nx fcx w of
        None \<Rightarrow> None
      | Some (Inl (Carrier c), _, w') \<Rightarrow>
          Some (park_nested_suspension H (fold (\<lambda>(g, cx, n). push_frame g cx n) ((f', fcx', child_node) # stack) c) root w')
      | Some (Inl (Exc e), _, w') \<Rightarrow> Some (Inl (Exc e), root, w')
      | Some (Inr v, _, w') \<Rightarrow>
          (case update_result_act H child_node v fcx' w' of
             (Inl e, _, w'') \<Rightarrow> Some (Inl e, root, w'')
           | (Inr _, fcx1, w'') \<Rightarrow>
               (let fcx2 = set_last_node_id (PStr (nd_id child_node)) fcx1 in
                if stack = [] then
                  Some (lazy_output_act child_node v PNone False False
                          (set_state (sys_key fcx2 SUSPEND_FRAMES_KEY) PNone fcx2) w'')
                else (case successor f' child_node PNone of
                        Inl e \<Rightarrow> Some (Inl (Exc e), root, w'')
                      | Inr nx' \<Rightarrow> return_frames fuel H max_ms f' fcx2 nx' stack root w''))))"

definition handle_nested_resume ::
  "nat \<Rightarrow> 'w host \<Rightarrow> flow \<Rightarrow> resume_type \<Rightarrow> pyval \<Rightarrow> pyval list \<Rightarrow> int option \<Rightarrow> (lazy_out, 'w) pact" where
  "handle_nested_resume fuel H f rt resume_data frame_dicts max_ms = (\<lambda>root w.
     if rt \<notin> {RT_CANCEL, RT_TIMEOUT, RT_EVENT} then Some (Inl (Exc resume_error), root, w)
     else if length frame_dicts < 2 then Some (Inl (Exc resume_error), root, w)
     else case last frame_dicts of
       PDict lastd \<Rightarrow>
         if pget lastd ''context'' PNone \<noteq> PNone then Some (Inl (Exc resume_error), root, w)
         else (case resolve_frames H root 0 f (rev frame_dicts) w of
           (Inl e, w1) \<Rightarrow> Some (Inl (Exc e), root, w1)
         | (Inr resolved, w1) \<Rightarrow>
             (case last resolved of
                (None, _, _) \<Rightarrow> Some (Inl (Exc (plain_exc (Builtin AttributeError))), root, w1)
              | (Some n, inner_flow, inner_ctx) \<Rightarrow>
                  if \<not> nd_suspending n then Some (Inl (Exc resume_guard_error), root, w1)
                  else let prev = (case node_results inner_ctx of PDict d \<Rightarrow> pget d (nd_id n) PNone | _ \<Rightarrow> PNone);
                           stack = rev (map (\<lambda>(m, g, cx). (g, cx, the m)) (butlast resolved)) in
                    case abind (alift (gate_resume_carrier prev rt resume_data)) (resume_node H n prev rt) inner_ctx w1 of
                      (Inl e, _, w2) \<Rightarrow> Some (Inl e, root, w2)
                    | (Inr _, inner_ctx', w2) \<Rightarrow>
                        (case successor inner_flow n PNone of
                           Inl e \<Rightarrow> Some (Inl (Exc e), root, w2)
                         | Inr nx \<Rightarrow> return_frames fuel H max_ms inner_flow inner_ctx' nx stack root w2)))
     | _ \<Rightarrow> Some (Inl (Exc (plain_exc (Builtin AttributeError))), root, w))"

definition handle_resume ::
  "nat \<Rightarrow> 'w host \<Rightarrow> flow \<Rightarrow> resume_type \<Rightarrow> pyval \<Rightarrow> int option \<Rightarrow> (lazy_out, 'w) pact" where
  "handle_resume fuel H f rt resume_data max_ms =
     pbind acx (\<lambda>cx.
       if load_suspend_frames cx \<noteq> []
       then handle_nested_resume fuel H f rt resume_data (load_suspend_frames cx) max_ms
       else pret (handle_root_resume H f rt resume_data))"

section \<open>The strategy\<close>

text \<open>A checkpoint that is still suspended must not be continued: both guards of \<open>execute\<close>.\<close>

definition continue_guard :: "flow \<Rightarrow> (unit, 'w) act" where
  "continue_guard f =
     abind acx (\<lambda>cx.
       abind (if truthy (last_node_id cx) then
           abind (alift (find_by_value f (last_node_id cx))) (\<lambda>cur.
             case cur of
               None \<Rightarrow> aret ()
             | Some n \<Rightarrow>
                 if nd_suspending n then
                   (let prev = (case node_results cx of
                        PDict d \<Rightarrow> (case last_node_id cx of PStr k \<Rightarrow> pget d k PNone | _ \<Rightarrow> PNone) | _ \<Rightarrow> PNone);
                        status = (case prev of PDict d \<Rightarrow> pget d ''status'' (PStr []) | _ \<Rightarrow> PStr []) in
                    if py_eq status (PStr PENDING) then araise (Exc resume_guard_error) else aret ())
                 else aret ())
         else aret ()) (\<lambda>_.
       if load_suspend_frames cx \<noteq> [] then araise (Exc resume_guard_error) else aret ()))"

definition load_or_start ::
  "'w host \<Rightarrow> flow \<Rightarrow> pyval dict \<Rightarrow> pyval dict \<Rightarrow> string option \<Rightarrow> (unit, 'w) act" where
  "load_or_start H f params saved eid = (\<lambda>cx w.
     if saved \<noteq> [] then
       (case load_context saved cx of
          Inl e \<Rightarrow> (Inl (Exc e), cx, w)
        | Inr cx' \<Rightarrow>
            (Inr (), case eid of Some (c # cs) \<Rightarrow> set_state (sys_key cx' ''EXECUTION_ID'') (PStr (c # cs)) cx' | _ \<Rightarrow> cx', w))
     else
       (let (uuid, w') = (case eid of Some (c # cs) \<Rightarrow> ([], w) | _ \<Rightarrow> h_uuid H w) in
        case clean (h_os_env H) uuid eid cx of
          Inl e \<Rightarrow> (Inl (Exc e), cx, w')
        | Inr cx1 \<Rightarrow>
            (case setup_flow (h_os_env H) f [] params cx1 of
               (Inl e, cx2) \<Rightarrow> (Inl (Exc e), cx2, w')
             | (Inr _, cx2) \<Rightarrow> (Inr (), cx2, w'))))"

definition distributed_step :: "'w host \<Rightarrow> flow \<Rightarrow> int option \<Rightarrow> (lazy_out, 'w) act" where
  "distributed_step H f max_ms = (\<lambda>cx w.
     case determine_current_node H f max_ms cx w of
       (Inl (Carrier c), cx', w') \<Rightarrow> park_nested_suspension H c cx' w'
     | (Inl (Exc e), cx', w') \<Rightarrow> (Inl (Exc e), cx', w')
     | (Inr None, cx', w') \<Rightarrow> end_output_act None (node_results cx') cx' w'
     | (Inr (Some n), cx', w') \<Rightarrow> execute_current_node H f n max_ms cx' w')"

definition distributed_execute ::
  "nat \<Rightarrow> 'w host \<Rightarrow> flow \<Rightarrow> pyval dict \<Rightarrow> int option \<Rightarrow> pyval dict \<Rightarrow> pyval \<Rightarrow> pyval \<Rightarrow> string option \<Rightarrow> (lazy_out, 'w) pact" where
  "distributed_execute fuel H f params timeout_ms saved resume_type resume_data eid =
     (let max_ms = Some (execution_deadline_ms (h_deadline H) timeout_ms) in
      pbind (alift (resume_type_coerce resume_type)) (\<lambda>rt.
        pbind (load_or_start H f params saved eid) (\<lambda>_.
          if saved \<noteq> [] \<and> rt \<notin> {RT_CONTINUE, RT_RETRY} then handle_resume fuel H f rt resume_data max_ms
          else if saved = [] \<and> rt \<noteq> RT_CONTINUE then pret (araise (Exc resume_guard_error))
          else pbind (if saved \<noteq> [] then continue_guard f else aret ()) (\<lambda>_.
            pret (distributed_step H f max_ms)))))"

section \<open>Static check\<close>

text \<open>\<open>flow_contains_suspending_node\<close>, over child flows at any depth.\<close>

fun contains_suspending :: "flow \<Rightarrow> bool"
  and node_suspends :: "node \<Rightarrow> bool" where
  "contains_suspending (Flow i ns t g x) = list_ex node_suspends ns"
| "node_suspends (Node i ty nm nx b bs nt susp tm th eh et ef st cf) =
     (susp \<or> (case cf of None \<Rightarrow> False | Some f \<Rightarrow> contains_suspending f))"

section \<open>Admission\<close>

text \<open>The subscription a resume message names.\<close>

definition message_sub :: "pyval dict \<Rightarrow> pyval" where
  "message_sub m =
     (let sub = pget m ''subscription_id'' PNone in if truthy sub then sub else pget m RESUME_BINDING_KEY PNone)"

definition bound_to :: "pyval dict \<Rightarrow> pyval \<Rightarrow> bool" where
  "bound_to d resume_data \<longleftrightarrow>
     (\<exists>m. resume_data = PDict m \<and> truthy (message_sub m)
        \<and> py_str (message_sub m) = py_str (pget d ''subscription_id'' PNone)
        \<and> (truthy (pget d ''event_type'' PNone) \<and> truthy (pget m ''event_type'' PNone)
             \<longrightarrow> py_str (pget m ''event_type'' PNone) = py_str (pget d ''event_type'' PNone)))"

lemma binding_violation_iff:
  "resume_binding_violation (PDict d) rt data \<longleftrightarrow>
     rt \<in> {RT_EVENT, RT_TIMEOUT} \<and> truthy (pget d ''subscription_id'' PNone) \<and> \<not> bound_to d data"
  by (cases data) (auto simp: resume_binding_violation_def bound_to_def message_sub_def Let_def)

lemma pending_status: "py_eq (pget d ''status'' (PStr [])) (PStr PENDING) \<longleftrightarrow> dict_get d ''status'' = Some (PStr PENDING)"
proof (cases "dict_get d ''status''")
  case None
  then show ?thesis by (simp add: pget_def PENDING_def)
next
  case (Some v)
  then show ?thesis by (cases v) (auto simp: pget_def)
qed

text \<open>A message without the private binding key.\<close>

definition unbound :: "pyval \<Rightarrow> pyval" where
  "unbound data = (case data of PDict m \<Rightarrow> PDict (filter (\<lambda>kv. fst kv \<noteq> RESUME_BINDING_KEY) m) | v \<Rightarrow> v)"


lemma gate_admits:
  assumes "dict_get d ''status'' = Some (PStr PENDING)" and "rt \<in> {RT_CANCEL, RT_TIMEOUT, RT_EVENT}"
    and "rt = RT_CANCEL \<or> \<not> truthy (pget d ''subscription_id'' PNone) \<or> bound_to d data"
  shows "gate_resume_carrier (PDict d) rt data = Inr (unbound data)"
  using assms by (auto simp: gate_resume_carrier_def Let_def pending_status binding_violation_iff unbound_def)

section \<open>A suspended execution is not continued\<close>

text \<open>An execution id that the caller gives is pinned in the loaded context; without one the stored id stays.\<close>

definition pin_execution_id :: "string option \<Rightarrow> ctx \<Rightarrow> ctx" where
  "pin_execution_id eid cx =
     (case eid of Some (c # cs) \<Rightarrow> set_state (sys_key cx ''EXECUTION_ID'') (PStr (c # cs)) cx | _ \<Rightarrow> cx)"

lemma pin_nothing [simp]: "pin_execution_id None cx = cx"
  by (simp add: pin_execution_id_def)

lemma load_or_start_saved:
  assumes "saved \<noteq> []" and "load_context saved cx = Inr cx1"
  shows "load_or_start H f params saved eid cx w = (Inr (), pin_execution_id eid cx1, w)"
  using assms by (simp add: load_or_start_def pin_execution_id_def split: option.split list.split)

definition pending_at :: "flow \<Rightarrow> ctx \<Rightarrow> bool" where
  "pending_at f cx \<longleftrightarrow>
     (\<exists>k n d st. last_node_id cx = PStr k \<and> k \<noteq> [] \<and> find_node_by_id f (Some k) = Inr (Some n) \<and> nd_suspending n
        \<and> node_results cx = PDict d \<and> dict_get d k = Some (PDict st) \<and> dict_get st ''status'' = Some (PStr PENDING))"

lemma continue_guard_blocks:
  "pending_at f cx \<Longrightarrow> continue_guard f cx w = (Inl (Exc resume_guard_error), cx, w)"
  by (auto simp: pending_at_def continue_guard_def abind_def acx_def alift_def aret_def araise_def find_by_value_def
      pget_def Let_def)

lemma continue_guard_frames:
  assumes "load_suspend_frames cx \<noteq> []"
  shows "\<exists>e. continue_guard f cx w = (Inl (Exc e), cx, w)
    \<and> (e = resume_guard_error \<or> truthy (last_node_id cx) \<and> find_by_value f (last_node_id cx) = Inl e)"
  using assms
  by (cases "find_by_value f (last_node_id cx)")
    (auto simp: continue_guard_def abind_def acx_def alift_def aret_def araise_def Let_def split: option.splits)

text \<open>
  Property C4.  A stored execution that waits for an event is never continued past it: a
  \<open>continue\<close> or \<open>retry\<close> of a checkpoint whose last node is a pending suspending node, or which
  holds the frames of a nested suspension, with whatever execution id, is refused before any node
  runs, and leaves the loaded context and the world untouched.  The error is the guard error; only if the last node of a checkpoint
  with frames cannot be looked up in the flow it is the error of that look-up.
\<close>

theorem pending_is_never_skipped:
  assumes "saved \<noteq> []" and "load_context saved cx = Inr cx1" and "rt \<in> {RT_CONTINUE, RT_RETRY}"
    and "cx2 = pin_execution_id eid cx1" and "pending_at f cx2 \<or> load_suspend_frames cx2 \<noteq> []"
  shows "\<exists>e. distributed_execute fuel H f params t saved (PStr (resume_type_value rt)) data eid cx w = Some (Inl (Exc e), cx2, w)
    \<and> (e = resume_guard_error \<or> \<not> pending_at f cx2 \<and> truthy (last_node_id cx2) \<and> find_by_value f (last_node_id cx2) = Inl e)"
proof -
  obtain e where G: "continue_guard f cx2 w = (Inl (Exc e), cx2, w)"
    and e: "e = resume_guard_error \<or> \<not> pending_at f cx2 \<and> truthy (last_node_id cx2) \<and> find_by_value f (last_node_id cx2) = Inl e"
  proof (cases "pending_at f cx2")
    case True
    from continue_guard_blocks [OF this] show thesis by (rule that) simp
  next
    case False
    with assms(5) have "load_suspend_frames cx2 \<noteq> []" by simp
    from continue_guard_frames [OF this, of f w] False that show thesis by blast
  qed
  note L = load_or_start_saved [OF assms(1,2), of H f params eid w, folded assms(4)]
  have "distributed_execute fuel H f params t saved (PStr (resume_type_value rt)) data eid cx w = Some (Inl (Exc e), cx2, w)"
    using assms(1)
    by (simp only: distributed_execute_def Let_def pbind_def resume_type_roundtrip alift_def sum.case aret_def
        prod.case L G not_False_eq_True if_True simp_thms assms(3) if_False)
  with e show ?thesis by blast
qed

theorem pending_is_never_skipped_witness:
  "let saved = [(''$LAST_NODE'', PStr ''ev''), (''$NODE'', PDict [(''ev'', PDict [(''status'', PStr ''pending'')])])];
       evn = Node ''ev'' ''event'' None (Some ''e'') False None False True (PStr []) default_error_handler
         default_error_handler ''order.paid'' [] None None;
       f = Flow (Some ''f'') [evn] PNone [] [] in
   \<forall>H :: nat host. \<exists>cx1. distributed_execute 1 H f [] None saved (PStr ''continue'') PNone None example_ctx 0
     = Some (Inl (Exc resume_guard_error), cx1, 0)"
proof -
  define saved where "saved = [(''$LAST_NODE'', PStr ''ev''), (''$NODE'', PDict [(''ev'', PDict [(''status'', PStr ''pending'')])])]"
  define evn where "evn = Node ''ev'' ''event'' None (Some ''e'') False None False True (PStr []) default_error_handler
         default_error_handler ''order.paid'' [] None None"
  have wf: "dict_wf saved" and sh: "dict_get saved k = Some v \<Longrightarrow> shallow v" for k v
    by (auto simp: saved_def dict_wf_def dict_get_Cons shallow_def SNAPSHOT_MAX_DEPTH_def split: if_splits)
  obtain c where c: "from_checkpoint_dict saved default_names = Inr c" "\<forall>k. ck_getitem c k = dict_get saved k"
    using from_checkpoint_dict_get [OF wf, of default_names] sh by blast
  let ?cx1 = "example_ctx\<lparr>cx_state := c\<rparr>"
  have L: "load_context saved example_ctx = Inr ?cx1" using c(1) by (simp add: load_context_def)
  have k: "sys_key ?cx1 s = ''$'' @ s" for s by (simp add: sys_key_def) (simp add: default_names_def)
  have nk: "node_key ?cx1 = ''$NODE''" by (simp add: node_key_def k) (simp add: default_names_def)
  have p: "pending_at (Flow (Some ''f'') [evn] PNone [] []) ?cx1"
    unfolding pending_at_def
    by (intro exI [of _ "''ev''"] exI [of _ evn] exI [of _ "[(''ev'', PDict [(''status'', PStr ''pending'')])]"]
        exI [of _ "[(''status'', PStr ''pending'')]"])
      (simp add: last_node_id_def node_results_def get_state_def ck_get_def k nk c(2) saved_def dict_get_Cons
        find_node_by_id_def build_index_def PENDING_def, simp add: evn_def)
  have "distributed_execute 1 H (Flow (Some ''f'') [evn] PNone [] []) [] None saved (PStr (resume_type_value RT_CONTINUE))
      PNone None example_ctx 0 = Some (Inl (Exc resume_guard_error), ?cx1, 0)" for H :: "nat host"
    using pending_is_never_skipped [OF _ L, of RT_CONTINUE ?cx1 None "Flow (Some ''f'') [evn] PNone [] []" 1 H "[]" None PNone 0] p
    by (auto simp: saved_def)
  then show ?thesis
    by (auto simp: saved_def evn_def resume_type_value_def Let_def)
qed

section \<open>A suspension has a subscription\<close>

lemma subscribe_fail_never: "subscribe_fail H n st msg cx w = (Inr (b, st'), cx', w') \<Longrightarrow> b = False"
  by (auto simp: subscribe_fail_def abind_def acx_def alift_def aret_def araise_def split: sum.splits prod.splits)

lemma subscribe_event_True:
  assumes "subscribe_event H n f st corr cx w = (Inr (True, st'), cx', w')"
  obtains register d sid w1 where "h_register H = Some register" "st = PDict d"
    "register (subscription_request H n f d corr cx) w = (Inr sid, w1)"
    "st' = PDict (subscribed_state n sid d)"
    "update_result_act H n st' cx w1 = (Inr (), cx', w')"
proof (cases "h_register H")
  case None
  with assms show ?thesis by (auto simp: subscribe_event_def dest: subscribe_fail_never)
next
  case (Some register)
  show ?thesis
  proof (cases st)
    case (PDict d)
    obtain r w1 where R: "register (subscription_request H n f d corr cx) w = (r, w1)" by fastforce
    show ?thesis
    proof (cases r)
      case (Inl e)
      with assms Some PDict R show ?thesis by (auto simp: subscribe_event_def dest: subscribe_fail_never)
    next
      case (Inr sid)
      let ?st = "PDict (subscribed_state n sid d)"
      obtain u cx2 w2 where U: "update_result_act H n ?st cx w1 = (u, cx2, w2)" by (metis prod_cases3)
      with assms Some PDict R Inr have "u = Inr () \<and> st' = ?st \<and> cx2 = cx' \<and> w2 = w'"
        by (auto simp: subscribe_event_def Let_def split: sum.splits raised.splits dest: subscribe_fail_never)
      with that Some PDict R Inr U show ?thesis by blast
    qed
  qed (use assms Some in \<open>auto simp: subscribe_event_def dest: subscribe_fail_never\<close>)
qed

lemma subscribed_state_id [simp]: "dict_get (subscribed_state n sid d) ''subscription_id'' = Some sid"
  by (simp add: subscribed_state_def)

lemma lazy_output_suspend:
  "lazy_output_act n v br susp ie cx w = (Inr out, cx', w') \<Longrightarrow>
     o_is_suspend out = susp \<and> o_result out = v \<and> o_is_end out = ie \<and> cx' = cx \<and> w' = w"
  by (auto simp: lazy_output_act_cases split: sum.splits)

text \<open>
  The bus accepted, in the world \<open>w\<close>, a subscription for the node \<open>n\<close> whose state is reported: for the
  event type of that state, correlated with the execution of \<open>root\<close>; the reported state carries its id, and
  recording that state is the last thing the call did to the world, which it left in \<open>w'\<close>.
\<close>

definition subscribed_for :: "'w host \<Rightarrow> node \<Rightarrow> flow \<Rightarrow> pyval \<Rightarrow> ctx \<Rightarrow> ctx \<Rightarrow> 'w \<Rightarrow> lazy_out \<Rightarrow> 'w \<Rightarrow> bool" where
  "subscribed_for H n g v root c w out w' \<longleftrightarrow>
     (\<exists>register d sid w1 c'. h_register H = Some register \<and> v = PDict d
        \<and> register (subscription_request H n g d (execution_id root) c) w = (Inr sid, w1)
        \<and> update_result_act H n (PDict (subscribed_state n sid d)) c w1 = (Inr (), c', w')
        \<and> o_result out = PDict (subscribed_state n sid d) \<and> dict_get (subscribed_state n sid d) ''subscription_id'' = Some sid)"

text \<open>
  A carrier is parked: every frame it crossed is a call of a child flow, the innermost node is subscribed, and the root context ends
  with one entry per frame and one for that node.
\<close>

definition parked :: "'w host \<Rightarrow> carrier \<Rightarrow> ctx \<Rightarrow> 'w \<Rightarrow> lazy_out \<Rightarrow> ctx \<Rightarrow> 'w \<Rightarrow> bool" where
  "parked H ca root w out cx' w' \<longleftrightarrow>
     list_all (\<lambda>(g, c, n). nd_type n \<in> {''child'', ''reference''}) (ca_frames ca)
     \<and> subscribed_for H (ca_node ca) (ca_flow ca) (ca_result ca) root (ca_ctx ca) w out w'
     \<and> (\<exists>cx0 frames. cx' = set_state (sys_key cx0 SUSPEND_FRAMES_KEY) (PList frames) cx0
          \<and> length frames = Suc (length (ca_frames ca)))"

lemma own_correlation: "subscription_request H n g d PNone c = subscription_request H n g d (execution_id c) c"
  by (simp add: subscription_request_def)

lemma park_parks:
  assumes "park_nested_suspension H ca root w = (Inr out, cx', w')"
  shows "parked H ca root w out cx' w' \<and> o_is_suspend out"
proof -
  have nb: "scope_gate_blocker ca = None"
    using assms by (auto simp: park_nested_suspension_def araise_def split: option.splits)
  then have allowed: "list_all (\<lambda>(g, c, n). nd_type n \<in> {''child'', ''reference''}) (ca_frames ca)"
    by (auto simp: scope_gate_blocker_def find_None_iff list_all_iff SUSPEND_ALLOWED_FRAME_NODE_TYPES_def)
  obtain pending inner cxs w1 frames where
    S: "on_ctx (ca_ctx ca) (subscribe_event H (ca_node ca) (ca_flow ca) (ca_result ca) (execution_id root)) root w
        = (Inr ((True, pending), inner), cxs, w1)"
    and F: "carrier_frame_dicts (ca\<lparr>ca_ctx := inner\<rparr>) (cx_id root) = Inr frames"
    and L: "lazy_output_act (if ca_frames ca = [] then ca_node ca else snd (snd (last (ca_frames ca)))) pending PNone
        True False (set_state (sys_key cxs SUSPEND_FRAMES_KEY) (PList frames) cxs) w1 = (Inr out, cx', w')"
    using assms nb
    by (auto simp: park_nested_suspension_def abind_def acx_def alift_def aret_def araise_def aput_def
        split: prod.splits sum.splits if_splits)
  from S obtain cx3 where "subscribe_event H (ca_node ca) (ca_flow ca) (ca_result ca) (execution_id root) (ca_ctx ca) w
      = (Inr (True, pending), cx3, w1)"
    by (auto simp: on_ctx_def split: prod.splits sum.splits)
  from subscribe_event_True [OF this] lazy_output_suspend [OF L]
  have "subscribed_for H (ca_node ca) (ca_flow ca) (ca_result ca) root (ca_ctx ca) w out w'"
    unfolding subscribed_for_def by (metis subscribed_state_id)
  moreover have "length frames = Suc (length (ca_frames ca))"
    using F by (auto simp: carrier_frame_dicts_def rbind_eq_Inr_iff dest: rmap_length)
  ultimately show ?thesis
    using allowed lazy_output_suspend [OF L] unfolding parked_def by blast
qed

text \<open>How the node of a step may suspend: by itself, or inside the flows it calls; the start node runs before the node of the step.\<close>

definition suspends_inside :: "'w host \<Rightarrow> flow \<Rightarrow> int option \<Rightarrow> ctx \<Rightarrow> 'w \<Rightarrow> carrier \<Rightarrow> ctx \<Rightarrow> 'w \<Rightarrow> bool" where
  "suspends_inside H f max_ms cx w ca root w1 \<longleftrightarrow>
     determine_current_node H f max_ms cx w = (Inl (Carrier ca), root, w1)
     \<or> (\<exists>n cx1 w0 c. determine_current_node H f max_ms cx w = (Inr (Some n), cx1, w0)
          \<and> run_node_act (h_env H) f n max_ms cx1 w0 = (Inl (Carrier c), root, w1) \<and> ca = push_frame f root n c)"

definition suspends_itself :: "'w host \<Rightarrow> flow \<Rightarrow> int option \<Rightarrow> ctx \<Rightarrow> 'w \<Rightarrow> node \<Rightarrow> pyval \<Rightarrow> ctx \<Rightarrow> 'w \<Rightarrow> bool" where
  "suspends_itself H f max_ms cx w n v root w1 \<longleftrightarrow>
     nd_suspending n \<and> (\<exists>cx1 w0 br. determine_current_node H f max_ms cx w = (Inr (Some n), cx1, w0)
       \<and> run_node_act (h_env H) f n max_ms cx1 w0 = (Inr (v, br), root, w1))"

lemma end_output_no_suspend: "end_output_act n v cx w = (Inr out, cx', w') \<Longrightarrow> \<not> o_is_suspend out"
  by (auto simp: end_output_act_cases create_end_output_def split: sum.splits)

lemma current_node_suspends:
  assumes "execute_current_node H f n max_ms cx w = (Inr out, cx', w')" and "o_is_suspend out"
  shows "(\<exists>c root w1. run_node_act (h_env H) f n max_ms cx w = (Inl (Carrier c), root, w1) \<and> parked H (push_frame f root n c) root w1 out cx' w')
    \<or> (\<exists>v br root w1. run_node_act (h_env H) f n max_ms cx w = (Inr (v, br), root, w1) \<and> nd_suspending n
         \<and> subscribed_for H n f v root root w1 out w')"
proof -
  obtain r root w1 where R: "run_node_act (h_env H) f n max_ms cx w = (r, root, w1)" by (metis prod_cases3)
  show ?thesis
  proof (cases r)
    case (Inl e)
    with assms R obtain c where "e = Carrier c" and P: "park_nested_suspension H (push_frame f root n c) root w1 = (Inr out, cx', w')"
      by (cases e) (auto simp: execute_current_node_def)
    then have "run_node_act (h_env H) f n max_ms cx w = (Inl (Carrier c), root, w1)" using R Inl by simp
    with park_parks [OF P] show ?thesis by blast
  next
    case (Inr p)
    obtain v br where p: "p = (v, br)" by (cases p)
    have ne: "\<not> is_end_node n"
      using assms R Inr p end_output_no_suspend [of "Some n" v root w1] by (auto simp: execute_current_node_def)
    have su: "nd_suspending n"
    proof (rule ccontr)
      assume "\<not> nd_suspending n"
      with assms(1) R Inr p ne have "lazy_output_act n v br False False root w1 = (Inr out, cx', w')"
        by (simp add: execute_current_node_def)
      from lazy_output_suspend [OF this] assms(2) show False by simp
    qed
    from assms(1) R Inr p ne su obtain st' cx2 w2 where
      S: "subscribe_event H n f v PNone root w1 = (Inr (True, st'), cx2, w2)"
      and L: "lazy_output_act n st' br True False cx2 w2 = (Inr out, cx', w')"
      by (auto simp: execute_current_node_def abind_def araise_def split: prod.splits sum.splits if_splits)
    from subscribe_event_True [OF S] lazy_output_suspend [OF L] have "subscribed_for H n f v root root w1 out w'"
      unfolding subscribed_for_def own_correlation by (metis subscribed_state_id)
    with su R Inr p show ?thesis by blast
  qed
qed

lemma step_suspends:
  assumes "distributed_step H f max_ms cx w = (Inr out, cx', w')" and "o_is_suspend out"
  shows "(\<exists>n v root w1. suspends_itself H f max_ms cx w n v root w1 \<and> subscribed_for H n f v root root w1 out w')
    \<or> (\<exists>ca root w1. suspends_inside H f max_ms cx w ca root w1 \<and> parked H ca root w1 out cx' w')"
proof -
  obtain r cx1 w0 where D: "determine_current_node H f max_ms cx w = (r, cx1, w0)" by (metis prod_cases3)
  show ?thesis
  proof (cases r)
    case (Inl e)
    with assms D obtain ca where "e = Carrier ca" and P: "park_nested_suspension H ca cx1 w0 = (Inr out, cx', w')"
      by (cases e) (auto simp: distributed_step_def)
    then have "suspends_inside H f max_ms cx w ca cx1 w0" using D Inl by (simp add: suspends_inside_def)
    with park_parks [OF P] show ?thesis by blast
  next
    case (Inr nx)
    with assms D end_output_no_suspend [of None "node_results cx1" cx1 w0] obtain n where n: "nx = Some n"
      by (cases nx) (auto simp: distributed_step_def)
    with assms(1) D Inr have "execute_current_node H f n max_ms cx1 w0 = (Inr out, cx', w')"
      by (simp add: distributed_step_def)
    from current_node_suspends [OF this assms(2)] D Inr n show ?thesis
      unfolding suspends_inside_def suspends_itself_def by blast
  qed
qed

lemma return_frames_suspends:
  assumes "return_frames fuel H max_ms f fcx nx stack root w = Some (Inr out, cx', w')" and "o_is_suspend out"
  shows "\<exists>ca w1. parked H ca root w1 out cx' w'"
  using assms
proof (induction stack arbitrary: f fcx nx w)
  case Nil
  then show ?case
    by (auto dest!: park_parks split: option.splits sum.splits raised.splits prod.splits)
next
  case (Cons fr stack)
  obtain f' fcx' m where fr: "fr = (f', fcx', m)" by (cases fr)
  from Cons.prems show ?case
    unfolding fr
    by (auto simp: Let_def dest!: park_parks lazy_output_suspend Cons.IH
        split: option.splits sum.splits raised.splits prod.splits if_splits)
qed

lemma resume_suspends:
  assumes "handle_resume fuel H f rt data max_ms root w = Some (Inr out, cx', w')" and "o_is_suspend out"
  shows "\<exists>ca w1. parked H ca root w1 out cx' w'"
proof -
  have never: "handle_root_resume H f rt data cx w = (Inr out, cx', w') \<Longrightarrow> \<not> o_is_suspend out" for cx
    by (auto simp: handle_root_resume_def abind_def acx_def alift_def aret_def araise_def
        dest!: lazy_output_suspend split: if_splits sum.splits option.splits prod.splits)
  show ?thesis
  proof (cases "load_suspend_frames root = []")
    case True
    then show ?thesis
      using assms never by (auto simp: handle_resume_def pbind_def acx_def pret_def)
  next
    case False
    then have "handle_nested_resume fuel H f rt data (load_suspend_frames root) max_ms root w = Some (Inr out, cx', w')"
      using assms(1) by (simp add: handle_resume_def pbind_def acx_def)
    then show ?thesis
      using assms(2) return_frames_suspends
      by (auto simp: handle_nested_resume_def Let_def split: if_splits pyval.splits sum.splits prod.splits option.splits)
  qed
qed

text \<open>
  Property C5.  An execution is never parked without something that can wake it up.  When a call of the distributed strategy reports
  a suspension, whether it starts, continues or resumes, the event bus accepted a subscription for the
  node whose state is reported, for the event type of that state and correlated with this execution, and
  the reported state carries its id.  The node is the suspending node of the step; or it is the innermost node of a suspension inside called
  flows, the step or the resume crossed only calls of child flows on the way, and the root context holds the frames.
\<close>

theorem suspended_step_is_subscribed:
  assumes "distributed_execute fuel H f params t saved rt data eid cx w = Some (Inr out, cx', w')" and "o_is_suspend out"
    and "max_ms = Some (execution_deadline_ms (h_deadline H) t)"
  shows "\<exists>cxl wl. load_or_start H f params saved eid cx w = (Inr (), cxl, wl)
    \<and> ((\<exists>n v root w1. suspends_itself H f max_ms cxl wl n v root w1 \<and> subscribed_for H n f v root root w1 out w')
       \<or> (\<exists>ca root w1. (suspends_inside H f max_ms cxl wl ca root w1 \<or> saved \<noteq> [] \<and> root = cxl) \<and> parked H ca root w1 out cx' w'))"
proof -
  obtain r where r: "resume_type_coerce rt = Inr r"
    using assms(1) by (auto simp: distributed_execute_def Let_def pbind_def alift_def araise_def split: sum.splits)
  obtain l cxl wl where l: "load_or_start H f params saved eid cx w = (l, cxl, wl)" by (metis prod_cases3)
  with assms(1) r have l0: "l = Inr ()"
    by (cases l) (auto simp: distributed_execute_def Let_def pbind_def alift_def aret_def)
  note run = assms(1) [unfolded distributed_execute_def Let_def pbind_def alift_def r sum.case aret_def prod.case l l0, folded assms(3)]
  show ?thesis
  proof (cases "saved \<noteq> [] \<and> r \<notin> {RT_CONTINUE, RT_RETRY}")
    case True
    with run have "handle_resume fuel H f r data max_ms cxl wl = Some (Inr out, cx', w')" by simp
    from resume_suspends [OF this assms(2)] l l0 True show ?thesis by blast
  next
    case False
    obtain g cxg wg where g: "(if saved \<noteq> [] then continue_guard f else aret ()) cxl wl = (g, cxg, wg)" by (metis prod_cases3)
    have same: "g = Inr () \<Longrightarrow> cxg = cxl \<and> wg = wl"
      using g by (auto simp: continue_guard_def abind_def acx_def alift_def aret_def araise_def Let_def
          split: if_splits sum.splits option.splits)
    from run False g have "g = Inr () \<and> distributed_step H f max_ms cxg wg = (Inr out, cx', w')"
      by (cases g) (auto simp: pret_def araise_def aret_def split: if_splits)
    with same have "distributed_step H f max_ms cxl wl = (Inr out, cx', w')" by simp
    from step_suspends [OF this assms(2)] l l0 show ?thesis by (intro exI [of _ cxl] exI [of _ wl]) blast
  qed
qed

text \<open>
  Parking a nested suspension fails closed: a carrier that crossed a frame other than a child or
  reference call is refused before the event bus is asked, without touching context or world.
\<close>

theorem nested_suspension_parks_closed:
  assumes "list_ex (\<lambda>(g, c, n). nd_type n \<notin> {''child'', ''reference''}) (ca_frames ca)"
  shows "park_nested_suspension H ca cx w = (Inl (Exc flow_suspend_rejected_error), cx, w)"
proof -
  have "scope_gate_blocker ca \<noteq> None"
    using assms by (auto simp: scope_gate_blocker_def find_None_iff list_ex_iff SUSPEND_ALLOWED_FRAME_NODE_TYPES_def)
  then show ?thesis
    by (auto simp: park_nested_suspension_def araise_def)
qed

section \<open>Examples\<close>

definition example_host :: "(nat \<Rightarrow> raised + pyval) \<Rightarrow> nat host" where
  "example_host outs = \<lparr>h_env = script_env outs, h_deadline = 1000, h_os_env = [], h_uuid = (\<lambda>w. (''u'', w)),
     h_register = Some (\<lambda>_ w. (Inr (PStr ''sub1''), w)), h_unregister = Some (\<lambda>_ w. (Inr (), w + 100)),
     h_tenant = ''default'', h_str = (\<lambda>_. [])\<rparr>"

definition event_nd :: node where
  "event_nd = Node ''ev'' ''event'' None (Some ''e'') False None False True (PStr []) default_error_handler
     default_error_handler ''order.paid'' [] None None"

definition event_flow :: flow where
  "event_flow = Flow (Some ''f'') [event_nd, simple_node ''e'' ''end'' None] PNone [] []"

definition pending_state :: "pyval dict" where
  "pending_state = [(''status'', PStr ''pending'')]"

lemma event_nd_simps [simp]:
  "nd_id event_nd = ''ev''" "nd_suspending event_nd" "\<not> is_end_node event_nd" "nd_timeout event_nd = PStr []"
  "\<not> nd_branching event_nd" "nd_type event_nd = ''event''" "nd_subscription_timeout event_nd = None"
  "nd_event_type event_nd = ''order.paid''" "nd_event_filter event_nd = []"
  by (simp_all add: event_nd_def is_end_node_def)

lemma small_shallow: "val_depth v \<le> 10001 \<Longrightarrow> shallow v"
  by (simp add: shallow_def SNAPSHOT_MAX_DEPTH_def)

text \<open>A loop node between the suspended node and the root blocks the suspension.\<close>

theorem nested_suspension_parks_closed_witness:
  "park_nested_suspension (example_host (\<lambda>_. Inr PNone))
      \<lparr>ca_node = event_nd, ca_flow = event_flow, ca_ctx = example_ctx, ca_result = PDict pending_state,
       ca_frames = [(event_flow, example_ctx, simple_node ''m'' ''map'' None)]\<rparr> example_ctx 0
    = (Inl (Exc flow_suspend_rejected_error), example_ctx, 0)"
  by (rule nested_suspension_parks_closed) (simp add: simple_node_def)

section \<open>What a resume decides\<close>

lemma get_node_state_eq:
  assumes "ctx_ok cx" and "en_node (cx_names cx) = ''NODE''" and "node_results cx = PDict d"
    and "dict_get d (nd_id n) = Some v"
  shows "get_node_state n cx = v"
proof -
  have k: "sys_key cx ''NODE'' = node_key cx" using assms(2) by (simp add: node_key_def)
  have "ck_getitem (cx_state cx) (node_key cx) = Some (PDict d)"
    using assms(3,4) by (auto simp: node_results_def get_state_def ck_get_def split: option.splits)
  then show ?thesis
    using assms(3,4) ck_getitem_contains
    by (auto simp: get_node_state_def k node_results_def pget_def Let_def)
qed

definition decided_status :: "resume_type \<Rightarrow> pyval \<Rightarrow> string" where
  "decided_status rt data =
     (case rt of RT_CANCEL \<Rightarrow> CANCELLED | RT_TIMEOUT \<Rightarrow> TIMEOUT
      | _ \<Rightarrow> if truthy data then COMPLETED else PENDING)"

lemma event_resume_result:
  assumes "event_resume n cx rt data = Inr st'" and "get_node_state n cx = PDict st" and "dict_wf st"
    and "dict_get st ''status'' = Some (PStr PENDING)"
  shows "dict_get st' ''status'' = Some (PStr (decided_status rt data))
    \<and> dict_get st' ''subscription_id'' \<in> {dict_get st ''subscription_id''}
    \<and> (rt = RT_EVENT \<and> truthy data \<longrightarrow> dict_get st' ''event_data'' = Some data)"
proof -
  have rev: "dict_wf x \<Longrightarrow> dict_get (rev x) k = dict_get x k" for x :: "pyval dict" and k
    by (simp add: dict_get_def dict_rev)
  show ?thesis
    using assms
    by (cases rt)
      (auto simp: event_resume_def on_cancel_def on_timeout_def on_event_def state_dict_def create_result_get rev
        decided_status_def split: if_splits option.splits)
qed

text \<open>
  A resume that succeeds settles the suspended node in one way: cancellation and timeout set their
  status; an event with a payload completes the node and stores the payload; an event whose
  payload is empty once the private binding key is removed leaves the node pending.  In every case the new
  state is recorded and returned, and the subscription is given up.
\<close>

theorem resume_settles_node:
  assumes "handle_root_resume H f rt data cx w = (Inr out, cx', w')"
    and "ctx_ok cx" and "en_node (cx_names cx) = ''NODE''" and "last_node_id cx = PStr k"
    and "node_results cx = PDict d" and "dict_get d k = Some (PDict st)" and "dict_wf st"
    and "\<forall>n w. result_payload (h_env H) n w = None"
  shows "\<exists>st' data'. gate_resume_carrier (PDict st) rt data = Inr data' \<and> o_result out = PDict st'
    \<and> node_results cx' = PDict (dict_set k (PDict st') d) \<and> \<not> o_is_suspend out
    \<and> dict_get st' ''status'' = Some (PStr (decided_status rt data'))
    \<and> dict_get st' ''subscription_id'' = dict_get st ''subscription_id''
    \<and> (rt = RT_EVENT \<and> truthy data' \<longrightarrow> dict_get st' ''event_data'' = Some data')
    \<and> w' = unregister_suspended_subscription H (PDict st) w"
proof -
  from assms(1,4,5,6) obtain n data' st' cx1 where
    n: "find_node_by_id f (Some k) = Inr (Some n)" "nd_suspending n"
    and g: "gate_resume_carrier (PDict st) rt data = Inr data'"
    and r: "event_resume n cx rt data' = Inr st'"
    and u: "update_node_result None (nd_id n) (PDict st') cx = Inr cx1"
    and o': "lazy_output_act n (PDict st') PNone False False cx1 (unregister_suspended_subscription H (PDict st) w) = (Inr out, cx', w')"
    using assms(8)
    by (auto simp: handle_root_resume_def resume_node_def abind_def acx_def alift_def aret_def araise_def aworld_def
        find_by_value_def results_get_def pget_def update_result_act_def
        split: if_splits sum.splits option.splits)
  have id: "nd_id n = k" using find_node_by_id_mem [OF n(1)] by simp
  have gs: "get_node_state n cx = PDict st"
    by (rule get_node_state_eq [OF assms(2,3,5)]) (simp add: id assms(6))
  have "dict_get st ''status'' = Some (PStr PENDING)"
  proof -
    have "py_eq (pget st ''status'' (PStr [])) (PStr PENDING)"
      using g by (auto simp: gate_resume_carrier_def Let_def split: if_splits)
    then show ?thesis
      by (cases "dict_get st ''status''"; cases "the (dict_get st ''status'')") (auto simp: pget_def PENDING_def)
  qed
  note E = event_resume_result [OF r gs assms(7) this]
  have "node_results cx1 = PDict (dict_set k (PDict st') d)"
    using update_node_result_inv [OF u assms(2,5)] get_set_state [OF assms(2) sys_keys_free(5) [OF assms(2)]]
    by (simp add: id node_results_def)
  with lazy_output_suspend [OF o'] g E show ?thesis by blast
qed

text \<open>
  The empty event: approving with nothing but the binding key gives up the subscription (the
  example bus counts that in the world) and reports an execution that is not suspended, while the
  node is still pending.
\<close>

theorem resume_settles_node_witness:
  "let H = example_host (\<lambda>_. Inr PNone);
       st = [(''status'', PStr ''pending''), (''subscription_id'', PStr ''sub1'')];
       cx = recorded event_nd (PDict st) [] example_ctx;
       data = PDict [(RESUME_BINDING_KEY, PStr ''sub1'')]
   in \<exists>out cx' st'. handle_root_resume H event_flow RT_EVENT data cx 0 = (Inr out, cx', 100) \<and> \<not> o_is_suspend out
      \<and> o_result out = PDict st' \<and> dict_get st' ''status'' = Some (PStr PENDING)"
proof -
  define H where "H = example_host (\<lambda>_. Inr PNone)"
  define st where "st = [(''status'', PStr ''pending''), (''subscription_id'', PStr ''sub1'')]"
  define cx where "cx = recorded event_nd (PDict st) [] example_ctx"
  define data where "data = PDict [(RESUME_BINDING_KEY, PStr ''sub1'')]"
  have sh: "shallow (PDict st)" by (rule small_shallow) (simp add: st_def)
  have ok: "ctx_ok cx" "ck_shallow (cx_state cx)" "node_results cx = PDict [(''ev'', PDict st)]" "last_node_id cx = PStr ''ev''"
    by (simp_all add: cx_def recorded_ok recorded_reads dict_set_def)
      (simp add: recorded_shallow sh small_shallow st_def dict_set_def)
  have nm: "en_node (cx_names cx) = ''NODE''" by (simp add: cx_def) (simp add: default_names_def)
  have pay: "result_payload (h_env H) n w = None" for n w by (simp add: H_def example_host_def script_env_def)
  have gate: "gate_resume_carrier (PDict st) RT_EVENT data = Inr (PDict [])"
    by (simp add: gate_resume_carrier_def data_def st_def resume_binding_violation_def pget_def dict_get_def Let_def
        PENDING_def RESUME_BINDING_KEY_def)
  have gs: "get_node_state event_nd cx = PDict st"
    by (rule get_node_state_eq [OF ok(1) nm ok(3)]) (simp add: dict_get_Cons)
  let ?r = "create_result event_nd st"
  have r: "event_resume event_nd cx RT_EVENT (PDict []) = Inr ?r"
    by (simp add: event_resume_def on_event_def gs state_dict_def)
  have rc: "?r = [(''event_type'', PStr ''order.paid''), (''event_filter'', PDict []), (''is_async'', PBool True),
      (''status'', PStr ''pending''), (''subscription_id'', PStr ''sub1'')]"
    by (simp add: create_result_def st_def dict_set_def)
  have shr: "shallow (PDict ?r)" by (rule small_shallow) (simp add: rc)
  let ?c = "set_state (node_key cx) (PDict (dict_set ''ev'' (PDict ?r) [(''ev'', PDict st)])) cx"
  have u: "update_node_result None ''ev'' (PDict ?r) cx = Inr ?c"
    by (rule update_node_result_eq [OF ok(1,3) shr])
  have "ctx_ok ?c" "ck_shallow (cx_state ?c)"
    using ok sys_keys_free(5) [OF ok(1)]
    by (auto intro!: set_state_ok set_state_shallow small_shallow simp: rc dict_set_def)
  then obtain dd where dd: "to_dict ?c = Inr dd" using to_dict_ok by blast
  have un: "unregister_suspended_subscription H (PDict st) 0 = 100"
    by (simp add: unregister_suspended_subscription_def H_def example_host_def st_def pget_def dict_get_def Let_def)
  have fn: "find_node_by_id event_flow (Some ''ev'') = Inr (Some event_nd)"
    by (simp add: event_flow_def find_node_by_id_def build_index_def dict_get_Cons) (simp add: simple_node_def dict_set_def dict_get_def)
  have res: "\<exists>out. handle_root_resume H event_flow RT_EVENT data cx 0 = (Inr out, ?c, 100)"
    by (simp add: handle_root_resume_def resume_node_def abind_def acx_def alift_def aret_def aworld_def
        find_by_value_def fn results_get_def pget_def dict_get_Cons update_result_act_def pay ok gate r u un lazy_output_act_cases dd)
  then obtain out where out: "handle_root_resume H event_flow RT_EVENT data cx 0 = (Inr out, ?c, 100)" ..
  have wf: "dict_wf st" by (simp add: st_def dict_wf_def)
  have "dict_get [(''ev'', PDict st)] ''ev'' = Some (PDict st)" by (simp add: dict_get_Cons)
  from resume_settles_node [OF out ok(1) nm ok(4,3) this wf] pay gate
  have "\<not> o_is_suspend out \<and> (\<exists>st'. o_result out = PDict st' \<and> dict_get st' ''status'' = Some (PStr PENDING))"
    by (auto simp: decided_status_def)
  with out show ?thesis
    unfolding Let_def H_def [symmetric] st_def [symmetric] data_def [symmetric] cx_def [symmetric] by blast
qed

section \<open>Continuing a stored execution\<close>

lemma scratch_not_field: "ctx_ok cx \<Longrightarrow> dict_has (scratch_bindings (cx_state cx)) k \<Longrightarrow> key_to_field (cx_state cx) k = None"
  by (auto simp: ctx_ok_def ckpt_inv_def)

lemma sys_keys_fields:
  assumes "ctx_ok cx" and "k \<in> {sys_key cx ''LAST_NODE'', sys_key cx ''BRANCH'', node_key cx}"
  shows "\<not> dict_has (scratch_bindings (cx_state cx)) k"
proof -
  let ?c = "cx_state cx"
  have pre: "prefix ?c = PStr (en_prefix (cx_names cx))" "node_name ?c = en_node (cx_names cx)"
    using assms(1) by (auto simp: ctx_ok_def ckpt_inv_def names_agree_def)
  have "field_to_key ?c LAST_NODE_ID = sys_key cx ''LAST_NODE''" "field_to_key ?c LAST_BRANCH = sys_key cx ''BRANCH''"
    "field_to_key ?c NODE_RESULTS = node_key cx"
    by (simp_all add: field_to_key_def key_of_def pre sys_key_def node_key_def)
  then have "\<exists>f \<in> set all_fields. field_to_key ?c f = k" using assms(2) by (auto simp: all_fields_def)
  then have "key_to_field ?c k \<noteq> None" by (auto simp: key_to_field_def find_None_iff)
  with scratch_not_field [OF assms(1)] show ?thesis by auto
qed

definition successor_step :: "'w host \<Rightarrow> flow \<Rightarrow> int option \<Rightarrow> exc + node option \<Rightarrow> (lazy_out, 'w) act" where
  "successor_step H f max_ms nx =
     (case nx of
        Inl e \<Rightarrow> araise (Exc e)
      | Inr None \<Rightarrow> abind acx (\<lambda>cx. end_output_act None (node_results cx))
      | Inr (Some m) \<Rightarrow> execute_current_node H f m max_ms)"

lemma step_from_last:
  assumes "last_node_id cx = PStr k" and "k \<noteq> []" and "find_node_by_id f (Some k) = Inr (Some n)"
    and "node_results cx = PDict d"
  shows "distributed_step H f max_ms cx w = successor_step H f max_ms (successor f n (last_branch cx)) cx w"
proof -
  have "determine_current_node H f max_ms cx w = alift (successor f n (last_branch cx)) cx w"
    using assms
    by (simp add: determine_current_node_def get_next_from_last_def abind_def acx_def alift_def aret_def
        find_by_value_def results_get_def)
  then show ?thesis
    by (auto simp: distributed_step_def successor_step_def alift_def aret_def araise_def abind_def acx_def
        split: sum.splits option.splits)
qed

text \<open>
  Property C3.  Stepping through stored checkpoints follows the same path as running in process: when a node
  that does not suspend was executed and recorded, storing the context and continuing from the stored
  checkpoint (in a fresh context object) executes exactly the successor that the shared step
  would have taken for the recorded branch, or ends the flow there, or fails as the shared step does
  on a dead end; the loaded context agrees with the stored one on everything but scratch bindings.
  The continuation is one that keeps the stored execution id.
\<close>

theorem continue_takes_the_successor:
  assumes "ctx_ok cx" and "cx1 = recorded n v d cx" and "to_dict cx1 = Inr saved" and "ck_shallow (cx_state cx1)"
    and "find_node_by_id f (Some (nd_id n)) = Inr (Some n)" and "nd_id n \<noteq> []" and "\<not> nd_suspending n"
    and "load_suspend_frames cx1 = []" and "cx_names cx0 = cx_names cx" and "rt \<in> {RT_CONTINUE, RT_RETRY}"
  shows "\<exists>cx2. (\<forall>k. ck_getitem (cx_state cx2) k =
        (if dict_has (scratch_bindings (cx_state cx1)) k then None else ck_getitem (cx_state cx1) k))
    \<and> distributed_execute fuel H f params t saved (PStr (resume_type_value rt)) data None cx0 w
      = Some (successor_step H f (Some (execution_deadline_ms (h_deadline H) t))
          (successor f n (if nd_branching n then v else PNone)) cx2 w)"
proof -
  have ok: "ctx_ok cx1" using recorded_ok [OF assms(1)] by (simp add: assms(2))
  have nm: "cx_names cx0 = cx_names cx1" by (simp add: assms(2,9))
  obtain cx2 where L: "load_context saved cx0 = Inr cx2" and N: "cx_names cx2 = cx_names cx1"
    and G: "\<And>k. ck_getitem (cx_state cx2) k = (if dict_has (scratch_bindings (cx_state cx1)) k then None else ck_getitem (cx_state cx1) k)"
    using store_load [OF ok assms(3,4) nm] by blast
  have key: "sys_key cx2 = sys_key cx1" "node_key cx2 = node_key cx1" by (simp_all add: sys_key_def node_key_def N fun_eq_iff)
  have same: "get_state cx2 k x = get_state cx1 k x"
    if "k \<in> {sys_key cx1 ''LAST_NODE'', sys_key cx1 ''BRANCH'', node_key cx1}" for k x
    using sys_keys_fields [OF ok that] by (simp add: get_state_def ck_get_def G)
  have R: "last_node_id cx2 = PStr (nd_id n)" "last_branch cx2 = (if nd_branching n then v else PNone)"
    "node_results cx2 = PDict (dict_set (nd_id n) v d)"
    using recorded_reads [OF assms(1), of n v d] same
    by (simp_all add: last_node_id_def last_branch_def node_results_def key assms(2))
  have F: "load_suspend_frames cx2 = []"
    using assms(8) G [of "sys_key cx1 SUSPEND_FRAMES_KEY"]
    by (auto simp: load_suspend_frames_def get_state_def ck_get_def key split: pyval.splits option.splits if_splits)
  have guard: "continue_guard f cx2 w = (Inr (), cx2, w)"
    using R assms(5,7) F
    by (simp add: continue_guard_def abind_def acx_def alift_def aret_def find_by_value_def)
  have ne: "saved \<noteq> []"
  proof
    assume "saved = []"
    with L have "ck_getitem (cx_state cx2) k = None" for k
      by (auto simp: load_context_def from_checkpoint_dict_def pget_def)
    with R(1) show False by (simp add: last_node_id_def get_state_def ck_get_def)
  qed
  note LS = load_or_start_saved [OF ne L, of H f params None w, unfolded pin_nothing]
  note S = step_from_last [OF R(1) assms(6,5) R(3), of H "Some (execution_deadline_ms (h_deadline H) t)" w]
  have "distributed_execute fuel H f params t saved (PStr (resume_type_value rt)) data None cx0 w
      = Some (distributed_step H f (Some (execution_deadline_ms (h_deadline H) t)) cx2 w)"
    using ne
    by (simp only: distributed_execute_def Let_def pbind_def resume_type_roundtrip alift_def sum.case aret_def
        prod.case LS guard not_False_eq_True if_True simp_thms assms(10) if_False pret_def)
  with S R(2) G show ?thesis by (intro exI [of _ cx2]) simp
qed

theorem continue_takes_the_successor_witness:
  "\<exists>saved cx2. to_dict (recorded (simple_node ''s'' ''start'' (Some ''e'')) (PInt 1) [] example_ctx) = Inr saved
     \<and> distributed_execute 1 (example_host (\<lambda>_. Inr PNone)) line_flow [] None saved (PStr ''continue'') PNone None example_ctx 0
       = Some (execute_current_node (example_host (\<lambda>_. Inr PNone)) line_flow (simple_node ''e'' ''end'' None) (Some 1000) cx2 0)"
proof -
  let ?n = "simple_node ''s'' ''start'' (Some ''e'')" let ?H = "example_host (\<lambda>_. Inr PNone)"
  let ?c = "recorded ?n (PInt 1) [] example_ctx"
  have n: "nd_id ?n = ''s''" "\<not> nd_suspending ?n" "\<not> nd_branching ?n" by (simp_all add: simple_node_def)
  have sh: "shallow (PInt 1)" by (rule small_shallow) simp
  have c: "ctx_ok ?c" "ck_shallow (cx_state ?c)"
    by (simp_all add: recorded_ok recorded_shallow sh small_shallow dict_set_def)
  then obtain saved where sv: "to_dict ?c = Inr saved" using to_dict_ok by blast
  have fn: "find_node_by_id line_flow (Some (nd_id ?n)) = Inr (Some ?n)"
    by (simp add: find_node_by_id_def line_flow_def build_index_def simple_node_def)
  have k: "sys_key example_ctx s = ''$'' @ s" "node_key example_ctx = ''$NODE''" for s
    by (simp_all add: sys_key_def node_key_def) (simp_all add: default_names_def)
  have fr: "load_suspend_frames ?c = []"
    by (simp add: load_suspend_frames_def recorded_get k SUSPEND_FRAMES_KEY_def example_ctx_get)
  have su: "successor line_flow ?n PNone = Inr (Some (simple_node ''e'' ''end'' None))"
    by (simp add: successor_def next_node_def is_end_node_def branch_str_def get_target_node_def str_truthy_def
        find_node_by_id_def line_flow_def build_index_def simple_node_def)
  have dl: "execution_deadline_ms (h_deadline ?H) None = 1000"
    by (simp add: execution_deadline_ms_def example_host_def)
  from continue_takes_the_successor [OF example_ctx_ok refl sv c(2) fn _ n(2) fr, of example_ctx RT_CONTINUE 1 ?H "[]" None PNone 0]
  show ?thesis
    using sv by (auto simp: n su dl successor_step_def resume_type_value_def)
qed

section \<open>A stored execution that suspends\<close>

lemma loaded_names: "from_checkpoint_dict d ns = Inr c \<Longrightarrow> names_agree ns c"
proof -
  have "names_agree ns (fold (\<lambda>p. ck_setitem (fst p) (snd p)) es c0)" if "names_agree ns c0" for es c0
    using that by (induction es arbitrary: c0) auto
  then show "from_checkpoint_dict d ns = Inr c \<Longrightarrow> names_agree ns c"
    by (auto simp: from_checkpoint_dict_def rbind_eq_Inr_iff)
qed

definition parking_flow :: flow where
  "parking_flow = Flow (Some ''f'') [simple_node ''s'' ''start'' (Some ''ev''), event_nd, simple_node ''e'' ''end'' None] PNone [] []"

definition parked_from :: "pyval dict" where
  "parked_from = [(''$LAST_NODE'', PStr ''s''), (''$NODE'', PDict [(''s'', PInt 1)])]"

lemma parked_from_loads:
  obtains cx where "load_context parked_from example_ctx = Inr cx" "ctx_ok cx" "ck_shallow (cx_state cx)"
    "last_node_id cx = PStr ''s''" "node_results cx = PDict [(''s'', PInt 1)]" "load_suspend_frames cx = []"
proof -
  have sh: "shallow v" if "dict_get parked_from k = Some v" for k v
    using that by (auto intro!: small_shallow simp: parked_from_def dict_get_Cons split: if_splits)
  have wf: "dict_wf parked_from" by (simp add: parked_from_def dict_wf_def)
  have pre: "pget parked_from EXPRESS_PREFIX p = p" for p by (simp add: parked_from_def pget_def dict_get_Cons)
  obtain c where c: "from_checkpoint_dict parked_from default_names = Inr c"
    "ckpt_inv (PStr (en_prefix default_names)) c" "\<And>k. ck_getitem c k = dict_get parked_from k"
    using from_checkpoint_dict_get [OF wf, of default_names] sh unfolding pre by blast
  let ?cx = "example_ctx\<lparr>cx_state := c\<rparr>"
  have k: "sys_key ?cx s = ''$'' @ s" for s by (simp add: sys_key_def) (simp add: default_names_def)
  have nk: "node_key ?cx = ''$NODE''" by (simp add: node_key_def k) (simp add: default_names_def)
  have "load_context parked_from example_ctx = Inr ?cx" using c(1) by (simp add: load_context_def)
  moreover have "ctx_ok ?cx" using c(2) loaded_names [OF c(1)] by (simp add: ctx_ok_def)
  moreover have "ck_shallow (cx_state ?cx)" using sh by (simp add: ck_shallow_def c(3))
  moreover have "last_node_id ?cx = PStr ''s''" "node_results ?cx = PDict [(''s'', PInt 1)]" "load_suspend_frames ?cx = []"
    by (simp_all add: last_node_id_def node_results_def load_suspend_frames_def get_state_def ck_get_def k nk c(3)
        parked_from_def dict_get_Cons SUSPEND_FRAMES_KEY_def)
  ultimately show thesis by (rule that)
qed

lemma event_node_suspends:
  defines "H \<equiv> example_host (\<lambda>_. Inr (PDict pending_state))"
  assumes "ctx_ok cx" and "ck_shallow (cx_state cx)" and "node_results cx = PDict [(''s'', PInt 1)]"
  shows "\<exists>out cx' w'. execute_current_node H f event_nd ms cx 0 = (Inr out, cx', w') \<and> o_is_suspend out"
proof -
  let ?v = "PDict pending_state" let ?d = "[(''s'', PInt 1), (''ev'', ?v)]" let ?c = "recorded event_nd ?v [(''s'', PInt 1)] cx"
  have sh: "shallow ?v" by (rule small_shallow) (simp add: pending_state_def)
  have R: "run_node_act (h_env H) f event_nd ms cx 0 = (Inr (?v, PNone), ?c, 1)"
    using script_run_node [OF assms(2,4) sh, of event_nd "\<lambda>_. Inr ?v" 0 f ms]
    by (simp add: H_def example_host_def)
  have c: "ctx_ok ?c" "ck_shallow (cx_state ?c)" "node_results ?c = PDict ?d"
    using assms(2,3)
    by (simp_all add: recorded_ok recorded_reads recorded_shallow sh small_shallow pending_state_def dict_set_def dict_get_Cons)
  let ?st = "subscribed_state event_nd (PStr ''sub1'') pending_state"
  have st: "?st = [(''status'', PStr ''pending''), (''subscription_id'', PStr ''sub1''), (''event_type'', PStr ''order.paid''),
      (''subscription_timeout'', PNone)]"
    by (simp add: subscribed_state_def pending_state_def dict_set_def pget_def dict_get_def opt_int_def)
  have sh2: "shallow (PDict ?st)" by (rule small_shallow) (simp add: st)
  let ?c2 = "set_state (node_key ?c) (PDict (dict_set ''ev'' (PDict ?st) ?d)) ?c"
  have U: "update_node_result None ''ev'' (PDict ?st) ?c = Inr ?c2"
    by (rule update_node_result_eq [OF c(1,3) sh2])
  have "ctx_ok ?c2" "ck_shallow (cx_state ?c2)"
    using c sys_keys_free(5) [OF c(1)]
    by (auto intro!: set_state_ok set_state_shallow small_shallow simp: st dict_set_def dict_get_Cons)
  then obtain d where "to_dict ?c2 = Inr d" using to_dict_ok by blast
  moreover have host: "h_register H = Some (\<lambda>_ w. (Inr (PStr ''sub1''), w))" "result_payload (h_env H) n w = None" for n w
    by (simp_all add: H_def example_host_def script_env_def)
  ultimately show ?thesis
    by (simp add: execute_current_node_def R abind_def subscribe_event_def Let_def update_result_act_def
        lazy_output_act_cases host U)
qed

lemma parked_from_suspends:
  "\<exists>out cx' w'. distributed_execute 1 (example_host (\<lambda>_. Inr (PDict pending_state))) parking_flow [] None parked_from
      (PStr (resume_type_value RT_CONTINUE)) PNone None example_ctx 0 = Some (Inr out, cx', w') \<and> o_is_suspend out"
proof -
  let ?H = "example_host (\<lambda>_. Inr (PDict pending_state))" let ?n = "simple_node ''s'' ''start'' (Some ''ev'')"
  obtain cx where L: "load_context parked_from example_ctx = Inr cx" and ok: "ctx_ok cx" "ck_shallow (cx_state cx)"
    and last: "last_node_id cx = PStr ''s''" and res: "node_results cx = PDict [(''s'', PInt 1)]" and fr: "load_suspend_frames cx = []"
    by (rule parked_from_loads)
  have fn: "find_node_by_id parking_flow (Some ''s'') = Inr (Some ?n)" "find_node_by_id parking_flow (Some ''ev'') = Inr (Some event_nd)"
    by (simp_all add: find_node_by_id_def parking_flow_def build_index_def dict_get_Cons dict_set_def)
      (simp_all add: simple_node_def dict_set_def)
  have su: "successor parking_flow ?n b = Inr (Some event_nd)" for b
    using fn(2) by (simp add: successor_def next_node_def is_end_node_def branch_str_def get_target_node_def str_truthy_def)
      (simp add: simple_node_def)
  have guard: "continue_guard parking_flow cx w = (Inr (), cx, w)" for w :: nat
    using last fn(1) fr
    by (simp add: continue_guard_def abind_def acx_def alift_def aret_def find_by_value_def) (simp add: simple_node_def)
  have ne: "parked_from \<noteq> []" by (simp add: parked_from_def)
  note LS = load_or_start_saved [OF ne L, of ?H parking_flow "[]" None 0, unfolded pin_nothing]
  note S = step_from_last [OF last _ fn(1) res, of ?H "Some (execution_deadline_ms (h_deadline ?H) None)" 0]
  have "distributed_execute 1 ?H parking_flow [] None parked_from (PStr (resume_type_value RT_CONTINUE)) PNone None example_ctx 0
      = Some (distributed_step ?H parking_flow (Some (execution_deadline_ms (h_deadline ?H) None)) cx 0)"
    using ne
    by (simp only: distributed_execute_def Let_def pbind_def resume_type_roundtrip alift_def sum.case aret_def
        prod.case LS guard not_False_eq_True if_True simp_thms if_False pret_def insert_iff)
  with S su event_node_suspends [OF ok res] show ?thesis by (simp add: successor_step_def)
qed

theorem suspended_step_is_subscribed_witness:
  "\<exists>out cx' w' d sid. distributed_execute 1 (example_host (\<lambda>_. Inr (PDict pending_state))) parking_flow [] None parked_from
      (PStr (resume_type_value RT_CONTINUE)) PNone None example_ctx 0 = Some (Inr out, cx', w')
    \<and> o_result out = PDict d \<and> dict_get d ''subscription_id'' = Some sid"
proof -
  obtain out cx' w' where x: "distributed_execute 1 (example_host (\<lambda>_. Inr (PDict pending_state))) parking_flow [] None parked_from
      (PStr (resume_type_value RT_CONTINUE)) PNone None example_ctx 0 = Some (Inr out, cx', w')" "o_is_suspend out"
    using parked_from_suspends by blast
  from suspended_step_is_subscribed [OF x refl] x(1) show ?thesis
    by (fastforce simp: subscribed_for_def parked_def)
qed

end
