(* ===== verification/Event_Bus.thy ===== *)
theory Event_Bus
  imports Event_Node "HOL-Library.Product_Lexorder"
begin

text \<open>
  \<^verbatim>\<open>plaita/event/core.py\<close> and \<^verbatim>\<open>plaita/event/memory.py\<close>: events and subscriptions, the
  matching rules, and the in-memory event bus with its event store, subscription store and
  processing tracker.  Identifiers drawn by \<open>uuid4\<close> and clock readings are arguments; times and
  delays are integers; a handler is an arbitrary function of the world that returns or fails with a
  message.  The locks make each store operation atomic.  Handlers with a retry policy run as
  tasks of their own; the model runs them in the order they are created.
\<close>

section \<open>Events and subscriptions\<close>

record event =
  ev_id :: string
  ev_type :: string
  ev_data :: "pyval dict"
  ev_timestamp :: int
  ev_source :: string
  ev_correlation :: "string option"
  ev_tenant :: "string option"

definition new_event :: "string \<Rightarrow> int \<Rightarrow> string \<Rightarrow> pyval dict \<Rightarrow> event" where
  "new_event uuid now ty data = \<lparr>ev_id = uuid, ev_type = ty, ev_data = data, ev_timestamp = now, ev_source = [],
     ev_correlation = None, ev_tenant = None\<rparr>"

definition bind_trusted_tenant :: "string \<Rightarrow> event \<Rightarrow> event" where
  "bind_trusted_tenant tenant e = (if ev_tenant e = None then e\<lparr>ev_tenant := Some tenant\<rparr> else e)"

text \<open>The attributes \<open>getattr(event, key)\<close> finds: the fields of the model class.\<close>

definition event_attr :: "event \<Rightarrow> string \<Rightarrow> pyval option" where
  "event_attr e k =
     (if k = ''event_id'' then Some (PStr (ev_id e))
      else if k = ''event_type'' then Some (PStr (ev_type e))
      else if k = ''data'' then Some (PDict (ev_data e))
      else if k = ''timestamp'' then Some (PInt (ev_timestamp e))
      else if k = ''source'' then Some (PStr (ev_source e))
      else if k = ''correlation_id'' then Some (opt_str (ev_correlation e))
      else if k = ''tenant_id'' then Some (opt_str (ev_tenant e))
      else None)"

record subscription =
  s_id :: string
  s_event_type :: string
  s_filter :: "pyval dict"
  s_correlation :: "string option"
  s_flow_id :: "string option"
  s_node_id :: "string option"
  s_created :: int
  s_timeout :: "int option"
  s_tenant :: "string option"
  s_processed :: "string list"

definition event_type_valid :: "string \<Rightarrow> bool" where
  "event_type_valid t \<longleftrightarrow> str_strip t \<noteq> []"

definition sub_mark_processed :: "string \<Rightarrow> subscription \<Rightarrow> subscription" where
  "sub_mark_processed eid s = s\<lparr>s_processed := List.insert eid (s_processed s)\<rparr>"

definition sub_is_processed :: "string \<Rightarrow> subscription \<Rightarrow> bool" where
  "sub_is_processed eid s \<longleftrightarrow> eid \<in> set (s_processed s)"

definition condition_holds :: "event \<Rightarrow> string \<times> pyval \<Rightarrow> bool" where
  "condition_holds e kv =
     (let key = fst kv in
      if CHR ''.'' \<in> set key then path_equals (PDict (ev_data e)) kv
      else case dict_get (ev_data e) key of
        Some v \<Rightarrow> py_eq v (snd kv)
      | None \<Rightarrow> (case event_attr e key of Some v \<Rightarrow> py_eq v (snd kv) | None \<Rightarrow> False))"

definition matches_event :: "subscription \<Rightarrow> event \<Rightarrow> pyval dict \<Rightarrow> bool" where
  "matches_event s e context =
     (let p = py_str (pget context ''EXPRESS_PREFIX'' (PStr ''$''));
          fid = pget context (p @ ''FLOW_ID'') PNone;
          nid = pget context (p @ ''LAST_NODE'') PNone in
      (s_event_type s \<noteq> [] \<longrightarrow> ev_type e = s_event_type s)
      \<and> (str_truthy (s_correlation s) \<longrightarrow> ev_correlation e = s_correlation s)
      \<and> (str_truthy (s_flow_id s) \<and> truthy fid \<longrightarrow> py_eq (opt_str (s_flow_id s)) fid)
      \<and> (str_truthy (s_node_id s) \<and> truthy nid \<longrightarrow> py_eq (opt_str (s_node_id s)) nid)
      \<and> list_all (condition_holds e) (s_filter s))"

section \<open>Event type patterns\<close>

text \<open>
  \<open>fnmatch.fnmatch\<close> on a case-sensitive platform: star, question mark and character classes with
  ranges and negation; a bracket that is never closed is itself.
\<close>

datatype pat_item = Star | AnyChar | Lit char | Cls bool "(char \<times> char) list"

fun class_ranges :: "string \<Rightarrow> (char \<times> char) list" where
  "class_ranges (a # m # b # cs) =
     (if m = CHR ''-'' then (a, b) # class_ranges cs else (a, a) # class_ranges (m # b # cs))"
| "class_ranges [a, b] = [(a, a), (b, b)]"
| "class_ranges [a] = [(a, a)]"
| "class_ranges [] = []"

definition split_close :: "string \<Rightarrow> (string \<times> string) option" where
  "split_close s =
     (let body = takeWhile (\<lambda>c. c \<noteq> CHR '']'') s; rest = dropWhile (\<lambda>c. c \<noteq> CHR '']'') s
      in case rest of [] \<Rightarrow> None | _ # r \<Rightarrow> Some (body, r))"

definition split_class :: "string \<Rightarrow> (bool \<times> string \<times> string) option" where
  "split_class s =
     (let neg = (s \<noteq> [] \<and> hd s = CHR ''!''); s1 = (if neg then tl s else s) in
      case s1 of
        c # cs \<Rightarrow>
          if c = CHR '']'' then map_option (\<lambda>(b, r). (neg, c # b, r)) (split_close cs)
          else map_option (\<lambda>(b, r). (neg, b, r)) (split_close s1)
      | [] \<Rightarrow> None)"

lemma split_close_length: "split_close s = Some (b, r) \<Longrightarrow> length r < length s"
proof -
  have "length (dropWhile P s) \<le> length s" for P :: "char \<Rightarrow> bool" by (rule length_dropWhile_le)
  then show "split_close s = Some (b, r) \<Longrightarrow> length r < length s"
    by (auto simp: split_close_def Let_def split: list.splits) (metis Suc_le_lessD length_Cons)
qed

lemma split_class_length: "split_class s = Some (n, b, r) \<Longrightarrow> length r < length s"
  by (cases s)
    (auto simp: split_class_def Let_def split: list.splits if_splits dest!: split_close_length)

function parse_pattern :: "string \<Rightarrow> pat_item list" where
  "parse_pattern [] = []"
| "parse_pattern (c # cs) =
     (if c = CHR ''*'' then Star # parse_pattern cs
      else if c = CHR ''?'' then AnyChar # parse_pattern cs
      else if c = CHR ''['' then
        (case split_class cs of
           None \<Rightarrow> Lit c # parse_pattern cs
         | Some (neg, body, rest) \<Rightarrow> Cls neg (class_ranges body) # parse_pattern rest)
      else Lit c # parse_pattern cs)"
  by pat_completeness auto
termination
  by (relation "measure length") (auto dest: split_class_length)

fun match_items :: "pat_item list \<Rightarrow> string \<Rightarrow> bool" where
  "match_items [] s = (s = [])"
| "match_items (Star # ps) [] = match_items ps []"
| "match_items (Star # ps) (c # cs) = (match_items ps (c # cs) \<or> match_items (Star # ps) cs)"
| "match_items (AnyChar # ps) s = (case s of [] \<Rightarrow> False | _ # cs \<Rightarrow> match_items ps cs)"
| "match_items (Lit a # ps) s = (case s of [] \<Rightarrow> False | c # cs \<Rightarrow> c = a \<and> match_items ps cs)"
| "match_items (Cls neg rs # ps) s =
     (case s of [] \<Rightarrow> False
      | c # cs \<Rightarrow> (neg \<noteq> list_ex (\<lambda>(a, b). a \<le> c \<and> c \<le> b) rs) \<and> match_items ps cs)"

definition fnmatch :: "string \<Rightarrow> string \<Rightarrow> bool" where
  "fnmatch name pat = match_items (parse_pattern pat) name"

definition matches_event_type :: "string option \<Rightarrow> string \<Rightarrow> bool" where
  "matches_event_type handler_type actual =
     (if \<not> str_truthy handler_type \<or> handler_type = Some ''*'' then True
      else if handler_type = Some actual then True
      else fnmatch actual (the handler_type))"

section \<open>Event store\<close>

record event_store =
  es_events :: "event dict"
  es_types :: "string list dict"

definition empty_store :: event_store where
  "empty_store = \<lparr>es_events = [], es_types = []\<rparr>"

definition type_index :: "event_store \<Rightarrow> string \<Rightarrow> string list" where
  "type_index st t = (case dict_get (es_types st) t of None \<Rightarrow> [] | Some ids \<Rightarrow> ids)"

definition store_event :: "event \<Rightarrow> event_store \<Rightarrow> event_store" where
  "store_event e st =
     st\<lparr>es_events := dict_set (ev_id e) e (es_events st),
        es_types := dict_set (ev_type e) (type_index st (ev_type e) @ [ev_id e]) (es_types st)\<rparr>"

definition get_event :: "event_store \<Rightarrow> string \<Rightarrow> event option" where
  "get_event st eid = dict_get (es_events st) eid"

definition py_take :: "int \<Rightarrow> 'a list \<Rightarrow> 'a list" where
  "py_take n xs = (if 0 \<le> n then take (nat n) xs else take (nat (int (length xs) + n)) xs)"

definition in_window :: "int option \<Rightarrow> int option \<Rightarrow> event \<Rightarrow> bool" where
  "in_window lo hi e \<longleftrightarrow> (case lo of None \<Rightarrow> True | Some t \<Rightarrow> \<not> ev_timestamp e < t)
     \<and> (case hi of None \<Rightarrow> True | Some t \<Rightarrow> \<not> ev_timestamp e > t)"

definition event_key :: "event \<Rightarrow> int \<times> string" where
  "event_key e = (ev_timestamp e, ev_id e)"

definition list_events :: "string option \<Rightarrow> int option \<Rightarrow> int option \<Rightarrow> int \<Rightarrow> event_store \<Rightarrow> event list" where
  "list_events ty lo hi limit st =
     (let ids = (if str_truthy ty then type_index st (the ty) else map fst (es_events st));
          found = filter (in_window lo hi) (List.map_filter (get_event st) ids)
      in py_take limit (sort_key event_key found))"

definition delete_event :: "string \<Rightarrow> event_store \<Rightarrow> bool \<times> event_store" where
  "delete_event eid st =
     (case get_event st eid of
        None \<Rightarrow> (False, st)
      | Some e \<Rightarrow>
          (True, st\<lparr>es_events := dict_del eid (es_events st),
             es_types := (if ev_id e \<in> set (type_index st (ev_type e))
               then dict_set (ev_type e) (remove1 (ev_id e) (type_index st (ev_type e))) (es_types st)
               else es_types st)\<rparr>))"

definition batch_store_events :: "event list \<Rightarrow> event_store \<Rightarrow> string list \<times> event_store" where
  "batch_store_events es st = (map ev_id es, fold store_event es st)"

section \<open>Subscription store\<close>

type_synonym sub_store = "subscription dict"

definition store_subscription :: "subscription \<Rightarrow> sub_store \<Rightarrow> sub_store" where
  "store_subscription s st = dict_set (s_id s) s st"

definition get_subscription :: "sub_store \<Rightarrow> string \<Rightarrow> subscription option" where
  "get_subscription st sid = dict_get st sid"

definition list_subscriptions ::
  "string option \<Rightarrow> string option \<Rightarrow> string option \<Rightarrow> string option \<Rightarrow> sub_store \<Rightarrow> subscription list" where
  "list_subscriptions ty corr fid nid st =
     filter (\<lambda>s. (str_truthy ty \<longrightarrow> Some (s_event_type s) = ty) \<and> (str_truthy corr \<longrightarrow> s_correlation s = corr)
         \<and> (str_truthy fid \<longrightarrow> s_flow_id s = fid) \<and> (str_truthy nid \<longrightarrow> s_node_id s = nid)) (map snd st)"

definition delete_subscription :: "string \<Rightarrow> sub_store \<Rightarrow> bool \<times> sub_store" where
  "delete_subscription sid st = (if dict_has st sid then (True, dict_del sid st) else (False, st))"

definition sub_store_mark :: "string \<Rightarrow> string \<Rightarrow> sub_store \<Rightarrow> bool \<times> sub_store" where
  "sub_store_mark sid eid st =
     (case dict_get st sid of
        None \<Rightarrow> (False, st)
      | Some s \<Rightarrow> (True, dict_set sid (sub_mark_processed eid s) st))"

definition batch_mark_processed :: "string \<Rightarrow> string list \<Rightarrow> sub_store \<Rightarrow> bool \<times> sub_store" where
  "batch_mark_processed sid eids st =
     (case dict_get st sid of
        None \<Rightarrow> (False, st)
      | Some s \<Rightarrow> (True, dict_set sid (fold sub_mark_processed eids s) st))"

definition find_unprocessed :: "event \<Rightarrow> sub_store \<Rightarrow> subscription list \<times> sub_store" where
  "find_unprocessed e st =
     (let hit = (\<lambda>s. matches_event s e [] \<and> \<not> sub_is_processed (ev_id e) s) in
      (map (sub_mark_processed (ev_id e)) (filter hit (map snd st)),
       map (\<lambda>(k, s). (k, if hit s then sub_mark_processed (ev_id e) s else s)) st))"

section \<open>Processing tracker\<close>

record attempt_record =
  ar_handler :: string
  ar_status :: string
  ar_timestamp :: int
  ar_error :: "string option"

record tracker =
  tr_records :: "int dict dict"
  tr_history :: "attempt_record list dict"

definition empty_tracker :: tracker where
  "empty_tracker = \<lparr>tr_records = [], tr_history = []\<rparr>"

definition records_of :: "tracker \<Rightarrow> string \<Rightarrow> int dict" where
  "records_of t eid = (case dict_get (tr_records t) eid of None \<Rightarrow> [] | Some r \<Rightarrow> r)"

definition mark_event_processed :: "int \<Rightarrow> string \<Rightarrow> string \<Rightarrow> tracker \<Rightarrow> bool \<times> tracker" where
  "mark_event_processed now eid hid t =
     (let r = records_of t eid in
      if dict_has r hid then (False, t\<lparr>tr_records := dict_set eid r (tr_records t)\<rparr>)
      else (True, t\<lparr>tr_records := dict_set eid (dict_set hid now r) (tr_records t)\<rparr>))"

definition is_event_processed :: "string \<Rightarrow> string \<Rightarrow> tracker \<Rightarrow> bool" where
  "is_event_processed eid hid t \<longleftrightarrow> dict_has (tr_records t) eid \<and> dict_has (records_of t eid) hid"

definition cleanup_old_records :: "int \<Rightarrow> int \<Rightarrow> tracker \<Rightarrow> nat \<times> tracker" where
  "cleanup_old_records now max_age t =
     (let old = (\<lambda>r :: string \<times> int. now - snd r > max_age);
          kept = map (\<lambda>(eid, r). (eid, filter (\<lambda>x. \<not> old x) r)) (tr_records t);
          hist = map (\<lambda>(eid, h). (eid, filter (\<lambda>a. now - ar_timestamp a \<le> max_age) h)) (tr_history t)
      in (sum_list (map (\<lambda>(eid, r). length (filter old r)) (tr_records t)),
          t\<lparr>tr_records := filter (\<lambda>(eid, r). r \<noteq> []) kept, tr_history := filter (\<lambda>(eid, h). h \<noteq> []) hist\<rparr>))"

definition get_processing_history :: "tracker \<Rightarrow> string \<Rightarrow> attempt_record list" where
  "get_processing_history t eid = (case dict_get (tr_history t) eid of None \<Rightarrow> [] | Some h \<Rightarrow> h)"

definition record_processing_attempt ::
  "int \<Rightarrow> string \<Rightarrow> string \<Rightarrow> string \<Rightarrow> string option \<Rightarrow> tracker \<Rightarrow> tracker" where
  "record_processing_attempt now eid hid status err t =
     t\<lparr>tr_history := dict_set eid
        (get_processing_history t eid @ [\<lparr>ar_handler = hid, ar_status = status, ar_timestamp = now, ar_error = err\<rparr>])
        (tr_history t)\<rparr>"

section \<open>The bus\<close>

record retry_policy =
  rp_max_retries :: int
  rp_initial_delay :: int
  rp_backoff_factor :: int
  rp_max_delay :: int

record 'w handler =
  hd_run :: "event \<Rightarrow> 'w \<Rightarrow> string option \<times> 'w"
  hd_event_type :: "string option"
  hd_filter :: "pyval dict"
  hd_retry :: "retry_policy option"

record 'w bus =
  bus_events :: event_store
  bus_subs :: sub_store
  bus_tracker :: tracker
  bus_handlers :: "'w handler dict"
  bus_waiting :: "nat list dict"
  bus_resolved :: "(nat \<times> event) list"

definition empty_bus :: "'w bus" where
  "empty_bus = \<lparr>bus_events = empty_store, bus_subs = [], bus_tracker = empty_tracker, bus_handlers = [],
     bus_waiting = [], bus_resolved = []\<rparr>"

text \<open>The clock, the task sleep and the tenant the bus runs under.\<close>

record 'w bus_env =
  be_time :: "'w \<Rightarrow> int \<times> 'w"
  be_sleep :: "int \<Rightarrow> 'w \<Rightarrow> 'w"
  be_uuid :: "'w \<Rightarrow> string \<times> 'w"
  be_tenant :: string

text \<open>
  The filter of a handler is tested with a throw-away subscription for the handler's event type
  (\<open>*\<close> when it has none).
\<close>

definition handler_subscription :: "'w handler \<Rightarrow> subscription" where
  "handler_subscription h = \<lparr>s_id = [],
     s_event_type = (case hd_event_type h of Some (c # cs) \<Rightarrow> c # cs | _ \<Rightarrow> ''*''), s_filter = hd_filter h,
     s_correlation = None, s_flow_id = None, s_node_id = None, s_created = 0, s_timeout = None, s_tenant = None,
     s_processed = []\<rparr>"

definition handler_selected :: "bool \<Rightarrow> event \<Rightarrow> tracker \<Rightarrow> string \<times> 'w handler \<Rightarrow> bool" where
  "handler_selected prevent_dup e t ih =
     (case ih of (hid, h) \<Rightarrow>
        matches_event_type (hd_event_type h) (ev_type e)
        \<and> (hd_filter h \<noteq> [] \<longrightarrow> matches_event (handler_subscription h) e [])
        \<and> (prevent_dup \<longrightarrow> \<not> is_event_processed (ev_id e) hid t))"

definition finish_success :: "'w bus_env \<Rightarrow> event \<Rightarrow> string \<Rightarrow> tracker \<Rightarrow> 'w \<Rightarrow> tracker \<times> 'w" where
  "finish_success B e hid t w =
     (let (t1, w1) = be_time B w;
          tr = snd (mark_event_processed t1 (ev_id e) hid t);
          (t2, w2) = be_time B w1
      in (record_processing_attempt t2 (ev_id e) hid ''success'' None tr, w2))"

definition process_event :: "'w bus_env \<Rightarrow> 'w handler \<Rightarrow> event \<Rightarrow> string \<Rightarrow> tracker \<Rightarrow> 'w \<Rightarrow> tracker \<times> 'w" where
  "process_event B h e hid t w =
     (let (r, w1) = hd_run h e w in
      case r of
        None \<Rightarrow> finish_success B e hid t w1
      | Some err \<Rightarrow>
          (let (now, w2) = be_time B w1 in
           (record_processing_attempt now (ev_id e) hid ''error'' (Some err) t, w2)))"

text \<open>
  \<open>_process_with_retry\<close>: \<open>left\<close> counts the attempts before the loop must stop, \<open>retries\<close> the
  failures so far.  The log lists the delays slept.
\<close>

fun retry_attempts ::
  "nat \<Rightarrow> 'w bus_env \<Rightarrow> retry_policy \<Rightarrow> 'w handler \<Rightarrow> event \<Rightarrow> string \<Rightarrow> int \<Rightarrow> int \<Rightarrow> tracker \<Rightarrow> 'w \<Rightarrow>
     (int list \<times> tracker \<times> 'w) option" where
  "retry_attempts 0 B p h e hid retries delay t w = None"
| "retry_attempts (Suc fuel) B p h e hid retries delay t w =
     (let (r, w1) = hd_run h e w in
      case r of
        None \<Rightarrow> (let (t', w2) = finish_success B e hid t w1 in Some ([], t', w2))
      | Some err \<Rightarrow>
          (let retries' = retries + 1;
               (now, w2) = be_time B w1;
               t1 = record_processing_attempt now (ev_id e) hid (''error (retry '' @ int_str retries' @ '')'') (Some err) t in
           if retries' \<ge> rp_max_retries p then
             (let (now', w3) = be_time B w2
              in Some ([], record_processing_attempt now' (ev_id e) hid ''failed'' (Some ''max retries'') t1, w3))
           else
             (let delay' = min (delay * rp_backoff_factor p) (rp_max_delay p) in
              map_option (\<lambda>(ds, x). (delay' # ds, x))
                (retry_attempts fuel B p h e hid retries' delay' t1 (be_sleep B delay' w2)))))"

definition retry_fuel :: "retry_policy \<Rightarrow> nat" where
  "retry_fuel p = Suc (nat (rp_max_retries p))"

definition process_with_retry ::
  "'w bus_env \<Rightarrow> retry_policy \<Rightarrow> 'w handler \<Rightarrow> event \<Rightarrow> string \<Rightarrow> tracker \<Rightarrow> 'w \<Rightarrow> (int list \<times> tracker \<times> 'w) option" where
  "process_with_retry B p h e hid t w = retry_attempts (retry_fuel p) B p h e hid 0 (rp_initial_delay p) t w"

definition process_one :: "'w bus_env \<Rightarrow> event \<Rightarrow> string \<times> 'w handler \<Rightarrow> tracker \<times> 'w \<Rightarrow> tracker \<times> 'w" where
  "process_one B e ih tw =
     (case ih of (hid, h) \<Rightarrow>
        (case hd_retry h of
           None \<Rightarrow> process_event B h e hid (fst tw) (snd tw)
         | Some p \<Rightarrow>
             (case process_with_retry B p h e hid (fst tw) (snd tw) of Some (_, t', w') \<Rightarrow> (t', w') | None \<Rightarrow> tw)))"

definition dispatch_event :: "'w bus_env \<Rightarrow> event \<Rightarrow> bool \<Rightarrow> 'w bus \<Rightarrow> 'w \<Rightarrow> 'w bus \<times> 'w" where
  "dispatch_event B e prevent_dup b w =
     (let chosen = filter (handler_selected prevent_dup e (bus_tracker b)) (bus_handlers b);
          (t', w') = fold (process_one B e) chosen (bus_tracker b, w)
      in (b\<lparr>bus_tracker := t'\<rparr>, w'))"

section \<open>Publishing\<close>

datatype pub = PubEvent event | PubStr string "pyval dict" | PubDict "pyval dict"

definition fresh_event :: "'w bus_env \<Rightarrow> string \<Rightarrow> pyval dict \<Rightarrow> 'w \<Rightarrow> event \<times> 'w" where
  "fresh_event B t data w =
     (let (uuid, w1) = be_uuid B w; (now, w2) = be_time B w1 in (new_event uuid now t data, w2))"

definition pub_event :: "'w bus_env \<Rightarrow> pub \<Rightarrow> 'w \<Rightarrow> (exc + event) \<times> 'w" where
  "pub_event B p w =
     (case p of
        PubEvent e \<Rightarrow> (Inr e, w)
      | PubStr t kwargs \<Rightarrow> (let (e, w') = fresh_event B t kwargs w in (Inr e, w'))
      | PubDict d \<Rightarrow>
          (case dict_get d ''event_type'' of
             Some (PStr t) \<Rightarrow> (let (e, w') = fresh_event B t (dict_del ''event_type'' d) w in (Inr e, w'))
           | _ \<Rightarrow> (Inl (plain_exc (Builtin ValueError)), w)))"

text \<open>Futures waiting for the type are resolved with the event and leave the list.\<close>

definition resolve_waiters :: "event \<Rightarrow> 'w bus \<Rightarrow> 'w bus" where
  "resolve_waiters e b =
     (case dict_get (bus_waiting b) (ev_type e) of
        None \<Rightarrow> b
      | Some fs \<Rightarrow> b\<lparr>bus_resolved := bus_resolved b @ map (\<lambda>i. (i, e)) fs,
                      bus_waiting := dict_set (ev_type e) [] (bus_waiting b)\<rparr>)"

text \<open>\<open>publish\<close> with the dispatch task run to completion, as \<open>publish_sync\<close> does.\<close>

definition publish :: "'w bus_env \<Rightarrow> pub \<Rightarrow> bool \<Rightarrow> 'w bus \<Rightarrow> 'w \<Rightarrow> (exc + string) \<times> 'w bus \<times> 'w" where
  "publish B p prevent_dup b w =
     (case pub_event B p w of
        (Inl e, w2) \<Rightarrow> (Inl e, b, w2)
      | (Inr e0, w2) \<Rightarrow>
          (let e = bind_trusted_tenant (be_tenant B) e0;
               b1 = resolve_waiters e (b\<lparr>bus_events := store_event e (bus_events b)\<rparr>);
               (b2, w3) = dispatch_event B e prevent_dup b1 w2
           in (Inr (ev_id e), b2, w3)))"

text \<open>\<open>batch_publish\<close>: everything is normalised and stored first, then resolved and dispatched in order.\<close>

fun normalize_all :: "'w bus_env \<Rightarrow> pub list \<Rightarrow> 'w \<Rightarrow> (exc + event list) \<times> 'w" where
  "normalize_all B [] w = (Inr [], w)"
| "normalize_all B (p # ps) w =
     (case pub_event B p w of
        (Inl e, w2) \<Rightarrow> (Inl e, w2)
      | (Inr e, w2) \<Rightarrow>
          (case normalize_all B ps w2 of
             (Inl x, w3) \<Rightarrow> (Inl x, w3)
           | (Inr es, w3) \<Rightarrow> (Inr (bind_trusted_tenant (be_tenant B) e # es), w3)))"

definition batch_publish :: "'w bus_env \<Rightarrow> pub list \<Rightarrow> bool \<Rightarrow> 'w bus \<Rightarrow> 'w \<Rightarrow> (exc + string list) \<times> 'w bus \<times> 'w" where
  "batch_publish B ps prevent_dup b w =
     (case normalize_all B ps w of
        (Inl e, w1) \<Rightarrow> (Inl e, b, w1)
      | (Inr es, w1) \<Rightarrow>
          (let (ids, st) = batch_store_events es (bus_events b);
               (b2, w2) = fold (\<lambda>e (b', w'). dispatch_event B e prevent_dup (resolve_waiters e b') w') es
                 (b\<lparr>bus_events := st\<rparr>, w1)
           in (Inr ids, b2, w2)))"

definition register_subscription ::
  "'w bus_env \<Rightarrow> string \<Rightarrow> pyval dict \<Rightarrow> string option \<Rightarrow> string option \<Rightarrow> string option \<Rightarrow> int option \<Rightarrow> string option \<Rightarrow>
     'w bus \<Rightarrow> 'w \<Rightarrow> (exc + string) \<times> 'w bus \<times> 'w" where
  "register_subscription B ty flt corr fid nid tmo tenant b w =
     (if \<not> event_type_valid ty then (Inl (plain_exc (Builtin ValueError)), b, w)
      else let (uuid, w1) = be_uuid B w; (now, w2) = be_time B w1;
           s = \<lparr>s_id = uuid, s_event_type = ty, s_filter = flt, s_correlation = corr, s_flow_id = fid, s_node_id = nid,
                s_created = now, s_timeout = tmo, s_tenant = tenant, s_processed = []\<rparr>
         in (Inr uuid, b\<lparr>bus_subs := store_subscription s (bus_subs b)\<rparr>, w2))"

definition unregister_subscription :: "string \<Rightarrow> 'w bus \<Rightarrow> bool \<times> 'w bus" where
  "unregister_subscription sid b =
     (let (ok, st) = delete_subscription sid (bus_subs b) in (ok, b\<lparr>bus_subs := st\<rparr>))"

definition register_handler :: "string \<Rightarrow> 'w handler \<Rightarrow> 'w bus \<Rightarrow> string \<times> 'w bus" where
  "register_handler uuid h b = (uuid, b\<lparr>bus_handlers := dict_set uuid h (bus_handlers b)\<rparr>)"

definition unregister_handler :: "string \<Rightarrow> 'w bus \<Rightarrow> bool \<times> 'w bus" where
  "unregister_handler hid b =
     (if dict_has (bus_handlers b) hid then (True, b\<lparr>bus_handlers := dict_del hid (bus_handlers b)\<rparr>)
      else (False, b))"

definition bus_get_event :: "'w bus \<Rightarrow> string \<Rightarrow> exc + event" where
  "bus_get_event b eid =
     (case get_event (bus_events b) eid of None \<Rightarrow> Inl (plain_exc OtherError) | Some e \<Rightarrow> Inr e)"

section \<open>The stores are keyed stores\<close>

interpretation subs: py_dict get_subscription "\<lambda>_. store_subscription" dict_wf "\<lambda>k s. s_id s = k"
    "\<lambda>k st. snd (delete_subscription k st)"
  by unfold_locales
    (auto simp: get_subscription_def store_subscription_def delete_subscription_def dict_get_None_iff)

interpretation evs: py_dict get_event "\<lambda>_. store_event" "\<lambda>st. dict_wf (es_events st)" "\<lambda>k e. ev_id e = k"
    "\<lambda>k st. snd (delete_event k st)"
  by unfold_locales (auto simp: get_event_def store_event_def delete_event_def split: option.splits)

section \<open>The event store\<close>

text \<open>The stores that arise when every stored event has an id of its own.\<close>

inductive fresh_store :: "event_store \<Rightarrow> bool" where
  fs_empty: "fresh_store empty_store"
| fs_store: "fresh_store st \<Longrightarrow> get_event st (ev_id e) = None \<Longrightarrow> fresh_store (store_event e st)"
| fs_delete: "fresh_store st \<Longrightarrow> fresh_store (snd (delete_event eid st))"

definition index_ok :: "event_store \<Rightarrow> bool" where
  "index_ok st \<longleftrightarrow> dict_wf (es_events st) \<and> (\<forall>k e. get_event st k = Some e \<longrightarrow> ev_id e = k)
     \<and> (\<forall>t. distinct (type_index st t)
          \<and> (\<forall>i. i \<in> set (type_index st t) \<longleftrightarrow> (\<exists>e. get_event st i = Some e \<and> ev_type e = t)))"

lemma type_index_store: "type_index (store_event e st) t = (if t = ev_type e then type_index st t @ [ev_id e] else type_index st t)"
  by (simp add: type_index_def store_event_def)

lemma get_store_event: "get_event (store_event e st) k = (if k = ev_id e then Some e else get_event st k)"
  by (simp add: get_event_def store_event_def)

lemma delete_event_Some:
  assumes "get_event st eid = Some e"
  shows "get_event (snd (delete_event eid st)) k = (if k = eid then None else get_event st k)"
    and "type_index (snd (delete_event eid st)) t = (if t = ev_type e then remove1 (ev_id e) (type_index st t) else type_index st t)"
  using assms by (auto simp: delete_event_def get_event_def type_index_def remove1_idem split: option.splits)

lemma fresh_store_index: "fresh_store st \<Longrightarrow> index_ok st"
proof (induction rule: fresh_store.induct)
  case fs_empty
  then show ?case by (simp add: index_ok_def empty_store_def get_event_def type_index_def)
next
  case (fs_store st e)
  have new: "ev_id e \<notin> set (type_index st t)" for t
    using fs_store by (auto simp: index_ok_def)
  have wf: "dict_wf (es_events (store_event e st))" using fs_store.IH by (simp add: index_ok_def store_event_def)
  have ty: "distinct (type_index (store_event e st) t)
      \<and> (i \<in> set (type_index (store_event e st) t) \<longleftrightarrow> (\<exists>x. get_event (store_event e st) i = Some x \<and> ev_type x = t))" for t i
    using fs_store.IH fs_store.hyps(2) new [of t]
    by (auto simp: index_ok_def type_index_store get_store_event)
  from fs_store.IH wf ty show ?case by (auto simp: index_ok_def get_store_event)
next
  case (fs_delete st eid)
  show ?case
  proof (cases "get_event st eid")
    case None
    then show ?thesis using fs_delete by (simp add: delete_event_def)
  next
    case (Some e)
    have id: "ev_id e = eid" using Some fs_delete.IH by (auto simp: index_ok_def)
    have wf: "dict_wf (es_events (snd (delete_event eid st)))"
      using fs_delete.IH by (auto simp: index_ok_def delete_event_def split: option.splits)
    have ty: "distinct (type_index (snd (delete_event eid st)) t)
        \<and> (i \<in> set (type_index (snd (delete_event eid st)) t)
            \<longleftrightarrow> (\<exists>x. get_event (snd (delete_event eid st)) i = Some x \<and> ev_type x = t))" for t i
      using fs_delete.IH Some id
      by (auto simp: index_ok_def delete_event_Some [OF Some])
    from fs_delete.IH wf ty show ?thesis
      by (auto simp: index_ok_def delete_event_Some [OF Some] split: if_splits)
  qed
qed

lemma map_filter_set: "set (List.map_filter f xs) = {y. \<exists>x \<in> set xs. f x = Some y}"
  by (induction xs) (auto simp: List.map_filter_simps split: option.splits)

lemma map_filter_distinct:
  "distinct xs \<Longrightarrow> (\<And>x y z. f x = Some z \<Longrightarrow> f y = Some z \<Longrightarrow> x = y) \<Longrightarrow> distinct (List.map_filter f xs)"
proof (induction xs)
  case (Cons x xs)
  show ?case
  proof (cases "f x")
    case (Some z)
    have "z \<notin> set (List.map_filter f xs)"
      using Cons.prems Some by (auto simp: map_filter_set)
    with Cons Some show ?thesis by (simp add: List.map_filter_simps)
  qed (use Cons in \<open>simp add: List.map_filter_simps\<close>)
qed (simp add: List.map_filter_simps)

text \<open>
  Listing a store in which every event was stored under an id of its own returns exactly the events
  of the requested type within the time window, each once, ordered by time and id; the limit
  only cuts the end of that list.
\<close>

theorem list_events_exact:
  assumes "fresh_store st" and "str_truthy ty"
  shows "\<exists>xs. list_events ty lo hi limit st = py_take limit xs \<and> distinct xs \<and> sorted (map event_key xs)
    \<and> set xs = {e. get_event st (ev_id e) = Some e \<and> Some (ev_type e) = ty \<and> in_window lo hi e}"
proof -
  have ix: "index_ok st" by (rule fresh_store_index [OF assms(1)])
  let ?found = "filter (in_window lo hi) (List.map_filter (get_event st) (type_index st (the ty)))"
  let ?xs = "sort_key event_key ?found"
  have "distinct ?found"
  proof (intro distinct_filter map_filter_distinct)
    show "distinct (type_index st (the ty))" using ix by (simp add: index_ok_def)
    show "x = y" if "get_event st x = Some z" "get_event st y = Some z" for x y z
      using that ix by (metis index_ok_def)
  qed
  moreover have "set ?found = {e. get_event st (ev_id e) = Some e \<and> Some (ev_type e) = ty \<and> in_window lo hi e}"
  proof -
    obtain t where t: "ty = Some t" using assms(2) by (auto simp: str_truthy_def split: option.splits)
    have mem: "i \<in> set (type_index st u) \<longleftrightarrow> (\<exists>e. get_event st i = Some e \<and> ev_type e = u)"
      and id: "get_event st k = Some e \<Longrightarrow> ev_id e = k" for i k e u
      using ix by (auto simp: index_ok_def)
    have "(\<exists>i \<in> set (type_index st t). get_event st i = Some e) \<longleftrightarrow> get_event st (ev_id e) = Some e \<and> ev_type e = t" for e
    proof
      assume "\<exists>i \<in> set (type_index st t). get_event st i = Some e"
      then obtain i where i: "i \<in> set (type_index st t)" "get_event st i = Some e" by blast
      with mem [of i t] id [OF i(2)] show "get_event st (ev_id e) = Some e \<and> ev_type e = t" by auto
    next
      assume e: "get_event st (ev_id e) = Some e \<and> ev_type e = t"
      with mem [of "ev_id e" t] have "ev_id e \<in> set (type_index st t)" by blast
      with e show "\<exists>i \<in> set (type_index st t). get_event st i = Some e" by blast
    qed
    then show ?thesis by (auto simp: map_filter_set t)
  qed
  moreover have "list_events ty lo hi limit st = py_take limit ?xs"
    using assms(2) by (simp add: list_events_def Let_def)
  ultimately show ?thesis by (intro exI [of _ ?xs]) simp
qed

theorem list_events_exact_witness:
  "let st = store_event (new_event ''a'' 2 ''t'' []) (store_event (new_event ''b'' 1 ''t'' []) empty_store)
   in set (list_events (Some ''t'') None None 100 st) = {new_event ''a'' 2 ''t'' [], new_event ''b'' 1 ''t'' []}"
proof -
  let ?a = "new_event ''a'' 2 ''t'' []" let ?b = "new_event ''b'' 1 ''t'' []"
  let ?st = "store_event ?a (store_event ?b empty_store)"
  have fs: "fresh_store ?st"
    by (intro fresh_store.intros) (simp_all add: get_store_event, simp_all add: new_event_def empty_store_def get_event_def)
  have "str_truthy (Some ''t'')" by (simp add: str_truthy_def)
  from list_events_exact [OF fs this, of None None 100] obtain xs where
    x: "list_events (Some ''t'') None None 100 ?st = py_take 100 xs" "distinct xs"
      "set xs = {e. get_event ?st (ev_id e) = Some e \<and> Some (ev_type e) = Some ''t'' \<and> in_window None None e}" by blast
  have s: "set xs = {?a, ?b}"
    unfolding x(3)
    by (auto simp: get_store_event in_window_def split: if_splits) (simp_all add: new_event_def empty_store_def get_event_def)
  have "length xs \<le> card {?a, ?b}" using distinct_card [OF x(2)] s by simp
  also have "\<dots> \<le> 2" by (simp add: card_insert_if)
  finally have "take (nat 100) xs = xs" by simp
  with x(1) s show ?thesis by (simp add: py_take_def)
qed

text \<open>
  Storing an event again under the same id leaves a second entry in the type index, so the event
  is listed twice for its type, although the store holds it once.
\<close>

theorem restored_event_is_listed_twice:
  "list_events (Some ''t'') None None 100 (store_event (new_event ''a'' 1 ''t'' []) (store_event (new_event ''a'' 1 ''t'' []) empty_store))
     = [new_event ''a'' 1 ''t'' [], new_event ''a'' 1 ''t'' []]
   \<and> list_events None None None 100 (store_event (new_event ''a'' 1 ''t'' []) (store_event (new_event ''a'' 1 ''t'' []) empty_store))
     = [new_event ''a'' 1 ''t'' []]"
  by (simp add: list_events_def str_truthy_def type_index_def store_event_def empty_store_def new_event_def get_event_def
      List.map_filter_simps in_window_def py_take_def event_key_def dict_set_def dict_get_def)

end
