(* ===== verification/Event_Delivery.thy ===== *)
theory Event_Delivery
  imports Event_Bus
begin

text \<open>
  What the in-memory event bus promises its clients: at-most-once delivery to subscriptions over
  every history of the subscription store, the outcome of a handler with a retry policy, which
  handlers an event selects, and that dispatching again is harmless.
\<close>

section \<open>Delivery to subscriptions\<close>

text \<open>A history of the subscription store; a search reports the pairs of subscription and event it delivers.\<close>

datatype sub_op = OpAdd subscription | OpDel string | OpMark string string | OpFind event

fun sub_step :: "sub_op \<Rightarrow> sub_store \<Rightarrow> (string \<times> string) list \<times> sub_store" where
  "sub_step (OpAdd s) st = ([], store_subscription s st)"
| "sub_step (OpDel sid) st = ([], snd (delete_subscription sid st))"
| "sub_step (OpMark sid eid) st = ([], snd (sub_store_mark sid eid st))"
| "sub_step (OpFind e) st = (let (subs, st') = find_unprocessed e st in (map (\<lambda>s. (s_id s, ev_id e)) subs, st'))"

fun sub_run :: "sub_op list \<Rightarrow> sub_store \<Rightarrow> (string \<times> string) list \<times> sub_store" where
  "sub_run [] st = ([], st)"
| "sub_run (op # ops) st =
     (let (found, st') = sub_step op st; (found', st'') = sub_run ops st' in (found @ found', st''))"

definition added :: "sub_op list \<Rightarrow> string list" where
  "added ops = concat (map (\<lambda>op. case op of OpAdd s \<Rightarrow> [s_id s] | _ \<Rightarrow> []) ops)"

definition sub_store_ok :: "sub_store \<Rightarrow> bool" where
  "sub_store_ok st \<longleftrightarrow> dict_wf st \<and> (\<forall>k s. dict_get st k = Some s \<longrightarrow> s_id s = k)"

lemma sub_mark_fields [simp]:
  "s_id (sub_mark_processed eid s) = s_id s"
  "sub_is_processed x (sub_mark_processed eid s) \<longleftrightarrow> x = eid \<or> sub_is_processed x s"
  "matches_event (sub_mark_processed eid s) e c = matches_event s e c"
  by (simp_all add: sub_mark_processed_def sub_is_processed_def matches_event_def Let_def)

lemma find_unprocessed_get:
  "dict_get (snd (find_unprocessed e st)) k = map_option
     (\<lambda>s. if matches_event s e [] \<and> \<not> sub_is_processed (ev_id e) s then sub_mark_processed (ev_id e) s else s) (dict_get st k)"
  by (induction st) (auto simp: find_unprocessed_def Let_def dict_get_def)

lemma find_unprocessed_wf: "dict_wf (snd (find_unprocessed e st)) = dict_wf st"
  by (simp add: find_unprocessed_def Let_def dict_wf_def comp_def case_prod_beta)

lemma sub_store_mark_get:
  "dict_get (snd (sub_store_mark sid eid st)) k =
     (if k = sid then map_option (sub_mark_processed eid) (dict_get st sid) else dict_get st k)"
  by (auto simp: sub_store_mark_def split: option.splits)

lemma sub_step_get:
  "dict_get (snd (sub_step op st)) k =
     (case op of
        OpAdd s \<Rightarrow> if k = s_id s then Some s else dict_get st k
      | OpDel sid \<Rightarrow> if k = sid then None else dict_get st k
      | OpMark sid eid \<Rightarrow> if k = sid then map_option (sub_mark_processed eid) (dict_get st sid) else dict_get st k
      | OpFind e \<Rightarrow> map_option (\<lambda>s. if matches_event s e [] \<and> \<not> sub_is_processed (ev_id e) s
            then sub_mark_processed (ev_id e) s else s) (dict_get st k))"
  by (cases op)
    (auto simp: store_subscription_def delete_subscription_def sub_store_mark_get find_unprocessed_get
      dict_get_None_iff Let_def case_prod_beta)

lemma sub_step_ok: "sub_store_ok st \<Longrightarrow> sub_store_ok (snd (sub_step op st))"
  unfolding sub_store_ok_def sub_step_get
  by (cases op)
    (auto simp: store_subscription_def delete_subscription_def sub_store_mark_def find_unprocessed_wf
      Let_def case_prod_beta split: option.splits if_splits)

lemma sub_store_values:
  assumes "sub_store_ok st"
  shows "s \<in> snd ` set st \<longleftrightarrow> dict_get st (s_id s) = Some s"
proof -
  have eq: "(k, s) \<in> set st \<longleftrightarrow> dict_get st k = Some s" for k
    using assms by (simp add: sub_store_ok_def dict_wf_def dict_get_def)
  show ?thesis
  proof
    assume "s \<in> snd ` set st"
    then obtain k where "(k, s) \<in> set st" by auto
    with eq assms show "dict_get st (s_id s) = Some s" by (auto simp: sub_store_ok_def)
  qed (use eq in force)
qed

lemma found_iff:
  assumes "sub_store_ok st"
  shows "(sid, eid) \<in> set (fst (sub_step op st)) \<longleftrightarrow>
    (\<exists>e s. op = OpFind e \<and> eid = ev_id e \<and> dict_get st sid = Some s \<and> matches_event s e []
       \<and> \<not> sub_is_processed (ev_id e) s)"
proof (cases op)
  case (OpFind e)
  have "(sid, eid) \<in> set (fst (sub_step op st)) \<longleftrightarrow> eid = ev_id e \<and>
      (\<exists>s. dict_get st (s_id s) = Some s \<and> s_id s = sid \<and> matches_event s e [] \<and> \<not> sub_is_processed (ev_id e) s)"
    unfolding OpFind by (auto simp: find_unprocessed_def Let_def image_iff sub_store_values [OF assms, symmetric])
  moreover have "dict_get st sid = Some s \<longleftrightarrow> dict_get st (s_id s) = Some s \<and> s_id s = sid" for s
    using assms by (auto simp: sub_store_ok_def)
  ultimately show ?thesis using OpFind by auto
qed simp_all

lemma found_distinct:
  assumes "sub_store_ok st"
  shows "distinct (fst (sub_step op st))"
proof (cases op)
  case (OpFind e)
  have "map (\<lambda>kv. s_id (snd kv)) st = map fst st"
    using assms by (auto simp: sub_store_ok_def dict_wf_def dict_get_def)
  with assms have "distinct (map s_id (map snd st))"
    by (simp add: sub_store_ok_def dict_wf_def comp_def del: map_eq_conv)
  then have "distinct (map s_id (filter P (map snd st)))" for P
    by (rule distinct_map_filter)
  then show ?thesis
    unfolding OpFind by (simp add: find_unprocessed_def Let_def comp_def distinct_map inj_on_def)
qed simp_all

text \<open>
  The invariant of a history: the subscriptions that were sent an event have it marked as
  processed while they are in the store, and are not among those still to be added.
\<close>

definition sent_ok :: "sub_store \<Rightarrow> string list \<Rightarrow> (string \<times> string) set \<Rightarrow> bool" where
  "sent_ok st future sent \<longleftrightarrow> (\<forall>sid eid. (sid, eid) \<in> sent \<longrightarrow>
     sid \<notin> set future \<and> (\<forall>s. dict_get st sid = Some s \<longrightarrow> sub_is_processed eid s))"

lemma sent_ok_step:
  assumes "sub_store_ok st" and "sent_ok st (added (op # ops)) sent" and "distinct (added (op # ops))"
    and "\<forall>sid s. dict_get st sid = Some s \<longrightarrow> sid \<notin> set (added (op # ops))"
  shows "sent_ok (snd (sub_step op st)) (added ops) (sent \<union> set (fst (sub_step op st)))"
    and "\<forall>sid s. dict_get (snd (sub_step op st)) sid = Some s \<longrightarrow> sid \<notin> set (added ops)"
    and "sent \<inter> set (fst (sub_step op st)) = {}"
proof -
  note st = sub_step_get [of op st]
  show "\<forall>sid s. dict_get (snd (sub_step op st)) sid = Some s \<longrightarrow> sid \<notin> set (added ops)"
    using assms(3,4) unfolding st by (cases op) (auto simp: added_def split: if_splits)
  show "sent \<inter> set (fst (sub_step op st)) = {}"
    using assms(2) by (auto simp: sent_ok_def found_iff [OF assms(1)] simp del: sub_step.simps)
  have old: "sent_ok (snd (sub_step op st)) (added ops) sent"
    using assms(2) unfolding sent_ok_def st by (cases op) (auto simp: added_def split: if_splits)
  have upd: "s = sub_mark_processed eid s \<Longrightarrow> sub_is_processed eid s" for s eid
    using sub_mark_fields(2) [of eid eid s] by simp
  have new: "sent_ok (snd (sub_step op st)) (added ops) (set (fst (sub_step op st)))"
    using assms(4) unfolding sent_ok_def st
    by (cases op) (auto simp: added_def found_iff [OF assms(1)] simp del: sub_step.simps split: if_splits dest: upd)
  from old new show "sent_ok (snd (sub_step op st)) (added ops) (sent \<union> set (fst (sub_step op st)))"
    by (auto simp: sent_ok_def)
qed

lemma sub_run_sent:
  assumes "sub_store_ok st" and "sent_ok st (added ops) sent" and "distinct (added ops)"
    and "\<forall>sid s. dict_get st sid = Some s \<longrightarrow> sid \<notin> set (added ops)"
  shows "distinct (fst (sub_run ops st)) \<and> sent \<inter> set (fst (sub_run ops st)) = {}"
  using assms
proof (induction ops arbitrary: st sent)
  case (Cons op ops)
  let ?st = "snd (sub_step op st)" and ?found = "fst (sub_step op st)"
  note step = sent_ok_step [OF Cons.prems]
  have "distinct (added ops)" using Cons.prems(3) by (simp add: added_def)
  from Cons.IH [OF sub_step_ok [OF Cons.prems(1)] step(1) this step(2)] step(3) found_distinct [OF Cons.prems(1), of op]
  show ?case by (auto simp: Let_def case_prod_beta)
qed simp

lemma sub_run_ok: "sub_store_ok st \<Longrightarrow> sub_store_ok (snd (sub_run ops st))"
  by (induction ops arbitrary: st) (auto simp: Let_def case_prod_beta sub_step_ok)

text \<open>
  Property C40.  In every history of the subscription store in which subscriptions have ids of their own, an
  event is delivered to a subscription at most once, however often it is searched for and
  whatever is added, deleted or marked in between; and a search delivers to exactly the stored
  subscriptions that match the event and have not processed it.
\<close>

theorem deliveries_at_most_once:
  assumes "distinct (added ops)"
  shows "distinct (fst (sub_run ops []))
    \<and> (let st = snd (sub_run ops []) in
       set (fst (find_unprocessed e st)) = sub_mark_processed (ev_id e)
         ` {s. get_subscription st (s_id s) = Some s \<and> matches_event s e [] \<and> \<not> sub_is_processed (ev_id e) s})"
proof -
  have ok: "sub_store_ok []" by (simp add: sub_store_ok_def)
  have "sent_ok [] (added ops) {}" by (simp add: sent_ok_def)
  with sub_run_sent [OF ok _ assms, of "{}"] have "distinct (fst (sub_run ops []))" by simp
  moreover have "set (fst (find_unprocessed e st)) = sub_mark_processed (ev_id e)
      ` {s. get_subscription st (s_id s) = Some s \<and> matches_event s e [] \<and> \<not> sub_is_processed (ev_id e) s}"
    if "sub_store_ok st" for st
    by (simp add: find_unprocessed_def Let_def get_subscription_def sub_store_values [OF that] Collect_conj_eq [symmetric]
        conj_commute cong: conj_cong)
  ultimately show ?thesis using sub_run_ok [OF ok, of ops] by (simp add: Let_def)
qed

definition example_sub :: "string \<Rightarrow> subscription" where
  "example_sub sid = \<lparr>s_id = sid, s_event_type = ''t'', s_filter = [], s_correlation = None, s_flow_id = None,
     s_node_id = None, s_created = 0, s_timeout = None, s_tenant = None, s_processed = []\<rparr>"

theorem deliveries_at_most_once_witness:
  "let e = new_event ''a'' 1 ''t'' []; ops = [OpAdd (example_sub ''s1''), OpFind e, OpAdd (example_sub ''s2''), OpFind e, OpFind e]
   in fst (sub_run ops []) = [(''s1'', ''a''), (''s2'', ''a'')] \<and> distinct (fst (sub_run ops []))"
proof -
  let ?e = "new_event ''a'' 1 ''t'' []"
  let ?ops = "[OpAdd (example_sub ''s1''), OpFind ?e, OpAdd (example_sub ''s2''), OpFind ?e, OpFind ?e]"
  have "distinct (added ?ops)" by (simp add: added_def example_sub_def)
  from deliveries_at_most_once [OF this] have "distinct (fst (sub_run ?ops []))" by blast
  moreover have "fst (sub_run ?ops []) = [(''s1'', ''a''), (''s2'', ''a'')]" by code_simp
  ultimately show ?thesis by (simp add: Let_def)
qed

section \<open>Retries\<close>

fun retry_delays :: "retry_policy \<Rightarrow> int \<Rightarrow> nat \<Rightarrow> int list" where
  "retry_delays p d 0 = []"
| "retry_delays p d (Suc n) =
     (let d' = min (d * rp_backoff_factor p) (rp_max_delay p) in d' # retry_delays p d' n)"

lemma retry_delays_le: "list_all (\<lambda>d. d \<le> rp_max_delay p) (retry_delays p d n)"
  by (induction n arbitrary: d) (simp_all add: Let_def)

lemma history_record:
  "get_processing_history (record_processing_attempt now eid hid st err t) eid
     = get_processing_history t eid @ [\<lparr>ar_handler = hid, ar_status = st, ar_timestamp = now, ar_error = err\<rparr>]"
  "tr_records (record_processing_attempt now eid hid st err t) = tr_records t"
  by (simp_all add: get_processing_history_def record_processing_attempt_def)

lemma history_mark:
  "get_processing_history (snd (mark_event_processed now eid hid t)) k = get_processing_history t k"
  "is_event_processed eid hid (snd (mark_event_processed now eid hid t))"
  by (auto simp: get_processing_history_def mark_event_processed_def is_event_processed_def records_of_def Let_def
      dict_has_iff split: option.splits)

lemma processed_record:
  "is_event_processed e h (record_processing_attempt now eid hid st err t) = is_event_processed e h t"
  by (simp add: is_event_processed_def records_of_def history_record)

lemma finish_success_outcome:
  assumes "finish_success B e hid t w = (t', w')"
  shows "is_event_processed (ev_id e) hid t'"
    and "\<exists>now. get_processing_history t' (ev_id e) = get_processing_history t (ev_id e)
      @ [\<lparr>ar_handler = hid, ar_status = ''success'', ar_timestamp = now, ar_error = None\<rparr>]"
  using assms by (auto simp: finish_success_def Let_def case_prod_beta processed_record history_mark history_record)

definition settled :: "retry_policy \<Rightarrow> int \<Rightarrow> event \<Rightarrow> string \<Rightarrow> nat \<Rightarrow> attempt_record list \<Rightarrow> tracker \<Rightarrow> bool" where
  "settled p retries e hid n new t \<longleftrightarrow>
     ar_status (last new) = ''success'' \<and> length new = n + 1 \<and> is_event_processed (ev_id e) hid t
     \<or> ar_status (last new) = ''failed'' \<and> length new = n + 2 \<and> int n = max 1 (rp_max_retries p - retries) - 1"

lemma retry_attempts_settle:
  assumes "nat (rp_max_retries p - retries) < fuel"
  shows "\<exists>n t' w' new. retry_attempts fuel B p h e hid retries delay t w = Some (retry_delays p delay n, t', w')
    \<and> int n < max 1 (rp_max_retries p - retries)
    \<and> get_processing_history t' (ev_id e) = get_processing_history t (ev_id e) @ new
    \<and> new \<noteq> [] \<and> settled p retries e hid n new t'"
  using assms
proof (induction fuel arbitrary: retries delay t w)
  case (Suc fuel)
  obtain r w1 where r: "hd_run h e w = (r, w1)" by fastforce
  show ?case
  proof (cases r)
    case None
    obtain t' w' where f: "finish_success B e hid t w1 = (t', w')" by fastforce
    from finish_success_outcome [OF f] r None f show ?thesis
      by (intro exI [of _ 0]) (auto simp: settled_def)
  next
    case (Some err)
    obtain now w2 where now: "be_time B w1 = (now, w2)" by fastforce
    let ?t1 = "record_processing_attempt now (ev_id e) hid (''error (retry '' @ int_str (retries + 1) @ '')'') (Some err) t"
    show ?thesis
    proof (cases "rp_max_retries p \<le> retries + 1")
      case True
      obtain now' w3 where "be_time B w2 = (now', w3)" by fastforce
      with True r Some now show ?thesis
        by (intro exI [of _ 0]) (auto simp: settled_def history_record Let_def)
    next
      case False
      let ?d = "min (delay * rp_backoff_factor p) (rp_max_delay p)"
      have "nat (rp_max_retries p - (retries + 1)) < fuel" using Suc.prems False by linarith
      from Suc.IH [OF this, of ?d ?t1 "be_sleep B ?d w2"] obtain n t' w' new where
        rec: "retry_attempts fuel B p h e hid (retries + 1) ?d ?t1 (be_sleep B ?d w2) = Some (retry_delays p ?d n, t', w')"
        and n: "int n < max 1 (rp_max_retries p - (retries + 1))"
        and hist: "get_processing_history t' (ev_id e) = get_processing_history ?t1 (ev_id e) @ new" "new \<noteq> []"
        and set: "settled p (retries + 1) e hid n new t'" by blast
      have "int (Suc n) < max 1 (rp_max_retries p - retries)" using n False by simp
      moreover from set False have "settled p retries e hid (Suc n) (a # new) t'" for a
        using hist(2) by (auto simp: settled_def)
      ultimately show ?thesis
        using r Some now False rec hist
        by (intro exI [of _ "Suc n"]) (auto simp: history_record Let_def)
    qed
  qed
qed simp

text \<open>
  A handler with a retry policy is always settled, with at most \<open>max_retries\<close> attempts (one if
  that is not positive): the waits follow the backoff schedule of the policy and never exceed
  \<open>max_delay\<close>, every attempt is in the history of the event, and at the end the event is marked
  as processed for the handler or the history ends with a failure after the last attempt.  The
  first wait is already \<open>initial_delay\<close> times the backoff factor.
\<close>

theorem retry_policy_settles:
  "\<exists>n t' w' new. process_with_retry B p h e hid t w = Some (retry_delays p (rp_initial_delay p) n, t', w')
     \<and> int n < max 1 (rp_max_retries p) \<and> list_all (\<lambda>d. d \<le> rp_max_delay p) (retry_delays p (rp_initial_delay p) n)
     \<and> get_processing_history t' (ev_id e) = get_processing_history t (ev_id e) @ new
     \<and> (ar_status (last new) = ''success'' \<and> length new = n + 1 \<and> is_event_processed (ev_id e) hid t'
        \<or> ar_status (last new) = ''failed'' \<and> length new = n + 2 \<and> int n = max 1 (rp_max_retries p) - 1)"
  using retry_attempts_settle [of p 0 "retry_fuel p" B h e hid "rp_initial_delay p" t w]
  by (fastforce simp: process_with_retry_def retry_fuel_def settled_def retry_delays_le)


section \<open>Selecting handlers\<close>

definition plain_type :: "string \<Rightarrow> bool" where
  "plain_type p \<longleftrightarrow> list_all (\<lambda>c. c \<notin> {CHR ''*'', CHR ''?'', CHR ''[''}) p"

lemma parse_plain: "plain_type p \<Longrightarrow> parse_pattern (p @ q) = map Lit p @ parse_pattern q"
  by (induction p) (auto simp: plain_type_def)

lemma match_plain: "match_items (map Lit p @ ps) s \<longleftrightarrow> (\<exists>r. s = p @ r \<and> match_items ps r)"
proof (induction p arbitrary: s)
  case (Cons a p)
  then show ?case by (cases s) auto
qed simp

lemma match_star: "match_items [Star] s"
  by (induction s) simp_all

text \<open>
  Which handlers an event is dispatched to.  A handler without a filter is selected by its type
  pattern: a plain type selects that type only, a plain prefix followed by \<open>*\<close> every type with
  that prefix, and no type every event.  A handler with a filter is selected only when its type
  is literally the type of the event, so a filter together with a pattern, or with no type,
  never fires.  With duplicate prevention a handler that processed the event is left out.
\<close>

theorem handler_selection:
  assumes "plain_type p" and "p \<noteq> []" and "flt \<noteq> []"
  shows "(handler_selected dup e t (hid, h\<lparr>hd_event_type := Some (p @ ''*''), hd_filter := []\<rparr>) \<longleftrightarrow>
       (\<exists>r. ev_type e = p @ r) \<and> \<not> (dup \<and> is_event_processed (ev_id e) hid t))
    \<and> (handler_selected dup e t (hid, h\<lparr>hd_event_type := Some p, hd_filter := flt\<rparr>) \<longleftrightarrow>
       ev_type e = p \<and> list_all (condition_holds e) flt \<and> \<not> (dup \<and> is_event_processed (ev_id e) hid t))
    \<and> (handler_selected dup e t (hid, h\<lparr>hd_event_type := Some (p @ ''*''), hd_filter := flt\<rparr>) \<longleftrightarrow>
       ev_type e = p @ ''*'' \<and> list_all (condition_holds e) flt \<and> \<not> (dup \<and> is_event_processed (ev_id e) hid t))"
proof -
  have star: "matches_event_type (Some (p @ ''*'')) ty \<longleftrightarrow> (\<exists>r. ty = p @ r)" for ty
    using assms(2) by (auto simp: matches_event_type_def str_truthy_def fnmatch_def parse_plain [OF assms(1)]
        match_plain match_star)
  have exact: "matches_event_type (Some p) ty \<longleftrightarrow> ty = p" for ty
    using assms(1,2) match_plain [of p "[]" ty] parse_plain [OF assms(1), of "[]"]
    by (auto simp: matches_event_type_def str_truthy_def fnmatch_def plain_type_def)
  have filt: "matches_event (handler_subscription (h\<lparr>hd_event_type := Some q, hd_filter := flt\<rparr>)) e []
      \<longleftrightarrow> ev_type e = q \<and> list_all (condition_holds e) flt" if "q \<noteq> []" for q
    using that by (cases q) (simp_all add: matches_event_def handler_subscription_def str_truthy_def)
  from assms(3) filt [OF assms(2)] filt [of "p @ ''*''"] show ?thesis
    by (auto simp: handler_selected_def star exact)
qed

theorem handler_selection_witness:
  "let h = \<lparr>hd_run = (\<lambda>_ (w :: nat). (None, w)), hd_event_type = Some ''order.*'',
             hd_filter = [(''n'', PInt 1)], hd_retry = None\<rparr>;
       e = new_event ''a'' 1 ''order.paid'' [(''n'', PInt 1)]
   in handler_selected True e empty_tracker (''h1'', h\<lparr>hd_filter := []\<rparr>)
      \<and> \<not> handler_selected True e empty_tracker (''h1'', h)"
  using handler_selection [of "''order.''" "[(''n'', PInt 1)]" True "new_event ''a'' 1 ''order.paid'' [(''n'', PInt 1)]"
      empty_tracker "''h1''" "\<lparr>hd_run = (\<lambda>_ (w :: nat). (None, w)), hd_event_type = Some ''order.*'',
             hd_filter = [(''n'', PInt 1)], hd_retry = None\<rparr>"]
  by (simp add: plain_type_def new_event_def is_event_processed_def empty_tracker_def)

section \<open>Dispatching again\<close>

lemma processed_mark_mono:
  "is_event_processed x y t \<Longrightarrow> is_event_processed x y (snd (mark_event_processed now eid hid t))"
  by (auto simp: is_event_processed_def mark_event_processed_def records_of_def Let_def split: option.splits)

lemma finish_success_mono:
  "is_event_processed x y t \<Longrightarrow> is_event_processed x y (fst (finish_success B e hid t w))"
  by (simp add: finish_success_def Let_def case_prod_beta processed_record processed_mark_mono)

lemma process_one_success:
  assumes "\<And>w. fst (hd_run h e w) = None"
  shows "is_event_processed x y (fst tw) \<Longrightarrow> is_event_processed x y (fst (process_one B e (hid, h) tw))"
    and "is_event_processed (ev_id e) hid (fst (process_one B e (hid, h) tw))"
proof -
  obtain w1 where run: "hd_run h e (snd tw) = (None, w1)" using assms by (metis prod.collapse)
  have one: "fst (process_one B e (hid, h) tw) = fst (finish_success B e hid (fst tw) w1)"
    by (simp add: process_one_def process_event_def process_with_retry_def retry_fuel_def run Let_def case_prod_beta
        split: option.splits)
  show "is_event_processed x y (fst tw) \<Longrightarrow> is_event_processed x y (fst (process_one B e (hid, h) tw))"
    by (simp add: one finish_success_mono)
  show "is_event_processed (ev_id e) hid (fst (process_one B e (hid, h) tw))"
    using finish_success_outcome(1) [of B e hid "fst tw" w1] by (metis one prod.collapse)
qed

definition handlers_succeed :: "event \<Rightarrow> (string \<times> 'w handler) list \<Rightarrow> bool" where
  "handlers_succeed e hs \<longleftrightarrow> (\<forall>ih \<in> set hs. \<forall>w. fst (hd_run (snd ih) e w) = None)"

lemma process_all_mono:
  "handlers_succeed e hs \<Longrightarrow> is_event_processed x y (fst tw) \<Longrightarrow> is_event_processed x y (fst (fold (process_one B e) hs tw))"
proof (induction hs arbitrary: tw)
  case (Cons ih hs)
  with process_one_success(1) [where h = "snd ih" and e = e and tw = tw and B = B and hid = "fst ih" and x = x and y = y] show ?case by (auto simp: handlers_succeed_def)
qed simp

lemma process_all_success:
  "handlers_succeed e hs \<Longrightarrow> (hid, h) \<in> set hs \<Longrightarrow> is_event_processed (ev_id e) hid (fst (fold (process_one B e) hs tw))"
proof (induction hs arbitrary: tw)
  case (Cons ih hs)
  have rest: "handlers_succeed e hs" using Cons.prems(1) by (simp add: handlers_succeed_def)
  show ?case
  proof (cases "(hid, h) = ih")
    case True
    with Cons.prems(1) process_one_success(2) [where h = h and e = e and hid = hid and tw = tw and B = B]
    have "is_event_processed (ev_id e) hid (fst (process_one B e ih tw))" by (auto simp: handlers_succeed_def)
    with process_all_mono [OF rest] show ?thesis by simp
  qed (use Cons rest in auto)
qed simp

text \<open>
  When its handlers succeed, dispatching an event again with duplicate prevention changes nothing:
  no handler runs a second time, with or without a retry policy.
\<close>

theorem dispatch_idempotent:
  assumes "handlers_succeed e (bus_handlers b)" and "dispatch_event B e True b w = (b1, w1)"
  shows "dispatch_event B e True b1 w2 = (b1, w2)"
proof -
  let ?chosen = "filter (handler_selected True e (bus_tracker b)) (bus_handlers b)"
  have b1: "bus_handlers b1 = bus_handlers b" "bus_tracker b1 = fst (fold (process_one B e) ?chosen (bus_tracker b, w))"
    using assms(2) by (auto simp: dispatch_event_def Let_def split: prod.splits)
  have ok: "handlers_succeed e ?chosen" using assms(1) by (simp add: handlers_succeed_def)
  have "\<not> handler_selected True e (bus_tracker b1) (hid, h)" if "(hid, h) \<in> set (bus_handlers b)" for hid h
  proof (cases "handler_selected True e (bus_tracker b) (hid, h)")
    case True
    with that have "(hid, h) \<in> set ?chosen" by simp
    from process_all_success [OF ok this] show ?thesis by (simp add: b1(2) handler_selected_def)
  next
    case False
    with process_all_mono [OF ok, of "ev_id e" hid "(bus_tracker b, w)" B]
    show ?thesis unfolding b1(2) by (auto simp: handler_selected_def)
  qed
  then have "filter (handler_selected True e (bus_tracker b1)) (bus_handlers b1) = []"
    by (auto simp: b1(1) filter_empty_conv)
  then show ?thesis by (simp add: dispatch_event_def)
qed

definition counting_handler :: "nat handler" where
  "counting_handler = \<lparr>hd_run = (\<lambda>_ n. (None, Suc n)), hd_event_type = None, hd_filter = [],
     hd_retry = Some \<lparr>rp_max_retries = 3, rp_initial_delay = 1, rp_backoff_factor = 2, rp_max_delay = 60\<rparr>\<rparr>"

definition counting_env :: "nat bus_env" where
  "counting_env = \<lparr>be_time = (\<lambda>n. (0, n)), be_sleep = (\<lambda>_ n. n), be_uuid = (\<lambda>n. (''id'', n)), be_tenant = ''t''\<rparr>"

theorem dispatch_idempotent_witness:
  "let e = new_event ''a'' 1 ''t'' []; b = snd (register_handler ''h'' counting_handler empty_bus);
       (b1, n) = dispatch_event counting_env e True b 0
   in n = 1 \<and> dispatch_event counting_env e True b1 n = (b1, 1)"
proof -
  let ?e = "new_event ''a'' 1 ''t'' []" and ?b = "snd (register_handler ''h'' counting_handler empty_bus)"
  obtain b1 n where d: "dispatch_event counting_env ?e True ?b 0 = (b1, n)" by fastforce
  have "handlers_succeed ?e (bus_handlers ?b)"
    by (simp add: handlers_succeed_def register_handler_def empty_bus_def dict_set_def counting_handler_def)
  from dispatch_idempotent [OF this d] have "dispatch_event counting_env ?e True b1 n = (b1, n)" .
  moreover have "snd (dispatch_event counting_env ?e True ?b 0) = 1" by code_simp
  ultimately show ?thesis using d by (simp add: Let_def)
qed

end
