(* ===== verification/Wakeup.thy ===== *)
theory Wakeup
  imports Distributed Event_Delivery
begin

text \<open>
  The distributed strategy on the in-memory event bus: \<open>_subscribe_event\<close> calls
  \<open>register_subscription\<close> of \<^verbatim>\<open>plaita/event/memory.py\<close> with the parameters it builds; an event
  the subscription matches is found by the store, and a resume message bound to the
  subscription passes the resume gate, among them the messages the event filter builds from a
  delivered event and from an expired subscription.
\<close>

section \<open>The bus as the host of the strategy\<close>

text \<open>Pydantic's \<open>Optional[str]\<close>.\<close>

definition opt_str_field :: "pyval \<Rightarrow> exc + string option" where
  "opt_str_field v =
     (case v of PNone \<Rightarrow> Inr None | PStr s \<Rightarrow> Inr (Some s) | _ \<Rightarrow> Inl (plain_exc (Builtin ValueError)))"

definition bus_register :: "'w bus_env \<Rightarrow> sub_req \<Rightarrow> 'w bus \<times> 'w \<Rightarrow> (exc + pyval) \<times> 'w bus \<times> 'w" where
  "bus_register B r bw =
     (case sr_event_type r of
        PStr ty \<Rightarrow>
          (case opt_str_field (sr_correlation r) of
             Inl e \<Rightarrow> (Inl e, bw)
           | Inr corr \<Rightarrow>
               (let (res, b', w') = register_subscription B ty (sr_filter r) corr (sr_flow_id r) (Some (sr_node_id r))
                      (sr_timeout r) (sr_tenant r) (fst bw) (snd bw)
                in (case res of Inl e \<Rightarrow> Inl e | Inr sid \<Rightarrow> Inr (PStr sid), b', w')))
      | _ \<Rightarrow> (Inl (plain_exc (Builtin ValueError)), bw))"

text \<open>
  The \<open>data\<close> of the resume task the event filter enqueues for an event it hands to a subscription, and for a
  subscription that timed out.
\<close>

definition event_carrier :: "event \<Rightarrow> subscription \<Rightarrow> pyval dict" where
  "event_carrier e s = [(''event_id'', PStr (ev_id e)), (''event_type'', PStr (ev_type e)), (''event_data'', PDict (ev_data e)),
     (''subscription_id'', PStr (s_id s))]"

definition timeout_carrier :: "subscription \<Rightarrow> pyval dict" where
  "timeout_carrier s = [(''subscription_id'', PStr (s_id s)), (''event_type'', PStr (s_event_type s)),
     (''node_id'', opt_str (s_node_id s))]"

text \<open>What a successful registration leaves in the subscription store.\<close>

lemma bus_register_stores:
  assumes "bus_register B r (b, w) = (Inr v, b', w')" and "be_uuid B w = (sid, w1)"
  obtains s ty where "v = PStr sid" "sr_event_type r = PStr ty" "get_subscription (bus_subs b') sid = Some s"
    "s_id s = sid" "s_event_type s = ty" "opt_str (s_correlation s) = sr_correlation r" "s_filter s = sr_filter r" "s_processed s = []"
proof -
  obtain ty where ty: "sr_event_type r = PStr ty" using assms(1) by (auto simp: bus_register_def split: pyval.splits)
  obtain corr where corr: "opt_str_field (sr_correlation r) = Inr corr"
    using assms(1) ty by (auto simp: bus_register_def split: sum.splits)
  then have c: "opt_str corr = sr_correlation r" by (auto simp: opt_str_field_def opt_str_def split: pyval.splits)
  obtain now w2 where now: "be_time B w1 = (now, w2)" by fastforce
  show ?thesis
    by (rule that [OF _ ty, where s = "\<lparr>s_id = sid, s_event_type = ty, s_filter = sr_filter r, s_correlation = corr,
          s_flow_id = sr_flow_id r, s_node_id = Some (sr_node_id r), s_created = now, s_timeout = sr_timeout r,
          s_tenant = sr_tenant r, s_processed = []\<rparr>"])
      (use assms ty corr now c in \<open>auto simp: bus_register_def register_subscription_def Let_def get_subscription_def
          store_subscription_def split: if_splits\<close>)
qed

lemma subscription_matches:
  assumes "PStr (ev_type e) = PStr (s_event_type s)" and "opt_str (ev_correlation e) = opt_str (s_correlation s)"
    and "list_all (condition_holds e) (s_filter s)"
  shows "matches_event s e []"
  using assms by (auto simp: matches_event_def pget_def opt_str_def split: option.splits)

lemma found_if_matches:
  assumes "get_subscription st sid = Some s" and "matches_event s e []" and "s_processed s = []"
  shows "sub_mark_processed (ev_id e) s \<in> set (fst (find_unprocessed e st))"
proof -
  have "(sid, s) \<in> set st" using assms(1) by (simp add: get_subscription_def dict_get_def map_of_SomeD)
  with assms(2,3) show ?thesis by (force simp: find_unprocessed_def Let_def sub_is_processed_def)
qed

text \<open>
  A message that names the subscription \<open>sid\<close>, openly or by the private key, and no event type or the one
  of the subscription.
\<close>

definition addressed_to :: "string \<Rightarrow> pyval \<Rightarrow> pyval dict \<Rightarrow> bool" where
  "addressed_to sid ty m \<longleftrightarrow> message_sub m = PStr sid
     \<and> (truthy (pget m ''event_type'' PNone) \<longrightarrow> pget m ''event_type'' PNone = ty)"

lemma addressed_admitted:
  assumes "dict_get d ''status'' = Some (PStr PENDING)" and "dict_get d ''subscription_id'' = Some (PStr sid)"
    and "sid \<noteq> []" and "dict_get d ''event_type'' = Some ty" and "addressed_to sid ty m" and "rt \<in> {RT_EVENT, RT_TIMEOUT}"
  shows "gate_resume_carrier (PDict d) rt (PDict m) = Inr (unbound (PDict m))"
  by (rule gate_admits [OF assms(1)]) (use assms(2-) in \<open>auto simp: bound_to_def addressed_to_def pget_def\<close>)

lemma carriers_addressed:
  "s_id s \<noteq> [] \<Longrightarrow> addressed_to (s_id s) (PStr (ev_type e)) (event_carrier e s)"
  "s_id s \<noteq> [] \<Longrightarrow> addressed_to (s_id s) (PStr (s_event_type s)) (timeout_carrier s)"
  "unbound (PDict (event_carrier e s)) = PDict (event_carrier e s)"
  "unbound (PDict (timeout_carrier s)) = PDict (timeout_carrier s)"
  by (simp_all add: addressed_to_def message_sub_def event_carrier_def timeout_carrier_def pget_def dict_get_Cons unbound_def)
    (simp_all add: RESUME_BINDING_KEY_def)

text \<open>
  Property C6.  A parked node can be woken.  When a pending node has been subscribed with the in-memory bus, the
  store holds a subscription under the id recorded in the node's state.  Every event of the
  resolved type and correlation that satisfies the node's filter is delivered to it, and the message the event filter builds
  from that event passes the resume gate unchanged; so does the message it builds when the subscription times out.  Any other
  event or timeout message that names the id, openly or by the private key, and carries no other event type
  passes as well, without the private key.
\<close>

theorem parked_node_can_be_woken:
  assumes "h_register H = Some (bus_register B)" and "be_uuid B w = (sid, w1)" and "sid \<noteq> []"
    and "subscribe_event H n f (PDict d) corr cx (b, w) = (Inr (True, st), cx', b', w')"
    and "dict_get d ''status'' = Some (PStr PENDING)"
  shows "\<exists>s d'. st = PDict d' \<and> dict_get d' ''subscription_id'' = Some (PStr sid)
    \<and> get_subscription (bus_subs b') sid = Some s
    \<and> (\<forall>e. PStr (ev_type e) = sr_event_type (subscription_request H n f d corr cx)
          \<and> opt_str (ev_correlation e) = sr_correlation (subscription_request H n f d corr cx)
          \<and> list_all (condition_holds e) (nd_event_filter n)
          \<longrightarrow> sub_mark_processed (ev_id e) s \<in> set (fst (find_unprocessed e (bus_subs b')))
            \<and> gate_resume_carrier st RT_EVENT (PDict (event_carrier e s)) = Inr (PDict (event_carrier e s)))
    \<and> gate_resume_carrier st RT_TIMEOUT (PDict (timeout_carrier s)) = Inr (PDict (timeout_carrier s))
    \<and> (\<forall>m. addressed_to sid (sr_event_type (subscription_request H n f d corr cx)) m
          \<longrightarrow> gate_resume_carrier st RT_EVENT (PDict m) = Inr (unbound (PDict m))
            \<and> gate_resume_carrier st RT_TIMEOUT (PDict m) = Inr (unbound (PDict m)))"
proof -
  let ?r = "subscription_request H n f d corr cx"
  obtain v b1 w2 where reg: "bus_register B ?r (b, w) = (Inr v, b1, w2)" and st: "st = PDict (subscribed_state n v d)"
    and upd: "update_result_act H n st cx (b1, w2) = (Inr (), cx', b', w')"
  proof (rule subscribe_event_True [OF assms(4)])
    fix register d0 v bw
    assume r: "h_register H = Some register" "PDict d = PDict d0"
      "register (subscription_request H n f d0 corr cx) (b, w) = (Inr v, bw)" "st = PDict (subscribed_state n v d0)"
      "update_result_act H n st cx bw = (Inr (), cx', b', w')"
    show thesis by (rule that [of v "fst bw" "snd bw"]) (use r assms(1) in simp_all)
  qed
  have b': "b' = b1" using upd by (auto simp: update_result_act_def split: sum.splits)
  from bus_register_stores [OF reg assms(2)] obtain s ty where
    s: "v = PStr sid" "sr_event_type ?r = PStr ty" "get_subscription (bus_subs b') sid = Some s" "s_id s = sid"
      "s_event_type s = ty" "opt_str (s_correlation s) = sr_correlation ?r" "s_filter s = sr_filter ?r" "s_processed s = []"
    using b' by metis
  have flt: "s_filter s = nd_event_filter n" using s(7) by (simp add: subscription_request_def)
  have state: "dict_get (subscribed_state n v d) ''status'' = Some (PStr PENDING)"
    "dict_get (subscribed_state n v d) ''subscription_id'' = Some (PStr sid)"
    "dict_get (subscribed_state n v d) ''event_type'' = Some (sr_event_type ?r)"
    using assms(5) s(1) by (simp_all add: subscribed_state_def subscription_request_def)
  note admit = addressed_admitted [OF state(1,2) assms(3) state(3), folded st]
  have "sub_mark_processed (ev_id e) s \<in> set (fst (find_unprocessed e (bus_subs b')))"
    if "PStr (ev_type e) = sr_event_type ?r" "opt_str (ev_correlation e) = sr_correlation ?r"
      "list_all (condition_holds e) (nd_event_filter n)" for e
    by (rule found_if_matches [OF s(3) subscription_matches s(8)]) (use that s flt in auto)
  moreover have "gate_resume_carrier st RT_EVENT (PDict (event_carrier e s)) = Inr (PDict (event_carrier e s))"
    if "PStr (ev_type e) = sr_event_type ?r" for e
    using admit [of "event_carrier e s" RT_EVENT] carriers_addressed(1,3) [where s = s and e = e] that s(4) assms(3) by simp
  moreover have "gate_resume_carrier st RT_TIMEOUT (PDict (timeout_carrier s)) = Inr (PDict (timeout_carrier s))"
    using admit [of "timeout_carrier s" RT_TIMEOUT] carriers_addressed(2,4) [where s = s] s(2,4,5) assms(3) by simp
  ultimately show ?thesis
    using st state(2) s(3) admit by blast
qed

definition wake_env :: "(nat bus \<times> nat) env" where
  "wake_env = \<lparr>time_time = (\<lambda>w. (0, w)), cancel_requested = None, clear_cancel_event = (\<lambda>w. w),
     assert_executable = (\<lambda>_ _ _. Inr ()), run_body = (\<lambda>n r cx w. (Inr PNone, cx, w)), sleep = (\<lambda>d w. w),
     isodur = (\<lambda>_. IsoInvalid), result_payload = (\<lambda>_ _. None)\<rparr>"

definition wake_host :: "(nat bus \<times> nat) host" where
  "wake_host = \<lparr>h_env = wake_env, h_deadline = 1000, h_os_env = [], h_uuid = (\<lambda>w. (''u'', w)),
     h_register = Some (bus_register counting_env), h_unregister = None, h_tenant = ''default'', h_str = (\<lambda>_. [])\<rparr>"

theorem parked_node_can_be_woken_witness:
  "\<exists>st cx' b' w'. subscribe_event wake_host event_nd event_flow (PDict pending_state) (PStr ''x1'') example_ctx (empty_bus, 0)
      = (Inr (True, st), cx', b', w')
    \<and> gate_resume_carrier st RT_EVENT (PDict [(''paid'', PInt 5), (RESUME_BINDING_KEY, PStr ''id'')]) = Inr (PDict [(''paid'', PInt 5)])
    \<and> fst (find_unprocessed ((new_event ''e1'' 9 ''order.paid'' [])\<lparr>ev_correlation := Some ''x1''\<rparr>) (bus_subs b')) \<noteq> []"
proof -
  let ?st = "subscribed_state event_nd (PStr ''id'') pending_state"
  let ?e = "(new_event ''e1'' 9 ''order.paid'' [])\<lparr>ev_correlation := Some ''x1''\<rparr>"
  have st: "?st = [(''status'', PStr ''pending''), (''subscription_id'', PStr ''id''), (''event_type'', PStr ''order.paid''),
      (''subscription_timeout'', PNone)]"
    by (simp add: subscribed_state_def pending_state_def dict_set_def pget_def dict_get_def opt_int_def)
  have "shallow (PDict ?st)" by (rule small_shallow) (simp add: st)
  from update_node_result_eq [OF example_ctx_ok example_node_results this] obtain cx' where
    U: "update_node_result None ''ev'' (PDict ?st) example_ctx = Inr cx'" by blast
  obtain b' w' where R: "bus_register counting_env (subscription_request wake_host event_nd event_flow pending_state (PStr ''x1'') example_ctx)
      (empty_bus, 0) = (Inr (PStr ''id''), b', w')"
    by (auto simp: bus_register_def subscription_request_def pget_def pending_state_def dict_get_def opt_str_field_def
        register_subscription_def event_type_valid_def str_strip_def is_space_def counting_env_def Let_def)
  have S: "subscribe_event wake_host event_nd event_flow (PDict pending_state) (PStr ''x1'') example_ctx (empty_bus, 0)
      = (Inr (True, PDict ?st), cx', b', w')"
    using R U by (simp add: subscribe_event_def wake_host_def update_result_act_def wake_env_def Let_def)
  have "h_register wake_host = Some (bus_register counting_env)" "be_uuid counting_env 0 = (''id'', 0)" "''id'' \<noteq> []"
    "dict_get pending_state ''status'' = Some (PStr PENDING)"
    by (simp_all add: wake_host_def counting_env_def pending_state_def dict_get_def PENDING_def)
  from parked_node_can_be_woken [OF this(1-3) S this(4)] obtain s where
    find: "\<And>e. PStr (ev_type e) = PStr ''order.paid'' \<Longrightarrow> opt_str (ev_correlation e) = PStr ''x1'' \<Longrightarrow>
       sub_mark_processed (ev_id e) s \<in> set (fst (find_unprocessed e (bus_subs b')))"
    and gate: "\<And>m. addressed_to ''id'' (PStr ''order.paid'') m \<Longrightarrow> gate_resume_carrier (PDict ?st) RT_EVENT (PDict m) = Inr (unbound (PDict m))"
    by (auto simp: subscription_request_def pending_state_def pget_def dict_get_def)
  have "fst (find_unprocessed ?e (bus_subs b')) \<noteq> []"
    using find [of ?e] by (auto simp: new_event_def opt_str_def)
  moreover have "gate_resume_carrier (PDict ?st) RT_EVENT (PDict [(''paid'', PInt 5), (RESUME_BINDING_KEY, PStr ''id'')])
      = Inr (PDict [(''paid'', PInt 5)])"
    by (subst gate) (simp_all add: addressed_to_def message_sub_def unbound_def pget_def dict_get_Cons RESUME_BINDING_KEY_def)
  ultimately show ?thesis using S by blast
qed

end
