(* ===== verification/Capabilities.thy ===== *)
theory Capabilities
  imports Exec_Context
begin

text \<open>
  \<^verbatim>\<open>plaita/core/capabilities.py\<close> and \<^verbatim>\<open>plaita/node/capabilities.py\<close>: the execution tiers of nodes,
  the closure of a flow over child flows, resolved references and branches, the gate at the
  entry of an execution and the guard the node runner applies before a node runs.

  The closure tells flows apart by identity (\<open>id(flow)\<close>), so flows live in a heap: a finite map
  from addresses to flows, with nodes referring to flows by address; shared and cyclic
  structures are possible.  The reference resolver and the guard mode are arguments.  Messages
  are left out; of an error the parts callers branch on are kept.
\<close>

section \<open>Tiers\<close>

definition EXECUTION_TIERS :: "string list" where
  "EXECUTION_TIERS = [''inline'', ''managed'']"

definition LEGACY_CAPABILITY_TOKENS :: "string list" where
  "LEGACY_CAPABILITY_TOKENS = [''suspend:root'', ''suspend:nested'', ''event_bus'', ''queue'', ''sandbox'', ''network'']"

definition LEGACY_TOKEN_RANK :: "nat dict" where
  "LEGACY_TOKEN_RANK = [(''suspend:root'', 1), (''suspend:nested'', 1), (''event_bus'', 1), (''queue'', 1),
     (''sandbox'', 0), (''network'', 0)]"

definition LEGACY_PROFILE_TIER :: "string dict" where
  "LEGACY_PROFILE_TIER = [(''normal'', ''inline''), (''generator'', ''inline''), (''distributed'', ''managed''),
     (''local'', ''managed'')]"

definition TIER_RANK :: "nat dict" where
  "TIER_RANK = [(''inline'', 0), (''managed'', 1)]"

definition is_valid_tier :: "string option \<Rightarrow> bool" where
  "is_valid_tier t = (case t of None \<Rightarrow> False | Some s \<Rightarrow> dict_has TIER_RANK s)"

definition tier_rank :: "string \<Rightarrow> exc + nat" where
  "tier_rank t = (case dict_get TIER_RANK t of None \<Rightarrow> Inl (plain_exc (Builtin ValueError)) | Some r \<Rightarrow> Inr r)"

definition legacy_tokens_to_tier :: "string list \<Rightarrow> string" where
  "legacy_tokens_to_tier tokens =
     EXECUTION_TIERS ! fold (\<lambda>t rank. case dict_get LEGACY_TOKEN_RANK t of None \<Rightarrow> rank
                               | Some r \<Rightarrow> if r > rank then r else rank) tokens 0"

datatype profile_spec = ProfileName string | ProfileTokens "string list"

definition normalize_profile :: "profile_spec \<Rightarrow> exc + string" where
  "normalize_profile p =
     (case p of
        ProfileName s \<Rightarrow>
          if is_valid_tier (Some s) then Inr s
          else (case dict_get LEGACY_PROFILE_TIER s of
                  Some t \<Rightarrow> Inr t
                | None \<Rightarrow> Inl (plain_exc (Builtin ValueError)))
      | ProfileTokens ts \<Rightarrow>
          if list_ex (\<lambda>t. t \<notin> set LEGACY_CAPABILITY_TOKENS) ts then Inl (plain_exc (Builtin ValueError))
          else Inr (legacy_tokens_to_tier ts))"

definition profile_for_mode :: "string option \<Rightarrow> exc + string" where
  "profile_for_mode m =
     (case m of
        None \<Rightarrow> Inr ''inline''
      | Some s \<Rightarrow>
          (case dict_get [(''normal'', ''inline''), (''generator'', ''inline''), (''distributed'', ''managed'')] s of
             Some t \<Rightarrow> Inr t
           | None \<Rightarrow> Inl (plain_exc (Builtin ValueError))))"

section \<open>Flows in a heap\<close>

record cnode =
  cn_id :: string
  cn_type :: string
  cn_tier :: "string option"
  cn_requirements :: "string list"
  cn_suspending :: bool
  cn_child_flow :: "nat option"
  cn_flow_id :: "string option"
  cn_branch_flows :: "nat option list"

datatype citem = RawNode | Live cnode

record cflow =
  cf_id :: "string option"
  cf_nodes :: "citem list"

type_synonym cheap = "(nat \<times> cflow) list"

definition node_execution_tier :: "cnode \<Rightarrow> string \<times> string" where
  "node_execution_tier n =
     (if is_valid_tier (cn_tier n) then (the (cn_tier n), ''declared'')
      else if cn_requirements n \<noteq> [] then (legacy_tokens_to_tier (cn_requirements n), ''legacy'')
      else if cn_suspending n then (''managed'', ''undeclared'')
      else (''inline'', ''declared''))"

section \<open>The closure\<close>

record site =
  st_node :: cnode
  st_flow_id :: "string option"
  st_frames :: "cnode list"
  st_tier :: string
  st_cause :: string

definition node_label :: "cnode \<Rightarrow> string" where
  "node_label n = cn_id n @ ''('' @ cn_type n @ '')''"

definition frame_path :: "site \<Rightarrow> string list" where
  "frame_path s = map node_label (st_frames s) @ [node_label (st_node s)]"

definition node_sites :: "string option \<Rightarrow> cnode list \<Rightarrow> cnode \<Rightarrow> site list" where
  "node_sites fid fr n =
     (let (tier, cause) = node_execution_tier n in
      if tier \<noteq> ''inline''
      then [\<lparr>st_node = n, st_flow_id = fid, st_frames = fr, st_tier = tier, st_cause = cause\<rparr>] else [])"

definition called_flow :: "(cnode \<Rightarrow> nat option) \<Rightarrow> cnode \<Rightarrow> nat option" where
  "called_flow res n =
     (case cn_child_flow n of
        Some a \<Rightarrow> Some a
      | None \<Rightarrow> if cn_type n = ''reference'' then res n else None)"

definition sub_flows :: "(cnode \<Rightarrow> nat option) \<Rightarrow> cnode \<Rightarrow> nat list" where
  "sub_flows res n = List.map_filter id (called_flow res n # cn_branch_flows n)"

definition node_unresolved :: "(cnode \<Rightarrow> nat option) \<Rightarrow> cnode \<Rightarrow> (string \<times> string option) list" where
  "node_unresolved res n =
     (if cn_child_flow n = None \<and> cn_type n = ''reference'' \<and> res n = None then [(cn_id n, cn_flow_id n)] else [])"

text \<open>
  \<open>_walk\<close>: the pending work is a list, a flow to enter or a node to look at, in the order the
  recursive calls reach it; \<open>sites\<close>, \<open>unresolved\<close> and \<open>seen\<close> are the collections the calls share.
\<close>

datatype work = FlowAt nat "cnode list" | NodeIn "string option" "cnode list" citem

fun work_weight :: "(cnode \<Rightarrow> nat option) \<Rightarrow> work \<Rightarrow> nat" where
  "work_weight res (FlowAt a fr) = 1"
| "work_weight res (NodeIn fid fr RawNode) = 1"
| "work_weight res (NodeIn fid fr (Live n)) = Suc (length (sub_flows res n))"

definition enter_flow :: "cflow \<Rightarrow> cnode list \<Rightarrow> work list" where
  "enter_flow f fr = map (NodeIn (cf_id f) fr) (cf_nodes f)"

definition enter_subs :: "bool \<Rightarrow> (cnode \<Rightarrow> nat option) \<Rightarrow> cnode list \<Rightarrow> cnode \<Rightarrow> work list" where
  "enter_subs recursive res fr n = (if recursive then map (\<lambda>a. FlowAt a (fr @ [n])) (sub_flows res n) else [])"

type_synonym walk_state = "site list \<times> (string \<times> string option) list \<times> nat list"

function walk :: "cheap \<Rightarrow> bool \<Rightarrow> (cnode \<Rightarrow> nat option) \<Rightarrow> work list \<Rightarrow> walk_state \<Rightarrow> walk_state" where
  "walk h recursive res [] s = s"
| "walk h recursive res (FlowAt a fr # ws) (sites, unres, seen) =
     (if a \<in> set seen then walk h recursive res ws (sites, unres, seen)
      else case map_of h a of
        None \<Rightarrow> walk h recursive res ws (sites, unres, seen)
      | Some f \<Rightarrow> walk h recursive res (enter_flow f fr @ ws) (sites, unres, a # seen))"
| "walk h recursive res (NodeIn fid fr RawNode # ws) s = walk h recursive res ws s"
| "walk h recursive res (NodeIn fid fr (Live n) # ws) (sites, unres, seen) =
     walk h recursive res (enter_subs recursive res fr n @ ws)
       (sites @ node_sites fid fr n, unres @ (if recursive then node_unresolved res n else []), seen)"
  by pat_completeness auto
termination
proof (relation "measures [\<lambda>(h, recursive, res, ws, sites, unres, seen). card (set (map fst h) - set seen),
    \<lambda>(h, recursive, res, ws, s). sum_list (map (work_weight res) ws)]", goal_cases)
  case (4 h recursive res a fr ws sites unres seen f)
  then have "a \<in> set (map fst h)" by (force dest: map_of_SomeD)
  with 4 have "card (set (map fst h) - set (a # seen)) < card (set (map fst h) - set seen)"
    by (intro psubset_card_mono) auto
  then show ?case by simp
next
  case (6 h recursive res fid fr n ws sites unres seen)
  have "sum_list (map (work_weight res) (map (\<lambda>a. FlowAt a g) as)) = length as" for as g
    by (induction as) simp_all
  then show ?case by (auto simp: enter_subs_def)
qed auto

record closure =
  cl_tier :: string
  cl_sites :: "site list"
  cl_unresolved :: "(string \<times> string option) list"

definition capability_closure :: "cheap \<Rightarrow> bool \<Rightarrow> (cnode \<Rightarrow> nat option) \<Rightarrow> nat \<Rightarrow> exc + closure" where
  "capability_closure h recursive res a =
     (case walk h recursive res [FlowAt a []] ([], [], []) of
        (sites, unres, seen) \<Rightarrow>
          rbind (rmap (\<lambda>s. tier_rank (st_tier s)) sites) (\<lambda>ranks.
            Inr \<lparr>cl_tier = EXECUTION_TIERS ! Max (set (0 # ranks)), cl_sites = sites, cl_unresolved = unres\<rparr>))"

definition required_tier :: "cheap \<Rightarrow> bool \<Rightarrow> (cnode \<Rightarrow> nat option) \<Rightarrow> nat \<Rightarrow> exc + string" where
  "required_tier h recursive res a = rbind (capability_closure h recursive res a) (\<lambda>c. Inr (cl_tier c))"

section \<open>Checking a profile\<close>

record report =
  rp_profile :: string
  rp_required :: string
  rp_missing :: "string list"
  rp_sites :: "site list"
  rp_unresolved :: "(string \<times> string option) list"

definition offending_sites :: "string \<Rightarrow> site list \<Rightarrow> exc + site list" where
  "offending_sites env sites =
     rbind (rmap (\<lambda>s. rbind (tier_rank (st_tier s)) (\<lambda>r. rbind (tier_rank env) (\<lambda>r'. Inr (s, r > r')))) sites) (\<lambda>ps.
       Inr (map fst (filter snd ps)))"

definition evaluate_profile ::
  "cheap \<Rightarrow> bool \<Rightarrow> (cnode \<Rightarrow> nat option) \<Rightarrow> profile_spec \<Rightarrow> nat \<Rightarrow> exc + string \<times> site list \<times> report" where
  "evaluate_profile h recursive res p a =
     rbind (normalize_profile p) (\<lambda>env.
       rbind (capability_closure h recursive res a) (\<lambda>c.
         rbind (offending_sites env (cl_sites c)) (\<lambda>off.
           Inr (env, off, \<lparr>rp_profile = env, rp_required = cl_tier c, rp_missing = remdups (map st_tier off),
                 rp_sites = cl_sites c, rp_unresolved = cl_unresolved c\<rparr>))))"

definition check_execution_requirements ::
  "cheap \<Rightarrow> bool \<Rightarrow> (cnode \<Rightarrow> nat option) \<Rightarrow> profile_spec \<Rightarrow> nat \<Rightarrow> exc + report" where
  "check_execution_requirements h recursive res p a =
     rbind (evaluate_profile h recursive res p a) (\<lambda>(env, off, rep). Inr rep)"

text \<open>The rejection: \<open>fix\<close> is the action proposed, \<open>cause\<close> whether the node or the environment is at fault.\<close>

record rejection =
  rj_node_id :: string
  rj_flow_id :: "string option"
  rj_fix :: string
  rj_cause :: string
  rj_frame_path :: "string list"
  rj_stage :: string
  rj_profile :: string
  rj_tier :: string

datatype gate_error = GateExc exc | NotExecutable rejection

definition suspend_error :: "site \<Rightarrow> string \<Rightarrow> string \<Rightarrow> rejection" where
  "suspend_error s env stage =
     \<lparr>rj_node_id = cn_id (st_node s), rj_flow_id = st_flow_id s,
      rj_fix = (case find (\<lambda>f. cn_type f \<notin> {''child'', ''reference''}) (st_frames s) of
                  Some _ \<Rightarrow> ''restructure'' | None \<Rightarrow> ''run_distributed''),
      rj_cause = (if st_cause s \<in> {''declared'', ''legacy''} then ''environment'' else ''undeclared''),
      rj_frame_path = frame_path s, rj_stage = stage, rj_profile = env, rj_tier = st_tier s\<rparr>"

definition char_lower :: "char \<Rightarrow> char" where
  "char_lower c =
     (let k = of_char c :: nat in
      if 65 \<le> k \<and> k \<le> 90 \<or> 192 \<le> k \<and> k \<le> 222 \<and> k \<noteq> 215 then char_of (k + 32) else c)"

definition suspend_guard_mode :: "string option \<Rightarrow> string" where
  "suspend_guard_mode raw =
     (let s = map char_lower (str_strip (case raw of None \<Rightarrow> [] | Some v \<Rightarrow> v))
      in if s = ''warn'' then ''warn'' else ''error'')"

definition lift_gate :: "exc + 'a \<Rightarrow> gate_error + 'a" where
  "lift_gate r = (case r of Inl e \<Rightarrow> Inl (GateExc e) | Inr x \<Rightarrow> Inr x)"

definition validate_for_profile ::
  "string \<Rightarrow> cheap \<Rightarrow> bool \<Rightarrow> (cnode \<Rightarrow> nat option) \<Rightarrow> profile_spec \<Rightarrow> string \<Rightarrow> nat \<Rightarrow> gate_error + report" where
  "validate_for_profile guard h recursive res p stage a =
     rbind (lift_gate (evaluate_profile h recursive res p a)) (\<lambda>(env, off, rep).
       case off of
         [] \<Rightarrow> Inr rep
       | s # _ \<Rightarrow> if guard = ''warn'' then Inr rep else Inl (NotExecutable (suspend_error s env stage)))"

section \<open>The gates\<close>

text \<open>An execution with its chain of parents, explicit profile and mode.\<close>

datatype execution = Execution (ex_parent: "execution option") (ex_profile: "profile_spec option") (ex_mode: "string option")

fun root_execution :: "execution \<Rightarrow> execution" where
  "root_execution (Execution (Some p) pr m) = root_execution p"
| "root_execution (Execution None pr m) = Execution None pr m"

definition host_profile :: "execution \<Rightarrow> exc + profile_spec" where
  "host_profile x =
     (let r = root_execution x in
      case ex_profile r of
        Some p \<Rightarrow> Inr p
      | None \<Rightarrow> rbind (profile_for_mode (ex_mode r)) (\<lambda>t. Inr (ProfileName t)))"

definition gate_execution_entry :: "string \<Rightarrow> cheap \<Rightarrow> execution \<Rightarrow> nat \<Rightarrow> gate_error + report option" where
  "gate_execution_entry guard h x a =
     (case ex_parent x of
        Some _ \<Rightarrow> Inr None
      | None \<Rightarrow>
          rbind (lift_gate (host_profile x)) (\<lambda>p.
            rbind (validate_for_profile guard h True (\<lambda>_. None) p ''entry'' a) (\<lambda>rep. Inr (Some rep))))"

definition assert_node_executable :: "string \<Rightarrow> cnode \<Rightarrow> execution option \<Rightarrow> string option \<Rightarrow> gate_error + unit" where
  "assert_node_executable guard n x fid =
     (case node_execution_tier n of (tier, cause) \<Rightarrow>
        if tier = ''inline'' then Inr ()
        else case x of
          None \<Rightarrow> Inr ()
        | Some ex \<Rightarrow>
            rbind (lift_gate (host_profile ex)) (\<lambda>p.
              rbind (lift_gate (normalize_profile p)) (\<lambda>env.
                rbind (lift_gate (tier_rank tier)) (\<lambda>r.
                  rbind (lift_gate (tier_rank env)) (\<lambda>r'.
                    if r \<le> r' then Inr ()
                    else if guard = ''warn'' then Inr ()
                    else Inl (NotExecutable (suspend_error
                      \<lparr>st_node = n, st_flow_id = fid, st_frames = [], st_tier = tier, st_cause = cause\<rparr> env ''runner'')))))))"

section \<open>The capability ledger\<close>

record matrix_diff =
  md_added :: "string dict"
  md_removed :: "string dict"
  md_changed :: "(string \<times> string) dict"

definition diff_capability_matrix :: "string dict \<Rightarrow> string dict \<Rightarrow> matrix_diff" where
  "diff_capability_matrix ledger matrix =
     \<lparr>md_added = filter (\<lambda>kv. \<not> dict_has ledger (fst kv)) matrix,
      md_removed = filter (\<lambda>kv. \<not> dict_has matrix (fst kv)) ledger,
      md_changed = List.map_filter (\<lambda>(k, v). case dict_get matrix k of
          None \<Rightarrow> None | Some v' \<Rightarrow> if v \<noteq> v' then Some (k, v, v') else None) ledger\<rparr>"

section \<open>Node classes\<close>

text \<open>
  A node class: the tier and the legacy requirements attribute lookup finds, whether the class
  itself writes \<open>is_suspending\<close>, and what it inherits otherwise.
\<close>

record node_class =
  nc_tier :: "string option"
  nc_requirements :: "string list"
  nc_own_suspending :: "bool option"
  nc_inherited_suspending :: bool

definition nc_suspending :: "node_class \<Rightarrow> bool" where
  "nc_suspending c = (case nc_own_suspending c of Some b \<Rightarrow> b | None \<Rightarrow> nc_inherited_suspending c)"

definition normalize_execution_tier :: "node_class \<Rightarrow> exc + string \<times> node_class" where
  "normalize_execution_tier c =
     (if nc_tier c \<noteq> None \<and> \<not> is_valid_tier (nc_tier c) then Inl (plain_exc (Builtin ValueError))
      else
        (let tier = (case nc_tier c of
               Some t \<Rightarrow> t
             | None \<Rightarrow> if nc_requirements c \<noteq> [] then legacy_tokens_to_tier (nc_requirements c) else ''inline'');
             resolved = (tier \<noteq> ''inline'')
         in Inr (tier, if nc_own_suspending c = Some True \<and> \<not> resolved then c
                       else c\<lparr>nc_own_suspending := Some resolved\<rparr>)))"

definition validate_execution_contract :: "string \<Rightarrow> node_class \<Rightarrow> exc + node_class" where
  "validate_execution_contract guard c =
     rbind (normalize_execution_tier c) (\<lambda>(tier, c').
       let unknown = list_ex (\<lambda>t. t \<notin> set LEGACY_CAPABILITY_TOKENS) (nc_requirements c');
           bare = (nc_suspending c' \<and> tier = ''inline'')
       in if \<not> unknown \<and> \<not> bare then Inr c'
          else if guard = ''warn'' then Inr c'
          else Inl (plain_exc (Builtin ValueError)))"

definition declared_tier :: "node_class \<Rightarrow> string" where
  "declared_tier c =
     (if is_valid_tier (nc_tier c) then the (nc_tier c)
      else if nc_requirements c \<noteq> [] then legacy_tokens_to_tier (nc_requirements c)
      else ''inline'')"

section \<open>What the closure collects\<close>

lemma legacy_tier_cases: "legacy_tokens_to_tier ts = ''inline'' \<or> legacy_tokens_to_tier ts = ''managed''"
proof -
  let ?step = "\<lambda>t rank. case dict_get LEGACY_TOKEN_RANK t of None \<Rightarrow> rank | Some r \<Rightarrow> if r > rank then r else rank"
  have tok: "dict_get LEGACY_TOKEN_RANK t = Some r \<Longrightarrow> r \<le> 1" for t r
    by (auto simp: LEGACY_TOKEN_RANK_def dict_get_def split: if_splits)
  have one: "?step t rank \<le> 1" if "rank \<le> 1" for t rank
    using that tok [of t] by (cases "dict_get LEGACY_TOKEN_RANK t") auto
  have "rank \<le> 1 \<Longrightarrow> fold ?step ts rank \<le> 1" for rank
    by (induction ts arbitrary: rank) (simp_all only: fold_simps one)
  from this [of 0] have "fold ?step ts 0 = 0 \<or> fold ?step ts 0 = 1" by linarith
  then show ?thesis by (auto simp: legacy_tokens_to_tier_def EXECUTION_TIERS_def)
qed

lemma tier_rank_simps [simp]: "tier_rank ''inline'' = Inr 0" "tier_rank ''managed'' = Inr 1"
  by (simp_all add: tier_rank_def TIER_RANK_def dict_get_def)

lemma is_valid_tier_iff: "is_valid_tier t \<longleftrightarrow> t = Some ''inline'' \<or> t = Some ''managed''"
  by (auto simp: is_valid_tier_def TIER_RANK_def dict_has_def split: option.splits)

definition managed :: "cnode \<Rightarrow> bool" where
  "managed n \<longleftrightarrow> fst (node_execution_tier n) \<noteq> ''inline''"

lemma node_tier_cases: "fst (node_execution_tier n) = (if managed n then ''managed'' else ''inline'')"
  using legacy_tier_cases [of "cn_requirements n"]
  by (auto simp: managed_def node_execution_tier_def is_valid_tier_iff)

lemma node_sites_eq: "node_sites fid fr n = (if managed n then [\<lparr>st_node = n, st_flow_id = fid, st_frames = fr,
    st_tier = ''managed'', st_cause = snd (node_execution_tier n)\<rparr>] else [])"
  using node_tier_cases [of n] by (cases "node_execution_tier n") (auto simp: node_sites_def managed_def)

text \<open>The flows a root flow can call, each with the chain of nodes that leads to it.\<close>

inductive framed :: "cheap \<Rightarrow> (cnode \<Rightarrow> nat option) \<Rightarrow> nat \<Rightarrow> cnode list \<Rightarrow> nat \<Rightarrow> bool" for h res root where
  framed_root: "framed h res root [] root"
| framed_sub: "framed h res root fr a \<Longrightarrow> map_of h a = Some f \<Longrightarrow> Live n \<in> set (cf_nodes f) \<Longrightarrow>
    b \<in> set (sub_flows res n) \<Longrightarrow> framed h res root (fr @ [n]) b"

definition node_at :: "cheap \<Rightarrow> (cnode \<Rightarrow> nat option) \<Rightarrow> nat \<Rightarrow> cnode list \<Rightarrow> string option \<Rightarrow> cnode \<Rightarrow> bool" where
  "node_at h res root fr fid n \<longleftrightarrow>
     (\<exists>a f. framed h res root fr a \<and> map_of h a = Some f \<and> cf_id f = fid \<and> Live n \<in> set (cf_nodes f))"

fun work_ok :: "cheap \<Rightarrow> (cnode \<Rightarrow> nat option) \<Rightarrow> nat \<Rightarrow> work \<Rightarrow> bool" where
  "work_ok h res root (FlowAt a fr) = framed h res root fr a"
| "work_ok h res root (NodeIn fid fr RawNode) = True"
| "work_ok h res root (NodeIn fid fr (Live n)) = node_at h res root fr fid n"

definition site_ok :: "cheap \<Rightarrow> (cnode \<Rightarrow> nat option) \<Rightarrow> nat \<Rightarrow> site \<Rightarrow> bool" where
  "site_ok h res root s \<longleftrightarrow> node_at h res root (st_frames s) (st_flow_id s) (st_node s) \<and> managed (st_node s)
     \<and> st_tier s = ''managed'' \<and> st_cause s = snd (node_execution_tier (st_node s))"

lemma enter_flow_ok:
  assumes "framed h res root fr a" and "map_of h a = Some f"
  shows "list_all (work_ok h res root) (enter_flow f fr)"
proof -
  have "work_ok h res root (NodeIn (cf_id f) fr it)" if "it \<in> set (cf_nodes f)" for it
    using assms that by (cases it) (auto simp: node_at_def)
  then show ?thesis by (simp add: enter_flow_def list_all_iff)
qed

lemma enter_subs_ok: "node_at h res root fr fid n \<Longrightarrow> list_all (work_ok h res root) (enter_subs r res fr n)"
  by (auto simp: enter_subs_def node_at_def list_all_iff intro: framed_sub)

lemma walk_sound:
  assumes "list_all (work_ok h res root) ws" and "list_all (site_ok h res root) (fst s)"
  shows "list_all (site_ok h res root) (fst (walk h r res ws s))"
  using assms
proof (induction h r res ws s rule: walk.induct)
  case (2 h r res a fr ws sites unres seen)
  then show ?case by (auto simp: enter_flow_ok split: option.splits)
next
  case (4 h r res fid fr n ws sites unres seen)
  then have n: "node_at h res root fr fid n" by simp
  then have "list_all (site_ok h res root) (node_sites fid fr n)" by (simp add: node_sites_eq site_ok_def)
  with 4 enter_subs_ok [OF n] show ?case by simp
qed simp_all

text \<open>Every node of an entered flow is pending, or listed if it is managed and its sub-flows are entered, pending or absent.\<close>

definition entered :: "cheap \<Rightarrow> nat list \<Rightarrow> work list \<Rightarrow> nat \<Rightarrow> bool" where
  "entered h seen ws a \<longleftrightarrow> a \<in> set seen \<or> map_of h a = None \<or> (\<exists>fr. FlowAt a fr \<in> set ws)"

definition handled :: "cheap \<Rightarrow> (cnode \<Rightarrow> nat option) \<Rightarrow> work list \<Rightarrow> site list \<Rightarrow> nat list \<Rightarrow> string option \<Rightarrow> cnode \<Rightarrow> bool" where
  "handled h res ws sites seen fid n \<longleftrightarrow> (\<exists>fr. NodeIn fid fr (Live n) \<in> set ws)
     \<or> (managed n \<longrightarrow> (\<exists>s \<in> set sites. st_flow_id s = fid \<and> st_node s = n))
       \<and> (\<forall>b \<in> set (sub_flows res n). entered h seen ws b)"

definition walk_inv :: "cheap \<Rightarrow> (cnode \<Rightarrow> nat option) \<Rightarrow> nat \<Rightarrow> work list \<Rightarrow> site list \<Rightarrow> nat list \<Rightarrow> bool" where
  "walk_inv h res root ws sites seen \<longleftrightarrow> entered h seen ws root
     \<and> (\<forall>a f n. a \<in> set seen \<longrightarrow> map_of h a = Some f \<longrightarrow> Live n \<in> set (cf_nodes f) \<longrightarrow>
          handled h res ws sites seen (cf_id f) n)"

lemma handled_mono:
  assumes "handled h res ws sites seen fid n"
    and "\<And>b. entered h seen ws b \<Longrightarrow> entered h seen' ws' b" and "set sites \<subseteq> set sites'"
    and "\<And>fr. NodeIn fid fr (Live n) \<in> set ws \<Longrightarrow> handled h res ws' sites' seen' fid n"
  shows "handled h res ws' sites' seen' fid n"
  using assms unfolding handled_def by blast

lemma walk_inv_skip:
  assumes "walk_inv h res root (FlowAt a fr # ws) sites seen" and "a \<in> set seen \<or> map_of h a = None"
  shows "walk_inv h res root ws sites seen"
proof -
  have e: "entered h seen (FlowAt a fr # ws) b \<Longrightarrow> entered h seen ws b" for b
    using assms(2) by (auto simp: entered_def)
  have "handled h res ws sites seen fid n" if "handled h res (FlowAt a fr # ws) sites seen fid n" for fid n
    by (rule handled_mono [OF that e]) (auto simp: handled_def)
  with assms(1) e show ?thesis by (auto simp: walk_inv_def)
qed

lemma walk_inv_enter:
  assumes "walk_inv h res root (FlowAt a fr # ws) sites seen" and "map_of h a = Some f"
  shows "walk_inv h res root (enter_flow f fr @ ws) sites (a # seen)"
proof -
  let ?ws = "enter_flow f fr @ ws"
  have e: "entered h seen (FlowAt a fr # ws) b \<Longrightarrow> entered h (a # seen) ?ws b" for b
    by (auto simp: entered_def)
  have old: "handled h res ?ws sites (a # seen) fid n" if "handled h res (FlowAt a fr # ws) sites seen fid n" for fid n
    by (rule handled_mono [OF that e]) (auto simp: handled_def)
  have new: "handled h res ?ws sites (a # seen) (cf_id f) n" if "Live n \<in> set (cf_nodes f)" for n
    using that by (auto simp: handled_def enter_flow_def)
  from assms(1) e old new assms(2) show ?thesis by (auto simp: walk_inv_def)
qed

lemma walk_inv_node:
  assumes "walk_inv h res root (NodeIn fid fr (Live n) # ws) sites seen"
  shows "walk_inv h res root (enter_subs True res fr n @ ws) (sites @ node_sites fid fr n) seen"
proof -
  let ?ws = "enter_subs True res fr n @ ws" and ?sites = "sites @ node_sites fid fr n"
  have e: "entered h seen (NodeIn fid fr (Live n) # ws) b \<Longrightarrow> entered h seen ?ws b" for b
    by (auto simp: entered_def)
  have me: "handled h res ?ws ?sites seen fid n"
    by (auto simp: handled_def entered_def enter_subs_def node_sites_eq)
  have "handled h res ?ws ?sites seen fid' n'" if "handled h res (NodeIn fid fr (Live n) # ws) sites seen fid' n'" for fid' n'
    by (rule handled_mono [OF that e]) (use me in \<open>auto simp: handled_def\<close>)
  with assms e show ?thesis by (auto simp: walk_inv_def)
qed

lemma walk_inv_raw: "walk_inv h res root (NodeIn fid fr RawNode # ws) sites seen \<Longrightarrow> walk_inv h res root ws sites seen"
  by (auto simp: walk_inv_def handled_def entered_def)

lemma walk_complete:
  "walk_inv h res root ws (fst s) (snd (snd s)) \<Longrightarrow> walk h True res ws s = (sites, unres, seen) \<Longrightarrow>
     walk_inv h res root [] sites seen"
proof (induction h "True" res ws s rule: walk.induct)
  case (2 h res a fr ws sites0 unres0 seen0)
  show ?case
  proof (cases "map_of h a")
    case None
    with 2 walk_inv_skip [of h res root a fr ws sites0 seen0] show ?thesis by (cases "a \<in> set seen0") auto
  next
    case (Some f)
    with 2 walk_inv_skip [of h res root a fr ws sites0 seen0] walk_inv_enter [OF _ Some, of res root fr ws sites0 seen0]
    show ?thesis by (cases "a \<in> set seen0") auto
  qed
next
  case (3 h res fid fr ws s)
  then show ?case using walk_inv_raw by auto
next
  case (4 h res fid fr n ws sites0 unres0 seen0)
  with walk_inv_node [of h res root fid fr n ws sites0 seen0] show ?case by auto
qed simp

lemma walk_reaches:
  assumes "walk_inv h res root [] sites seen" and "framed h res root fr a"
  shows "a \<in> set seen \<or> map_of h a = None"
  using assms(2)
proof (induction rule: framed.induct)
  case framed_root
  then show ?case using assms(1) by (simp add: walk_inv_def entered_def)
next
  case (framed_sub fr a f n b)
  with assms(1) show ?case by (fastforce simp: walk_inv_def handled_def entered_def)
qed

lemma closure_walk:
  assumes "walk h True res [FlowAt root []] ([], [], []) = (sites, unres, seen)"
  shows "list_all (site_ok h res root) sites"
    and "node_at h res root fr fid n \<Longrightarrow> managed n \<Longrightarrow> \<exists>s \<in> set sites. st_flow_id s = fid \<and> st_node s = n"
proof -
  show "list_all (site_ok h res root) sites"
    using walk_sound [of h res root "[FlowAt root []]" "([], [], [])" True] assms by (simp add: framed_root)
  have inv: "walk_inv h res root [] sites seen"
    by (rule walk_complete [OF _ assms]) (simp add: walk_inv_def entered_def)
  assume "node_at h res root fr fid n" "managed n"
  with walk_reaches [OF inv] inv show "\<exists>s \<in> set sites. st_flow_id s = fid \<and> st_node s = n"
    by (fastforce simp: node_at_def walk_inv_def handled_def)
qed

lemma capability_closure_eq:
  "\<exists>c. capability_closure h True res root = Inr c \<and> list_all (site_ok h res root) (cl_sites c)
     \<and> (\<forall>fr fid n. node_at h res root fr fid n \<longrightarrow> managed n \<longrightarrow> (\<exists>s \<in> set (cl_sites c). st_flow_id s = fid \<and> st_node s = n))
     \<and> cl_tier c = (if cl_sites c = [] then ''inline'' else ''managed'')"
proof -
  obtain sites unres seen where w: "walk h True res [FlowAt root []] ([], [], []) = (sites, unres, seen)"
    using prod_cases3 by blast
  note cw = closure_walk [OF w]
  have "rmap (\<lambda>s. tier_rank (st_tier s)) sites = Inr (map (\<lambda>_. 1) sites)"
    by (rule rmap_total) (use cw(1) in \<open>simp add: list_all_iff site_ok_def\<close>)
  moreover have "set (0 # map (\<lambda>_. 1) sites) = (if sites = [] then {0} else {0, 1 :: nat})" by (cases sites) auto
  ultimately have "capability_closure h True res root = Inr
      \<lparr>cl_tier = if sites = [] then ''inline'' else ''managed'', cl_sites = sites, cl_unresolved = unres\<rparr>"
    unfolding capability_closure_def w prod.case EXECUTION_TIERS_def by (simp del: list.set One_nat_def)
  with cw show ?thesis by auto
qed

text \<open>
  The capability closure is exact, for every heap of flows, shared and cyclic ones included: it
  always answers; the sites it lists are exactly the nodes that are not inline in the flows that
  can be called from the root through child flows, resolved references and branches; the frames of
  a site are a chain of calls that leads to it; and the tier is \<open>managed\<close> exactly when there is a
  site.
\<close>

theorem capability_closure_exact:
  "\<exists>c. capability_closure h True res root = Inr c
     \<and> {(st_flow_id s, st_node s) | s. s \<in> set (cl_sites c)}
       = {(fid, n) | fid n. (\<exists>fr. node_at h res root fr fid n) \<and> fst (node_execution_tier n) \<noteq> ''inline''}
     \<and> list_all (\<lambda>s. node_at h res root (st_frames s) (st_flow_id s) (st_node s)) (cl_sites c)
     \<and> (cl_tier c = ''managed'' \<longleftrightarrow> cl_sites c \<noteq> [])"
proof -
  obtain c where c: "capability_closure h True res root = Inr c" "list_all (site_ok h res root) (cl_sites c)"
    "\<And>fr fid n. node_at h res root fr fid n \<Longrightarrow> managed n \<Longrightarrow> \<exists>s \<in> set (cl_sites c). st_flow_id s = fid \<and> st_node s = n"
    "cl_tier c = (if cl_sites c = [] then ''inline'' else ''managed'')"
    using capability_closure_eq [of h res root] by blast
  have "{(st_flow_id s, st_node s) | s. s \<in> set (cl_sites c)}
      = {(fid, n) | fid n. (\<exists>fr. node_at h res root fr fid n) \<and> fst (node_execution_tier n) \<noteq> ''inline''}"
    using c(2,3) unfolding managed_def [symmetric] by (fastforce simp: list_all_iff site_ok_def)
  with c show ?thesis by (auto simp: list_all_iff site_ok_def)
qed

lemma normalize_profile_cases: "normalize_profile p = Inr env \<Longrightarrow> env = ''inline'' \<or> env = ''managed''"
  using legacy_tier_cases
  by (auto simp: normalize_profile_def is_valid_tier_iff LEGACY_PROFILE_TIER_def dict_get_def
      split: profile_spec.splits if_splits option.splits)

lemma offending_eq:
  assumes "list_all (site_ok h res root) sites" and "env = ''inline'' \<or> env = ''managed''"
  shows "offending_sites env sites = Inr (if env = ''inline'' then sites else [])"
proof -
  have "rmap (\<lambda>s. rbind (tier_rank (st_tier s)) (\<lambda>r. rbind (tier_rank env) (\<lambda>r'. Inr (s, r > r')))) sites
      = Inr (map (\<lambda>s. (s, env = ''inline'')) sites)"
    by (rule rmap_total) (use assms in \<open>auto simp: list_all_iff site_ok_def\<close>)
  then show ?thesis by (simp add: offending_sites_def filter_map comp_def)
qed

lemma validate_eq:
  assumes "normalize_profile p = Inr env" and "capability_closure h True res root = Inr c"
    and "list_all (site_ok h res root) (cl_sites c)"
  shows "\<exists>rep. validate_for_profile guard h True res p stage root =
    (if env = ''inline'' \<and> cl_sites c \<noteq> [] \<and> guard \<noteq> ''warn''
     then Inl (NotExecutable (suspend_error (hd (cl_sites c)) env stage)) else Inr rep)"
  using assms(1,2) offending_eq [OF assms(3) normalize_profile_cases [OF assms(1)]]
  by (auto simp: validate_for_profile_def evaluate_profile_def lift_gate_def split: list.splits)

lemma find_ex: "find P xs = None \<longleftrightarrow> \<not> list_ex P xs" "find P xs = Some x \<Longrightarrow> list_ex P xs"
  by (auto simp: find_None_iff find_Some_iff list_ex_iff)

text \<open>
  The gate at the entry of an execution lets a flow pass exactly when the host is managed or no
  node the flow can reach needs a managed host; a rejection names such a node, and advises to
  restructure exactly when a frame other than a child or reference call lies on the way to it.
\<close>

theorem entry_gate_exact:
  assumes "normalize_profile p = Inr env"
  shows "((\<exists>rep. validate_for_profile ''error'' h True res p stage root = Inr rep) \<longleftrightarrow>
      env = ''managed'' \<or> \<not> (\<exists>fr fid n. node_at h res root fr fid n \<and> fst (node_execution_tier n) \<noteq> ''inline''))
    \<and> (\<forall>rj. validate_for_profile ''error'' h True res p stage root = Inl (NotExecutable rj) \<longrightarrow>
      (\<exists>fr n. node_at h res root fr (rj_flow_id rj) n \<and> fst (node_execution_tier n) \<noteq> ''inline''
        \<and> rj_node_id rj = cn_id n \<and> rj_profile rj = ''inline''
        \<and> (rj_fix rj = ''restructure'' \<longleftrightarrow> list_ex (\<lambda>f. cn_type f \<notin> {''child'', ''reference''}) fr)))"
proof -
  obtain c where c: "capability_closure h True res root = Inr c" "list_all (site_ok h res root) (cl_sites c)"
    "\<And>fr fid n. node_at h res root fr fid n \<Longrightarrow> managed n \<Longrightarrow> \<exists>s \<in> set (cl_sites c). st_flow_id s = fid \<and> st_node s = n"
    using capability_closure_eq [of h res root] by blast
  obtain rep where v: "validate_for_profile ''error'' h True res p stage root =
    (if env = ''inline'' \<and> cl_sites c \<noteq> [] then Inl (NotExecutable (suspend_error (hd (cl_sites c)) env stage)) else Inr rep)"
    using validate_eq [OF assms c(1,2), of "''error''" stage] by auto
  have sites: "cl_sites c = [] \<longleftrightarrow> \<not> (\<exists>fr fid n. node_at h res root fr fid n \<and> managed n)"
    using c(2,3) by (cases "cl_sites c") (auto simp: site_ok_def)
  have rej: "\<exists>fr n. node_at h res root fr (rj_flow_id rj) n \<and> managed n \<and> rj_node_id rj = cn_id n \<and> rj_profile rj = ''inline''
        \<and> (rj_fix rj = ''restructure'' \<longleftrightarrow> list_ex (\<lambda>f. cn_type f \<notin> {''child'', ''reference''}) fr)"
    if "rj = suspend_error s ''inline'' stage" "site_ok h res root s" for rj s
    using that
    by (intro exI [of _ "st_frames s"] exI [of _ "st_node s"])
      (auto simp: suspend_error_def site_ok_def find_ex(1) dest: find_ex(2) split: option.splits)
  have hd_ok: "cl_sites c \<noteq> [] \<Longrightarrow> site_ok h res root (hd (cl_sites c))"
    using c(2) by (cases "cl_sites c") simp_all
  have "env = ''inline'' \<or> env = ''managed''" by (rule normalize_profile_cases [OF assms])
  with v sites rej [OF _ hd_ok] show ?thesis unfolding managed_def [symmetric] by (auto split: if_splits)
qed

theorem entry_gate_exact_witness:
  "let ev = \<lparr>cn_id = ''ev'', cn_type = ''event'', cn_tier = Some ''managed'', cn_requirements = [], cn_suspending = True,
             cn_child_flow = None, cn_flow_id = None, cn_branch_flows = []\<rparr>;
       lp = ev\<lparr>cn_id := ''lp'', cn_type := ''loop'', cn_tier := None, cn_suspending := False, cn_child_flow := Some 1\<rparr>;
       h = [(0, \<lparr>cf_id = Some ''f'', cf_nodes = [Live lp]\<rparr>), (1, \<lparr>cf_id = Some ''g'', cf_nodes = [Live lp, Live ev]\<rparr>)]
   in normalize_profile (ProfileName ''normal'') = Inr ''inline''
      \<and> (\<exists>rj. validate_for_profile ''error'' h True (\<lambda>_. None) (ProfileName ''normal'') ''entry'' 0 = Inl (NotExecutable rj)
            \<and> rj_node_id rj = ''ev'' \<and> rj_fix rj = ''restructure'')
      \<and> (\<exists>fr fid n. node_at h (\<lambda>_. None) 0 fr fid n \<and> fst (node_execution_tier n) \<noteq> ''inline'')"
proof -
  let ?ev = "\<lparr>cn_id = ''ev'', cn_type = ''event'', cn_tier = Some ''managed'', cn_requirements = [], cn_suspending = True,
             cn_child_flow = None, cn_flow_id = None, cn_branch_flows = []\<rparr>"
  let ?lp = "?ev\<lparr>cn_id := ''lp'', cn_type := ''loop'', cn_tier := None, cn_suspending := False, cn_child_flow := Some 1\<rparr>"
  let ?h = "[(0, \<lparr>cf_id = Some ''f'', cf_nodes = [Live ?lp]\<rparr>), (1, \<lparr>cf_id = Some ''g'', cf_nodes = [Live ?lp, Live ?ev]\<rparr>)]"
  have n: "normalize_profile (ProfileName ''normal'') = Inr ''inline''" by code_simp
  have v: "case validate_for_profile ''error'' ?h True (\<lambda>_. None) (ProfileName ''normal'') ''entry'' 0 of
      Inl (NotExecutable rj) \<Rightarrow> rj_node_id rj = ''ev'' \<and> rj_fix rj = ''restructure'' | _ \<Rightarrow> False" by code_simp
  then have "\<not> (\<exists>rep. validate_for_profile ''error'' ?h True (\<lambda>_. None) (ProfileName ''normal'') ''entry'' 0 = Inr rep)"
    by (auto split: sum.splits)
  with entry_gate_exact [OF n, of ?h "\<lambda>_. None" "''entry''" 0]
  have "\<exists>fr fid n. node_at ?h (\<lambda>_. None) 0 fr fid n \<and> fst (node_execution_tier n) \<noteq> ''inline''" by simp
  with n v show ?thesis by (auto simp: Let_def split: sum.splits gate_error.splits)
qed

text \<open>
  The entry gate covers the runner: when the root of an execution chain has passed the gate, the
  guard of the node runner lets every node run that the flow can reach through child flows and
  branches, in the root execution and in every child execution.
\<close>

theorem entry_gate_covers_runner:
  assumes "gate_execution_entry ''error'' h x root = Inr (Some rep)" and "root_execution y = x"
    and "node_at h (\<lambda>_. None) root fr fid n"
  shows "assert_node_executable ''error'' n (Some y) fid' = Inr ()"
proof -
  have x: "ex_parent x = None" using assms(2) by (induction y rule: root_execution.induct) auto
  then have rx: "root_execution x = x" by (cases x) auto
  from assms(1) x obtain p where p: "host_profile x = Inr p"
    and v: "validate_for_profile ''error'' h True (\<lambda>_. None) p ''entry'' root = Inr rep"
    by (auto simp: gate_execution_entry_def lift_gate_def rbind_eq_Inr_iff split: sum.splits)
  have hp: "host_profile y = Inr p" using p rx assms(2) by (simp add: host_profile_def Let_def)
  from v obtain env where env: "normalize_profile p = Inr env"
    by (auto simp: validate_for_profile_def evaluate_profile_def lift_gate_def rbind_eq_Inr_iff split: sum.splits)
  obtain c where c: "capability_closure h True (\<lambda>_. None) root = Inr c" "list_all (site_ok h (\<lambda>_. None) root) (cl_sites c)"
    "\<And>fr fid n. node_at h (\<lambda>_. None) root fr fid n \<Longrightarrow> managed n \<Longrightarrow> \<exists>s \<in> set (cl_sites c). st_flow_id s = fid \<and> st_node s = n"
    using capability_closure_eq [of h "\<lambda>_. None" root] by blast
  have "env = ''managed'' \<or> \<not> managed n"
    using validate_eq [OF env c(1,2), of "''error''" "''entry''"] v c(3) [OF assms(3)] normalize_profile_cases [OF env]
    by (auto split: if_splits)
  moreover obtain tier cause where t: "node_execution_tier n = (tier, cause)" by fastforce
  ultimately show ?thesis
    using node_tier_cases [of n] hp env by (auto simp: assert_node_executable_def lift_gate_def managed_def)
qed

theorem entry_gate_covers_runner_witness:
  "let n = \<lparr>cn_id = ''ev'', cn_type = ''event'', cn_tier = Some ''managed'', cn_requirements = [], cn_suspending = True,
            cn_child_flow = None, cn_flow_id = None, cn_branch_flows = []\<rparr>;
       x = Execution None None (Some ''distributed'')
   in assert_node_executable ''error'' n (Some (Execution (Some x) None (Some ''normal''))) None = Inr ()"
proof -
  let ?n = "\<lparr>cn_id = ''ev'', cn_type = ''event'', cn_tier = Some ''managed'', cn_requirements = [], cn_suspending = True,
            cn_child_flow = None, cn_flow_id = None, cn_branch_flows = []\<rparr>"
  let ?h = "[(0, \<lparr>cf_id = Some ''f'', cf_nodes = [Live ?n]\<rparr>)]" and ?x = "Execution None None (Some ''distributed'')"
  have "case gate_execution_entry ''error'' ?h ?x 0 of Inr (Some _) \<Rightarrow> True | _ \<Rightarrow> False" by code_simp
  then obtain rep where g: "gate_execution_entry ''error'' ?h ?x 0 = Inr (Some rep)" by (auto split: sum.splits option.splits)
  have "node_at ?h (\<lambda>_. None) 0 [] (Some ''f'') ?n" by (auto simp: node_at_def intro: framed_root)
  from entry_gate_covers_runner [OF g _ this, of "Execution (Some ?x) None (Some ''normal'')" None] show ?thesis
    by (simp add: Let_def)
qed

section \<open>Contracts and the ledger\<close>

text \<open>
  A node class that passes the registration contract suspends exactly when its tier is not
  inline, so the flag the strategies read and the tier the gates read agree; instances of the
  class are given that tier by the closure, and checking the class again changes nothing.
\<close>

theorem contract_keeps_flag_and_tier:
  assumes "validate_execution_contract ''error'' c = Inr c'" and "cn_tier n = nc_tier c'"
    and "cn_requirements n = nc_requirements c'" and "cn_suspending n = nc_suspending c'"
  shows "(nc_suspending c' \<longleftrightarrow> declared_tier c' \<noteq> ''inline'') \<and> fst (node_execution_tier n) = declared_tier c'
    \<and> snd (node_execution_tier n) \<in> {''declared'', ''legacy''} \<and> validate_execution_contract ''error'' c' = Inr c'"
proof -
  from assms(1) obtain tier where t: "normalize_execution_tier c = Inr (tier, c')"
    and b: "\<not> (nc_suspending c' \<and> tier = ''inline'')" "\<not> list_ex (\<lambda>t. t \<notin> set LEGACY_CAPABILITY_TOKENS) (nc_requirements c')"
    by (auto simp: validate_execution_contract_def rbind_eq_Inr_iff Let_def split: if_splits)
  have eq: "nc_tier c' = nc_tier c" "nc_requirements c' = nc_requirements c"
    using t by (auto simp: normalize_execution_tier_def Let_def split: if_splits)
  have tier: "tier = (case nc_tier c' of Some u \<Rightarrow> u | None \<Rightarrow>
      if nc_requirements c' \<noteq> [] then legacy_tokens_to_tier (nc_requirements c') else ''inline'')"
    using t unfolding eq by (simp add: normalize_execution_tier_def Let_def split: if_splits)
  have valid: "nc_tier c' = None \<or> is_valid_tier (nc_tier c')"
    using t unfolding eq by (auto simp: normalize_execution_tier_def Let_def split: if_splits)
  have d: "declared_tier c' = tier"
    using valid by (auto simp: declared_tier_def tier is_valid_tier_def split: option.splits)
  have own: "nc_own_suspending c' = Some (tier \<noteq> ''inline'')"
    using t b(1) by (cases "nc_own_suspending c") (auto simp: normalize_execution_tier_def Let_def nc_suspending_def split: if_splits)
  have "c'\<lparr>nc_own_suspending := Some (tier \<noteq> ''inline'')\<rparr> = c'" using own by (cases c') simp
  then have again: "normalize_execution_tier c' = Inr (tier, c')"
    using valid unfolding normalize_execution_tier_def tier [symmetric] Let_def by auto
  show ?thesis
    using assms(2-4) own d b again
    by (auto simp: node_execution_tier_def declared_tier_def nc_suspending_def validate_execution_contract_def split: if_splits)
qed

theorem contract_keeps_flag_and_tier_witness:
  "let c = \<lparr>nc_tier = Some ''managed'', nc_requirements = [], nc_own_suspending = None, nc_inherited_suspending = False\<rparr>;
       c' = c\<lparr>nc_own_suspending := Some True\<rparr>;
       n = \<lparr>cn_id = ''ev'', cn_type = ''event'', cn_tier = Some ''managed'', cn_requirements = [], cn_suspending = True,
            cn_child_flow = None, cn_flow_id = None, cn_branch_flows = []\<rparr>
   in validate_execution_contract ''error'' c = Inr c' \<and> nc_suspending c' \<and> fst (node_execution_tier n) = declared_tier c'"
proof -
  let ?c = "\<lparr>nc_tier = Some ''managed'', nc_requirements = [], nc_own_suspending = None, nc_inherited_suspending = False\<rparr>"
  let ?n = "\<lparr>cn_id = ''ev'', cn_type = ''event'', cn_tier = Some ''managed'', cn_requirements = [], cn_suspending = True,
            cn_child_flow = None, cn_flow_id = None, cn_branch_flows = []\<rparr>"
  let ?c' = "?c\<lparr>nc_own_suspending := Some True\<rparr>"
  have v: "validate_execution_contract ''error'' ?c = Inr ?c'" by code_simp
  have "nc_suspending ?c'" by (simp add: nc_suspending_def)
  with contract_keeps_flag_and_tier [OF v, of ?n] v show ?thesis by (simp add: Let_def)
qed

text \<open>
  The comparison of the capability ledger with the registry reports nothing exactly when both
  give every node type the same tier.
\<close>

theorem ledger_diff_empty_iff:
  assumes "dict_wf ledger" and "dict_wf matrix"
  shows "md_added (diff_capability_matrix ledger matrix) = [] \<and> md_removed (diff_capability_matrix ledger matrix) = []
     \<and> md_changed (diff_capability_matrix ledger matrix) = [] \<longleftrightarrow> (\<forall>k. dict_get ledger k = dict_get matrix k)"
proof -
  have none: "List.map_filter g xs = [] \<longleftrightarrow> (\<forall>x \<in> set xs. g x = None)" for g :: "string \<times> string \<Rightarrow> (string \<times> string \<times> string) option" and xs
    by (induction xs) (auto simp: List.map_filter_simps split: option.splits)
  have mem: "(k, v) \<in> set d \<longleftrightarrow> dict_get d k = Some v" if "dict_wf d" for k v and d :: "string dict"
    using that by (simp add: dict_wf_def dict_get_def)
  have ball: "(\<forall>x \<in> set ledger. P x) \<longleftrightarrow> (\<forall>k v. dict_get ledger k = Some v \<longrightarrow> P (k, v))" for P
    by (metis mem [OF assms(1)] surj_pair)
  have added: "md_added (diff_capability_matrix ledger matrix) = [] \<longleftrightarrow> (\<forall>k. dict_has matrix k \<longrightarrow> dict_has ledger k)"
    by (auto simp: diff_capability_matrix_def filter_empty_conv dict_has_def)
  have removed: "md_removed (diff_capability_matrix ledger matrix) = [] \<longleftrightarrow> (\<forall>k. dict_has ledger k \<longrightarrow> dict_has matrix k)"
    by (auto simp: diff_capability_matrix_def filter_empty_conv dict_has_def)
  have changed: "md_changed (diff_capability_matrix ledger matrix) = [] \<longleftrightarrow>
      (\<forall>k v v'. dict_get ledger k = Some v \<longrightarrow> dict_get matrix k = Some v' \<longrightarrow> v = v')"
    unfolding diff_capability_matrix_def matrix_diff.simps none ball prod.case
    by (intro iff_allI) (auto split: option.splits if_splits)
  show ?thesis
  proof (unfold added removed changed, intro iffI allI conjI impI)
    fix k
    assume h: "(\<forall>k. dict_has matrix k \<longrightarrow> dict_has ledger k) \<and> (\<forall>k. dict_has ledger k \<longrightarrow> dict_has matrix k)
      \<and> (\<forall>k v v'. dict_get ledger k = Some v \<longrightarrow> dict_get matrix k = Some v' \<longrightarrow> v = v')"
    show "dict_get ledger k = dict_get matrix k"
    proof (cases "dict_get ledger k")
      case None
      with h have "\<not> dict_has matrix k" by (auto simp: dict_get_None_iff)
      with None show ?thesis using dict_get_None_iff [of matrix k] by simp
    next
      case (Some v)
      then have "dict_has matrix k" using h by (auto simp: dict_has_iff)
      with Some h show ?thesis by (auto simp: dict_has_iff)
    qed
  qed (auto simp: dict_has_iff)
qed

theorem ledger_diff_empty_iff_witness:
  "dict_wf [(''a'', ''inline''), (''b'', ''managed'')] \<and>
   md_changed (diff_capability_matrix [(''a'', ''inline''), (''b'', ''managed'')] [(''b'', ''managed''), (''a'', ''inline'')]) = []"
proof -
  have wf: "dict_wf [(''a'', ''inline''), (''b'', ''managed'')]" "dict_wf [(''b'', ''managed''), (''a'', ''inline'')]"
    by (simp_all add: dict_wf_def)
  have "\<forall>k. dict_get [(''a'', ''inline''), (''b'', ''managed'')] k = dict_get [(''b'', ''managed''), (''a'', ''inline'')] k"
    by (simp add: dict_get_Cons)
  with ledger_diff_empty_iff [OF wf] wf(1) show ?thesis by blast
qed

end
