(* ===== verification/Executor.thy ===== *)
theory Executor
  imports Distributed
begin

text \<open>
  \<^verbatim>\<open>plaita/core/executor.py\<close>, \<^verbatim>\<open>core/executor_compat.py\<close> and
  \<^verbatim>\<open>core/_error_normalization.py\<close>: the facade that prepares a run, drives a strategy, reports the
  start and the end of the flow to the callbacks and normalises errors.

  An execution is its context, whether it is running, whether it is the root of its chain, its
  timeout and the flow callbacks made so far.  The outcome of the capability gate at the entry
  (\<open>gate_execution_entry\<close>, which only a root applies) is the argument \<open>gate\<close>; nodes are
  resolved before.  \<open>guard\<close> is the suspend guard mode.
\<close>

section \<open>State\<close>

datatype flow_cb = OnFlowStart "string option" | OnFlowEnd "string option" pyval "pyval option"

record xstate =
  x_ctx :: ctx
  x_running :: bool
  x_root :: bool
  x_timeout :: pyval
  x_log :: "flow_cb list"

definition flow_error_exception :: exc where
  "flow_error_exception = flow_exc FlowErrorException (- 500) FLOW_ERROR"

definition suspend_not_executable_error :: exc where
  "suspend_not_executable_error = flow_exc SuspendNotExecutableError (- 500) SUSPEND_NOT_EXECUTABLE"

section \<open>Error normalisation\<close>

text \<open>
  \<open>surface_root_suspension\<close>: the structured body of the error, less its prose and the source
  line.  \<open>declared\<close> tells whether the class of a node declares an execution tier or requirements.
\<close>

record root_rejection =
  rr_node_id :: string
  rr_flow_id :: "string option"
  rr_cause :: string
  rr_fix :: string
  rr_frame_path :: "string list"

definition surface_root_suspension :: "(node \<Rightarrow> bool) \<Rightarrow> carrier \<Rightarrow> root_rejection" where
  "surface_root_suspension declared c =
     \<lparr>rr_node_id = nd_id (ca_node c), rr_flow_id = flow_id (ca_flow c),
      rr_cause = (if declared (ca_node c) then ''environment'' else ''undeclared''),
      rr_fix = (case scope_gate_blocker c of Some _ \<Rightarrow> ''restructure'' | None \<Rightarrow> ''run_distributed''),
      rr_frame_path = map (\<lambda>n. nd_id n @ ''('' @ nd_type n @ '')'')
        (rev (ca_node c # map (\<lambda>(f, cx, n). n) (ca_frames c)))\<rparr>"

definition present_root_suspension :: "string \<Rightarrow> carrier \<Rightarrow> raised" where
  "present_root_suspension guard c = (if guard = ''warn'' then Carrier c else Exc suspend_not_executable_error)"

definition raised_code :: "raised \<Rightarrow> pyval" where
  "raised_code r =
     (case r of
        Carrier c \<Rightarrow> PInt (- 500)
      | Exc e \<Rightarrow> if truthy (e_code e) then e_code e else PInt (- 500))"

definition is_flow_exception :: "raised \<Rightarrow> bool" where
  "is_flow_exception r = (case r of Carrier c \<Rightarrow> True | Exc e \<Rightarrow> exc_isa (e_class e) FlowExecutionException)"

definition finish_normal :: "string \<Rightarrow> bool \<Rightarrow> flow \<Rightarrow> raised + pyval \<Rightarrow> (raised + pyval) \<times> flow_cb" where
  "finish_normal guard root f r =
     (case r of
        Inr v \<Rightarrow> (Inr v, OnFlowEnd (flow_id f) v None)
      | Inl (Carrier c) \<Rightarrow>
          (let e = (if root then present_root_suspension guard c else Carrier c)
           in (Inl e, OnFlowEnd (flow_id f) PNone (Some (raised_code e))))
      | Inl (Exc e) \<Rightarrow>
          if is_flow_exception (Exc e) then (Inl (Exc e), OnFlowEnd (flow_id f) PNone (Some (raised_code (Exc e))))
          else (Inl (Exc flow_error_exception), OnFlowEnd (flow_id f) PNone (Some (PInt (- 500)))))"

definition raise_distributed_error :: "flow \<Rightarrow> raised \<times> flow_cb" where
  "raise_distributed_error f = (Exc flow_error_exception, OnFlowEnd (flow_id f) PNone (Some (PInt (- 500))))"

definition emit_flow_end_on_close :: "flow \<Rightarrow> raised option \<Rightarrow> flow_cb" where
  "emit_flow_end_on_close f r =
     (case r of
        None \<Rightarrow> OnFlowEnd (flow_id f) PNone None
      | Some e \<Rightarrow> OnFlowEnd (flow_id f) PNone (Some (if is_flow_exception e then raised_code e else PInt (- 500))))"

section \<open>Preparing a run\<close>

text \<open>
  \<open>_prepare_strategy\<close> up to the strategy call: the gate, \<open>clean\<close>, the start callback,
  \<open>setup_flow\<close> and the merge of the timeouts.
\<close>

definition merged_timeout :: "'w host \<Rightarrow> flow \<Rightarrow> xstate \<Rightarrow> exc + int option" where
  "merged_timeout H f x =
     (let parse = (\<lambda>v. case parse_timeout (isodur (h_env H)) v of
          Inl _ \<Rightarrow> Inl (plain_exc (Builtin ValueError)) | Inr t \<Rightarrow> Inr t) in
      rbind (parse (flow_timeout f)) (\<lambda>a. rbind (parse (x_timeout x)) (\<lambda>b. Inr (merge_timeout_ms a b))))"

definition prepare_strategy ::
  "'w host \<Rightarrow> exc + unit \<Rightarrow> flow \<Rightarrow> pyval list \<Rightarrow> pyval dict \<Rightarrow> xstate \<Rightarrow> 'w \<Rightarrow> (exc + int option) \<times> xstate \<times> 'w" where
  "prepare_strategy H gate f args kwargs x w =
     (case (if x_root x then gate else Inr ()) of
        Inl e \<Rightarrow> (Inl e, x, w)
      | Inr _ \<Rightarrow>
          (let (uuid, w1) = h_uuid H w in
           case clean (h_os_env H) uuid None (x_ctx x) of
             Inl e \<Rightarrow> (Inl e, x, w1)
           | Inr cx \<Rightarrow>
               (let x1 = x\<lparr>x_ctx := cx, x_log := x_log x @ [OnFlowStart (flow_id f)]\<rparr> in
                case setup_flow (h_os_env H) f args kwargs cx of
                  (Inl e, cx') \<Rightarrow> (Inl e, x1\<lparr>x_ctx := cx'\<rparr>, w1)
                | (Inr _, cx') \<Rightarrow> (merged_timeout H f x1, x1\<lparr>x_ctx := cx'\<rparr>, w1))))"

section \<open>Running\<close>

definition reentry_error :: exc where
  "reentry_error = flow_execution_exception"

definition stop_running :: "xstate \<Rightarrow> xstate" where
  "stop_running x = x\<lparr>x_running := False\<rparr>"

text \<open>\<open>run_compatible\<close> with \<open>lazy = False\<close>; \<open>None\<close> when the fuel of the strategy runs out.\<close>

definition run_compatible ::
  "nat \<Rightarrow> 'w host \<Rightarrow> string \<Rightarrow> exc + unit \<Rightarrow> flow \<Rightarrow> pyval list \<Rightarrow> pyval dict \<Rightarrow> xstate \<Rightarrow> 'w \<Rightarrow>
     ((raised + pyval) \<times> xstate \<times> 'w) option" where
  "run_compatible fuel H guard gate f args kwargs x w =
     (if x_running x then Some (Inl (Exc reentry_error), x, w)
      else case prepare_strategy H gate f args kwargs (x\<lparr>x_running := True\<rparr>) w of
        (Inl e, x1, w1) \<Rightarrow> Some (Inl (Exc e), stop_running x1, w1)
      | (Inr timeout, x1, w1) \<Rightarrow>
          map_option (\<lambda>(r, cx, w2).
            let (r', cb) = finish_normal guard (x_root x) f r
            in (r', stop_running (x1\<lparr>x_ctx := cx, x_log := x_log x1 @ [cb]\<rparr>), w2))
            (normal_execute fuel (h_env H) (h_deadline H) f timeout (x_ctx x1) w1))"

text \<open>\<open>run_compatible\<close> with \<open>lazy = True\<close>, the outputs drained.\<close>

definition run_lazy ::
  "nat \<Rightarrow> 'w host \<Rightarrow> string \<Rightarrow> exc + unit \<Rightarrow> flow \<Rightarrow> pyval list \<Rightarrow> pyval dict \<Rightarrow> xstate \<Rightarrow> 'w \<Rightarrow>
     (lazy_out list \<times> (raised + unit) \<times> xstate \<times> 'w) option" where
  "run_lazy fuel H guard gate f args kwargs x w =
     (if x_running x then Some ([], Inl (Exc reentry_error), x, w)
      else case prepare_strategy H gate f args kwargs (x\<lparr>x_running := True\<rparr>) w of
        (Inl e, x1, w1) \<Rightarrow> Some ([], Inl (Exc e), stop_running x1, w1)
      | (Inr timeout, x1, w1) \<Rightarrow>
          map_option (\<lambda>(outs, r, cx, w2).
            let r' = (case r of
                  Inl (Carrier c) \<Rightarrow> Inl (if x_root x then present_root_suspension guard c else Carrier c)
                | _ \<Rightarrow> r);
                cb = emit_flow_end_on_close f (case r' of Inl e \<Rightarrow> Some e | Inr _ \<Rightarrow> None)
            in (outs, r', stop_running (x1\<lparr>x_ctx := cx, x_log := x_log x1 @ [cb]\<rparr>), w2))
            (generator_execute fuel (h_env H) (h_deadline H) f timeout (x_ctx x1) w1))"

text \<open>\<open>execute\<close>: the timeout of the call is merged into the execution's, then the parameters become keyword arguments.\<close>

definition execute ::
  "nat \<Rightarrow> 'w host \<Rightarrow> string \<Rightarrow> exc + unit \<Rightarrow> flow \<Rightarrow> pyval \<Rightarrow> pyval \<Rightarrow> xstate \<Rightarrow> 'w \<Rightarrow>
     ((raised + pyval) \<times> xstate \<times> 'w) option" where
  "execute fuel H guard gate f params timeout x w =
     (let parse = (\<lambda>v. case parse_timeout (isodur (h_env H)) v of
          Inl _ \<Rightarrow> Inl (plain_exc (Builtin ValueError)) | Inr t \<Rightarrow> Inr t) in
      case (case params of PNone \<Rightarrow> Some [] | PDict d \<Rightarrow> Some d | _ \<Rightarrow> None) of
        None \<Rightarrow> Some (Inl (Exc (plain_exc (Builtin TypeError))), x, w)
      | Some kwargs \<Rightarrow>
          (case (if timeout = PNone then Inr (x_timeout x)
                 else rbind (parse (x_timeout x)) (\<lambda>a. rbind (parse timeout) (\<lambda>b. Inr (opt_int (merge_timeout_ms a b))))) of
             Inl e \<Rightarrow> Some (Inl (Exc e), x, w)
           | Inr t \<Rightarrow> run_compatible fuel H guard gate f [] kwargs (x\<lparr>x_timeout := t\<rparr>) w))"

text \<open>
  \<open>run_distributed\<close>: a rejection by the gate, an illegal timeout and every error of the
  strategy become the one flat error; another error of the gate propagates as it is.
\<close>

definition run_distributed ::
  "nat \<Rightarrow> 'w host \<Rightarrow> exc + unit \<Rightarrow> flow \<Rightarrow> pyval dict \<Rightarrow> pyval dict \<Rightarrow> pyval \<Rightarrow> pyval \<Rightarrow> pyval \<Rightarrow> string option \<Rightarrow> xstate \<Rightarrow> 'w \<Rightarrow>
     ((raised + lazy_out) \<times> xstate \<times> 'w) option" where
  "run_distributed fuel H gate f params saved resume_type resume_data timeout eid x w =
     (if x_running x then Some (Inl (Exc reentry_error), x, w)
      else
        (let x1 = x\<lparr>x_running := True\<rparr>; (err, cb) = raise_distributed_error f;
             flat = (\<lambda>x' w'. (Inl err, stop_running (x'\<lparr>x_log := x_log x' @ [cb]\<rparr>), w')) in
         case (if x_root x then gate else Inr ()) of
           Inl e \<Rightarrow>
             if exc_isa (e_class e) SuspendNotExecutableError \<or> exc_isa (e_class e) ExecutionProfileError
             then Some (flat x1 w) else Some (Inl (Exc e), stop_running x1, w)
         | Inr _ \<Rightarrow>
             (case distributed_timeout_ms (isodur (h_env H)) f (x_timeout x) timeout of
                Inl _ \<Rightarrow> Some (flat x1 w)
              | Inr t \<Rightarrow>
                  map_option (\<lambda>(r, cx, w').
                    case r of
                      Inl _ \<Rightarrow> flat (x1\<lparr>x_ctx := cx\<rparr>) w'
                    | Inr out \<Rightarrow> (Inr out, stop_running (x1\<lparr>x_ctx := cx\<rparr>), w'))
                    (distributed_execute fuel H f params t saved resume_type resume_data eid (x_ctx x) w))))"

text \<open>\<open>get_child_execution\<close> and the run of a child flow in it; the parent is not changed.\<close>

definition child_run ::
  "nat \<Rightarrow> 'w host \<Rightarrow> string \<Rightarrow> flow \<Rightarrow> pyval list \<Rightarrow> pyval dict \<Rightarrow> ctx \<Rightarrow> 'w \<Rightarrow> ((raised + pyval) \<times> 'w) option" where
  "child_run fuel H guard f args kwargs cx w =
     (let (uuid, w1) = h_uuid H w in
      case child (Suc (cx_id cx)) uuid cx of
        Inl e \<Rightarrow> Some (Inl (Exc e), w1)
      | Inr ccx \<Rightarrow>
          map_option (\<lambda>(r, x, w2). (r, w2))
            (run_compatible fuel H guard (Inr ()) f args kwargs
              \<lparr>x_ctx = ccx, x_running = False, x_root = False, x_timeout = PNone, x_log = []\<rparr> w1))"

section \<open>Contracts\<close>

lemma prepare_log:
  assumes "prepare_strategy H gate f args kwargs x w = (r, x1, w1)"
  shows "case r of
      Inl _ \<Rightarrow> x_log x1 = x_log x \<or> x_log x1 = x_log x @ [OnFlowStart (flow_id f)]
    | Inr _ \<Rightarrow> x_log x1 = x_log x @ [OnFlowStart (flow_id f)]"
  using assms
  by (auto simp: prepare_strategy_def Let_def merged_timeout_def split: sum.splits prod.splits if_splits)

lemma raised_code_truthy: "truthy (raised_code e)"
  by (cases e) (simp_all add: raised_code_def)

lemma finish_normal_outcome:
  assumes "finish_normal guard root f r = (r', cb)"
  shows "cb = (case r' of Inr v \<Rightarrow> OnFlowEnd (flow_id f) v None | Inl e \<Rightarrow> OnFlowEnd (flow_id f) PNone (Some (raised_code e)))"
    and "r' = Inl e \<Longrightarrow> is_flow_exception e"
    and "r' = Inl e \<Longrightarrow> root \<Longrightarrow> guard \<noteq> ''warn'' \<Longrightarrow> \<exists>ex. e = Exc ex"
  using assms
  by (auto simp: finish_normal_def present_root_suspension_def Let_def raised_code_def is_flow_exception_def
      flow_error_exception_def suspend_not_executable_error_def flow_exc_def plain_exc_def exc_isa_def
      split: sum.splits raised.splits if_splits)

text \<open>
  Property C34. The life cycle of an eager run that returns.  Whatever happened in it, the execution is not left running, and a run
  on an execution that is already running is refused without touching it.  Once the preparation
  has succeeded the callbacks see exactly one start and one end; the end carries the result or
  a non-zero error code, every error that leaves is one of the engine's, and under the strict
  guard the root never lets the carrier of a suspension escape.  An error of the preparation
  leaves as it is, without an end callback, even when the start was already reported.
\<close>

theorem eager_run_lifecycle:
  assumes "run_compatible fuel H guard gate f args kwargs x w = Some (r, x', w')"
  shows "if x_running x then r = Inl (Exc reentry_error) \<and> x' = x \<and> w' = w
    else \<not> x_running x' \<and>
      (case prepare_strategy H gate f args kwargs (x\<lparr>x_running := True\<rparr>) w of
         (Inl e, _) \<Rightarrow> r = Inl (Exc e) \<and> (x_log x' = x_log x \<or> x_log x' = x_log x @ [OnFlowStart (flow_id f)])
       | (Inr _, _) \<Rightarrow>
           x_log x' = x_log x @ [OnFlowStart (flow_id f),
             (case r of Inr v \<Rightarrow> OnFlowEnd (flow_id f) v None
              | Inl e \<Rightarrow> OnFlowEnd (flow_id f) PNone (Some (raised_code e)))]
           \<and> (case r of Inr v \<Rightarrow> True
              | Inl e \<Rightarrow> is_flow_exception e \<and> truthy (raised_code e)
                  \<and> (x_root x \<and> guard \<noteq> ''warn'' \<longrightarrow> (\<exists>ex. e = Exc ex))))"
proof (cases "x_running x")
  case True
  with assms show ?thesis by (simp add: run_compatible_def)
next
  case False
  obtain p x1 w1 where P: "prepare_strategy H gate f args kwargs (x\<lparr>x_running := True\<rparr>) w = (p, x1, w1)"
    using prod_cases3 by blast
  note log = prepare_log [OF P]
  show ?thesis
  proof (cases p)
    case (Inl e)
    with assms False P log show ?thesis by (auto simp: run_compatible_def stop_running_def)
  next
    case (Inr t)
    with assms False P obtain r0 cx where
      "r = fst (finish_normal guard (x_root x) f r0)"
      and x': "x' = stop_running (x1\<lparr>x_ctx := cx, x_log := x_log x1 @ [snd (finish_normal guard (x_root x) f r0)]\<rparr>)"
      by (auto simp: run_compatible_def case_prod_beta Let_def)
    then have fin: "finish_normal guard (x_root x) f r0 = (r, snd (finish_normal guard (x_root x) f r0))" by simp
    from finish_normal_outcome [OF fin] x' log Inr False P show ?thesis
      by (auto simp: stop_running_def raised_code_truthy split: sum.splits)
  qed
qed

definition root_x :: xstate where
  "root_x = \<lparr>x_ctx = new_context default_names 0 ''e1'' [], x_running = False, x_root = True, x_timeout = PNone, x_log = []\<rparr>"

theorem eager_run_lifecycle_witness:
  "\<exists>x' w'. run_compatible 9 (example_host (\<lambda>_. Inr PNone)) ''error'' (Inr ()) (Flow (Some ''f'') [] (PStr ''x'') [] []) [] [] root_x 0
      = Some (Inl (Exc (plain_exc (Builtin ValueError))), x', w')
    \<and> x_log x' = [OnFlowStart (Some ''f'')] \<and> \<not> x_running x'"
proof -
  let ?H = "example_host (\<lambda>_. Inr PNone)" and ?f = "Flow (Some ''f'') [] (PStr ''x'') [] []"
  obtain x1 where P: "prepare_strategy ?H (Inr ()) ?f [] [] (root_x\<lparr>x_running := True\<rparr>) 0
      = (Inl (plain_exc (Builtin ValueError)), x1, 0)" and log: "x_log x1 = [OnFlowStart (Some ''f'')]"
    by (auto simp: prepare_strategy_def root_x_def example_host_def script_env_def clean_def safe_environment_def
        new_context_def setup_flow_def flow_globals_def snapshot_value_def SNAPSHOT_MAX_DEPTH_def coerce_input_value_def
        merged_timeout_def parse_timeout_def str_isdigit_def is_digit_def ascii_digit_def Let_def)
  have R: "run_compatible 9 ?H ''error'' (Inr ()) ?f [] [] root_x 0
      = Some (Inl (Exc (plain_exc (Builtin ValueError))), stop_running x1, 0)"
    using P by (simp add: run_compatible_def root_x_def)
  from eager_run_lifecycle [OF R] R log show ?thesis by (auto simp: root_x_def stop_running_def)
qed

text \<open>
  The distributed entry has one error shape: when the gate lets the flow pass or rejects it as not
  executable, every failure, the gate's, an illegal timeout and any error of the strategy, leaves
  as \<open>FlowErrorException\<close> with one end callback carrying code -500; a step that succeeds makes
  no end callback; and the execution is not left running.
\<close>

theorem distributed_errors_are_flat:
  assumes "run_distributed fuel H gate f params saved resume_type resume_data timeout eid x w = Some (r, x', w')"
    and "\<not> x_running x"
    and "gate = Inr () \<or> gate = Inl suspend_not_executable_error"
  shows "\<not> x_running x' \<and>
    (case r of
       Inl e \<Rightarrow> e = Exc flow_error_exception \<and> x_log x' = x_log x @ [OnFlowEnd (flow_id f) PNone (Some (PInt (- 500)))]
     | Inr _ \<Rightarrow> x_log x' = x_log x)"
proof -
  have rej: "exc_isa (e_class suspend_not_executable_error) SuspendNotExecutableError"
    by (simp add: suspend_not_executable_error_def flow_exc_def plain_exc_def exc_isa_def)
  have gate: "(if x_root x then gate else Inr ()) = Inr () \<or> (if x_root x then gate else Inr ()) = Inl suspend_not_executable_error"
    using assms(3) by auto
  show ?thesis
  proof (cases "(if x_root x then gate else Inr ()) = Inr () \<and> (\<exists>t. distributed_timeout_ms (isodur (h_env H)) f (x_timeout x) timeout = Inr t)")
    case True
    then obtain t where t: "distributed_timeout_ms (isodur (h_env H)) f (x_timeout x) timeout = Inr t" by blast
    with assms(1,2) True obtain r0 cx w0 where
      "distributed_execute fuel H f params t saved resume_type resume_data eid (x_ctx x) w = Some (r0, cx, w0)"
      by (auto simp: run_distributed_def Let_def case_prod_beta)
    with assms(1,2) True t show ?thesis
      by (cases r0) (auto simp: run_distributed_def raise_distributed_error_def stop_running_def Let_def)
  next
    case False
    with gate assms(1,2) rej show ?thesis
      by (auto simp: run_distributed_def raise_distributed_error_def stop_running_def Let_def split: sum.splits)
  qed
qed

theorem distributed_errors_are_flat_witness:
  "\<exists>x' w'. run_distributed 1 (example_host (\<lambda>_. Inr PNone)) (Inl suspend_not_executable_error) line_flow [] [] (PStr ''continue'')
      PNone PNone None root_x 0 = Some (Inl (Exc flow_error_exception), x', w')
    \<and> x_log x' = [OnFlowEnd (flow_id line_flow) PNone (Some (PInt (- 500)))]"
proof -
  obtain r x' w' where R: "run_distributed 1 (example_host (\<lambda>_. Inr PNone)) (Inl suspend_not_executable_error) line_flow [] []
      (PStr ''continue'') PNone PNone None root_x 0 = Some (r, x', w')" "\<exists>e. r = Inl e"
    by (simp add: run_distributed_def root_x_def suspend_not_executable_error_def flow_exc_def plain_exc_def exc_isa_def
        raise_distributed_error_def Let_def)
  have "\<not> x_running root_x" by (simp add: root_x_def)
  from distributed_errors_are_flat [OF R(1) this] R show ?thesis by (auto simp: root_x_def)
qed

text \<open>The advice given for a suspension at the root agrees with what the distributed strategy would do.\<close>

lemma root_suspension_advice:
  "rr_fix (surface_root_suspension declared c) = ''restructure'' \<Longrightarrow>
     park_nested_suspension H c cx w = (Inl (Exc flow_suspend_rejected_error), cx, w)"
  by (auto simp: surface_root_suspension_def park_nested_suspension_def araise_def split: option.splits)
end
