(* ===== verification/Collection_Nodes.thy ===== *)
theory Collection_Nodes
  imports Executor "HOL-Library.Multiset"
begin

text \<open>
  \<^verbatim>\<open>plaita/node/loop.py\<close>, \<^verbatim>\<open>node/child.py\<close>, \<^verbatim>\<open>node/assignment.py\<close>, \<^verbatim>\<open>node/end.py\<close> and
  the type check \<open>match\<close> of \<^verbatim>\<open>plaita/io.py\<close>: the nodes which run a child flow per element of a
  collection or while a condition holds, the nodes which call a flow, assignments and ends.

  A node body is a function of the world with a result, an exception or, when the fuel of a child run
  is used up, nothing.  The argument \<open>run\<close> stands for \<open>get_child_execution\<close> followed by
  \<open>run_compatible\<close>: for a flow, its arguments and keyword arguments and the context of the
  parent; \<open>child_run fuel H guard\<close> of \<open>Executor\<close> is its instance.  The expression evaluator
  and \<open>json.loads\<close> are arguments too.  In the values of the model a copy is the value itself.
\<close>

section \<open>Bodies\<close>

type_synonym ('w, 'a) body = "'w \<Rightarrow> ((raised + 'a) \<times> 'w) option"
type_synonym 'w child_runner = "flow \<Rightarrow> pyval list \<Rightarrow> pyval dict \<Rightarrow> ctx \<Rightarrow> ('w, pyval) body"

record evaluator =
  ev_state :: "ckpt \<Rightarrow> string \<Rightarrow> pyval \<Rightarrow> exc + pyval"
  ev_dict :: "pyval dict \<Rightarrow> string \<Rightarrow> pyval \<Rightarrow> exc + pyval"
  json_loads :: "string \<Rightarrow> pyval option"

definition bret :: "'a \<Rightarrow> ('w, 'a) body" where
  "bret x w = Some (Inr x, w)"

definition blift :: "exc + 'a \<Rightarrow> ('w, 'a) body" where
  "blift r w = Some ((case r of Inl e \<Rightarrow> Inl (Exc e) | Inr x \<Rightarrow> Inr x), w)"

definition bbind :: "('w, 'a) body \<Rightarrow> ('a \<Rightarrow> ('w, 'b) body) \<Rightarrow> ('w, 'b) body" where
  "bbind m f w =
     (case m w of None \<Rightarrow> None | Some (Inl e, w') \<Rightarrow> Some (Inl e, w') | Some (Inr x, w') \<Rightarrow> f x w')"

lemma bbind_simps [simp]:
  "bbind (bret x) f w = f x w"
  "bbind (blift (Inr x)) f w = f x w"
  "bbind (blift (Inl e)) f w = Some (Inl (Exc e), w)"
  "m w = Some (Inr x, w') \<Longrightarrow> bbind m f w = f x w'"
  "m w = Some (Inl r, w') \<Longrightarrow> bbind m f w = Some (Inl r, w')"
  "m w = None \<Longrightarrow> bbind m f w = None"
  by (simp_all add: bbind_def bret_def blift_def)

section \<open>Collections\<close>

text \<open>\<open>_coerce_collection\<close>; iterating a dictionary gives its keys, a number is not iterable.\<close>

definition coerce_collection :: "(string \<Rightarrow> pyval option) \<Rightarrow> pyval \<Rightarrow> exc + pyval list" where
  "coerce_collection loads v =
     (case v of
        PStr s \<Rightarrow>
          (let stripped = str_strip s in
           if take 1 stripped = ''['' then
             (case loads stripped of
                Some (PList xs) \<Rightarrow> Inr xs | Some (PTuple xs) \<Rightarrow> Inr xs | _ \<Rightarrow> Inr [v])
           else Inr [v])
      | PNone \<Rightarrow> Inr []
      | PList xs \<Rightarrow> Inr xs
      | PTuple xs \<Rightarrow> Inr xs
      | PDict d \<Rightarrow> Inr (map (\<lambda>(k, _). PStr k) d)
      | PInt _ \<Rightarrow> Inl (plain_exc (Builtin TypeError))
      | PBool _ \<Rightarrow> Inl (plain_exc (Builtin TypeError)))"

definition eval_collection :: "evaluator \<Rightarrow> pyval \<Rightarrow> ctx \<Rightarrow> exc + pyval list" where
  "eval_collection EV coll cx =
     rbind (evaluate (ev_state EV) cx coll) (\<lambda>v. rbind (snapshot_value v) (coerce_collection (json_loads EV)))"

text \<open>
  \<open>_condition_context\<close>: the top level of the context with the loop bindings.  The copies made
  for the roots the condition mentions protect the context from functions that change their
  argument in place; on values they are the identity.
\<close>

definition condition_context :: "ctx \<Rightarrow> pyval \<Rightarrow> int \<Rightarrow> pyval option \<Rightarrow> exc + pyval dict" where
  "condition_context cx item index result =
     (let p = en_prefix (cx_names cx) in
      rbind (ck_view (cx_state cx)) (\<lambda>d.
        let d1 = dict_set (p @ ''LOOP-INDEX'') (PInt index) (dict_set (p @ ''LOOP-ITEM'') item d)
        in Inr (case result of None \<Rightarrow> d1 | Some r \<Rightarrow> dict_set (p @ ''LOOP-RESULT'') r d1)))"

definition condition_matches ::
  "evaluator \<Rightarrow> ctx \<Rightarrow> condition \<Rightarrow> pyval \<Rightarrow> int \<Rightarrow> pyval option \<Rightarrow> exc + bool" where
  "condition_matches EV cx c item index result =
     rbind (condition_context cx item index result) (\<lambda>d. match (ev_dict EV d (en_prefix (cx_names cx))) c)"

section \<open>Collection nodes\<close>

record collection_node =
  c_child :: flow
  c_collection :: pyval

record loop_node = collection_node +
  l_condition :: "condition option"

record reduce_node = collection_node +
  r_initial :: pyval
  r_array_input :: bool

text \<open>The child run for one element, with its index.\<close>

definition item_kwargs :: "pyval \<Rightarrow> int \<Rightarrow> pyval dict" where
  "item_kwargs x i = [(''item'', x), (''index'', PInt i)]"

definition run_item :: "'w child_runner \<Rightarrow> flow \<Rightarrow> ctx \<Rightarrow> pyval \<Rightarrow> int \<Rightarrow> ('w, pyval) body" where
  "run_item run f cx x i = run f [] (item_kwargs x i) cx"

fun loop_items ::
  "(pyval \<Rightarrow> int \<Rightarrow> ('w, pyval) body) \<Rightarrow> (pyval \<Rightarrow> int \<Rightarrow> pyval \<Rightarrow> exc + bool) \<Rightarrow> pyval \<Rightarrow> int \<Rightarrow> pyval list \<Rightarrow>
     ('w, pyval) body" where
  "loop_items one cont acc i [] = bret acc"
| "loop_items one cont acc i (x # xs) =
     bbind (one x i) (\<lambda>r. bbind (blift (cont x i r)) (\<lambda>go.
       if go then loop_items one cont r (i + 1) xs else bret r))"

definition loop_execute :: "evaluator \<Rightarrow> 'w child_runner \<Rightarrow> loop_node \<Rightarrow> ctx \<Rightarrow> ('w, pyval) body" where
  "loop_execute EV run n cx =
     bbind (blift (eval_collection EV (c_collection n) cx)) (\<lambda>xs.
       loop_items (run_item run (c_child n) cx)
         (\<lambda>x i r. case l_condition n of None \<Rightarrow> Inr True | Some c \<Rightarrow> condition_matches EV cx c x i (Some r))
         PNone 0 xs)"

fun map_items :: "(pyval \<Rightarrow> int \<Rightarrow> ('w, pyval) body) \<Rightarrow> int \<Rightarrow> pyval list \<Rightarrow> ('w, pyval list) body" where
  "map_items one i [] = bret []"
| "map_items one i (x # xs) =
     bbind (one x i) (\<lambda>r. bbind (map_items one (i + 1) xs) (\<lambda>rs. bret (r # rs)))"

definition map_execute :: "evaluator \<Rightarrow> 'w child_runner \<Rightarrow> collection_node \<Rightarrow> ctx \<Rightarrow> ('w, pyval) body" where
  "map_execute EV run n cx =
     bbind (blift (eval_collection EV (c_collection n) cx)) (\<lambda>xs.
       bbind (map_items (run_item run (c_child n) cx) 0 xs) (\<lambda>rs. bret (PList rs)))"

text \<open>
  \<open>Map\<close> with \<open>concurrent=True\<close>: every element is submitted, the children run in the order
  \<open>sched\<close>, and the results are collected by index, so the error that leaves is that of the first
  failing element.  Children are interleaved as whole runs here.
\<close>

fun run_scheduled ::
  "(pyval \<Rightarrow> int \<Rightarrow> ('w, pyval) body) \<Rightarrow> pyval list \<Rightarrow> nat list \<Rightarrow> (nat \<Rightarrow> (raised + pyval) option) \<Rightarrow> 'w \<Rightarrow>
     ((nat \<Rightarrow> (raised + pyval) option) \<times> 'w) option" where
  "run_scheduled one xs [] got w = Some (got, w)"
| "run_scheduled one xs (k # ks) got w =
     (case one (xs ! k) (int k) w of
        None \<Rightarrow> None
      | Some (r, w') \<Rightarrow> run_scheduled one xs ks (got(k \<mapsto> r)) w')"

fun collect_futures :: "(raised + pyval) option list \<Rightarrow> (raised + pyval list) option" where
  "collect_futures [] = Some (Inr [])"
| "collect_futures (None # rs) = None"
| "collect_futures (Some (Inl e) # rs) = Some (Inl e)"
| "collect_futures (Some (Inr v) # rs) =
     (case collect_futures rs of None \<Rightarrow> None | Some (Inl e) \<Rightarrow> Some (Inl e) | Some (Inr vs) \<Rightarrow> Some (Inr (v # vs)))"

definition map_concurrent ::
  "(pyval \<Rightarrow> int \<Rightarrow> ('w, pyval) body) \<Rightarrow> nat list \<Rightarrow> pyval list \<Rightarrow> ('w, pyval list) body" where
  "map_concurrent one sched xs w =
     (case run_scheduled one xs sched (\<lambda>_. None) w of
        None \<Rightarrow> None
      | Some (got, w') \<Rightarrow> map_option (\<lambda>r. (r, w')) (collect_futures (map got [0..<length xs])))"

fun filter_items :: "(pyval \<Rightarrow> int \<Rightarrow> ('w, pyval) body) \<Rightarrow> int \<Rightarrow> pyval list \<Rightarrow> ('w, pyval list) body" where
  "filter_items one i [] = bret []"
| "filter_items one i (x # xs) =
     bbind (one x i) (\<lambda>r. bbind (filter_items one (i + 1) xs) (\<lambda>rs. bret (if truthy r then x # rs else rs)))"

definition filter_execute :: "evaluator \<Rightarrow> 'w child_runner \<Rightarrow> collection_node \<Rightarrow> ctx \<Rightarrow> ('w, pyval) body" where
  "filter_execute EV run n cx =
     bbind (blift (eval_collection EV (c_collection n) cx)) (\<lambda>xs.
       bbind (filter_items (run_item run (c_child n) cx) 0 xs) (\<lambda>rs. bret (PList rs)))"

fun find_items :: "(pyval \<Rightarrow> int \<Rightarrow> ('w, pyval) body) \<Rightarrow> int \<Rightarrow> pyval list \<Rightarrow> ('w, pyval) body" where
  "find_items one i [] = bret PNone"
| "find_items one i (x # xs) =
     bbind (one x i) (\<lambda>r. if truthy r then bret x else find_items one (i + 1) xs)"

definition find_execute :: "evaluator \<Rightarrow> 'w child_runner \<Rightarrow> collection_node \<Rightarrow> ctx \<Rightarrow> ('w, pyval) body" where
  "find_execute EV run n cx =
     bbind (blift (eval_collection EV (c_collection n) cx)) (find_items (run_item run (c_child n) cx) 0)"

fun reduce_items :: "(pyval \<Rightarrow> pyval \<Rightarrow> ('w, pyval) body) \<Rightarrow> pyval \<Rightarrow> pyval list \<Rightarrow> ('w, pyval) body" where
  "reduce_items two acc [] = bret acc"
| "reduce_items two acc (x # xs) = bbind (two acc x) (\<lambda>r. reduce_items two r xs)"

text \<open>\<open>Reduce.execute\<close>: \<open>collection[0]\<close> of an empty collection without initial value raises.\<close>

definition run_pair :: "'w child_runner \<Rightarrow> flow \<Rightarrow> bool \<Rightarrow> ctx \<Rightarrow> pyval \<Rightarrow> pyval \<Rightarrow> ('w, pyval) body" where
  "run_pair run f array_input cx a b =
     (if array_input then run f [PList [a, b]] [] cx else run f [] [(''first'', a), (''second'', b)] cx)"

definition reduce_execute :: "evaluator \<Rightarrow> 'w child_runner \<Rightarrow> reduce_node \<Rightarrow> ctx \<Rightarrow> ('w, pyval) body" where
  "reduce_execute EV run n cx =
     bbind (blift (eval_collection EV (c_collection n) cx)) (\<lambda>xs.
       bbind (blift (if r_initial n \<noteq> PNone
                     then rbind (rbind (evaluate (ev_state EV) cx (r_initial n)) snapshot_value) (\<lambda>v. Inr (v, xs))
                     else case xs of [] \<Rightarrow> Inl (plain_exc (Builtin IndexError)) | x # xs' \<Rightarrow> Inr (x, xs')))
         (\<lambda>(v, ys). reduce_items (run_pair run (c_child n) (r_array_input n) cx) v ys))"

section \<open>While\<close>

record while_node =
  w_child :: flow
  w_condition :: "condition option"
  w_max_iterations :: int

definition should_continue :: "evaluator \<Rightarrow> while_node \<Rightarrow> ctx \<Rightarrow> int \<Rightarrow> pyval \<Rightarrow> exc + bool" where
  "should_continue EV n cx index result =
     (case w_condition n of
        None \<Rightarrow> Inr (index = 0)
      | Some c \<Rightarrow> condition_matches EV cx c result index None)"

function while_loop ::
  "(pyval \<Rightarrow> int \<Rightarrow> ('w, pyval) body) \<Rightarrow> (int \<Rightarrow> pyval \<Rightarrow> exc + bool) \<Rightarrow> int \<Rightarrow> int \<Rightarrow> pyval \<Rightarrow> ('w, pyval) body" where
  "while_loop one cont max_it index result w =
     (if index < max_it then
        (case cont index result of
           Inl e \<Rightarrow> Some (Inl (Exc e), w)
         | Inr False \<Rightarrow> Some (Inr result, w)
         | Inr True \<Rightarrow>
             (case one result index w of
                None \<Rightarrow> None
              | Some (Inl e, w') \<Rightarrow> Some (Inl e, w')
              | Some (Inr r, w') \<Rightarrow> while_loop one cont max_it (index + 1) r w'))
      else Some (Inr result, w))"
  by pat_completeness auto
termination
  by (relation "measure (\<lambda>(one, cont, max_it, index, result, w). nat (max_it - index))") auto

declare while_loop.simps [simp del]

definition while_execute :: "evaluator \<Rightarrow> 'w child_runner \<Rightarrow> while_node \<Rightarrow> ctx \<Rightarrow> ('w, pyval) body" where
  "while_execute EV run n cx =
     while_loop (run_item run (w_child n) cx) (should_continue EV n cx) (w_max_iterations n) 0 PNone"

text \<open>On a sound context the view of the state is its keys with their values, so building the context of a condition never fails.\<close>

lemma ck_view_ok:
  assumes "ckpt_inv p c"
  shows "ck_view c = Inr (map (\<lambda>k. (k, the (ck_getitem c k))) (ck_keys c))"
  unfolding ck_view_def
proof (rule rmap_total)
  fix k assume "k \<in> set (ck_keys c)"
  then have "ck_getitem c k \<noteq> None"
    using assms
    by (auto simp: ck_keys_mem ck_getitem_def ckpt_inv_def dict_has_iff split: option.splits)
  then show "(case ck_getitem c k of None \<Rightarrow> Inl (plain_exc (Builtin KeyError)) | Some v \<Rightarrow> Inr (k, v))
      = Inr (k, the (ck_getitem c k))"
    by auto
qed

lemma condition_context_ok: "ctx_ok cx \<Longrightarrow> \<exists>d. condition_context cx item i r = Inr d"
  using ck_view_ok [of "PStr (en_prefix (cx_names cx))" "cx_state cx"]
  by (simp add: condition_context_def ctx_ok_def Let_def)

section \<open>What the collection nodes compute\<close>

text \<open>Children which return on every element: \<open>g\<close> gives their result.\<close>

locale item_children =
  fixes one :: "pyval \<Rightarrow> int \<Rightarrow> ('w, pyval) body" and g :: "pyval \<Rightarrow> int \<Rightarrow> pyval" and xs :: "pyval list"
  assumes one_returns: "x \<in> set xs \<Longrightarrow> \<exists>w'. one x i w = Some (Inr (g x i), w')"
begin

lemma map_result:
  "set ys \<subseteq> set xs \<Longrightarrow>
     \<exists>w'. map_items one (int n) ys w = Some (Inr (map (\<lambda>(k, x). g x (int k)) (enumerate n ys)), w')"
proof (induction ys arbitrary: n w)
  case Nil
  show ?case by (simp add: bret_def)
next
  case (Cons y ys)
  then obtain w1 where "one y (int n) w = Some (Inr (g y (int n)), w1)" using one_returns by fastforce
  moreover obtain w2 where
    "map_items one (int (Suc n)) ys w1 = Some (Inr (map (\<lambda>(k, x). g x (int k)) (enumerate (Suc n) ys)), w2)"
    using Cons.IH [of "Suc n" w1] Cons.prems by auto
  ultimately show ?case by (simp add: bret_def add.commute)
qed

lemma filter_result:
  "set ys \<subseteq> set xs \<Longrightarrow>
     \<exists>w'. filter_items one (int n) ys w
       = Some (Inr (map snd (filter (\<lambda>(k, x). truthy (g x (int k))) (enumerate n ys))), w')"
proof (induction ys arbitrary: n w)
  case Nil
  show ?case by (simp add: bret_def)
next
  case (Cons y ys)
  then obtain w1 where "one y (int n) w = Some (Inr (g y (int n)), w1)" using one_returns by fastforce
  moreover obtain w2 where "filter_items one (int (Suc n)) ys w1
      = Some (Inr (map snd (filter (\<lambda>(k, x). truthy (g x (int k))) (enumerate (Suc n) ys))), w2)"
    using Cons.IH [of "Suc n" w1] Cons.prems by auto
  ultimately show ?case by (simp add: bret_def add.commute)
qed

lemma find_result:
  "set ys \<subseteq> set xs \<Longrightarrow>
     \<exists>w'. find_items one (int n) ys w
       = Some (Inr (case find (\<lambda>(k, x). truthy (g x (int k))) (enumerate n ys) of None \<Rightarrow> PNone | Some (k, x) \<Rightarrow> x), w')"
proof (induction ys arbitrary: n w)
  case Nil
  show ?case by (simp add: bret_def)
next
  case (Cons y ys)
  then obtain w1 where one: "one y (int n) w = Some (Inr (g y (int n)), w1)" using one_returns by fastforce
  obtain w2 where "find_items one (int (Suc n)) ys w1
      = Some (Inr (case find (\<lambda>(k, x). truthy (g x (int k))) (enumerate (Suc n) ys) of
          None \<Rightarrow> PNone | Some (k, x) \<Rightarrow> x), w2)"
    using Cons.IH [of "Suc n" w1] Cons.prems by auto
  with one show ?case by (cases "truthy (g y (int n))") (simp_all add: bret_def add.commute)
qed

lemma loop_result:
  "set ys \<subseteq> set xs \<Longrightarrow>
     \<exists>w'. loop_items one (\<lambda>_ _ _. Inr True) acc (int n) ys w
       = Some (Inr (if ys = [] then acc else g (last ys) (int (n + length ys - 1))), w')"
proof (induction ys arbitrary: n w acc)
  case Nil
  show ?case by (simp add: bret_def)
next
  case (Cons y ys)
  then obtain w1 where one: "one y (int n) w = Some (Inr (g y (int n)), w1)" using one_returns by fastforce
  moreover obtain w2 where "loop_items one (\<lambda>_ _ _. Inr True) (g y (int n)) (int (Suc n)) ys w1
      = Some (Inr (if ys = [] then g y (int n) else g (last ys) (int (Suc n + length ys - 1))), w2)"
    using Cons.IH [of "g y (int n)" "Suc n" w1] Cons.prems by auto
  ultimately show ?case by (auto simp: add.commute)
qed

end

lemma reduce_result:
  assumes "\<And>a x w. x \<in> set xs \<Longrightarrow> \<exists>w'. two a x w = Some (Inr (h a x), w')"
  shows "\<exists>w'. reduce_items two acc xs w = Some (Inr (foldl h acc xs), w')"
  using assms
proof (induction xs arbitrary: acc w)
  case Nil
  show ?case by (simp add: bret_def)
next
  case (Cons x xs)
  obtain w1 where "two acc x w = Some (Inr (h acc x), w1)" using Cons.prems by fastforce
  moreover obtain w2 where "reduce_items two (h acc x) xs w1 = Some (Inr (foldl h (h acc x) xs), w2)"
    using Cons.IH [of "h acc x" w1] Cons.prems by auto
  ultimately show ?case by simp
qed

section \<open>Failures\<close>

text \<open>Successive runs of the children of a list of elements, with their results.\<close>

inductive runs :: "(pyval \<Rightarrow> int \<Rightarrow> ('w, pyval) body) \<Rightarrow> int \<Rightarrow> pyval list \<Rightarrow> 'w \<Rightarrow> pyval list \<Rightarrow> 'w \<Rightarrow> bool"
  for one where
  runs_Nil: "runs one i [] w [] w"
| runs_Cons: "one x i w = Some (Inr r, w1) \<Longrightarrow> runs one (i + 1) xs w1 rs w2 \<Longrightarrow> runs one i (x # xs) w (r # rs) w2"

lemma map_items_fails:
  assumes "runs one i xs w rs w1" and "one y (i + int (length xs)) w1 = Some (Inl e, w2)"
  shows "map_items one i (xs @ y # ys) w = Some (Inl e, w2)"
  using assms by (induction rule: runs.induct) (simp_all add: add.assoc add.commute)

lemma filter_items_fails:
  assumes "runs one i xs w rs w1" and "one y (i + int (length xs)) w1 = Some (Inl e, w2)"
  shows "filter_items one i (xs @ y # ys) w = Some (Inl e, w2)"
  using assms by (induction rule: runs.induct) (simp_all add: add.assoc add.commute)

lemma find_items_fails:
  assumes "runs one i xs w rs w1" and "one y (i + int (length xs)) w1 = Some (Inl e, w2)"
    and "list_all (\<lambda>r. \<not> truthy r) rs"
  shows "find_items one i (xs @ y # ys) w = Some (Inl e, w2)"
  using assms by (induction rule: runs.induct) (simp_all add: add.assoc add.commute)


section \<open>The concurrent map\<close>

text \<open>Children whose outcome does not depend on the world.\<close>

definition oblivious :: "(pyval \<Rightarrow> int \<Rightarrow> ('w, pyval) body) \<Rightarrow> (pyval \<Rightarrow> int \<Rightarrow> raised + pyval) \<Rightarrow> pyval list \<Rightarrow> bool" where
  "oblivious one out xs \<longleftrightarrow> (\<forall>x \<in> set xs. \<forall>i w. \<exists>w'. one x i w = Some (out x i, w'))"

lemma obliviousD: "oblivious one out xs \<Longrightarrow> x \<in> set xs \<Longrightarrow> \<exists>w'. one x i w = Some (out x i, w')"
  by (simp add: oblivious_def)

lemma run_scheduled_oblivious:
  assumes "oblivious one out xs" and "set ks \<subseteq> {..<length xs}"
  shows "\<exists>w'. run_scheduled one xs ks got w
    = Some ((\<lambda>k. if k \<in> set ks then Some (out (xs ! k) (int k)) else got k), w')"
  using assms(2)
proof (induction ks arbitrary: got w)
  case Nil
  show ?case by simp
next
  case (Cons k ks)
  then have "xs ! k \<in> set xs" by simp
  from obliviousD [OF assms(1) this] obtain w1 where "one (xs ! k) (int k) w = Some (out (xs ! k) (int k), w1)"
    by blast
  moreover obtain w2 where "run_scheduled one xs ks (got(k \<mapsto> out (xs ! k) (int k))) w1
      = Some ((\<lambda>j. if j \<in> set ks then Some (out (xs ! j) (int j)) else (got(k \<mapsto> out (xs ! k) (int k))) j), w2)"
    using Cons.IH [of "got(k \<mapsto> out (xs ! k) (int k))" w1] Cons.prems by (auto simp only: list.set insert_subset)
  ultimately show ?case by (auto simp: fun_eq_iff)
qed

text \<open>The outcomes in index order, up to the first failure.\<close>

fun seq_outcome :: "(raised + pyval) list \<Rightarrow> raised + pyval list" where
  "seq_outcome [] = Inr []"
| "seq_outcome (r # rs) = rbind r (\<lambda>v. rbind (seq_outcome rs) (\<lambda>vs. Inr (v # vs)))"

lemma collect_futures_Some: "collect_futures (map Some rs) = Some (seq_outcome rs)"
proof (induction rs)
  case (Cons r rs)
  then show ?case by (cases r; cases "seq_outcome rs") auto
qed simp

lemma map_items_oblivious:
  assumes "oblivious one out xs" and "set ys \<subseteq> set xs"
  shows "\<exists>w'. map_items one (int n) ys w = Some (seq_outcome (map (\<lambda>(k, x). out x (int k)) (enumerate n ys)), w')"
  using assms(2)
proof (induction ys arbitrary: n w)
  case Nil
  show ?case by (simp add: bret_def)
next
  case (Cons y ys)
  then have "y \<in> set xs" by simp
  from obliviousD [OF assms(1) this] obtain w1 where one: "one y (int n) w = Some (out y (int n), w1)"
    by blast
  obtain w2 where rest: "map_items one (int (Suc n)) ys w1
      = Some (seq_outcome (map (\<lambda>(k, x). out x (int k)) (enumerate (Suc n) ys)), w2)"
    using Cons.IH [of "Suc n" w1] Cons.prems by auto
  show ?case
    using one rest
    by (cases "out y (int n)"; cases "seq_outcome (map (\<lambda>(k, x). out x (int k)) (enumerate (Suc n) ys))")
      (simp_all add: bret_def add.commute)
qed

lemma enumerate_nth: "map (\<lambda>(k, x). F k x) (enumerate 0 xs) = map (\<lambda>k. F k (xs ! k)) [0..<length xs]"
  by (rule nth_equalityI) (simp_all add: nth_enumerate_eq)

lemma enumerate_filter:
  "map snd (filter (\<lambda>(k, x). P k x) (enumerate 0 xs)) = map (nth xs) (filter (\<lambda>k. P k (xs ! k)) [0..<length xs])"
proof -
  have "enumerate 0 xs = map (\<lambda>k. (k, xs ! k)) [0..<length xs]"
    by (rule nth_equalityI) (simp_all add: nth_enumerate_eq)
  then show ?thesis by (simp add: filter_map comp_def)
qed

lemma find_map: "find P (map F xs) = map_option F (find (\<lambda>x. P (F x)) xs)"
  by (induction xs) simp_all

lemma enumerate_find:
  "(case find (\<lambda>(k, x). P k x) (enumerate 0 xs) of None \<Rightarrow> d | Some (k, x) \<Rightarrow> x)
    = (case find (\<lambda>k. P k (xs ! k)) [0..<length xs] of None \<Rightarrow> d | Some k \<Rightarrow> xs ! k)"
proof -
  have "enumerate 0 xs = map (\<lambda>k. (k, xs ! k)) [0..<length xs]"
    by (rule nth_equalityI) (simp_all add: nth_enumerate_eq)
  then show ?thesis by (cases "find (\<lambda>k. P k (xs ! k)) [0..<length xs]") (simp_all add: find_map)
qed

text \<open>
  The concurrent map agrees with the sequential one.  For children whose outcome does not depend
  on the moment they run, every order in which the pool runs them gives what the sequential map
  gives: the results in the order of the elements, or the error of the first failing element.
\<close>

theorem concurrent_map_agrees:
  assumes "oblivious one out xs" and "mset sched = mset [0..<length xs]"
  shows "\<exists>r w1 w2. map_items one 0 xs w = Some (r, w1) \<and> map_concurrent one sched xs w = Some (r, w2)
    \<and> r = seq_outcome (map (\<lambda>k. out (xs ! k) (int k)) [0..<length xs])"
proof -
  have ks: "set sched = {..<length xs}" using assms(2) mset_eq_setD by fastforce
  obtain w2 where "run_scheduled one xs sched (\<lambda>_. None) w
      = Some ((\<lambda>k. if k \<in> set sched then Some (out (xs ! k) (int k)) else None), w2)"
    using run_scheduled_oblivious [OF assms(1)] ks by blast
  moreover have "map (\<lambda>k. if k \<in> set sched then Some (out (xs ! k) (int k)) else None) [0..<length xs]
      = map Some (map (\<lambda>k. out (xs ! k) (int k)) [0..<length xs])"
    using ks by auto
  ultimately have "map_concurrent one sched xs w
      = Some (seq_outcome (map (\<lambda>k. out (xs ! k) (int k)) [0..<length xs]), w2)"
    by (simp only: map_concurrent_def collect_futures_Some option.case prod.case option.map)
  moreover have "\<exists>w1. map_items one 0 xs w = Some (seq_outcome (map (\<lambda>k. out (xs ! k) (int k)) [0..<length xs]), w1)"
    using map_items_oblivious [OF assms(1), of xs 0] by (simp add: enumerate_nth)
  ultimately show ?thesis by blast
qed

theorem concurrent_map_agrees_witness:
  "\<exists>r w1 w2. map_items (\<lambda>x i w. Some (if i = 1 then Inl (Exc flow_error_exception) else Inr x, w + 1)) 0 [PInt 5, PInt 6, PInt 7] (0 :: int)
      = Some (r, w1)
    \<and> map_concurrent (\<lambda>x i w. Some (if i = 1 then Inl (Exc flow_error_exception) else Inr x, w + 1)) [2, 0, 1] [PInt 5, PInt 6, PInt 7] (0 :: int)
      = Some (r, w2) \<and> r = Inl (Exc flow_error_exception)"
proof -
  let ?one = "\<lambda>x i w. Some (if i = 1 then Inl (Exc flow_error_exception) else Inr x, w + 1 :: int)"
  have "oblivious ?one (\<lambda>x i. if i = 1 then Inl (Exc flow_error_exception) else Inr x) [PInt 5, PInt 6, PInt 7]"
    by (simp add: oblivious_def)
  moreover have "mset [2, 0, 1] = mset [0..<length [PInt 5, PInt 6, PInt 7]]"
    by (simp add: upt_rec)
  ultimately show ?thesis
    using concurrent_map_agrees [of ?one "\<lambda>x i. if i = 1 then Inl (Exc flow_error_exception) else Inr x" "[PInt 5, PInt 6, PInt 7]"
        "[2, 0, 1]" 0] by (simp add: upt_rec)
qed

section \<open>The bounded loop\<close>

text \<open>Complete rounds of the while node: the condition held and the child returned.\<close>

inductive rounds :: "(pyval \<Rightarrow> int \<Rightarrow> ('w, pyval) body) \<Rightarrow> (int \<Rightarrow> pyval \<Rightarrow> exc + bool) \<Rightarrow>
    int \<Rightarrow> pyval \<Rightarrow> 'w \<Rightarrow> int \<Rightarrow> pyval \<Rightarrow> 'w \<Rightarrow> bool" for one cont where
  rounds_done: "rounds one cont i r w i r w"
| rounds_step: "cont i r = Inr True \<Longrightarrow> one r i w = Some (Inr r1, w1) \<Longrightarrow>
    rounds one cont (i + 1) r1 w1 j r2 w2 \<Longrightarrow> rounds one cont i r w j r2 w2"

definition while_stops ::
  "(pyval \<Rightarrow> int \<Rightarrow> ('w, pyval) body) \<Rightarrow> (int \<Rightarrow> pyval \<Rightarrow> exc + bool) \<Rightarrow> int \<Rightarrow> int \<Rightarrow> pyval \<Rightarrow> 'w \<Rightarrow>
     (raised + pyval) \<times> 'w \<Rightarrow> bool" where
  "while_stops one cont max_it j r w res \<longleftrightarrow>
     (if j \<ge> max_it then res = (Inr r, w)
      else case cont j r of
        Inl e \<Rightarrow> res = (Inl (Exc e), w)
      | Inr False \<Rightarrow> res = (Inr r, w)
      | Inr True \<Rightarrow> \<exists>e w'. one r j w = Some (Inl e, w') \<and> res = (Inl e, w'))"

lemma while_loop_rounds:
  assumes "\<And>r i w. one r i w \<noteq> None" and "i \<le> max 0 max_it"
  shows "\<exists>j r' w' res. rounds one cont i r w j r' w' \<and> i \<le> j \<and> j \<le> max 0 max_it
    \<and> while_loop one cont max_it i r w = Some res \<and> while_stops one cont max_it j r' w' res"
  using assms
proof (induction one cont max_it i r w rule: while_loop.induct)
  case (1 one cont max_it i r w)
  show ?case
  proof (cases "i < max_it \<and> cont i r = Inr True \<and> (\<exists>r1 w1. one r i w = Some (Inr r1, w1))")
    case True
    then obtain r1 w1 where step: "one r i w = Some (Inr r1, w1)" by blast
    from True have "i + 1 \<le> max 0 max_it" by linarith
    with step True 1(1) [of True "(Inr r1, w1)"] 1(2-3) obtain j r' w' res where
      "rounds one cont (i + 1) r1 w1 j r' w'" "i + 1 \<le> j" "j \<le> max 0 max_it"
      "while_loop one cont max_it (i + 1) r1 w1 = Some res" "while_stops one cont max_it j r' w' res"
      by auto
    with True step show ?thesis
      by (intro exI [of _ j] exI [of _ r'] exI [of _ w'] exI [of _ res])
        (auto simp: while_loop.simps [of one cont max_it i] intro: rounds_step)
  next
    case False
    from 1(2) [of r i w] obtain out w' where "one r i w = Some (out, w')" by (cases "one r i w") auto
    with False 1(3) show ?thesis
      by (intro exI [of _ i] exI [of _ r] exI [of _ w])
        (auto simp: while_loop.simps [of one cont max_it i] while_stops_def rounds_done
          split: sum.splits bool.splits)
  qed
qed


text \<open>
  The while node returns.  If its children return, the node makes between zero and
  \<open>max_iterations\<close> complete rounds and then stops for one of four reasons: the limit, a
  condition that does not hold, an error of the condition, or an error of the child.  In the first
  two cases its result is that of the last round.
\<close>

theorem while_node_returns:
  assumes "\<And>x i w. run_item run (w_child n) cx x i w \<noteq> None"
  shows "\<exists>j r w' res. rounds (run_item run (w_child n) cx) (should_continue EV n cx) 0 PNone w j r w'
    \<and> 0 \<le> j \<and> j \<le> max 0 (w_max_iterations n)
    \<and> while_execute EV run n cx w = Some res
    \<and> while_stops (run_item run (w_child n) cx) (should_continue EV n cx) (w_max_iterations n) j r w' res"
  unfolding while_execute_def using while_loop_rounds [OF assms, of 0] by simp

definition counting_run :: "nat child_runner" where
  "counting_run f args kwargs cx w =
     Some (case dict_get kwargs ''item'' of Some (PInt k) \<Rightarrow> Inr (PInt (k + 1)) | _ \<Rightarrow> Inr (PInt 1), Suc w)"

lemma counting_returns: "counting_run f args kwargs cx w \<noteq> None"
  by (simp add: counting_run_def)

theorem while_node_returns_witness:
  "\<exists>res. while_execute \<lparr>ev_state = \<lambda>_ _ v. Inr v, ev_dict = \<lambda>d p v. Inr (PBool True), json_loads = \<lambda>_. None\<rparr> counting_run
      \<lparr>w_child = line_flow, w_condition = Some (Condition PNone OP_TRUTHY PNone), w_max_iterations = 3\<rparr>
      example_ctx 0 = Some res \<and> res = (Inr (PInt 3), 3)"
proof -
  let ?EV = "\<lparr>ev_state = \<lambda>_ _ v. Inr v, ev_dict = \<lambda>d p v. Inr (PBool True), json_loads = \<lambda>_. None\<rparr>"
  let ?n = "\<lparr>w_child = line_flow, w_condition = Some (Condition PNone OP_TRUTHY PNone), w_max_iterations = 3\<rparr>"
  let ?cx = example_ctx
  have "should_continue ?EV ?n ?cx i r = Inr True" for i r
    using condition_context_ok [OF example_ctx_ok, of r i None]
    by (auto simp: should_continue_def condition_matches_def match_condition_truthy)
  then have "while_execute ?EV counting_run ?n ?cx 0 = Some (Inr (PInt 3), 3)"
    by (simp add: while_execute_def while_loop.simps run_item_def counting_run_def item_kwargs_def dict_get_def)
  with while_node_returns [of counting_run ?n ?cx ?EV 0] show ?thesis
    by (auto simp: run_item_def counting_returns)
qed

text \<open>
  What the collection nodes compute.  When the collection evaluates to \<open>xs\<close> and every child
  returns, the result of the map is the list of the children's results in order, that of the filter
  the elements whose child returned a true value, that of find the first such element or
  \<open>None\<close>, and that of a loop without condition the last child's result, \<open>None\<close> for an
  empty collection; the children see the index of their element.
\<close>

theorem collection_nodes_compute:
  assumes "eval_collection EV coll cx = Inr xs" and "item_children (run_item run f cx) g xs"
  shows "\<exists>w1 w2 w3 w4.
      map_execute EV run \<lparr>c_child = f, c_collection = coll\<rparr> cx w
        = Some (Inr (PList (map (\<lambda>k. g (xs ! k) (int k)) [0..<length xs])), w1)
    \<and> filter_execute EV run \<lparr>c_child = f, c_collection = coll\<rparr> cx w
        = Some (Inr (PList (map (nth xs) (filter (\<lambda>k. truthy (g (xs ! k) (int k))) [0..<length xs]))), w2)
    \<and> find_execute EV run \<lparr>c_child = f, c_collection = coll\<rparr> cx w
        = Some (Inr (case find (\<lambda>k. truthy (g (xs ! k) (int k))) [0..<length xs] of
            None \<Rightarrow> PNone | Some k \<Rightarrow> xs ! k), w3)
    \<and> loop_execute EV run \<lparr>c_child = f, c_collection = coll, l_condition = None\<rparr> cx w
        = Some (Inr (if xs = [] then PNone else g (last xs) (int (length xs) - 1)), w4)"
proof -
  note eval = assms(1) and it = item_children.map_result [OF assms(2), of xs 0 w]
    item_children.filter_result [OF assms(2), of xs 0 w] item_children.find_result [OF assms(2), of xs 0 w]
    item_children.loop_result [OF assms(2), of xs PNone 0 w]
  have last: "int (0 + length xs - 1) = int (length xs) - 1" if "xs \<noteq> []" using that by (cases xs) simp_all
  have "\<exists>w1. map_execute EV run \<lparr>c_child = f, c_collection = coll\<rparr> cx w
        = Some (Inr (PList (map (\<lambda>k. g (xs ! k) (int k)) [0..<length xs])), w1)"
    using it(1) by (auto simp: map_execute_def eval enumerate_nth bret_def)
  moreover have "\<exists>w2. filter_execute EV run \<lparr>c_child = f, c_collection = coll\<rparr> cx w
        = Some (Inr (PList (map (nth xs) (filter (\<lambda>k. truthy (g (xs ! k) (int k))) [0..<length xs]))), w2)"
    using it(2) by (auto simp: filter_execute_def eval enumerate_filter bret_def)
  moreover have "\<exists>w3. find_execute EV run \<lparr>c_child = f, c_collection = coll\<rparr> cx w
        = Some (Inr (case find (\<lambda>k. truthy (g (xs ! k) (int k))) [0..<length xs] of
            None \<Rightarrow> PNone | Some k \<Rightarrow> xs ! k), w3)"
    using it(3) by (auto simp: find_execute_def eval enumerate_find split: option.splits)
  moreover have "\<exists>w4. loop_execute EV run \<lparr>c_child = f, c_collection = coll, l_condition = None\<rparr> cx w
        = Some (Inr (if xs = [] then PNone else g (last xs) (int (length xs) - 1)), w4)"
    using it(4) last by (auto simp: loop_execute_def eval)
  ultimately show ?thesis by blast
qed

text \<open>The flow of a start and an end node as a child: it returns what its end node returns.\<close>

lemma line_normal:
  assumes "ctx_ok cx" and "node_results cx = PDict d" and "shallow v"
  shows "\<exists>cx'. normal_execute 3 (script_env (\<lambda>_. Inr v)) 1000 line_flow None cx w = Some (Inr v, cx', w + 2)"
proof -
  let ?E = "script_env (\<lambda>_. Inr v)"
  let ?s = "simple_node ''s'' ''start'' (Some ''e'')" let ?e = "simple_node ''e'' ''end'' None"
  have P: "nd_timeout ?s = PStr []" "nd_timeout ?e = PStr []" by (simp_all add: simple_node_def)
  obtain c1 d1 where R1: "run_node_act ?E line_flow ?s (Some 1000) cx w = (Inr (v, PNone), c1, Suc w)"
    "ctx_ok c1" "node_results c1 = PDict d1"
    using script_run_node [OF assms(1-3) P(1), of "\<lambda>_. Inr v" w line_flow "Some 1000"]
      recorded_ok [OF assms(1)] recorded_reads(3) [OF assms(1)]
    by (auto simp: simple_node_def)
  obtain c2 where R2: "run_node_act ?E line_flow ?e (Some 1000) c1 (Suc w) = (Inr (v, PNone), c2, w + 2)"
    using script_run_node [OF R1(2,3) assms(3) P(2), of "\<lambda>_. Inr v" "Suc w" line_flow "Some 1000"]
    by (auto simp: simple_node_def)
  have el: "elapsed_ms ?E 0 u = (0, u)" for u by (simp add: elapsed_ms_def script_env_def trunc_ms_def)
  have T1: "turn ?E line_flow 1000 0 ?s cx w = (Inr (v, PNone, Some ?e, False), c1, Suc w)"
    using R1(1)
    by (simp add: turn_def abind_def aworld_def el advance_one_def) (simp add: simple_node_def line_flow_def is_end_node_def
        successor_def next_node_def branch_str_def get_target_node_def str_truthy_def find_node_by_id_def build_index_def)
  have T2: "turn ?E line_flow 1000 0 ?e c1 (Suc w) = (Inr (v, PNone, None, True), c2, w + 2)"
    using R2
    by (simp add: turn_def abind_def aworld_def el advance_one_def) (simp add: simple_node_def is_end_node_def)
  have C: "check_deadline ?E 1000 0 nx c u = (Inr (), c, u)" for nx c u
    by (simp add: check_deadline_def abind_def aworld_def deadline_exceeded_def aret_def script_env_def)
  have S: "entry_node line_flow = Inr ?s" "time_time ?E w = (0, w)"
    by (simp_all add: entry_node_def start_node_def line_flow_def simple_node_def script_env_def)
  show ?thesis
    by (simp add: normal_execute_def S execution_deadline_ms_def eval_nat_numeral T1 T2 C)
qed

lemma line_child_run:
  assumes "shallow v" and "kwargs \<noteq> []"
  shows "child_run 3 (example_host (\<lambda>_. Inr v)) guard line_flow [] kwargs example_ctx w = Some (Inr v, w + 2)"
proof -
  let ?H = "example_host (\<lambda>_. Inr v)"
  have view: "\<exists>snap. ck_view (cx_state example_ctx) = Inr snap"
    using ck_view_ok example_ctx_ok unfolding ctx_ok_def by blast
  obtain ccx where ch: "child (Suc (cx_id example_ctx)) ''u'' example_ctx = Inr ccx" "cx_names ccx = default_names"
    "cx_expose ccx = []" "cx_inherited ccx = []"
    using view by (auto simp: child_def example_ctx_def new_context_def)
  define fr where "fr = ccx\<lparr>cx_state := fresh default_names ''u'' []\<rparr>"
  have cl: "clean [] ''u'' None ccx = Inr fr"
    by (simp add: clean_def safe_environment_def ch fr_def)
  let ?s = "set_state ''$ENV'' (PDict []) (new_context default_names 0 ''u'' [])"
  have same: "cx_names fr = cx_names ?s" "cx_state fr = cx_state ?s"
    by (simp_all add: fr_def ch fresh_def set_state_def new_context_def) (simp_all add: default_names_def)
  have env: "''$ENV'' \<noteq> EXPRESS_PREFIX" "''$NODE'' \<noteq> EXPRESS_PREFIX" by simp_all
  have fr_ok: "ctx_ok fr"
    using set_state_ok [OF new_context_ok [OF default_names_ok] env(1)] same by (simp add: ctx_ok_def)
  have node: "node_key fr = ''$NODE''" by (simp add: node_key_def sys_key_def fr_def ch) (simp add: default_names_def)
  have fr_get: "get_state fr ''$NODE'' d = d" for d
    using get_set_state [OF new_context_ok [OF default_names_ok] env(1), where k' = "''$NODE''" and d = d]
      new_context_get [OF default_names_ok, of 0 "''u''" "[]" "''$NODE''" d]
    by (simp add: get_state_def same)
  have "cx_inherited fr = []" by (simp add: fr_def ch)
  moreover have "\<exists>g. flow_globals line_flow fr = Inr g"
    by (simp add: flow_globals_def line_flow_def snapshot_value_def SNAPSHOT_MAX_DEPTH_def Let_def)
  moreover have "expose_env line_flow = []" by (simp add: line_flow_def)
  ultimately obtain cx' where su: "setup_flow [] line_flow [] kwargs fr = (Inr (), cx')"
    using assms(2) by (auto simp: setup_flow_def safe_environment_def coerce_input_value_def)
  from setup_flow_success [OF su] obtain i g env where names: "cx_names cx' = cx_names fr"
    and st: "cx_state cx' = ck_setup_flow i (parent_value fr) g (flow_id line_flow) env (cx_state fr)" by metis
  note K = ck_setup_flow_get [OF fr_ok, of i "parent_value fr" g "flow_id line_flow" env]
  have ok: "ctx_ok cx'" using K(1,2) fr_ok st names by (simp add: ctx_ok_def)
  have keys: "''$NODE'' \<noteq> sys_key fr n" if "n \<in> {en_env default_names, ''FLOW_ID'', en_global default_names,
      en_parent default_names, en_input default_names}" for n
    using that by (auto simp: sys_key_def fr_def ch) (auto simp: default_names_def)
  have "node_results cx' = PDict []"
    using fr_get [of "PDict []"] keys env(2) node names
    by (simp add: node_results_def get_state_def ck_get_def st K(3) node_key_def sys_key_def)
      (simp add: fr_def ch)
  note ok = ok this
  obtain cx'' where "normal_execute 3 (script_env (\<lambda>_. Inr v)) 1000 line_flow None cx' w = Some (Inr v, cx'', w + 2)"
    using line_normal [OF ok assms(1)] by blast
  moreover have "merged_timeout ?H line_flow x = Inr None" if "x_timeout x = PNone" for x
    using that by (simp add: merged_timeout_def line_flow_def parse_timeout_def merge_timeout_ms_def)
  ultimately show ?thesis
    using ch(1) cl su
    by (simp add: child_run_def run_compatible_def prepare_strategy_def example_host_def
       finish_normal_def stop_running_def Let_def)
qed

interpretation line: item_children
  "run_item (child_run 3 (example_host (\<lambda>_. Inr (PBool True))) ''error'') line_flow example_ctx" "\<lambda>_ _. PBool True" xs
  by unfold_locales (simp add: run_item_def item_kwargs_def line_child_run small_shallow)

definition plain_evaluator :: evaluator where
  "plain_evaluator = \<lparr>ev_state = \<lambda>_ _ v. Inr v, ev_dict = \<lambda>d p v. Inr v, json_loads = \<lambda>_. None\<rparr>"

lemma plain_collection:
  "eval_collection plain_evaluator (PList [PInt a, PInt b]) example_ctx = Inr [PInt a, PInt b]"
  by (simp add: eval_collection_def plain_evaluator_def snapshot_value_def SNAPSHOT_MAX_DEPTH_def coerce_collection_def
      evaluate_def example_ctx_def new_context_def)

theorem collection_nodes_compute_witness:
  "\<exists>w1. map_execute plain_evaluator (child_run 3 (example_host (\<lambda>_. Inr (PBool True))) ''error'')
      \<lparr>c_child = line_flow, c_collection = PList [PInt 5, PInt 6]\<rparr> example_ctx 0
    = Some (Inr (PList [PBool True, PBool True]), w1)"
proof -
  have "eval_collection plain_evaluator (PList [PInt 5, PInt 6]) example_ctx = Inr [PInt 5, PInt 6]"
    by (rule plain_collection)
  from collection_nodes_compute [OF this line.item_children_axioms, of 0] show ?thesis by (auto simp: upt_rec)
qed

text \<open>
  A failing child ends its node.  If the children of the elements before an element return and its
  own child raises, then the map and the filter end with that error in the world the child left, so that no later
  child runs; so does find unless an earlier child already returned a true value.
\<close>

theorem failing_child_ends_node:
  assumes "eval_collection EV coll cx = Inr (xs @ y # ys)"
    and "runs (run_item run f cx) 0 xs w rs w1"
    and "run_item run f cx y (int (length xs)) w1 = Some (Inl e, w2)"
  shows "map_execute EV run \<lparr>c_child = f, c_collection = coll\<rparr> cx w = Some (Inl e, w2)
    \<and> filter_execute EV run \<lparr>c_child = f, c_collection = coll\<rparr> cx w = Some (Inl e, w2)
    \<and> (list_all (\<lambda>r. \<not> truthy r) rs \<longrightarrow>
        find_execute EV run \<lparr>c_child = f, c_collection = coll\<rparr> cx w = Some (Inl e, w2))"
  using assms(1) map_items_fails [OF assms(2), of y e w2 ys] filter_items_fails [OF assms(2), of y e w2 ys]
    find_items_fails [OF assms(2), of y e w2 ys] assms(3)
  by (simp add: map_execute_def filter_execute_def find_execute_def)


theorem failing_child_ends_node_witness:
  "map_execute plain_evaluator (\<lambda>f args kwargs cx w. Some (if w = 1 then Inl (Exc flow_error_exception) else Inr PNone, w + 1))
      \<lparr>c_child = line_flow, c_collection = PList [PInt 5, PInt 6]\<rparr> example_ctx (0 :: int)
    = Some (Inl (Exc flow_error_exception), 2)"
proof -
  let ?run = "\<lambda>f args kwargs cx w. Some (if w = 1 then Inl (Exc flow_error_exception) else Inr PNone, w + 1 :: int)"
  have R: "runs (run_item ?run line_flow example_ctx) 0 [PInt 5] 0 [PNone] 1"
    by (rule runs_Cons [of _ _ _ _ _ 1]) (simp_all add: run_item_def runs_Nil)
  have C: "eval_collection plain_evaluator (PList [PInt 5, PInt 6]) example_ctx = Inr ([PInt 5] @ PInt 6 # [])"
    using plain_collection [of 5 6] by simp
  have F: "run_item ?run line_flow example_ctx (PInt 6) (int (length [PInt 5])) 1 = Some (Inl (Exc flow_error_exception), 2)"
    by (simp add: run_item_def)
  show ?thesis by (rule conjunct1 [OF failing_child_ends_node [OF C R F]])
qed

end
