(* ===== verification/Flow_Nodes.thy ===== *)
theory Flow_Nodes
  imports Collection_Nodes
begin

text \<open>
  \<^verbatim>\<open>plaita/node/child.py\<close>, \<^verbatim>\<open>node/assignment.py\<close>, \<^verbatim>\<open>node/end.py\<close> and the type check
  \<open>match\<close> of \<^verbatim>\<open>plaita/io.py\<close>: the nodes which call a flow, assign a value or end a flow, with the
  data types their inputs and outputs are checked against.  Runs in generator mode, where a child
  is handed out lazily, are left out.
\<close>

section \<open>Data types\<close>

text \<open>\<open>Property\<close>: \<open>children\<close> is a list, a dictionary or \<open>None\<close>.\<close>

datatype property = Property (data_type: string) (is_required: bool) (item_type: "property option")
    (children: property_children)
  and property_children = NoChildren | Items "property list" | Fields "(string \<times> property) list"

text \<open>\<open>v[i]\<close> of the language; the keys of dictionaries are strings, so an index is never one of them.\<close>

definition py_index :: "pyval \<Rightarrow> int \<Rightarrow> exc + pyval" where
  "py_index v i =
     (let at = (\<lambda>xs. if 0 \<le> i \<and> i < int (length xs) then Inr (xs ! nat i)
                     else if i < 0 \<and> - i \<le> int (length xs) then Inr (xs ! nat (int (length xs) + i))
                     else Inl (plain_exc (Builtin IndexError))) in
      case v of
        PList xs \<Rightarrow> at xs
      | PTuple xs \<Rightarrow> at xs
      | PStr s \<Rightarrow> rbind (at (map (\<lambda>c. PStr [c]) s)) Inr
      | PDict d \<Rightarrow> Inl (plain_exc (Builtin KeyError))
      | _ \<Rightarrow> Inl (plain_exc (Builtin TypeError)))"

text \<open>
  \<open>get_attr\<close> on a dictionary.  \<open>re.search(r"\[\d+\]", path)\<close> looks for an index, and
  \<open>re.findall(r"([^\[\]]+)", path)\<close> gives the maximal pieces without brackets; unpacking other
  than two pieces, or converting a piece that is not a number, raises.
\<close>

definition bracket :: "char \<Rightarrow> bool" where
  "bracket c \<longleftrightarrow> c = CHR ''['' \<or> c = CHR '']''"

fun index_at :: "string \<Rightarrow> bool" where
  "index_at [] = False"
| "index_at (c # s) = (c = CHR ''['' \<and> takeWhile ascii_digit s \<noteq> [] \<and> take 1 (dropWhile ascii_digit s) = '']'')"

fun has_index :: "string \<Rightarrow> bool" where
  "has_index [] = False"
| "has_index (c # s) = (index_at (c # s) \<or> has_index s)"

lemma dropWhile_shorter [termination_simp]: "length (dropWhile P s) < Suc (length s)"
  by (simp add: le_imp_less_Suc length_dropWhile_le)

fun pieces :: "string \<Rightarrow> string list" where
  "pieces [] = []"
| "pieces (c # s) =
     (if bracket c then pieces s
      else (c # takeWhile (\<lambda>d. \<not> bracket d) s) # pieces (dropWhile (\<lambda>d. \<not> bracket d) s))"

text \<open>\<open>int(s)\<close>: surrounding white space, a sign, and digits with single underscores between them.\<close>

fun underscores_ok :: "string \<Rightarrow> bool" where
  "underscores_ok [] = False"
| "underscores_ok [c] = ascii_digit c"
| "underscores_ok (c # d # s) = (ascii_digit c \<and> (if d = CHR ''_'' then underscores_ok s else underscores_ok (d # s)))"

definition py_int :: "string \<Rightarrow> exc + int" where
  "py_int s =
     (let t = str_strip s;
          (sgn, u) = (case t of c # r \<Rightarrow> if c = CHR ''-'' then (- 1, r) else if c = CHR ''+'' then (1, r) else (1, t)
                     | [] \<Rightarrow> (1, t))
      in case (if underscores_ok u then digits_int (filter (\<lambda>c. c \<noteq> CHR ''_'') u) else None) of
           None \<Rightarrow> Inl (plain_exc (Builtin ValueError)) | Some n \<Rightarrow> Inr (sgn * n))"

definition get_attr :: "pyval dict \<Rightarrow> string \<Rightarrow> exc + pyval" where
  "get_attr d path =
     (if has_index path then
        (case pieces path of
           [key, index] \<Rightarrow> rbind (py_int index) (py_index (pget d key (PList [])))
         | _ \<Rightarrow> Inl (plain_exc (Builtin ValueError)))
      else Inr (pget d path PNone))"


text \<open>\<open>all\<close> over a generator: it stops at the first false value.\<close>

fun rall :: "('a \<Rightarrow> exc + bool) \<Rightarrow> 'a list \<Rightarrow> exc + bool" where
  "rall f [] = Inr True"
| "rall f (x # xs) = rbind (f x) (\<lambda>b. if b then rall f xs else Inr False)"

lemma rall_cong [fundef_cong]: "xs = ys \<Longrightarrow> (\<And>x. x \<in> set ys \<Longrightarrow> f x = g x) \<Longrightarrow> rall f xs = rall g ys"
  by (induction xs arbitrary: ys) (auto simp: rbind_def split: sum.splits)

lemma zip_size [termination_simp]:
  "(a, b) \<in> set (zip xs ys) \<Longrightarrow> size a < Suc (Suc (Suc (size_list size xs)))"
  by (meson le_imp_less_Suc less_SucI order_refl set_zip_leftD size_list_estimation')

text \<open>\<open>match\<close>, with \<open>_match_array\<close> and \<open>_match_object\<close>.\<close>

fun pmatch :: "property \<Rightarrow> pyval \<Rightarrow> exc + bool" where
  "pmatch (Property dt req it ch) v =
     (if v = PNone then Inr (\<not> req)
      else if dt = ''any'' then Inr True
      else if dt = ''array'' then
        (case v of
           PList xs \<Rightarrow>
             (case it of
                Some p \<Rightarrow> rall (pmatch p) xs
              | None \<Rightarrow>
                  (case ch of
                     NoChildren \<Rightarrow> Inl (plain_exc (Builtin TypeError))
                   | Items ps \<Rightarrow>
                       if length ps \<noteq> length xs then Inr False else rall (\<lambda>(p, x). pmatch p x) (zip ps xs)
                   | Fields fs \<Rightarrow>
                       if length fs \<noteq> length xs then Inr False
                       else if fs = [] then Inr True else Inl (plain_exc (Builtin AttributeError))))
         | _ \<Rightarrow> Inr False)
      else if dt = ''object'' then
        (case v of
           PDict d \<Rightarrow>
             (case ch of
                NoChildren \<Rightarrow> Inr True
              | Items ps \<Rightarrow> if ps = [] then Inr True else Inl (plain_exc (Builtin AttributeError))
              | Fields fs \<Rightarrow> rall (\<lambda>(field, p). rbind (get_attr d field) (pmatch p)) fs)
         | _ \<Rightarrow> Inr False)
      else Inr (case v of
          PStr s \<Rightarrow> dt = ''string'' \<and> s \<noteq> []
        | PInt _ \<Rightarrow> dt \<in> {''integer'', ''float'', ''number''}
        | PBool _ \<Rightarrow> dt \<in> {''float'', ''boolean'', ''number''}
        | _ \<Rightarrow> False))"


section \<open>Calling a flow\<close>

record flow_node =
  fn_child :: "flow option"
  fn_input_type :: "property option"
  fn_input :: pyval

definition materialise_child_input :: "pyval \<Rightarrow> exc + pyval" where
  "materialise_child_input = snapshot_value"

definition require :: "py_exc \<Rightarrow> exc + bool \<Rightarrow> exc + unit" where
  "require e r = rbind r (\<lambda>b. if b then Inr () else Inl (plain_exc (Builtin e)))"

definition call_child :: "evaluator \<Rightarrow> 'w child_runner \<Rightarrow> flow \<Rightarrow> pyval \<Rightarrow> ctx \<Rightarrow> ('w, pyval) body" where
  "call_child EV run f inp cx =
     bbind (blift (rbind (evaluate (ev_state EV) cx inp) materialise_child_input)) (\<lambda>v. run f [v] [] cx)"

text \<open>\<open>InlineFlow.execute\<close>; the input is checked as it is written, before it is evaluated.\<close>

definition inline_execute :: "evaluator \<Rightarrow> 'w child_runner \<Rightarrow> flow_node \<Rightarrow> ctx \<Rightarrow> ('w, pyval) body" where
  "inline_execute EV run n cx =
     (case fn_child n of
        None \<Rightarrow> blift (Inl (plain_exc (Builtin AttributeError)))
      | Some f \<Rightarrow>
          bbind (blift (case fn_input_type n of
                    None \<Rightarrow> Inr () | Some p \<Rightarrow> require AssertionError (pmatch p (fn_input n)))) (\<lambda>_.
            call_child EV run f (fn_input n) cx))"

text \<open>
  \<open>ReferenceFlow.execute\<close> (\<open>missing\<close> is \<open>ValueError\<close>) and its asynchronous twin \<open>arun\<close>
  (\<open>AssertionError\<close>).  A child flow without input type makes \<open>match\<close> read attributes of
  \<open>None\<close>.
\<close>

definition reference_execute ::
  "py_exc \<Rightarrow> evaluator \<Rightarrow> 'w child_runner \<Rightarrow> flow_node \<Rightarrow> ctx \<Rightarrow> ('w, pyval) body" where
  "reference_execute missing EV run n cx =
     (case fn_child n of
        None \<Rightarrow> blift (Inl (plain_exc (Builtin missing)))
      | Some f \<Rightarrow>
          bbind (blift (case fn_input_type n of
                    None \<Rightarrow> Inl (plain_exc (Builtin AttributeError))
                  | Some p \<Rightarrow> require AssertionError (pmatch p (fn_input n)))) (\<lambda>_.
            call_child EV run f (fn_input n) cx))"

section \<open>Assignment\<close>

record assignment =
  as_output_type :: "property option"
  as_upstream :: "pyval dict list"
  as_output :: pyval

definition assignment_validate :: "assignment \<Rightarrow> exc + unit" where
  "assignment_validate n =
     (if as_output_type n = None then Inl (plain_exc (Builtin ValueError))
      else if as_output n = PNone \<and> as_upstream n = [] then Inl (plain_exc (Builtin ValueError))
      else Inr ())"

definition py_item :: "pyval dict \<Rightarrow> string \<Rightarrow> exc + pyval" where
  "py_item d k = (case dict_get d k of None \<Rightarrow> Inl (plain_exc (Builtin KeyError)) | Some v \<Rightarrow> Inr v)"

text \<open>The value of the first matching entry.\<close>

definition matched_value :: "(pyval \<times> pyval dict) list \<Rightarrow> exc + pyval option" where
  "matched_value ms =
     (case ms of
        [] \<Rightarrow> Inl (plain_exc (Builtin ValueError))
      | m # _ \<Rightarrow> rbind (py_item (snd m) ''value'') (\<lambda>v. Inr (Some v)))"

lemma matched_value_Inr:
  "matched_value ms = Inr r \<Longrightarrow> \<exists>i u rest v. ms = (i, u) # rest \<and> py_item u ''value'' = Inr v \<and> r = Some v"
  by (cases ms) (auto simp: matched_value_def rbind_eq_Inr_iff)

text \<open>Which expression is assigned; \<open>None\<close> when the node has no source at all.\<close>

definition assignment_source :: "assignment \<Rightarrow> ctx \<Rightarrow> exc + pyval option" where
  "assignment_source n cx =
     (case as_upstream n of
        [] \<Rightarrow> Inr (if as_output n = PNone then None else Some (as_output n))
      | [u] \<Rightarrow> rbind (py_item u ''value'') (\<lambda>v. Inr (Some v))
      | us \<Rightarrow>
          rbind (rmap (\<lambda>u. py_item u ''upstream'') us) (\<lambda>ids.
            matched_value (filter (\<lambda>(i, u). py_eq i (last_node_id cx)) (zip ids us))))"

definition assignment_execute :: "evaluator \<Rightarrow> assignment \<Rightarrow> ctx \<Rightarrow> exc + pyval" where
  "assignment_execute EV n cx =
     rbind (assignment_source n cx) (\<lambda>src.
       case src of
         None \<Rightarrow> Inr PNone
       | Some e \<Rightarrow>
           rbind (evaluate (ev_state EV) cx e) (\<lambda>v.
             case as_output_type n of
               None \<Rightarrow> Inr v
             | Some p \<Rightarrow> rbind (pmatch p v) (\<lambda>ok. if ok then Inr v else Inl (plain_exc (Builtin ValueError)))))"

section \<open>End\<close>

record end_node =
  en_result_type :: pyval
  en_output :: pyval
  en_error :: "pyval dict option"

text \<open>\<open>setup_end\<close>: the result type a configuration gives.\<close>

definition setup_end :: "pyval dict \<Rightarrow> pyval" where
  "setup_end values =
     (let rt = pget values ''resultType'' PNone; rt' = pget values ''result_type'' PNone;
          t = (if truthy rt then rt else if truthy rt' then rt' else PStr ''success'')
      in if t \<in> {PStr ''success'', PStr ''nop'', PStr ''error''} then t else PStr ''success'')"

definition end_execute :: "evaluator \<Rightarrow> end_node \<Rightarrow> ctx \<Rightarrow> exc + pyval" where
  "end_execute EV n cx =
     (if en_result_type n = PStr ''nop'' then Inr PNone
      else if en_result_type n = PStr ''success'' then evaluate (ev_state EV) cx (en_output n)
      else if en_result_type n = PStr ''error'' then
        (case en_error n of
           None \<Rightarrow> Inl (plain_exc (Builtin AttributeError))
         | Some d \<Rightarrow> Inl ((plain_exc FlowResultError)\<lparr>e_code := pget d ''code'' PNone, e_message := pget d ''message'' PNone\<rparr>))
      else Inr PNone)"


section \<open>Contracts\<close>

text \<open>
  An assignment delivers a value of its declared type or raises.  What it returns is the value of the
  one source that applies: with no upstream entry the output, with one entry its value whatever the
  last node was, and with several entries the value of the first entry for the node that ran last;
  when no entry names that node it raises.  A node without any source returns \<open>None\<close> unchecked.
\<close>

theorem assignment_delivers_declared_type:
  assumes "assignment_execute EV n cx = Inr v"
  shows "assignment_source n cx = Inr None \<and> as_upstream n = [] \<and> v = PNone
    \<or> (\<exists>e. assignment_source n cx = Inr (Some e) \<and> evaluate (ev_state EV) cx e = Inr v
        \<and> (case as_output_type n of None \<Rightarrow> True | Some p \<Rightarrow> pmatch p v = Inr True)
        \<and> (length (as_upstream n) > 1 \<longrightarrow>
             (\<exists>k < length (as_upstream n). dict_get (as_upstream n ! k) ''value'' = Some e
                \<and> (\<exists>i. dict_get (as_upstream n ! k) ''upstream'' = Some i \<and> py_eq i (last_node_id cx)))))"
proof -
  have no: "as_upstream n = []" if "assignment_source n cx = Inr None"
    using that
    by (auto simp: assignment_source_def rbind_eq_Inr_iff split: list.splits dest!: matched_value_Inr)
  have hit: "\<exists>k < length (as_upstream n). dict_get (as_upstream n ! k) ''value'' = Some e
                \<and> (\<exists>i. dict_get (as_upstream n ! k) ''upstream'' = Some i \<and> py_eq i (last_node_id cx))"
    if src: "assignment_source n cx = Inr (Some e)" and len: "length (as_upstream n) > 1" for e
  proof -
    from len obtain u u' us where us: "as_upstream n = u # u' # us"
      by (cases "as_upstream n" rule: remdups_adj.cases) simp_all
    with src obtain ids i uu rest where ids: "rmap (\<lambda>u. py_item u ''upstream'') (as_upstream n) = Inr ids"
      and f: "filter (\<lambda>(i, u). py_eq i (last_node_id cx)) (zip ids (as_upstream n)) = (i, uu) # rest"
      and e: "py_item uu ''value'' = Inr e"
      by (auto simp: assignment_source_def rbind_eq_Inr_iff simp del: rmap.simps zip_Cons_Cons dest!: matched_value_Inr)
    from f have mem: "(i, uu) \<in> set (zip ids (as_upstream n))" and eq: "py_eq i (last_node_id cx)"
      using filter_eq_ConsD [OF f] by auto
    then obtain k where k: "k < length ids" "k < length (as_upstream n)" "ids ! k = i" "as_upstream n ! k = uu"
      by (auto simp: in_set_zip)
    from rmap_nth [OF ids k(2)] k have "py_item uu ''upstream'' = Inr i" by simp
    with e eq k show ?thesis by (auto simp: py_item_def split: option.splits)
  qed
  from assms obtain src where src: "assignment_source n cx = Inr src"
    by (auto simp: assignment_execute_def rbind_eq_Inr_iff)
  show ?thesis
  proof (cases src)
    case None
    with assms src no show ?thesis by (simp add: assignment_execute_def)
  next
    case (Some e)
    with assms src have "evaluate (ev_state EV) cx e = Inr v"
      and "case as_output_type n of None \<Rightarrow> True | Some p \<Rightarrow> pmatch p v = Inr True"
      by (auto simp: assignment_execute_def rbind_eq_Inr_iff split: option.splits if_splits)
    with hit src Some show ?thesis by blast
  qed
qed

definition two_sources :: assignment where
  "two_sources = \<lparr>as_output_type = Some (Property ''integer'' True None NoChildren),
     as_upstream = [[(''upstream'', PStr ''a''), (''value'', PInt 1)], [(''upstream'', PStr ''b''), (''value'', PInt 2)]],
     as_output = PNone\<rparr>"

theorem assignment_delivers_declared_type_witness:
  "assignment_execute plain_evaluator two_sources (set_last_node_id (PStr ''b'') example_ctx) = Inr (PInt 2)
    \<and> pmatch (Property ''integer'' True None NoChildren) (PInt 2) = Inr True"
proof -
  let ?cx = "set_last_node_id (PStr ''b'') example_ctx"
  have l: "last_node_id ?cx = PStr ''b''"
    using get_set_state [OF example_ctx_ok sys_keys_free(1) [OF example_ctx_ok]]
    by (simp add: last_node_id_def set_last_node_id_def)
  have E: "evaluate (ev_state plain_evaluator) ?cx (PInt 2) = Inr (PInt 2)"
    by (simp add: evaluate_def plain_evaluator_def set_last_node_id_def set_state_def example_ctx_def new_context_def)
  have "assignment_execute plain_evaluator two_sources ?cx = Inr (PInt 2)"
    by (simp add: assignment_execute_def assignment_source_def two_sources_def l E py_item_def matched_value_def dict_get_def)
  from assignment_delivers_declared_type [OF this] this show ?thesis by (auto simp: two_sources_def)
qed

text \<open>
  A reference to a flow without declared input type never runs it: the check of the input fails
  with \<open>AttributeError\<close> before a child execution exists.  A child node with the same
  configuration calls the flow with the evaluated input.
\<close>

theorem untyped_reference_never_runs:
  assumes "fn_child n = Some f" and "fn_input_type n = None"
  shows "reference_execute missing EV run n cx w = Some (Inl (Exc (plain_exc (Builtin AttributeError))), w)
    \<and> inline_execute EV run n cx w = call_child EV run f (fn_input n) cx w"
  using assms by (simp add: reference_execute_def inline_execute_def)


theorem untyped_reference_never_runs_witness:
  "reference_execute ValueError plain_evaluator counting_run \<lparr>fn_child = Some line_flow, fn_input_type = None, fn_input = PNone\<rparr>
      example_ctx 0 = Some (Inl (Exc (plain_exc (Builtin AttributeError))), 0)"
  using untyped_reference_never_runs [of "\<lparr>fn_child = Some line_flow, fn_input_type = None, fn_input = PNone\<rparr>" line_flow
      ValueError plain_evaluator counting_run example_ctx 0] by simp

text \<open>An end node of type error without error description fails while it builds its error.\<close>

lemma end_error_without_description:
  "en_result_type n = PStr ''error'' \<Longrightarrow> en_error n = None \<Longrightarrow>
     end_execute EV n cx = Inl (plain_exc (Builtin AttributeError))"
  by (simp add: end_execute_def)

text \<open>A configuration yields one of the three result types, so an end node always takes a branch of \<open>execute\<close>.\<close>

lemma setup_end_valid: "setup_end values \<in> {PStr ''success'', PStr ''nop'', PStr ''error''}"
  by (auto simp: setup_end_def Let_def)

text \<open>The empty string is not a value of type string, so assigning it raises.\<close>

lemma empty_string_untyped: "pmatch (Property ''string'' req it ch) (PStr []) = Inr False"
  by simp

end
