(* ===== verification/Parallel_Node.thy ===== *)
theory Parallel_Node
  imports Collection_Nodes
begin

text \<open>
  \<^verbatim>\<open>plaita/node/concurrent.py\<close>: the parallel node with its thread, process and coroutine modes and the registry of
  background branches, with \<open>flow_contains_suspending_node\<close> of \<^verbatim>\<open>core/strategies.py\<close>.  A branch is a child run, as in
  \<open>Collection_Nodes\<close>; branches are interleaved as whole child runs, in an order given by a list of events.  The join
  waits for its own branches only; a background branch may finish at any later time.  The registry keeps one entry per execution
  and hands it out by reference, so entries live in a heap.  A branch given to the process pool runs in another process on a
  pickled copy of the call: the pickling, the runs there and what comes back are arguments.  Runs in generator mode and a
  pool that refuses a submission are left out.
\<close>

section \<open>Branches\<close>

datatype par_mode = THREAD | PROCESS | COROUTINE

record parallel_branch =
  pb_name :: "string option"
  pb_condition :: "condition option"
  pb_flow :: flow
  pb_input :: pyval

record parallel_node =
  pn_branches :: "parallel_branch list"
  pn_conditional :: bool
  pn_mode :: par_mode
  pn_join :: "string list"

text \<open>
  The process around the node: the evaluator, the child runs, \<open>str\<close> of a raised object, the limit of the registry, the
  id of the parent execution, whether the thread is a worker of the shared pool and whether cancellation was requested.
  The process pool: the error that pickling a submitted branch with its contexts raises, the child runs in
  a process of the pool, and what the parent receives for an outcome there (an outcome that cannot be pickled arrives as an error).
\<close>

record 'w par_host =
  ph_eval :: evaluator
  ph_run :: "'w child_runner"
  ph_text :: "raised \<Rightarrow> string"
  ph_limit :: nat
  ph_key :: string
  ph_in_pool :: bool
  ph_cancelled :: bool
  ph_pickle :: "parallel_branch \<Rightarrow> ctx \<Rightarrow> ctx \<Rightarrow> raised option"
  ph_process :: "'w child_runner"
  ph_receive :: "raised + pyval \<Rightarrow> 'w \<Rightarrow> raised + pyval"

section \<open>The registry of background branches\<close>

record bg_entry =
  be_futures :: "nat list"
  be_errors :: "(string option \<times> string) list"
  be_done :: nat

record bg_table =
  bg_ids :: "(string \<times> nat) list"
  bg_heap :: "bg_entry list"

definition empty_entry :: bg_entry where
  "empty_entry = \<lparr>be_futures = [], be_errors = [], be_done = 0\<rparr>"

text \<open>\<open>_get_bg_state\<close>: the oldest entries are dropped from the registry, those in use stay in the heap.\<close>

definition get_bg_state :: "nat \<Rightarrow> string \<Rightarrow> bg_table \<Rightarrow> nat \<times> bg_table" where
  "get_bg_state limit eid t =
     (case dict_get (bg_ids t) eid of
        Some a \<Rightarrow> (a, t\<lparr>bg_ids := dict_del eid (bg_ids t) @ [(eid, a)]\<rparr>)
      | None \<Rightarrow>
          (let a = length (bg_heap t);
               ids = bg_ids t @ [(eid, a)] in
           (a, t\<lparr>bg_ids := drop (length ids - limit) ids, bg_heap := bg_heap t @ [empty_entry]\<rparr>)))"

definition upd_entry :: "nat \<Rightarrow> (bg_entry \<Rightarrow> bg_entry) \<Rightarrow> bg_table \<Rightarrow> bg_table" where
  "upd_entry a f t = (if a < length (bg_heap t) then t\<lparr>bg_heap := (bg_heap t)[a := f (bg_heap t ! a)]\<rparr> else t)"

definition bg_error :: "(raised \<Rightarrow> string) \<Rightarrow> parallel_branch \<Rightarrow> raised + pyval \<Rightarrow> (string option \<times> string) list" where
  "bg_error text b r = (case r of Inl e \<Rightarrow> [(pb_name b, text e)] | Inr _ \<Rightarrow> [])"

text \<open>\<open>_make_background_done_callback\<close>.\<close>

definition on_done :: "(raised \<Rightarrow> string) \<Rightarrow> parallel_branch \<Rightarrow> nat \<Rightarrow> raised + pyval \<Rightarrow> bg_entry \<Rightarrow> bg_entry" where
  "on_done text b i r e =
     e\<lparr>be_futures := remove1 i (be_futures e), be_done := be_done e + 1, be_errors := be_errors e @ bg_error text b r\<rparr>"

section \<open>State\<close>

text \<open>A background branch: its future, its mode, its entry (none in coroutine mode), and the context its child was created from.\<close>

record bg_task =
  bt_id :: nat
  bt_mode :: par_mode
  bt_addr :: "nat option"
  bt_branch :: parallel_branch
  bt_ctx :: ctx

record 'w par =
  p_world :: 'w
  p_table :: bg_table
  p_pending :: "bg_task list"
  p_next :: nat

definition on_world :: "('w, 'a) body \<Rightarrow> ('w par, 'a) body" where
  "on_world m s = (case m (p_world s) of None \<Rightarrow> None | Some (r, w) \<Rightarrow> Some (r, s\<lparr>p_world := w\<rparr>))"

definition get_background_errors :: "'w par_host \<Rightarrow> ('w par, (string option \<times> string) list) body" where
  "get_background_errors H s =
     (let (a, t) = get_bg_state (ph_limit H) (ph_key H) (p_table s) in
      Some (Inr (be_errors (bg_heap t ! a)), s\<lparr>p_table := t\<rparr>))"

section \<open>Selection and gate\<close>

definition match_condition_branches :: "evaluator \<Rightarrow> parallel_node \<Rightarrow> ctx \<Rightarrow> exc + parallel_branch list" where
  "match_condition_branches EV n cx =
     (if \<not> pn_conditional n then Inr (pn_branches n)
      else rbind (rmap (\<lambda>b. case pb_condition b of
               None \<Rightarrow> Inr (b, True)
             | Some c \<Rightarrow> rbind (ck_view (cx_state cx)) (\<lambda>d.
                 rbind (match (ev_dict EV d (en_prefix (cx_names cx))) c) (\<lambda>m. Inr (b, m)))) (pn_branches n))
           (\<lambda>bs. Inr (map fst (filter snd bs))))"

lemma child_flow_size [termination_simp]:
  "n \<in> set ns \<Longrightarrow> nd_child_flow n = Some c \<Longrightarrow> size c < Suc (size_list size ns)"
  by (induction ns; cases n) auto

fun flow_contains_suspending_node :: "flow \<Rightarrow> bool" where
  "flow_contains_suspending_node (Flow i ns t g e) =
     list_ex (\<lambda>n. nd_suspending n \<or> (case nd_child_flow n of None \<Rightarrow> False | Some c \<Rightarrow> flow_contains_suspending_node c)) ns"

definition reject_suspending_branches :: "parallel_branch list \<Rightarrow> exc + unit" where
  "reject_suspending_branches bs =
     (if list_ex (\<lambda>b. flow_contains_suspending_node (pb_flow b)) bs then Inl flow_suspend_rejected_error else Inr ())"

definition joined :: "parallel_node \<Rightarrow> parallel_branch \<Rightarrow> bool" where
  "joined n b \<longleftrightarrow> (case pb_name b of None \<Rightarrow> False | Some x \<Rightarrow> x \<in> set (pn_join n))"

definition split_branches :: "parallel_node \<Rightarrow> parallel_branch list \<Rightarrow> parallel_branch list \<times> parallel_branch list" where
  "split_branches n bs = (filter (joined n) bs, filter (\<lambda>b. \<not> joined n b) bs)"

section \<open>Running a branch\<close>

text \<open>
  The input is evaluated where the branch runs, in the context its parent has then (\<open>now\<close>); the child was created from the
  context \<open>cx\<close>.
\<close>

definition resolve_branch_input :: "evaluator \<Rightarrow> parallel_branch \<Rightarrow> ctx \<Rightarrow> exc + pyval" where
  "resolve_branch_input EV b cx =
     (if pb_input b = PNone
      then rbind (evaluate (ev_state EV) cx (PStr (en_prefix (cx_names cx) @ en_input (cx_names cx)))) snapshot_value
      else rbind (evaluate (ev_state EV) cx (pb_input b)) snapshot_value)"

definition exec_branch :: "'w par_host \<Rightarrow> parallel_branch \<Rightarrow> ctx \<Rightarrow> ctx \<Rightarrow> ('w, pyval) body" where
  "exec_branch H b cx now =
     bbind (blift (resolve_branch_input (ph_eval H) b now)) (\<lambda>v. ph_run H (pb_flow b) [v] [] cx)"

text \<open>\<open>executor.submit(self.exec_branch, ...)\<close>, as the outcome of its future, and the task of a coroutine.\<close>

definition submitted_branch :: "par_mode \<Rightarrow> 'w par_host \<Rightarrow> parallel_branch \<Rightarrow> ctx \<Rightarrow> ctx \<Rightarrow> ('w, pyval) body" where
  "submitted_branch md H b cx now =
     (if md = PROCESS
      then (\<lambda>w. case ph_pickle H b cx now of
              Some e \<Rightarrow> Some (Inl e, w)
            | None \<Rightarrow> (case exec_branch (H\<lparr>ph_run := ph_process H\<rparr>) b cx now w of
                         None \<Rightarrow> None
                       | Some (r, w') \<Rightarrow> Some (ph_receive H r w', w')))
      else exec_branch H b cx now)"

text \<open>The value recorded for a branch: every raised object, a carrier too, becomes the error object.\<close>

definition branch_name :: "parallel_branch \<Rightarrow> string" where
  "branch_name b = (case pb_name b of None \<Rightarrow> [] | Some x \<Rightarrow> x)"

definition branch_value :: "(raised \<Rightarrow> string) \<Rightarrow> parallel_branch \<Rightarrow> raised + pyval \<Rightarrow> pyval" where
  "branch_value text b r =
     (case r of
        Inr v \<Rightarrow> v
      | Inl e \<Rightarrow> PDict [(''__parallel_error__'', PStr (text e)), (''__branch__'', PStr (branch_name b))])"

section \<open>The pool\<close>

definition submit_one :: "par_mode \<Rightarrow> nat option \<Rightarrow> ctx \<Rightarrow> parallel_branch \<Rightarrow> 'w par \<Rightarrow> 'w par" where
  "submit_one md a cx b s =
     s\<lparr>p_table := (case a of None \<Rightarrow> p_table s
                   | Some k \<Rightarrow> upd_entry k (\<lambda>e. e\<lparr>be_futures := be_futures e @ [p_next s]\<rparr>) (p_table s)),
       p_pending := p_pending s @ [\<lparr>bt_id = p_next s, bt_mode = md, bt_addr = a, bt_branch = b, bt_ctx = cx\<rparr>],
       p_next := Suc (p_next s)\<rparr>"

definition execute_background_branches :: "par_mode \<Rightarrow> 'w par_host \<Rightarrow> ctx \<Rightarrow> parallel_branch list \<Rightarrow> 'w par \<Rightarrow> 'w par" where
  "execute_background_branches md H cx bs s =
     (if bs = [] then s
      else let (a, t) = get_bg_state (ph_limit H) (ph_key H) (p_table s) in
           fold (submit_one md (Some a) cx) bs (s\<lparr>p_table := t\<rparr>))"

text \<open>A background branch ends: the child runs, then the callback.\<close>

definition finish_background :: "'w par_host \<Rightarrow> nat \<Rightarrow> ctx \<Rightarrow> 'w par \<Rightarrow> 'w par option" where
  "finish_background H i now s =
     (case find (\<lambda>t. bt_id t = i) (p_pending s) of
        None \<Rightarrow> Some s
      | Some t \<Rightarrow>
          (case on_world (submitted_branch (bt_mode t) H (bt_branch t) (bt_ctx t) now) s of
             None \<Rightarrow> None
           | Some (r, s') \<Rightarrow>
               Some (s'\<lparr>p_pending := filter (\<lambda>u. bt_id u \<noteq> i) (p_pending s'),
                        p_table := (case bt_addr t of None \<Rightarrow> p_table s'
                                    | Some a \<Rightarrow> upd_entry a (on_done (ph_text H) (bt_branch t) i r) (p_table s'))\<rparr>)))"

datatype pool_event = Join_Done nat | Back_Done nat ctx

fun run_pool :: "par_mode \<Rightarrow> 'w par_host \<Rightarrow> ctx \<Rightarrow> parallel_branch list \<Rightarrow> pool_event list \<Rightarrow> (nat \<Rightarrow> (raised + pyval) option) \<Rightarrow> 'w par \<Rightarrow>
    ((nat \<Rightarrow> (raised + pyval) option) \<times> 'w par) option" where
  "run_pool md H cx js [] got s = Some (got, s)"
| "run_pool md H cx js (Join_Done k # es) got s =
     (case on_world (submitted_branch md H (js ! k) cx cx) s of
        None \<Rightarrow> None
      | Some (r, s') \<Rightarrow> run_pool md H cx js es (got(k \<mapsto> r)) s')"
| "run_pool md H cx js (Back_Done i now # es) got s =
     (case finish_background H i now s of None \<Rightarrow> None | Some s' \<Rightarrow> run_pool md H cx js es got s')"

text \<open>\<open>_process_future_result\<close> for the finished futures, in the order in which the set of them is iterated.\<close>

definition join_results :: "(raised \<Rightarrow> string) \<Rightarrow> parallel_branch list \<Rightarrow> (nat \<Rightarrow> (raised + pyval) option) \<Rightarrow> nat list \<Rightarrow> pyval dict" where
  "join_results text js got order =
     fold (\<lambda>k d. case got k of None \<Rightarrow> d | Some r \<Rightarrow> dict_set (branch_name (js ! k)) (branch_value text (js ! k) r) d) order []"

text \<open>The node returns when every joined branch has finished; \<open>None\<close> is a node that still waits.\<close>

definition execute_join_branches ::
  "par_mode \<Rightarrow> 'w par_host \<Rightarrow> ctx \<Rightarrow> pool_event list \<Rightarrow> nat list \<Rightarrow> parallel_branch list \<Rightarrow> ('w par, pyval) body" where
  "execute_join_branches md H cx sched order js s =
     (if js = [] then Some (Inr (PDict []), s)
      else (case run_pool md H cx js sched (\<lambda>_. None) s of
              None \<Rightarrow> None
            | Some (got, s') \<Rightarrow>
                if list_all (\<lambda>k. got k \<noteq> None) [0..<length js]
                then Some (Inr (PDict (join_results (ph_text H) js got order)), s')
                else None))"

section \<open>On a pool worker\<close>

fun inline_background :: "'w par_host \<Rightarrow> ctx \<Rightarrow> parallel_branch list \<Rightarrow> 'w par \<Rightarrow> 'w par option" where
  "inline_background H cx [] s = Some s"
| "inline_background H cx (b # bs) s =
     (case on_world (exec_branch H b cx cx) s of
        None \<Rightarrow> None
      | Some (Inr _, s') \<Rightarrow> inline_background H cx bs s'
      | Some (Inl e, s') \<Rightarrow>
          (let (a, t) = get_bg_state (ph_limit H) (ph_key H) (p_table s') in
           inline_background H cx bs
             (s'\<lparr>p_table := upd_entry a (\<lambda>x. x\<lparr>be_errors := be_errors x @ bg_error (ph_text H) b (Inl e)\<rparr>) t\<rparr>)))"

fun inline_join :: "'w par_host \<Rightarrow> ctx \<Rightarrow> parallel_branch list \<Rightarrow> pyval dict \<Rightarrow> ('w par, pyval) body" where
  "inline_join H cx [] d s = Some (Inr (PDict d), s)"
| "inline_join H cx (b # bs) d s =
     (case on_world (exec_branch H b cx cx) s of
        None \<Rightarrow> None
      | Some (r, s') \<Rightarrow> inline_join H cx bs (dict_set (branch_name b) (branch_value (ph_text H) b r) d) s')"

definition execute_nested_inline ::
  "'w par_host \<Rightarrow> ctx \<Rightarrow> parallel_branch list \<Rightarrow> parallel_branch list \<Rightarrow> ('w par, pyval) body" where
  "execute_nested_inline H cx js bs s =
     (case inline_background H cx bs s of None \<Rightarrow> None | Some s' \<Rightarrow> inline_join H cx js [] s')"

section \<open>The node\<close>

definition select_branches :: "'w par_host \<Rightarrow> parallel_node \<Rightarrow> ctx \<Rightarrow> exc + parallel_branch list \<times> parallel_branch list" where
  "select_branches H n cx =
     rbind (match_condition_branches (ph_eval H) n cx) (\<lambda>bs.
       rbind (reject_suspending_branches bs) (\<lambda>_. Inr (split_branches n bs)))"

definition pool_execute ::
  "'w par_host \<Rightarrow> parallel_node \<Rightarrow> par_mode \<Rightarrow> pool_event list \<Rightarrow> nat list \<Rightarrow> ctx \<Rightarrow> ('w par, pyval) body" where
  "pool_execute H n md sched order cx =
     bbind (blift (select_branches H n cx)) (\<lambda>(js, bs) s.
       if md = PROCESS \<and> ph_cancelled H then Some (Inr (PDict []), s)
       else if md = THREAD \<and> ph_in_pool H \<and> (js \<noteq> [] \<or> bs \<noteq> []) then execute_nested_inline H cx js bs s
       else execute_join_branches md H cx sched order js (execute_background_branches md H cx bs s))"

definition parallel_execute ::
  "'w par_host \<Rightarrow> parallel_node \<Rightarrow> pool_event list \<Rightarrow> nat list \<Rightarrow> ctx \<Rightarrow> ('w par, pyval) body" where
  "parallel_execute H n sched order cx =
     (if pn_mode n = COROUTINE then blift (Inl (plain_exc (Builtin ValueError)))
      else pool_execute H n (pn_mode n) sched order cx)"

text \<open>
  \<open>arun\<close>: coroutines of one event loop, whose background branches are in no registry and whose results are
  in the order of the branches; the other modes run in a fresh thread.
\<close>

definition parallel_arun ::
  "'w par_host \<Rightarrow> parallel_node \<Rightarrow> pool_event list \<Rightarrow> nat list \<Rightarrow> ctx \<Rightarrow> ('w par, pyval) body" where
  "parallel_arun H n sched order cx =
     bbind (blift (select_branches H n cx)) (\<lambda>(js, bs) s.
       if pn_mode n = COROUTINE
       then execute_join_branches COROUTINE H cx sched [0..<length js] js (fold (submit_one COROUTINE None cx) bs s)
       else pool_execute (H\<lparr>ph_in_pool := False\<rparr>) n (pn_mode n) sched order cx s)"

section \<open>The gate is exact\<close>

text \<open>The nodes of a flow and of the flows its nodes call.\<close>

inductive inside :: "flow \<Rightarrow> node \<Rightarrow> bool" where
  inside_here: "n \<in> set (nodes f) \<Longrightarrow> inside f n"
| inside_child: "n \<in> set (nodes f) \<Longrightarrow> nd_child_flow n = Some c \<Longrightarrow> inside c m \<Longrightarrow> inside f m"

lemma inside_iff: "inside f m \<longleftrightarrow> m \<in> set (nodes f) \<or> (\<exists>n c. n \<in> set (nodes f) \<and> nd_child_flow n = Some c \<and> inside c m)"
  by (subst inside.simps) auto

lemma suspending_inside: "flow_contains_suspending_node f \<longleftrightarrow> (\<exists>n. inside f n \<and> nd_suspending n)"
proof (induction f rule: flow_contains_suspending_node.induct)
  case (1 i ns t g e)
  have "(case nd_child_flow n of None \<Rightarrow> False | Some c \<Rightarrow> flow_contains_suspending_node c) \<longleftrightarrow>
      (\<exists>c m. nd_child_flow n = Some c \<and> inside c m \<and> nd_suspending m)" if "n \<in> set ns" for n
    using 1 [OF that] by (cases "nd_child_flow n") auto
  then have "flow_contains_suspending_node (Flow i ns t g e) \<longleftrightarrow>
      (\<exists>n\<in>set ns. nd_suspending n \<or> (\<exists>c m. nd_child_flow n = Some c \<and> inside c m \<and> nd_suspending m))"
    by (auto simp: list_ex_iff)
  also have "\<dots> \<longleftrightarrow> (\<exists>n. inside (Flow i ns t g e) n \<and> nd_suspending n)"
    by (subst inside_iff) auto
  finally show ?case .
qed

section \<open>Bookkeeping\<close>

text \<open>
  The futures an entry holds are those of its background branches that have not ended, and the registry refers to
  different entries of the heap.
\<close>

definition par_ok :: "nat \<Rightarrow> 'w par \<Rightarrow> bool" where
  "par_ok limit s \<longleftrightarrow>
     distinct (map bt_id (p_pending s)) \<and> (\<forall>t\<in>set (p_pending s). bt_id t < p_next s)
     \<and> (\<forall>t\<in>set (p_pending s). \<forall>a. bt_addr t = Some a \<longrightarrow> a < length (bg_heap (p_table s)))
     \<and> (\<forall>a < length (bg_heap (p_table s)). be_futures (bg_heap (p_table s) ! a) =
          map bt_id (filter (\<lambda>t. bt_addr t = Some a) (p_pending s)))
     \<and> distinct (map fst (bg_ids (p_table s))) \<and> distinct (map snd (bg_ids (p_table s)))
     \<and> (\<forall>e\<in>set (bg_ids (p_table s)). snd e < length (bg_heap (p_table s)))
     \<and> length (bg_ids (p_table s)) \<le> limit"

text \<open>The steps of any executions of a process, whose registry has one limit.\<close>

inductive par_step :: "nat \<Rightarrow> 'w par \<Rightarrow> 'w par \<Rightarrow> bool" for limit where
  ps_execute: "ph_limit H = limit \<Longrightarrow> parallel_execute H n sched order cx s = Some (r, s') \<Longrightarrow> par_step limit s s'"
| ps_arun: "ph_limit H = limit \<Longrightarrow> parallel_arun H n sched order cx s = Some (r, s') \<Longrightarrow> par_step limit s s'"
| ps_finish: "ph_limit H = limit \<Longrightarrow> finish_background H i now s = Some s' \<Longrightarrow> par_step limit s s'"
| ps_errors: "ph_limit H = limit \<Longrightarrow> get_background_errors H s = Some (r, s') \<Longrightarrow> par_step limit s s'"

definition start_par :: "'w \<Rightarrow> 'w par" where
  "start_par w = \<lparr>p_world = w, p_table = \<lparr>bg_ids = [], bg_heap = []\<rparr>, p_pending = [], p_next = 0\<rparr>"

lemma par_ok_world [simp]: "par_ok limit (s\<lparr>p_world := w\<rparr>) = par_ok limit s"
  by (simp add: par_ok_def)

lemma par_ok_start: "par_ok limit (start_par w)"
  by (simp add: par_ok_def start_par_def)

lemma on_world_ok: "on_world m s = Some (r, s') \<Longrightarrow> par_ok limit s' = par_ok limit s"
  by (auto simp: on_world_def split: option.splits)

lemma get_bg_state_ok:
  assumes "par_ok limit s" and "get_bg_state limit k (p_table s) = (a, t)"
  shows "par_ok limit (s\<lparr>p_table := t\<rparr>) \<and> a < length (bg_heap t)"
proof (cases "dict_get (bg_ids (p_table s)) k")
  case (Some c)
  then have t: "a = c" "t = (p_table s)\<lparr>bg_ids := dict_del k (bg_ids (p_table s)) @ [(k, c)]\<rparr>"
    using assms(2) by (auto simp: get_bg_state_def)
  have mem: "(k, c) \<in> set (bg_ids (p_table s))" using Some by (simp add: dict_get_def map_of_SomeD)
  have del: "dict_del k d = filter (\<lambda>e. fst e \<noteq> k) d" for d :: "(string \<times> nat) list"
    by (auto simp: dict_del_def AList.delete_eq case_prod_beta' intro: filter_cong)
  let ?ids = "bg_ids (p_table s)"
  have dist: "distinct (map fst ?ids)" "distinct (map snd ?ids)" using assms(1) by (auto simp: par_ok_def)
  have "snd e \<noteq> c" if "e \<in> set ?ids" "fst e \<noteq> k" for e
    using that mem dist(2) by (metis distinct_map fst_conv inj_onD snd_conv)
  then have d2: "distinct (map snd (dict_del k ?ids @ [(k, c)]))" using dist(2) by (auto simp: del distinct_map_filter)
  have "k \<in> fst ` set ?ids" using mem by force
  then have "length (dict_del k ?ids) < length ?ids" unfolding del by (auto intro!: length_filter_less)
  then have len: "length (dict_del k ?ids @ [(k, c)]) \<le> limit" using assms(1) by (simp add: par_ok_def)
  show ?thesis using assms(1) t mem d2 len dist by (auto simp: par_ok_def del distinct_map_filter)
next
  case None
  let ?ids = "bg_ids (p_table s)" and ?h = "bg_heap (p_table s)"
  let ?new = "?ids @ [(k, length ?h)]"
  have t: "a = length ?h" "t = (p_table s)\<lparr>bg_ids := drop (length ?new - limit) ?new, bg_heap := ?h @ [empty_entry]\<rparr>"
    using assms(2) None by (auto simp: get_bg_state_def Let_def)
  have "k \<notin> fst ` set ?ids" using None by (simp add: dict_get_None_iff dict_has_def)
  moreover have "length ?h \<notin> snd ` set ?ids" using assms(1) by (auto simp: par_ok_def)
  ultimately have "distinct (map fst ?new)" "distinct (map snd ?new)" using assms(1) by (auto simp: par_ok_def)
  then have dist: "distinct (map fst (drop n ?new))" "distinct (map snd (drop n ?new))" for n
    by (simp_all only: drop_map [symmetric] distinct_drop)
  have vals: "\<forall>e\<in>set (drop n ?new). snd e < Suc (length ?h)" for n
    using assms(1) by (auto simp: par_ok_def dest!: in_set_dropD)
  have "filter (\<lambda>u. bt_addr u = Some (length ?h)) (p_pending s) = []"
    using assms(1) by (auto simp: par_ok_def filter_empty_conv)
  then show ?thesis using assms(1) t dist [of "length ?new - limit"] vals [of "length ?new - limit"]
    by (auto simp: par_ok_def nth_append empty_entry_def less_Suc_eq)
qed

lemma upd_other_ok:
  assumes "par_ok limit s" and "\<And>e. be_futures (f e) = be_futures e"
  shows "par_ok limit (s\<lparr>p_table := upd_entry a f (p_table s)\<rparr>)"
  using assms by (auto simp: par_ok_def upd_entry_def nth_list_update)

lemma submit_one_ok:
  assumes "par_ok limit s" and "\<And>k. a = Some k \<Longrightarrow> k < length (bg_heap (p_table s))"
  shows "par_ok limit (submit_one md a cx b s) \<and> length (bg_heap (p_table (submit_one md a cx b s))) = length (bg_heap (p_table s))"
  using assms by (cases a) (auto simp: par_ok_def submit_one_def upd_entry_def nth_list_update less_Suc_eq)

lemma submit_all_ok:
  assumes "par_ok limit s" and "\<And>k. a = Some k \<Longrightarrow> k < length (bg_heap (p_table s))"
  shows "par_ok limit (fold (submit_one md a cx) bs s)"
  using assms by (induction bs arbitrary: s) (simp_all add: submit_one_ok)

lemma background_ok:
  assumes "par_ok limit s" and "ph_limit H = limit"
  shows "par_ok limit (execute_background_branches md H cx bs s)"
proof -
  obtain a t where g: "get_bg_state limit (ph_key H) (p_table s) = (a, t)" by (cases "get_bg_state limit (ph_key H) (p_table s)")
  from get_bg_state_ok [OF assms(1) g] show ?thesis
    using assms g by (auto simp: execute_background_branches_def intro: submit_all_ok)
qed

lemma finish_ok:
  assumes "par_ok limit s" and "finish_background H i now s = Some s'"
  shows "par_ok limit s'"
proof (cases "find (\<lambda>t. bt_id t = i) (p_pending s)")
  case None
  then show ?thesis using assms by (simp add: finish_background_def)
next
  case (Some t)
  then have t: "t \<in> set (p_pending s)" "bt_id t = i" by (auto simp: find_Some_iff)
  obtain r s1 where run: "on_world (submitted_branch (bt_mode t) H (bt_branch t) (bt_ctx t) now) s = Some (r, s1)"
    using assms(2) Some by (auto simp: finish_background_def split: option.splits)
  obtain w where s1: "s1 = s\<lparr>p_world := w\<rparr>" using run by (auto simp: on_world_def split: option.splits)
  have s': "s' = s1\<lparr>p_pending := filter (\<lambda>u. bt_id u \<noteq> i) (p_pending s1),
      p_table := (case bt_addr t of None \<Rightarrow> p_table s1
                  | Some a \<Rightarrow> upd_entry a (on_done (ph_text H) (bt_branch t) i r) (p_table s1))\<rparr>"
    using assms(2) Some run by (simp add: finish_background_def)
  have remove: "remove1 i (map bt_id (filter P ps)) = map bt_id (filter P (filter (\<lambda>u. bt_id u \<noteq> i) ps))"
    if "distinct (map bt_id ps)" for P ps
    using that by (induction ps) (auto simp: remove1_idem image_iff)
  have only: "bt_addr u \<noteq> Some a" if "u \<in> set (p_pending s)" "bt_addr t \<noteq> Some a" "bt_id u = i" for u a
    using that t assms(1) by (metis distinct_map inj_onD par_ok_def)
  have keep: "filter (\<lambda>u. bt_addr u = Some a) (filter (\<lambda>u. bt_id u \<noteq> i) (p_pending s)) =
      filter (\<lambda>u. bt_addr u = Some a) (p_pending s)" if "bt_addr t \<noteq> Some a" for a
    using only that by (auto simp: filter_filter intro: filter_cong)
  show ?thesis
  proof (cases "bt_addr t")
    case None
    then show ?thesis using assms(1) s' s1 keep by (auto simp: par_ok_def distinct_map_filter)
  next
    case (Some a)
    then show ?thesis using assms(1) s' s1 keep t(1)
      by (auto simp: par_ok_def distinct_map_filter upd_entry_def on_done_def nth_list_update remove)
  qed
qed

lemma run_pool_ok:
  assumes "run_pool md H cx js es got s = Some (got', s')" and "par_ok limit s"
  shows "par_ok limit s'"
  using assms
proof (induction md H cx js es got s rule: run_pool.induct)
  case (2 md H cx js k es got s)
  then obtain r s1 where "on_world (submitted_branch md H (js ! k) cx cx) s = Some (r, s1)" by (auto split: option.splits)
  then show ?case using 2 on_world_ok by fastforce
next
  case (3 md H cx js i now es got s)
  then obtain s1 where "finish_background H i now s = Some s1" by (auto split: option.splits)
  then show ?case using 3 finish_ok by fastforce
qed simp

lemma execute_join_ok:
  assumes "execute_join_branches md H cx sched order js s = Some (r, s')" and "par_ok limit s"
  shows "par_ok limit s'"
proof (cases "js = []")
  case True
  then show ?thesis using assms by (simp add: execute_join_branches_def)
next
  case False
  then obtain got where "run_pool md H cx js sched (\<lambda>_. None) s = Some (got, s')"
    using assms(1) by (auto simp: execute_join_branches_def split: option.splits if_splits)
  then show ?thesis using run_pool_ok assms(2) by blast
qed

lemma inline_background_ok:
  assumes "inline_background H cx bs s = Some s'" and "par_ok limit s" and "ph_limit H = limit"
  shows "par_ok limit s'"
  using assms
proof (induction bs arbitrary: s)
  case (Cons b bs)
  then obtain r s1 where run: "on_world (exec_branch H b cx cx) s = Some (r, s1)" by (auto split: option.splits)
  then have ok: "par_ok limit s1" using Cons.prems(2) on_world_ok by blast
  show ?case
  proof (cases r)
    case (Inr v)
    then show ?thesis using Cons run ok by simp
  next
    case (Inl e)
    obtain a t where g: "get_bg_state limit (ph_key H) (p_table s1) = (a, t)" by (cases "get_bg_state limit (ph_key H) (p_table s1)")
    have "par_ok limit (s1\<lparr>p_table := upd_entry a (\<lambda>x. x\<lparr>be_errors := be_errors x @ bg_error (ph_text H) b (Inl e)\<rparr>) t\<rparr>)"
      using upd_other_ok [of limit "s1\<lparr>p_table := t\<rparr>"
          "\<lambda>x. x\<lparr>be_errors := be_errors x @ bg_error (ph_text H) b (Inl e)\<rparr>" a] get_bg_state_ok [OF ok g] by simp
    then show ?thesis using Cons run Inl g by simp
  qed
qed simp

lemma inline_join_ok:
  assumes "inline_join H cx js d s = Some (r, s')" and "par_ok limit s"
  shows "par_ok limit s'"
  using assms
proof (induction js arbitrary: d s)
  case (Cons b bs)
  then obtain x s1 where "on_world (exec_branch H b cx cx) s = Some (x, s1)" by (auto split: option.splits)
  then show ?case using Cons on_world_ok by fastforce
qed simp

lemma selected_run:
  assumes "bbind (blift (select_branches H n cx)) (\<lambda>(js, bs). f js bs) s = Some (r, s')"
  obtains "s' = s" | js bs where "select_branches H n cx = Inr (js, bs)" and "f js bs s = Some (r, s')"
  using assms by (cases "select_branches H n cx") (auto simp: bbind_def blift_def)

lemma pool_execute_ok:
  assumes "pool_execute H n md sched order cx s = Some (r, s')" and "par_ok limit s" and "ph_limit H = limit"
  shows "par_ok limit s'"
  using assms(1) unfolding pool_execute_def
proof (cases rule: selected_run)
  case 1
  then show ?thesis using assms(2) by simp
next
  case (2 js bs)
  then consider "s' = s" | s1 where "inline_background H cx bs s = Some s1" "inline_join H cx js [] s1 = Some (r, s')"
    | "execute_join_branches md H cx sched order js (execute_background_branches md H cx bs s) = Some (r, s')"
    by (auto simp: execute_nested_inline_def split: if_splits option.splits)
  then show ?thesis
  proof cases
    case (2 s1)
    then show ?thesis using inline_join_ok [OF _ inline_background_ok [OF _ assms(2,3)]] by simp
  next
    case 3
    then show ?thesis by (rule execute_join_ok [OF _ background_ok [OF assms(2,3)]])
  qed (simp add: assms(2))
qed

lemma par_step_ok:
  assumes "par_step limit s s'" and "par_ok limit s"
  shows "par_ok limit s'"
  using assms(1)
proof cases
  case (ps_execute H n sched order cx r)
  then show ?thesis using assms(2) pool_execute_ok [OF _ assms(2), of H n "pn_mode n" sched order cx r s']
    by (simp add: parallel_execute_def blift_def split: if_splits)
next
  case (ps_arun H n sched order cx r)
  from ps_arun(2) show ?thesis unfolding parallel_arun_def
  proof (cases rule: selected_run)
    case 1
    then show ?thesis using assms(2) by simp
  next
    case (2 js bs)
    show ?thesis
    proof (cases "pn_mode n = COROUTINE")
      case True
      then have "execute_join_branches COROUTINE H cx sched [0..<length js] js (fold (submit_one COROUTINE None cx) bs s) = Some (r, s')" using 2 by simp
      then show ?thesis by (rule execute_join_ok [OF _ submit_all_ok [OF assms(2)]]) simp
    next
      case False
      then have "pool_execute (H\<lparr>ph_in_pool := False\<rparr>) n (pn_mode n) sched order cx s = Some (r, s')" using 2 by simp
      then show ?thesis by (rule pool_execute_ok) (simp_all add: assms(2) ps_arun(1))
    qed
  qed
next
  case (ps_finish H i now)
  then show ?thesis using assms(2) finish_ok by blast
next
  case (ps_errors H r)
  obtain a t where g: "get_bg_state limit (ph_key H) (p_table s) = (a, t)" by (cases "get_bg_state limit (ph_key H) (p_table s)")
  then show ?thesis using ps_errors get_bg_state_ok [OF assms(2) g] by (auto simp: get_background_errors_def)
qed

section \<open>What the node computes\<close>

text \<open>
  One branch of \<open>B\<close> runs to its end in the world \<open>w\<close>, in whatever mode, leaving \<open>w'\<close>; a run that hangs does not end.
\<close>

definition ran :: "'w par_host \<Rightarrow> parallel_branch set \<Rightarrow> 'w \<Rightarrow> 'w \<Rightarrow> bool" where
  "ran H B w w' \<longleftrightarrow> (\<exists>md b cx now r. b \<in> B \<and> submitted_branch md H b cx now w = Some (r, w'))"

definition hangs :: "'w par_host \<Rightarrow> parallel_branch set \<Rightarrow> 'w \<Rightarrow> bool" where
  "hangs H B w \<longleftrightarrow> (\<exists>w1 md b cx now. (ran H B)\<^sup>*\<^sup>* w w1 \<and> b \<in> B \<and> submitted_branch md H b cx now w1 = None)"

text \<open>
  The results hold, under the name of every branch of \<open>js\<close>, the value or the error object of a run of that very branch in the mode \<open>md\<close>,
  among the runs that led from the world \<open>w\<close> to \<open>w'\<close>, and nothing else.
\<close>

definition own_run :: "par_mode \<Rightarrow> 'w par_host \<Rightarrow> parallel_branch set \<Rightarrow> ctx \<Rightarrow> 'w \<Rightarrow> 'w \<Rightarrow> parallel_branch \<Rightarrow> raised + pyval \<Rightarrow> bool" where
  "own_run md H B cx w w' b r \<longleftrightarrow>
     (\<exists>w1 w2. (ran H B)\<^sup>*\<^sup>* w w1 \<and> submitted_branch md H b cx cx w1 = Some (r, w2) \<and> (ran H B)\<^sup>*\<^sup>* w2 w')"

definition own_results ::
  "par_mode \<Rightarrow> 'w par_host \<Rightarrow> parallel_branch set \<Rightarrow> ctx \<Rightarrow> parallel_branch list \<Rightarrow> 'w \<Rightarrow> 'w \<Rightarrow> pyval dict \<Rightarrow> bool" where
  "own_results md H B cx js w w' d \<longleftrightarrow> fst ` set d = branch_name ` set js
     \<and> (\<forall>b\<in>set js. \<exists>r. own_run md H B cx w w' b r \<and> dict_get d (branch_name b) = Some (branch_value (ph_text H) b r))"

lemma on_world_cases:
  "on_world m s = None \<longleftrightarrow> m (p_world s) = None"
  "on_world m s = Some (r, s') \<longleftrightarrow> (\<exists>w'. m (p_world s) = Some (r, w') \<and> s' = s\<lparr>p_world := w'\<rparr>)"
  by (auto simp: on_world_def split: option.splits)

lemma own_run_later: "own_run md H B cx w w1 b r \<Longrightarrow> (ran H B)\<^sup>*\<^sup>* w1 w2 \<Longrightarrow> own_run md H B cx w w2 b r"
  unfolding own_run_def by (meson rtranclp_trans)

lemma own_run_now:
  assumes "(ran H B)\<^sup>*\<^sup>* w w1" and "submitted_branch md H b cx cx w1 = Some (r, w2)"
  shows "own_run md H B cx w w2 b r"
  using assms unfolding own_run_def by blast

lemma hangs_later: "(ran H B)\<^sup>*\<^sup>* w w1 \<Longrightarrow> hangs H B w1 \<Longrightarrow> hangs H B w"
  unfolding hangs_def by (meson rtranclp_trans)

lemma finish_background_ran:
  assumes "bt_branch ` set (p_pending s) \<subseteq> B"
  shows "finish_background H i now s = None \<and> hangs H B (p_world s)
    \<or> (\<exists>s'. finish_background H i now s = Some s' \<and> (ran H B)\<^sup>*\<^sup>* (p_world s) (p_world s')
         \<and> bt_branch ` set (p_pending s') \<subseteq> B)"
proof (cases "find (\<lambda>t. bt_id t = i) (p_pending s)")
  case None
  then show ?thesis using assms by (simp add: finish_background_def)
next
  case (Some t)
  then have b: "bt_branch t \<in> B" using assms by (auto simp: find_Some_iff)
  show ?thesis
  proof (cases "submitted_branch (bt_mode t) H (bt_branch t) (bt_ctx t) now (p_world s)")
    case None
    with b have "hangs H B (p_world s)" unfolding hangs_def by blast
    then show ?thesis using Some None by (simp add: finish_background_def on_world_def)
  next
    case (Some p)
    obtain r w' where "p = (r, w')" by (cases p)
    with Some b have "ran H B (p_world s) w'" unfolding ran_def by blast
    then show ?thesis
      using \<open>find _ _ = _\<close> Some \<open>p = _\<close> assms by (auto simp: finish_background_def on_world_def)
  qed
qed

lemma run_pool_own:
  assumes "bt_branch ` set (p_pending s) \<subseteq> B" and "set js \<subseteq> B" and "\<forall>k. Join_Done k \<in> set es \<longrightarrow> k < length js"
    and "(ran H B)\<^sup>*\<^sup>* w (p_world s)" and "\<And>k r. got k = Some r \<Longrightarrow> own_run md H B cx w (p_world s) (js ! k) r"
  shows "run_pool md H cx js es got s = None \<and> hangs H B w
    \<or> (\<exists>got' s'. run_pool md H cx js es got s = Some (got', s') \<and> (ran H B)\<^sup>*\<^sup>* w (p_world s')
         \<and> (\<forall>k r. got' k = Some r \<longrightarrow> own_run md H B cx w (p_world s') (js ! k) r)
         \<and> (\<forall>k. got' k \<noteq> None \<longleftrightarrow> got k \<noteq> None \<or> Join_Done k \<in> set es))"
  using assms
proof (induction es arbitrary: got s)
  case Nil
  then show ?case by auto
next
  case (Cons e es)
  show ?case
  proof (cases e)
    case (Join_Done k)
    then have b: "js ! k \<in> B" using Cons.prems(2,3) by auto
    show ?thesis
    proof (cases "submitted_branch md H (js ! k) cx cx (p_world s)")
      case None
      with b have "hangs H B (p_world s)" unfolding hangs_def by blast
      with Cons.prems(4) have "hangs H B w" by (rule hangs_later)
      then show ?thesis using Join_Done None by (simp add: on_world_def)
    next
      case (Some p)
      obtain r w' where p: "p = (r, w')" by (cases p)
      let ?s = "s\<lparr>p_world := w'\<rparr>"
      have step: "(ran H B)\<^sup>*\<^sup>* (p_world s) w'" using Some p b unfolding ran_def by blast
      have own: "own_run md H B cx w (p_world ?s) (js ! j) x" if "(got(k \<mapsto> r)) j = Some x" for j x
      proof (cases "j = k")
        case True
        then show ?thesis using that own_run_now [OF Cons.prems(4)] Some p by simp
      next
        case False
        then show ?thesis using that own_run_later [OF Cons.prems(5) step] by simp
      qed
      have "bt_branch ` set (p_pending ?s) \<subseteq> B" "\<forall>k. Join_Done k \<in> set es \<longrightarrow> k < length js" "(ran H B)\<^sup>*\<^sup>* w (p_world ?s)"
        using Cons.prems(1,3,4) step by simp_all
      note IH = Cons.IH [of ?s "got(k \<mapsto> r)", OF this(1) Cons.prems(2) this(2,3) own]
      have run: "run_pool md H cx js (e # es) got s = run_pool md H cx js es (got(k \<mapsto> r)) ?s"
        using Join_Done Some p by (simp add: on_world_def)
      have "(got(k \<mapsto> r)) j \<noteq> None \<or> Join_Done j \<in> set es \<longleftrightarrow> got j \<noteq> None \<or> Join_Done j \<in> set (e # es)" for j
        using Join_Done by auto
      then show ?thesis using IH unfolding run by (simp only:)
    qed
  next
    case (Back_Done i now)
    from finish_background_ran [OF Cons.prems(1), of H i now] show ?thesis
    proof (elim disjE exE conjE)
      assume "finish_background H i now s = None" and "hangs H B (p_world s)"
      then show ?thesis using Back_Done hangs_later [OF Cons.prems(4)] by simp
    next
      fix s1 assume s1: "finish_background H i now s = Some s1" "(ran H B)\<^sup>*\<^sup>* (p_world s) (p_world s1)" "bt_branch ` set (p_pending s1) \<subseteq> B"
      have "(ran H B)\<^sup>*\<^sup>* w (p_world s1)" using Cons.prems(4) s1(2) by simp
      from Cons.IH [OF s1(3) Cons.prems(2) _ this own_run_later [OF Cons.prems(5) s1(2)]] Cons.prems(3)
      show ?thesis using Back_Done s1(1) by simp
    qed
  qed
qed

lemma join_results_own:
  assumes "distinct (map branch_name js)" and "set order = {..<length js}"
    and "\<And>k. k < length js \<Longrightarrow> \<exists>r. got k = Some r \<and> own_run md H B cx w w' (js ! k) r"
  shows "own_results md H B cx js w w' (join_results (ph_text H) js got order)"
proof -
  have gen: "(\<forall>k\<in>set ks. dict_get (fold (\<lambda>k d. case got k of None \<Rightarrow> d
          | Some r \<Rightarrow> dict_set (branch_name (js ! k)) (branch_value (ph_text H) (js ! k) r) d) ks d) (branch_name (js ! k))
        = Some (branch_value (ph_text H) (js ! k) (the (got k))))
      \<and> fst ` set (fold (\<lambda>k d. case got k of None \<Rightarrow> d
          | Some r \<Rightarrow> dict_set (branch_name (js ! k)) (branch_value (ph_text H) (js ! k) r) d) ks d)
        = fst ` set d \<union> (\<lambda>k. branch_name (js ! k)) ` set ks"
    if "set ks \<subseteq> {..<length js}" for ks d
    using that
  proof (induction ks rule: rev_induct)
    case (snoc k ks)
    then have k: "k < length js" by auto
    with assms(3) obtain r where got: "got k = Some r" by blast
    have same: "branch_name (js ! j) = branch_name (js ! k) \<longleftrightarrow> j = k" if "j \<in> set ks" for j
      using that snoc.prems k assms(1) nth_eq_iff_index_eq [of "map branch_name js" j k] by auto
    have keys: "fst ` set (dict_set x v e) = insert x (fst ` set e)" for x :: string and v :: pyval and e
      using dict_set_has [of x v e] by (auto simp: dict_has_def)
    show ?case using snoc got same by (auto simp: keys)
  qed simp
  have "set js = (!) js ` {..<length js}" by (auto simp: set_conv_nth)
  moreover have "\<exists>r. own_run md H B cx w w' (js ! k) r \<and> the (got k) = r" if "k < length js" for k
    using assms(3) [OF that] by auto
  ultimately show ?thesis using gen [of order "[]"] assms(2)
    unfolding own_results_def join_results_def by (auto simp: image_image)
qed

text \<open>The node returned with the results of its own branches, unless one of the runs hangs.\<close>

definition returns_own ::
  "par_mode \<Rightarrow> 'w par_host \<Rightarrow> parallel_branch set \<Rightarrow> ctx \<Rightarrow> parallel_branch list \<Rightarrow> 'w \<Rightarrow> ((raised + pyval) \<times> 'w par) option \<Rightarrow> bool" where
  "returns_own md H B cx js w res \<longleftrightarrow>
     (case res of
        None \<Rightarrow> hangs H B w
      | Some (r, s') \<Rightarrow> \<exists>d. r = Inr (PDict d) \<and> own_results md H B cx js w (p_world s') d)"

lemma execute_join_own:
  assumes "distinct (map branch_name js)" and "set order = {..<length js}" and "\<forall>k. Join_Done k \<in> set sched \<longleftrightarrow> k < length js"
    and "bt_branch ` set (p_pending s) \<subseteq> B" and "set js \<subseteq> B"
  shows "returns_own md H B cx js (p_world s) (execute_join_branches md H cx sched order js s)"
proof (cases "js = []")
  case True
  then show ?thesis by (simp add: execute_join_branches_def returns_own_def own_results_def)
next
  case False
  have "run_pool md H cx js sched (\<lambda>_. None) s = None \<and> hangs H B (p_world s)
    \<or> (\<exists>got s'. run_pool md H cx js sched (\<lambda>_. None) s = Some (got, s')
         \<and> (\<forall>k r. got k = Some r \<longrightarrow> own_run md H B cx (p_world s) (p_world s') (js ! k) r)
         \<and> (\<forall>k. got k \<noteq> None \<longleftrightarrow> Join_Done k \<in> set sched))"
    using run_pool_own [OF assms(4,5), of sched H "p_world s" "\<lambda>_. None" md cx] assms(3) by auto
  then show ?thesis
  proof (elim disjE exE conjE)
    fix got s'
    assume run: "run_pool md H cx js sched (\<lambda>_. None) s = Some (got, s')"
      and own: "\<forall>k r. got k = Some r \<longrightarrow> own_run md H B cx (p_world s) (p_world s') (js ! k) r"
      and dom: "\<forall>k. got k \<noteq> None \<longleftrightarrow> Join_Done k \<in> set sched"
    have each: "\<exists>r. got k = Some r \<and> own_run md H B cx (p_world s) (p_world s') (js ! k) r" if "k < length js" for k
      using that own dom assms(3) by (metis option.exhaust)
    then have "list_all (\<lambda>k. got k \<noteq> None) [0..<length js]" by (force simp: list_all_iff)
    then show ?thesis using run False join_results_own [OF assms(1,2) each]
      by (simp add: execute_join_branches_def returns_own_def)
  qed (simp add: False execute_join_branches_def returns_own_def)
qed

lemma inline_run:
  assumes "b \<in> B"
  shows "exec_branch H b cx cx w = None \<Longrightarrow> hangs H B w"
    and "exec_branch H b cx cx w = Some (r, w') \<Longrightarrow> (ran H B)\<^sup>*\<^sup>* w w'"
proof -
  have same: "exec_branch H b cx cx = submitted_branch THREAD H b cx cx" by (simp add: submitted_branch_def)
  show "exec_branch H b cx cx w = None \<Longrightarrow> hangs H B w"
    unfolding same hangs_def using assms by (intro exI conjI) (rule rtranclp.rtrancl_refl, assumption, assumption)
  show "exec_branch H b cx cx w = Some (r, w') \<Longrightarrow> (ran H B)\<^sup>*\<^sup>* w w'"
    unfolding same unfolding ran_def using assms by (intro r_into_rtranclp exI conjI)
qed

lemma inline_background_ran:
  assumes "set bs \<subseteq> B"
  shows "inline_background H cx bs s = None \<and> hangs H B (p_world s)
    \<or> (\<exists>s'. inline_background H cx bs s = Some s' \<and> (ran H B)\<^sup>*\<^sup>* (p_world s) (p_world s'))"
  using assms
proof (induction bs arbitrary: s)
  case (Cons b bs)
  have b: "b \<in> B" and bs: "set bs \<subseteq> B" using Cons.prems by simp_all
  show ?case
  proof (cases "exec_branch H b cx cx (p_world s)")
    case None
    then have "hangs H B (p_world s)" by (rule inline_run(1) [OF b])
    then show ?thesis using None by (simp add: on_world_def)
  next
    case (Some p)
    obtain r w' where p: "p = (r, w')" by (cases p)
    have step: "(ran H B)\<^sup>*\<^sup>* (p_world s) w'" by (rule inline_run(2) [OF b]) (use Some p in simp)
    have next_: "inline_background H cx bs s1 = None \<and> hangs H B (p_world s)
      \<or> (\<exists>s'. inline_background H cx bs s1 = Some s' \<and> (ran H B)\<^sup>*\<^sup>* (p_world s) (p_world s'))" if "p_world s1 = w'" for s1
      using Cons.IH [OF bs, of s1] that step hangs_later [OF step] rtranclp_trans [OF step] by auto
    show ?thesis using Some p by (cases r) (simp_all add: on_world_def next_ split: prod.split)
  qed
qed simp

lemma inline_join_own:
  assumes "set js \<subseteq> B" and "(ran H B)\<^sup>*\<^sup>* w (p_world s)" and "distinct (map branch_name (js0 @ js))"
    and "own_results THREAD H B cx js0 w (p_world s) d"
  shows "returns_own THREAD H B cx (js0 @ js) w (inline_join H cx js d s)"
  using assms
proof (induction js arbitrary: js0 d s)
  case Nil
  then show ?case by (simp add: returns_own_def)
next
  case (Cons b js)
  have same: "exec_branch H b cx cx = submitted_branch THREAD H b cx cx" by (simp add: submitted_branch_def)
  have b: "b \<in> B" and bs: "set js \<subseteq> B" using Cons.prems(1) by simp_all
  show ?case
  proof (cases "exec_branch H b cx cx (p_world s)")
    case None
    then have "hangs H B (p_world s)" by (rule inline_run(1) [OF b])
    then have "hangs H B w" by (rule hangs_later [OF Cons.prems(2)])
    then show ?thesis using None by (simp add: on_world_def returns_own_def)
  next
    case (Some p)
    obtain r w' where p: "p = (r, w')" by (cases p)
    have step: "(ran H B)\<^sup>*\<^sup>* (p_world s) w'" by (rule inline_run(2) [OF b]) (use Some p in simp)
    let ?s = "s\<lparr>p_world := w'\<rparr>" and ?d = "dict_set (branch_name b) (branch_value (ph_text H) b r) d"
    have keys: "fst ` set ?d = insert (branch_name b) (fst ` set d)"
      using dict_set_has [of "branch_name b" "branch_value (ph_text H) b r" d] by (auto simp: dict_has_def)
    have own: "own_run THREAD H B cx w w' b r"
      by (rule own_run_now [OF Cons.prems(2)]) (use Some p same in simp)
    have "fst ` set ?d = branch_name ` set (js0 @ [b])"
      using Cons.prems(4) unfolding own_results_def keys by simp
    moreover have "\<exists>x. own_run THREAD H B cx w w' a x \<and> dict_get ?d (branch_name a) = Some (branch_value (ph_text H) a x)"
      if "a \<in> set (js0 @ [b])" for a
    proof (cases "a = b")
      case True
      then show ?thesis using own by auto
    next
      case False
      with that have a: "a \<in> set js0" by simp
      then have "branch_name a \<noteq> branch_name b" using Cons.prems(3) by (auto simp: image_iff)
      with a Cons.prems(4) own_run_later [OF _ step] show ?thesis unfolding own_results_def by (metis dict_set_get)
    qed
    ultimately have "own_results THREAD H B cx (js0 @ [b]) w (p_world ?s) ?d"
      unfolding own_results_def by simp
    moreover have "(ran H B)\<^sup>*\<^sup>* w (p_world ?s)" using rtranclp_trans [OF Cons.prems(2) step] by simp
    moreover have "distinct (map branch_name ((js0 @ [b]) @ js))" using Cons.prems(3) by simp
    ultimately have "returns_own THREAD H B cx ((js0 @ [b]) @ js) w (inline_join H cx js ?d ?s)"
      using Cons.IH [OF bs] by blast
    then show ?thesis using Some p by (simp add: on_world_def)
  qed
qed

lemma inline_own:
  assumes "distinct (map branch_name js)" and "set js \<subseteq> B" and "set bs \<subseteq> B"
  shows "returns_own THREAD H B cx js (p_world s) (execute_nested_inline H cx js bs s)"
  using inline_background_ran [OF assms(3), of H cx s]
proof (elim disjE exE conjE)
  fix s1 assume s1: "inline_background H cx bs s = Some s1" "(ran H B)\<^sup>*\<^sup>* (p_world s) (p_world s1)"
  have "returns_own THREAD H B cx ([] @ js) (p_world s) (inline_join H cx js [] s1)"
    by (rule inline_join_own [OF assms(2) s1(2)]) (simp_all add: assms(1) own_results_def)
  then show ?thesis using s1(1) by (simp add: execute_nested_inline_def)
qed (simp add: execute_nested_inline_def returns_own_def)

lemma submit_all_pending:
  "bt_branch ` set (p_pending (fold (submit_one md a cx) bs s)) = bt_branch ` set (p_pending s) \<union> set bs"
  "p_world (fold (submit_one md a cx) bs s) = p_world s"
  by (induction bs arbitrary: s) (auto simp: submit_one_def)

lemma background_pending:
  "bt_branch ` set (p_pending (execute_background_branches md H cx bs s)) = bt_branch ` set (p_pending s) \<union> set bs"
  "p_world (execute_background_branches md H cx bs s) = p_world s"
  by (auto simp: execute_background_branches_def submit_all_pending split: prod.splits)

lemma returns_own_host:
  "returns_own md (H\<lparr>ph_in_pool := x\<rparr>) B cx js w res = returns_own md H B cx js w res"
proof -
  have S: "submitted_branch m (H\<lparr>ph_in_pool := x\<rparr>) = submitted_branch m H" for m
    by (intro ext) (simp add: submitted_branch_def exec_branch_def split: option.split)
  then have "ran (H\<lparr>ph_in_pool := x\<rparr>) = ran H" by (intro ext) (simp add: ran_def)
  with S show ?thesis by (simp add: returns_own_def own_results_def own_run_def hangs_def cong: option.case_cong)
qed

lemma pool_execute_own:
  assumes "select_branches H n cx = Inr (js, bs)" and "distinct (map branch_name js)"
    and "set order = {..<length js}" and "\<forall>k. Join_Done k \<in> set sched \<longleftrightarrow> k < length js"
    and "md = PROCESS \<longrightarrow> \<not> ph_cancelled H" and "B = set js \<union> set bs \<union> bt_branch ` set (p_pending s)"
  shows "returns_own md H B cx js (p_world s) (pool_execute H n md sched order cx s)"
proof (cases "md = THREAD \<and> ph_in_pool H \<and> (js \<noteq> [] \<or> bs \<noteq> [])")
  case True
  then show ?thesis
    using assms(1,5,6) inline_own [OF assms(2), of B bs H cx s] by (auto simp: pool_execute_def bbind_def blift_def)
next
  case False
  have "returns_own md H B cx js (p_world s) (execute_join_branches md H cx sched order js (execute_background_branches md H cx bs s))"
    using execute_join_own [OF assms(2-4), of "execute_background_branches md H cx bs s" B md H cx] assms(6)
    by (auto simp: background_pending)
  then show ?thesis using assms(1,5) False by (auto simp: pool_execute_def bbind_def blift_def)
qed

text \<open>
  Property C9. A parallel node records, for every branch it joins, what that branch itself produced: once every joined branch (they have different names) has ended,
  in whatever order and interleaved with whatever background branches, the results hold under its name the value its own run
  in this schedule returned, or the error object of what it raised, and nothing else; in the thread pool, on a worker of that pool, in the
  process pool and as coroutines alike (a process node of a cancelled execution starts nothing and is left aside).  The node does not return only if the run of some branch hangs.
\<close>

theorem joined_results_are_own:
  assumes "select_branches H n cx = Inr (js, bs)" and "distinct (map branch_name js)"
    and "set order = {..<length js}" and "\<forall>k. Join_Done k \<in> set sched \<longleftrightarrow> k < length js"
    and "pn_mode n = PROCESS \<longrightarrow> \<not> ph_cancelled H" and "B = set js \<union> set bs \<union> bt_branch ` set (p_pending s)"
  shows "(pn_mode n \<noteq> COROUTINE \<longrightarrow>
      returns_own (pn_mode n) H B cx js (p_world s) (parallel_execute H n sched order cx s))
    \<and> returns_own (pn_mode n) H B cx js (p_world s) (parallel_arun H n sched order cx s)"
proof -
  let ?F = "H\<lparr>ph_in_pool := False\<rparr>"
  have sel: "select_branches ?F n cx = Inr (js, bs)" using assms(1) by (simp add: select_branches_def)
  have idx: "set [0..<length js] = {..<length js}" by auto
  have gather: "returns_own COROUTINE H B cx js (p_world s)
      (execute_join_branches COROUTINE H cx sched [0..<length js] js (fold (submit_one COROUTINE None cx) bs s))"
    using execute_join_own [OF assms(2) idx assms(4), of "fold (submit_one COROUTINE None cx) bs s" B COROUTINE H cx] assms(6)
    by (auto simp: submit_all_pending)
  have fresh: "returns_own (pn_mode n) H B cx js (p_world s) (pool_execute ?F n (pn_mode n) sched order cx s)"
    using pool_execute_own [OF sel assms(2-4), of "pn_mode n" B s] assms(5,6) by (simp add: returns_own_host)
  show ?thesis
    using pool_execute_own [OF assms(1-6)] fresh gather assms(1)
    by (simp add: parallel_execute_def parallel_arun_def bbind_def blift_def)
qed

section \<open>Properties\<close>

text \<open>
  A node one of whose selected branches has a suspending node, at any depth of called flows, is rejected before anything
  runs or is submitted, in every mode but the coroutine mode of a synchronous run, which is refused anyway; and only then.
\<close>

theorem suspending_branches_rejected:
  assumes "match_condition_branches (ph_eval H) n cx = Inr bs"
  shows "(\<exists>b\<in>set bs. \<exists>m. inside (pb_flow b) m \<and> nd_suspending m) \<longleftrightarrow> select_branches H n cx = Inl flow_suspend_rejected_error"
  using assms by (simp add: select_branches_def reject_suspending_branches_def list_ex_iff suspending_inside)

text \<open>
  Property C10. Background branches are accounted for: after any nodes of any executions and any endings of background branches, the
  futures an entry of the registry holds are those of its branches that have not ended, and the registry keeps at most as many
  executions as its limit, each with an entry of its own.
\<close>

theorem background_branches_accounted:
  assumes "(par_step limit)\<^sup>*\<^sup>* (start_par w) s"
  shows "par_ok limit s"
  using assms by (induction rule: rtranclp_induct) (simp_all add: par_ok_start par_step_ok)

section \<open>Witnesses\<close>

text \<open>A node with two joined branches, one of which fails, and a background branch.\<close>

definition leaf_flow :: "string \<Rightarrow> flow" where
  "leaf_flow i = Flow (Some i) [simple_node ''n'' ''start'' None] PNone [] []"

definition leaf_branch :: "string \<Rightarrow> parallel_branch" where
  "leaf_branch x = \<lparr>pb_name = Some x, pb_condition = None, pb_flow = leaf_flow x, pb_input = PInt 1\<rparr>"

definition fork_node :: parallel_node where
  "fork_node = \<lparr>pn_branches = [leaf_branch ''a'', leaf_branch ''bg'', leaf_branch ''b''], pn_conditional = False, pn_mode = THREAD,
     pn_join = [''a'', ''b'']\<rparr>"

definition fork_host :: "int par_host" where
  "fork_host = \<lparr>ph_eval = plain_evaluator,
     ph_run = (\<lambda>f args kw cx w. Some (if flow_id f = Some ''b'' then Inl (Exc flow_error_exception) else Inr (PInt 7), w + 1)),
     ph_text = (\<lambda>_. ''failed''), ph_limit = 1, ph_key = ''e1'', ph_in_pool = False, ph_cancelled = False,
     ph_pickle = (\<lambda>_ _ _. None), ph_process = (\<lambda>f args kw cx w. Some (Inr (PInt 8), w)), ph_receive = (\<lambda>r w. r)\<rparr>"

lemma leaf_input: "resolve_branch_input plain_evaluator (leaf_branch x) example_ctx = Inr (PInt 1)"
  by (simp add: resolve_branch_input_def leaf_branch_def plain_evaluator_def evaluate_def snapshot_value_def SNAPSHOT_MAX_DEPTH_def
      example_ctx_def new_context_def)

lemma fork_selected: "select_branches fork_host fork_node example_ctx = Inr ([leaf_branch ''a'', leaf_branch ''b''], [leaf_branch ''bg''])"
  by (simp add: select_branches_def match_condition_branches_def fork_node_def reject_suspending_branches_def split_branches_def
      joined_def leaf_branch_def leaf_flow_def simple_node_def)

theorem joined_results_are_own_witness:
  "\<exists>d s'. parallel_execute fork_host fork_node [Join_Done 1, Back_Done 0 example_ctx, Join_Done 0] [1, 0] example_ctx (start_par 0)
      = Some (Inr (PDict d), s')
    \<and> own_results THREAD fork_host {leaf_branch ''a'', leaf_branch ''b'', leaf_branch ''bg''} example_ctx [leaf_branch ''a'', leaf_branch ''b'']
        0 (p_world s') d"
proof -
  let ?sched = "[Join_Done 1, Back_Done 0 example_ctx, Join_Done 0]" and ?js = "[leaf_branch ''a'', leaf_branch ''b'']"
  let ?B = "{leaf_branch ''a'', leaf_branch ''b'', leaf_branch ''bg''}"
  have names: "distinct (map branch_name ?js)" by (simp add: branch_name_def leaf_branch_def)
  have ord: "set [1, 0] = {..<length ?js}" by auto
  have sched: "\<forall>k. Join_Done k \<in> set ?sched \<longleftrightarrow> k < length ?js" by auto
  have mode: "pn_mode fork_node = PROCESS \<longrightarrow> \<not> ph_cancelled fork_host" "pn_mode fork_node = THREAD" by (simp_all add: fork_node_def)
  have B: "?B = set ?js \<union> set [leaf_branch ''bg''] \<union> bt_branch ` set (p_pending (start_par (0 :: int)))" by (auto simp: start_par_def)
  have a: "exec_branch fork_host b cx now w \<noteq> None" for b cx now and w :: int
    by (cases "resolve_branch_input (ph_eval fork_host) b now") (auto simp: exec_branch_def fork_host_def bbind_def blift_def)
  have b: "exec_branch (fork_host\<lparr>ph_run := ph_process fork_host\<rparr>) b cx now w \<noteq> None" for b cx now and w :: int
    by (cases "resolve_branch_input (ph_eval fork_host) b now") (auto simp: exec_branch_def fork_host_def bbind_def blift_def)
  have "submitted_branch md fork_host b cx now w \<noteq> None" for md b cx now and w :: int
    by (auto simp: submitted_branch_def a b simp del: not_None_eq split: option.split)
  then have "\<not> hangs fork_host ?B w" for w by (simp add: hangs_def)
  moreover have "returns_own THREAD fork_host ?B example_ctx ?js 0 (parallel_execute fork_host fork_node ?sched [1, 0] example_ctx (start_par 0))"
    using joined_results_are_own [OF fork_selected names ord sched mode(1) B] mode(2) by (simp add: start_par_def)
  ultimately show ?thesis by (auto simp: returns_own_def split: option.splits)
qed

theorem suspending_branches_rejected_witness:
  "select_branches fork_host (fork_node\<lparr>pn_branches := [(leaf_branch ''a'')\<lparr>pb_flow :=
      Flow None [Node ''e'' ''event'' None None False None False True (PStr []) default_error_handler default_error_handler [] [] None None]
        PNone [] []\<rparr>]\<rparr>) example_ctx = Inl flow_suspend_rejected_error"
proof -
  let ?ev = "Node ''e'' ''event'' None None False None False True (PStr []) default_error_handler default_error_handler [] [] None None"
  let ?b = "(leaf_branch ''a'')\<lparr>pb_flow := Flow None [?ev] PNone [] []\<rparr>"
  have bs: "match_condition_branches (ph_eval fork_host) (fork_node\<lparr>pn_branches := [?b]\<rparr>) example_ctx = Inr [?b]"
    by (simp add: match_condition_branches_def fork_node_def)
  have "inside (pb_flow ?b) ?ev" by (rule inside_here) simp
  then show ?thesis using suspending_branches_rejected [OF bs] by auto
qed

theorem background_branches_accounted_witness:
  "\<exists>s. par_step 1 (start_par (0 :: int)) s \<and> map bt_id (p_pending s) = [0] \<and> par_ok 1 s"
proof -
  let ?s = "snd (the (parallel_execute fork_host fork_node [Join_Done 0, Join_Done 1] [0, 1] example_ctx (start_par 0)))"
  have run: "parallel_execute fork_host fork_node [Join_Done 0, Join_Done 1] [0, 1] example_ctx (start_par 0) =
      Some (fst (the (parallel_execute fork_host fork_node [Join_Done 0, Join_Done 1] [0, 1] example_ctx (start_par 0))), ?s)
    \<and> map bt_id (p_pending ?s) = [0]"
    using fork_selected leaf_input [of "''a''"] leaf_input [of "''b''"]
    by (simp add: parallel_execute_def pool_execute_def fork_node_def) (simp add: fork_host_def execute_background_branches_def
      get_bg_state_def start_par_def submit_one_def execute_join_branches_def on_world_def submitted_branch_def exec_branch_def upt_rec)
  obtain r s where exec: "parallel_execute fork_host fork_node [Join_Done 0, Join_Done 1] [0, 1] example_ctx (start_par 0) = Some (r, s)"
    and pend: "map bt_id (p_pending s) = [0]" by (rule that [OF conjunct1 [OF run] conjunct2 [OF run]])
  have step: "par_step 1 (start_par 0) s" by (rule ps_execute [OF _ exec]) (simp add: fork_host_def)
  then have "(par_step 1)\<^sup>*\<^sup>* (start_par 0) s" by blast
  then have "par_ok 1 s" by (rule background_branches_accounted)
  with step pend show ?thesis by (intro exI [of _ s] conjI)
qed

end
