(* ===== verification/Redis_Store.thy ===== *)
theory Redis_Store
  imports Timeouts
begin

text \<open>
  The commands of a Redis server which the lease, fencing and storage code calls (GET, SET with
  and without EX, DEL, EXPIRE, TTL, INCRBY, ZADD, ZREM), as a record of functions on the state of the server.
  The server is not part of the repository: the code is modelled for any such record, and the locale
  \<open>redis_server\<close> states the documented behaviour its guarantees rest on.  \<open>kv_redis\<close>, a
  store with expiry times and a clock, satisfies it.  A Lua script runs atomically, so a script is a
  composition of commands.
\<close>

section \<open>Decimal numbers\<close>

text \<open>The decimal form of a number determines it and has digits only.\<close>

definition char_digit :: "char \<Rightarrow> nat" where
  "char_digit c = of_char c - 48"

definition digits_nat :: "string \<Rightarrow> nat option" where
  "digits_nat s =
     (if s \<noteq> [] \<and> list_all ascii_digit s then Some (foldl (\<lambda>a c. a * 10 + char_digit c) 0 s) else None)"

declare nat_str.simps [simp del]

lemma digit_char [simp]:
  "d < 10 \<Longrightarrow> char_digit (char_of (48 + d)) = d" "d < 10 \<Longrightarrow> ascii_digit (char_of (48 + d))"
  by (simp_all add: char_digit_def ascii_digit_def of_char_of)

lemma nat_str_nonempty [simp]: "nat_str n \<noteq> []"
  by (subst nat_str.simps) simp

lemma nat_str_digits: "list_all ascii_digit (nat_str n)"
proof (induction n rule: nat_str.induct)
  case (1 n)
  then show ?case by (subst nat_str.simps) simp
qed

lemma foldl_digits: "foldl (\<lambda>a c. a * 10 + char_digit c) 0 (nat_str n) = n"
proof (induction n rule: nat_str.induct)
  case (1 n)
  then show ?case by (subst nat_str.simps) simp
qed

lemma digits_nat_str [simp]: "digits_nat (nat_str n) = Some n"
  by (simp add: digits_nat_def nat_str_digits foldl_digits)

lemma nat_str_inject [simp]: "nat_str m = nat_str n \<longleftrightarrow> m = n"
  by (metis digits_nat_str option.inject)

lemma nat_str_no_colon: "CHR '':'' \<notin> set (nat_str n)"
  using nat_str_digits [of n] by (auto simp: list_all_iff ascii_digit_def)

section \<open>The server\<close>

record 's redis =
  rget :: "string \<Rightarrow> 's \<Rightarrow> string option"
  rset :: "string \<Rightarrow> string \<Rightarrow> int option \<Rightarrow> 's \<Rightarrow> 's"
  rdel :: "string \<Rightarrow> 's \<Rightarrow> 's"
  rexpire :: "string \<Rightarrow> int \<Rightarrow> 's \<Rightarrow> 's"
  rttl :: "string \<Rightarrow> 's \<Rightarrow> int"
  rincrby :: "string \<Rightarrow> nat \<Rightarrow> 's \<Rightarrow> (nat \<times> 's) option"
  rzadd :: "string \<Rightarrow> string \<Rightarrow> string \<Rightarrow> 's \<Rightarrow> 's"
  rzrem :: "string \<Rightarrow> string \<Rightarrow> 's \<Rightarrow> 's"
  rpass :: "int \<Rightarrow> 's \<Rightarrow> 's"

text \<open>The number a counter key holds: a missing key counts as zero, another text is not a number.\<close>

definition counter :: "'s redis \<Rightarrow> string \<Rightarrow> 's \<Rightarrow> nat option" where
  "counter R k s = (case rget R k s of None \<Rightarrow> Some 0 | Some v \<Rightarrow> digits_nat v)"

text \<open>A key that does not expire: absent, or without time to live (\<open>TTL\<close> answers -1).\<close>

definition lasting :: "'s redis \<Rightarrow> string \<Rightarrow> 's \<Rightarrow> bool" where
  "lasting R k s \<longleftrightarrow> rget R k s = None \<or> rttl R k s = - 1"

definition positive :: "int option \<Rightarrow> bool" where
  "positive ex \<longleftrightarrow> (case ex of None \<Rightarrow> True | Some t \<Rightarrow> 0 < t)"

definition INCR_LIMIT :: nat where
  "INCR_LIMIT = 2 ^ 63"

locale redis_server =
  fixes R :: "'s redis"
  assumes get_set: "positive ex \<Longrightarrow> rget R k (rset R k' v ex s) = (if k = k' then Some v else rget R k s)"
    and get_del: "rget R k (rdel R k' s) = (if k = k' then None else rget R k s)"
    and get_expire: "0 < t \<Longrightarrow> rget R k (rexpire R k' t s) = rget R k s"
    and get_zadd: "rget R k (rzadd R k' sc m s) = rget R k s"
    and get_zrem: "rget R k (rzrem R k' m s) = rget R k s"
    and get_pass: "rget R k (rpass R dt s) \<noteq> None \<Longrightarrow> rget R k (rpass R dt s) = rget R k s"
    and incr_result: "counter R k s = Some n \<Longrightarrow> n + d < INCR_LIMIT \<Longrightarrow> \<exists>s'. rincrby R k d s = Some (n + d, s')"
    and incr_counter: "rincrby R k d s = Some (n, s') \<Longrightarrow> counter R k s = Some c \<Longrightarrow> n = c + d"
    and incr_get: "rincrby R k d s = Some (n, s') \<Longrightarrow> rget R k' s' = (if k' = k then Some (nat_str n) else rget R k' s)"
    and lasting_other: "k \<noteq> k' \<Longrightarrow> lasting R k s \<Longrightarrow>
      lasting R k (rset R k' v ex s) \<and> lasting R k (rdel R k' s) \<and> lasting R k (rexpire R k' t s)"
    and lasting_z: "lasting R k s \<Longrightarrow> lasting R k (rzadd R k' sc m s) \<and> lasting R k (rzrem R k' m s)"
    and lasting_incr: "lasting R k s \<Longrightarrow> rincrby R k' d s = Some (n, s') \<Longrightarrow> lasting R k s'"
    and lasting_pass: "lasting R k s \<Longrightarrow> lasting R k (rpass R dt s) \<and> rget R k (rpass R dt s) = rget R k s"
begin

lemma counter_set [simp]: "positive ex \<Longrightarrow> k \<noteq> k' \<Longrightarrow> counter R k (rset R k' v ex s) = counter R k s"
  by (simp add: counter_def get_set)

lemma counter_del [simp]: "k \<noteq> k' \<Longrightarrow> counter R k (rdel R k' s) = counter R k s"
  by (simp add: counter_def get_del)

lemma counter_z [simp]: "counter R k (rzadd R k' sc m s) = counter R k s" "counter R k (rzrem R k' m s) = counter R k s"
  by (simp_all add: counter_def get_zadd get_zrem)

lemma counter_expire [simp]: "0 < t \<Longrightarrow> counter R k (rexpire R k' t s) = counter R k s"
  by (simp add: counter_def get_expire)

lemma counter_pass: "lasting R k s \<Longrightarrow> counter R k (rpass R dt s) = counter R k s"
  using lasting_pass [of k s dt] by (simp add: counter_def)

lemma counter_incr: "rincrby R k d s = Some (n, s') \<Longrightarrow> counter R k' s' = (if k' = k then Some n else counter R k' s)"
  using incr_get [of k d s n s'] by (simp add: counter_def)

end

section \<open>A store with expiry times\<close>

record kv =
  kv_now :: int
  kv_str :: "string \<Rightarrow> (string \<times> int option) option"
  kv_z :: "string \<Rightarrow> (string \<times> string) list"

definition alive :: "int \<Rightarrow> int option \<Rightarrow> bool" where
  "alive now e = (case e of None \<Rightarrow> True | Some t \<Rightarrow> now < t)"

lemma alive_None [simp]: "alive now None"
  by (simp add: alive_def)

definition kv_live :: "kv \<Rightarrow> string \<Rightarrow> (string \<times> int option) option" where
  "kv_live s k =
     (case kv_str s k of
        Some x \<Rightarrow> if alive (kv_now s) (snd x) then Some x else None
      | None \<Rightarrow> None)"

definition kv_put :: "string \<Rightarrow> string \<Rightarrow> int option \<Rightarrow> kv \<Rightarrow> kv" where
  "kv_put k v e s = s\<lparr>kv_str := (kv_str s)(k \<mapsto> (v, e))\<rparr>"

definition kv_redis :: "kv redis" where
  "kv_redis =
     \<lparr>rget = (\<lambda>k s. map_option fst (kv_live s k)),
      rset = (\<lambda>k v ex s. kv_put k v (map_option (\<lambda>t. kv_now s + t) ex) s),
      rdel = (\<lambda>k s. s\<lparr>kv_str := (kv_str s)(k := None)\<rparr>),
      rexpire = (\<lambda>k t s. case kv_live s k of None \<Rightarrow> s | Some (v, e) \<Rightarrow> kv_put k v (Some (kv_now s + t)) s),
      rttl = (\<lambda>k s. case kv_live s k of None \<Rightarrow> - 2 | Some (v, None) \<Rightarrow> - 1 | Some (v, Some t) \<Rightarrow> t - kv_now s),
      rincrby = (\<lambda>k d s.
        case kv_live s k of
          None \<Rightarrow> if d < INCR_LIMIT then Some (d, kv_put k (nat_str d) None s) else None
        | Some (v, e) \<Rightarrow>
            (case digits_nat v of
               None \<Rightarrow> None
             | Some n \<Rightarrow> if n + d < INCR_LIMIT then Some (n + d, kv_put k (nat_str (n + d)) e s) else None)),
      rzadd = (\<lambda>k sc m s. s\<lparr>kv_z := (kv_z s)(k := (m, sc) # filter (\<lambda>(m', _). m' \<noteq> m) (kv_z s k))\<rparr>),
      rzrem = (\<lambda>k m s. s\<lparr>kv_z := (kv_z s)(k := filter (\<lambda>(m', _). m' \<noteq> m) (kv_z s k))\<rparr>),
      rpass = (\<lambda>d s. s\<lparr>kv_now := kv_now s + max 0 d\<rparr>)\<rparr>"

lemma kv_ops:
  "rget kv_redis k s = map_option fst (kv_live s k)"
  "rset kv_redis k v ex s = kv_put k v (map_option (\<lambda>t. kv_now s + t) ex) s"
  "rdel kv_redis k s = s\<lparr>kv_str := (kv_str s)(k := None)\<rparr>"
  "rexpire kv_redis k t s = (case kv_live s k of None \<Rightarrow> s | Some (v, e) \<Rightarrow> kv_put k v (Some (kv_now s + t)) s)"
  "rttl kv_redis k s = (case kv_live s k of None \<Rightarrow> - 2 | Some (v, None) \<Rightarrow> - 1 | Some (v, Some t) \<Rightarrow> t - kv_now s)"
  "rincrby kv_redis k d s =
     (case kv_live s k of
        None \<Rightarrow> if d < INCR_LIMIT then Some (d, kv_put k (nat_str d) None s) else None
      | Some (v, e) \<Rightarrow>
          (case digits_nat v of
             None \<Rightarrow> None
           | Some n \<Rightarrow> if n + d < INCR_LIMIT then Some (n + d, kv_put k (nat_str (n + d)) e s) else None))"
  "rzadd kv_redis k sc m s = s\<lparr>kv_z := (kv_z s)(k := (m, sc) # filter (\<lambda>(m', _). m' \<noteq> m) (kv_z s k))\<rparr>"
  "rzrem kv_redis k m s = s\<lparr>kv_z := (kv_z s)(k := filter (\<lambda>(m', _). m' \<noteq> m) (kv_z s k))\<rparr>"
  "rpass kv_redis dt s = s\<lparr>kv_now := kv_now s + max 0 dt\<rparr>"
  by (simp_all add: kv_redis_def)

definition empty_kv :: kv where
  "empty_kv = \<lparr>kv_now = 0, kv_str = (\<lambda>_. None), kv_z = (\<lambda>_. [])\<rparr>"

lemma kv_live_put [simp]:
  "alive (kv_now s) e \<Longrightarrow>
     kv_live (kv_put k v e s) k' = (if k' = k then Some (v, e) else kv_live s k')"
  by (auto simp: kv_live_def kv_put_def split: option.splits)

lemma kv_live_put_other [simp]: "k' \<noteq> k \<Longrightarrow> kv_live (kv_put k v e s) k' = kv_live s k'"
  by (auto simp: kv_live_def kv_put_def split: option.splits)

lemma kv_live_z [simp]: "kv_live (s\<lparr>kv_z := z\<rparr>) k = kv_live s k"
  by (auto simp: kv_live_def split: option.splits)

lemma kv_live_fresh: "kv_live s k = Some (v, e) \<Longrightarrow> alive (kv_now s) e"
  by (auto simp: kv_live_def split: option.splits if_splits)

lemma kv_lasting: "lasting kv_redis k s \<longleftrightarrow> (\<forall>v e. kv_live s k = Some (v, e) \<longrightarrow> e = None)"
  using kv_live_fresh [of s k] by (fastforce simp: lasting_def kv_ops alive_def split: option.splits)

lemma kv_incr_cases:
  assumes "rincrby kv_redis k d s = Some (n, s')"
  obtains "kv_live s k = None" "n = d" "s' = kv_put k (nat_str d) None s"
  | v e c where "kv_live s k = Some (v, e)" "digits_nat v = Some c" "n = c + d" "s' = kv_put k (nat_str n) e s"
  using assms by (auto simp: kv_ops split: option.splits if_splits prod.splits)

lemma kv_live_pass:
  "kv_live (s\<lparr>kv_now := kv_now s + max 0 d\<rparr>) k = Some x \<Longrightarrow> kv_live s k = Some x"
  by (auto simp: kv_live_def alive_def split: option.splits if_splits)

interpretation kv: redis_server kv_redis
proof
  show "rget kv_redis k (rset kv_redis k' v ex s) = (if k = k' then Some v else rget kv_redis k s)" if "positive ex" for k k' v ex s
    using that by (auto simp: kv_ops positive_def alive_def split: option.splits)
  show "rget kv_redis k (rdel kv_redis k' s) = (if k = k' then None else rget kv_redis k s)" for k k' s
    by (auto simp: kv_ops kv_live_def split: option.splits)
  show "rget kv_redis k (rexpire kv_redis k' t s) = rget kv_redis k s" if "0 < t" for k k' t s
    using that by (auto simp: kv_ops alive_def split: option.splits)
  show "rget kv_redis k (rpass kv_redis dt s) = rget kv_redis k s" if "rget kv_redis k (rpass kv_redis dt s) \<noteq> None" for k dt s
    using that kv_live_pass [of s dt k] by (auto simp: kv_ops)
  show "\<exists>s'. rincrby kv_redis k d s = Some (n + d, s')" if "counter kv_redis k s = Some n" "n + d < INCR_LIMIT" for k s n d
    using that by (auto simp: counter_def kv_ops split: option.splits)
  show "n = c + d" if "rincrby kv_redis k d s = Some (n, s')" "counter kv_redis k s = Some c" for k d s n s' c
    using that(2) by (cases rule: kv_incr_cases [OF that(1)]) (auto simp: counter_def kv_ops)
  show "rget kv_redis k' s' = (if k' = k then Some (nat_str n) else rget kv_redis k' s)"
    if "rincrby kv_redis k d s = Some (n, s')" for k d s n s' k'
    using kv_live_fresh [of s k] by (cases rule: kv_incr_cases [OF that]) (auto simp: kv_ops)
  show "lasting kv_redis k (rset kv_redis k' v ex s) \<and> lasting kv_redis k (rdel kv_redis k' s) \<and> lasting kv_redis k (rexpire kv_redis k' t s)"
    if "k \<noteq> k'" "lasting kv_redis k s" for k k' s v ex t
    using that by (auto simp: kv_lasting kv_ops kv_live_def kv_put_def split: option.splits)
  show "lasting kv_redis k s'" if "lasting kv_redis k s" "rincrby kv_redis k' d s = Some (n, s')" for k s k' d n s'
    using that(1) kv_live_fresh [of s k'] by (cases rule: kv_incr_cases [OF that(2)]) (auto simp: kv_lasting split: if_splits)
  show "lasting kv_redis k (rpass kv_redis dt s) \<and> rget kv_redis k (rpass kv_redis dt s) = rget kv_redis k s"
    if "lasting kv_redis k s" for k s dt
    using that by (auto simp: kv_lasting kv_ops kv_live_def alive_def split: option.splits)
qed (simp_all add: kv_ops kv_lasting)

end
