(* ===== verification/Execution_Lease.thy ===== *)
theory Execution_Lease
  imports Redis_Store
begin

text \<open>
  \<^verbatim>\<open>plaita/server/execution_lease.py\<close>, \<^verbatim>\<open>storage/fenced.py\<close> and the keys of \<^verbatim>\<open>storage/redis.py\<close>:
  the lease that lets one worker at a time resume an execution, the generation counter behind its
  fencing tokens, and the compare-and-set writes of the fenced storage.  Every Lua script is a
  definition over the commands of \<open>Redis_Store\<close>.  Lua's numbers are doubles: \<open>tostring\<close> writes fourteen significant digits,
  so from \<open>10 ^ 14\<close> on in exponent form; their arithmetic is exact below \<open>2 ^ 53\<close>, which is the range the
  scripts are modelled for.
\<close>

section \<open>Keys\<close>

definition execution_index_key :: "string \<Rightarrow> string" where
  "execution_index_key ns = ns @ '':execution:index''"

definition execution_state_key :: "string \<Rightarrow> string \<Rightarrow> string" where
  "execution_state_key ns eid = ns @ '':execution:'' @ eid"

definition execution_fence_key :: "string \<Rightarrow> string \<Rightarrow> string" where
  "execution_fence_key ns eid = ns @ '':execution:fence:'' @ eid"

definition execution_fence_generation_key :: "string \<Rightarrow> string \<Rightarrow> string" where
  "execution_fence_generation_key ns eid = ns @ '':execution:fencegen:'' @ eid"

definition execution_lease_key :: "string \<Rightarrow> string \<Rightarrow> string" where
  "execution_lease_key ns eid = ns @ '':execution:lease:'' @ eid"

definition execution_counter_key :: "string \<Rightarrow> string \<Rightarrow> string \<Rightarrow> string" where
  "execution_counter_key ns eid t = ns @ '':execution:'' @ t @ '':'' @ eid"

definition EXECUTION_COUNTER_KEY_TYPES :: "string list" where
  "EXECUTION_COUNTER_KEY_TYPES = [''nofail'', ''g1wakeups'', ''noderefetch'', ''noderetry'', ''affinityhandover'']"

definition execution_tombstone_key :: "string \<Rightarrow> string" where
  "execution_tombstone_key eid = ''plaita:exec_tombstone:'' @ eid"

text \<open>\<open>counter_keys_for_execution\<close>; \<open>scanned\<close> are the keys the server holds when it is asked for the node retry counters.\<close>

definition counter_keys_for_execution :: "string list \<Rightarrow> string \<Rightarrow> string \<Rightarrow> string list" where
  "counter_keys_for_execution scanned ns eid =
     map (execution_counter_key ns eid) EXECUTION_COUNTER_KEY_TYPES
     @ filter (Sublist.prefix (execution_counter_key ns eid ''noderetry'' @ '':'')) scanned"

text \<open>\<open>RedisExecutionLease.__init__\<close>: the prefixes of the fence and of the generation counter are derived from the lease prefix.\<close>

record lease_keys =
  key_prefix :: string
  fence_key_prefix :: string
  fence_generation_key_prefix :: string

definition swap_suffix :: "string \<Rightarrow> string \<Rightarrow> string \<Rightarrow> string" where
  "swap_suffix old new s =
     (if suffix old s then take (length s - length old) s @ new else s @ '':'' @ new)"

definition new_lease :: "string \<Rightarrow> string option \<Rightarrow> lease_keys" where
  "new_lease p fence =
     (let fp = (case fence of None \<Rightarrow> swap_suffix ''lease:'' ''fence:'' p | Some f \<Rightarrow> f)
      in \<lparr>key_prefix = p, fence_key_prefix = fp, fence_generation_key_prefix = swap_suffix ''fence:'' ''fencegen:'' fp\<rparr>)"

section \<open>The lease\<close>

definition FENCE_KEY_TTL_SECONDS :: int where
  "FENCE_KEY_TTL_SECONDS = 7 * 86400"

datatype lease_error = ScriptError | ExecutionLeaseError | StateSerializationError

text \<open>\<open>tostring\<close> of a whole number, in the format \<^verbatim>\<open>%.14g\<close>: rounded half to even, without trailing zeros.\<close>

definition lua_tostring :: "nat \<Rightarrow> string" where
  "lua_tostring n =
     (if n < 10 ^ 14 then nat_str n
      else
        (let e = length (nat_str n) - 1;
             u = 10 ^ (e - 13);
             q = n div u; r = n mod u;
             q' = (if u < 2 * r \<or> u = 2 * r \<and> odd q then q + 1 else q);
             (m, e') = (if q' = 10 ^ 14 then (10 ^ 13, e + 1) else (q', e));
             frac = rev (dropWhile (\<lambda>c. c = CHR ''0'') (rev (tl (nat_str m))))
         in hd (nat_str m) # (if frac = [] then [] else CHR ''.'' # frac) @ ''e+'' @ nat_str e'))"

text \<open>\<open>tonumber(v) or 0\<close> of the fence value, for the two forms \<open>tostring\<close> writes.\<close>

definition exponent_number :: "string \<Rightarrow> nat option" where
  "exponent_number s =
     (let m = takeWhile (\<lambda>c. c \<noteq> CHR ''e'') s; x = dropWhile (\<lambda>c. c \<noteq> CHR ''e'') s;
          a = takeWhile (\<lambda>c. c \<noteq> CHR ''.'') m; f = drop 1 (dropWhile (\<lambda>c. c \<noteq> CHR ''.'') m)
      in if take 2 x \<noteq> ''e+'' then None
         else (case (digits_nat (a @ f), digits_nat (drop 2 x)) of
                 (Some k, Some e) \<Rightarrow> if length f \<le> e then Some (k * 10 ^ (e - length f)) else None
               | _ \<Rightarrow> None))"

definition lua_number :: "string option \<Rightarrow> nat" where
  "lua_number v =
     (case v of
        None \<Rightarrow> 0
      | Some s \<Rightarrow> (case digits_nat s of Some n \<Rightarrow> n | None \<Rightarrow> (case exponent_number s of None \<Rightarrow> 0 | Some n \<Rightarrow> n)))"

text \<open>\<open>_FENCED_ACQUIRE_LUA\<close>; an error of a command ends the script.\<close>

definition fenced_acquire_script ::
  "'s redis \<Rightarrow> string \<Rightarrow> string \<Rightarrow> string \<Rightarrow> string \<Rightarrow> int \<Rightarrow> int \<Rightarrow> 's \<Rightarrow> (lease_error + nat) \<times> 's" where
  "fenced_acquire_script R lease fence gen holder ttl fence_ttl s =
     (if rget R lease s \<noteq> None then (Inr 0, s)
      else
        (let floor = lua_number (rget R fence s) in
         case rincrby R gen 1 s of
           None \<Rightarrow> (Inl ScriptError, s)
         | Some (g, s1) \<Rightarrow>
             (case (if g \<le> floor then rincrby R gen (floor - g + 1) s1 else Some (g, s1)) of
                None \<Rightarrow> (Inl ScriptError, s1)
              | Some (g', s2) \<Rightarrow>
                  (Inr g', rset R lease (holder @ '':'' @ lua_tostring g') (Some ttl)
                             (rset R fence (lua_tostring g') (Some fence_ttl) s2)))))"

definition try_acquire_fenced ::
  "'s redis \<Rightarrow> lease_keys \<Rightarrow> string \<Rightarrow> string \<Rightarrow> int \<Rightarrow> 's \<Rightarrow> (lease_error + nat option) \<times> 's" where
  "try_acquire_fenced R L eid holder ttl s =
     (case fenced_acquire_script R (key_prefix L @ eid) (fence_key_prefix L @ eid) (fence_generation_key_prefix L @ eid)
             holder ttl FENCE_KEY_TTL_SECONDS s of
        (Inl e, s') \<Rightarrow> (Inl e, s')
      | (Inr g, s') \<Rightarrow> (Inr (if g > 0 then Some g else None), s'))"

definition try_acquire :: "'s redis \<Rightarrow> lease_keys \<Rightarrow> string \<Rightarrow> string \<Rightarrow> int \<Rightarrow> 's \<Rightarrow> bool \<times> 's" where
  "try_acquire R L eid holder ttl s =
     (if rget R (key_prefix L @ eid) s = None then (True, rset R (key_prefix L @ eid) holder (Some ttl) s) else (False, s))"

definition release :: "'s redis \<Rightarrow> lease_keys \<Rightarrow> string \<Rightarrow> string \<Rightarrow> 's \<Rightarrow> bool \<times> 's" where
  "release R L eid value s =
     (if rget R (key_prefix L @ eid) s = Some value then (True, rdel R (key_prefix L @ eid) s) else (False, s))"

definition renew :: "'s redis \<Rightarrow> lease_keys \<Rightarrow> string \<Rightarrow> string \<Rightarrow> int \<Rightarrow> 's \<Rightarrow> bool \<times> 's" where
  "renew R L eid value ttl s =
     (if rget R (key_prefix L @ eid) s = Some value then (True, rexpire R (key_prefix L @ eid) ttl s) else (False, s))"

definition get_holder :: "'s redis \<Rightarrow> lease_keys \<Rightarrow> string \<Rightarrow> 's \<Rightarrow> string option" where
  "get_holder R L eid s = rget R (key_prefix L @ eid) s"

section \<open>Fenced storage\<close>

text \<open>\<open>_FENCED_SAVE_LUA\<close>\<close>

definition fenced_save_script ::
  "'s redis \<Rightarrow> string \<Rightarrow> string \<Rightarrow> string \<Rightarrow> string \<Rightarrow> string \<Rightarrow> string \<Rightarrow> int \<Rightarrow> string \<Rightarrow> string \<Rightarrow> 's \<Rightarrow> int \<times> 's" where
  "fenced_save_script R state fence index gen payload expected ttl score member s =
     (if rget R fence s = Some expected then
        (if rget R gen s \<noteq> Some expected then (- 1, s)
         else (1, rzadd R index score member (rset R state payload (if ttl > 0 then Some ttl else None) s)))
      else (0, s))"

text \<open>The part of \<open>_FENCED_DELETE_LUA\<close> that writes the tombstone: created once, its time to live only extended (\<open>_TOMBSTONE_WRITE_LUA\<close>).\<close>

definition write_tombstone :: "'s redis \<Rightarrow> string \<Rightarrow> string \<Rightarrow> int \<Rightarrow> 's \<Rightarrow> 's" where
  "write_tombstone R key payload ttl s =
     (if rget R key s = None then rset R key payload (if ttl > 0 then Some ttl else None) s
      else if ttl > 0 \<and> 0 \<le> rttl R key s \<and> rttl R key s < ttl then rexpire R key ttl s
      else s)"

definition fenced_delete_script ::
  "'s redis \<Rightarrow> string \<Rightarrow> string \<Rightarrow> string \<Rightarrow> string \<Rightarrow> string \<Rightarrow> string list \<Rightarrow> string \<Rightarrow> string \<Rightarrow> string \<Rightarrow> int \<Rightarrow> string \<Rightarrow> 's \<Rightarrow>
     int \<times> 's" where
  "fenced_delete_script R state fence index lease gen counters tombstone expected member ttl payload s =
     (if rget R fence s = Some expected then
        (if rget R gen s \<noteq> Some expected then (- 1, s)
         else (1, write_tombstone R tombstone payload ttl
                    (fold (rdel R) counters (rdel R lease (rdel R fence (rzrem R index member (rdel R state s)))))))
      else (0, s))"

text \<open>
  \<open>FencedExecutionStorage.save_execution_state\<close> with the token of the calling worker; without
  a token the write is that of \<open>RedisExecutionStorage\<close>.  \<open>payload\<close> is the serialised
  state, \<open>None\<close> when it cannot be serialised, \<open>ttl\<close> the time to live of a terminal state.
\<close>

definition plain_save :: "'s redis \<Rightarrow> string \<Rightarrow> string \<Rightarrow> string option \<Rightarrow> int \<Rightarrow> string \<Rightarrow> 's \<Rightarrow> (lease_error + bool) \<times> 's" where
  "plain_save R ns eid payload ttl score s =
     (case payload of
        None \<Rightarrow> (Inl StateSerializationError, s)
      | Some p \<Rightarrow>
          (Inr True, rzadd R (execution_index_key ns) score eid
             (rset R (execution_state_key ns eid) p (if ttl > 0 then Some ttl else None) s)))"

definition cas_result :: "int \<Rightarrow> lease_error + bool" where
  "cas_result code = (if code = - 1 then Inl ExecutionLeaseError else if code = 0 then Inl ExecutionLeaseError else Inr True)"

definition save_execution_state ::
  "'s redis \<Rightarrow> string \<Rightarrow> nat option \<Rightarrow> string \<Rightarrow> string option \<Rightarrow> int \<Rightarrow> string \<Rightarrow> 's \<Rightarrow> (lease_error + bool) \<times> 's" where
  "save_execution_state R ns token eid payload ttl score s =
     (case token of
        None \<Rightarrow> plain_save R ns eid payload ttl score s
      | Some g \<Rightarrow>
          (case payload of
             None \<Rightarrow> (Inl StateSerializationError, s)
           | Some p \<Rightarrow>
               (case fenced_save_script R (execution_state_key ns eid) (execution_fence_key ns eid) (execution_index_key ns)
                       (execution_fence_generation_key ns eid) p (nat_str g) ttl score eid s of
                  (code, s') \<Rightarrow> (cas_result code, s'))))"

text \<open>\<open>RedisExecutionStorage.delete_execution_state\<close>: one transaction, no token.\<close>

definition plain_delete :: "'s redis \<Rightarrow> string list \<Rightarrow> string \<Rightarrow> string \<Rightarrow> int \<Rightarrow> string \<Rightarrow> 's \<Rightarrow> (lease_error + bool) \<times> 's" where
  "plain_delete R scanned ns eid ttl payload s =
     (Inr True,
      fold (rdel R) (counter_keys_for_execution scanned ns eid)
        (rdel R (execution_lease_key ns eid) (rdel R (execution_fence_key ns eid)
          (rzrem R (execution_index_key ns) eid (rdel R (execution_state_key ns eid)
            (write_tombstone R (execution_tombstone_key eid) payload ttl s))))))"

definition delete_execution_state ::
  "'s redis \<Rightarrow> string list \<Rightarrow> string \<Rightarrow> nat option \<Rightarrow> string \<Rightarrow> int \<Rightarrow> string \<Rightarrow> 's \<Rightarrow> (lease_error + bool) \<times> 's" where
  "delete_execution_state R scanned ns token eid ttl payload s =
     (case token of
        None \<Rightarrow> plain_delete R scanned ns eid ttl payload s
      | Some g \<Rightarrow>
          (case fenced_delete_script R (execution_state_key ns eid) (execution_fence_key ns eid) (execution_index_key ns)
                  (execution_lease_key ns eid) (execution_fence_generation_key ns eid)
                  (counter_keys_for_execution scanned ns eid) (execution_tombstone_key eid) (nat_str g) eid ttl payload s of
             (code, s') \<Rightarrow> (cas_result code, s')))"

section \<open>Holder tokens\<close>

definition HOLDER_LIVENESS_PREFIXES :: "string list" where
  "HOLDER_LIVENESS_PREFIXES = [''start'', ''resume'', ''worker'']"

definition HOLDER_UUID_HEX_LEN :: nat where
  "HOLDER_UUID_HEX_LEN = 16"

text \<open>\<open>s.split(':')\<close>\<close>

fun split_colon :: "string \<Rightarrow> string list" where
  "split_colon [] = [[]]"
| "split_colon (c # cs) =
     (if c = CHR '':'' then [] # split_colon cs
      else case split_colon cs of [] \<Rightarrow> [[c]] | s # ss \<Rightarrow> (c # s) # ss)"

definition holder_instance_id :: "string option \<Rightarrow> string option" where
  "holder_instance_id v =
     (case v of
        None \<Rightarrow> None
      | Some s \<Rightarrow>
          if s = [] then None
          else
            (let parts = split_colon s in
             if length parts \<notin> {3, 4} \<or> parts ! 0 \<notin> set HOLDER_LIVENESS_PREFIXES then None
             else if length parts = 3 \<and> str_isdigit (parts ! 2) \<and> length (parts ! 2) \<noteq> HOLDER_UUID_HEX_LEN then None
             else if parts ! 1 = [] then None else Some (parts ! 1)))"

text \<open>\<open>new_holder_token\<close>; \<open>uuid\<close> is the hexadecimal form of a random identifier.\<close>

definition new_holder_token :: "string \<Rightarrow> string option \<Rightarrow> string \<Rightarrow> string" where
  "new_holder_token p instance_id uuid =
     (case instance_id of
        Some (c # cs) \<Rightarrow> p @ '':'' @ (c # cs) @ '':'' @ take HOLDER_UUID_HEX_LEN uuid
      | _ \<Rightarrow> p @ '':'' @ take HOLDER_UUID_HEX_LEN uuid)"

section \<open>The protocol\<close>

text \<open>
  What may happen to one execution of a namespace: workers acquire, renew and release the lease,
  save and delete with or without a token, time passes, and any other client writes or deletes any
  key but the generation counter, which covers the restoration of old values of the state, fence and
  lease keys.  \<open>issued\<close> lists the generations handed out, the newest first.
\<close>

record 's fsys =
  store :: 's
  issued :: "nat list"

definition ns_lease :: "string \<Rightarrow> lease_keys" where
  "ns_lease ns = new_lease (ns @ '':execution:lease:'') None"

inductive fstep :: "'s redis \<Rightarrow> string \<Rightarrow> string \<Rightarrow> 's fsys \<Rightarrow> 's fsys \<Rightarrow> bool" for R ns eid where
  acquired: "0 < ttl \<Longrightarrow> try_acquire_fenced R (ns_lease ns) eid holder ttl (store x) = (Inr (Some g), s') \<Longrightarrow>
    fstep R ns eid x (x\<lparr>store := s', issued := g # issued x\<rparr>)"
| not_acquired: "0 < ttl \<Longrightarrow> try_acquire_fenced R (ns_lease ns) eid holder ttl (store x) = (r, s') \<Longrightarrow> \<forall>g. r \<noteq> Inr (Some g) \<Longrightarrow>
    fstep R ns eid x (x\<lparr>store := s'\<rparr>)"
| plain_acquired: "0 < ttl \<Longrightarrow> try_acquire R (ns_lease ns) eid holder ttl (store x) = (b, s') \<Longrightarrow> fstep R ns eid x (x\<lparr>store := s'\<rparr>)"
| released: "release R (ns_lease ns) eid v (store x) = (b, s') \<Longrightarrow> fstep R ns eid x (x\<lparr>store := s'\<rparr>)"
| renewed: "0 < ttl \<Longrightarrow> renew R (ns_lease ns) eid v ttl (store x) = (b, s') \<Longrightarrow> fstep R ns eid x (x\<lparr>store := s'\<rparr>)"
| saved: "save_execution_state R ns token eid p ttl sc (store x) = (r, s') \<Longrightarrow> fstep R ns eid x (x\<lparr>store := s'\<rparr>)"
| deleted: "delete_execution_state R scanned ns token eid ttl p (store x) = (r, s') \<Longrightarrow> fstep R ns eid x (x\<lparr>store := s'\<rparr>)"
| other_set: "k \<noteq> execution_fence_generation_key ns eid \<Longrightarrow> positive ex \<Longrightarrow>
    fstep R ns eid x (x\<lparr>store := rset R k v ex (store x)\<rparr>)"
| other_del: "k \<noteq> execution_fence_generation_key ns eid \<Longrightarrow> fstep R ns eid x (x\<lparr>store := rdel R k (store x)\<rparr>)"
| passed: "fstep R ns eid x (x\<lparr>store := rpass R dt (store x)\<rparr>)"

text \<open>A run starts with a counter that is a number, or absent, and does not expire.\<close>

definition finit :: "'s redis \<Rightarrow> string \<Rightarrow> string \<Rightarrow> 's fsys \<Rightarrow> bool" where
  "finit R ns eid x \<longleftrightarrow> issued x = [] \<and> lasting R (execution_fence_generation_key ns eid) (store x)
     \<and> counter R (execution_fence_generation_key ns eid) (store x) \<noteq> None"

inductive freach :: "'s redis \<Rightarrow> string \<Rightarrow> string \<Rightarrow> 's fsys \<Rightarrow> bool" for R ns eid where
  freach_init: "finit R ns eid x \<Longrightarrow> freach R ns eid x"
| freach_step: "freach R ns eid x \<Longrightarrow> fstep R ns eid x y \<Longrightarrow> freach R ns eid y"

section \<open>Keys do not collide\<close>

lemma ns_lease_keys [simp]:
  "key_prefix (ns_lease ns) @ eid = execution_lease_key ns eid"
  "fence_key_prefix (ns_lease ns) @ eid = execution_fence_key ns eid"
  "fence_generation_key_prefix (ns_lease ns) @ eid = execution_fence_generation_key ns eid"
proof -
  have f: "swap_suffix ''lease:'' ''fence:'' (ns @ '':execution:lease:'') = ns @ '':execution:fence:''"
    by (simp add: swap_suffix_def suffix_def)
  have g: "swap_suffix ''fence:'' ''fencegen:'' (ns @ '':execution:fence:'') = ns @ '':execution:fencegen:''"
    by (simp add: swap_suffix_def suffix_def)
  show "key_prefix (ns_lease ns) @ eid = execution_lease_key ns eid"
    "fence_key_prefix (ns_lease ns) @ eid = execution_fence_key ns eid"
    "fence_generation_key_prefix (ns_lease ns) @ eid = execution_fence_generation_key ns eid"
    by (simp_all add: ns_lease_def new_lease_def Let_def f g execution_lease_key_def execution_fence_key_def
        execution_fence_generation_key_def)
qed

lemma generation_key_apart [simp]:
  "execution_fence_generation_key ns eid \<noteq> execution_lease_key ns eid"
  "execution_fence_generation_key ns eid \<noteq> execution_fence_key ns eid"
  "execution_fence_generation_key ns eid \<noteq> execution_state_key ns eid"
  "execution_fence_generation_key ns eid \<noteq> execution_tombstone_key eid"
  "execution_fence_key ns eid \<noteq> execution_lease_key ns eid"
  by (simp_all add: execution_fence_generation_key_def execution_lease_key_def execution_fence_key_def
      execution_state_key_def execution_tombstone_key_def)

lemma counter_keys_apart:
  "k \<in> set (counter_keys_for_execution scanned ns eid) \<Longrightarrow> k \<noteq> execution_fence_generation_key ns eid"
  by (auto simp: counter_keys_for_execution_def execution_counter_key_def EXECUTION_COUNTER_KEY_TYPES_def
      execution_fence_generation_key_def Sublist.prefix_def)

section \<open>The invariant\<close>

text \<open>A change of the store that leaves a lasting counter as it is.\<close>

definition keeps :: "'s redis \<Rightarrow> string \<Rightarrow> 's \<Rightarrow> 's \<Rightarrow> bool" where
  "keeps R k s s' \<longleftrightarrow> (lasting R k s \<longrightarrow> lasting R k s' \<and> counter R k s' = counter R k s)"

lemma keeps_refl [simp]: "keeps R k s s"
  by (simp add: keeps_def)

lemma keeps_trans: "keeps R k s s' \<Longrightarrow> keeps R k s' s'' \<Longrightarrow> keeps R k s s''"
  by (simp add: keeps_def)

definition finv :: "'s redis \<Rightarrow> string \<Rightarrow> string \<Rightarrow> 's fsys \<Rightarrow> bool" where
  "finv R ns eid x \<longleftrightarrow> lasting R (execution_fence_generation_key ns eid) (store x)
     \<and> (\<exists>c. counter R (execution_fence_generation_key ns eid) (store x) = Some c \<and> (\<forall>g \<in> set (issued x). 0 < g \<and> g \<le> c))
     \<and> sorted_wrt (>) (issued x)"

context redis_server
begin

lemma keeps_commands:
  "k \<noteq> k' \<Longrightarrow> positive ex \<Longrightarrow> keeps R k s (rset R k' v ex s)"
  "k \<noteq> k' \<Longrightarrow> keeps R k s (rdel R k' s)"
  "k \<noteq> k' \<Longrightarrow> 0 < t \<Longrightarrow> keeps R k s (rexpire R k' t s)"
  "keeps R k s (rzadd R k' sc m s)" "keeps R k s (rzrem R k' m s)" "keeps R k s (rpass R dt s)"
  using lasting_other lasting_z lasting_pass counter_pass by (auto simp: keeps_def)

lemma keeps_dels: "k \<notin> set ks \<Longrightarrow> keeps R k s (fold (rdel R) ks s)"
proof (induction ks arbitrary: s)
  case (Cons k' ks)
  then show ?case using keeps_trans [OF keeps_commands(2) [of k k' s]] by auto
qed simp

lemma keeps_tombstone: "k \<noteq> k' \<Longrightarrow> keeps R k s (write_tombstone R k' p ttl s)"
  using keeps_commands(1,3) by (auto simp: write_tombstone_def positive_def)

lemma keeps_save:
  "save_execution_state R ns token eid p ttl sc s = (r, s') \<Longrightarrow> keeps R (execution_fence_generation_key ns eid) s s'"
  by (auto simp: save_execution_state_def plain_save_def fenced_save_script_def cas_result_def positive_def
      intro!: keeps_trans [OF keeps_commands(1) keeps_commands(4)] split: option.splits if_splits)

lemma keeps_delete:
  "delete_execution_state R scanned ns token eid ttl p s = (r, s') \<Longrightarrow> keeps R (execution_fence_generation_key ns eid) s s'"
proof -
  let ?k = "execution_fence_generation_key ns eid"
  have dels: "keeps R ?k u (fold (rdel R) (counter_keys_for_execution scanned ns eid) (rdel R (execution_lease_key ns eid)
      (rdel R (execution_fence_key ns eid) (rzrem R i m (rdel R (execution_state_key ns eid) u)))))" for u i m
    using counter_keys_apart
    by (intro keeps_trans [OF _ keeps_dels] keeps_trans [OF _ keeps_commands(2)] keeps_trans [OF _ keeps_commands(5)]
        keeps_commands(2)) auto
  have tomb: "keeps R ?k u (write_tombstone R (execution_tombstone_key eid) p ttl u)" for u
    by (simp add: keeps_tombstone)
  assume "delete_execution_state R scanned ns token eid ttl p s = (r, s')"
  then show ?thesis
    using keeps_trans [OF tomb dels] keeps_trans [OF dels tomb]
    by (auto simp: delete_execution_state_def plain_delete_def fenced_delete_script_def split: option.splits if_splits)
qed

lemma acquire_cases:
  assumes "try_acquire_fenced R (ns_lease ns) eid holder ttl s = (r, s')"
  obtains (unchanged) "s' = s" "\<forall>g. r \<noteq> Inr (Some g)"
  | (bumped) g where "rincrby R (execution_fence_generation_key ns eid) 1 s = Some (g, s')" "\<forall>g. r \<noteq> Inr (Some g)"
  | (issued) g s1 g' s2 d where "rget R (execution_lease_key ns eid) s = None"
      "rincrby R (execution_fence_generation_key ns eid) 1 s = Some (g, s1)"
      "(g', s2) = (g, s1) \<or> rincrby R (execution_fence_generation_key ns eid) d s1 = Some (g', s2)"
      "r = Inr (if g' > 0 then Some g' else None)"
      "s' = rset R (execution_lease_key ns eid) (holder @ '':'' @ lua_tostring g') (Some ttl)
              (rset R (execution_fence_key ns eid) (lua_tostring g') (Some FENCE_KEY_TTL_SECONDS) s2)"
proof (cases "rget R (execution_lease_key ns eid) s")
  case (Some v)
  with assms that(1) show thesis by (auto simp: try_acquire_fenced_def fenced_acquire_script_def)
next
  case free: None
  let ?floor = "lua_number (rget R (execution_fence_key ns eid) s)"
  show thesis
  proof (cases "rincrby R (execution_fence_generation_key ns eid) 1 s")
    case None
    with assms free that(1) show thesis by (auto simp: try_acquire_fenced_def fenced_acquire_script_def Let_def)
  next
    case (Some p)
    then obtain g s1 where i1: "rincrby R (execution_fence_generation_key ns eid) 1 s = Some (g, s1)" by (cases p) auto
    let ?d = "?floor - g + 1"
    let ?second = "if g \<le> ?floor then rincrby R (execution_fence_generation_key ns eid) ?d s1 else Some (g, s1)"
    show thesis
    proof (cases ?second)
      case None
      with assms free i1 that(2) show thesis by (auto simp: try_acquire_fenced_def fenced_acquire_script_def Let_def)
    next
      case (Some q)
      then obtain g' s2 where q: "q = (g', s2)" by (cases q)
      with Some have "(g', s2) = (g, s1) \<or> rincrby R (execution_fence_generation_key ns eid) ?d s1 = Some (g', s2)"
        by (auto split: if_splits)
      from that(3) [OF free i1 this] assms free i1 Some q show thesis
        by (simp add: try_acquire_fenced_def fenced_acquire_script_def Let_def)
    qed
  qed
qed

lemma acquire_counter:
  assumes "try_acquire_fenced R (ns_lease ns) eid holder ttl s = (r, s')" and "0 < ttl"
    and L: "lasting R (execution_fence_generation_key ns eid) s"
    and c: "counter R (execution_fence_generation_key ns eid) s = Some c"
  shows "lasting R (execution_fence_generation_key ns eid) s' \<and>
    (\<exists>c'. counter R (execution_fence_generation_key ns eid) s' = Some c' \<and> c \<le> c'
      \<and> (\<forall>g. r = Inr (Some g) \<longrightarrow> g = c' \<and> c < g))"
  using assms(1)
proof (cases rule: acquire_cases)
  case unchanged
  with L c show ?thesis by simp
next
  case (bumped g)
  with lasting_incr [OF L bumped(1)] counter_incr [OF bumped(1)] incr_counter [OF bumped(1) c] show ?thesis by simp
next
  case (issued g s1 g' s2 d)
  note s1 = lasting_incr [OF L issued(2)] counter_incr [OF issued(2)] incr_counter [OF issued(2) c]
  have s2: "lasting R (execution_fence_generation_key ns eid) s2"
    "counter R (execution_fence_generation_key ns eid) s2 = Some g'" "c < g'"
    using issued(3)
  proof (atomize (full), elim disjE)
    assume "(g', s2) = (g, s1)"
    with s1 show "lasting R (execution_fence_generation_key ns eid) s2 \<and>
        counter R (execution_fence_generation_key ns eid) s2 = Some g' \<and> c < g'" by simp
  next
    assume i2: "rincrby R (execution_fence_generation_key ns eid) d s1 = Some (g', s2)"
    from s1 have c1: "counter R (execution_fence_generation_key ns eid) s1 = Some g" by simp
    from lasting_incr [OF s1(1) i2] counter_incr [OF i2] incr_counter [OF i2 c1] s1(3)
    show "lasting R (execution_fence_generation_key ns eid) s2 \<and>
        counter R (execution_fence_generation_key ns eid) s2 = Some g' \<and> c < g'" by simp
  qed
  have "keeps R (execution_fence_generation_key ns eid) s2 s'"
    unfolding issued(5) using assms(2)
    by (intro keeps_trans [OF keeps_commands(1) keeps_commands(1)]) (auto simp: positive_def FENCE_KEY_TTL_SECONDS_def)
  with s2 issued(4) show ?thesis by (auto simp: keeps_def)
qed

lemma finv_keeps: "finv R ns eid x \<Longrightarrow> keeps R (execution_fence_generation_key ns eid) (store x) s' \<Longrightarrow> finv R ns eid (x\<lparr>store := s'\<rparr>)"
  by (simp add: finv_def keeps_def)

lemma fstep_finv: "fstep R ns eid x y \<Longrightarrow> finv R ns eid x \<Longrightarrow> finv R ns eid y"
proof (induction rule: fstep.induct)
  case (acquired ttl holder x g s')
  then obtain c where c: "counter R (execution_fence_generation_key ns eid) (store x) = Some c" "\<forall>g \<in> set (issued x). 0 < g \<and> g \<le> c"
    by (auto simp: finv_def)
  from acquire_counter [OF acquired(2,1) _ c(1)] acquired(3) c show ?case by (fastforce simp: finv_def)
next
  case (not_acquired ttl holder x r s')
  then obtain c where c: "counter R (execution_fence_generation_key ns eid) (store x) = Some c" "\<forall>g \<in> set (issued x). 0 < g \<and> g \<le> c"
    by (auto simp: finv_def)
  from acquire_counter [OF not_acquired(2,1) _ c(1)] not_acquired(4) c show ?case by (fastforce simp: finv_def)
next
  case (saved token p ttl sc x r s')
  then show ?case by (blast intro: finv_keeps keeps_save)
next
  case (deleted scanned token ttl p x r s')
  then show ?case by (blast intro: finv_keeps keeps_delete)
next
  case (other_set k ex x v)
  then show ?case by (metis finv_keeps keeps_commands(1))
qed (auto intro!: finv_keeps keeps_commands simp: try_acquire_def release_def renew_def positive_def split: if_splits)

lemma freach_finv: "freach R ns eid x \<Longrightarrow> finv R ns eid x"
proof (induction rule: freach.induct)
  case (freach_init x)
  then show ?case by (auto simp: finit_def finv_def)
qed (rule fstep_finv)

end

section \<open>How Lua writes a generation\<close>

lemma lua_tostring_decimal: "n < 10 ^ 14 \<Longrightarrow> lua_tostring n = nat_str n"
  by (simp add: lua_tostring_def)

lemma lua_tostring_exponent:
  assumes "10 ^ 14 \<le> n"
  shows "lua_tostring n \<noteq> nat_str m"
proof -
  have "\<not> n < 10 ^ 14" using assms by simp
  then have "CHR ''e'' \<in> set (lua_tostring n)" unfolding lua_tostring_def Let_def by (simp only: if_False) (auto split: prod.split)
  moreover have "CHR ''e'' \<notin> set (nat_str m)" using nat_str_digits [of m] by (auto simp: list_all_iff ascii_digit_def)
  ultimately show ?thesis by metis
qed

section \<open>Fencing\<close>

text \<open>
  Property C11.  Fencing tokens are never reused and only the newest one writes.  In every history of one
  execution, with leases that expire, deletions, failed scripts and restored old values of any key
  but the counter, the generations handed out are strictly increasing; a save or a delete with a
  token that was handed out succeeds only if no newer one was handed out since, and otherwise raises
  and leaves the store as it was.
\<close>

theorem only_newest_generation_writes:
  assumes "redis_server R" and "freach R ns eid x" and "g \<in> set (issued x)"
  shows "sorted_wrt (>) (issued x)
    \<and> (g \<noteq> hd (issued x) \<longrightarrow>
        save_execution_state R ns (Some g) eid (Some p) ttl sc (store x) = (Inl ExecutionLeaseError, store x)
      \<and> delete_execution_state R scanned ns (Some g) eid dttl dp (store x) = (Inl ExecutionLeaseError, store x))"
proof -
  from redis_server.freach_finv [OF assms(1,2)] obtain c where
    c: "counter R (execution_fence_generation_key ns eid) (store x) = Some c" "\<forall>g \<in> set (issued x). g \<le> c"
    and sorted: "sorted_wrt (>) (issued x)"
    by (auto simp: finv_def)
  have "rget R (execution_fence_generation_key ns eid) (store x) \<noteq> Some (nat_str g)" if "g \<noteq> hd (issued x)"
  proof
    assume "rget R (execution_fence_generation_key ns eid) (store x) = Some (nat_str g)"
    with c(1) have "c = g" by (simp add: counter_def)
    moreover from assms(3) that sorted have "g < hd (issued x)" by (cases "issued x") auto
    moreover have "hd (issued x) \<in> set (issued x)" using assms(3) by (cases "issued x") auto
    ultimately show False using c(2) by fastforce
  qed
  with sorted show ?thesis
    by (auto simp: save_execution_state_def delete_execution_state_def fenced_save_script_def fenced_delete_script_def
        cas_result_def)
qed

lemma generation_suffix:
  assumes "h @ '':'' @ nat_str g = h' @ '':'' @ nat_str g'"
  shows "g = g'"
proof -
  have "takeWhile (\<lambda>c. c \<noteq> CHR '':'') (rev (k @ '':'' @ nat_str n)) = rev (nat_str n)" for k n
    using nat_str_no_colon [of n] by (auto simp: takeWhile_append)
  then have "rev (nat_str g) = rev (nat_str g')" using assms by metis
  then show ?thesis by simp
qed

text \<open>
  The lease is exclusive.  While it holds a value nobody acquires it, with or without
  fencing, and only that exact value renews or releases it; so a worker whose lease was taken over
  under another generation can neither renew nor release it.  Refused operations change nothing.
\<close>

theorem lease_is_exclusive:
  assumes "get_holder R (ns_lease ns) eid s = Some v"
  shows "try_acquire R (ns_lease ns) eid holder ttl s = (False, s)
    \<and> try_acquire_fenced R (ns_lease ns) eid holder ttl s = (Inr None, s)
    \<and> (v' \<noteq> v \<longrightarrow> release R (ns_lease ns) eid v' s = (False, s) \<and> renew R (ns_lease ns) eid v' ttl s = (False, s))
    \<and> (v = h @ '':'' @ nat_str g \<and> g \<noteq> g' \<longrightarrow>
         release R (ns_lease ns) eid (h' @ '':'' @ nat_str g') s = (False, s)
       \<and> renew R (ns_lease ns) eid (h' @ '':'' @ nat_str g') ttl s = (False, s))"
  using assms generation_suffix [of h g h' g']
  by (auto simp: get_holder_def try_acquire_def try_acquire_fenced_def fenced_acquire_script_def release_def renew_def)

lemma acquire_free:
  assumes "redis_server R" and "get_holder R (ns_lease ns) eid s = None" and "0 < ttl"
    and "counter R (execution_fence_generation_key ns eid) s = Some c" and "c + 1 < INCR_LIMIT"
    and "lua_number (rget R (execution_fence_key ns eid) s) + 1 < INCR_LIMIT"
  shows "\<exists>n s'. try_acquire_fenced R (ns_lease ns) eid holder ttl s = (Inr (Some n), s')
    \<and> n = max (c + 1) (lua_number (rget R (execution_fence_key ns eid) s) + 1)
    \<and> rget R (execution_lease_key ns eid) s' = Some (holder @ '':'' @ lua_tostring n)
    \<and> rget R (execution_fence_key ns eid) s' = Some (lua_tostring n)
    \<and> rget R (execution_fence_generation_key ns eid) s' = Some (nat_str n)"
proof -
  let ?k = "execution_fence_generation_key ns eid" and ?f = "execution_fence_key ns eid" and ?l = "execution_lease_key ns eid"
  let ?floor = "lua_number (rget R ?f s)"
  note laws = redis_server.get_set [OF assms(1)] redis_server.incr_get [OF assms(1)]
  from redis_server.incr_result [OF assms(1,4,5)] obtain s1 where i1: "rincrby R ?k 1 s = Some (c + 1, s1)" by blast
  from redis_server.counter_incr [OF assms(1) i1] have c1: "counter R ?k s1 = Some (c + 1)" by simp
  obtain s2 where i2: "(if c + 1 \<le> ?floor then rincrby R ?k (?floor - (c + 1) + 1) s1 else Some (c + 1, s1))
      = Some (max (c + 1) (?floor + 1), s2)"
    and k2: "rget R ?k s2 = Some (nat_str (max (c + 1) (?floor + 1)))"
  proof (cases "c + 1 \<le> ?floor")
    case True
    then have "(c + 1) + (?floor - (c + 1) + 1) = max (c + 1) (?floor + 1)" by simp
    with redis_server.incr_result [OF assms(1) c1, of "?floor - (c + 1) + 1"] True assms(6) obtain s2 where
      "rincrby R ?k (?floor - (c + 1) + 1) s1 = Some (max (c + 1) (?floor + 1), s2)" by auto
    with laws(2) [OF this] True that show thesis by simp
  next
    case False
    with laws(2) [OF i1] that show thesis by (simp add: max_def)
  qed
  define n where "n = max (c + 1) (?floor + 1)"
  define s' where "s' = rset R ?l (holder @ '':'' @ lua_tostring n) (Some ttl) (rset R ?f (lua_tostring n) (Some FENCE_KEY_TTL_SECONDS) s2)"
  have pos: "positive (Some ttl)" "positive (Some FENCE_KEY_TTL_SECONDS)"
    using assms(3) by (simp_all add: positive_def FENCE_KEY_TTL_SECONDS_def)
  have acq: "try_acquire_fenced R (ns_lease ns) eid holder ttl s = (Inr (Some n), s')"
  proof -
    have "rget R ?l s = None" using assms(2) by (simp add: get_holder_def)
    then have "fenced_acquire_script R ?l ?f ?k holder ttl FENCE_KEY_TTL_SECONDS s = (Inr n, s')"
      by (simp only: fenced_acquire_script_def Let_def i1 i2 option.case prod.case n_def s'_def simp_thms if_False)
    then show ?thesis by (simp add: try_acquire_fenced_def n_def)
  qed
  moreover have "rget R ?l s' = Some (holder @ '':'' @ lua_tostring n)" "rget R ?f s' = Some (lua_tostring n)" "rget R ?k s' = Some (nat_str n)"
    using k2 by (simp_all add: s'_def laws(1) [OF pos(1)] laws(1) [OF pos(2)] n_def)
  ultimately show ?thesis by (auto simp: n_def)
qed

text \<open>
  Property C12.  A free lease can be acquired: if the counter and the fence are numbers whose successors are below \<open>10 ^ 14\<close>, the
  acquisition succeeds with a generation above every earlier one, also above the fence
  of data written before the counter existed, and the new holder can save at once.
\<close>

theorem free_lease_is_acquired:
  assumes "redis_server R" and "get_holder R (ns_lease ns) eid s = None" and "0 < ttl"
    and "counter R (execution_fence_generation_key ns eid) s = Some c" and "c + 1 < 10 ^ 14"
    and "lua_number (rget R (execution_fence_key ns eid) s) + 1 < 10 ^ 14"
  shows "\<exists>n s'. try_acquire_fenced R (ns_lease ns) eid holder ttl s = (Inr (Some n), s')
    \<and> n = max (c + 1) (lua_number (rget R (execution_fence_key ns eid) s) + 1)
    \<and> get_holder R (ns_lease ns) eid s' = Some (holder @ '':'' @ nat_str n)
    \<and> fst (save_execution_state R ns (Some n) eid (Some p) sttl sc s') = Inr True"
proof -
  have "(10 :: nat) ^ 14 < INCR_LIMIT" by (simp add: INCR_LIMIT_def)
  then have "c + 1 < INCR_LIMIT" "lua_number (rget R (execution_fence_key ns eid) s) + 1 < INCR_LIMIT" using assms(5,6) by linarith+
  from acquire_free [OF assms(1-4) this, of holder] obtain n s' where
    a: "try_acquire_fenced R (ns_lease ns) eid holder ttl s = (Inr (Some n), s')"
    "n = max (c + 1) (lua_number (rget R (execution_fence_key ns eid) s) + 1)"
    "rget R (execution_lease_key ns eid) s' = Some (holder @ '':'' @ lua_tostring n)"
    "rget R (execution_fence_key ns eid) s' = Some (lua_tostring n)"
    "rget R (execution_fence_generation_key ns eid) s' = Some (nat_str n)" by blast
  have "n < 10 ^ 14" unfolding a(2) using assms(5,6) by simp
  then have "lua_tostring n = nat_str n" by (rule lua_tostring_decimal)
  with a show ?thesis
    by (intro exI [of _ n] exI [of _ s']) (simp add: get_holder_def save_execution_state_def fenced_save_script_def cas_result_def)
qed

text \<open>
  From \<open>10 ^ 14\<close> on the fence is written in exponent form, which is never the decimal form the save compares it with: the
  holder of the lease cannot save.
\<close>

theorem large_generation_cannot_save:
  assumes "redis_server R" and "get_holder R (ns_lease ns) eid s = None" and "0 < ttl"
    and "counter R (execution_fence_generation_key ns eid) s = Some c" and "c + 1 < 2 ^ 53" and "10 ^ 14 \<le> c + 1"
    and "lua_number (rget R (execution_fence_key ns eid) s) + 1 < 2 ^ 53"
  shows "\<exists>n s'. try_acquire_fenced R (ns_lease ns) eid holder ttl s = (Inr (Some n), s')
    \<and> save_execution_state R ns (Some n) eid (Some p) sttl sc s' = (Inl ExecutionLeaseError, s')"
proof -
  have "(2 :: nat) ^ 53 < INCR_LIMIT" by (simp add: INCR_LIMIT_def)
  then have "c + 1 < INCR_LIMIT" "lua_number (rget R (execution_fence_key ns eid) s) + 1 < INCR_LIMIT" using assms(5,7) by linarith+
  from acquire_free [OF assms(1-4) this, of holder] obtain n s' where
    a: "try_acquire_fenced R (ns_lease ns) eid holder ttl s = (Inr (Some n), s')"
    "n = max (c + 1) (lua_number (rget R (execution_fence_key ns eid) s) + 1)"
    "rget R (execution_fence_key ns eid) s' = Some (lua_tostring n)" by blast
  have "10 ^ 14 \<le> n" unfolding a(2) using assms(6) by simp
  then have "lua_tostring n \<noteq> nat_str m" for m by (rule lua_tostring_exponent)
  with a show ?thesis
    by (intro exI [of _ n] exI [of _ s']) (simp add: save_execution_state_def fenced_save_script_def cas_result_def)
qed

section \<open>Examples and witnesses\<close>

lemma kv_empty_get [simp]: "rget kv_redis k empty_kv = None"
  by (simp add: kv_ops kv_live_def empty_kv_def)

definition start_sys :: "kv fsys" where
  "start_sys = \<lparr>store = empty_kv, issued = []\<rparr>"

lemma start_reach: "freach kv_redis ns eid start_sys"
  by (rule freach_init) (simp add: finit_def start_sys_def lasting_def counter_def)

lemma incr_limit: "n < 9 \<Longrightarrow> n < INCR_LIMIT"
  by (simp add: INCR_LIMIT_def)

lemma small_tostring: "lua_tostring 1 = nat_str 1" "lua_tostring (Suc (Suc 0)) = nat_str (Suc (Suc 0))"
  by (simp_all add: lua_tostring_decimal)

theorem free_lease_is_acquired_witness:
  "\<exists>s'. try_acquire_fenced kv_redis (ns_lease ''p'') ''e'' ''h'' 60 empty_kv = (Inr (Some 1), s')
    \<and> get_holder kv_redis (ns_lease ''p'') ''e'' s' = Some (''h:'' @ nat_str 1)"
proof -
  have "get_holder kv_redis (ns_lease ''p'') ''e'' empty_kv = None"
    "counter kv_redis (execution_fence_generation_key ''p'' ''e'') empty_kv = Some 0"
    "(0 :: nat) + 1 < 10 ^ 14" "lua_number (rget kv_redis (execution_fence_key ''p'' ''e'') empty_kv) + 1 < 10 ^ 14"
    by (simp_all add: get_holder_def counter_def lua_number_def incr_limit small_tostring [simplified])
  from free_lease_is_acquired [OF kv.redis_server_axioms this(1) _ this(2-4), of 60 "''h''" "[]" 0 "[]"] show ?thesis
    by (auto simp: lua_number_def)
qed

text \<open>Two workers in turn: the first acquires and gives the lease back, the second acquires.\<close>

lemma two_generations:
  "\<exists>s. freach kv_redis ''p'' ''e'' \<lparr>store = s, issued = [2, 1]\<rparr>
    \<and> get_holder kv_redis (ns_lease ''p'') ''e'' s = Some (''w2:'' @ nat_str 2)"
proof -
  let ?l = "execution_lease_key ''p'' ''e''" and ?f = "execution_fence_key ''p'' ''e''" and ?k = "execution_fence_generation_key ''p'' ''e''"
  note acq = acquire_free [OF kv.redis_server_axioms, of "''p''" "''e''" _ 60, simplified]
  obtain s1 where s1: "try_acquire_fenced kv_redis (ns_lease ''p'') ''e'' ''w1'' 60 empty_kv = (Inr (Some 1), s1)"
    "rget kv_redis ?l s1 = Some (''w1:'' @ nat_str 1)" "rget kv_redis ?f s1 = Some (nat_str 1)" "rget kv_redis ?k s1 = Some (nat_str 1)"
    using acq [of empty_kv 0 "''w1''"] by (auto simp: get_holder_def counter_def lua_number_def incr_limit small_tostring [simplified])
  define s2 where "s2 = rdel kv_redis ?l s1"
  have r2: "rget kv_redis ?l s2 = None" "rget kv_redis ?f s2 = Some (nat_str 1)" "rget kv_redis ?k s2 = Some (nat_str 1)"
    using s1 by (simp_all add: s2_def kv.get_del)
  obtain s3 where s3: "try_acquire_fenced kv_redis (ns_lease ''p'') ''e'' ''w2'' 60 s2 = (Inr (Some 2), s3)"
    "rget kv_redis ?l s3 = Some (''w2:'' @ nat_str 2)"
    using acq [of s2 1 "''w2''"] r2 by (auto simp: get_holder_def counter_def lua_number_def incr_limit small_tostring [simplified] numeral_2_eq_2)
  have "freach kv_redis ''p'' ''e'' \<lparr>store = s1, issued = [1]\<rparr>"
    using freach_step [OF start_reach acquired [of 60 kv_redis "''p''" "''e''" "''w1''" start_sys 1 s1]] s1(1)
    by (simp add: start_sys_def)
  moreover have "release kv_redis (ns_lease ''p'') ''e'' (''w1:'' @ nat_str 1) s1 = (True, s2)"
    using s1(2) by (simp add: release_def s2_def)
  ultimately have "freach kv_redis ''p'' ''e'' \<lparr>store = s2, issued = [1]\<rparr>"
    using freach_step [OF _ released [of kv_redis "''p''" "''e''" _ "\<lparr>store = s1, issued = [1]\<rparr>"]] by fastforce
  from freach_step [OF this acquired [of 60 kv_redis "''p''" "''e''" "''w2''" _ 2 s3]] s3
  have "freach kv_redis ''p'' ''e'' \<lparr>store = s3, issued = [2, 1]\<rparr>" by simp
  with s3 show ?thesis by (auto simp: get_holder_def)
qed

theorem only_newest_generation_writes_witness:
  "\<exists>x. freach kv_redis ''p'' ''e'' x \<and> issued x = [2, 1]
    \<and> save_execution_state kv_redis ''p'' (Some 1) ''e'' (Some ''state'') 0 ''0'' (store x) = (Inl ExecutionLeaseError, store x)"
proof -
  obtain s where s: "freach kv_redis ''p'' ''e'' \<lparr>store = s, issued = [2, 1]\<rparr>" using two_generations by blast
  from only_newest_generation_writes [OF kv.redis_server_axioms s, of 1 "''state''" 0 "''0''"] s show ?thesis
    by (intro exI [of _ "\<lparr>store = s, issued = [2, 1]\<rparr>"]) auto
qed

theorem lease_is_exclusive_witness:
  "\<exists>s. get_holder kv_redis (ns_lease ''p'') ''e'' s = Some (''w2:'' @ nat_str 2)
    \<and> release kv_redis (ns_lease ''p'') ''e'' (''w1:'' @ nat_str 1) s = (False, s)"
proof -
  obtain s where "get_holder kv_redis (ns_lease ''p'') ''e'' s = Some (''w2:'' @ nat_str 2)" using two_generations by blast
  with lease_is_exclusive [OF this, of _ _ _ "''w2''" 2 1 "''w1''"] show ?thesis by (intro exI [of _ s]) simp
qed


section \<open>Reading back the holder\<close>

lemma split_colon_word: "CHR '':'' \<notin> set a \<Longrightarrow> split_colon a = [a]"
  by (induction a) auto

lemma split_colon_Cons: "CHR '':'' \<notin> set a \<Longrightarrow> split_colon (a @ CHR '':'' # b) = a # split_colon b"
  by (induction a) auto

lemma liveness_prefix_no_colon: "p \<in> set HOLDER_LIVENESS_PREFIXES \<Longrightarrow> CHR '':'' \<notin> set p"
  by (auto simp: HOLDER_LIVENESS_PREFIXES_def)

lemma nat_str_isdigit: "str_isdigit (nat_str n)"
  using nat_str_digits [of n] by (auto simp: str_isdigit_def is_digit_def list_all_iff)

text \<open>
  The instance behind a lease can be read back: from a token made for an instance, with or without
  the generation appended by the fenced acquisition, \<open>holder_instance_id\<close> gives that instance,
  whatever the random part is.  From a token without instance it gives nothing, also with a
  generation appended as long as that does not have sixteen digits.
\<close>

theorem holder_token_roundtrip:
  assumes "p \<in> set HOLDER_LIVENESS_PREFIXES" and "iid \<noteq> []" and "CHR '':'' \<notin> set iid"
    and "CHR '':'' \<notin> set uuid" and "length uuid \<ge> 16"
  shows "holder_instance_id (Some (new_holder_token p (Some iid) uuid)) = Some iid
    \<and> holder_instance_id (Some (new_holder_token p (Some iid) uuid @ '':'' @ nat_str g)) = Some iid
    \<and> holder_instance_id (Some (new_holder_token p None uuid)) = None
    \<and> (length (nat_str g) \<noteq> 16 \<longrightarrow> holder_instance_id (Some (new_holder_token p None uuid @ '':'' @ nat_str g)) = None)"
proof -
  have u: "CHR '':'' \<notin> set (take 16 uuid)" using assms(4) by (meson in_set_takeD)
  note sp = split_colon_Cons [OF liveness_prefix_no_colon [OF assms(1)]] split_colon_Cons [OF assms(3)]
    split_colon_Cons [OF u] split_colon_word [OF u] split_colon_word [OF nat_str_no_colon]
  obtain c cs where iid: "iid = c # cs" using assms(2) by (cases iid) auto
  have tok: "new_holder_token p (Some iid) uuid = p @ CHR '':'' # iid @ CHR '':'' # take 16 uuid"
    "new_holder_token p None uuid = p @ CHR '':'' # take 16 uuid"
    by (simp_all add: new_holder_token_def iid HOLDER_UUID_HEX_LEN_def)
  show ?thesis
    using assms(1,2,5) by (simp add: tok holder_instance_id_def sp HOLDER_UUID_HEX_LEN_def nat_str_isdigit Let_def)
qed

theorem holder_token_roundtrip_witness:
  "holder_instance_id (Some (new_holder_token ''worker'' (Some ''i7'') ''0123456789012345'' @ '':'' @ nat_str 3)) = Some ''i7''"
  using holder_token_roundtrip [of "''worker''" "''i7''" "''0123456789012345''" 3]
  by (simp add: HOLDER_LIVENESS_PREFIXES_def)

end
