(* ===== verification/Start_Dedup.thy ===== *)
theory Start_Dedup
  imports Execution_Lease
begin

text \<open>
  \<^verbatim>\<open>plaita/server/start_dedup.py\<close>: at most one execution is started for a deduplication key.  A start claims
  the key (\<open>claiming\<close>), reserves the enqueueing of its task (\<open>enqueueing\<close>) and records it
  (\<open>enqueued\<close>); the claim carries a token, and every transition is one Lua script that checks
  the mapping of the key, the owner state, the token and the tombstone of the execution.  The scripts are
  the atomic steps of concurrent clients; the functions of the module are composed of them.  Lost connections,
  on which every function fails closed, are left out.
\<close>

section \<open>Keys and states\<close>

definition tenant_namespace :: "string option \<Rightarrow> string" where
  "tenant_namespace t =
     (case t of
        None \<Rightarrow> ''plaita''
      | Some n \<Rightarrow> if n = [] \<or> n = ''default'' then ''plaita'' else ''plaita:'' @ n)"

definition CLAIM_TTL_SECONDS :: int where
  "CLAIM_TTL_SECONDS = 60"

definition START_DEDUP_TTL_SECONDS :: int where
  "START_DEDUP_TTL_SECONDS = 7 * 86400"

definition map_key :: "string option \<Rightarrow> string \<Rightarrow> string" where
  "map_key t k = tenant_namespace t @ '':start-dedup:'' @ k"

definition owner_key :: "string option \<Rightarrow> string \<Rightarrow> string" where
  "owner_key t k = tenant_namespace t @ '':start-dedup-owner:'' @ k"

definition token_key :: "string option \<Rightarrow> string \<Rightarrow> string" where
  "token_key t k = tenant_namespace t @ '':start-dedup-token:'' @ k"

definition legacy_owner_key :: "string option \<Rightarrow> string \<Rightarrow> string" where
  "legacy_owner_key t k = map_key t k @ '':owner''"

definition park_key :: "string option \<Rightarrow> string \<Rightarrow> string" where
  "park_key t k = tenant_namespace t @ '':start-dedup-park:'' @ k"

definition execution_row_key :: "string option \<Rightarrow> string \<Rightarrow> string" where
  "execution_row_key t eid = tenant_namespace t @ '':execution:'' @ eid"

definition tombstone_key :: "string \<Rightarrow> string" where
  "tombstone_key eid = ''plaita:exec_tombstone:'' @ eid"

definition claiming :: "string \<Rightarrow> string" where
  "claiming i = ''claiming:'' @ i"

definition enqueueing :: "string \<Rightarrow> string" where
  "enqueueing i = ''enqueueing:'' @ i"

definition enqueued :: "string \<Rightarrow> string" where
  "enqueued i = ''enqueued:'' @ i"

text \<open>The value of the token key.\<close>

definition held_by :: "string \<Rightarrow> string \<Rightarrow> string" where
  "held_by i tok = i @ '':'' @ tok"

record owner_view =
  ov_state :: "string option"
  ov_id :: "string option"
  ov_token :: "string option"
  ov_legacy :: bool

definition EMPTY_OWNER :: owner_view where
  "EMPTY_OWNER = \<lparr>ov_state = None, ov_id = None, ov_token = None, ov_legacy = False\<rparr>"

definition owner_live :: "owner_view \<Rightarrow> bool" where
  "owner_live v \<longleftrightarrow> ov_state v \<in> {Some ''claiming'', Some ''enqueueing'', Some ''enqueued''}"

text \<open>\<open>_parse_owner\<close>: the regular expressions accept two or, for the new form, three non-empty parts.\<close>

definition parse_owner :: "bool \<Rightarrow> string option \<Rightarrow> owner_view" where
  "parse_owner legacy raw =
     (case raw of
        None \<Rightarrow> EMPTY_OWNER
      | Some text \<Rightarrow>
          (case split_colon text of
             [st, i] \<Rightarrow>
               if (st = ''claiming'' \<or> st = ''enqueued'' \<or> \<not> legacy \<and> st = ''enqueueing'') \<and> i \<noteq> []
               then \<lparr>ov_state = Some st, ov_id = Some i, ov_token = None, ov_legacy = legacy\<rparr> else EMPTY_OWNER
           | [st, i, tok] \<Rightarrow>
               if \<not> legacy \<and> st \<in> {''claiming'', ''enqueueing'', ''enqueued''} \<and> i \<noteq> [] \<and> tok \<noteq> []
               then \<lparr>ov_state = Some st, ov_id = Some i, ov_token = Some tok, ov_legacy = False\<rparr> else EMPTY_OWNER
           | _ \<Rightarrow> EMPTY_OWNER))"

definition read_owner :: "'s redis \<Rightarrow> string option \<Rightarrow> string \<Rightarrow> 's \<Rightarrow> owner_view" where
  "read_owner R t k s =
     (let v = parse_owner False (rget R (owner_key t k) s)
      in if owner_live v then v else parse_owner True (rget R (legacy_owner_key t k) s))"

section \<open>Scripts\<close>

definition claim_script ::
  "'s redis \<Rightarrow> string \<Rightarrow> string \<Rightarrow> string \<Rightarrow> string \<Rightarrow> string \<Rightarrow> int \<Rightarrow> int \<Rightarrow> 's \<Rightarrow> bool \<times> 's" where
  "claim_script R m ow tk i tok claim_ttl map_ttl s =
     (if rget R m s \<noteq> None then (False, s)
      else (True, rset R tk (held_by i tok) (Some claim_ttl)
                    (rset R ow (claiming i) (Some claim_ttl) (rset R m i (Some map_ttl) s))))"

definition adopt_legacy_script ::
  "'s redis \<Rightarrow> string \<Rightarrow> string \<Rightarrow> string \<Rightarrow> string \<Rightarrow> string \<Rightarrow> string \<Rightarrow> string \<Rightarrow> int \<Rightarrow> 's \<Rightarrow> bool \<times> 's" where
  "adopt_legacy_script R m tomb ow legacy tk i tok ttl s =
     (if rget R m s \<noteq> Some i then (False, s)
      else if rget R tomb s \<noteq> None then (False, s)
      else if rget R ow s \<noteq> None then (False, s)
      else if rget R legacy s \<noteq> Some (claiming i) then (False, s)
      else (True, rset R tk (held_by i tok) (Some ttl) (rset R ow (claiming i) (Some ttl) s)))"

definition migrate_collision_script ::
  "'s redis \<Rightarrow> string \<Rightarrow> string \<Rightarrow> string \<Rightarrow> string \<Rightarrow> string \<Rightarrow> string \<Rightarrow> string \<Rightarrow> string \<Rightarrow> int \<Rightarrow> 's \<Rightarrow> bool \<times> 's" where
  "migrate_collision_script R m base_map tomb ow tk marker i tok ttl s =
     (if rget R m s \<noteq> Some marker then (False, s)
      else if rget R base_map s \<noteq> Some i then (False, s)
      else if rget R tomb s \<noteq> None then (False, s)
      else if rget R ow s \<noteq> None \<and> rget R ow s \<noteq> Some marker then (False, s)
      else (True, rdel R m (rset R tk (held_by i tok) (Some ttl) (rset R ow marker (Some ttl) s))))"

definition reserve_script ::
  "'s redis \<Rightarrow> string \<Rightarrow> string \<Rightarrow> string \<Rightarrow> string \<Rightarrow> string \<Rightarrow> string \<Rightarrow> int \<Rightarrow> 's \<Rightarrow> bool \<times> 's" where
  "reserve_script R m tomb tk ow i tok ttl s =
     (if rget R m s \<noteq> Some i then (False, s)
      else if rget R tomb s \<noteq> None then (False, s)
      else if (if rget R tk s \<noteq> Some (held_by i tok) then rget R tk s \<noteq> None \<or> rget R ow s \<noteq> None
               else rget R ow s \<noteq> Some (claiming i)) then (False, s)
      else (True, rset R tk (held_by i tok) (Some ttl) (rset R ow (enqueueing i) (Some ttl) s)))"

definition mark_enqueued_script ::
  "'s redis \<Rightarrow> string \<Rightarrow> string \<Rightarrow> string \<Rightarrow> string \<Rightarrow> string \<Rightarrow> string \<Rightarrow> int \<Rightarrow> 's \<Rightarrow> bool \<times> 's" where
  "mark_enqueued_script R m tomb tk ow i tok ttl s =
     (if rget R m s \<noteq> Some i then (False, s)
      else if rget R tomb s \<noteq> None then (False, s)
      else if rget R tk s \<noteq> Some (held_by i tok) then (False, s)
      else if rget R ow s \<noteq> Some (enqueueing i) then (False, s)
      else (True, rset R tk (held_by i tok) (Some ttl) (rset R ow (enqueued i) (Some ttl) s)))"

definition guard_script ::
  "'s redis \<Rightarrow> string \<Rightarrow> string \<Rightarrow> string \<Rightarrow> string \<Rightarrow> string \<Rightarrow> string \<Rightarrow> string \<Rightarrow> int \<Rightarrow> bool \<Rightarrow> 's \<Rightarrow> bool \<times> 's" where
  "guard_script R m tomb tk ow i tok st ttl allow s =
     (let want = st @ '':'' @ i in
      if rget R m s \<noteq> Some i then (False, s)
      else if rget R tomb s \<noteq> None then (False, s)
      else if (if rget R tk s \<noteq> Some (held_by i tok) then \<not> allow \<or> rget R tk s \<noteq> None \<or> rget R ow s \<noteq> None
               else rget R ow s \<noteq> Some want) then (False, s)
      else (True, rset R tk (held_by i tok) (Some ttl) (rset R ow want (Some ttl) s)))"

text \<open>An empty \<open>tok\<close> asks for the collection of an orphan.\<close>

definition release_script ::
  "'s redis \<Rightarrow> string \<Rightarrow> string \<Rightarrow> string \<Rightarrow> string \<Rightarrow> string \<Rightarrow> string \<Rightarrow> string \<Rightarrow> string \<Rightarrow> bool \<Rightarrow> 's \<Rightarrow> bool \<times> 's" where
  "release_script R m tk ow tomb row legacy i tok row_absent s =
     (let clear = rdel R ow (rdel R tk (rdel R m s)) in
      if rget R m s \<noteq> Some i then (False, s)
      else if tok \<noteq> [] then
        (if rget R tk s \<noteq> Some (held_by i tok) then (False, s)
         else if rget R ow s \<noteq> Some (claiming i) \<and> rget R ow s \<noteq> Some (enqueueing i) then (False, s)
         else if row_absent \<and> rget R row s \<noteq> None then (False, s)
         else (True, clear))
      else if rget R tomb s \<noteq> None then (True, clear)
      else if rget R tk s \<noteq> None then (False, s)
      else if (case rget R ow s of
                 Some v \<Rightarrow> v \<noteq> claiming i
               | None \<Rightarrow> rget R legacy s \<noteq> None \<and> rget R legacy s \<noteq> Some (claiming i)) then (False, s)
      else if row_absent \<and> rget R row s \<noteq> None then (False, s)
      else (True, clear))"

definition recover_script ::
  "'s redis \<Rightarrow> string \<Rightarrow> string \<Rightarrow> string \<Rightarrow> string \<Rightarrow> string \<Rightarrow> string \<Rightarrow> string \<Rightarrow> string \<Rightarrow> int \<Rightarrow> 's \<Rightarrow> bool \<times> 's" where
  "recover_script R m tomb tk row ow legacy i tok ttl s =
     (if rget R m s \<noteq> Some i then (False, s)
      else if rget R tomb s \<noteq> None then (False, s)
      else if rget R tk s \<noteq> None then (False, s)
      else if rget R row s = None then (False, s)
      else if (case rget R ow s of
                 Some v \<Rightarrow> v \<noteq> claiming i
               | None \<Rightarrow> rget R legacy s \<noteq> None \<and> rget R legacy s \<noteq> Some (claiming i)) then (False, s)
      else (True, rset R tk (held_by i tok) (Some ttl) (rset R ow (enqueueing i) (Some ttl) s)))"

section \<open>The functions of the module\<close>

definition reserve_enqueue ::
  "'s redis \<Rightarrow> string option \<Rightarrow> string \<Rightarrow> string \<Rightarrow> string \<Rightarrow> int \<Rightarrow> 's \<Rightarrow> bool \<times> 's" where
  "reserve_enqueue R t k i tok ttl =
     reserve_script R (map_key t k) (tombstone_key i) (token_key t k) (owner_key t k) i tok (max 1 ttl)"

definition clear_parked :: "'s redis \<Rightarrow> string option \<Rightarrow> string \<Rightarrow> 's \<Rightarrow> 's" where
  "clear_parked R t k = rdel R (park_key t k)"

definition PARK_MARKER_TTL_SECONDS :: int where
  "PARK_MARKER_TTL_SECONDS = 3600"

text \<open>\<open>mark_parked\<close>; the JSON text of the mark is an argument.\<close>

definition mark_parked :: "'s redis \<Rightarrow> string option \<Rightarrow> string \<Rightarrow> string \<Rightarrow> int \<Rightarrow> 's \<Rightarrow> 's" where
  "mark_parked R t k dumped ttl = rset R (park_key t k) dumped (Some (max 1 ttl))"

definition mark_enqueued ::
  "'s redis \<Rightarrow> string option \<Rightarrow> string \<Rightarrow> string \<Rightarrow> string \<Rightarrow> int \<Rightarrow> 's \<Rightarrow> bool \<times> 's" where
  "mark_enqueued R t k i tok ttl s =
     (case mark_enqueued_script R (map_key t k) (tombstone_key i) (token_key t k) (owner_key t k) i tok (max 1 ttl) s of
        (ok, s') \<Rightarrow> (ok, if ok then clear_parked R t k s' else s'))"

definition adopt_for_recovery ::
  "'s redis \<Rightarrow> string option \<Rightarrow> string \<Rightarrow> string \<Rightarrow> string \<Rightarrow> int \<Rightarrow> 's \<Rightarrow> string option \<times> 's" where
  "adopt_for_recovery R t k i tok ttl s =
     (case recover_script R (map_key t k) (tombstone_key i) (token_key t k) (execution_row_key t i) (owner_key t k)
             (legacy_owner_key t k) i tok (max 1 ttl) s of
        (ok, s') \<Rightarrow> (if ok then Some tok else None, s'))"

definition guard ::
  "'s redis \<Rightarrow> string option \<Rightarrow> string \<Rightarrow> string \<Rightarrow> string \<Rightarrow> string \<Rightarrow> int \<Rightarrow> bool \<Rightarrow> 's \<Rightarrow> bool \<times> 's" where
  "guard R t k i tok st ttl allow =
     guard_script R (map_key t k) (tombstone_key i) (token_key t k) (owner_key t k) i tok st (max 1 ttl) allow"

definition dedup_release ::
  "'s redis \<Rightarrow> string option \<Rightarrow> string \<Rightarrow> string \<Rightarrow> string option \<Rightarrow> bool \<Rightarrow> 's \<Rightarrow> bool \<times> 's" where
  "dedup_release R t k i tok row_absent =
     release_script R (map_key t k) (token_key t k) (owner_key t k) (tombstone_key i) (execution_row_key t i)
       (legacy_owner_key t k) i (case tok of None \<Rightarrow> [] | Some x \<Rightarrow> x) row_absent"

definition recover_after_mark_failure ::
  "'s redis \<Rightarrow> string option \<Rightarrow> string \<Rightarrow> string \<Rightarrow> string \<Rightarrow> int \<Rightarrow> int \<Rightarrow> 's \<Rightarrow> bool \<times> 's" where
  "recover_after_mark_failure R t k i tok claim_ttl map_ttl s =
     (if rget R (map_key t k) s \<noteq> Some i then (False, s)
      else if rget R (tombstone_key i) s \<noteq> None then (False, s)
      else
        (case guard R t k i tok ''claiming'' claim_ttl True s of
           (False, s1) \<Rightarrow> (False, s1)
         | (True, s1) \<Rightarrow>
             (case reserve_enqueue R t k i tok claim_ttl s1 of
                (False, s2) \<Rightarrow> (False, s2)
              | (True, s2) \<Rightarrow> mark_enqueued R t k i tok map_ttl s2)))"

text \<open>\<open>_reverse_collision_base\<close>: the key whose old owner key is the mapping of this one.\<close>

definition reverse_collision_base :: "string \<Rightarrow> string option" where
  "reverse_collision_base k =
     (if suffix '':owner'' k \<and> length k > 6 then Some (take (length k - 6) k) else None)"

definition migrate_reverse_collision ::
  "'s redis \<Rightarrow> string option \<Rightarrow> string \<Rightarrow> string \<Rightarrow> string \<Rightarrow> 's \<Rightarrow> bool \<times> 's" where
  "migrate_reverse_collision R t k marker tok s =
     (case reverse_collision_base k of
        None \<Rightarrow> (False, s)
      | Some base \<Rightarrow>
          (let v = parse_owner True (Some marker) in
           case ov_id v of
             None \<Rightarrow> (False, s)
           | Some i \<Rightarrow>
               migrate_collision_script R (map_key t k) (map_key t base) (tombstone_key i) (owner_key t base)
                 (token_key t base) marker i tok
                 (if ov_state v = Some ''enqueued'' then START_DEDUP_TTL_SECONDS else CLAIM_TTL_SECONDS) s))"

record start_claim =
  sc_claimed :: bool
  sc_mapped :: "string option"
  sc_token :: "string option"
  sc_legacy :: bool
  sc_owner_state :: "string option"
  sc_error :: "string option"

text \<open>
  \<open>claim\<close>; \<open>made\<close> is the token made for a migrated owner.  It calls itself after a migration,
  so it takes fuel.
\<close>

fun claim ::
  "nat \<Rightarrow> 's redis \<Rightarrow> string option \<Rightarrow> string \<Rightarrow> string \<Rightarrow> string \<Rightarrow> string \<Rightarrow> int \<Rightarrow> int \<Rightarrow> 's \<Rightarrow> (start_claim \<times> 's) option" where
  "claim 0 R t k i tok made claim_ttl map_ttl s = None"
| "claim (Suc fuel) R t k i tok made claim_ttl map_ttl s =
     (case claim_script R (map_key t k) (owner_key t k) (token_key t k) i tok (max 1 claim_ttl) (max 1 map_ttl) s of
        (True, s1) \<Rightarrow>
          Some (\<lparr>sc_claimed = True, sc_mapped = None, sc_token = Some tok, sc_legacy = False, sc_owner_state = None, sc_error = None\<rparr>, s1)
      | (False, s1) \<Rightarrow>
          (let mapped = rget R (map_key t k) s1; ow = read_owner R t k s1;
               plain = \<lparr>sc_claimed = False, sc_mapped = mapped, sc_token = ov_token ow, sc_legacy = ov_legacy ow,
                        sc_owner_state = ov_state ow, sc_error = None\<rparr> in
           if mapped \<noteq> None \<and> owner_live (parse_owner True mapped) \<and> reverse_collision_base k \<noteq> None then
             (case migrate_reverse_collision R t k (the mapped) made s1 of
                (True, s2) \<Rightarrow> claim fuel R t k i tok made claim_ttl map_ttl s2
              | (False, s2) \<Rightarrow>
                  Some (\<lparr>sc_claimed = False, sc_mapped = None, sc_token = None, sc_legacy = False, sc_owner_state = None,
                         sc_error = Some ''legacy_owner_collision''\<rparr>, s2))
           else if mapped \<noteq> None \<and> mapped \<noteq> Some [] \<and> ov_legacy ow \<and> ov_state ow = Some ''claiming'' then
             (case adopt_legacy_script R (map_key t k) (tombstone_key (the mapped)) (owner_key t k) (legacy_owner_key t k)
                     (token_key t k) (the mapped) tok (max 1 claim_ttl) s1 of
                (True, s2) \<Rightarrow>
                  Some (\<lparr>sc_claimed = False, sc_mapped = mapped, sc_token = Some tok, sc_legacy = True,
                         sc_owner_state = Some ''claiming'', sc_error = None\<rparr>, s2)
              | (False, s2) \<Rightarrow> Some (plain, s2))
           else Some (plain, s1)))"

text \<open>\<open>snapshot\<close>: the read-only projection.\<close>

record dedup_snapshot =
  sn_mapped :: "string option"
  sn_owner_state :: "string option"
  sn_owner_id :: "string option"
  sn_token :: "string option"
  sn_legacy :: bool
  sn_row :: bool
  sn_tombstoned :: bool

definition snapshot :: "'s redis \<Rightarrow> string option \<Rightarrow> string \<Rightarrow> 's \<Rightarrow> dedup_snapshot" where
  "snapshot R t k s =
     (let ow = read_owner R t k s; mapped = rget R (map_key t k) s;
          known = (\<lambda>key. case mapped of None \<Rightarrow> False | Some i \<Rightarrow> i \<noteq> [] \<and> rget R (key i) s \<noteq> None) in
      \<lparr>sn_mapped = mapped, sn_owner_state = ov_state ow, sn_owner_id = ov_id ow, sn_token = ov_token ow,
       sn_legacy = ov_legacy ow, sn_row = known (execution_row_key t), sn_tombstoned = known tombstone_key\<rparr>)"

section \<open>Concurrent clients\<close>

record 's dsys =
  d_store :: 's
  d_reserved :: "(string \<times> string) list"

text \<open>
  One step of some client on the key \<open>k\<close>, or a write to a key which is not one of its three; the
  reservations made so far are kept.
\<close>

inductive dstep :: "'s redis \<Rightarrow> string option \<Rightarrow> string \<Rightarrow> 's dsys \<Rightarrow> 's dsys \<Rightarrow> bool" for R t k where
  d_claim: "claim_script R (map_key t k) (owner_key t k) (token_key t k) i tok (max 1 ct) (max 1 mt) (d_store x) = (b, s') \<Longrightarrow>
    dstep R t k x (x\<lparr>d_store := s'\<rparr>)"
| d_adopt: "adopt_legacy_script R (map_key t k) (tombstone_key i) (owner_key t k) (legacy_owner_key t k) (token_key t k) i tok (max 1 ct)
      (d_store x) = (b, s') \<Longrightarrow> dstep R t k x (x\<lparr>d_store := s'\<rparr>)"
| d_migrate: "reverse_collision_base k' = Some k \<Longrightarrow> migrate_reverse_collision R t k' marker tok (d_store x) = (b, s') \<Longrightarrow>
    dstep R t k x (x\<lparr>d_store := s'\<rparr>)"
| d_guard: "guard R t k i tok ''claiming'' ct allow (d_store x) = (b, s') \<Longrightarrow> dstep R t k x (x\<lparr>d_store := s'\<rparr>)"
| d_reserve: "reserve_enqueue R t k i tok ct (d_store x) = (b, s') \<Longrightarrow>
    dstep R t k x (x\<lparr>d_store := s', d_reserved := (if b then (i, tok) # d_reserved x else d_reserved x)\<rparr>)"
| d_recover: "adopt_for_recovery R t k i tok ct (d_store x) = (r, s') \<Longrightarrow>
    dstep R t k x (x\<lparr>d_store := s', d_reserved := (if r = None then d_reserved x else (i, tok) # d_reserved x)\<rparr>)"
| d_mark: "mark_enqueued R t k i tok mt (d_store x) = (b, s') \<Longrightarrow> dstep R t k x (x\<lparr>d_store := s'\<rparr>)"
| d_release: "dedup_release R t k i tk row (d_store x) = (b, s') \<Longrightarrow> dstep R t k x (x\<lparr>d_store := s'\<rparr>)"
| d_other_set: "k' \<notin> {map_key t k, owner_key t k, token_key t k} \<Longrightarrow> positive ex \<Longrightarrow>
    dstep R t k x (x\<lparr>d_store := rset R k' v ex (d_store x)\<rparr>)"
| d_other_del: "k' \<notin> {map_key t k, owner_key t k, token_key t k} \<Longrightarrow> dstep R t k x (x\<lparr>d_store := rdel R k' (d_store x)\<rparr>)"
| d_pass: "dstep R t k x (x\<lparr>d_store := rpass R dt (d_store x)\<rparr>)"

lemma dedup_keys_apart [simp]:
  "map_key t k \<noteq> owner_key t k" "map_key t k \<noteq> token_key t k" "owner_key t k \<noteq> token_key t k"
  "owner_key t k \<noteq> map_key t k" "token_key t k \<noteq> map_key t k" "token_key t k \<noteq> owner_key t k"
  "park_key t k \<noteq> map_key t k" "park_key t k \<noteq> owner_key t k" "park_key t k \<noteq> token_key t k"
  "map_key t k \<noteq> park_key t k" "owner_key t k \<noteq> park_key t k" "token_key t k \<noteq> park_key t k"
  by (simp_all add: map_key_def owner_key_def token_key_def park_key_def)

lemma owner_states [simp]:
  "claiming i \<noteq> enqueued j" "enqueueing i \<noteq> enqueued j" "claiming i \<noteq> enqueueing j"
  "enqueued j \<noteq> claiming i" "enqueued j \<noteq> enqueueing i" "enqueueing j \<noteq> claiming i"
  "enqueued i = enqueued j \<longleftrightarrow> i = j" "enqueueing i = enqueueing j \<longleftrightarrow> i = j" "claiming i = claiming j \<longleftrightarrow> i = j"
  "''claiming'' @ '':'' @ i = claiming i"
  by (simp_all add: claiming_def enqueueing_def enqueued_def)

lemma held_by_inject [simp]: "held_by i tok = held_by i tok' \<longleftrightarrow> tok = tok'"
  by (simp add: held_by_def)

lemma positive_max [simp]: "positive (Some (max 1 ttl))" "positive (Some CLAIM_TTL_SECONDS)" "positive (Some START_DEDUP_TTL_SECONDS)"
  by (simp_all add: positive_def CLAIM_TTL_SECONDS_def START_DEDUP_TTL_SECONDS_def)


section \<open>Guarantees\<close>

text \<open>The key is taken by an execution that was enqueued and has not been deleted.\<close>

definition accepted :: "'s redis \<Rightarrow> string option \<Rightarrow> string \<Rightarrow> string \<Rightarrow> 's \<Rightarrow> bool" where
  "accepted R t k i s \<longleftrightarrow> rget R (map_key t k) s = Some i \<and> rget R (owner_key t k) s = Some (enqueued i)
     \<and> rget R (tombstone_key i) s = None"

text \<open>
  A step which does not delete the execution and, when it is the passing of time, does not let the
  mapping or the owner of the key run out.
\<close>

definition kept_step :: "'s redis \<Rightarrow> string option \<Rightarrow> string \<Rightarrow> string \<Rightarrow> 's dsys \<Rightarrow> 's dsys \<Rightarrow> bool" where
  "kept_step R t k i x y \<longleftrightarrow> dstep R t k x y \<and> rget R (tombstone_key i) (d_store y) = None
     \<and> (\<forall>dt. y = x\<lparr>d_store := rpass R dt (d_store x)\<rparr> \<longrightarrow>
          rget R (map_key t k) (d_store y) \<noteq> None \<and> rget R (owner_key t k) (d_store y) \<noteq> None)"

lemma guard_claiming:
  "guard R t k i tok ''claiming'' ttl allow s =
     (if rget R (map_key t k) s \<noteq> Some i then (False, s)
      else if rget R (tombstone_key i) s \<noteq> None then (False, s)
      else if (if rget R (token_key t k) s \<noteq> Some (held_by i tok)
               then \<not> allow \<or> rget R (token_key t k) s \<noteq> None \<or> rget R (owner_key t k) s \<noteq> None
               else rget R (owner_key t k) s \<noteq> Some (claiming i)) then (False, s)
      else (True, rset R (token_key t k) (held_by i tok) (Some (max 1 ttl)) (rset R (owner_key t k) (claiming i) (Some (max 1 ttl)) s)))"
  by (simp add: guard_def guard_script_def claiming_def)

lemma collision_base: "reverse_collision_base k' = Some k \<Longrightarrow> k' = k @ '':owner''"
  by (auto simp: reverse_collision_base_def suffix_def split: if_splits)

lemma collision_keys_apart:
  "map_key t (k @ '':owner'') \<notin> {map_key t k, owner_key t k, token_key t k}"
  by (simp add: map_key_def owner_key_def token_key_def)

lemma migrate_cases:
  assumes "migrate_reverse_collision R t k' marker tok s = (b, s')" and base: "reverse_collision_base k' = Some k"
  obtains "s' = s"
  | j ttl where "ov_id (parse_owner True (Some marker)) = Some j" and "positive (Some ttl)"
      and "rget R (owner_key t k) s = None \<or> rget R (owner_key t k) s = Some marker"
      and "s' = rdel R (map_key t k') (rset R (token_key t k) (held_by j tok) (Some ttl) (rset R (owner_key t k) marker (Some ttl) s))"
proof (cases "ov_id (parse_owner True (Some marker))")
  case None
  with assms that(1) show thesis by (simp add: migrate_reverse_collision_def)
next
  case (Some j)
  define ttl where "ttl = (if ov_state (parse_owner True (Some marker)) = Some ''enqueued'' then START_DEDUP_TTL_SECONDS else CLAIM_TTL_SECONDS)"
  have pos: "positive (Some ttl)" by (simp add: ttl_def)
  have "migrate_collision_script R (map_key t k') (map_key t k) (tombstone_key j) (owner_key t k) (token_key t k) marker j tok ttl s = (b, s')"
    using assms Some by (simp add: migrate_reverse_collision_def ttl_def Let_def)
  note script = this
  show thesis
  proof (cases "rget R (map_key t k') s \<noteq> Some marker \<or> rget R (map_key t k) s \<noteq> Some j \<or> rget R (tombstone_key j) s \<noteq> None
      \<or> rget R (owner_key t k) s \<noteq> None \<and> rget R (owner_key t k) s \<noteq> Some marker")
    case True
    with script have "s' = s" unfolding migrate_collision_script_def by (elim disjE) (simp_all split: if_splits)
    then show thesis by (rule that(1))
  next
    case False
    with script show thesis unfolding migrate_collision_script_def by (intro that(2) [OF Some pos]) auto
  qed
qed

context redis_server
begin

lemma accepted_step:
  assumes "accepted R t k i (d_store x)" and "dstep R t k x y"
    and "rget R (tombstone_key i) (d_store y) = None"
    and "\<And>dt. y = x\<lparr>d_store := rpass R dt (d_store x)\<rparr> \<Longrightarrow>
          rget R (map_key t k) (d_store y) \<noteq> None \<and> rget R (owner_key t k) (d_store y) \<noteq> None"
  shows "accepted R t k i (d_store y)"
  using assms(2)
proof (cases rule: dstep.cases)
  case (d_claim j tok ct mt b s')
  then show ?thesis using assms(1) by (auto simp: accepted_def claim_script_def split: if_splits)
next
  case (d_adopt j tok ct b s')
  then show ?thesis using assms(1) by (auto simp: accepted_def adopt_legacy_script_def split: if_splits)
next
  case (d_migrate k' marker tok b s')
  then have k': "k' = k @ '':owner''" by (simp add: collision_base)
  note apart = collision_keys_apart [of t k, folded k']
  from d_migrate(3,2) show ?thesis
  proof (cases rule: migrate_cases)
    case 1
    with assms(1) d_migrate(1) show ?thesis by simp
  next
    case (2 j ttl)
    with assms(1) have "marker = enqueued i" by (auto simp: accepted_def)
    with 2 assms(1,3) d_migrate(1) apart show ?thesis by (auto simp: accepted_def get_set get_del)
  qed
next
  case (d_guard j tok ct allow b s')
  then show ?thesis using assms(1) by (auto simp: accepted_def guard_claiming split: if_splits)
next
  case (d_reserve j tok ct b s')
  then show ?thesis using assms(1) by (auto simp: accepted_def reserve_enqueue_def reserve_script_def split: if_splits)
next
  case (d_recover j tok ct r s')
  then show ?thesis using assms(1) by (auto simp: accepted_def adopt_for_recovery_def recover_script_def split: if_splits)
next
  case (d_mark j tok mt b s')
  then show ?thesis using assms(1) by (auto simp: accepted_def mark_enqueued_def mark_enqueued_script_def split: if_splits)
next
  case (d_release j tk row b s')
  then show ?thesis using assms(1) by (auto simp: accepted_def dedup_release_def release_script_def Let_def split: if_splits)
next
  case (d_other_set k' ex v)
  then show ?thesis using assms(1,3) by (auto simp: accepted_def get_set)
next
  case (d_other_del k')
  then show ?thesis using assms(1,3) by (auto simp: accepted_def get_del)
next
  case (d_pass dt)
  with assms(4) have "rget R (map_key t k) (d_store y) = rget R (map_key t k) (d_store x)"
    "rget R (owner_key t k) (d_store y) = rget R (owner_key t k) (d_store x)"
    by (auto intro!: get_pass)
  with assms(1,3) show ?thesis by (simp add: accepted_def)
qed

text \<open>The reservation behind an \<open>enqueueing\<close> owner.\<close>

lemma script_writes:
  "rget R (owner_key t k) (rset R (token_key t k) v (Some (max 1 ttl)) (rset R (owner_key t k) ow (Some (max 1 ttl)) s)) = Some ow"
  "rget R (token_key t k) (rset R (token_key t k) v (Some (max 1 ttl)) (rset R (owner_key t k) ow (Some (max 1 ttl)) s)) = Some v"
  by (simp_all add: get_set)

end

definition reservation_inv :: "'s redis \<Rightarrow> string option \<Rightarrow> string \<Rightarrow> 's dsys \<Rightarrow> bool" where
  "reservation_inv R t k x \<longleftrightarrow>
     (\<forall>i v. rget R (owner_key t k) (d_store x) = Some (enqueueing i) \<and> rget R (token_key t k) (d_store x) = Some v \<longrightarrow>
        (\<exists>tok. v = held_by i tok \<and> (i, tok) \<in> set (d_reserved x)))"

lemma legacy_marker_state:
  "ov_id (parse_owner True (Some marker)) = Some i \<Longrightarrow> marker \<noteq> enqueueing j"
  by (auto simp: parse_owner_def EMPTY_OWNER_def enqueueing_def split: list.splits if_splits)

context redis_server
begin

lemma reservation_inv_step:
  assumes "dstep R t k x y" and "reservation_inv R t k x"
  shows "reservation_inv R t k y"
  using assms(1)
proof (cases rule: dstep.cases)
  case (d_claim j tok ct mt b s')
  then show ?thesis using assms(2) by (auto simp: reservation_inv_def claim_script_def get_set split: if_splits)
next
  case (d_adopt j tok ct b s')
  then show ?thesis using assms(2) by (auto simp: reservation_inv_def adopt_legacy_script_def get_set split: if_splits)
next
  case (d_migrate k' marker tok b s')
  then have k': "k' = k @ '':owner''" by (simp add: collision_base)
  note apart = collision_keys_apart [of t k, folded k']
  from d_migrate(3,2) show ?thesis
  proof (cases rule: migrate_cases)
    case 1
    with assms(2) d_migrate(1) show ?thesis by (simp add: reservation_inv_def)
  next
    case (2 j ttl)
    then have "\<And>i. marker \<noteq> enqueueing i" using legacy_marker_state by blast
    with 2 assms(2) d_migrate(1) apart show ?thesis by (auto simp: reservation_inv_def get_set get_del)
  qed
next
  case (d_guard j tok ct allow b s')
  then show ?thesis using assms(2)
    by (auto simp: reservation_inv_def guard_claiming get_set split: if_splits)
next
  case (d_reserve j tok ct b s')
  then show ?thesis using assms(2)
    by (auto simp: reservation_inv_def reserve_enqueue_def reserve_script_def get_set split: if_splits)
next
  case (d_recover j tok ct r s')
  then show ?thesis using assms(2)
    by (auto simp: reservation_inv_def adopt_for_recovery_def recover_script_def get_set split: if_splits)
next
  case (d_mark j tok mt b s')
  then show ?thesis using assms(2)
    by (auto simp: reservation_inv_def mark_enqueued_def mark_enqueued_script_def clear_parked_def get_set get_del split: if_splits)
next
  case (d_release j tk row b s')
  then show ?thesis using assms(2)
    by (auto simp: reservation_inv_def dedup_release_def release_script_def get_del Let_def split: if_splits)
next
  case (d_other_set k' ex v)
  then show ?thesis using assms(2) by (auto simp: reservation_inv_def get_set)
next
  case (d_other_del k')
  then show ?thesis using assms(2) by (auto simp: reservation_inv_def get_del)
next
  case (d_pass dt)
  then show ?thesis
    using assms(2) get_pass [of "owner_key t k" dt "d_store x"] get_pass [of "token_key t k" dt "d_store x"]
    by (auto simp: reservation_inv_def)
qed

lemma reservation_inv_steps: "(dstep R t k)\<^sup>*\<^sup>* x y \<Longrightarrow> reservation_inv R t k x \<Longrightarrow> reservation_inv R t k y"
  by (induction rule: rtranclp_induct) (auto intro: reservation_inv_step)

lemma accepted_steps: "(kept_step R t k i)\<^sup>*\<^sup>* x y \<Longrightarrow> accepted R t k i (d_store x) \<Longrightarrow> accepted R t k i (d_store y)"
  by (induction rule: rtranclp_induct) (auto simp: kept_step_def intro: accepted_step)

end

lemma split_colon_tagged: "CHR '':'' \<notin> set a \<Longrightarrow> CHR '':'' \<notin> set b \<Longrightarrow> split_colon (a @ '':'' @ b) = [a, b]"
  by (simp add: split_colon_Cons split_colon_word)

lemma parse_enqueued: "CHR '':'' \<notin> set i \<Longrightarrow> i \<noteq> [] \<Longrightarrow>
    parse_owner False (Some (enqueued i)) = \<lparr>ov_state = Some ''enqueued'', ov_id = Some i, ov_token = None, ov_legacy = False\<rparr>"
  using split_colon_tagged [of "''enqueued''" i] by (simp add: parse_owner_def enqueued_def)

lemma parse_plain_id: "CHR '':'' \<notin> set i \<Longrightarrow> parse_owner legacy (Some i) = EMPTY_OWNER"
  by (simp add: parse_owner_def split_colon_word)

lemma claim_of_accepted:
  assumes "accepted R t k i s" and "CHR '':'' \<notin> set i" and "i \<noteq> []"
  shows "claim (Suc n) R t k j tok made ct mt s =
    Some (\<lparr>sc_claimed = False, sc_mapped = Some i, sc_token = None, sc_legacy = False, sc_owner_state = Some ''enqueued'', sc_error = None\<rparr>, s)"
proof -
  have "read_owner R t k s = \<lparr>ov_state = Some ''enqueued'', ov_id = Some i, ov_token = None, ov_legacy = False\<rparr>"
    using assms by (simp add: read_owner_def accepted_def parse_enqueued owner_live_def Let_def)
  moreover have "\<not> owner_live (parse_owner True (Some i))"
    using assms(2) by (simp add: parse_plain_id owner_live_def EMPTY_OWNER_def)
  ultimately show ?thesis
    using assms(1) by (simp add: accepted_def claim_script_def Let_def)
qed

text \<open>
  Property C29. An accepted start is stable: whatever claims, adoptions, migrations, guards, reservations, recoveries, marks and releases
  of any clients follow, as long as the execution is not deleted and its keys do not run out, the key stays
  with the execution, and every further start of the key is sent to it and changes nothing.  The id of the execution is not empty and has
  no colon; the worker's own release of the key of an execution whose state was never stored is not among the steps.
\<close>

theorem accepted_start_is_stable:
  assumes "redis_server R" and "accepted R t k i (d_store x)" and "(kept_step R t k i)\<^sup>*\<^sup>* x y"
    and "CHR '':'' \<notin> set i" and "i \<noteq> []"
  shows "accepted R t k i (d_store y)
    \<and> claim (Suc n) R t k j tok made ct mt (d_store y) =
      Some (\<lparr>sc_claimed = False, sc_mapped = Some i, sc_token = None, sc_legacy = False, sc_owner_state = Some ''enqueued'',
             sc_error = None\<rparr>, d_store y)"
  using redis_server.accepted_steps [OF assms(1) assms(3) assms(2)] claim_of_accepted [OF _ assms(4,5)] by (simp del: claim.simps)

text \<open>
  No start is recorded as enqueued without a reservation: from a key without owner, after any steps of any clients,
  the record succeeds only for an execution and a token which reserved the enqueueing before.
\<close>

theorem reservation_precedes_enqueued:
  assumes "redis_server R" and "rget R (owner_key t k) (d_store x) = None" and "(dstep R t k)\<^sup>*\<^sup>* x y"
    and "mark_enqueued R t k i tok ttl (d_store y) = (True, s')"
  shows "(i, tok) \<in> set (d_reserved y)"
proof -
  have "reservation_inv R t k x" using assms(2) by (simp add: reservation_inv_def)
  then have "reservation_inv R t k y" using redis_server.reservation_inv_steps [OF assms(1) assms(3)] by blast
  moreover have "rget R (token_key t k) (d_store y) = Some (held_by i tok)" "rget R (owner_key t k) (d_store y) = Some (enqueueing i)"
    using assms(4) by (auto simp: mark_enqueued_def mark_enqueued_script_def split: if_splits)
  ultimately show ?thesis unfolding reservation_inv_def by fastforce
qed

context redis_server
begin

lemma fresh_start_runs:
  assumes "rget R (map_key t k) s = None" and "rget R (tombstone_key i) s = None"
    and "tombstone_key i \<notin> {map_key t k, owner_key t k, token_key t k, park_key t k}"
  shows "\<exists>s1 s2 s3. claim (Suc n) R t k i tok made ct mt s =
      Some (\<lparr>sc_claimed = True, sc_mapped = None, sc_token = Some tok, sc_legacy = False, sc_owner_state = None, sc_error = None\<rparr>, s1)
    \<and> reserve_enqueue R t k i tok ct' s1 = (True, s2) \<and> mark_enqueued R t k i tok mt' s2 = (True, s3) \<and> accepted R t k i s3"
proof -
  define s1 where "s1 = rset R (token_key t k) (held_by i tok) (Some (max 1 ct))
    (rset R (owner_key t k) (claiming i) (Some (max 1 ct)) (rset R (map_key t k) i (Some (max 1 mt)) s))"
  define s2 where "s2 = rset R (token_key t k) (held_by i tok) (Some (max 1 ct')) (rset R (owner_key t k) (enqueueing i) (Some (max 1 ct')) s1)"
  define s3 where "s3 = rdel R (park_key t k) (rset R (token_key t k) (held_by i tok) (Some (max 1 mt'))
    (rset R (owner_key t k) (enqueued i) (Some (max 1 mt')) s2))"
  have s1: "rget R (map_key t k) s1 = Some i" "rget R (owner_key t k) s1 = Some (claiming i)"
    "rget R (token_key t k) s1 = Some (held_by i tok)" "rget R (tombstone_key i) s1 = None"
    using assms by (simp_all add: s1_def get_set)
  have s2: "rget R (map_key t k) s2 = Some i" "rget R (owner_key t k) s2 = Some (enqueueing i)"
    "rget R (token_key t k) s2 = Some (held_by i tok)" "rget R (tombstone_key i) s2 = None"
    using s1 assms(3) by (simp_all add: s2_def get_set)
  have "claim (Suc n) R t k i tok made ct mt s =
      Some (\<lparr>sc_claimed = True, sc_mapped = None, sc_token = Some tok, sc_legacy = False, sc_owner_state = None, sc_error = None\<rparr>, s1)"
    using assms(1) by (simp add: claim_script_def s1_def)
  moreover have "reserve_enqueue R t k i tok ct' s1 = (True, s2)"
    using s1 by (simp add: reserve_enqueue_def reserve_script_def s2_def)
  moreover have "mark_enqueued R t k i tok mt' s2 = (True, s3)"
    using s2 by (simp add: mark_enqueued_def mark_enqueued_script_def clear_parked_def s3_def)
  moreover have "accepted R t k i s3"
    using s2 assms(3) by (simp add: accepted_def s3_def get_set get_del)
  ultimately show ?thesis by blast
qed

end

text \<open>
  A start of a free key goes through: the claim, the reservation and the record succeed in turn, and the
  key is then taken by the execution.
\<close>

theorem fresh_start_is_accepted:
  assumes "redis_server R" and "rget R (map_key t k) s = None" and "rget R (tombstone_key i) s = None"
    and "tombstone_key i \<notin> {map_key t k, owner_key t k, token_key t k, park_key t k}"
  shows "\<exists>s1 s2 s3. claim (Suc n) R t k i tok made ct mt s =
      Some (\<lparr>sc_claimed = True, sc_mapped = None, sc_token = Some tok, sc_legacy = False, sc_owner_state = None, sc_error = None\<rparr>, s1)
    \<and> reserve_enqueue R t k i tok ct' s1 = (True, s2) \<and> mark_enqueued R t k i tok mt' s2 = (True, s3) \<and> accepted R t k i s3"
  using assms(2-4) by (rule redis_server.fresh_start_runs [OF assms(1)])

section \<open>Witnesses\<close>

lemma tombstone_apart [simp]: "tombstone_key i \<noteq> map_key None k" "tombstone_key i \<noteq> owner_key None k"
  "tombstone_key i \<noteq> token_key None k" "tombstone_key i \<noteq> park_key None k"
  by (simp_all add: tombstone_key_def map_key_def owner_key_def token_key_def park_key_def tenant_namespace_def)

theorem fresh_start_is_accepted_witness:
  "\<exists>s1 s2 s3. claim 1 kv_redis None ''k'' ''e1'' ''t1'' ''t2'' 60 600 empty_kv =
      Some (\<lparr>sc_claimed = True, sc_mapped = None, sc_token = Some ''t1'', sc_legacy = False, sc_owner_state = None, sc_error = None\<rparr>, s1)
    \<and> reserve_enqueue kv_redis None ''k'' ''e1'' ''t1'' 60 s1 = (True, s2)
    \<and> mark_enqueued kv_redis None ''k'' ''e1'' ''t1'' 600 s2 = (True, s3) \<and> accepted kv_redis None ''k'' ''e1'' s3"
  using fresh_start_is_accepted [OF kv.redis_server_axioms, of None "''k''" empty_kv "''e1''" 0 "''t1''" "''t2''" 60 600 60 600]
  unfolding One_nat_def by simp

text \<open>A start of the key by \<open>e1\<close>, then a release of it by a client that holds another token.\<close>

definition first_sys :: "kv dsys" where
  "first_sys = \<lparr>d_store = empty_kv, d_reserved = []\<rparr>"

lemma accepted_example: "\<exists>s. accepted kv_redis None ''k'' ''e1'' s"
  using kv.fresh_start_runs [of None "''k''" empty_kv "''e1''" 0 "''t1''" "''t2''" 60 600 60 600] by auto

lemma stale_release_kept:
  assumes "accepted kv_redis None ''k'' ''e1'' s"
  shows "kept_step kv_redis None ''k'' ''e1'' \<lparr>d_store = s, d_reserved = []\<rparr> \<lparr>d_store = s, d_reserved = []\<rparr>"
proof -
  have "dedup_release kv_redis None ''k'' ''e1'' (Some ''t9'') True s = (False, s)"
    using assms by (simp add: dedup_release_def release_script_def accepted_def Let_def)
  then have "dstep kv_redis None ''k'' \<lparr>d_store = s, d_reserved = []\<rparr> (\<lparr>d_store = s, d_reserved = []\<rparr>\<lparr>d_store := s\<rparr>)"
    by (intro d_release) simp
  then show ?thesis using assms by (simp add: kept_step_def accepted_def)
qed

theorem accepted_start_is_stable_witness:
  "\<exists>s. accepted kv_redis None ''k'' ''e1'' s
    \<and> claim 1 kv_redis None ''k'' ''e2'' ''t3'' ''t4'' 60 600 s =
      Some (\<lparr>sc_claimed = False, sc_mapped = Some ''e1'', sc_token = None, sc_legacy = False, sc_owner_state = Some ''enqueued'',
             sc_error = None\<rparr>, s)"
proof -
  obtain s where s: "accepted kv_redis None ''k'' ''e1'' s" using accepted_example by blast
  have steps: "(kept_step kv_redis None ''k'' ''e1'')\<^sup>*\<^sup>* \<lparr>d_store = s, d_reserved = []\<rparr> \<lparr>d_store = s, d_reserved = []\<rparr>"
    using stale_release_kept [OF s] by blast
  from accepted_start_is_stable [OF kv.redis_server_axioms _ steps, of 0 "''e2''" "''t3''" "''t4''" 60 600] s
  show ?thesis by (intro exI [of _ s]) simp
qed

theorem reservation_precedes_enqueued_witness:
  "\<exists>y s'. (dstep kv_redis None ''k'')\<^sup>*\<^sup>* first_sys y \<and> mark_enqueued kv_redis None ''k'' ''e1'' ''t1'' 600 (d_store y) = (True, s')
    \<and> (''e1'', ''t1'') \<in> set (d_reserved y)"
proof -
  obtain s1 s2 s3 where run:
    "claim_script kv_redis (map_key None ''k'') (owner_key None ''k'') (token_key None ''k'') ''e1'' ''t1'' (max 1 60) (max 1 600) empty_kv = (True, s1)"
    "reserve_enqueue kv_redis None ''k'' ''e1'' ''t1'' 60 s1 = (True, s2)" "mark_enqueued kv_redis None ''k'' ''e1'' ''t1'' 600 s2 = (True, s3)"
    using kv.fresh_start_runs [of None "''k''" empty_kv "''e1''" 0 "''t1''" "''t2''" 60 600 60 600]
    by (auto simp: claim_script_def)
  define y where "y = first_sys\<lparr>d_store := s2, d_reserved := [(''e1'', ''t1'')]\<rparr>"
  have "dstep kv_redis None ''k'' first_sys (first_sys\<lparr>d_store := s1\<rparr>)"
    using run(1) by (intro d_claim [where i = "''e1''" and tok = "''t1''" and ct = 60 and mt = 600]) (simp add: first_sys_def)
  moreover have "dstep kv_redis None ''k'' (first_sys\<lparr>d_store := s1\<rparr>) y"
    using d_reserve [where x = "first_sys\<lparr>d_store := s1\<rparr>", OF _] run(2) by (fastforce simp: y_def first_sys_def)
  ultimately have steps: "(dstep kv_redis None ''k'')\<^sup>*\<^sup>* first_sys y" by (meson converse_rtranclp_into_rtranclp r_into_rtranclp)
  have mark: "mark_enqueued kv_redis None ''k'' ''e1'' ''t1'' 600 (d_store y) = (True, s3)" using run(3) by (simp add: y_def first_sys_def)
  from reservation_precedes_enqueued [OF kv.redis_server_axioms _ steps mark] steps mark show ?thesis
    by (auto simp: first_sys_def)
qed

end
