(* ===== verification/Tenant_Quota.thy ===== *)
theory Tenant_Quota
  imports Flow_Errors "HOL-Library.AList"
begin

text \<open>
  \<^verbatim>\<open>plaita/server/tenant_quota.py\<close>: the number of starts of a tenant that run at once is bounded.  A start takes a slot, an entry of a
  sorted set whose score is the time at which it lapses, so the slot of a crashed worker frees itself; the test and the entry
  are one Lua script.  The Redis server is an argument: the locale \<open>slot_server\<close> states the documented behaviour of
  the commands on sorted sets and hashes, and \<open>zs_redis\<close> satisfies it.  Times are integers, \<open>unit_per_second\<close> of
  them a second (microseconds in the code).  A call of the server may be lost: \<open>fault\<close> says where.
\<close>

section \<open>The server\<close>

record 's slot_redis =
  zscore :: "string \<Rightarrow> string \<Rightarrow> 's \<Rightarrow> int option"
  zcard :: "string \<Rightarrow> 's \<Rightarrow> nat"
  zadd :: "string \<Rightarrow> int \<Rightarrow> string \<Rightarrow> 's \<Rightarrow> 's"
  zrem :: "string \<Rightarrow> string \<Rightarrow> 's \<Rightarrow> 's"
  zremrangebyscore :: "string \<Rightarrow> int \<Rightarrow> 's \<Rightarrow> 's"
  zexpire :: "string \<Rightarrow> int \<Rightarrow> 's \<Rightarrow> 's"
  hget :: "string \<Rightarrow> string \<Rightarrow> 's \<Rightarrow> string option"
  hset :: "string \<Rightarrow> string \<Rightarrow> string \<Rightarrow> 's \<Rightarrow> 's"
  hdel :: "string \<Rightarrow> string \<Rightarrow> 's \<Rightarrow> 's"
  zpass :: "int \<Rightarrow> 's \<Rightarrow> 's"

definition members :: "'s slot_redis \<Rightarrow> string \<Rightarrow> 's \<Rightarrow> string set" where
  "members Z k s = {m. \<exists>x. zscore Z k m s = Some x}"

text \<open>The passing of time may drop a whole set, and changes nothing else: no hash is given a time to live.\<close>

locale slot_server =
  fixes Z :: "'s slot_redis"
  assumes zcard_members: "finite (members Z k s) \<and> zcard Z k s = card (members Z k s)"
    and score_zadd: "zscore Z k m (zadd Z k' t m' s) = (if k = k' \<and> m = m' then Some t else zscore Z k m s)"
    and score_zrem: "zscore Z k m (zrem Z k' m' s) = (if k = k' \<and> m = m' then None else zscore Z k m s)"
    and score_purge: "zscore Z k m (zremrangebyscore Z k' t s) =
      (case zscore Z k m s of None \<Rightarrow> None | Some x \<Rightarrow> if k = k' \<and> x \<le> t then None else Some x)"
    and score_expire: "0 < t \<Longrightarrow> zscore Z k m (zexpire Z k' t s) = zscore Z k m s"
    and score_hash: "zscore Z k m (hset Z h f v s) = zscore Z k m s" "zscore Z k m (hdel Z h f s) = zscore Z k m s"
    and score_pass: "(\<forall>m. zscore Z k m (zpass Z dt s) = zscore Z k m s) \<or> (\<forall>m. zscore Z k m (zpass Z dt s) = None)"
    and hget_hset: "hget Z h f (hset Z h' f' v s) = (if h = h' \<and> f = f' then Some v else hget Z h f s)"
    and hget_hdel: "hget Z h f (hdel Z h' f' s) = (if h = h' \<and> f = f' then None else hget Z h f s)"
    and hget_slots: "h \<noteq> k \<Longrightarrow> hget Z h f (zadd Z k x m s) = hget Z h f s" "h \<noteq> k \<Longrightarrow> hget Z h f (zrem Z k m s) = hget Z h f s"
      "hget Z h f (zremrangebyscore Z k x s) = hget Z h f s" "h \<noteq> k \<Longrightarrow> hget Z h f (zexpire Z k x s) = hget Z h f s"
    and hget_pass: "hget Z h f (zpass Z dt s) = hget Z h f s"
begin

lemma members_zadd: "members Z k (zadd Z k' t m s) = (if k = k' then insert m (members Z k s) else members Z k s)"
  by (auto simp: members_def score_zadd)

lemma score_purged: "zscore Z k m (zremrangebyscore Z k t s) = Some x \<longleftrightarrow> zscore Z k m s = Some x \<and> t < x"
  by (auto simp: score_purge split: option.splits)

lemma members_purge: "members Z k (zremrangebyscore Z k t s) = {m. \<exists>x. zscore Z k m s = Some x \<and> t < x}"
  by (simp add: members_def score_purged)

lemma members_purge_sub: "members Z k (zremrangebyscore Z k' t s) \<subseteq> members Z k s"
  by (auto simp: members_def score_purge split: option.splits)

lemma members_zrem_sub: "members Z k (zrem Z k' m s) \<subseteq> members Z k s"
  by (auto simp: members_def score_zrem)

lemma members_pass_sub: "members Z k (zpass Z dt s) \<subseteq> members Z k s"
  using score_pass [of k dt s] by (auto simp: members_def)

lemma members_zexpire [simp]: "0 < t \<Longrightarrow> members Z k (zexpire Z k' t s) = members Z k s"
  by (simp add: members_def score_expire)

lemma card_members [simp]: "zcard Z k s = card (members Z k s)" and finite_members [simp]: "finite (members Z k s)"
  using zcard_members by auto

end

section \<open>Keys and limits\<close>

definition TENANT_QUOTA_KEY :: string where
  "TENANT_QUOTA_KEY = ''plaita:tenant_quota''"

definition DEFAULT_RUNNING_TTL_SECONDS :: int where
  "DEFAULT_RUNNING_TTL_SECONDS = 86400"

definition or_default :: "string option \<Rightarrow> string" where
  "or_default t = (case t of None \<Rightarrow> ''default'' | Some n \<Rightarrow> if n = [] then ''default'' else n)"

definition tenant_running_key :: "string option \<Rightarrow> string" where
  "tenant_running_key t = ''plaita:tenant_running:'' @ or_default t"

lemma running_key_inject [simp]: "tenant_running_key t = tenant_running_key t' \<longleftrightarrow> or_default t = or_default t'"
  by (simp add: tenant_running_key_def)

lemma quota_key_apart [simp]: "TENANT_QUOTA_KEY \<noteq> tenant_running_key t"
  by (simp add: tenant_running_key_def TENANT_QUOTA_KEY_def)

text \<open>
  The environment: the two variables as text (empty when unset), \<open>int\<close> and \<open>float\<close> of a text, the latter rounded to
  a whole number of time units, and the stricter reading of
  \<open>parse_int\<close> (digits with a sign only), whose result is checked against the minimum zero.
\<close>

record quota_config =
  env_max_running :: string
  env_ttl :: string
  int_of_text :: "string \<Rightarrow> int option"
  strict_int_of_text :: "string \<Rightarrow> int option"
  seconds_of_text :: "string \<Rightarrow> int option"
  unit_per_second :: int

definition running_entry_ttl :: "quota_config \<Rightarrow> int" where
  "running_entry_ttl q =
     (let dflt = DEFAULT_RUNNING_TTL_SECONDS * unit_per_second q in
      if env_ttl q = [] then dflt
      else (case seconds_of_text q (env_ttl q) of
              None \<Rightarrow> dflt
            | Some t \<Rightarrow> if t \<le> 0 then dflt else t))"

definition parse_quota_default :: "quota_config \<Rightarrow> string \<Rightarrow> int option" where
  "parse_quota_default q raw = (case strict_int_of_text q raw of Some v \<Rightarrow> if 0 \<le> v then Some v else None | None \<Rightarrow> None)"

text \<open>Where the connection fails: before the first command, before the second one, or after it ran.\<close>

datatype fault = No_Fault | First_Lost | Second_Lost | Reply_Lost

definition tenant_max_running :: "'s slot_redis option \<Rightarrow> quota_config \<Rightarrow> fault \<Rightarrow> string option \<Rightarrow> 's \<Rightarrow> int option" where
  "tenant_max_running c q w t s =
     (case c of
        None \<Rightarrow> None
      | Some Z \<Rightarrow>
          if w = First_Lost then None
          else (case hget Z TENANT_QUOTA_KEY (or_default t) s of
                  Some raw \<Rightarrow>
                    (case int_of_text q raw of
                       None \<Rightarrow> None
                     | Some v \<Rightarrow> if v \<le> 0 then None else Some v)
                | None \<Rightarrow>
                    if env_max_running q = [] then None
                    else (case parse_quota_default q (env_max_running q) of
                            None \<Rightarrow> None
                          | Some v \<Rightarrow> if v = 0 then None else Some v)))"

section \<open>Admission and release\<close>

definition slot_expiry :: "quota_config \<Rightarrow> int \<Rightarrow> int" where
  "slot_expiry q ttl = (ttl + unit_per_second q - 1) div unit_per_second q + 60"

definition admit_script :: "'s slot_redis \<Rightarrow> quota_config \<Rightarrow> string \<Rightarrow> int \<Rightarrow> int \<Rightarrow> int \<Rightarrow> string \<Rightarrow> 's \<Rightarrow> bool \<times> 's" where
  "admit_script Z q k now ttl cap m s =
     (let s1 = zremrangebyscore Z k now s;
          take_slot = zexpire Z k (slot_expiry q ttl) (zadd Z k (now + ttl) m s1) in
      if zscore Z k m s1 \<noteq> None then (True, take_slot)
      else if int (zcard Z k s1) \<ge> cap then (False, s1)
      else (True, take_slot))"

definition try_admit_tenant_start ::
  "'s slot_redis option \<Rightarrow> quota_config \<Rightarrow> fault \<Rightarrow> string option \<Rightarrow> string option \<Rightarrow> int \<Rightarrow> 's \<Rightarrow> bool \<times> 's" where
  "try_admit_tenant_start c q w t eid now s =
     (case (c, eid) of
        (Some Z, Some m) \<Rightarrow>
          if m = [] then (True, s)
          else (case tenant_max_running c q w t s of
                  None \<Rightarrow> (True, s)
                | Some cap \<Rightarrow>
                    let r = admit_script Z q (tenant_running_key t) now (max (unit_per_second q) (running_entry_ttl q)) cap m s in
                    if w = Second_Lost then (True, s)
                    else if w = Reply_Lost then (True, snd r)
                    else r)
      | _ \<Rightarrow> (True, s))"

definition release_tenant_start :: "'s slot_redis option \<Rightarrow> fault \<Rightarrow> string option \<Rightarrow> string option \<Rightarrow> 's \<Rightarrow> 's" where
  "release_tenant_start c w t eid s =
     (case (c, eid) of
        (Some Z, Some m) \<Rightarrow> if m = [] \<or> w = First_Lost then s else zrem Z (tenant_running_key t) m s
      | _ \<Rightarrow> s)"

definition purge_expired :: "'s slot_redis \<Rightarrow> fault \<Rightarrow> string \<Rightarrow> int \<Rightarrow> 's \<Rightarrow> 's" where
  "purge_expired Z w k now s = (if w = First_Lost then s else zremrangebyscore Z k now s)"

definition tenant_running_count :: "'s slot_redis option \<Rightarrow> fault \<Rightarrow> string option \<Rightarrow> int \<Rightarrow> 's \<Rightarrow> nat \<times> 's" where
  "tenant_running_count c w t now s =
     (case c of
        None \<Rightarrow> (0, s)
      | Some Z \<Rightarrow>
          let s1 = purge_expired Z w (tenant_running_key t) now s in
          (if w \<in> {Second_Lost, Reply_Lost} then 0 else zcard Z (tenant_running_key t) s1, s1))"

definition publish_tenant_quota :: "'s slot_redis option \<Rightarrow> fault \<Rightarrow> string option \<Rightarrow> string option \<Rightarrow> 's \<Rightarrow> 's" where
  "publish_tenant_quota c w t max_running s =
     (case (c, t) of
        (Some Z, Some n) \<Rightarrow>
          if n = [] \<or> w = First_Lost then s
          else (case max_running of
                  None \<Rightarrow> hdel Z TENANT_QUOTA_KEY n s
                | Some v \<Rightarrow> hset Z TENANT_QUOTA_KEY n v s)
      | _ \<Rightarrow> s)"

section \<open>Workers and the console\<close>

text \<open>
  The steps on the slots of the tenants: starts and terminal states of any execution of any tenant, by any worker with any
  clock and environment, counts, quotas set by the console, and the passing of time, with faults at any point.  The
  environments are those of the set \<open>Q\<close>; \<open>P\<close> are the quotas the console publishes.
\<close>

inductive quota_step :: "'s slot_redis \<Rightarrow> quota_config set \<Rightarrow> (string \<times> string option) set \<Rightarrow> 's \<Rightarrow> 's \<Rightarrow> bool" for Z Q P where
  q_admit: "q \<in> Q \<Longrightarrow> try_admit_tenant_start (Some Z) q w t eid now s = (b, s') \<Longrightarrow> quota_step Z Q P s s'"
| q_release: "quota_step Z Q P s (release_tenant_start (Some Z) w t eid s)"
| q_count: "tenant_running_count (Some Z) w t now s = (n, s') \<Longrightarrow> quota_step Z Q P s s'"
| q_publish: "(n, v) \<in> P \<Longrightarrow> quota_step Z Q P s (publish_tenant_quota (Some Z) w (Some n) v s)"
| q_pass: "quota_step Z Q P s (zpass Z dt s)"

section \<open>Guarantees\<close>

text \<open>The slots that have not lapsed.\<close>

definition live :: "'s slot_redis \<Rightarrow> string \<Rightarrow> int \<Rightarrow> 's \<Rightarrow> string set" where
  "live Z k now s = {m. \<exists>x. zscore Z k m s = Some x \<and> now < x}"

text \<open>A worker reads the recorded quota \<open>r\<close>, or its default without one, as a limit of at most \<open>C\<close>.\<close>

definition limits_to :: "quota_config \<Rightarrow> string option \<Rightarrow> int \<Rightarrow> bool" where
  "limits_to q r C \<longleftrightarrow>
     (case (case r of Some raw \<Rightarrow> int_of_text q raw
            | None \<Rightarrow> if env_max_running q = [] then None else parse_quota_default q (env_max_running q)) of
        None \<Rightarrow> False
      | Some c \<Rightarrow> 0 < c \<and> c \<le> C)"

definition within_quota :: "'s slot_redis \<Rightarrow> quota_config set \<Rightarrow> string option \<Rightarrow> int \<Rightarrow> 's \<Rightarrow> bool" where
  "within_quota Z Q t C s \<longleftrightarrow> (\<forall>q\<in>Q. limits_to q (hget Z TENANT_QUOTA_KEY (or_default t) s) C)
     \<and> int (card (members Z (tenant_running_key t) s)) \<le> C"

lemma unit_ttl: "0 < unit_per_second q \<Longrightarrow> 0 < max (unit_per_second q) (running_entry_ttl q)"
  by simp

lemma slot_expiry_positive: "0 < unit_per_second q \<Longrightarrow> 0 < ttl \<Longrightarrow> 0 < slot_expiry q ttl"
  by (simp add: slot_expiry_def pos_imp_zdiv_nonneg_iff add_nonneg_pos)

context slot_server
begin

lemma admit_script_result:
  assumes "0 < unit_per_second q" and "0 < ttl" and "admit_script Z q k now ttl cap m s = (b, s')"
  shows "(b \<longleftrightarrow> m \<in> live Z k now s \<or> int (card (live Z k now s)) < cap)
    \<and> members Z k s' = (if b then insert m (live Z k now s) else live Z k now s)
    \<and> live Z k now s' = members Z k s'"
proof -
  let ?s1 = "zremrangebyscore Z k now s"
  note pos = slot_expiry_positive [OF assms(1,2)]
  have mem: "members Z k ?s1 = live Z k now s" by (simp add: members_purge live_def)
  then have score: "zscore Z k m ?s1 \<noteq> None \<longleftrightarrow> m \<in> live Z k now s" by (auto simp: members_def)
  have live1: "live Z k now ?s1 = live Z k now s"
    by (auto simp: live_def score_purged)
  have took: "members Z k (zexpire Z k (slot_expiry q ttl) (zadd Z k (now + ttl) m ?s1)) = insert m (live Z k now s)"
    using pos by (simp add: members_zadd mem)
  have live2: "live Z k now (zexpire Z k (slot_expiry q ttl) (zadd Z k (now + ttl) m ?s1)) = insert m (live Z k now s)"
    using pos assms(2) live1 by (auto simp: live_def score_expire score_zadd)
  consider "m \<in> live Z k now s" | "m \<notin> live Z k now s" "cap \<le> int (card (live Z k now s))"
    | "m \<notin> live Z k now s" "int (card (live Z k now s)) < cap" by linarith
  then show ?thesis
    using assms(3) score mem live1 took live2 by cases (auto simp: admit_script_def Let_def)
qed

text \<open>The slots and the quota after one step.\<close>

lemma quota_of_publish:
  "hget Z TENANT_QUOTA_KEY n (publish_tenant_quota (Some Z) w (Some n') v s) =
     (if n = n' \<and> n \<noteq> [] \<and> w \<noteq> First_Lost then v else hget Z TENANT_QUOTA_KEY n s)"
  by (cases v) (auto simp: publish_tenant_quota_def hget_hset hget_hdel)

lemma publish_slots [simp]: "members Z k (publish_tenant_quota (Some Z) w (Some n) v s) = members Z k s"
  by (cases v) (auto simp: publish_tenant_quota_def members_def score_hash)

lemma within_smaller:
  assumes "within_quota Z Q t C s" and "members Z (tenant_running_key t) s' \<subseteq> members Z (tenant_running_key t) s"
    and "hget Z TENANT_QUOTA_KEY (or_default t) s' = hget Z TENANT_QUOTA_KEY (or_default t) s"
  shows "within_quota Z Q t C s'"
proof -
  have "card (members Z (tenant_running_key t) s') \<le> card (members Z (tenant_running_key t) s)"
    using assms(2) by (simp add: card_mono)
  then show ?thesis using assms(1,3) by (simp add: within_quota_def)
qed

lemma max_running_within:
  assumes "limits_to q (hget Z TENANT_QUOTA_KEY (or_default t) s) C" and "tenant_max_running (Some Z) q w t s = Some c"
  shows "c \<le> C"
  using assms by (auto simp: limits_to_def tenant_max_running_def split: if_splits option.splits)

lemma admit_hash: "hget Z TENANT_QUOTA_KEY f (snd (admit_script Z q (tenant_running_key t) now ttl cap m s)) = hget Z TENANT_QUOTA_KEY f s"
  by (simp add: admit_script_def Let_def hget_slots)

lemma admit_other_set:
  assumes "k \<noteq> k'" and "0 < unit_per_second q" and "0 < ttl"
  shows "members Z k (snd (admit_script Z q k' now ttl cap m s)) = members Z k s"
  using assms slot_expiry_positive [OF assms(2,3)]
  by (simp add: admit_script_def Let_def members_zadd) (simp add: members_def score_purge split: option.split)

lemma admit_card:
  assumes "0 < unit_per_second q" and "0 < ttl" and "cap \<le> C" and "int (card (members Z k s)) \<le> C"
  shows "int (card (members Z k (snd (admit_script Z q k now ttl cap m s)))) \<le> C"
proof -
  obtain b s' where r: "admit_script Z q k now ttl cap m s = (b, s')" by (cases "admit_script Z q k now ttl cap m s")
  note res = admit_script_result [OF assms(1,2) r]
  have sub: "live Z k now s \<subseteq> members Z k s" by (auto simp: live_def members_def)
  then have fin: "finite (live Z k now s)" by (rule finite_subset) simp
  have le: "card (live Z k now s) \<le> card (members Z k s)" using sub by (simp add: card_mono)
  show ?thesis
  proof (cases "b \<and> m \<notin> live Z k now s")
    case True
    then have "int (card (live Z k now s)) < C" using res assms(3) by linarith
    then show ?thesis using True res r fin by simp
  next
    case False
    then have "members Z k s' = live Z k now s" using res by (auto simp: insert_absorb)
    then show ?thesis using r le assms(4) by simp
  qed
qed

lemma try_admit_cases:
  assumes "try_admit_tenant_start (Some Z) q w t eid now s = (b, s')"
  obtains "s' = s"
  | m cap where "tenant_max_running (Some Z) q w t s = Some cap"
      and "s' = snd (admit_script Z q (tenant_running_key t) now (max (unit_per_second q) (running_entry_ttl q)) cap m s)"
proof (cases "eid = None \<or> eid = Some [] \<or> tenant_max_running (Some Z) q w t s = None \<or> w = Second_Lost")
  case True
  then show thesis using assms by (intro that(1)) (auto simp: try_admit_tenant_start_def Let_def split: option.splits if_splits)
next
  case False
  then obtain m cap where "eid = Some m" "m \<noteq> []" and cap: "tenant_max_running (Some Z) q w t s = Some cap" and "w \<noteq> Second_Lost"
    by auto
  then show thesis using assms by (intro that(2) [OF cap, of m]) (auto simp: try_admit_tenant_start_def Let_def split: if_splits)
qed

lemma quota_step_within:
  assumes "quota_step Z Q P s s'" and "within_quota Z Q t C s" and "\<forall>q\<in>Q. 0 < unit_per_second q"
    and "\<forall>v q. (or_default t, v) \<in> P \<longrightarrow> q \<in> Q \<longrightarrow> limits_to q v C"
  shows "within_quota Z Q t C s'"
  using assms(1)
proof cases
  case (q_admit q w t' eid now b)
  from q_admit(2) show ?thesis
  proof (cases rule: try_admit_cases)
    case 1
    then show ?thesis using assms(2) by simp
  next
    case (2 m cap)
    have pos: "0 < unit_per_second q" "0 < max (unit_per_second q) (running_entry_ttl q)" using assms(3) q_admit(1) by auto
    have card: "int (card (members Z (tenant_running_key t) s')) \<le> C"
    proof (cases "or_default t = or_default t'")
      case True
      then have "cap \<le> C" using max_running_within [OF _ 2(1)] assms(2) q_admit(1) by (simp add: within_quota_def)
      then show ?thesis using admit_card [OF pos] assms(2) 2(2) True by (simp add: within_quota_def tenant_running_key_def)
    next
      case False
      then show ?thesis using admit_other_set [OF _ pos] assms(2) 2(2) by (simp add: within_quota_def)
    qed
    then show ?thesis using assms(2) 2(2) by (simp add: within_quota_def admit_hash)
  qed
next
  case (q_release w t' eid)
  then show ?thesis using within_smaller [OF assms(2), of s'] members_zrem_sub
    by (auto simp: release_tenant_start_def hget_slots split: option.splits)
next
  case (q_count w t' now n)
  then show ?thesis using within_smaller [OF assms(2), of s'] members_purge_sub
    by (auto simp: tenant_running_count_def purge_expired_def Let_def hget_slots split: if_splits)
next
  case (q_publish n v w)
  then show ?thesis using assms(2,4) by (auto simp: within_quota_def quota_of_publish publish_slots)
next
  case (q_pass dt)
  then show ?thesis using within_smaller [OF assms(2), of s'] members_pass_sub by (simp add: hget_pass)
qed

lemma quota_steps_within:
  assumes "(quota_step Z Q P)\<^sup>*\<^sup>* s s'" and "within_quota Z Q t C s" and "\<forall>q\<in>Q. 0 < unit_per_second q"
    and "\<forall>v q. (or_default t, v) \<in> P \<longrightarrow> q \<in> Q \<longrightarrow> limits_to q v C"
  shows "within_quota Z Q t C s'"
  using assms(1) by (induction rule: rtranclp_induct) (use assms(2) quota_step_within [OF _ _ assms(3,4)] in blast)+

end

section \<open>A server\<close>

text \<open>The sets and hashes as association lists; a set with a time to live is dropped when it has run out.\<close>

record zs_store =
  zs_slots :: "((string \<times> string) \<times> int) list"
  zs_hash :: "((string \<times> string) \<times> string) list"
  zs_expire :: "(string \<times> int) list"

definition keep_keys :: "('a \<Rightarrow> bool) \<Rightarrow> ('a \<times> 'b) list \<Rightarrow> ('a \<times> 'b) list" where
  "keep_keys p xs = filter (\<lambda>e. p (fst e)) xs"

lemma map_of_keep_keys [simp]: "map_of (keep_keys p xs) x = (if p x then map_of xs x else None)"
  unfolding keep_keys_def by (induction xs) auto

definition zs_members :: "string \<Rightarrow> zs_store \<Rightarrow> string list" where
  "zs_members k s = remdups (map (snd \<circ> fst) (keep_keys (\<lambda>p. fst p = k) (zs_slots s)))"

definition lapsed :: "zs_store \<Rightarrow> string \<times> string \<Rightarrow> int \<Rightarrow> bool" where
  "lapsed s p t = (case map_of (zs_slots s) p of Some x \<Rightarrow> x \<le> t | None \<Rightarrow> False)"

definition run_out :: "zs_store \<Rightarrow> int \<Rightarrow> string \<Rightarrow> bool" where
  "run_out s dt k = (case map_of (zs_expire s) k of Some t \<Rightarrow> t \<le> dt | None \<Rightarrow> False)"

definition zs_redis :: "zs_store slot_redis" where
  "zs_redis =
     \<lparr>zscore = (\<lambda>k m s. map_of (zs_slots s) (k, m)),
      zcard = (\<lambda>k s. length (zs_members k s)),
      zadd = (\<lambda>k x m s. s\<lparr>zs_slots := AList.update (k, m) x (zs_slots s)\<rparr>),
      zrem = (\<lambda>k m s. s\<lparr>zs_slots := keep_keys (\<lambda>p. p \<noteq> (k, m)) (zs_slots s)\<rparr>),
      zremrangebyscore = (\<lambda>k t s. s\<lparr>zs_slots := keep_keys (\<lambda>p. fst p \<noteq> k \<or> \<not> lapsed s p t) (zs_slots s)\<rparr>),
      zexpire = (\<lambda>k t s. s\<lparr>zs_expire := AList.update k t (zs_expire s)\<rparr>),
      hget = (\<lambda>h f s. map_of (zs_hash s) (h, f)),
      hset = (\<lambda>h f v s. s\<lparr>zs_hash := AList.update (h, f) v (zs_hash s)\<rparr>),
      hdel = (\<lambda>h f s. s\<lparr>zs_hash := keep_keys (\<lambda>p. p \<noteq> (h, f)) (zs_hash s)\<rparr>),
      zpass = (\<lambda>dt s. s\<lparr>zs_slots := keep_keys (\<lambda>p. \<not> run_out s dt (fst p)) (zs_slots s),
                       zs_expire := map (\<lambda>e. (fst e, snd e - dt)) (keep_keys (\<lambda>k. \<not> run_out s dt k) (zs_expire s))\<rparr>)\<rparr>"

lemma zs_members_set: "set (zs_members k s) = members zs_redis k s"
proof -
  have "m \<in> set (zs_members k s) \<longleftrightarrow> (k, m) \<in> fst ` set (zs_slots s)" for m
    by (force simp: zs_members_def keep_keys_def)
  moreover have "(k, m) \<in> fst ` set (zs_slots s) \<longleftrightarrow> map_of (zs_slots s) (k, m) \<noteq> None" for m
    by (simp add: map_of_eq_None_iff)
  ultimately show ?thesis by (auto simp: members_def zs_redis_def)
qed

interpretation zs: slot_server zs_redis
proof
  fix k and s :: zs_store
  show "finite (members zs_redis k s) \<and> zcard zs_redis k s = card (members zs_redis k s)"
    unfolding zs_members_set [symmetric] by (simp add: zs_redis_def distinct_card [symmetric] zs_members_def del: set_remdups)
next
  fix k dt and s :: zs_store
  show "(\<forall>m. zscore zs_redis k m (zpass zs_redis dt s) = zscore zs_redis k m s) \<or>
      (\<forall>m. zscore zs_redis k m (zpass zs_redis dt s) = None)"
    by (cases "run_out s dt k") (simp_all add: zs_redis_def)
qed (auto simp: zs_redis_def update_conv' lapsed_def split: option.splits)

section \<open>Properties\<close>

text \<open>
  Property C28. The bound on the running starts of a tenant holds: as long as every limit its workers read is at most \<open>C\<close>, no
  interleaving of starts, releases, counts and quota changes of any tenants by any workers, with any clocks, lost connections and
  expiries, leaves more than \<open>C\<close> slots taken.
\<close>

theorem slots_never_exceed_cap:
  assumes "slot_server Z" and "within_quota Z Q t C s" and "(quota_step Z Q P)\<^sup>*\<^sup>* s s'" and "\<forall>q\<in>Q. 0 < unit_per_second q"
    and "\<forall>v q. (or_default t, v) \<in> P \<longrightarrow> q \<in> Q \<longrightarrow> limits_to q v C"
  shows "int (card (members Z (tenant_running_key t) s')) \<le> C"
  using slot_server.quota_steps_within [OF assms(1,3,2,4,5)] by (simp add: within_quota_def)

text \<open>
  The decision of a start under a quota: it is admitted exactly when its execution holds a slot which has not lapsed or
  fewer than the quota are held; afterwards the slots are those which had not lapsed, with its own when it is admitted.
\<close>

theorem admission_decision:
  assumes "slot_server Z" and "0 < unit_per_second q" and "tenant_max_running (Some Z) q No_Fault t s = Some cap" and "m \<noteq> []"
    and "try_admit_tenant_start (Some Z) q No_Fault t (Some m) now s = (b, s')"
    and "held = live Z (tenant_running_key t) now s"
  shows "(b \<longleftrightarrow> m \<in> held \<or> int (card held) < cap)
    \<and> members Z (tenant_running_key t) s' = (if b then insert m held else held)"
proof -
  have "admit_script Z q (tenant_running_key t) now (max (unit_per_second q) (running_entry_ttl q)) cap m s = (b, s')"
    using assms(3-5) by (simp add: try_admit_tenant_start_def Let_def)
  then show ?thesis
    using slot_server.admit_script_result [OF assms(1,2) unit_ttl [OF assms(2)]] assms(6) by metis
qed

section \<open>Witnesses\<close>

text \<open>Two starts, one slot.\<close>

definition digit_config :: quota_config where
  "digit_config = \<lparr>env_max_running = ''1'', env_ttl = [], int_of_text = (\<lambda>x. if x = ''1'' then Some 1 else None),
     strict_int_of_text = (\<lambda>x. if x = ''1'' then Some 1 else None), seconds_of_text = (\<lambda>_. None), unit_per_second = 1\<rparr>"

definition no_slots :: zs_store where
  "no_slots = \<lparr>zs_slots = [], zs_hash = [], zs_expire = []\<rparr>"

definition one_slot :: zs_store where
  "one_slot = \<lparr>zs_slots = [((tenant_running_key None, ''e1''), 86410)], zs_hash = [], zs_expire = [(tenant_running_key None, 86460)]\<rparr>"

lemma first_start: "try_admit_tenant_start (Some zs_redis) digit_config No_Fault None (Some ''e1'') 10 no_slots = (True, one_slot)"
  by code_simp

lemma second_start: "try_admit_tenant_start (Some zs_redis) digit_config No_Fault None (Some ''e2'') 20 one_slot = (False, one_slot)"
  by code_simp

lemma one_slot_live: "live zs_redis (tenant_running_key None) 20 one_slot = {''e1''}"
  by (auto simp: live_def zs_redis_def one_slot_def split: if_splits)

theorem slots_never_exceed_cap_witness:
  "int (card (members zs_redis (tenant_running_key None) one_slot)) \<le> 1"
proof -
  have start: "within_quota zs_redis {digit_config} None 1 no_slots"
    by (simp add: within_quota_def limits_to_def members_def zs_redis_def no_slots_def digit_config_def parse_quota_default_def)
  have "quota_step zs_redis {digit_config} {} no_slots one_slot"
    by (rule q_admit [OF _ first_start]) simp
  then have steps: "(quota_step zs_redis {digit_config} {})\<^sup>*\<^sup>* no_slots one_slot" by blast
  show ?thesis
    by (rule slots_never_exceed_cap [OF zs.slot_server_axioms start steps]) (simp_all add: digit_config_def)
qed

theorem admission_decision_witness:
  "members zs_redis (tenant_running_key None) one_slot = {''e1''}
    \<and> \<not> fst (try_admit_tenant_start (Some zs_redis) digit_config No_Fault None (Some ''e2'') 20 one_slot)"
proof -
  have cap: "tenant_max_running (Some zs_redis) digit_config No_Fault None one_slot = Some 1" by code_simp
  show ?thesis
    using admission_decision [OF zs.slot_server_axioms _ cap _ second_start refl] second_start
    by (simp add: one_slot_live digit_config_def)
qed

end
