(* ===== verification/Py_Text.thy ===== *)
theory Py_Text
  imports Flow_Nodes Redis_Store
begin

text \<open>
  Numbers and the texts the program writes for them: \<open>int(str(i))\<close> is \<open>i\<close>, up to the 4300 digits that Python
  converts.
\<close>

declare nat_str.simps [simp del]

lemma str_strip_plain: "list_all (\<lambda>c. \<not> is_space c) s \<Longrightarrow> str_strip s = s"
proof -
  have "\<forall>c \<in> set s. \<not> is_space c \<Longrightarrow> dropWhile is_space s = s" for s by (cases s) auto
  from this [of s] this [of "rev s"] show "list_all (\<lambda>c. \<not> is_space c) s \<Longrightarrow> ?thesis"
    by (simp add: str_strip_def list_all_iff)
qed

lemma foldl_digits_int: "foldl (\<lambda>a c. a * 10 + (of_char c - 48)) (0 :: int) (nat_str n) = int n"
proof (induction n rule: nat_str.induct)
  case (1 n)
  have d: "d < 10 \<Longrightarrow> of_char (char_of (48 + d) :: char) = (48 + int d)" for d :: nat
    using of_nat_of_char [of "char_of (48 + d)", where 'a = int] by (simp add: of_char_of)
  from 1 show ?case by (subst nat_str.simps) (simp add: d, presburger?)
qed

lemma digits_int_nat_str: "length (nat_str n) \<le> 4300 \<Longrightarrow> digits_int (nat_str n) = Some (int n)"
  by (simp add: digits_int_def nat_str_digits foldl_digits_int)

lemma underscores_digits: "s \<noteq> [] \<Longrightarrow> list_all ascii_digit s \<Longrightarrow> underscores_ok s"
  by (induction s rule: underscores_ok.induct) (auto simp: ascii_digit_def)

lemma digit_not: "ascii_digit c \<Longrightarrow> \<not> is_space c \<and> c \<noteq> CHR ''_'' \<and> c \<noteq> CHR ''-'' \<and> c \<noteq> CHR ''+''"
  by (auto simp: ascii_digit_def is_space_def Let_def)

lemma py_int_int_str:
  assumes "length (int_str v) \<le> 4300"
  shows "py_int (int_str v) = Inr v" and "str_strip (int_str v) = int_str v"
proof -
  let ?d = "nat_str (nat \<bar>v\<bar>)"
  have v: "int_str v = (if v < 0 then CHR ''-'' # ?d else ?d)" by (simp add: int_str_def)
  have dig: "list_all ascii_digit ?d" by (rule nat_str_digits)
  then have plain: "list_all (\<lambda>c. \<not> is_space c \<and> c \<noteq> CHR ''_'' \<and> c \<noteq> CHR ''-'' \<and> c \<noteq> CHR ''+'') ?d"
    using digit_not by (auto simp: list_all_iff)
  have m: "\<not> is_space CHR ''-''" by (simp add: is_space_def)
  with plain show strip: "str_strip (int_str v) = int_str v"
    by (intro str_strip_plain) (auto simp: v list_all_iff)
  have u: "underscores_ok ?d" by (rule underscores_digits [OF nat_str_nonempty dig])
  have f: "filter (\<lambda>c. c \<noteq> CHR ''_'') ?d = ?d" using plain by (auto simp: list_all_iff filter_id_conv)
  have n: "digits_int ?d = Some \<bar>v\<bar>" using assms digits_int_nat_str [of "nat \<bar>v\<bar>"] by (auto simp: v split: if_splits)
  have sign: "(case ?d of c # r \<Rightarrow> if c = CHR ''-'' then (- 1, r) else if c = CHR ''+'' then (1, r) else (1, ?d) | [] \<Rightarrow> (1, ?d)) = (1 :: int, ?d)"
    using plain by (cases ?d) auto
  show "py_int (int_str v) = Inr v"
    unfolding py_int_def strip unfolding v
    by (cases "v < 0") (simp_all only: if_True if_False list.case Let_def prod.case sign u f n option.case simp_thms, simp_all)
qed

text \<open>Functions that recurse in the rest of a sequence of results declare this rule.\<close>

lemma rbind_cong_Inr: "r = r' \<Longrightarrow> (\<And>x. r' = Inr x \<Longrightarrow> f x = g x) \<Longrightarrow> rbind r f = rbind r' g"
  by (cases r') auto

end
