(* ===== verification/Task_Envelope.thy ===== *)
theory Task_Envelope
  imports Py_Text
begin

text \<open>
  The messages of the task queue, \<^verbatim>\<open>plaita/server/task_queue.py\<close>: the fields that \<^verbatim>\<open>enqueue_task\<close> writes, and the task
  that a reader makes of them.  A field that is absent, or cannot be read, falls back to what it meant before it was
  introduced.  What is enqueued is read back unchanged (\<open>enqueued_task_is_read_back\<close>).  \<open>json\<close> and the test for
  an ISO time are arguments.
\<close>

section \<open>Messages\<close>

record fields =
  f_payload :: "string option"
  f_schema :: "string option"
  f_max_deliveries :: "string option"
  f_generation :: "string option"

record stream_task =
  st_id :: nat
  st_body :: "pyval dict"
  st_delivery_count :: nat
  st_schema :: int
  st_schema_rejected :: bool
  st_max_deliveries :: "int option"
  st_generation :: "string option"

definition TASK_SCHEMA_VERSION :: int where
  "TASK_SCHEMA_VERSION = 1"

definition LEGACY_TASK_SCHEMA_VERSION :: int where
  "LEGACY_TASK_SCHEMA_VERSION = 1"

definition schema_version_from_fields :: "fields \<Rightarrow> int" where
  "schema_version_from_fields f =
     (case f_schema f of
        None \<Rightarrow> LEGACY_TASK_SCHEMA_VERSION
      | Some t \<Rightarrow> (case py_int t of Inl _ \<Rightarrow> LEGACY_TASK_SCHEMA_VERSION | Inr v \<Rightarrow> v))"

definition tenant_generation_from_fields :: "fields \<Rightarrow> string option" where
  "tenant_generation_from_fields f =
     (case f_generation f of None \<Rightarrow> None | Some t \<Rightarrow> (let v = str_strip t in if v = [] then None else Some v))"

definition max_deliveries_from_fields :: "fields \<Rightarrow> int option" where
  "max_deliveries_from_fields f =
     (case f_max_deliveries f of
        None \<Rightarrow> None
      | Some t \<Rightarrow> (case py_int (str_strip t) of Inl _ \<Rightarrow> None | Inr v \<Rightarrow> if v \<ge> 1 then Some v else None))"

text \<open>\<open>_task_from_fields\<close>; nothing is an invalid payload.\<close>

definition task_from_fields :: "(string \<Rightarrow> pyval option) \<Rightarrow> nat \<Rightarrow> fields \<Rightarrow> nat \<Rightarrow> stream_task option" where
  "task_from_fields loads i f n =
     (case Option.bind (f_payload f) loads of
        Some (PDict d) \<Rightarrow>
          Some \<lparr>st_id = i, st_body = d, st_delivery_count = n, st_schema = schema_version_from_fields f, st_schema_rejected = False,
                st_max_deliveries = max_deliveries_from_fields f, st_generation = tenant_generation_from_fields f\<rparr>
      | _ \<Rightarrow> None)"

section \<open>Writing a message\<close>

text \<open>
  \<open>enqueue_task\<close>: \<open>json.dumps\<close>, the test for an ISO time, the clock and the budget of the environment are
  arguments.  The budget may be left to the environment, left out, or given.
\<close>

datatype budget_arg = From_Environment | Given_Budget "int option"

record enqueue_args =
  ea_schema :: "int option"
  ea_timestamp :: "string option"
  ea_budget :: budget_arg
  ea_generation :: "string option"

definition carrier_timestamp_missing :: "pyval dict \<Rightarrow> bool" where
  "carrier_timestamp_missing d = (case pget d ''timestamp'' PNone of PStr t \<Rightarrow> str_strip t = [] | _ \<Rightarrow> True)"

definition valid_iso_timestamp :: "(string \<Rightarrow> bool) \<Rightarrow> string option \<Rightarrow> string option" where
  "valid_iso_timestamp isotime v =
     (case v of None \<Rightarrow> None | Some t \<Rightarrow> if str_strip t = [] \<or> \<not> isotime (str_strip t) then None else Some (str_strip t))"

definition stamped :: "(string \<Rightarrow> bool) \<Rightarrow> string \<Rightarrow> string option \<Rightarrow> pyval dict \<Rightarrow> pyval dict" where
  "stamped isotime now ts d =
     (if carrier_timestamp_missing d
      then dict_set ''timestamp'' (PStr (case valid_iso_timestamp isotime ts of Some t \<Rightarrow> t | None \<Rightarrow> now)) d else d)"

definition enqueue_fields :: "(pyval dict \<Rightarrow> string) \<Rightarrow> (string \<Rightarrow> bool) \<Rightarrow> string \<Rightarrow> int \<Rightarrow> enqueue_args \<Rightarrow> pyval dict \<Rightarrow> fields" where
  "enqueue_fields dumps isotime now env_budget a d =
     \<lparr>f_payload = Some (dumps (stamped isotime now (ea_timestamp a) d)),
      f_schema = Some (int_str (case ea_schema a of None \<Rightarrow> TASK_SCHEMA_VERSION | Some v \<Rightarrow> v)),
      f_max_deliveries = map_option int_str (case ea_budget a of From_Environment \<Rightarrow> Some env_budget | Given_Budget b \<Rightarrow> b),
      f_generation = ea_generation a\<rparr>"

section \<open>What is enqueued is read back\<close>

lemma dropWhile_only: "(\<forall>x \<in> set (dropWhile P xs). P x) \<longleftrightarrow> dropWhile P xs = []"
  by (metis dropWhile_eq_Nil_conv empty_iff hd_dropWhile list.set(1) list.set_sel(1))

lemma strip_twice: "str_strip s \<noteq> [] \<Longrightarrow> str_strip (str_strip s) \<noteq> []"
proof -
  assume a: "str_strip s \<noteq> []"
  let ?w = "dropWhile is_space (rev (dropWhile is_space s))"
  from a have w: "?w \<noteq> []" by (simp add: str_strip_def)
  then have "hd ?w \<in> set (str_strip s)" "\<not> is_space (hd ?w)"
    by (simp_all add: str_strip_def hd_dropWhile del: dropWhile_eq_Nil_conv)
  then have "dropWhile is_space (str_strip s) \<noteq> []" by (auto simp: dropWhile_eq_Nil_conv)
  then show ?thesis
    using dropWhile_only [of is_space "str_strip s"] by (auto simp: str_strip_def [of "str_strip s"] dropWhile_eq_Nil_conv)
qed

lemma stamped_timestamp:
  "str_strip now \<noteq> [] \<Longrightarrow> \<not> carrier_timestamp_missing (stamped isotime now ts d)"
  by (auto simp: stamped_def carrier_timestamp_missing_def valid_iso_timestamp_def strip_twice split: option.splits)

text \<open>
  Property C17.  A task that is enqueued is read back, if the JSON library reads back the body it wrote and the numbers have at most
  4300 characters (Python refuses to convert longer ones): with that body, which then carries a time; with the schema version it was given,
  or the current one; with the budget it was given, or that of the producer, but a budget below one is read as none;
  and with the generation it was given without the blanks around it, a blank one being read as none.
\<close>

theorem enqueued_task_is_read_back:
  assumes "loads (dumps (stamped isotime now (ea_timestamp a) d)) = Some (PDict (stamped isotime now (ea_timestamp a) d))"
    and "str_strip now \<noteq> []"
    and "v = (case ea_schema a of None \<Rightarrow> TASK_SCHEMA_VERSION | Some v \<Rightarrow> v)"
    and "m = (case ea_budget a of From_Environment \<Rightarrow> Some env_budget | Given_Budget b \<Rightarrow> b)"
    and "length (int_str v) \<le> 4300"
    and "\<And>b. m = Some b \<Longrightarrow> length (int_str b) \<le> 4300"
  shows "task_from_fields loads i (enqueue_fields dumps isotime now env_budget a d) n =
      Some \<lparr>st_id = i, st_body = stamped isotime now (ea_timestamp a) d, st_delivery_count = n, st_schema = v, st_schema_rejected = False,
            st_max_deliveries = (case m of Some b \<Rightarrow> if 1 \<le> b then Some b else None | None \<Rightarrow> None),
            st_generation = (case ea_generation a of Some g \<Rightarrow> if str_strip g = [] then None else Some (str_strip g) | None \<Rightarrow> None)\<rparr>
    \<and> \<not> carrier_timestamp_missing (stamped isotime now (ea_timestamp a) d)"
  using assms(1,5,6) stamped_timestamp [OF assms(2)] unfolding assms(3,4)
  by (auto simp: task_from_fields_def enqueue_fields_def schema_version_from_fields_def max_deliveries_from_fields_def
      tenant_generation_from_fields_def Let_def py_int_int_str split: option.splits budget_arg.splits)

text \<open>A start without a time, under the budget of the producer.\<close>

definition ex_args :: enqueue_args where
  "ex_args = \<lparr>ea_schema = None, ea_timestamp = Some ''yesterday'', ea_budget = From_Environment, ea_generation = Some ''g1''\<rparr>"

definition ex_stamped :: "pyval dict" where
  "ex_stamped = [(''task'', PStr ''start''), (''timestamp'', PStr ''2026-10-01'')]"

lemma ex_stamped: "stamped (\<lambda>_. False) ''2026-10-01'' (ea_timestamp ex_args) [(''task'', PStr ''start'')] = ex_stamped"
  by code_simp

theorem enqueued_task_is_read_back_witness:
  "task_from_fields (\<lambda>_. Some (PDict ex_stamped)) 7
      (enqueue_fields (\<lambda>_. ''json'') (\<lambda>_. False) ''2026-10-01'' 5 ex_args [(''task'', PStr ''start'')]) 1 =
    Some \<lparr>st_id = 7, st_body = ex_stamped, st_delivery_count = 1, st_schema = 1, st_schema_rejected = False,
      st_max_deliveries = Some 5, st_generation = Some ''g1''\<rparr>"
proof -
  have strings: "length (int_str 1) \<le> 4300" "length (int_str 5) \<le> 4300" "str_strip ''2026-10-01'' \<noteq> []" "str_strip ''g1'' = ''g1''"
    by code_simp+
  show ?thesis
    using enqueued_task_is_read_back [of "\<lambda>_. Some (PDict ex_stamped)" "\<lambda>_. ''json''" "\<lambda>_. False" "''2026-10-01''" ex_args
        "[(''task'', PStr ''start'')]" 1 "Some 5" 5 7 1] strings
    by (simp add: ex_stamped) (simp add: ex_args_def TASK_SCHEMA_VERSION_def)
qed

end
