(* ===== verification/Task_Queue.thy ===== *)
theory Task_Queue
  imports Task_Envelope "HOL-Library.AList"
begin

text \<open>
  \<^verbatim>\<open>plaita/server/task_queue.py\<close>: the queue of start and resume tasks, a Redis stream with one consumer group, whose
  pending entries are reclaimed from consumers that died and moved to a dead-letter stream when their deliveries
  are used up.  The server is an argument: the locale \<open>stream_server\<close> states the documented behaviour of
  the commands on streams, and \<open>ms_ops\<close> satisfies it.  Stream ids are numbers.  Every command may be lost
  (\<open>down\<close> names those that are, during one operation); a loss raises one of the transient errors, on which the
  consumer backs off.  Guards, the write gate and the quota of tenants (\<^verbatim>\<open>server/tenant_status.py\<close>,
  \<^verbatim>\<open>server/tenant_dlq_quota.py\<close>) and \<open>json\<close> are arguments.  An operation of the queue is not interleaved with
  those of other consumers.  Log output, the alert hook and the metrics other than the log of events are left out, as
  is the creation of the group with its checks at the start.
\<close>

declare nat_str.simps [simp del]

section \<open>Dead letters\<close>

definition INVALID_PAYLOAD_MAX_CHARS :: nat where
  "INVALID_PAYLOAD_MAX_CHARS = 500"

text \<open>
  A dead-letter envelope.  That of an invalid payload holds the text with a mark whether it was cut, and the fields.
\<close>

datatype dl_reason = Max_Deliveries int | Unsupported_Schema int | Invalid_Payload | Given string

datatype dl_payload = Body "pyval dict" | Raw string bool fields

definition cut_fields :: "fields \<Rightarrow> fields" where
  "cut_fields f =
     \<lparr>f_payload = map_option (take INVALID_PAYLOAD_MAX_CHARS) (f_payload f), f_schema = map_option (take INVALID_PAYLOAD_MAX_CHARS) (f_schema f),
      f_max_deliveries = map_option (take INVALID_PAYLOAD_MAX_CHARS) (f_max_deliveries f),
      f_generation = map_option (take INVALID_PAYLOAD_MAX_CHARS) (f_generation f)\<rparr>"

record envelope =
  en_reason :: dl_reason
  en_source :: nat
  en_delivery_count :: nat
  en_schema :: int
  en_max_deliveries :: "int option"
  en_generation :: "string option"
  en_rejected :: "string option"
  en_payload :: dl_payload

section \<open>The server\<close>

record 's stream_ops =
  sx_add :: "fields \<Rightarrow> 's \<Rightarrow> nat \<times> 's"
  sx_entry :: "nat \<Rightarrow> 's \<Rightarrow> fields option"
  sx_range :: "nat \<Rightarrow> nat \<Rightarrow> 's \<Rightarrow> nat list"
  sx_last_delivered :: "'s \<Rightarrow> nat"
  sx_readgroup :: "'s \<Rightarrow> (nat \<times> fields) option \<times> 's"
  sx_pending :: "'s \<Rightarrow> (nat \<times> nat \<times> nat) list"
  sx_claim :: "nat \<Rightarrow> nat \<Rightarrow> 's \<Rightarrow> fields option \<times> 's"
  sx_ack :: "nat \<Rightarrow> 's \<Rightarrow> bool \<times> 's"
  sx_del :: "nat \<Rightarrow> 's \<Rightarrow> 's"
  sx_dlq :: "envelope \<Rightarrow> 's \<Rightarrow> 's"
  sx_quarantine :: "string \<Rightarrow> envelope \<Rightarrow> 's \<Rightarrow> 's"
  sx_pass :: "nat \<Rightarrow> 's \<Rightarrow> 's"

text \<open>
  \<open>sx_pending\<close> lists id, idle time and deliveries of the pending entries in the order of their ids, from which XPENDING
  selects a range and a count; \<open>sx_range last n\<close> the first \<open>n\<close> ids up to \<open>last\<close>; \<open>sx_dlq\<close> and \<open>sx_quarantine\<close>
  add an envelope and trim the stream they write to.
\<close>

definition pending_range :: "'s stream_ops \<Rightarrow> nat option \<Rightarrow> nat \<Rightarrow> 's \<Rightarrow> (nat \<times> nat \<times> nat) list" where
  "pending_range X from n s = take n (filter (\<lambda>e. case from of None \<Rightarrow> True | Some c \<Rightarrow> c \<le> fst e) (sx_pending X s))"

definition deliveries :: "'s stream_ops \<Rightarrow> nat \<Rightarrow> 's \<Rightarrow> nat option" where
  "deliveries X i s = map_option snd (map_of (sx_pending X s) i)"

locale stream_server =
  fixes X :: "'s stream_ops"
  assumes pending_sorted: "sorted_wrt (<) (map fst (sx_pending X s))"
    and add: "sx_add X f s = (i, s') \<Longrightarrow> sx_entry X i s = None \<and> sx_last_delivered X s < i \<and> sx_last_delivered X s' = sx_last_delivered X s
      \<and> (\<forall>k. sx_entry X k s' = (if k = i then Some f else sx_entry X k s)) \<and> sx_pending X s' = sx_pending X s"
    and readgroup_None: "sx_readgroup X s = (None, s') \<Longrightarrow> s' = s"
    and readgroup_Some: "sx_readgroup X s = (Some (i, f), s') \<Longrightarrow> sx_entry X i s = Some f \<and> sx_last_delivered X s < i
      \<and> sx_last_delivered X s' = i \<and> (\<forall>k. sx_last_delivered X s < k \<and> k < i \<longrightarrow> sx_entry X k s = None)
      \<and> (\<forall>k. sx_entry X k s' = sx_entry X k s) \<and> (\<forall>k. deliveries X k s' = (if k = i then Some 1 else deliveries X k s))"
    and claim_Some: "sx_claim X idle i s = (Some f, s') \<Longrightarrow> \<exists>d. deliveries X i s = Some d
      \<and> (\<forall>k. deliveries X k s' = (if k = i then Some (d + 1) else deliveries X k s))
      \<and> sx_entry X i s = Some f \<and> (\<forall>k. sx_entry X k s' = sx_entry X k s) \<and> sx_last_delivered X s' = sx_last_delivered X s"
    and claim_None: "sx_claim X idle i s = (None, s') \<Longrightarrow> sx_last_delivered X s' = sx_last_delivered X s \<and> (\<forall>k. sx_entry X k s' = sx_entry X k s)
      \<and> (\<forall>k. deliveries X k s' = deliveries X k s \<or> sx_entry X k s = None \<and> deliveries X k s' = None)"
    and claim_idle: "(i, t, d) \<in> set (sx_pending X s) \<Longrightarrow> idle \<le> t \<Longrightarrow> sx_entry X i s = Some f \<Longrightarrow> \<exists>s'. sx_claim X idle i s = (Some f, s')"
    and ack: "sx_ack X i s = (b, s') \<Longrightarrow> sx_last_delivered X s' = sx_last_delivered X s \<and> (\<forall>k. sx_entry X k s' = sx_entry X k s)
      \<and> (\<forall>k. deliveries X k s' = (if k = i then None else deliveries X k s))"
    and del: "sx_last_delivered X (sx_del X i s) = sx_last_delivered X s \<and> sx_pending X (sx_del X i s) = sx_pending X s
      \<and> (\<forall>k. sx_entry X k (sx_del X i s) = (if k = i then None else sx_entry X k s))"
    and letters: "sx_last_delivered X (sx_dlq X v s) = sx_last_delivered X s \<and> sx_pending X (sx_dlq X v s) = sx_pending X s
      \<and> (\<forall>k. sx_entry X k (sx_dlq X v s) = sx_entry X k s)"
      "sx_last_delivered X (sx_quarantine X tn v s) = sx_last_delivered X s \<and> sx_pending X (sx_quarantine X tn v s) = sx_pending X s
      \<and> (\<forall>k. sx_entry X k (sx_quarantine X tn v s) = sx_entry X k s)"
    and pass: "sx_last_delivered X (sx_pass X dt s) = sx_last_delivered X s \<and> (\<forall>k. sx_entry X k (sx_pass X dt s) = sx_entry X k s)
      \<and> (\<forall>k. deliveries X k (sx_pass X dt s) = deliveries X k s)"
    and range: "sorted_wrt (<) (sx_range X l n s)" "length (sx_range X l n s) \<le> n"
      "i \<in> set (sx_range X l n s) \<Longrightarrow> i \<le> l \<and> sx_entry X i s \<noteq> None"
      "sx_range X l n s \<noteq> [] \<Longrightarrow> i \<le> List.last (sx_range X l n s) \<Longrightarrow> sx_entry X i s \<noteq> None \<Longrightarrow> i \<in> set (sx_range X l n s)"

section \<open>The queue\<close>

datatype command = XADD_DLQ | XADD_QUARANTINE | XACK | XDEL | XPENDING | XCLAIM | XREADGROUP | XRANGE

text \<open>
  The configuration.  The guards answer nothing when they raise; the gate answers the reason of a refusal.
\<close>

record 's queue =
  q_ops :: "'s stream_ops"
  q_loads :: "string \<Rightarrow> pyval option"
  q_min_idle :: nat
  q_window :: nat
  q_max_deliveries :: int
  q_max_schema :: "int option"
  q_guard :: "(stream_task \<Rightarrow> 's \<Rightarrow> bool option) option"
  q_lease_guard :: "(pyval dict \<Rightarrow> 's \<Rightarrow> bool option) option"
  q_gate :: "pyval \<Rightarrow> string option \<Rightarrow> 's \<Rightarrow> string option"
  q_quota :: "(pyval \<Rightarrow> 's \<Rightarrow> bool) option"

datatype qevent = Enqueued nat fields | Delivered nat | Handed nat | Dead_Lettered nat | Quarantined nat | Acked nat | Worker_Acked nat

record 's qstate =
  qs_store :: 's
  qs_cursor :: "nat option"
  qs_log :: "qevent list"

definition log_event :: "qevent \<Rightarrow> 's qstate \<Rightarrow> 's qstate" where
  "log_event e q = q\<lparr>qs_log := e # qs_log q\<rparr>"

definition put_store :: "'s \<Rightarrow> 's qstate \<Rightarrow> 's qstate" where
  "put_store s q = q\<lparr>qs_store := s\<rparr>"

text \<open>An acknowledgement, false when it is lost; an entry that could not be deleted stays for the sweep.\<close>

definition queue_ack :: "'s queue \<Rightarrow> (command \<Rightarrow> bool) \<Rightarrow> qevent \<Rightarrow> nat \<Rightarrow> 's qstate \<Rightarrow> bool \<times> 's qstate" where
  "queue_ack Q down e i q =
     (if down XACK then (False, q)
      else (let (acked, s) = sx_ack (q_ops Q) i (qs_store q) in
            (True, log_event e (put_store (if acked \<and> \<not> down XDEL then sx_del (q_ops Q) i s else s) q))))"

definition EPISTEMIC_REJECT_REASONS :: "string list" where
  "EPISTEMIC_REJECT_REASONS = [''status_read_failed'', ''generation_read_failed'']"

definition is_epistemic_reject_reason :: "string \<Rightarrow> bool" where
  "is_epistemic_reject_reason r \<longleftrightarrow> r \<in> set EPISTEMIC_REJECT_REASONS"

definition envelope_of :: "dl_reason \<Rightarrow> dl_payload \<Rightarrow> string option \<Rightarrow> stream_task \<Rightarrow> envelope" where
  "envelope_of r p rejected t =
     \<lparr>en_reason = r, en_source = st_id t, en_delivery_count = st_delivery_count t, en_schema = st_schema t,
      en_max_deliveries = st_max_deliveries t, en_generation = st_generation t, en_rejected = rejected, en_payload = p\<rparr>"

definition task_tenant :: "stream_task \<Rightarrow> pyval" where
  "task_tenant t = pget (st_body t) ''tenant_id'' PNone"

datatype dl_result = Dl_Written | Dl_Refused string | Dl_Full | Dl_Raised

text \<open>\<open>dead_letter\<close>: the gate, the quota, the envelope, the acknowledgement.\<close>

definition dead_letter ::
  "'s queue \<Rightarrow> (command \<Rightarrow> bool) \<Rightarrow> dl_reason \<Rightarrow> dl_payload \<Rightarrow> stream_task \<Rightarrow> 's qstate \<Rightarrow> dl_result \<times> 's qstate" where
  "dead_letter Q down r p t q =
     (case q_gate Q (task_tenant t) (st_generation t) (qs_store q) of
        Some reason \<Rightarrow> (Dl_Refused reason, q)
      | None \<Rightarrow>
          if (case q_quota Q of None \<Rightarrow> False | Some allows \<Rightarrow> \<not> allows (task_tenant t) (qs_store q)) then (Dl_Full, q)
          else if down XADD_DLQ then (Dl_Raised, q)
          else (let q1 = log_event (Dead_Lettered (st_id t)) (put_store (sx_dlq (q_ops Q) (envelope_of r p None t) (qs_store q)) q);
                    (ok, q2) = queue_ack Q down (Acked (st_id t)) (st_id t) q1 in
                (if ok then Dl_Written else Dl_Raised, q2)))"

definition tenant_text :: "pyval \<Rightarrow> string" where
  "tenant_text v = (if truthy v then py_str v else ''?'')"

definition quarantine_rejected ::
  "'s queue \<Rightarrow> (command \<Rightarrow> bool) \<Rightarrow> string \<Rightarrow> dl_reason \<Rightarrow> dl_payload \<Rightarrow> stream_task \<Rightarrow> 's qstate \<Rightarrow> bool \<times> 's qstate" where
  "quarantine_rejected Q down rejected r p t q =
     (if is_epistemic_reject_reason rejected then (False, q)
      else if (case q_quota Q of None \<Rightarrow> False | Some allows \<Rightarrow> \<not> allows (PStr (tenant_text (task_tenant t))) (qs_store q)) then (False, q)
      else if down XADD_QUARANTINE then (False, q)
      else queue_ack Q down (Acked (st_id t)) (st_id t)
        (log_event (Quarantined (st_id t))
          (put_store (sx_quarantine (q_ops Q) (tenant_text (task_tenant t)) (envelope_of r p (Some rejected) t) (qs_store q)) q)))"

definition guard_allows_dead_letter :: "'s queue \<Rightarrow> stream_task \<Rightarrow> 's \<Rightarrow> bool" where
  "guard_allows_dead_letter Q t s = (case q_guard Q of None \<Rightarrow> True | Some g \<Rightarrow> g t s = Some True)"

text \<open>The one way into the dead letters; nothing is a transient error.\<close>

definition dead_letter_if_allowed ::
  "'s queue \<Rightarrow> (command \<Rightarrow> bool) \<Rightarrow> dl_reason \<Rightarrow> dl_payload \<Rightarrow> stream_task \<Rightarrow> 's qstate \<Rightarrow> bool option \<times> 's qstate" where
  "dead_letter_if_allowed Q down r p t q =
     (if \<not> guard_allows_dead_letter Q t (qs_store q) then (Some False, q)
      else (case dead_letter Q down r p t q of
              (Dl_Written, q') \<Rightarrow> (Some True, q')
            | (Dl_Refused reason, q') \<Rightarrow> (let (b, q2) = quarantine_rejected Q down reason r p t q' in (Some b, q2))
            | (Dl_Full, q') \<Rightarrow> (Some False, q')
            | (Dl_Raised, q') \<Rightarrow> (None, q')))"

definition unsupported_schema :: "'s queue \<Rightarrow> stream_task \<Rightarrow> bool" where
  "unsupported_schema Q t \<longleftrightarrow> (case q_max_schema Q of None \<Rightarrow> False | Some m \<Rightarrow> m < st_schema t)"

definition reject_unsupported_schema ::
  "'s queue \<Rightarrow> (command \<Rightarrow> bool) \<Rightarrow> stream_task \<Rightarrow> 's qstate \<Rightarrow> bool option \<times> 's qstate" where
  "reject_unsupported_schema Q down t q =
     dead_letter_if_allowed Q down (Unsupported_Schema (st_schema t)) (Body (st_body t)) (t\<lparr>st_schema_rejected := True\<rparr>) q"

definition dead_letter_invalid ::
  "'s queue \<Rightarrow> (command \<Rightarrow> bool) \<Rightarrow> nat \<Rightarrow> fields \<Rightarrow> nat \<Rightarrow> 's qstate \<Rightarrow> bool option \<times> 's qstate" where
  "dead_letter_invalid Q down i f n q =
     (let raw = (case f_payload f of None \<Rightarrow> [] | Some p \<Rightarrow> p) in
      dead_letter_if_allowed Q down Invalid_Payload (Raw (take INVALID_PAYLOAD_MAX_CHARS raw) (length raw > INVALID_PAYLOAD_MAX_CHARS) (cut_fields f))
        \<lparr>st_id = i, st_body = [], st_delivery_count = n, st_schema = schema_version_from_fields f, st_schema_rejected = False,
         st_max_deliveries = max_deliveries_from_fields f, st_generation = tenant_generation_from_fields f\<rparr> q)"

section \<open>Reclaiming\<close>

definition peek_task_body :: "'s queue \<Rightarrow> (command \<Rightarrow> bool) \<Rightarrow> nat \<Rightarrow> 's \<Rightarrow> pyval dict option" where
  "peek_task_body Q down i s =
     (if down XRANGE then None
      else (case Option.bind (sx_entry (q_ops Q) i s) (\<lambda>f. Option.bind (f_payload f) (q_loads Q)) of
              Some (PDict d) \<Rightarrow> Some d
            | _ \<Rightarrow> None))"

definition reclaim_allowed :: "'s queue \<Rightarrow> (command \<Rightarrow> bool) \<Rightarrow> nat \<Rightarrow> 's \<Rightarrow> bool" where
  "reclaim_allowed Q down i s =
     (case q_lease_guard Q of
        None \<Rightarrow> True
      | Some g \<Rightarrow> (case peek_task_body Q down i s of None \<Rightarrow> True | Some d \<Rightarrow> g d s = Some False))"

definition delivery_budget :: "'s queue \<Rightarrow> stream_task \<Rightarrow> int" where
  "delivery_budget Q t = (case st_max_deliveries t of Some b \<Rightarrow> b | None \<Rightarrow> q_max_deliveries Q)"

datatype scan_outcome = Found stream_task | Scanned_All | Scan_Raised

definition set_cursor :: "nat option \<Rightarrow> 's qstate \<Rightarrow> 's qstate" where
  "set_cursor c q = q\<lparr>qs_cursor := c\<rparr>"

text \<open>
  The body of the loop for an entry that may be claimed; nothing as the outcome goes on with the next entry.  \<open>disposed\<close> is
  an entry moved, or left pending by the guards, after which the cursor stands on it.
\<close>

definition disposed :: "nat \<Rightarrow> bool option \<times> 's qstate \<Rightarrow> scan_outcome option \<times> 's qstate" where
  "disposed i r = (case r of (None, q) \<Rightarrow> (Some Scan_Raised, q) | (Some _, q) \<Rightarrow> (None, set_cursor (Some i) q))"

definition reclaim_entry :: "'s queue \<Rightarrow> (command \<Rightarrow> bool) \<Rightarrow> nat \<Rightarrow> nat \<Rightarrow> 's qstate \<Rightarrow> scan_outcome option \<times> 's qstate" where
  "reclaim_entry Q down i d q =
     (if down XCLAIM then (Some Scan_Raised, q)
      else (case sx_claim (q_ops Q) (q_min_idle Q) i (qs_store q) of
              (None, s) \<Rightarrow> (None, put_store s q)
            | (Some f, s) \<Rightarrow>
                (case task_from_fields (q_loads Q) i f (max d 1) of
                   None \<Rightarrow> disposed i (dead_letter_invalid Q down i f (max d 1) (put_store s q))
                 | Some t \<Rightarrow>
                     if unsupported_schema Q t then disposed i (reject_unsupported_schema Q down t (put_store s q))
                     else if delivery_budget Q t \<le> int (st_delivery_count t) then
                       disposed i (dead_letter_if_allowed Q down (Max_Deliveries (delivery_budget Q t)) (Body (st_body t)) t (put_store s q))
                     else (Some (Found t), set_cursor (Some i) (put_store s q)))))"

fun reclaim_scan ::
  "'s queue \<Rightarrow> (command \<Rightarrow> bool) \<Rightarrow> nat option \<Rightarrow> (nat \<times> nat \<times> nat) list \<Rightarrow> 's qstate \<Rightarrow> scan_outcome \<times> 's qstate" where
  "reclaim_scan Q down from [] q = (Scanned_All, q)"
| "reclaim_scan Q down from ((i, idle, d) # es) q =
     (if Some i = from \<or> idle < q_min_idle Q \<or> \<not> reclaim_allowed Q down i (qs_store q) then reclaim_scan Q down from es q
      else (case reclaim_entry Q down i d q of
              (None, q') \<Rightarrow> reclaim_scan Q down from es q'
            | (Some r, q') \<Rightarrow> (r, q')))"

definition reclaim_one :: "'s queue \<Rightarrow> (command \<Rightarrow> bool) \<Rightarrow> 's qstate \<Rightarrow> scan_outcome \<times> 's qstate" where
  "reclaim_one Q down q =
     (if down XPENDING then (Scanned_All, q)
      else (let es = pending_range (q_ops Q) (qs_cursor q) (q_window Q) (qs_store q) in
            if es = [] then (Scanned_All, set_cursor None q)
            else (case reclaim_scan Q down (qs_cursor q) es q of
                    (Scanned_All, q') \<Rightarrow>
                      (Scanned_All, set_cursor (if length es < q_window Q then None else Some (fst (List.last es))) q')
                  | r \<Rightarrow> r)))"

section \<open>Reading\<close>

text \<open>\<open>read\<close>; transient errors end in nothing to do, as an empty queue does.\<close>

definition queue_read :: "'s queue \<Rightarrow> (command \<Rightarrow> bool) \<Rightarrow> 's qstate \<Rightarrow> stream_task option \<times> 's qstate" where
  "queue_read Q down q =
     (case reclaim_one Q down q of
        (Found t, q') \<Rightarrow> (Some t, log_event (Handed (st_id t)) q')
      | (Scan_Raised, q') \<Rightarrow> (None, q')
      | (Scanned_All, q') \<Rightarrow>
          if down XREADGROUP then (None, q')
          else (case sx_readgroup (q_ops Q) (qs_store q') of
                  (None, s) \<Rightarrow> (None, put_store s q')
                | (Some (i, f), s) \<Rightarrow>
                    (let q2 = log_event (Delivered i) (put_store s q') in
                     case task_from_fields (q_loads Q) i f 1 of
                       None \<Rightarrow> (None, snd (dead_letter_invalid Q down i f 1 q2))
                     | Some t \<Rightarrow>
                         if unsupported_schema Q t then (None, snd (reject_unsupported_schema Q down t q2))
                         else (Some t, log_event (Handed i) q2))))"

definition enqueue :: "'s queue \<Rightarrow> fields \<Rightarrow> 's qstate \<Rightarrow> nat \<times> 's qstate" where
  "enqueue Q f q = (let (i, s) = sx_add (q_ops Q) f (qs_store q) in (i, log_event (Enqueued i f) (put_store s q)))"

text \<open>
  \<open>sweep_acked_residue\<close>: of the first entries up to the last one delivered, those that are not pending are deleted.
\<close>

definition sweep_victims :: "'s queue \<Rightarrow> nat \<Rightarrow> 's \<Rightarrow> nat list" where
  "sweep_victims Q batch s =
     (let ids = sx_range (q_ops Q) (sx_last_delivered (q_ops Q) s) (max 1 batch) s in
      if ids = [] then []
      else (let pend = take (max 1 batch) (filter (\<lambda>e. hd ids \<le> fst e \<and> fst e \<le> List.last ids) (sx_pending (q_ops Q) s)) in
            filter (\<lambda>i. i \<notin> fst ` set pend) ids))"

definition sweep_acked_residue :: "'s queue \<Rightarrow> (command \<Rightarrow> bool) \<Rightarrow> nat \<Rightarrow> 's qstate \<Rightarrow> nat \<times> 's qstate" where
  "sweep_acked_residue Q down batch q =
     (if down XRANGE \<or> down XPENDING \<or> down XDEL then (0, q)
      else (let vs = sweep_victims Q batch (qs_store q) in
            (length vs, put_store (fold (sx_del (q_ops Q)) vs (qs_store q)) q)))"

section \<open>A server\<close>

text \<open>The entries, the id delivered last, and the pending entries with idle time and deliveries.\<close>

record mstream =
  ms_entries :: "(nat \<times> fields) list"
  ms_last :: nat
  ms_pel :: "(nat \<times> nat \<times> nat) list"
  ms_letters :: "(string option \<times> envelope) list"

definition ms_ids :: "(nat \<times> 'a) list \<Rightarrow> nat list" where
  "ms_ids xs = sort (remdups (map fst xs))"

definition ms_pending :: "mstream \<Rightarrow> (nat \<times> nat \<times> nat) list" where
  "ms_pending s = map (\<lambda>i. (i, the (map_of (ms_pel s) i))) (ms_ids (ms_pel s))"

definition ms_ops :: "mstream stream_ops" where
  "ms_ops =
     \<lparr>sx_add = (\<lambda>f s. let i = Suc (foldr max (ms_last s # map fst (ms_entries s)) 0) in (i, s\<lparr>ms_entries := AList.update i f (ms_entries s)\<rparr>)),
      sx_entry = (\<lambda>i s. map_of (ms_entries s) i),
      sx_range = (\<lambda>l n s. take n (filter (\<lambda>i. i \<le> l) (ms_ids (ms_entries s)))),
      sx_last_delivered = ms_last,
      sx_readgroup = (\<lambda>s. case filter (\<lambda>i. ms_last s < i) (ms_ids (ms_entries s)) of
          [] \<Rightarrow> (None, s)
        | i # _ \<Rightarrow> (Some (i, the (map_of (ms_entries s) i)), s\<lparr>ms_last := i, ms_pel := AList.update i (0, 1) (ms_pel s)\<rparr>)),
      sx_pending = ms_pending,
      sx_claim = (\<lambda>idle i s. case map_of (ms_pel s) i of
          None \<Rightarrow> (None, s)
        | Some (t, d) \<Rightarrow> if t < idle then (None, s)
            else (case map_of (ms_entries s) i of
                    None \<Rightarrow> (None, s\<lparr>ms_pel := AList.delete i (ms_pel s)\<rparr>)
                  | Some f \<Rightarrow> (Some f, s\<lparr>ms_pel := AList.update i (0, d + 1) (ms_pel s)\<rparr>))),
      sx_ack = (\<lambda>i s. (map_of (ms_pel s) i \<noteq> None, s\<lparr>ms_pel := AList.delete i (ms_pel s)\<rparr>)),
      sx_del = (\<lambda>i s. s\<lparr>ms_entries := AList.delete i (ms_entries s)\<rparr>),
      sx_dlq = (\<lambda>v s. s\<lparr>ms_letters := (None, v) # ms_letters s\<rparr>),
      sx_quarantine = (\<lambda>t v s. s\<lparr>ms_letters := (Some t, v) # ms_letters s\<rparr>),
      sx_pass = (\<lambda>dt s. s\<lparr>ms_pel := map (\<lambda>(i, t, d). (i, t + dt, d)) (ms_pel s)\<rparr>)\<rparr>"

lemma ms_ids_set [simp]: "set (ms_ids xs) = fst ` set xs"
  by (simp add: ms_ids_def)

lemma ms_ids_sorted [simp]: "sorted_wrt (<) (ms_ids xs)"
  by (simp add: ms_ids_def strict_sorted_iff)

lemma map_of_graph: "map_of (map (\<lambda>i. (i, f i)) xs) k = (if k \<in> set xs then Some (f k) else None)"
  by (induction xs) auto

lemma ms_deliveries: "deliveries ms_ops i s = map_option snd (map_of (ms_pel s) i)"
proof (cases "map_of (ms_pel s) i")
  case None
  then show ?thesis by (simp add: deliveries_def ms_ops_def ms_pending_def map_of_graph map_of_eq_None_iff)
next
  case (Some e)
  then have "i \<in> fst ` set (ms_pel s)" by (metis map_of_eq_None_iff option.distinct(1))
  with Some show ?thesis by (simp add: deliveries_def ms_ops_def ms_pending_def map_of_graph)
qed

lemma ms_pending_member: "(i, t, d) \<in> set (ms_pending s) \<Longrightarrow> map_of (ms_pel s) i = Some (t, d)"
  by (auto simp: ms_pending_def dest: weak_map_of_SomeI)

lemma foldr_max_bounds: "n \<in> set ns \<Longrightarrow> n < Suc (foldr max ns (0 :: nat))"
  by (induction ns) (auto simp: less_Suc_eq_le max_def)

lemma map_of_pass: "map_of (map (\<lambda>(i, t, d). (i, t + dt, d)) xs) k = map_option (\<lambda>(t, d). (t + dt, d)) (map_of xs k)"
  by (induction xs) auto

lemma head_of_filter:
  assumes "filter P xs = i # r" and "sorted_wrt (<) (xs :: nat list)"
  shows "i \<in> set xs" and "P i" and "k \<in> set xs \<Longrightarrow> k < i \<Longrightarrow> \<not> P k"
proof -
  have m: "set (filter P xs) = set (i # r)" using assms(1) by simp
  then show "i \<in> set xs" "P i" by auto
  have "sorted_wrt (<) (i # r)" using sorted_wrt_filter [OF assms(2), of P] assms(1) by simp
  then have "\<forall>j \<in> set (i # r). i \<le> j" by auto
  with m show "k \<in> set xs \<Longrightarrow> k < i \<Longrightarrow> \<not> P k" by force
qed

lemma take_initial:
  assumes "sorted_wrt (<) (xs :: nat list)" and "take n xs \<noteq> []" and "i \<in> set xs" and "i \<le> List.last (take n xs)"
  shows "i \<in> set (take n xs)"
proof (rule ccontr)
  assume "i \<notin> set (take n xs)"
  with assms(3) have "i \<in> set (drop n xs)" by (metis Un_iff append_take_drop_id set_append)
  moreover have "sorted_wrt (<) (take n xs @ drop n xs)" using assms(1) by simp
  ultimately have "List.last (take n xs) < i" using assms(2) by (simp only: sorted_wrt_append) (meson last_in_set)
  with assms(4) show False by simp
qed

lemma ms_add:
  assumes "sx_add ms_ops f s = (i, s')"
  shows "sx_entry ms_ops i s = None \<and> sx_last_delivered ms_ops s < i \<and> sx_last_delivered ms_ops s' = sx_last_delivered ms_ops s
    \<and> (\<forall>k. sx_entry ms_ops k s' = (if k = i then Some f else sx_entry ms_ops k s)) \<and> sx_pending ms_ops s' = sx_pending ms_ops s"
proof -
  have i: "i = Suc (foldr max (ms_last s # map fst (ms_entries s)) 0)" using assms by (simp add: ms_ops_def Let_def)
  have "n \<in> set (ms_last s # map fst (ms_entries s)) \<Longrightarrow> n < i" for n
    unfolding i by (rule foldr_max_bounds)
  then have "ms_last s < i" "i \<notin> fst ` set (ms_entries s)" by auto
  with assms show ?thesis by (auto simp: ms_ops_def Let_def update_conv' ms_pending_def map_of_eq_None_iff)
qed

lemma ms_readgroup:
  assumes "sx_readgroup ms_ops s = (Some (i, f), s')"
  shows "sx_entry ms_ops i s = Some f \<and> sx_last_delivered ms_ops s < i \<and> sx_last_delivered ms_ops s' = i
    \<and> (\<forall>k. sx_last_delivered ms_ops s < k \<and> k < i \<longrightarrow> sx_entry ms_ops k s = None)
    \<and> (\<forall>k. sx_entry ms_ops k s' = sx_entry ms_ops k s) \<and> (\<forall>k. deliveries ms_ops k s' = (if k = i then Some 1 else deliveries ms_ops k s))"
proof -
  from assms obtain r where r: "filter (\<lambda>i. ms_last s < i) (ms_ids (ms_entries s)) = i # r"
    and f: "f = the (map_of (ms_entries s) i)" and s': "s' = s\<lparr>ms_last := i, ms_pel := AList.update i (0, 1) (ms_pel s)\<rparr>"
    by (auto simp: ms_ops_def split: list.splits)
  note h = head_of_filter [OF r ms_ids_sorted]
  from h(1) have e: "map_of (ms_entries s) i = Some f" unfolding f by (auto simp: map_of_eq_None_iff)
  have "map_of (ms_entries s) k = None" if "ms_last s < k" "k < i" for k
  proof (rule ccontr)
    assume "map_of (ms_entries s) k \<noteq> None"
    then have "k \<in> set (ms_ids (ms_entries s))" by (simp add: map_of_eq_None_iff)
    with h(3) that show False by blast
  qed
  with e h(2) s' show ?thesis by (auto simp: ms_deliveries update_conv') (auto simp: ms_ops_def)
qed

lemma ms_claim:
  "sx_claim ms_ops idle i s = (Some f, s') \<Longrightarrow> \<exists>d. deliveries ms_ops i s = Some d
    \<and> (\<forall>k. deliveries ms_ops k s' = (if k = i then Some (d + 1) else deliveries ms_ops k s))
    \<and> sx_entry ms_ops i s = Some f \<and> (\<forall>k. sx_entry ms_ops k s' = sx_entry ms_ops k s) \<and> sx_last_delivered ms_ops s' = sx_last_delivered ms_ops s"
  "sx_claim ms_ops idle i s = (None, s') \<Longrightarrow> sx_last_delivered ms_ops s' = sx_last_delivered ms_ops s
    \<and> (\<forall>k. sx_entry ms_ops k s' = sx_entry ms_ops k s)
    \<and> (\<forall>k. deliveries ms_ops k s' = deliveries ms_ops k s \<or> sx_entry ms_ops k s = None \<and> deliveries ms_ops k s' = None)"
  "(i, t, d) \<in> set (sx_pending ms_ops s) \<Longrightarrow> idle \<le> t \<Longrightarrow> sx_entry ms_ops i s = Some f \<Longrightarrow> \<exists>s'. sx_claim ms_ops idle i s = (Some f, s')"
  by (auto simp: ms_deliveries update_conv' split: option.splits if_splits)
    (auto simp: ms_ops_def ms_deliveries [unfolded ms_ops_def] update_conv' delete_conv' dest: ms_pending_member
      split: option.splits if_splits prod.splits)

lemma ms_range:
  "sorted_wrt (<) (sx_range ms_ops l n s)" "length (sx_range ms_ops l n s) \<le> n"
  "i \<in> set (sx_range ms_ops l n s) \<Longrightarrow> i \<le> l \<and> sx_entry ms_ops i s \<noteq> None"
  "sx_range ms_ops l n s \<noteq> [] \<Longrightarrow> i \<le> List.last (sx_range ms_ops l n s) \<Longrightarrow> sx_entry ms_ops i s \<noteq> None \<Longrightarrow> i \<in> set (sx_range ms_ops l n s)"
proof -
  let ?xs = "filter (\<lambda>i. i \<le> l) (ms_ids (ms_entries s))"
  have x: "sx_range ms_ops l n s = take n ?xs" by (simp add: ms_ops_def)
  have e: "sx_entry ms_ops i s = map_of (ms_entries s) i" for i by (simp add: ms_ops_def)
  have sorted: "sorted_wrt (<) ?xs" by (simp add: sorted_wrt_filter)
  then show "sorted_wrt (<) (sx_range ms_ops l n s)" by (simp add: x sorted_wrt_take)
  show "length (sx_range ms_ops l n s) \<le> n" by (simp add: x)
  have member: "i \<in> set ?xs \<longleftrightarrow> i \<le> l \<and> map_of (ms_entries s) i \<noteq> None" for i by (auto simp: map_of_eq_None_iff)
  show "i \<in> set (sx_range ms_ops l n s) \<Longrightarrow> i \<le> l \<and> sx_entry ms_ops i s \<noteq> None"
    unfolding x e member [symmetric] by (rule in_set_takeD)
  assume a: "sx_range ms_ops l n s \<noteq> []" "i \<le> List.last (sx_range ms_ops l n s)" "sx_entry ms_ops i s \<noteq> None"
  have "List.last (take n ?xs) \<in> set ?xs" using a(1) unfolding x by (meson in_set_takeD last_in_set)
  then have "List.last (take n ?xs) \<le> l" by simp
  with a have "i \<in> set ?xs" unfolding member x e by simp
  with take_initial [OF sorted] a(1,2) show "i \<in> set (sx_range ms_ops l n s)" unfolding x by blast
qed

lemma ms_rest:
  "sorted_wrt (<) (map fst (sx_pending ms_ops s))"
  "sx_readgroup ms_ops s = (None, s') \<Longrightarrow> s' = s"
  "sx_ack ms_ops i s = (b, s') \<Longrightarrow> sx_last_delivered ms_ops s' = sx_last_delivered ms_ops s \<and> (\<forall>k. sx_entry ms_ops k s' = sx_entry ms_ops k s)
    \<and> (\<forall>k. deliveries ms_ops k s' = (if k = i then None else deliveries ms_ops k s))"
  "sx_last_delivered ms_ops (sx_del ms_ops i s) = sx_last_delivered ms_ops s \<and> sx_pending ms_ops (sx_del ms_ops i s) = sx_pending ms_ops s
    \<and> (\<forall>k. sx_entry ms_ops k (sx_del ms_ops i s) = (if k = i then None else sx_entry ms_ops k s))"
  "sx_last_delivered ms_ops (sx_dlq ms_ops v s) = sx_last_delivered ms_ops s \<and> sx_pending ms_ops (sx_dlq ms_ops v s) = sx_pending ms_ops s
    \<and> (\<forall>k. sx_entry ms_ops k (sx_dlq ms_ops v s) = sx_entry ms_ops k s)"
  "sx_last_delivered ms_ops (sx_quarantine ms_ops tn v s) = sx_last_delivered ms_ops s
    \<and> sx_pending ms_ops (sx_quarantine ms_ops tn v s) = sx_pending ms_ops s
    \<and> (\<forall>k. sx_entry ms_ops k (sx_quarantine ms_ops tn v s) = sx_entry ms_ops k s)"
  "sx_last_delivered ms_ops (sx_pass ms_ops dt s) = sx_last_delivered ms_ops s \<and> (\<forall>k. sx_entry ms_ops k (sx_pass ms_ops dt s) = sx_entry ms_ops k s)
    \<and> (\<forall>k. deliveries ms_ops k (sx_pass ms_ops dt s) = deliveries ms_ops k s)"
  by (auto simp: ms_deliveries) (auto simp: ms_ops_def ms_pending_def comp_def delete_conv' map_of_pass option.map_comp case_prod_beta
      split: list.splits option.splits)

interpretation ms: stream_server ms_ops
  by unfold_locales (fact ms_rest ms_add ms_readgroup ms_claim ms_range)+

end
