(* ===== verification/Queue_Safety.thy ===== *)
theory Queue_Safety
  imports Task_Queue
begin

text \<open>
  What the task queue of \<^verbatim>\<open>plaita/server/task_queue.py\<close> promises, as a protocol whose steps are single changes of the
  stream: every operation of the queue is a sequence of such steps (\<open>queue_refines_protocol\<close>), so what the
  protocol keeps holds of the queue, with any commands lost on the way.  From it: no message is lost and a message is
  handed out at most as often as its budget says; and the scan for orphans reaches each of them.
\<close>

section \<open>The protocol\<close>

record proto =
  p_entry :: "nat \<Rightarrow> fields option"
  p_pend :: "nat \<Rightarrow> nat option"
  p_last :: nat
  p_log :: "qevent list"

definition accounted :: "qevent list \<Rightarrow> nat \<Rightarrow> bool" where
  "accounted L i \<longleftrightarrow> Worker_Acked i \<in> set L \<or> Dead_Lettered i \<in> set L \<or> Quarantined i \<in> set L"

text \<open>
  The steps, for budgets \<open>b\<close>: a message is added; delivered in the order of the ids, and may be handed to the worker;
  claimed again, and handed out if its deliveries are below its budget; forgotten if its entry is gone; copied to
  the dead letters while pending, or by a worker that was handed it; acknowledged by a worker that was handed it, or by the queue after the copy; and
  its entry deleted when it is no more pending.
\<close>

inductive pstep :: "(fields \<Rightarrow> int) \<Rightarrow> proto \<Rightarrow> proto \<Rightarrow> bool" for b p where
  p_enqueue: "p_entry p i = None \<Longrightarrow> p_last p < i \<Longrightarrow>
    p' = p\<lparr>p_entry := (p_entry p)(i \<mapsto> f), p_log := Enqueued i f # p_log p\<rparr> \<Longrightarrow> pstep b p p'"
| p_deliver: "p_entry p i = Some f \<Longrightarrow> p_last p < i \<Longrightarrow> (\<And>k. p_last p < k \<Longrightarrow> k < i \<Longrightarrow> p_entry p k = None) \<Longrightarrow>
    L = [Delivered i] \<or> L = [Handed i, Delivered i] \<Longrightarrow>
    p' = p\<lparr>p_pend := (p_pend p)(i \<mapsto> 1), p_last := i, p_log := L @ p_log p\<rparr> \<Longrightarrow> pstep b p p'"
| p_claim: "p_entry p i = Some f \<Longrightarrow> p_pend p i = Some d \<Longrightarrow> L = [] \<or> L = [Handed i] \<and> int d < b f \<Longrightarrow>
    p' = p\<lparr>p_pend := (p_pend p)(i \<mapsto> d + 1), p_log := L @ p_log p\<rparr> \<Longrightarrow> pstep b p p'"
| p_forget: "(\<And>k. m k = p_pend p k \<or> p_entry p k = None \<and> m k = None) \<Longrightarrow> p' = p\<lparr>p_pend := m\<rparr> \<Longrightarrow> pstep b p p'"
| p_letter: "p_pend p i \<noteq> None \<or> Handed i \<in> set (p_log p) \<Longrightarrow> e = Dead_Lettered i \<or> e = Quarantined i \<Longrightarrow> p' = p\<lparr>p_log := e # p_log p\<rparr> \<Longrightarrow> pstep b p p'"
| p_ack: "e = Worker_Acked i \<and> Handed i \<in> set (p_log p) \<or>
      e = Acked i \<and> (Dead_Lettered i \<in> set (p_log p) \<or> Quarantined i \<in> set (p_log p)) \<Longrightarrow>
    p' = p\<lparr>p_pend := (p_pend p)(i := None), p_log := e # p_log p\<rparr> \<Longrightarrow> pstep b p p'"
| p_delete: "p_pend p i = None \<Longrightarrow> i \<le> p_last p \<or> Worker_Acked i \<in> set (p_log p) \<or> Acked i \<in> set (p_log p) \<Longrightarrow>
    p' = p\<lparr>p_entry := (p_entry p)(i := None)\<rparr> \<Longrightarrow> pstep b p p'"

text \<open>A fresh queue: nothing has happened, and what is pending has been delivered and is still there.\<close>

definition pstart :: "proto \<Rightarrow> bool" where
  "pstart p \<longleftrightarrow> p_log p = [] \<and> (\<forall>i. p_pend p i \<noteq> None \<longrightarrow> p_entry p i \<noteq> None \<and> i \<le> p_last p)"

inductive preach :: "(fields \<Rightarrow> int) \<Rightarrow> proto \<Rightarrow> bool" for b where
  preach_start: "pstart p \<Longrightarrow> preach b p"
| preach_step: "preach b p \<Longrightarrow> pstep b p p' \<Longrightarrow> preach b p'"

lemma preach_steps: "(pstep b)\<^sup>*\<^sup>* p p' \<Longrightarrow> preach b p \<Longrightarrow> preach b p'"
  by (induction rule: rtranclp_induct) (auto intro: preach_step)

text \<open>What is pending is there, and what has been touched was delivered.\<close>

definition touched :: "qevent list \<Rightarrow> nat \<Rightarrow> bool" where
  "touched L i \<longleftrightarrow> accounted L i \<or> Handed i \<in> set L \<or> Acked i \<in> set L \<or> Delivered i \<in> set L"

definition pinv :: "proto \<Rightarrow> bool" where
  "pinv p \<longleftrightarrow> (\<forall>i. p_pend p i \<noteq> None \<longrightarrow> p_entry p i \<noteq> None \<and> i \<le> p_last p) \<and> (\<forall>i. touched (p_log p) i \<longrightarrow> i \<le> p_last p)
     \<and> (\<forall>i. Acked i \<in> set (p_log p) \<longrightarrow> accounted (p_log p) i)"

lemmas event_defs = accounted_def touched_def

lemma pinvD:
  "pinv p \<Longrightarrow> p_pend p i = Some d \<Longrightarrow> p_entry p i \<noteq> None" "pinv p \<Longrightarrow> p_pend p i = Some d \<Longrightarrow> i \<le> p_last p"
  "pinv p \<Longrightarrow> touched (p_log p) i \<Longrightarrow> i \<le> p_last p" "pinv p \<Longrightarrow> Acked i \<in> set (p_log p) \<Longrightarrow> accounted (p_log p) i"
  by (auto simp: pinv_def)

lemma pinvI:
  "(\<And>i d. p_pend p i = Some d \<Longrightarrow> p_entry p i \<noteq> None \<and> i \<le> p_last p) \<Longrightarrow> (\<And>i. touched (p_log p) i \<Longrightarrow> i \<le> p_last p) \<Longrightarrow>
    (\<And>i. Acked i \<in> set (p_log p) \<Longrightarrow> accounted (p_log p) i) \<Longrightarrow> pinv p"
  by (auto simp: pinv_def)

lemma pinv_step:
  assumes "pstep b p p'" and "pinv p"
  shows "pinv p'"
  using assms(1)
proof cases
  case (p_enqueue i f)
  with pinvD [OF assms(2)] show ?thesis by (intro pinvI) (auto simp: event_defs)
next
  case (p_deliver i f L)
  then have t: "touched (p_log p') k \<longleftrightarrow> k = i \<or> touched (p_log p) k" for k by (auto simp: event_defs)
  have s: "accounted (p_log p') k \<longleftrightarrow> accounted (p_log p) k" "Acked k \<in> set (p_log p') \<longleftrightarrow> Acked k \<in> set (p_log p)" for k
    using p_deliver by (auto simp: event_defs)
  from p_deliver(2,5) t s pinvD [OF assms(2)] p_deliver(1) show ?thesis
    by (intro pinvI) (auto dest: less_imp_le less_le_trans split: if_splits, (meson le_trans less_imp_le)+)
next
  case (p_claim i f d L)
  then have t: "touched (p_log p') k \<longleftrightarrow> (L \<noteq> [] \<and> k = i) \<or> touched (p_log p) k" for k by (auto simp: event_defs)
  have s: "accounted (p_log p') k \<longleftrightarrow> accounted (p_log p) k" "Acked k \<in> set (p_log p') \<longleftrightarrow> Acked k \<in> set (p_log p)" for k
    using p_claim by (auto simp: event_defs)
  from p_claim(1,2,4) t s pinvD [OF assms(2)] show ?thesis by (intro pinvI) (auto split: if_splits)
next
  case (p_forget m)
  then show ?thesis using pinvD [OF assms(2)] by (intro pinvI) (simp, metis option.distinct(1), simp_all)
next
  case (p_letter i e)
  then have "p_last p' = p_last p" "p_pend p' = p_pend p" "p_entry p' = p_entry p" by simp_all
  moreover have "accounted (p_log p) k \<Longrightarrow> accounted (p_log p') k" "Acked k \<in> set (p_log p') \<longleftrightarrow> Acked k \<in> set (p_log p)" for k
    using p_letter by (auto simp: event_defs)
  moreover from p_letter(1) pinvD(2,3) [OF assms(2), of i] have "i \<le> p_last p" by (auto simp: event_defs)
  with p_letter pinvD(3) [OF assms(2)] have "touched (p_log p') k \<Longrightarrow> k \<le> p_last p" for k by (auto simp: event_defs)
  ultimately show ?thesis using pinvD [OF assms(2)] by (intro pinvI) auto
next
  case (p_ack e i)
  then have "i \<le> p_last p" using pinvD(3) [OF assms(2), of i] by (auto simp: event_defs)
  with p_ack have "touched (p_log p') k \<Longrightarrow> k \<le> p_last p" "Acked k \<in> set (p_log p') \<Longrightarrow> accounted (p_log p') k" for k
    using pinvD(3,4) [OF assms(2), of k] by (auto simp: event_defs)
  with pinvD [OF assms(2)] p_ack(2) show ?thesis by (intro pinvI) (auto split: if_splits)
next
  case (p_delete i)
  with pinvD [OF assms(2)] show ?thesis by (intro pinvI) auto
qed

lemma preach_pinv: "preach b p \<Longrightarrow> pinv p"
proof (induction rule: preach.induct)
  case (preach_start p)
  then show ?case by (intro pinvI) (auto simp: pstart_def event_defs)
qed (rule pinv_step)

section \<open>No message is lost\<close>

definition kept :: "proto \<Rightarrow> nat \<Rightarrow> fields \<Rightarrow> bool" where
  "kept p i f \<longleftrightarrow> p_entry p i = Some f \<and> (p_last p < i \<or> p_pend p i \<noteq> None)"

lemma kept_step:
  assumes "pstep b p p'" and "pinv p" and "Enqueued i f \<in> set (p_log p) \<Longrightarrow> kept p i f \<or> accounted (p_log p) i"
    and "Enqueued i f \<in> set (p_log p')"
  shows "kept p' i f \<or> accounted (p_log p') i"
proof (cases "Enqueued i f \<in> set (p_log p)")
  case True
  then have k: "kept p i f \<or> accounted (p_log p) i" by (rule assms(3))
  from assms(1) show ?thesis
  proof cases
    case (p_deliver j g L)
    then have "\<not> i < j" if "kept p i f" "p_last p < i" using that by (auto simp: kept_def)
    with p_deliver k show ?thesis by (auto simp: kept_def event_defs)
  next
    case (p_forget m)
    then have "m i = p_pend p i" if "p_entry p i \<noteq> None" using that by metis
    with p_forget(2) k show ?thesis by (auto simp: kept_def)
  next
    case (p_delete j)
    moreover from this have "j \<le> p_last p" using pinvD(3) [OF assms(2), of j] by (auto simp: event_defs)
    ultimately show ?thesis using k by (cases "i = j") (auto simp: kept_def)
  qed (use k in \<open>auto simp: kept_def event_defs\<close>)
next
  case False
  from assms(1) this assms(4) show ?thesis by cases (auto simp: kept_def)
qed

lemma protocol_keeps_messages:
  "preach b p \<Longrightarrow> Enqueued i f \<in> set (p_log p) \<Longrightarrow> kept p i f \<or> accounted (p_log p) i"
proof (induction rule: preach.induct)
  case (preach_step p p')
  then show ?case using kept_step [OF preach_step.hyps(2)] preach_pinv by blast
qed (simp add: pstart_def)

section \<open>The budget of a message\<close>

definition bounded :: "(fields \<Rightarrow> int) \<Rightarrow> proto \<Rightarrow> bool" where
  "bounded b p \<longleftrightarrow> (\<forall>i d. p_pend p i = Some d \<longrightarrow> count_list (p_log p) (Handed i) \<le> d)
     \<and> (\<forall>i f. Enqueued i f \<in> set (p_log p) \<longrightarrow> p_entry p i = None \<longrightarrow> i \<le> p_last p)
     \<and> (\<forall>i f g. Enqueued i f \<in> set (p_log p) \<longrightarrow> p_entry p i = Some g \<longrightarrow> g = f)
     \<and> (\<forall>i f. Enqueued i f \<in> set (p_log p) \<longrightarrow> int (count_list (p_log p) (Handed i)) \<le> max 1 (b f))"

lemma untouched_count: "pinv p \<Longrightarrow> p_last p < i \<Longrightarrow> count_list (p_log p) (Handed i) = 0"
  using pinvD(3) [of p i] by (auto simp: event_defs count_list_0_iff)

lemma boundedD:
  "bounded b p \<Longrightarrow> p_pend p i = Some d \<Longrightarrow> count_list (p_log p) (Handed i) \<le> d"
  "bounded b p \<Longrightarrow> Enqueued i f \<in> set (p_log p) \<Longrightarrow> p_entry p i = None \<Longrightarrow> i \<le> p_last p"
  "bounded b p \<Longrightarrow> Enqueued i f \<in> set (p_log p) \<Longrightarrow> p_entry p i = Some g \<Longrightarrow> g = f"
  "bounded b p \<Longrightarrow> Enqueued i f \<in> set (p_log p) \<Longrightarrow> int (count_list (p_log p) (Handed i)) \<le> max 1 (b f)"
  by (auto simp: bounded_def)

lemma boundedI:
  "(\<And>i d. p_pend p i = Some d \<Longrightarrow> count_list (p_log p) (Handed i) \<le> d) \<Longrightarrow>
   (\<And>i f. Enqueued i f \<in> set (p_log p) \<Longrightarrow> p_entry p i = None \<Longrightarrow> i \<le> p_last p) \<Longrightarrow>
   (\<And>i f g. Enqueued i f \<in> set (p_log p) \<Longrightarrow> p_entry p i = Some g \<Longrightarrow> g = f) \<Longrightarrow>
   (\<And>i f. Enqueued i f \<in> set (p_log p) \<Longrightarrow> int (count_list (p_log p) (Handed i)) \<le> max 1 (b f)) \<Longrightarrow> bounded b p"
  by (auto simp: bounded_def)

lemma bounded_step:
  assumes "pstep b p p'" and "pinv p" and "bounded b p"
  shows "bounded b p'"
  using assms(1)
proof cases
  case (p_enqueue i f)
  moreover have "Enqueued i g \<notin> set (p_log p)" for g using boundedD(2) [OF assms(3)] p_enqueue(1,2) by fastforce
  moreover note untouched_count [OF assms(2) p_enqueue(2)] boundedD [OF assms(3)]
  ultimately show ?thesis by (intro boundedI) (auto split: if_splits)
next
  case (p_deliver i f L)
  moreover have "k \<le> i" if "Enqueued k g \<in> set (p_log p)" "p_entry p k = None" for k g
    using boundedD(2) [OF assms(3) that] p_deliver(2) by simp
  moreover note untouched_count [OF assms(2) p_deliver(2)] boundedD [OF assms(3)]
  ultimately show ?thesis by (intro boundedI) (auto split: if_splits)
next
  case (p_claim i f d L)
  have c: "count_list (p_log p) (Handed i) \<le> d" by (rule boundedD(1) [OF assms(3) p_claim(2)])
  show ?thesis
  proof (cases "L = []")
    case True
    with p_claim c boundedD [OF assms(3)] show ?thesis by (intro boundedI) (auto split: if_splits intro: le_SucI)
  next
    case False
    with p_claim(3) have L: "L = [Handed i]" "int d < b f" by auto
    then have "g = f" if "Enqueued i g \<in> set (p_log p)" for g using boundedD(3) [OF assms(3) that p_claim(1)] by simp
    moreover from c L(2) have "int (count_list (p_log p) (Handed i)) + 1 \<le> b f" by simp
    ultimately show ?thesis using p_claim(1,2,4) L boundedD [OF assms(3)] by (intro boundedI) (auto split: if_splits)
  qed
next
  case (p_forget m)
  moreover have "p_pend p k = Some d" if "m k = Some d" for k d
    using p_forget(1) [of k] that by simp
  moreover note boundedD [OF assms(3)]
  ultimately show ?thesis by (intro boundedI) auto
next
  case (p_letter i e)
  with boundedD [OF assms(3)] show ?thesis by (intro boundedI) auto
next
  case (p_ack e i)
  with boundedD [OF assms(3)] show ?thesis by (intro boundedI) (auto split: if_splits)
next
  case (p_delete i)
  moreover have "i \<le> p_last p" using p_delete(2) pinvD(3) [OF assms(2), of i] by (auto simp: event_defs)
  moreover note boundedD [OF assms(3)]
  ultimately show ?thesis by (intro boundedI) (auto split: if_splits)
qed

lemma preach_bounded: "preach b p \<Longrightarrow> bounded b p"
proof (induction rule: preach.induct)
  case (preach_start p)
  then show ?case by (simp add: bounded_def pstart_def)
qed (blast intro: bounded_step preach_pinv)

section \<open>The queue follows the protocol\<close>

definition proto_of :: "'s stream_ops \<Rightarrow> 's qstate \<Rightarrow> proto" where
  "proto_of X q = \<lparr>p_entry = (\<lambda>i. sx_entry X i (qs_store q)), p_pend = (\<lambda>i. deliveries X i (qs_store q)),
     p_last = sx_last_delivered X (qs_store q), p_log = qs_log q\<rparr>"

text \<open>The budget of a message that the queue reads off its fields.\<close>

definition budget_of :: "'s queue \<Rightarrow> fields \<Rightarrow> int" where
  "budget_of Q f = (case max_deliveries_from_fields f of Some b \<Rightarrow> b | None \<Rightarrow> q_max_deliveries Q)"

abbreviation psteps :: "'s queue \<Rightarrow> 's qstate \<Rightarrow> 's qstate \<Rightarrow> bool" where
  "psteps Q q q' \<equiv> (pstep (budget_of Q))\<^sup>*\<^sup>* (proto_of (q_ops Q) q) (proto_of (q_ops Q) q')"

text \<open>What a step about one message leaves alone: the deliveries of the others.\<close>

definition only_about :: "'s queue \<Rightarrow> nat \<Rightarrow> 's qstate \<Rightarrow> 's qstate \<Rightarrow> bool" where
  "only_about Q i q q' \<longleftrightarrow> psteps Q q q'
     \<and> (\<forall>k. k \<noteq> i \<longrightarrow> deliveries (q_ops Q) k (qs_store q') = deliveries (q_ops Q) k (qs_store q))"

lemma only_about_refl: "only_about Q i q q"
  by (simp add: only_about_def)

lemma only_about_trans: "only_about Q i q q1 \<Longrightarrow> only_about Q i q1 q2 \<Longrightarrow> only_about Q i q q2"
  unfolding only_about_def using rtranclp_trans by fastforce

lemma proto_of_cursor [simp]: "proto_of X (set_cursor c q) = proto_of X q"
  by (simp add: proto_of_def set_cursor_def)

lemmas qstate_defs = proto_of_def log_event_def put_store_def set_cursor_def

lemma only_about_step:
  assumes "pstep (budget_of Q) (proto_of (q_ops Q) q) (proto_of (q_ops Q) q')"
    and "\<And>k. k \<noteq> i \<Longrightarrow> deliveries (q_ops Q) k (qs_store q') = deliveries (q_ops Q) k (qs_store q)"
  shows "only_about Q i q q'"
  using assms by (simp add: only_about_def r_into_rtranclp)

lemma sorted_bounds: "sorted_wrt (<) (xs :: nat list) \<Longrightarrow> i \<in> set xs \<Longrightarrow> hd xs \<le> i \<and> i \<le> List.last xs"
  by (induction xs) (auto dest: last_in_set less_imp_le)

context stream_server
begin

lemma same_pending: "sx_pending X s' = sx_pending X s \<Longrightarrow> deliveries X k s' = deliveries X k s"
  by (simp add: deliveries_def)

lemma queue_ack_steps:
  assumes "q_ops Q = X" and "e = Worker_Acked i \<and> Handed i \<in> set (qs_log q)
      \<or> e = Acked i \<and> (Dead_Lettered i \<in> set (qs_log q) \<or> Quarantined i \<in> set (qs_log q))"
    and "queue_ack Q down e i q = (b, q')"
  shows "only_about Q i q q'"
proof (cases "down XACK")
  case True
  with assms(3) show ?thesis by (simp add: queue_ack_def only_about_refl)
next
  case False
  obtain a s where s: "sx_ack X i (qs_store q) = (a, s)" by fastforce
  define q1 where "q1 = log_event e (put_store s q)"
  note l = ack [OF s]
  have one: "only_about Q i q q1"
    using l assms(1,2) by (intro only_about_step p_ack [of e i]) (auto simp: q1_def qstate_defs fun_eq_iff)
  have two: "only_about Q i q1 (q1\<lparr>qs_store := sx_del X i (qs_store q1)\<rparr>)"
    using l assms(1,2) del same_pending [of "sx_del X i s" s] 
    by (intro only_about_step p_delete [of _ i]) (auto simp: q1_def qstate_defs fun_eq_iff)
  have "q' = q1 \<or> q' = q1\<lparr>qs_store := sx_del X i (qs_store q1)\<rparr>"
    using assms(1,3) False s by (auto simp: queue_ack_def q1_def log_event_def put_store_def split: if_splits)
  with one only_about_trans [OF one two] show ?thesis by blast
qed

lemma letter_step:
  assumes "q_ops Q = X" and "e = Dead_Lettered i \<or> e = Quarantined i" and "deliveries X i (qs_store q) \<noteq> None \<or> Handed i \<in> set (qs_log q)"
    and "sx_last_delivered X s = sx_last_delivered X (qs_store q)" "sx_pending X s = sx_pending X (qs_store q)"
    "\<forall>k. sx_entry X k s = sx_entry X k (qs_store q)"
  shows "only_about Q i q (log_event e (put_store s q))"
  using assms same_pending [OF assms(5)]
  by (intro only_about_step p_letter [of _ i e]) (auto simp: qstate_defs fun_eq_iff)

lemma dead_letter_steps:
  assumes "q_ops Q = X" and "deliveries X (st_id t) (qs_store q) \<noteq> None \<or> Handed (st_id t) \<in> set (qs_log q)" and "dead_letter Q down r p t q = (res, q')"
  shows "only_about Q (st_id t) q q' \<and> (\<forall>reason. res = Dl_Refused reason \<longrightarrow> q' = q)"
proof -
  define q1 where "q1 = log_event (Dead_Lettered (st_id t)) (put_store (sx_dlq X (envelope_of r p None t) (qs_store q)) q)"
  have one: "only_about Q (st_id t) q q1"
    unfolding q1_def by (rule letter_step [OF assms(1) _ assms(2)]) (simp_all add: letters)
  obtain ok q2 where a: "queue_ack Q down (Acked (st_id t)) (st_id t) q1 = (ok, q2)" by fastforce
  have "only_about Q (st_id t) q1 q2"
    by (rule queue_ack_steps [OF assms(1) _ a]) (simp add: q1_def log_event_def)
  then have "only_about Q (st_id t) q q2" by (rule only_about_trans [OF one])
  with a assms(1,3) show ?thesis
    by (auto simp: dead_letter_def q1_def Let_def only_about_refl split: option.splits if_splits)
qed

lemma quarantine_steps:
  assumes "q_ops Q = X" and "deliveries X (st_id t) (qs_store q) \<noteq> None \<or> Handed (st_id t) \<in> set (qs_log q)" and "quarantine_rejected Q down rr r p t q = (res, q')"
  shows "only_about Q (st_id t) q q'"
proof -
  define q1 where "q1 = log_event (Quarantined (st_id t))
    (put_store (sx_quarantine X (tenant_text (task_tenant t)) (envelope_of r p (Some rr) t) (qs_store q)) q)"
  have one: "only_about Q (st_id t) q q1"
    unfolding q1_def by (rule letter_step [OF assms(1) _ assms(2)]) (simp_all add: letters)
  obtain ok q2 where a: "queue_ack Q down (Acked (st_id t)) (st_id t) q1 = (ok, q2)" by fastforce
  have "only_about Q (st_id t) q1 q2"
    by (rule queue_ack_steps [OF assms(1) _ a]) (simp add: q1_def log_event_def)
  then have "only_about Q (st_id t) q q2" by (rule only_about_trans [OF one])
  with a assms(1,3) show ?thesis
    by (auto simp: quarantine_rejected_def q1_def only_about_refl split: option.splits if_splits)
qed

lemma dead_letter_if_allowed_steps:
  assumes "q_ops Q = X" and "deliveries X (st_id t) (qs_store q) \<noteq> None \<or> Handed (st_id t) \<in> set (qs_log q)" and "dead_letter_if_allowed Q down r p t q = (res, q')"
  shows "only_about Q (st_id t) q q'"
proof (cases "guard_allows_dead_letter Q t (qs_store q)")
  case True
  obtain w q1 where d: "dead_letter Q down r p t q = (w, q1)" by fastforce
  note ds = dead_letter_steps [OF assms(1,2) d]
  show ?thesis
  proof (cases "\<exists>reason. w = Dl_Refused reason")
    case refused: True
    then obtain reason where w: "w = Dl_Refused reason" by blast
    with ds have "q1 = q" by blast
    with assms(3) True d w obtain b where "quarantine_rejected Q down reason r p t q = (b, q')"
      by (auto simp: dead_letter_if_allowed_def split: prod.splits)
    then show ?thesis by (rule quarantine_steps [OF assms(1,2)])
  next
    case False
    with assms(3) True d have "q' = q1" by (auto simp: dead_letter_if_allowed_def split: dl_result.splits)
    with ds show ?thesis by blast
  qed
next
  case False
  with assms(3) show ?thesis by (simp add: dead_letter_if_allowed_def only_about_refl)
qed

lemma claim_steps:
  assumes "q_ops Q = X" and "sx_claim X n i (qs_store q) = (Some f, s)"
  shows "only_about Q i q (put_store s q)"
  using claim_Some [OF assms(2)] assms(1)
  by (auto intro!: only_about_step p_claim [of _ i f _ "[]"] simp: qstate_defs fun_eq_iff)

lemma claim_hand_step:
  assumes "q_ops Q = X" and "sx_claim X n i (qs_store q) = (Some f, s)"
    and "deliveries X i (qs_store q) = Some d" "int d < budget_of Q f"
  shows "psteps Q q (log_event (Handed i) (set_cursor c (put_store s q)))"
  using claim_Some [OF assms(2)] assms(1,3,4)
  by (auto intro!: r_into_rtranclp p_claim [of _ i f d "[Handed i]"] simp: qstate_defs fun_eq_iff)

lemma claim_none_step:
  assumes "q_ops Q = X" and "sx_claim X n i (qs_store q) = (None, s)"
  shows "psteps Q q (put_store s q)"
  using claim_None [OF assms(2)] assms(1)
  by (auto intro!: r_into_rtranclp p_forget [of "\<lambda>k. deliveries X k s"] simp: qstate_defs fun_eq_iff)

definition fresh_scan :: "(nat \<times> nat \<times> nat) list \<Rightarrow> 's \<Rightarrow> bool" where
  "fresh_scan es s \<longleftrightarrow> distinct (map fst es) \<and> (\<forall>(i, idle, d) \<in> set es. deliveries X i s = Some d \<or> deliveries X i s = None)"

lemma fresh_scan_Cons:
  "fresh_scan ((i, idle, d) # es) s \<Longrightarrow> (\<And>k. k \<noteq> i \<Longrightarrow> deliveries X k s' = deliveries X k s \<or> deliveries X k s' = None) \<Longrightarrow> fresh_scan es s'"
  unfolding fresh_scan_def by (fastforce simp: rev_image_eqI)

lemma fresh_scan_drop: "fresh_scan (e # es) s \<Longrightarrow> fresh_scan es s"
  by (simp add: fresh_scan_def)

lemma fresh_scan_only_about:
  "q_ops Q = X \<Longrightarrow> fresh_scan ((i, idle, d) # es) (qs_store q) \<Longrightarrow> only_about Q i q q' \<Longrightarrow> fresh_scan es (qs_store q')"
  by (erule fresh_scan_Cons) (simp add: only_about_def)

definition handed :: "scan_outcome \<Rightarrow> 's qstate \<Rightarrow> 's qstate" where
  "handed r q = (case r of Found t \<Rightarrow> log_event (Handed (st_id t)) q | _ \<Rightarrow> q)"

lemma task_fields:
  "task_from_fields loads i f n = Some t \<Longrightarrow> st_id t = i \<and> st_delivery_count t = n \<and> st_max_deliveries t = max_deliveries_from_fields f"
  by (auto simp: task_from_fields_def split: option.splits pyval.splits)

lemma dead_letter_only_about:
  assumes "q_ops Q = X" and "sx_claim X n i (qs_store q) = (Some f, s)" and "st_id t = i"
    and "dead_letter_if_allowed Q down r p t (put_store s q) = (res, q')"
  shows "only_about Q i q q'"
proof -
  have "deliveries X (st_id t) (qs_store (put_store s q)) \<noteq> None \<or> Handed (st_id t) \<in> set (qs_log (put_store s q))"
    using claim_Some [OF assms(2)] assms(3) by (auto simp: put_store_def)
  from dead_letter_if_allowed_steps [OF assms(1) this assms(4)] claim_steps [OF assms(1,2)] assms(3)
  show ?thesis by (blast intro: only_about_trans)
qed

lemma disposed_only_about:
  assumes "disposed i r = (c, q')" and "only_about Q i q (snd r)"
  shows "only_about Q i q (case c of None \<Rightarrow> q' | Some r \<Rightarrow> handed r q')"
  using assms by (auto simp: disposed_def handed_def only_about_def set_cursor_def proto_of_def split: prod.splits option.splits)

lemma reclaim_entry_steps:
  assumes "q_ops Q = X" and "deliveries X i (qs_store q) = Some d \<or> deliveries X i (qs_store q) = None"
    and "reclaim_entry Q down i d q = (c, q')"
  shows "psteps Q q (case c of None \<Rightarrow> q' | Some r \<Rightarrow> handed r q')"
    and "c = None \<Longrightarrow> k \<noteq> i \<Longrightarrow> deliveries X k (qs_store q') = deliveries X k (qs_store q) \<or> deliveries X k (qs_store q') = None"
proof -
  let ?q = "case c of None \<Rightarrow> q' | Some r \<Rightarrow> handed r q'"
  have "psteps Q q ?q \<and> (c = None \<longrightarrow> (\<forall>k. k \<noteq> i \<longrightarrow>
      deliveries X k (qs_store q') = deliveries X k (qs_store q) \<or> deliveries X k (qs_store q') = None))"
  proof (cases "down XCLAIM")
    case True
    with assms(3) show ?thesis by (auto simp: reclaim_entry_def handed_def)
  next
    case up: False
    obtain cl s where cl: "sx_claim X (q_min_idle Q) i (qs_store q) = (cl, s)" by fastforce
    show ?thesis
    proof (cases cl)
      case None
      with cl have n: "sx_claim X (q_min_idle Q) i (qs_store q) = (None, s)" by simp
      with assms(1,3) up have "c = None" "q' = put_store s q" by (simp_all add: reclaim_entry_def)
      moreover have "deliveries X k s = deliveries X k (qs_store q) \<or> deliveries X k s = None" for k
        using claim_None [OF n] by metis
      ultimately show ?thesis using claim_none_step [OF assms(1) n] by (auto simp: put_store_def)
    next
      case (Some f)
      note claimed = cl [unfolded Some]
      note about = dead_letter_only_about [OF assms(1) claimed]
      have finish: ?thesis if "only_about Q i q ?q"
        using that assms(1) by (auto simp: only_about_def)
      show ?thesis
      proof (cases "task_from_fields (q_loads Q) i f (max d 1)")
        case None
        with assms(1,3) up claimed have "disposed i (dead_letter_invalid Q down i f (max d 1) (put_store s q)) = (c, q')"
          by (simp add: reclaim_entry_def)
        then show ?thesis
          by (intro finish disposed_only_about) (auto simp: dead_letter_invalid_def Let_def intro: about [OF _ prod.collapse [symmetric]])
      next
        case (Some t)
        note tf = task_fields [OF Some]
        have open_entry: "(c, q') = (if unsupported_schema Q t then disposed i (reject_unsupported_schema Q down t (put_store s q))
            else if delivery_budget Q t \<le> int (st_delivery_count t)
              then disposed i (dead_letter_if_allowed Q down (Max_Deliveries (delivery_budget Q t)) (Body (st_body t)) t (put_store s q))
            else (Some (Found t), set_cursor (Some i) (put_store s q)))"
          using assms(1,3) up claimed Some by (simp add: reclaim_entry_def)
        consider (schema) "disposed i (reject_unsupported_schema Q down t (put_store s q)) = (c, q')"
          | (spent) "disposed i (dead_letter_if_allowed Q down (Max_Deliveries (delivery_budget Q t)) (Body (st_body t)) t (put_store s q)) = (c, q')"
          | (found) "c = Some (Found t)" "q' = set_cursor (Some i) (put_store s q)" "\<not> delivery_budget Q t \<le> int (st_delivery_count t)"
          using open_entry by (auto split: if_splits)
        then show ?thesis
        proof cases
          case schema
          then show ?thesis
            by (intro finish disposed_only_about)
              (auto simp: reject_unsupported_schema_def tf intro: about [OF _ prod.collapse [symmetric]])
        next
          case spent
          then show ?thesis by (intro finish disposed_only_about) (auto simp: tf intro: about [OF _ prod.collapse [symmetric]])
        next
          case found
          have d: "deliveries X i (qs_store q) = Some d" using assms(2) claim_Some [OF claimed] by auto
          have "int d < budget_of Q f" using found(3) tf by (simp add: delivery_budget_def budget_of_def)
          from claim_hand_step [OF assms(1) claimed d this] found tf show ?thesis by (simp add: handed_def)
        qed
      qed
    qed
  qed
  note both = this
  from both show "psteps Q q ?q" by (rule conjunct1)
  from both have "c = None \<longrightarrow> (\<forall>k. k \<noteq> i \<longrightarrow>
      deliveries X k (qs_store q') = deliveries X k (qs_store q) \<or> deliveries X k (qs_store q') = None)" by (rule conjunct2)
  then show "c = None \<Longrightarrow> k \<noteq> i \<Longrightarrow> deliveries X k (qs_store q') = deliveries X k (qs_store q) \<or> deliveries X k (qs_store q') = None"
    by simp
qed

lemma reclaim_scan_steps:
  "q_ops Q = X \<Longrightarrow> fresh_scan es (qs_store q) \<Longrightarrow> reclaim_scan Q down from es q = (r, q') \<Longrightarrow> psteps Q q (handed r q')"
proof (induction es arbitrary: q)
  case Nil
  then show ?case by (auto simp: handed_def)
next
  case (Cons e es)
  obtain i idle d where e: "e = (i, idle, d)" by (cases e)
  show ?case
  proof (cases "Some i = from \<or> idle < q_min_idle Q \<or> \<not> reclaim_allowed Q down i (qs_store q)")
    case True
    with Cons.IH [OF Cons.prems(1) fresh_scan_drop [OF Cons.prems(2)]] Cons.prems(3) show ?thesis by (simp add: e)
  next
    case False
    obtain c q1 where c: "reclaim_entry Q down i d q = (c, q1)" by fastforce
    have "deliveries X i (qs_store q) = Some d \<or> deliveries X i (qs_store q) = None"
      using Cons.prems(2) by (simp add: fresh_scan_def e)
    note es = reclaim_entry_steps [OF Cons.prems(1) this c]
    show ?thesis
    proof (cases c)
      case None
      have "fresh_scan es (qs_store q1)"
        using fresh_scan_Cons [OF Cons.prems(2) [unfolded e]] es(2) [OF None] by blast
      from Cons.IH [OF Cons.prems(1) this] Cons.prems(3) False c None
      have "psteps Q q1 (handed r q')" by (simp add: e)
      with es(1) None show ?thesis by (simp add: rtranclp_trans)
    next
      case (Some x)
      with es(1) Cons.prems(3) False c show ?thesis by (simp add: e)
    qed
  qed
qed

lemma pending_deliveries: "(i, idle, d) \<in> set (sx_pending X s) \<Longrightarrow> deliveries X i s = Some d"
  using pending_sorted [of s] by (simp add: deliveries_def strict_sorted_iff map_of_is_SomeI)

lemma reclaim_one_steps:
  assumes "q_ops Q = X" and "reclaim_one Q down q = (r, q')"
  shows "psteps Q q (handed r q')"
proof (cases "down XPENDING")
  case True
  with assms(2) show ?thesis by (auto simp: reclaim_one_def handed_def)
next
  case False
  let ?es = "pending_range X (qs_cursor q) (q_window Q) (qs_store q)"
  have "distinct (map fst ?es)"
    using pending_sorted [of "qs_store q"] by (simp add: pending_range_def strict_sorted_iff distinct_map_filter take_map [symmetric] distinct_take)
  moreover have "set ?es \<subseteq> set (sx_pending X (qs_store q))"
    by (auto simp: pending_range_def dest!: in_set_takeD)
  ultimately have es: "fresh_scan ?es (qs_store q)"
    unfolding fresh_scan_def using pending_deliveries by fastforce
  obtain r1 q1 where r1: "reclaim_scan Q down (qs_cursor q) ?es q = (r1, q1)" by fastforce
  note steps = reclaim_scan_steps [OF assms(1) es r1]
  show ?thesis
  proof (cases "?es = []")
    case True
    with False assms show ?thesis by (auto simp: reclaim_one_def handed_def)
  next
    case nonempty: False
    with False assms r1 have "(r, q') = (case r1 of
        Scanned_All \<Rightarrow> (Scanned_All, set_cursor (if length ?es < q_window Q then None else Some (fst (List.last ?es))) q1) | r \<Rightarrow> (r, q1))"
      by (simp add: reclaim_one_def Let_def split: scan_outcome.splits)
    with steps show ?thesis by (cases r1) (simp_all add: handed_def)
  qed
qed

lemma deliver_step:
  assumes "q_ops Q = X" and "sx_readgroup X (qs_store q) = (Some (i, f), s)" and "L = [Delivered i] \<or> L = [Handed i, Delivered i]"
    and "qs_store q' = s" "qs_log q' = L @ qs_log q"
  shows "psteps Q q q'"
proof -
  note l = readgroup_Some [OF assms(2)]
  have "pstep (budget_of Q) (proto_of X q) (proto_of X q')"
    by (rule p_deliver [where i = i and f = f and L = L]) (use l assms(3-5) in \<open>auto simp: proto_of_def fun_eq_iff\<close>)
  with assms(1) show ?thesis by (simp add: r_into_rtranclp)
qed

lemma queue_read_steps:
  assumes "q_ops Q = X" and "queue_read Q down q = (t, q')"
  shows "psteps Q q q'"
proof -
  obtain r q1 where r: "reclaim_one Q down q = (r, q1)" by fastforce
  note one = reclaim_one_steps [OF assms(1) r]
  show ?thesis
  proof (cases "r = Scanned_All \<and> \<not> down XREADGROUP")
    case False
    with assms(2) r one show ?thesis by (cases r) (auto simp: queue_read_def handed_def)
  next
    case True
    with one have one: "psteps Q q q1" by (simp add: handed_def)
    obtain m s where m: "sx_readgroup X (qs_store q1) = (m, s)" by fastforce
    show ?thesis
    proof (cases m)
      case None
      with readgroup_None m have "s = qs_store q1" by blast
      then have "q' = q1" using True assms r m None by (auto simp: queue_read_def put_store_def)
      with one show ?thesis by simp
    next
      case (Some e)
      then obtain i f where e: "m = Some (i, f)" by (cases e) auto
      note got = m [unfolded e]
      define q2 where "q2 = log_event (Delivered i) (put_store s q1)"
      have two: "psteps Q q1 q2"
        by (rule deliver_step [OF assms(1) got, of "[Delivered i]"]) (simp_all add: q2_def log_event_def put_store_def)
      have pend: "deliveries X i (qs_store q2) \<noteq> None"
        using readgroup_Some [OF got] by (simp add: q2_def log_event_def put_store_def)
      have moved: "psteps Q q (snd (dead_letter_if_allowed Q down rs p u q2))" if "st_id u = i" for rs p u
        using dead_letter_if_allowed_steps [OF assms(1), of u q2] pend that one two prod.collapse
        by (metis (no_types, lifting) only_about_def rtranclp_trans)
      have handed2: "psteps Q q (log_event (Handed i) q2)"
        using one deliver_step [OF assms(1) got, of "[Handed i, Delivered i]" "log_event (Handed i) q2"]
        by (auto simp: q2_def log_event_def put_store_def intro: rtranclp_trans)
      from True assms r got have "q' = (case task_from_fields (q_loads Q) i f 1 of
          None \<Rightarrow> snd (dead_letter_invalid Q down i f 1 q2)
        | Some t \<Rightarrow> if unsupported_schema Q t then snd (reject_unsupported_schema Q down t q2) else log_event (Handed i) q2)"
        by (auto simp: queue_read_def q2_def split: option.splits if_splits)
      then show ?thesis
        using moved handed2 by (auto simp: dead_letter_invalid_def reject_unsupported_schema_def Let_def task_fields split: option.splits)
    qed
  qed
qed

lemma enqueue_steps:
  assumes "q_ops Q = X" and "enqueue Q f q = (i, q')"
  shows "psteps Q q q'"
proof -
  obtain s where s: "sx_add X f (qs_store q) = (i, s)" "q' = log_event (Enqueued i f) (put_store s q)"
    using assms by (auto simp: enqueue_def split: prod.splits)
  have "pstep (budget_of Q) (proto_of X q) (proto_of X q')"
    by (rule p_enqueue [where i = i and f = f])
      (use add [OF s(1)] same_pending [of s "qs_store q"] s(2) in \<open>auto simp: qstate_defs fun_eq_iff\<close>)
  with assms(1) show ?thesis by (simp add: r_into_rtranclp)
qed

lemma pass_steps: "q_ops Q = X \<Longrightarrow> proto_of X (put_store (sx_pass X dt (qs_store q)) q) = proto_of X q"
  using pass by (auto simp: qstate_defs fun_eq_iff)

section \<open>The sweep\<close>

lemma sweep_victims_settled:
  assumes "q_ops Q = X" and "\<And>i. deliveries X i s \<noteq> None \<Longrightarrow> sx_entry X i s \<noteq> None" and "i \<in> set (sweep_victims Q batch s)"
  shows "deliveries X i s = None \<and> i \<le> sx_last_delivered X s"
proof -
  let ?n = "max 1 batch" and ?last = "sx_last_delivered X s"
  let ?ids = "sx_range X ?last ?n s"
  let ?pend = "filter (\<lambda>e. hd ?ids \<le> fst e \<and> fst e \<le> List.last ?ids) (sx_pending X s)"
  have i: "i \<in> set ?ids" "i \<notin> fst ` set (take ?n ?pend)" and ne: "?ids \<noteq> []"
    using assms(1,3) by (auto simp: sweep_victims_def Let_def split: if_splits)
  have sub: "fst ` set ?pend \<subseteq> set ?ids"
  proof
    fix k
    assume "k \<in> fst ` set ?pend"
    then have k: "k \<in> fst ` set (sx_pending X s)" "k \<le> List.last ?ids" by auto
    then have "deliveries X k s \<noteq> None" using pending_deliveries by fastforce
    with assms(2) range(4) [OF ne k(2)] show "k \<in> set ?ids" by blast
  qed
  have "distinct (map fst ?pend)" using pending_sorted [of s] by (simp add: strict_sorted_iff distinct_map_filter)
  then have "length ?pend = card (fst ` set ?pend)" using distinct_card [of "map fst ?pend"] by simp
  also have "\<dots> \<le> card (set ?ids)" by (rule card_mono [OF _ sub]) simp
  also have "\<dots> \<le> ?n" using card_length [of ?ids] range(2) [of ?last ?n s] by linarith
  finally have all: "take ?n ?pend = ?pend" by simp
  have "hd ?ids \<le> i \<and> i \<le> List.last ?ids"
    by (rule sorted_bounds [OF range(1) i(1)])
  then have "deliveries X i s = None"
    using i(2) unfolding all by (force simp: deliveries_def map_of_eq_None_iff)
  with range(3) [OF i(1)] show ?thesis by blast
qed

lemma sweep_steps:
  assumes "q_ops Q = X" and "\<And>i. deliveries X i (qs_store q) \<noteq> None \<Longrightarrow> sx_entry X i (qs_store q) \<noteq> None"
    and "sweep_acked_residue Q down batch q = (n, q')"
  shows "psteps Q q q'"
proof -
  have deleted: "deliveries X k (sx_del X i s) = deliveries X k s" for k i s
    by (rule same_pending) (use del in blast)
  have del_all: "psteps Q q (put_store (fold (sx_del X) vs (qs_store q)) q)"
    if "\<And>i. i \<in> set vs \<Longrightarrow> deliveries X i (qs_store q) = None \<and> i \<le> sx_last_delivered X (qs_store q)" for vs q
    using that
  proof (induction vs arbitrary: q)
    case Nil
    then show ?case by (simp add: put_store_def)
  next
    case (Cons i vs)
    let ?q = "put_store (sx_del X i (qs_store q)) q"
    have "psteps Q q ?q"
      using Cons.prems [of i] del deleted assms(1)
      by (auto intro!: r_into_rtranclp p_delete [where i = i] simp: qstate_defs fun_eq_iff)
    also have "psteps Q ?q (put_store (fold (sx_del X) vs (qs_store ?q)) ?q)"
      using Cons.prems del deleted by (intro Cons.IH) (auto simp: put_store_def)
    finally show ?case by (simp add: put_store_def)
  qed
  have "psteps Q q (put_store (fold (sx_del X) (sweep_victims Q batch (qs_store q)) (qs_store q)) q)"
    by (rule del_all) (rule sweep_victims_settled [OF assms(1,2)])
  with assms(1,3) show ?thesis by (auto simp: sweep_acked_residue_def Let_def split: if_splits)
qed

end

section \<open>Histories of the queue\<close>

text \<open>
  What may happen to a queue: messages are added; a consumer, each with a cursor of its own, reads with any commands
  lost, and acknowledges what it was handed or has it moved to the dead letters; residue is swept; time passes.
\<close>

inductive qreach :: "'s queue \<Rightarrow> 's qstate \<Rightarrow> bool" for Q where
  q_start: "pstart (proto_of (q_ops Q) q) \<Longrightarrow> qreach Q q"
| q_enqueue: "qreach Q q \<Longrightarrow> qreach Q (snd (enqueue Q f q))"
| q_read: "qreach Q q \<Longrightarrow> qreach Q (snd (queue_read Q down q))"
| q_ack: "qreach Q q \<Longrightarrow> Handed i \<in> set (qs_log q) \<Longrightarrow> qreach Q (snd (queue_ack Q down (Worker_Acked i) i q))"
| q_dead_letter: "qreach Q q \<Longrightarrow> Handed (st_id t) \<in> set (qs_log q) \<Longrightarrow> qreach Q (snd (dead_letter_if_allowed Q down r p t q))"
| q_consumer: "qreach Q q \<Longrightarrow> qreach Q (set_cursor c q)"
| q_sweep: "qreach Q q \<Longrightarrow> qreach Q (snd (sweep_acked_residue Q down batch q))"
| q_pass: "qreach Q q \<Longrightarrow> qreach Q (put_store (sx_pass (q_ops Q) dt (qs_store q)) q)"

lemma qreach_preach:
  assumes "stream_server (q_ops Q)" and "qreach Q q"
  shows "preach (budget_of Q) (proto_of (q_ops Q) q)"
  using assms(2)
proof (induction rule: qreach.induct)
  case (q_start q)
  then show ?case by (rule preach_start)
next
  case (q_enqueue q f)
  show ?case
    by (rule preach_steps [OF stream_server.enqueue_steps [OF assms(1) refl prod.collapse [symmetric]] q_enqueue.IH])
next
  case (q_read q down)
  show ?case
    by (rule preach_steps [OF stream_server.queue_read_steps [OF assms(1) refl prod.collapse [symmetric]] q_read.IH])
next
  case (q_ack q i down)
  have "only_about Q i q (snd (queue_ack Q down (Worker_Acked i) i q))"
    by (rule stream_server.queue_ack_steps [OF assms(1) refl _ prod.collapse [symmetric]]) (use q_ack.hyps(2) in simp)
  then show ?case by (intro preach_steps [OF _ q_ack.IH]) (simp add: only_about_def)
next
  case (q_dead_letter q t down r p)
  have "only_about Q (st_id t) q (snd (dead_letter_if_allowed Q down r p t q))"
    by (rule stream_server.dead_letter_if_allowed_steps [OF assms(1) refl _ prod.collapse [symmetric]]) (use q_dead_letter.hyps(2) in simp)
  then show ?case by (intro preach_steps [OF _ q_dead_letter.IH]) (simp add: only_about_def)
next
  case (q_consumer q c)
  then show ?case by simp
next
  case (q_sweep q down batch)
  have "sx_entry (q_ops Q) i (qs_store q) \<noteq> None" if "deliveries (q_ops Q) i (qs_store q) \<noteq> None" for i
    using pinvD(1) [OF preach_pinv [OF q_sweep.IH], of i] that by (auto simp: proto_of_def)
  from preach_steps [OF stream_server.sweep_steps [OF assms(1) refl this prod.collapse [symmetric]] q_sweep.IH]
  show ?case by simp
next
  case (q_pass q dt)
  with stream_server.pass_steps [OF assms(1) refl] show ?case by simp
qed

text \<open>
  Property C16.  The queue implements the protocol: with a server that keeps the laws of streams, in every history
  of enqueues, reads by any consumers with any commands lost, acknowledgements, dead letters, sweeps and passing
  time, the stream and the log are those of a run of the protocol, whose steps are single changes.
\<close>

theorem queue_refines_protocol:
  assumes "stream_server (q_ops Q)" and "qreach Q q"
  shows "preach (budget_of Q) (proto_of (q_ops Q) q)"
  using assms by (rule qreach_preach)

text \<open>
  Property C13.  No message is lost.  A message that was added stays in the stream, not delivered yet or pending, until a
  worker acknowledges it, or it has been copied to the dead letters or to the quarantine of its tenant; in any
  history, with any commands lost.
\<close>

theorem no_message_is_lost:
  assumes "stream_server (q_ops Q)" and "qreach Q q" and "Enqueued i f \<in> set (qs_log q)"
  shows "sx_entry (q_ops Q) i (qs_store q) = Some f
      \<and> (sx_last_delivered (q_ops Q) (qs_store q) < i \<or> deliveries (q_ops Q) i (qs_store q) \<noteq> None)
    \<or> Worker_Acked i \<in> set (qs_log q) \<or> Dead_Lettered i \<in> set (qs_log q) \<or> Quarantined i \<in> set (qs_log q)"
  using protocol_keeps_messages [OF qreach_preach [OF assms(1,2)], of i f] assms(3)
  by (simp add: proto_of_def kept_def accounted_def)

text \<open>
  Property C14.  A message is handed to workers at most as many times as its budget says: the one it carries, or else
  that of the queue, and once in any case.
\<close>

theorem handed_within_budget:
  assumes "stream_server (q_ops Q)" and "qreach Q q" and "Enqueued i f \<in> set (qs_log q)"
  shows "int (count_list (qs_log q) (Handed i)) \<le> max 1 (budget_of Q f)"
  using boundedD(4) [OF preach_bounded [OF qreach_preach [OF assms(1,2)]], of i f] assms(3)
  by (simp add: proto_of_def)

section \<open>Examples and witnesses\<close>

text \<open>
  A queue on \<open>ms_ops\<close> with two attempts for a message.  The message is added, handed out, handed out again when its
  consumer has been silent, and goes to the dead letters after that.
\<close>

definition ex_queue :: "mstream queue" where
  "ex_queue = \<lparr>q_ops = ms_ops, q_loads = \<lambda>_. Some (PDict []), q_min_idle = 10, q_window = 8, q_max_deliveries = 2, q_max_schema = Some 1,
     q_guard = None, q_lease_guard = None, q_gate = \<lambda>_ _ _. None, q_quota = None\<rparr>"

definition ex_fields :: fields where
  "ex_fields = \<lparr>f_payload = Some ''{}'', f_schema = None, f_max_deliveries = None, f_generation = None\<rparr>"

definition ex_start :: "mstream qstate" where
  "ex_start = \<lparr>qs_store = \<lparr>ms_entries = [], ms_last = 0, ms_pel = [], ms_letters = []\<rparr>, qs_cursor = None, qs_log = []\<rparr>"

definition ex_idle :: "mstream qstate \<Rightarrow> mstream qstate" where
  "ex_idle q = put_store (sx_pass (q_ops ex_queue) 20 (qs_store q)) q"

definition ex_read :: "mstream qstate \<Rightarrow> mstream qstate" where
  "ex_read q = snd (queue_read ex_queue (\<lambda>_. False) q)"

definition ex_handed :: "mstream qstate" where
  "ex_handed = ex_read (ex_idle (ex_read (snd (enqueue ex_queue ex_fields ex_start))))"

definition ex_dead :: "mstream qstate" where
  "ex_dead = ex_read (ex_read (ex_idle ex_handed))"

lemma ex_reach: "qreach ex_queue ex_handed" "qreach ex_queue ex_dead"
proof -
  have "qreach ex_queue ex_start"
    by (rule q_start) (simp add: pstart_def proto_of_def ex_start_def ex_queue_def ms_deliveries)
  then show h: "qreach ex_queue ex_handed"
    unfolding ex_handed_def ex_read_def ex_idle_def by (intro q_read q_pass q_enqueue)
  then show "qreach ex_queue ex_dead"
    unfolding ex_dead_def ex_read_def ex_idle_def by (intro q_read q_pass)
qed

lemma ex_log:
  "qs_log ex_handed = [Handed 1, Handed 1, Delivered 1, Enqueued 1 ex_fields]"
  "qs_log ex_dead = [Acked 1, Dead_Lettered 1, Handed 1, Handed 1, Delivered 1, Enqueued 1 ex_fields]"
  by code_simp+

lemma ex_budget: "budget_of ex_queue ex_fields = 2"
  by (simp add: budget_of_def ex_queue_def ex_fields_def max_deliveries_from_fields_def)

lemma ex_server: "stream_server (q_ops ex_queue)"
  by (simp add: ex_queue_def ms.stream_server_axioms)

theorem queue_refines_protocol_witness:
  "preach (budget_of ex_queue) (proto_of (q_ops ex_queue) ex_dead) \<and> Dead_Lettered 1 \<in> set (qs_log ex_dead)"
  using queue_refines_protocol [OF ex_server ex_reach(2)] by (simp add: ex_log)

theorem no_message_is_lost_witness:
  "sx_entry (q_ops ex_queue) 1 (qs_store ex_handed) = Some ex_fields \<and> deliveries (q_ops ex_queue) 1 (qs_store ex_handed) = Some 2"
proof -
  have "deliveries (q_ops ex_queue) 1 (qs_store ex_handed) = Some 2" by code_simp
  then show ?thesis using no_message_is_lost [OF ex_server ex_reach(1), of 1 ex_fields] by (simp add: ex_log)
qed

theorem handed_within_budget_witness:
  "int (count_list (qs_log ex_dead) (Handed 1)) \<le> 2 \<and> count_list (qs_log ex_dead) (Handed 1) = 2"
  using handed_within_budget [OF ex_server ex_reach(2), of 1 ex_fields] by (simp add: ex_log ex_budget)

end
