(* ===== verification/Queue_Scan.thy ===== *)
theory Queue_Scan
  imports Task_Queue
begin

text \<open>
  The scan of \<^verbatim>\<open>_reclaim_one\<close> in \<^verbatim>\<open>plaita/server/task_queue.py\<close> over successive reads: its cursor goes round the
  pending entries, so an orphan is reached although every other entry belongs to a living execution, if the window holds at
  least two entries.  With a window of one entry the cursor never leaves the first.
\<close>

section \<open>Successive scans\<close>

abbreviation no_faults :: "command \<Rightarrow> bool" where
  "no_faults \<equiv> \<lambda>_. False"

fun reclaim_times :: "'s queue \<Rightarrow> nat \<Rightarrow> 's qstate \<Rightarrow> scan_outcome \<times> 's qstate" where
  "reclaim_times Q 0 q = (Scanned_All, q)"
| "reclaim_times Q (Suc n) q = (case reclaim_one Q no_faults q of (Scanned_All, q') \<Rightarrow> reclaim_times Q n q' | r \<Rightarrow> r)"

text \<open>An entry that can be handed out as the task \<open>t\<close>, and one that cannot be claimed.\<close>

definition orphan :: "'s queue \<Rightarrow> 's \<Rightarrow> nat \<Rightarrow> stream_task \<Rightarrow> bool" where
  "orphan Q s i t \<longleftrightarrow> (\<exists>idle d f. (i, idle, d) \<in> set (sx_pending (q_ops Q) s) \<and> q_min_idle Q \<le> idle \<and> reclaim_allowed Q no_faults i s
     \<and> sx_entry (q_ops Q) i s = Some f \<and> task_from_fields (q_loads Q) i f (max d 1) = Some t
     \<and> \<not> unsupported_schema Q t \<and> int (st_delivery_count t) < delivery_budget Q t)"

definition busy :: "'s queue \<Rightarrow> 's \<Rightarrow> nat \<times> nat \<times> nat \<Rightarrow> bool" where
  "busy Q s e \<longleftrightarrow> fst (snd e) < q_min_idle Q \<or> \<not> reclaim_allowed Q no_faults (fst e) s"

definition above :: "nat option \<Rightarrow> nat \<Rightarrow> bool" where
  "above c k \<longleftrightarrow> (case c of None \<Rightarrow> True | Some j \<Rightarrow> j < k)"

definition from_cursor :: "nat option \<Rightarrow> nat \<Rightarrow> bool" where
  "from_cursor c k \<longleftrightarrow> (case c of None \<Rightarrow> True | Some j \<Rightarrow> j \<le> k)"

lemma pending_range_eq: "pending_range X c n s = take n (filter (\<lambda>e. from_cursor c (fst e)) (sx_pending X s))"
  by (simp add: pending_range_def from_cursor_def cong: filter_cong)

definition next_cursor :: "'s queue \<Rightarrow> 's \<Rightarrow> nat option \<Rightarrow> nat option" where
  "next_cursor Q s c = (let es = pending_range (q_ops Q) c (q_window Q) s in
     if es = [] \<or> length es < q_window Q then None else Some (fst (List.last es)))"

text \<open>The entries that the cursor has still ahead.\<close>

definition ahead :: "'s queue \<Rightarrow> 's \<Rightarrow> nat option \<Rightarrow> nat" where
  "ahead Q s c = card {k \<in> fst ` set (sx_pending (q_ops Q) s). above c k}"

lemma ahead_le: "ahead Q s c \<le> length (sx_pending (q_ops Q) s)"
proof -
  have "ahead Q s c \<le> card (fst ` set (sx_pending (q_ops Q) s))"
    unfolding ahead_def by (rule card_mono) auto
  also have "\<dots> \<le> card (set (sx_pending (q_ops Q) s))" by (rule card_image_le) simp
  also have "\<dots> \<le> length (sx_pending (q_ops Q) s)" by (rule card_length)
  finally show ?thesis .
qed

lemma ahead_less: "above c k \<Longrightarrow> k \<in> fst ` set (sx_pending (q_ops Q) s) \<Longrightarrow> ahead Q s (Some k) < ahead Q s c"
  unfolding ahead_def by (rule psubset_card_mono) (auto simp: above_def split: option.splits)

lemma scan_busy:
  "\<forall>e \<in> set es. Some (fst e) = from \<or> busy Q (qs_store q) e \<Longrightarrow> reclaim_scan Q no_faults from es q = (Scanned_All, q)"
  by (induction es) (auto simp: busy_def)

context stream_server
begin

lemma scan_finds:
  assumes "q_ops Q = X" and "orphan Q (qs_store q) i t" and "Some i \<noteq> from"
    and "distinct (map fst es)" and "set es \<subseteq> set (sx_pending X (qs_store q))" and "i \<in> fst ` set es"
    and "\<forall>e \<in> set es. fst e \<noteq> i \<longrightarrow> busy Q (qs_store q) e"
  shows "\<exists>q'. reclaim_scan Q no_faults from es q = (Found t, q')"
  using assms(4-7)
proof (induction es)
  case (Cons e es)
  obtain k idle d where e: "e = (k, idle, d)" by (cases e)
  show ?case
  proof (cases "k = i")
    case True
    from assms(1,2) obtain idle' d' f where orp:
      "(i, idle', d') \<in> set (sx_pending X (qs_store q))" "q_min_idle Q \<le> idle'" "reclaim_allowed Q no_faults i (qs_store q)"
      "sx_entry X i (qs_store q) = Some f" "task_from_fields (q_loads Q) i f (max d' 1) = Some t"
      "\<not> unsupported_schema Q t" "int (st_delivery_count t) < delivery_budget Q t"
      unfolding orphan_def by blast
    have "distinct (map fst (sx_pending X (qs_store q)))" using pending_sorted by (simp add: strict_sorted_iff)
    moreover have "(i, idle, d) \<in> set (sx_pending X (qs_store q))" using Cons.prems(2) e True by simp
    ultimately have same: "idle' = idle" "d' = d" using orp(1) by (auto dest!: map_of_is_SomeI [rotated] simp: map_of_is_SomeI)
    from claim_idle [OF orp(1,2,4)] obtain s where s: "sx_claim X (q_min_idle Q) i (qs_store q) = (Some f, s)" by blast
    with orp same assms(1) have "reclaim_entry Q no_faults i d q = (Some (Found t), set_cursor (Some i) (put_store s q))"
      by (simp add: reclaim_entry_def)
    with orp same assms(3) e True show ?thesis by auto
  next
    case False
    then have "busy Q (qs_store q) e" "i \<in> fst ` set es" using Cons.prems(3,4) e by auto
    with Cons e show ?thesis by (auto simp: busy_def)
  qed
qed simp

lemma window_facts:
  "distinct (map fst (pending_range X c n s))" "set (pending_range X c n s) \<subseteq> set (sx_pending X s)"
  "sorted_wrt (<) (map fst (pending_range X c n s))" "e \<in> set (pending_range X c n s) \<Longrightarrow> from_cursor c (fst e)"
proof -
  have "sorted_wrt (<) (map fst (filter (\<lambda>e. from_cursor c (fst e)) (sx_pending X s)))"
    using pending_sorted [of s] by (simp add: sorted_wrt_map sorted_wrt_filter)
  then show s: "sorted_wrt (<) (map fst (pending_range X c n s))"
    by (simp add: pending_range_eq take_map [symmetric] sorted_wrt_take)
  then show "distinct (map fst (pending_range X c n s))" by (simp add: strict_sorted_iff)
  show "set (pending_range X c n s) \<subseteq> set (sx_pending X s)" "e \<in> set (pending_range X c n s) \<Longrightarrow> from_cursor c (fst e)"
    by (auto simp: pending_range_eq dest!: in_set_takeD)
qed

lemma window_complete:
  assumes "k \<in> fst ` set (sx_pending X s)" and "from_cursor c k" and "k \<notin> fst ` set (pending_range X c n s)"
  shows "length (pending_range X c n s) = n" and "0 < n \<Longrightarrow> fst (List.last (pending_range X c n s)) < k"
proof -
  let ?F = "filter (\<lambda>e. from_cursor c (fst e)) (sx_pending X s)"
  from assms(1,2) have "k \<in> fst ` set ?F" by auto
  moreover have "fst ` set ?F = fst ` set (take n ?F) \<union> fst ` set (drop n ?F)"
    by (metis append_take_drop_id image_Un set_append)
  ultimately have k: "k \<in> fst ` set (drop n ?F)" using assms(3) by (auto simp: pending_range_eq)
  then have "drop n ?F \<noteq> []" by auto
  then show len: "length (pending_range X c n s) = n" by (simp add: pending_range_eq)
  assume "0 < n"
  with len have "pending_range X c n s \<noteq> []" by auto
  moreover have "sorted_wrt (<) (map fst (take n ?F) @ map fst (drop n ?F))"
    using pending_sorted [of s] by (simp add: map_append [symmetric] sorted_wrt_map sorted_wrt_filter del: map_append)
  ultimately show "fst (List.last (pending_range X c n s)) < k"
    using k by (fastforce simp: sorted_wrt_append pending_range_eq)
qed

lemma reclaim_one_busy:
  assumes "q_ops Q = X" and "orphan Q (qs_store q) i t"
    and "\<forall>e \<in> set (sx_pending X (qs_store q)). fst e \<noteq> i \<longrightarrow> busy Q (qs_store q) e"
  defines "es \<equiv> pending_range X (qs_cursor q) (q_window Q) (qs_store q)"
  shows "Some i \<noteq> qs_cursor q \<Longrightarrow> i \<in> fst ` set es \<Longrightarrow> \<exists>q'. reclaim_one Q no_faults q = (Found t, q')"
    and "Some i = qs_cursor q \<or> i \<notin> fst ` set es \<Longrightarrow>
      reclaim_one Q no_faults q = (Scanned_All, set_cursor (next_cursor Q (qs_store q) (qs_cursor q)) q)"
proof -
  note w = window_facts [where c = "qs_cursor q" and n = "q_window Q" and s = "qs_store q", folded es_def]
  have others: "\<forall>e \<in> set es. fst e \<noteq> i \<longrightarrow> busy Q (qs_store q) e" using w(2) assms(3) by blast
  show "\<exists>q'. reclaim_one Q no_faults q = (Found t, q')" if "Some i \<noteq> qs_cursor q" "i \<in> fst ` set es"
    using scan_finds [OF assms(1,2) that(1) w(1,2) that(2) others] that(2) assms(1)
    by (auto simp: reclaim_one_def Let_def es_def)
  assume "Some i = qs_cursor q \<or> i \<notin> fst ` set es"
  with others have "reclaim_scan Q no_faults (qs_cursor q) es q = (Scanned_All, q)" by (intro scan_busy) auto
  with assms(1) show "reclaim_one Q no_faults q = (Scanned_All, set_cursor (next_cursor Q (qs_store q) (qs_cursor q)) q)"
    by (simp add: reclaim_one_def next_cursor_def Let_def es_def)
qed

text \<open>The window moves on.\<close>

lemma window_moves:
  assumes "q_ops Q = X" and "2 \<le> q_window Q" and "next_cursor Q s c = Some k"
  shows "above c k" and "k \<in> fst ` set (sx_pending X s)"
proof -
  let ?es = "pending_range X c (q_window Q) s"
  from assms(1,3) have es: "?es \<noteq> []" "\<not> length ?es < q_window Q" "k = fst (List.last ?es)"
    by (auto simp: next_cursor_def Let_def split: if_splits)
  note w = window_facts [where c = c and n = "q_window Q" and s = s]
  from es(1,3) w(2) show "k \<in> fst ` set (sx_pending X s)" by (meson image_eqI last_in_set subsetD)
  obtain e1 e2 r where split: "?es = e1 # e2 # r"
    using es(2) assms(2) by (cases ?es; cases "tl ?es") auto
  with w(3) es(3) have "fst e1 < k" by (auto simp: split_paired_all dest: last_in_set)
  with w(4) [of e1] split show "above c k" by (auto simp: above_def from_cursor_def split: option.splits)
qed

lemma reach_ahead:
  assumes "q_ops Q = X" and "2 \<le> q_window Q"
  shows "orphan Q (qs_store q) i t \<Longrightarrow> \<forall>e \<in> set (sx_pending X (qs_store q)). fst e \<noteq> i \<longrightarrow> busy Q (qs_store q) e \<Longrightarrow>
    above (qs_cursor q) i \<Longrightarrow> \<exists>n \<le> ahead Q (qs_store q) (qs_cursor q). fst (reclaim_times Q n q) = Found t"
proof (induction "ahead Q (qs_store q) (qs_cursor q)" arbitrary: q rule: less_induct)
  case less
  let ?c = "qs_cursor q" and ?s = "qs_store q"
  let ?es = "pending_range X ?c (q_window Q) ?s"
  note one = reclaim_one_busy [OF assms(1) less.prems(1,2)]
  have i: "i \<in> fst ` set (sx_pending X ?s)" using less.prems(1) assms(1) by (force simp: orphan_def)
  have ne: "Some i \<noteq> ?c" and fc: "from_cursor ?c i"
    using less.prems(3) by (auto simp: above_def from_cursor_def split: option.splits)
  show ?case
  proof (cases "i \<in> fst ` set ?es")
    case True
    have "{k \<in> fst ` set (sx_pending X ?s). above ?c k} \<noteq> {}" using i less.prems(3) by blast
    then have "1 \<le> ahead Q ?s ?c" using assms(1) by (simp add: ahead_def Suc_le_eq card_gt_0_iff)
    moreover from one(1) [OF ne True] have "fst (reclaim_times Q 1 q) = Found t" by auto
    ultimately show ?thesis by blast
  next
    case False
    note full = window_complete [OF i fc False]
    let ?k = "fst (List.last ?es)"
    have k: "next_cursor Q ?s ?c = Some ?k" using full(1) assms by (auto simp: next_cursor_def Let_def)
    note moved = window_moves [OF assms k]
    have "ahead Q ?s (Some ?k) < ahead Q ?s ?c" using ahead_less moved assms(1) by metis
    moreover have "above (Some ?k) i" using full(2) assms(2) by (simp add: above_def)
    ultimately obtain n where n: "n \<le> ahead Q ?s (Some ?k)" "fst (reclaim_times Q n (set_cursor (Some ?k) q)) = Found t"
      using less.hyps [of "set_cursor (Some ?k) q"] less.prems(1,2) by (auto simp: set_cursor_def)
    have "fst (reclaim_times Q (Suc n) q) = Found t" using one(2) False k n(2) by simp
    moreover have "Suc n \<le> ahead Q ?s ?c" using n(1) \<open>ahead Q ?s (Some ?k) < ahead Q ?s ?c\<close> by simp
    ultimately show ?thesis by blast
  qed
qed

lemma reach_behind:
  assumes "q_ops Q = X" and "2 \<le> q_window Q"
  shows "orphan Q (qs_store q) i t \<Longrightarrow> \<forall>e \<in> set (sx_pending X (qs_store q)). fst e \<noteq> i \<longrightarrow> busy Q (qs_store q) e \<Longrightarrow>
    \<not> above (qs_cursor q) i \<Longrightarrow>
    \<exists>n \<le> ahead Q (qs_store q) (qs_cursor q) + 1 + length (sx_pending X (qs_store q)). fst (reclaim_times Q n q) = Found t"
proof (induction "ahead Q (qs_store q) (qs_cursor q)" arbitrary: q rule: less_induct)
  case less
  let ?c = "qs_cursor q" and ?s = "qs_store q"
  let ?q = "set_cursor (next_cursor Q ?s ?c) q"
  have "Some i = ?c \<or> i \<notin> fst ` set (pending_range X ?c (q_window Q) ?s)"
    using less.prems(3) window_facts(4) [where c = ?c and n = "q_window Q" and s = ?s] by (fastforce simp: above_def from_cursor_def split: option.splits)
  note one = reclaim_one_busy(2) [OF assms(1) less.prems(1,2) this]
  have "\<exists>n \<le> ahead Q ?s ?c + length (sx_pending X ?s). fst (reclaim_times Q n ?q) = Found t"
  proof (cases "next_cursor Q ?s ?c")
    case None
    with reach_ahead [OF assms, of ?q i t] less.prems(1,2) obtain n where
      "n \<le> ahead Q ?s None" "fst (reclaim_times Q n ?q) = Found t" by (auto simp: set_cursor_def above_def)
    with ahead_le [of Q ?s None] assms(1) show ?thesis by (intro exI [of _ n]) simp
  next
    case (Some k)
    note moved = window_moves [OF assms Some]
    have less': "ahead Q ?s (Some k) < ahead Q ?s ?c" using ahead_less moved assms(1) by metis
    moreover have "\<not> above (Some k) i" using less.prems(3) moved(1) by (auto simp: above_def split: option.splits)
    ultimately obtain n where "n \<le> ahead Q ?s (Some k) + 1 + length (sx_pending X ?s)" "fst (reclaim_times Q n ?q) = Found t"
      using less.hyps [of ?q] less.prems(1,2) Some by (auto simp: set_cursor_def)
    with less' show ?thesis by (intro exI [of _ n]) simp
  qed
  then obtain n where n: "n \<le> ahead Q ?s ?c + length (sx_pending X ?s)" "fst (reclaim_times Q n ?q) = Found t" by blast
  from n(2) one have "fst (reclaim_times Q (Suc n) q) = Found t" by simp
  with n(1) show ?case by (intro exI [of _ "Suc n"]) simp
qed

lemma orphan_reached:
  assumes "q_ops Q = X" and "2 \<le> q_window Q" and "orphan Q (qs_store q) i t"
    and "\<forall>e \<in> set (sx_pending X (qs_store q)). fst e \<noteq> i \<longrightarrow> busy Q (qs_store q) e"
  shows "\<exists>n \<le> 2 * length (sx_pending X (qs_store q)) + 1. fst (reclaim_times Q n q) = Found t"
proof (cases "above (qs_cursor q) i")
  case True
  from reach_ahead [OF assms True] obtain n where "n \<le> ahead Q (qs_store q) (qs_cursor q)" "fst (reclaim_times Q n q) = Found t"
    by blast
  with ahead_le [of Q "qs_store q" "qs_cursor q"] assms(1) show ?thesis by (intro exI [of _ n]) simp
next
  case False
  from reach_behind [OF assms False] obtain n where
    "n \<le> ahead Q (qs_store q) (qs_cursor q) + 1 + length (sx_pending X (qs_store q))" "fst (reclaim_times Q n q) = Found t" by blast
  with ahead_le [of Q "qs_store q" "qs_cursor q"] assms(1) show ?thesis by (intro exI [of _ n]) simp
qed

end

text \<open>
  Property C15.  No orphan starves.  With a window of two entries or more, a pending message that is idle, free of a living
  execution and within its budget is handed out after at most two rounds of scans, although every other pending
  message stays blocked, wherever the cursor stands.
\<close>

theorem orphan_is_reclaimed:
  assumes "stream_server (q_ops Q)" and "2 \<le> q_window Q" and "orphan Q (qs_store q) i t"
    and "\<forall>e \<in> set (sx_pending (q_ops Q) (qs_store q)). fst e \<noteq> i \<longrightarrow> busy Q (qs_store q) e"
  shows "\<exists>n \<le> 2 * length (sx_pending (q_ops Q) (qs_store q)) + 1. fst (reclaim_times Q n q) = Found t"
  by (rule stream_server.orphan_reached [OF assms(1) refl assms(2-4)])

text \<open>
  With a window of one entry the scan stays on the first pending entry while that one is busy, and reaches no orphan
  behind it: the cursor is the only entry in the window, and it is skipped.
\<close>

lemma window_of_one_starves:
  assumes "q_window Q = 1" and "sx_pending (q_ops Q) (qs_store q) = e # es" and "sorted_wrt (<) (map fst (e # es))"
    and "busy Q (qs_store q) e"
  shows "qs_cursor q = None \<or> qs_cursor q = Some (fst e) \<Longrightarrow> fst (reclaim_times Q n q) = Scanned_All"
  using assms
proof (induction n arbitrary: q)
  case (Suc n)
  have "pending_range (q_ops Q) (qs_cursor q) 1 (qs_store q) = [e]"
    using Suc.prems(1,3) by (auto simp: pending_range_eq from_cursor_def)
  moreover have "reclaim_scan Q no_faults (qs_cursor q) [e] q = (Scanned_All, q)"
    using Suc.prems(5) by (intro scan_busy) simp
  ultimately have "reclaim_one Q no_faults q = (Scanned_All, set_cursor (Some (fst e)) q)"
    using Suc.prems(2) by (simp add: reclaim_one_def)
  with Suc.IH [of "set_cursor (Some (fst e)) q"] Suc.prems show ?case by (simp add: set_cursor_def)
qed simp

text \<open>
  Three pending messages, of which the first two belong to living executions, and a window of two: the orphan is handed out by the
  second scan, and by none with a window of one.
\<close>

definition ex_scan :: "nat \<Rightarrow> mstream queue" where
  "ex_scan w = \<lparr>q_ops = ms_ops, q_loads = \<lambda>p. Some (PDict [(''busy'', PBool (p = ''busy''))]), q_min_idle = 10, q_window = w,
     q_max_deliveries = 5, q_max_schema = None, q_guard = None, q_lease_guard = Some (\<lambda>d _. Some (pget d ''busy'' PNone = PBool True)),
     q_gate = \<lambda>_ _ _. None, q_quota = None\<rparr>"

definition ex_entry :: "string \<Rightarrow> fields" where
  "ex_entry p = \<lparr>f_payload = Some p, f_schema = None, f_max_deliveries = None, f_generation = None\<rparr>"

definition ex_pending :: "mstream qstate" where
  "ex_pending = \<lparr>qs_store = \<lparr>ms_entries = [(1, ex_entry ''busy''), (2, ex_entry ''busy''), (3, ex_entry ''free'')], ms_last = 3,
     ms_pel = [(1, 50, 1), (2, 50, 1), (3, 50, 1)], ms_letters = []\<rparr>, qs_cursor = None, qs_log = []\<rparr>"

definition ex_task :: stream_task where
  "ex_task = \<lparr>st_id = 3, st_body = [(''busy'', PBool False)], st_delivery_count = 1, st_schema = 1, st_schema_rejected = False,
     st_max_deliveries = None, st_generation = None\<rparr>"

lemma ex_sorted: "ms_ids [(1, 50, 1), (2, 50, 1), (3, 50, 1 :: nat)] = [1, 2, 3]"
  by code_simp

lemma ex_pending_list: "sx_pending (q_ops (ex_scan w)) (qs_store ex_pending) = [(1, 50, 1), (2, 50, 1), (3, 50, 1)]"
  by (simp add: ex_scan_def ms_ops_def ms_pending_def ex_pending_def ms_ids_def)

lemma ex_busy: "busy (ex_scan w) (qs_store ex_pending) (1, 50, 1)" "busy (ex_scan w) (qs_store ex_pending) (2, 50, 1)"
  by (simp_all add: busy_def reclaim_allowed_def peek_task_body_def ex_scan_def ex_pending_def ms_ops_def ex_entry_def pget_def dict_get_Cons)

lemma ex_orphan: "orphan (ex_scan w) (qs_store ex_pending) 3 ex_task"
proof -
  have "reclaim_allowed (ex_scan w) no_faults 3 (qs_store ex_pending)"
    by (simp add: reclaim_allowed_def peek_task_body_def ex_scan_def ex_pending_def ms_ops_def ex_entry_def pget_def dict_get_Cons)
  moreover have "sx_entry (q_ops (ex_scan w)) 3 (qs_store ex_pending) = Some (ex_entry ''free'')"
    by (simp add: ex_scan_def ex_pending_def ms_ops_def)
  moreover have "task_from_fields (q_loads (ex_scan w)) 3 (ex_entry ''free'') (max 1 1) = Some ex_task"
    by (simp add: task_from_fields_def ex_scan_def ex_entry_def ex_task_def schema_version_from_fields_def
        max_deliveries_from_fields_def tenant_generation_from_fields_def LEGACY_TASK_SCHEMA_VERSION_def)
  ultimately show ?thesis
    unfolding orphan_def ex_pending_list
    by (intro exI [of _ 50] exI [of _ 1] exI [of _ "ex_entry ''free''"])
      (simp add: ex_scan_def unsupported_schema_def delivery_budget_def ex_task_def)
qed

theorem orphan_is_reclaimed_witness:
  "\<exists>n \<le> 7. fst (reclaim_times (ex_scan 2) n ex_pending) = Found ex_task"
  using orphan_is_reclaimed [of "ex_scan 2" ex_pending 3 ex_task] ex_orphan [of 2] ex_busy [of 2] ex_pending_list [of 2] ms.stream_server_axioms
  by (simp add: ex_scan_def)

lemma ex_window_of_one: "fst (reclaim_times (ex_scan 1) n ex_pending) = Scanned_All"
  by (rule window_of_one_starves [where e = "(1, 50, 1)" and es = "[(2, 50, 1), (3, 50, 1)]"])
    (simp_all add: ex_busy ex_pending_list ex_scan_def [of 1, THEN arg_cong [of _ _ q_window]] ex_pending_def [THEN arg_cong [of _ _ qs_cursor]] del: One_nat_def)

end
