(* ===== verification/Worker_Retry.thy ===== *)
theory Worker_Retry
  imports Runner Start_Dedup "HOL-Library.AList" "HOL-Library.Sublist"
begin

text \<open>
  \<^verbatim>\<open>plaita/server/flow_worker.py\<close>, the failure of a step: the classification of the chain of causes of an exception, the
  counters which bound the repetitions of a node, of an execution and of its wakeups, and what the worker decides.  The
  counters live in Redis: the commands are those of \<open>Redis_Store\<close> with a scan for a prefix (SCAN with a pattern
  free of wildcards).  Only INCR writes the counters, so their texts are read as decimal numbers.  A client that
  is absent (\<open>None\<close>) and a lost connection give the same result in all functions but one, where the loss is an argument.
\<close>

declare nat_str.simps [simp del]

section \<open>Chains of causes\<close>

text \<open>\<open>NodeExecutionError.node\<close>: the id itself, or an object with an id and a name.\<close>

datatype node_ref = No_Node | Node_Text string | Node_Object "string option" "string option"

record err_link =
  el_exc :: exc
  el_node :: node_ref

definition isa :: "err_link \<Rightarrow> exc_class \<Rightarrow> bool" where
  "isa x c \<longleftrightarrow> exc_isa (e_class (el_exc x)) c"

definition NODE_RETRY_CHAIN_MAX_DEPTH :: nat where
  "NODE_RETRY_CHAIN_MAX_DEPTH = 5"

definition settles :: "err_link \<Rightarrow> bool" where
  "settles x \<longleftrightarrow> isa x NodeTimeoutError \<or> isa x FlowTimeoutError \<or> isa x FlowCancelledException \<or> isa x SuspendNotExecutableError"

fun retry_scan :: "nat \<Rightarrow> bool \<Rightarrow> err_link list \<Rightarrow> bool" where
  "retry_scan 0 seen cs = seen"
| "retry_scan (Suc d) seen [] = seen"
| "retry_scan (Suc d) seen (c # cs) =
     (if settles c then False
      else if isa c NodeExecutionError then retry_scan d True cs
      else if seen \<and> \<not> is_retryable_error (el_exc c) then False
      else retry_scan d seen cs)"

text \<open>A chain \<open>errs\<close> is the exception with its causes.\<close>

definition is_retryable_node_failure :: "err_link list \<Rightarrow> bool" where
  "is_retryable_node_failure errs = retry_scan NODE_RETRY_CHAIN_MAX_DEPTH False (tl errs)"

definition chain_has_cancellation :: "err_link list \<Rightarrow> bool" where
  "chain_has_cancellation errs = list_ex (\<lambda>x. isa x FlowCancelledException) (take (NODE_RETRY_CHAIN_MAX_DEPTH + 2) errs)"

definition chain_has_resume_guard_error :: "err_link list \<Rightarrow> bool" where
  "chain_has_resume_guard_error errs = list_ex (\<lambda>x. isa x ResumeGuardError) (take (NODE_RETRY_CHAIN_MAX_DEPTH + 2) errs)"

definition ref_id :: "node_ref \<Rightarrow> string option" where
  "ref_id r =
     (case r of
        No_Node \<Rightarrow> None
      | Node_Text s \<Rightarrow> if s = [] then None else Some s
      | Node_Object i n \<Rightarrow> if str_truthy i then i else if str_truthy n then n else None)"

definition node_id_from_chain :: "err_link list \<Rightarrow> string option" where
  "node_id_from_chain errs =
     (case find (\<lambda>x. isa x NodeExecutionError) (take (NODE_RETRY_CHAIN_MAX_DEPTH + 2) errs) of
        None \<Rightarrow> None
      | Some x \<Rightarrow> ref_id (el_node x))"

text \<open>\<open>_error_fields\<close>, its choice of the exception that names the failure; here the chain follows causes and contexts.\<close>

definition error_identity :: "err_link list \<Rightarrow> err_link option" where
  "error_identity errs =
     (case find (\<lambda>x. isa x SuspendNotExecutableError) errs of
        Some x \<Rightarrow> Some x
      | None \<Rightarrow>
          (case find (\<lambda>x. isa x NodeExecutionError \<or> isa x NodeTimeoutError) errs of
             Some x \<Rightarrow> Some x
           | None \<Rightarrow>
               (case filter (\<lambda>x. isa x FlowExecutionException) errs of
                  [] \<Rightarrow> (case errs of [] \<Rightarrow> None | x # _ \<Rightarrow> Some x)
                | es \<Rightarrow> Some (List.last es))))"

section \<open>The flow fingerprint on resume\<close>

datatype hash_change = No_Guard | Hash_Match | Hash_Refresh | Hash_Accepted | Hash_Mismatch

definition classify_flow_hash_change :: "string option \<Rightarrow> string \<Rightarrow> string option \<Rightarrow> string \<Rightarrow> bool \<Rightarrow> hash_change" where
  "classify_flow_hash_change stored_hash current_hash stored_algo current_algo allow_change =
     (if \<not> str_truthy stored_hash then No_Guard
      else if stored_hash = Some current_hash then (if stored_algo = Some current_algo then Hash_Match else Hash_Refresh)
      else if str_truthy stored_algo \<and> stored_algo \<noteq> Some current_algo \<and> allow_change then Hash_Accepted
      else Hash_Mismatch)"

section \<open>Counters\<close>

definition NODE_RETRY_TOTAL_MAX :: nat where
  "NODE_RETRY_TOTAL_MAX = 100"

definition DETERMINISTIC_FAILURE_MAX :: nat where
  "DETERMINISTIC_FAILURE_MAX = 12"

definition G1_MAX_WAKEUPS :: nat where
  "G1_MAX_WAKEUPS = 2"

definition COUNTER_TTL_SECONDS :: int where
  "COUNTER_TTL_SECONDS = 7 * 86400"

definition DEFAULT_MAX_DELIVERIES :: int where
  "DEFAULT_MAX_DELIVERIES = 5"

definition node_retry_budget :: "int option \<Rightarrow> int" where
  "node_retry_budget configured =
     (case configured of None \<Rightarrow> DEFAULT_MAX_DELIVERIES | Some n \<Rightarrow> if n = 0 then DEFAULT_MAX_DELIVERIES else max 1 n)"

definition node_retry_total_key :: "string option \<Rightarrow> string \<Rightarrow> string" where
  "node_retry_total_key t e = tenant_namespace t @ '':execution:noderefetch:'' @ e"

definition deterministic_failure_key :: "string option \<Rightarrow> string \<Rightarrow> string" where
  "deterministic_failure_key t e = tenant_namespace t @ '':execution:nofail:'' @ e"

definition g1_wakeup_key :: "string option \<Rightarrow> string \<Rightarrow> string" where
  "g1_wakeup_key t e = tenant_namespace t @ '':execution:g1wakeups:'' @ e"

definition retry_counter_key :: "string option \<Rightarrow> string \<Rightarrow> string option \<Rightarrow> string" where
  "retry_counter_key t e node =
     tenant_namespace t @ '':execution:noderetry:'' @ e @
       (case node of None \<Rightarrow> [] | Some n \<Rightarrow> if n = [] then [] else '':'' @ n)"

definition cancel_flag_key :: "string option \<Rightarrow> string \<Rightarrow> string" where
  "cancel_flag_key t e = tenant_namespace t @ '':execution:cancel:'' @ e"

record 's counters =
  cn_redis :: "'s redis"
  cn_scan :: "string \<Rightarrow> 's \<Rightarrow> string list"

text \<open>INCR and EXPIRE in one transaction; when INCR fails the count is taken to be one.\<close>

definition incr_with_ttl :: "'s redis \<Rightarrow> string \<Rightarrow> 's \<Rightarrow> nat \<times> 's" where
  "incr_with_ttl R k s =
     (case rincrby R k 1 s of
        None \<Rightarrow> (1, rexpire R k COUNTER_TTL_SECONDS s)
      | Some (n, s') \<Rightarrow> (n, rexpire R k COUNTER_TTL_SECONDS s'))"

definition record_at :: "'s counters option \<Rightarrow> string \<Rightarrow> 's \<Rightarrow> nat \<times> 's" where
  "record_at c k s = (case c of None \<Rightarrow> (1, s) | Some C \<Rightarrow> incr_with_ttl (cn_redis C) k s)"

definition read_at :: "'s counters option \<Rightarrow> string \<Rightarrow> 's \<Rightarrow> nat" where
  "read_at c k s =
     (case c of
        None \<Rightarrow> 0
      | Some C \<Rightarrow> (case counter (cn_redis C) k s of None \<Rightarrow> 0 | Some n \<Rightarrow> n))"

definition delete_at :: "'s counters option \<Rightarrow> string \<Rightarrow> 's \<Rightarrow> 's" where
  "delete_at c k s = (case c of None \<Rightarrow> s | Some C \<Rightarrow> rdel (cn_redis C) k s)"

definition record_node_retry_total :: "'s counters option \<Rightarrow> string option \<Rightarrow> string \<Rightarrow> 's \<Rightarrow> nat \<times> 's" where
  "record_node_retry_total c t e = record_at c (node_retry_total_key t e)"

definition reset_node_retry_total :: "'s counters option \<Rightarrow> string option \<Rightarrow> string \<Rightarrow> 's \<Rightarrow> 's" where
  "reset_node_retry_total c t e = delete_at c (node_retry_total_key t e)"

definition node_retry_total_exhausted :: "'s counters option \<Rightarrow> string option \<Rightarrow> string \<Rightarrow> 's \<Rightarrow> bool" where
  "node_retry_total_exhausted c t e s \<longleftrightarrow> read_at c (node_retry_total_key t e) s \<ge> NODE_RETRY_TOTAL_MAX"

definition read_deterministic_failure_count :: "'s counters option \<Rightarrow> string option \<Rightarrow> string \<Rightarrow> 's \<Rightarrow> nat" where
  "read_deterministic_failure_count c t e = read_at c (deterministic_failure_key t e)"

definition record_deterministic_failure :: "'s counters option \<Rightarrow> string option \<Rightarrow> string \<Rightarrow> 's \<Rightarrow> nat \<times> 's" where
  "record_deterministic_failure c t e = record_at c (deterministic_failure_key t e)"

definition deterministic_failure_exhausted :: "'s counters option \<Rightarrow> string option \<Rightarrow> string \<Rightarrow> 's \<Rightarrow> bool" where
  "deterministic_failure_exhausted c t e s \<longleftrightarrow> read_deterministic_failure_count c t e s \<ge> DETERMINISTIC_FAILURE_MAX"

definition reset_deterministic_failure_counter :: "'s counters option \<Rightarrow> string option \<Rightarrow> string \<Rightarrow> 's \<Rightarrow> 's" where
  "reset_deterministic_failure_counter c t e = delete_at c (deterministic_failure_key t e)"

definition read_g1_wakeup_count :: "'s counters option \<Rightarrow> string option \<Rightarrow> string \<Rightarrow> 's \<Rightarrow> nat" where
  "read_g1_wakeup_count c t e = read_at c (g1_wakeup_key t e)"

definition g1_wakeup_budget_exhausted :: "'s counters option \<Rightarrow> string option \<Rightarrow> string \<Rightarrow> 's \<Rightarrow> bool" where
  "g1_wakeup_budget_exhausted c t e s \<longleftrightarrow> read_g1_wakeup_count c t e s \<ge> G1_MAX_WAKEUPS"

definition read_node_retry_counter :: "'s counters option \<Rightarrow> string option \<Rightarrow> string \<Rightarrow> string option \<Rightarrow> 's \<Rightarrow> nat" where
  "read_node_retry_counter c t e node = read_at c (retry_counter_key t e node)"

definition record_node_retry :: "'s counters option \<Rightarrow> string option \<Rightarrow> string \<Rightarrow> string option \<Rightarrow> 's \<Rightarrow> nat \<times> 's" where
  "record_node_retry c t e node = record_at c (retry_counter_key t e node)"

text \<open>All counters of the nodes of an execution: its own key and the keys below it.\<close>

definition node_retry_keys :: "'s counters \<Rightarrow> string option \<Rightarrow> string \<Rightarrow> 's \<Rightarrow> string list" where
  "node_retry_keys C t e s = (let base = retry_counter_key t e None in base # cn_scan C (base @ '':'') s)"

definition max_node_retry_counter :: "'s counters option \<Rightarrow> string option \<Rightarrow> string \<Rightarrow> 's \<Rightarrow> nat" where
  "max_node_retry_counter c t e s =
     (case c of None \<Rightarrow> 0 | Some C \<Rightarrow> fold (\<lambda>k m. max m (read_at c k s)) (node_retry_keys C t e s) 0)"

definition reset_node_retry_counter :: "'s counters option \<Rightarrow> string option \<Rightarrow> string \<Rightarrow> string option \<Rightarrow> 's \<Rightarrow> 's" where
  "reset_node_retry_counter c t e node s =
     (case c of
        None \<Rightarrow> s
      | Some C \<Rightarrow>
          if str_truthy node then rdel (cn_redis C) (retry_counter_key t e node) s
          else fold (rdel (cn_redis C)) (node_retry_keys C t e s) s)"

text \<open>
  \<open>_commit_g1_wakeup\<close>: one script, whose result is whether it took effect; a lost script raises
  \<open>G1WakeupAccountingError\<close>.  A script that fails at INCR keeps the deletions it made.
\<close>

definition commit_g1_wakeup :: "'s counters option \<Rightarrow> bool \<Rightarrow> string option \<Rightarrow> string \<Rightarrow> 's \<Rightarrow> bool \<times> 's" where
  "commit_g1_wakeup c lost t e s =
     (case c of
        None \<Rightarrow> (True, s)
      | Some C \<Rightarrow>
          if lost then (False, s)
          else (let s1 = fold (rdel (cn_redis C)) (cn_scan C (retry_counter_key t e None @ '':'') s) s;
                    s2 = rdel (cn_redis C) (retry_counter_key t e None) s1 in
                case rincrby (cn_redis C) (g1_wakeup_key t e) 1 s2 of
                  None \<Rightarrow> (False, s2)
                | Some (n, s3) \<Rightarrow> (True, rexpire (cn_redis C) (g1_wakeup_key t e) COUNTER_TTL_SECONDS s3)))"

section \<open>Decisions\<close>

text \<open>\<open>_node_failure_retry_decision\<close>: the number of the attempt that is granted, or nothing.\<close>

definition node_failure_retry_decision ::
  "bool \<Rightarrow> int option \<Rightarrow> 's counters option \<Rightarrow> string option \<Rightarrow> err_link list \<Rightarrow> string \<Rightarrow> string option \<Rightarrow> 's \<Rightarrow> nat option \<times> 's" where
  "node_failure_retry_decision disabled configured c t errs e node s =
     (if disabled \<or> e = [] then (None, s)
      else if \<not> is_retryable_node_failure errs then (None, snd (record_deterministic_failure c t e s))
      else (let (attempt, s1) = record_node_retry c t e node s in
            if int attempt \<ge> node_retry_budget configured then (None, s1)
            else (let (total, s2) = record_node_retry_total c t e s1 in
                  if total \<ge> NODE_RETRY_TOTAL_MAX then (None, s2) else (Some attempt, s2))))"

definition cancel_requested_flag :: "bool \<Rightarrow> 's counters option \<Rightarrow> string option \<Rightarrow> string \<Rightarrow> 's \<Rightarrow> bool" where
  "cancel_requested_flag disabled c t e s \<longleftrightarrow>
     \<not> disabled \<and> (case c of None \<Rightarrow> False | Some C \<Rightarrow> rget (cn_redis C) (cancel_flag_key t e) s \<noteq> None)"

text \<open>
  What becomes of an execution whose step raised: in \<open>resume_flow\<close>, and in the loop of
  \<open>_process_execution_result\<close> (\<open>resuming\<close> false), which has no exemption for the guard of resumes.
\<close>

datatype failure_outcome =
    Cancelled
  | Protocol_Error
  | Retry_Later nat
  | Terminal_Error nat "string option"

record retry_switches =
  rs_retry_disabled :: bool
  rs_cancel_disabled :: bool
  rs_max_deliveries :: "int option"

definition failed_step ::
  "retry_switches \<Rightarrow> 's counters option \<Rightarrow> string option \<Rightarrow> bool \<Rightarrow> err_link list \<Rightarrow> string \<Rightarrow> 's \<Rightarrow> failure_outcome \<times> 's" where
  "failed_step w c t resuming errs e s =
     (if chain_has_cancellation errs \<or> cancel_requested_flag (rs_cancel_disabled w) c t e s then (Cancelled, s)
      else if resuming \<and> chain_has_resume_guard_error errs then (Protocol_Error, s)
      else (let node = node_id_from_chain errs;
                (r, s') = node_failure_retry_decision (rs_retry_disabled w) (rs_max_deliveries w) c t errs e node s in
            case r of
              Some a \<Rightarrow> (Retry_Later a, s')
            | None \<Rightarrow> (Terminal_Error (read_node_retry_counter c t e node s' - 1) node, s')))"

text \<open>A step that succeeded: the counters of its node and of the execution start again.\<close>

definition advanced_step :: "'s counters option \<Rightarrow> string option \<Rightarrow> string \<Rightarrow> string option \<Rightarrow> 's \<Rightarrow> 's" where
  "advanced_step c t e node s =
     reset_node_retry_total c t e (reset_deterministic_failure_counter c t e (reset_node_retry_counter c t e node s))"

text \<open>The guards of a wakeup: a resume of type retry of an execution that ended with an error.\<close>

datatype wakeup = Wakeups_Exhausted | Failure_Settled | Wakeup_Admitted

definition wakeup_guard :: "'s counters option \<Rightarrow> string option \<Rightarrow> string \<Rightarrow> 's \<Rightarrow> wakeup" where
  "wakeup_guard c t e s =
     (if g1_wakeup_budget_exhausted c t e s then Wakeups_Exhausted
      else if deterministic_failure_exhausted c t e s then Failure_Settled
      else Wakeup_Admitted)"

text \<open>The delay of a repetition, in seconds.\<close>

definition node_retry_backoff_seconds :: "int \<Rightarrow> int" where
  "node_retry_backoff_seconds attempt = (if attempt < 1 then 0 else min 30 (2 ^ nat (attempt - 1)))"

section \<open>Classification\<close>

text \<open>What the scan looks for: no link settles the matter, and below the first failed node all causes may be repeated.\<close>

definition transient_chain :: "err_link list \<Rightarrow> bool" where
  "transient_chain cs \<longleftrightarrow> list_all (\<lambda>c. \<not> settles c) cs \<and>
     (case dropWhile (\<lambda>c. \<not> isa c NodeExecutionError) cs of
        [] \<Rightarrow> False
      | n # below \<Rightarrow> list_all (\<lambda>c. isa c NodeExecutionError \<or> is_retryable_error (el_exc c)) below)"

lemma retry_scan_seen:
  "retry_scan d True cs \<longleftrightarrow>
     list_all (\<lambda>c. \<not> settles c \<and> (isa c NodeExecutionError \<or> is_retryable_error (el_exc c))) (take d cs)"
  by (induction d True cs rule: retry_scan.induct) auto

lemma retry_scan_transient: "retry_scan d False cs \<longleftrightarrow> transient_chain (take d cs)"
proof (induction d False cs rule: retry_scan.induct)
  case (3 d c cs)
  then show ?case by (auto simp: transient_chain_def retry_scan_seen list_all_iff)
qed (simp_all add: transient_chain_def)

section \<open>Keys\<close>

lemma budget_keys_apart [simp]:
  "retry_counter_key t e n \<noteq> node_retry_total_key t e'" "node_retry_total_key t e' \<noteq> retry_counter_key t e n"
  "retry_counter_key t e n \<noteq> g1_wakeup_key t e'" "g1_wakeup_key t e' \<noteq> retry_counter_key t e n"
  "retry_counter_key t e n \<noteq> deterministic_failure_key t e'" "deterministic_failure_key t e' \<noteq> retry_counter_key t e n"
  "node_retry_total_key t e \<noteq> g1_wakeup_key t e'" "g1_wakeup_key t e' \<noteq> node_retry_total_key t e"
  "node_retry_total_key t e \<noteq> deterministic_failure_key t e'" "deterministic_failure_key t e' \<noteq> node_retry_total_key t e"
  "g1_wakeup_key t e \<noteq> deterministic_failure_key t e'" "deterministic_failure_key t e' \<noteq> g1_wakeup_key t e"
  by (simp_all add: retry_counter_key_def node_retry_total_key_def g1_wakeup_key_def deterministic_failure_key_def)

lemma below_base:
  assumes "Sublist.prefix (retry_counter_key t e None @ '':'') k"
  shows "k \<noteq> node_retry_total_key t e'" "k \<noteq> g1_wakeup_key t e'" "k \<noteq> deterministic_failure_key t e'"
proof -
  obtain z where k: "k = (retry_counter_key t e None @ '':'') @ z" using assms by (rule Sublist.prefixE)
  show "k \<noteq> node_retry_total_key t e'" "k \<noteq> g1_wakeup_key t e'" "k \<noteq> deterministic_failure_key t e'"
    unfolding k retry_counter_key_def node_retry_total_key_def g1_wakeup_key_def deterministic_failure_key_def option.case append_assoc
      same_append_eq by simp_all
qed

lemma total_kept: "\<not> Sublist.prefix (retry_counter_key t e None) (node_retry_total_key t e)"
proof
  assume "Sublist.prefix (retry_counter_key t e None) (node_retry_total_key t e)"
  then obtain z where "node_retry_total_key t e = retry_counter_key t e None @ z" by (rule Sublist.prefixE)
  then show False by (simp add: node_retry_total_key_def retry_counter_key_def)
qed

lemma nofail_kept: "\<not> Sublist.prefix (retry_counter_key t e None) (deterministic_failure_key t e)"
proof
  assume "Sublist.prefix (retry_counter_key t e None) (deterministic_failure_key t e)"
  then obtain z where "deterministic_failure_key t e = retry_counter_key t e None @ z" by (rule Sublist.prefixE)
  then show False by (simp add: deterministic_failure_key_def retry_counter_key_def)
qed

section \<open>Bounds\<close>

text \<open>The scan: keys with the given prefix.  Only what it may return matters for the bounds, that it is complete for the reset.\<close>

locale counter_server = redis_server R for R :: "'s redis" +
  fixes scan :: "string \<Rightarrow> 's \<Rightarrow> string list"
  assumes scan_keys: "set (scan p s) = {k. Sublist.prefix p k \<and> rget R k s \<noteq> None}"
begin

abbreviation C :: "'s counters option" where
  "C \<equiv> Some \<lparr>cn_redis = R, cn_scan = scan\<rparr>"

lemma get_del_all: "rget R k (fold (rdel R) ks s) = (if k \<in> set ks then None else rget R k s)"
  by (induction ks arbitrary: s) (auto simp: get_del)

lemma incr_with_ttl_result:
  assumes "incr_with_ttl R k s = (n, s')" and "counter R k s = Some m" and "m + 1 < INCR_LIMIT"
  shows "n = m + 1 \<and> counter R k s' = Some (m + 1) \<and> (\<forall>k'. k' \<noteq> k \<longrightarrow> rget R k' s' = rget R k' s)"
proof -
  obtain s1 where i: "rincrby R k 1 s = Some (m + 1, s1)" using incr_result [OF assms(2,3)] by blast
  then have "n = m + 1" "s' = rexpire R k COUNTER_TTL_SECONDS s1" using assms(1) by (simp_all add: incr_with_ttl_def)
  moreover have "counter R k s1 = Some (m + 1)" using incr_get [OF i, of k] by (simp add: counter_def)
  moreover have "rget R k' s1 = rget R k' s" if "k' \<noteq> k" for k' using incr_get [OF i, of k'] that by simp
  ultimately show ?thesis by (simp add: get_expire COUNTER_TTL_SECONDS_def counter_expire)
qed

lemma record_other: "k' \<noteq> k \<Longrightarrow> rget R k' (snd (record_at C k s)) = rget R k' s"
  using incr_get [of k 1 s] by (auto simp: record_at_def incr_with_ttl_def get_expire COUNTER_TTL_SECONDS_def split: option.split)

lemma record_at_result:
  assumes "record_at C k s = (n, s')" and "counter R k s = Some m" and "m + 1 < INCR_LIMIT"
  shows "n = m + 1 \<and> counter R k s' = Some (m + 1) \<and> (\<forall>k'. k' \<noteq> k \<longrightarrow> rget R k' s' = rget R k' s)"
  using incr_with_ttl_result [OF _ assms(2,3)] assms(1) by (simp add: record_at_def)

text \<open>The reset of a wakeup removes the counters of all nodes of the execution and no other key.\<close>

lemma commit_result:
  assumes "commit_g1_wakeup C lost t e s = (True, s')" and "read_g1_wakeup_count C t e s + 1 < INCR_LIMIT"
    and "counter R (g1_wakeup_key t e) s \<noteq> None"
  shows "counter R (g1_wakeup_key t e) s' = Some (read_g1_wakeup_count C t e s + 1)
    \<and> (\<forall>node. rget R (retry_counter_key t e node) s' = None)
    \<and> (\<forall>k. k \<noteq> g1_wakeup_key t e \<longrightarrow> \<not> Sublist.prefix (retry_counter_key t e None) k \<longrightarrow> rget R k s' = rget R k s)"
proof -
  let ?base = "retry_counter_key t e None" and ?g = "g1_wakeup_key t e"
  define s2 where "s2 = rdel R ?base (fold (rdel R) (scan (?base @ '':'') s) s)"
  have get2: "rget R k s2 = (if k = ?base \<or> Sublist.prefix (?base @ '':'') k then None else rget R k s)" for k
    by (auto simp: s2_def get_del get_del_all scan_keys)
  have lost: "\<not> lost" using assms(1) by (auto simp: commit_g1_wakeup_def)
  have g2: "counter R ?g s2 = counter R ?g s" using get2 [of ?g] below_base(2) [of t e ?g e] by (auto simp: counter_def)
  obtain n where n: "counter R ?g s = Some n" using assms(3) by blast
  then have rd: "read_g1_wakeup_count C t e s = n" by (simp add: read_g1_wakeup_count_def read_at_def)
  obtain s3 where i: "rincrby R ?g 1 s2 = Some (n + 1, s3)" using incr_result [of ?g s2 n 1] g2 n assms(2) rd by auto
  then have s': "s' = rexpire R ?g COUNTER_TTL_SECONDS s3"
    using assms(1) lost unfolding commit_g1_wakeup_def s2_def [symmetric] by (simp add: s2_def)
  have get': "rget R k s' = (if k = ?g then Some (nat_str (n + 1)) else rget R k s2)" for k
    using incr_get [OF i, of k] by (simp add: s' get_expire COUNTER_TTL_SECONDS_def)
  have below: "retry_counter_key t e node = ?base \<or> Sublist.prefix (?base @ '':'') (retry_counter_key t e node)" for node
    by (cases node) (auto simp: retry_counter_key_def)
  have "rget R (retry_counter_key t e node) s' = None" for node
    using below [of node] get' [of "retry_counter_key t e node"] get2 [of "retry_counter_key t e node"] by auto
  moreover have "rget R k s' = rget R k s" if "k \<noteq> ?g" "\<not> Sublist.prefix ?base k" for k
    using that get' [of k] get2 [of k] Sublist.append_prefixD [of ?base "'':''" k] by auto
  moreover have "counter R ?g s' = Some (n + 1)" using get' [of ?g] by (simp add: counter_def)
  ultimately show ?thesis unfolding rd by blast
qed

end

text \<open>
  The life of an execution between two steps that succeed, with the repetitions that were granted, those since the last wakeup,
  and the wakeups.  Between the steps the rest of the process may do anything to other keys; the counters do not
  run out, and count fewer than \<open>2 ^ 63\<close> failures.
\<close>

record 's wsys =
  ws_store :: 's
  ws_granted :: "string option list"
  ws_since :: "string option list"
  ws_wakeups :: nat

definition own_key :: "string option \<Rightarrow> string \<Rightarrow> string \<Rightarrow> bool" where
  "own_key t e k \<longleftrightarrow> k = node_retry_total_key t e \<or> k = g1_wakeup_key t e \<or> (\<exists>node. k = retry_counter_key t e node)"

definition countable_failures :: "'s redis \<Rightarrow> string option \<Rightarrow> string \<Rightarrow> 's \<Rightarrow> bool" where
  "countable_failures R t e s \<longleftrightarrow> (\<forall>k. own_key t e k \<longrightarrow> (\<exists>n. counter R k s = Some n \<and> n + 1 < INCR_LIMIT))"

inductive retry_step :: "'s redis \<Rightarrow> (string \<Rightarrow> 's \<Rightarrow> string list) \<Rightarrow> retry_switches \<Rightarrow> string option \<Rightarrow> string \<Rightarrow> 's wsys \<Rightarrow> 's wsys \<Rightarrow> bool"
  for R scan w t e where
  rs_repeat: "countable_failures R t e (ws_store x) \<Longrightarrow>
    failed_step w (Some \<lparr>cn_redis = R, cn_scan = scan\<rparr>) t resuming errs e (ws_store x) = (Retry_Later a, s') \<Longrightarrow>
    retry_step R scan w t e x
      (x\<lparr>ws_store := s', ws_granted := node_id_from_chain errs # ws_granted x, ws_since := node_id_from_chain errs # ws_since x\<rparr>)"
| rs_settle: "countable_failures R t e (ws_store x) \<Longrightarrow>
    failed_step w (Some \<lparr>cn_redis = R, cn_scan = scan\<rparr>) t resuming errs e (ws_store x) = (r, s') \<Longrightarrow> (\<And>a. r \<noteq> Retry_Later a) \<Longrightarrow>
    retry_step R scan w t e x (x\<lparr>ws_store := s'\<rparr>)"
| rs_wake: "countable_failures R t e (ws_store x) \<Longrightarrow>
    wakeup_guard (Some \<lparr>cn_redis = R, cn_scan = scan\<rparr>) t e (ws_store x) = Wakeup_Admitted \<Longrightarrow>
    commit_g1_wakeup (Some \<lparr>cn_redis = R, cn_scan = scan\<rparr>) lost t e (ws_store x) = (b, s') \<Longrightarrow>
    retry_step R scan w t e x
      (x\<lparr>ws_store := s', ws_since := (if b then [] else ws_since x), ws_wakeups := ws_wakeups x + (if b then 1 else 0)\<rparr>)"
| rs_other: "\<forall>k. own_key t e k \<longrightarrow> rget R k s' = rget R k (ws_store x) \<Longrightarrow> retry_step R scan w t e x (x\<lparr>ws_store := s'\<rparr>)"

definition since_count :: "string option \<Rightarrow> string \<Rightarrow> 's wsys \<Rightarrow> string \<Rightarrow> nat" where
  "since_count t e x k = length (filter (\<lambda>n. retry_counter_key t e n = k) (ws_since x))"

definition at_most :: "'s redis \<Rightarrow> nat \<Rightarrow> string \<Rightarrow> 's \<Rightarrow> bool" where
  "at_most R m k s \<longleftrightarrow> (\<forall>n. counter R k s = Some n \<longrightarrow> m \<le> n)"

definition bounded_retries :: "'s redis \<Rightarrow> retry_switches \<Rightarrow> string option \<Rightarrow> string \<Rightarrow> 's wsys \<Rightarrow> bool" where
  "bounded_retries R w t e x \<longleftrightarrow>
     length (ws_granted x) < NODE_RETRY_TOTAL_MAX \<and> at_most R (length (ws_granted x)) (node_retry_total_key t e) (ws_store x)
     \<and> ws_wakeups x \<le> G1_MAX_WAKEUPS \<and> at_most R (ws_wakeups x) (g1_wakeup_key t e) (ws_store x)
     \<and> (\<forall>node. int (since_count t e x (retry_counter_key t e node)) < node_retry_budget (rs_max_deliveries w)
          \<and> at_most R (since_count t e x (retry_counter_key t e node)) (retry_counter_key t e node) (ws_store x))"

lemma budget_positive [simp]: "0 < node_retry_budget configured"
  by (auto simp: node_retry_budget_def DEFAULT_MAX_DELIVERIES_def max_def split: option.split)

lemma own_keys [simp]:
  "own_key t e (node_retry_total_key t e)" "own_key t e (g1_wakeup_key t e)" "own_key t e (retry_counter_key t e node)"
  by (auto simp: own_key_def)

lemma at_most_cong: "rget R k s' = rget R k s \<Longrightarrow> at_most R m k s' = at_most R m k s"
  by (simp add: at_most_def counter_def)

lemma bounded_same_keys:
  assumes "bounded_retries R w t e x" and "\<forall>k. own_key t e k \<longrightarrow> rget R k s' = rget R k (ws_store x)"
  shows "bounded_retries R w t e (x\<lparr>ws_store := s'\<rparr>)"
proof -
  have "at_most R m k s' = at_most R m k (ws_store x)" if "own_key t e k" for m k using assms(2) that by (intro at_most_cong) blast
  then show ?thesis using assms(1) by (simp add: bounded_retries_def since_count_def)
qed

context counter_server
begin

text \<open>The effect of a decision on the counters of its execution.\<close>

lemma decision_result:
  assumes "node_failure_retry_decision disabled configured C t errs e node s = (r, s')" and "countable_failures R t e s"
  shows "(\<forall>k. own_key t e k \<longrightarrow> (\<forall>m. at_most R m k s \<longrightarrow> at_most R m k s'))
    \<and> (\<forall>a. r = Some a \<longrightarrow> (\<exists>m n. counter R (retry_counter_key t e node) s = Some m \<and> counter R (node_retry_total_key t e) s = Some n
         \<and> counter R (retry_counter_key t e node) s' = Some (m + 1) \<and> counter R (node_retry_total_key t e) s' = Some (n + 1)
         \<and> a = m + 1 \<and> int (m + 1) < node_retry_budget configured \<and> n + 1 < NODE_RETRY_TOTAL_MAX
         \<and> (\<forall>k. k \<noteq> retry_counter_key t e node \<longrightarrow> k \<noteq> node_retry_total_key t e \<longrightarrow> rget R k s' = rget R k s)))"
proof -
  let ?N = "retry_counter_key t e node" and ?T = "node_retry_total_key t e"
  note d = assms(1) [unfolded node_failure_retry_decision_def]
  have same: "at_most R m k s'" if "rget R k s' = rget R k s" "at_most R m k s" for m k
    using that at_most_cong [of R k s' s m] by simp
  consider "r = None" "s' = s" | "r = None" "s' = snd (record_at C (deterministic_failure_key t e) s)"
    | "\<not> disabled" "e \<noteq> []" "is_retryable_node_failure errs"
    using d by (auto simp: record_deterministic_failure_def split: if_splits)
  then show ?thesis
  proof cases
    case 2
    have "rget R k s' = rget R k s" if "own_key t e k" for k
      using record_other [of k "deterministic_failure_key t e" s] that 2 by (auto simp: own_key_def)
    then show ?thesis using 2(1) same by blast
  next
    case 3
    obtain m where m: "counter R ?N s = Some m" "m + 1 < INCR_LIMIT" using assms(2) unfolding countable_failures_def by (meson own_keys(3))
    obtain n where n: "counter R ?T s = Some n" "n + 1 < INCR_LIMIT" using assms(2) unfolding countable_failures_def by (meson own_keys(1))
    obtain a1 s1 where r1: "record_at C ?N s = (a1, s1)" by (cases "record_at C ?N s")
    note one = record_at_result [OF r1 m]
    have T1: "counter R ?T s1 = Some n" using one n(1) by (simp add: counter_def)
    obtain a2 s2 where r2: "record_at C ?T s1 = (a2, s2)" by (cases "record_at C ?T s1")
    note two = record_at_result [OF r2 T1 n(2)]
    have grow1: "at_most R j k s1" if "at_most R j k s" for j k
      using that one m(1) by (cases "k = ?N") (auto simp: at_most_def counter_def)
    have grow2: "at_most R j k s2" if "at_most R j k s" for j k
      using grow1 [OF that] two T1 by (cases "k = ?T") (auto simp: at_most_def counter_def)
    have N2: "counter R ?N s2 = Some (m + 1)" using one two by (simp add: counter_def)
    consider "r = None" "s' = s1" | "r = None" "s' = s2"
      | "r = Some a1" "s' = s2" "int a1 < node_retry_budget configured" "a2 < NODE_RETRY_TOTAL_MAX"
      using d 3 r1 r2 by (auto simp: record_node_retry_def record_node_retry_total_def split: if_splits)
    then show ?thesis
    proof cases
      case 1
      then show ?thesis using grow1 by blast
    next
      case 2
      then show ?thesis using grow2 by blast
    next
      case 3
      have "rget R k s' = rget R k s" if "k \<noteq> ?N" "k \<noteq> ?T" for k using that one two 3 by simp
      then show ?thesis using 3 m n one two N2 grow2 by auto
    qed
  qed simp
qed

lemma failed_step_store:
  assumes "failed_step w C t resuming errs e s = (oc, s')"
  obtains "s' = s" "\<And>a. oc \<noteq> Retry_Later a"
  | r where "node_failure_retry_decision (rs_retry_disabled w) (rs_max_deliveries w) C t errs e (node_id_from_chain errs) s = (r, s')"
      and "\<And>a. oc = Retry_Later a \<longleftrightarrow> r = Some a"
proof (cases "chain_has_cancellation errs \<or> cancel_requested_flag (rs_cancel_disabled w) C t e s \<or> resuming \<and> chain_has_resume_guard_error errs")
  case True
  then show thesis using assms that(1) by (auto simp: failed_step_def split: if_splits)
next
  case False
  obtain r s1 where d: "node_failure_retry_decision (rs_retry_disabled w) (rs_max_deliveries w) C t errs e (node_id_from_chain errs) s = (r, s1)"
    by (cases "node_failure_retry_decision (rs_retry_disabled w) (rs_max_deliveries w) C t errs e (node_id_from_chain errs) s")
  then show thesis using assms False that(2) [of r] by (cases r) (auto simp: failed_step_def Let_def)
qed

lemma commit_failed:
  assumes "commit_g1_wakeup C lost t e s = (False, s')" and "counter R (g1_wakeup_key t e) s = Some n" and "n + 1 < INCR_LIMIT"
  shows "s' = s"
proof (cases lost)
  case False
  let ?base = "retry_counter_key t e None" and ?g = "g1_wakeup_key t e"
  define s2 where "s2 = rdel R ?base (fold (rdel R) (scan (?base @ '':'') s) s)"
  have "rget R ?g s2 = rget R ?g s" using below_base(2) [of t e ?g e] by (auto simp: s2_def get_del get_del_all scan_keys)
  then have "counter R ?g s2 = Some n" using assms(2) by (simp add: counter_def)
  then obtain s3 where "rincrby R ?g 1 s2 = Some (n + 1, s3)" using incr_result assms(3) by blast
  then show ?thesis using assms(1) False by (simp add: commit_g1_wakeup_def s2_def Let_def)
qed (use assms(1) in \<open>simp add: commit_g1_wakeup_def\<close>)

lemma retry_step_bounded:
  assumes "retry_step R scan w t e x y" and "bounded_retries R w t e x"
  shows "bounded_retries R w t e y"
  using assms(1)
proof cases
  case (rs_repeat resuming errs a s')
  let ?n = "node_id_from_chain errs"
  let ?N = "retry_counter_key t e ?n" and ?T = "node_retry_total_key t e"
  from rs_repeat(3) obtain r where
    d: "node_failure_retry_decision (rs_retry_disabled w) (rs_max_deliveries w) C t errs e ?n (ws_store x) = (Some a, s')"
    by (cases rule: failed_step_store) auto
  note res = decision_result [OF d rs_repeat(2)]
  obtain m n where c: "counter R ?N (ws_store x) = Some m" "counter R ?T (ws_store x) = Some n" "counter R ?N s' = Some (m + 1)"
      "counter R ?T s' = Some (n + 1)" "int (m + 1) < node_retry_budget (rs_max_deliveries w)" "n + 1 < NODE_RETRY_TOTAL_MAX"
    using res by blast
  have up: "at_most R j k s'" if "own_key t e k" "at_most R j k (ws_store x)" for j k using res that by blast
  have g: "length (ws_granted x) \<le> n" using assms(2) c(2) by (simp add: bounded_retries_def at_most_def)
  have s: "since_count t e x ?N \<le> m" using assms(2) c(1) by (simp add: bounded_retries_def at_most_def)
  have since: "since_count t e y (retry_counter_key t e node) =
      (if retry_counter_key t e node = ?N then Suc (since_count t e x ?N) else since_count t e x (retry_counter_key t e node))" for node
    by (simp add: since_count_def rs_repeat(1))
  have nodes: "int (since_count t e y (retry_counter_key t e node)) < node_retry_budget (rs_max_deliveries w)
      \<and> at_most R (since_count t e y (retry_counter_key t e node)) (retry_counter_key t e node) s'" for node
  proof (cases "retry_counter_key t e node = ?N")
    case True
    then show ?thesis using since [of node] s c(3,5) by (simp add: at_most_def)
  next
    case False
    then show ?thesis using since [of node] assms(2) up by (simp add: bounded_retries_def)
  qed
  have "at_most R (ws_wakeups x) (g1_wakeup_key t e) s'" using up assms(2) by (simp add: bounded_retries_def)
  then show ?thesis using nodes g c(4,6) assms(2) by (simp add: bounded_retries_def at_most_def rs_repeat(1))
next
  case (rs_settle resuming errs r s')
  have up: "at_most R j k s'" if "own_key t e k" "at_most R j k (ws_store x)" for j k
    using rs_settle(3)
  proof (cases rule: failed_step_store)
    case 1
    then show ?thesis using that(2) by simp
  next
    case (2 q)
    then show ?thesis using decision_result [OF 2(1) rs_settle(2)] that by blast
  qed
  then show ?thesis using assms(2) by (simp add: bounded_retries_def since_count_def rs_settle(1))
next
  case (rs_wake lost b s')
  let ?g = "g1_wakeup_key t e"
  obtain n where n: "counter R ?g (ws_store x) = Some n" "n + 1 < INCR_LIMIT"
    using rs_wake(2) unfolding countable_failures_def by (meson own_keys(2))
  then have rd: "read_g1_wakeup_count C t e (ws_store x) = n" by (simp add: read_g1_wakeup_count_def read_at_def)
  have "n < G1_MAX_WAKEUPS" using rs_wake(3) rd by (simp add: wakeup_guard_def g1_wakeup_budget_exhausted_def split: if_splits)
  show ?thesis
  proof (cases b)
    case True
    then have "commit_g1_wakeup C lost t e (ws_store x) = (True, s')" using rs_wake(4) by simp
    from commit_result [OF this] rd n
    have c: "counter R ?g s' = Some (n + 1)" "rget R (node_retry_total_key t e) s' = rget R (node_retry_total_key t e) (ws_store x)"
      using total_kept by auto
    have "ws_wakeups x \<le> n" using assms(2) n by (simp add: bounded_retries_def at_most_def)
    then show ?thesis using assms(2) c \<open>n < G1_MAX_WAKEUPS\<close> True at_most_cong [OF c(2)]
      by (simp add: bounded_retries_def since_count_def at_most_def rs_wake(1))
  next
    case False
    then have "s' = ws_store x" using commit_failed [OF _ n] rs_wake(4) by simp
    then show ?thesis using assms(2) False rs_wake(1) by simp
  qed
next
  case (rs_other s')
  then show ?thesis using bounded_same_keys [OF assms(2)] by simp
qed

lemma retry_steps_bounded:
  assumes "(retry_step R scan w t e)\<^sup>*\<^sup>* x y" and "bounded_retries R w t e x"
  shows "bounded_retries R w t e y"
  using assms by (induction rule: rtranclp_induct) (auto intro: retry_step_bounded)

end

section \<open>A server with listed keys\<close>

text \<open>A server whose operations agree with those of another through an abstraction inherits its laws.\<close>

lemma redis_server_abstraction:
  fixes h :: "'a \<Rightarrow> 'b"
  assumes "redis_server B"
    and "\<And>k s. rget A k s = rget B k (h s)" and "\<And>k v ex s. h (rset A k v ex s) = rset B k v ex (h s)"
    and "\<And>k s. h (rdel A k s) = rdel B k (h s)" and "\<And>k t s. h (rexpire A k t s) = rexpire B k t (h s)"
    and "\<And>k s. rttl A k s = rttl B k (h s)"
    and "\<And>k d s. map_option (map_prod id h) (rincrby A k d s) = rincrby B k d (h s)"
    and "\<And>k sc m s. h (rzadd A k sc m s) = rzadd B k sc m (h s)" and "\<And>k m s. h (rzrem A k m s) = rzrem B k m (h s)"
    and "\<And>dt s. h (rpass A dt s) = rpass B dt (h s)"
  shows "redis_server A"
proof -
  have count: "counter A k s = counter B k (h s)" for k s by (simp add: counter_def assms(2))
  have last: "lasting A k s = lasting B k (h s)" for k s by (simp add: lasting_def assms(2,6))
  have inc: "rincrby A k d s = Some (n, s') \<Longrightarrow> rincrby B k d (h s) = Some (n, h s')" for k d s n s'
    by (simp add: assms(7) [symmetric])
  have inc': "rincrby B k d (h s) = Some (n, u) \<Longrightarrow> \<exists>s'. rincrby A k d s = Some (n, s')" for k d s n u
    by (auto simp: assms(7) [symmetric])
  note laws = redis_server.get_set [OF assms(1)] redis_server.get_del [OF assms(1)] redis_server.get_expire [OF assms(1)]
    redis_server.get_zadd [OF assms(1)] redis_server.get_zrem [OF assms(1)]
  show ?thesis
  proof
    show "\<exists>s'. rincrby A k d s = Some (n + d, s')" if "counter A k s = Some n" "n + d < INCR_LIMIT" for k s n d
      using redis_server.incr_result [OF assms(1), of k "h s" n d] that inc' by (auto simp: count)
    show "n = c + d" if "rincrby A k d s = Some (n, s')" "counter A k s = Some c" for k d s n s' c
      using redis_server.incr_counter [OF assms(1) inc [OF that(1)]] that(2) by (simp add: count)
    show "rget A k' s' = (if k' = k then Some (nat_str n) else rget A k' s)" if "rincrby A k d s = Some (n, s')" for k d s n s' k'
      using redis_server.incr_get [OF assms(1) inc [OF that]] by (simp add: assms(2))
    show "lasting A k s'" if "lasting A k s" "rincrby A k' d s = Some (n, s')" for k s k' d n s'
      using redis_server.lasting_incr [OF assms(1) _ inc [OF that(2)]] that(1) by (simp add: last)
    show "rget A k (rpass A dt s) = rget A k s" if "rget A k (rpass A dt s) \<noteq> None" for k dt s
      using redis_server.get_pass [OF assms(1), of k dt "h s"] that by (simp add: assms(2,10))
    show "lasting A k (rset A k' v ex s) \<and> lasting A k (rdel A k' s) \<and> lasting A k (rexpire A k' t s)"
      if "k \<noteq> k'" "lasting A k s" for k k' s v ex t
      using redis_server.lasting_other [OF assms(1) that(1), of "h s" v ex t] that(2) by (simp add: last assms(3-5))
    show "lasting A k (rzadd A k' sc m s) \<and> lasting A k (rzrem A k' m s)" if "lasting A k s" for k s k' sc m
      using redis_server.lasting_z [OF assms(1), of k "h s" k' sc m] that by (simp add: last assms(8,9))
    show "lasting A k (rpass A dt s) \<and> rget A k (rpass A dt s) = rget A k s" if "lasting A k s" for k s dt
      using redis_server.lasting_pass [OF assms(1), of k "h s" dt] that by (simp add: last assms(2,10))
  qed (simp_all add: laws assms(2-5,8,9))
qed

record al =
  al_now :: int
  al_str :: "(string \<times> (string \<times> int option)) list"
  al_z :: "string \<Rightarrow> (string \<times> string) list"

definition al_kv :: "al \<Rightarrow> kv" where
  "al_kv s = \<lparr>kv_now = al_now s, kv_str = map_of (al_str s), kv_z = al_z s\<rparr>"

definition al_put :: "string \<Rightarrow> string \<times> int option \<Rightarrow> al \<Rightarrow> al" where
  "al_put k v s = s\<lparr>al_str := AList.update k v (al_str s)\<rparr>"

definition al_redis :: "al redis" where
  "al_redis =
     \<lparr>rget = (\<lambda>k s. map_option fst (kv_live (al_kv s) k)),
      rset = (\<lambda>k v ex s. al_put k (v, map_option (\<lambda>t. al_now s + t) ex) s),
      rdel = (\<lambda>k s. s\<lparr>al_str := AList.delete k (al_str s)\<rparr>),
      rexpire = (\<lambda>k t s. case kv_live (al_kv s) k of None \<Rightarrow> s | Some (v, e) \<Rightarrow> al_put k (v, Some (al_now s + t)) s),
      rttl = (\<lambda>k s. rttl kv_redis k (al_kv s)),
      rincrby = (\<lambda>k d s.
        case kv_live (al_kv s) k of
          None \<Rightarrow> if d < INCR_LIMIT then Some (d, al_put k (nat_str d, None) s) else None
        | Some (v, e) \<Rightarrow>
            (case digits_nat v of
               None \<Rightarrow> None
             | Some n \<Rightarrow> if n + d < INCR_LIMIT then Some (n + d, al_put k (nat_str (n + d), e) s) else None)),
      rzadd = (\<lambda>k sc m s. s\<lparr>al_z := (al_z s)(k := (m, sc) # filter (\<lambda>(m', _). m' \<noteq> m) (al_z s k))\<rparr>),
      rzrem = (\<lambda>k m s. s\<lparr>al_z := (al_z s)(k := filter (\<lambda>(m', _). m' \<noteq> m) (al_z s k))\<rparr>),
      rpass = (\<lambda>d s. s\<lparr>al_now := al_now s + max 0 d\<rparr>)\<rparr>"

definition al_scan :: "string \<Rightarrow> al \<Rightarrow> string list" where
  "al_scan p s = filter (\<lambda>k. Sublist.prefix p k \<and> kv_live (al_kv s) k \<noteq> None) (remdups (map fst (al_str s)))"

lemma al_kv_put: "al_kv (al_put k (v, e) s) = kv_put k v e (al_kv s)"
  by (simp add: al_kv_def al_put_def kv_put_def update_conv')

interpretation al: counter_server al_redis al_scan
proof -
  have server: "redis_server al_redis"
    by (rule redis_server_abstraction [OF kv.redis_server_axioms, of _ al_kv])
      (auto simp: al_redis_def kv_ops al_kv_put split: option.split prod.split, auto simp: al_kv_def delete_conv')
  have "set (al_scan p s) = {k. Sublist.prefix p k \<and> rget al_redis k s \<noteq> None}" for p s
    by (auto simp: al_scan_def al_redis_def kv_live_def al_kv_def split: option.splits if_splits) (force dest: map_of_SomeD)
  then show "counter_server al_redis al_scan" using server by (simp add: counter_server_def counter_server_axioms_def)
qed

section \<open>Properties\<close>

text \<open>
  Property C7. Repetitions are bounded: from any counters, under any failures of any nodes, wakeups and activity of other
  executions, until a step succeeds, an execution is granted fewer than a hundred repetitions in all, fewer than the budget
  for each node since the last wakeup, and at most two wakeups.
\<close>

theorem repetitions_are_bounded:
  assumes "counter_server R scan" and "ws_granted x = []" and "ws_since x = []" and "ws_wakeups x = 0"
    and "(retry_step R scan w t e)\<^sup>*\<^sup>* x y"
  shows "length (ws_granted y) < 100 \<and> ws_wakeups y \<le> 2
    \<and> int (since_count t e y (retry_counter_key t e node)) < node_retry_budget (rs_max_deliveries w)"
proof -
  have "bounded_retries R w t e x"
    using assms(2-4) by (simp add: bounded_retries_def at_most_def since_count_def NODE_RETRY_TOTAL_MAX_def)
  from counter_server.retry_steps_bounded [OF assms(1,5) this] show ?thesis
    by (simp add: bounded_retries_def NODE_RETRY_TOTAL_MAX_def G1_MAX_WAKEUPS_def)
qed

text \<open>
  Property C8. Only transient failures are repeated: a step is repeated only when among the first five causes of its failure there is
  a failed node, no timeout, no cancellation and no refused suspension, and every cause below the failed node may be repeated; no
  cancellation of the execution is in the chain or requested, and the attempts are below the budget.
\<close>

theorem only_transient_failures_repeat:
  assumes "failed_step w c t resuming errs e s = (Retry_Later a, s')"
  shows "transient_chain (take 5 (tl errs)) \<and> \<not> list_ex (\<lambda>x. isa x FlowCancelledException) (take 7 errs)
    \<and> \<not> cancel_requested_flag (rs_cancel_disabled w) c t e s \<and> int a < node_retry_budget (rs_max_deliveries w)"
proof -
  have no: "\<not> (chain_has_cancellation errs \<or> cancel_requested_flag (rs_cancel_disabled w) c t e s)"
    using assms by (auto simp: failed_step_def split: if_splits)
  obtain r s1 where d: "node_failure_retry_decision (rs_retry_disabled w) (rs_max_deliveries w) c t errs e (node_id_from_chain errs) s = (r, s1)"
    by (cases "node_failure_retry_decision (rs_retry_disabled w) (rs_max_deliveries w) c t errs e (node_id_from_chain errs) s")
  then have "r = Some a" using assms no by (auto simp: failed_step_def Let_def split: if_splits option.splits)
  then have "is_retryable_node_failure errs" "int a < node_retry_budget (rs_max_deliveries w)"
    using d by (auto simp: node_failure_retry_decision_def Let_def split: if_splits prod.splits)
  then show ?thesis using no
    by (simp add: is_retryable_node_failure_def retry_scan_transient chain_has_cancellation_def NODE_RETRY_CHAIN_MAX_DEPTH_def)
qed

text \<open>
  A wakeup that takes effect gives every node of the execution its whole budget back, is counted once, and leaves the total of
  the execution, its settled failures and all keys of other executions as they were.
\<close>

theorem wakeup_restores_node_budgets:
  assumes "counter_server R scan" and "c = Some \<lparr>cn_redis = R, cn_scan = scan\<rparr>" and "commit_g1_wakeup c lost t e s = (True, s')"
    and "counter R (g1_wakeup_key t e) s = Some n" and "n + 1 < INCR_LIMIT"
  shows "read_node_retry_counter c t e node s' = 0 \<and> read_g1_wakeup_count c t e s' = n + 1
    \<and> read_at c (node_retry_total_key t e) s' = read_at c (node_retry_total_key t e) s
    \<and> read_deterministic_failure_count c t e s' = read_deterministic_failure_count c t e s"
proof -
  have rd: "read_g1_wakeup_count c t e s = n" using assms(2,4) by (simp add: read_g1_wakeup_count_def read_at_def)
  have base: "\<not> Sublist.prefix (retry_counter_key t e None) (deterministic_failure_key t e)"
    using nofail_kept .
  have eff: "counter R (g1_wakeup_key t e) s' = Some (n + 1)" "rget R (retry_counter_key t e node) s' = None"
      "rget R (node_retry_total_key t e) s' = rget R (node_retry_total_key t e) s"
      "rget R (deterministic_failure_key t e) s' = rget R (deterministic_failure_key t e) s"
    using counter_server.commit_result [OF assms(1) assms(3) [unfolded assms(2)], unfolded assms(2) [symmetric], unfolded rd, OF assms(5)] assms(4)
      total_kept base by auto
  show ?thesis using assms(2) eff
    by (simp add: read_node_retry_counter_def read_g1_wakeup_count_def read_deterministic_failure_count_def read_at_def counter_def)
qed

section \<open>Witnesses\<close>

definition failed_node :: "err_link list" where
  "failed_node = [\<lparr>el_exc = plain_exc FlowErrorException, el_node = No_Node\<rparr>,
     \<lparr>el_exc = node_execution_error PNone PNone, el_node = Node_Text ''n''\<rparr>, \<lparr>el_exc = plain_exc OtherError, el_node = No_Node\<rparr>]"

definition default_switches :: retry_switches where
  "default_switches = \<lparr>rs_retry_disabled = False, rs_cancel_disabled = False, rs_max_deliveries = None\<rparr>"

definition no_keys :: al where
  "no_keys = \<lparr>al_now = 0, al_str = [], al_z = (\<lambda>_. [])\<rparr>"

definition al_client :: "al counters option" where
  "al_client = Some \<lparr>cn_redis = al_redis, cn_scan = al_scan\<rparr>"

lemma no_keys_server [simp]:
  "rget al_redis k no_keys = None" "counter al_redis k no_keys = Some 0" "al_scan p no_keys = []" "rdel al_redis k no_keys = no_keys"
  by (simp_all add: counter_def al_redis_def kv_live_def al_kv_def no_keys_def al_scan_def)

lemma failed_node_class:
  "\<not> chain_has_cancellation failed_node" "\<not> chain_has_resume_guard_error failed_node"
  "is_retryable_node_failure failed_node" "node_id_from_chain failed_node = Some ''n''"
  by code_simp+

lemma first_failure: "fst (failed_step default_switches al_client None True failed_node ''e'' no_keys) = Retry_Later 1"
proof -
  let ?N = "retry_counter_key None ''e'' (Some ''n'')" and ?T = "node_retry_total_key None ''e''"
  have small: "0 + 1 < INCR_LIMIT" by (simp add: INCR_LIMIT_def)
  obtain a s1 where r1: "record_at al_client ?N no_keys = (a, s1)" by (cases "record_at al_client ?N no_keys")
  note one = al.record_at_result [OF r1 [unfolded al_client_def] no_keys_server(2) small]
  then have T: "counter al_redis ?T s1 = Some 0" by (simp add: counter_def)
  obtain b s2 where r2: "record_at al_client ?T s1 = (b, s2)" by (cases "record_at al_client ?T s1")
  note two = al.record_at_result [OF r2 [unfolded al_client_def] T small]
  have "\<not> cancel_requested_flag False al_client None ''e'' no_keys" by (simp add: cancel_requested_flag_def al_client_def)
  then show ?thesis using one two r1 r2 failed_node_class
    by (simp add: failed_step_def default_switches_def node_failure_retry_decision_def record_node_retry_def record_node_retry_total_def
      node_retry_budget_def DEFAULT_MAX_DELIVERIES_def NODE_RETRY_TOTAL_MAX_def)
qed

theorem only_transient_failures_repeat_witness:
  "transient_chain (take 5 (tl failed_node)) \<and> fst (failed_step default_switches al_client None True failed_node ''e'' no_keys) = Retry_Later 1"
proof -
  obtain s' where f: "failed_step default_switches al_client None True failed_node ''e'' no_keys = (Retry_Later 1, s')"
    using first_failure by (cases "failed_step default_switches al_client None True failed_node ''e'' no_keys") auto
  from only_transient_failures_repeat [OF f] f show ?thesis by simp
qed

theorem repetitions_are_bounded_witness:
  "\<exists>y. retry_step al_redis al_scan default_switches None ''e'' \<lparr>ws_store = no_keys, ws_granted = [], ws_since = [], ws_wakeups = 0\<rparr> y
    \<and> ws_granted y = [Some ''n''] \<and> length (ws_granted y) < 100"
proof -
  let ?x = "\<lparr>ws_store = no_keys, ws_granted = [], ws_since = [], ws_wakeups = 0\<rparr>"
  obtain s' where f: "failed_step default_switches al_client None True failed_node ''e'' no_keys = (Retry_Later 1, s')"
    using first_failure by (cases "failed_step default_switches al_client None True failed_node ''e'' no_keys") auto
  let ?y = "?x\<lparr>ws_store := s', ws_granted := node_id_from_chain failed_node # [], ws_since := node_id_from_chain failed_node # []\<rparr>"
  have "countable_failures al_redis None ''e'' no_keys"
    by (simp add: countable_failures_def INCR_LIMIT_def)
  then have step: "retry_step al_redis al_scan default_switches None ''e'' ?x ?y"
    using rs_repeat [of al_redis None "''e''" ?x default_switches al_scan True failed_node 1 s'] f by (simp add: al_client_def)
  note node = failed_node_class(4)
  from step have "(retry_step al_redis al_scan default_switches None ''e'')\<^sup>*\<^sup>* ?x ?y" by blast
  from repetitions_are_bounded [OF al.counter_server_axioms _ _ _ this, of None] step node
  show ?thesis by (intro exI [of _ ?y]) simp
qed

theorem wakeup_restores_node_budgets_witness:
  "\<exists>s'. commit_g1_wakeup al_client False None ''e'' no_keys = (True, s') \<and> read_g1_wakeup_count al_client None ''e'' s' = 1"
proof -
  let ?s = "snd (commit_g1_wakeup al_client False None ''e'' no_keys)"
  have "fst (commit_g1_wakeup al_client False None ''e'' no_keys)"
    using al.incr_result [of "g1_wakeup_key None ''e''" no_keys 0 1]
    by (auto simp: commit_g1_wakeup_def al_client_def INCR_LIMIT_def)
  then have c: "commit_g1_wakeup al_client False None ''e'' no_keys = (True, ?s)"
    by (cases "commit_g1_wakeup al_client False None ''e'' no_keys") simp
  from wakeup_restores_node_budgets [OF al.counter_server_axioms al_client_def c no_keys_server(2)] c
  show ?thesis by (intro exI [of _ ?s]) (simp add: INCR_LIMIT_def)
qed

end
