(* ===== verification/Expr_Size.thy ===== *)
theory Expr_Size
  imports Py_Value
begin

text \<open>
  \<^verbatim>\<open>plaita/core/expression.py\<close>: the built-in functions of expressions and their size guards, on the values of
  the data model.  A function whose result may be much larger than its arguments computes the
  size of the result first and refuses when it exceeds a limit that grows with the input.  The three limits come
  from the environment and are an argument, as is \<open>sys.getsizeof\<close>.  Values nested deeper than the recursion
  limit of the interpreter, which the code refuses, are not told apart from others.
\<close>

section \<open>Limits and measures\<close>

record limits =
  max_result_size :: nat
  growth_factor :: nat
  max_result_hard :: nat

definition default_limits :: limits where
  "default_limits = \<lparr>max_result_size = 100000, growth_factor = 4, max_result_hard = 100000000\<rparr>"

definition allowed_result_size :: "limits \<Rightarrow> nat \<Rightarrow> nat" where
  "allowed_result_size L input = min (max (max_result_size L) (growth_factor L * input)) (max_result_hard L)"

fun bit_length :: "nat \<Rightarrow> nat" where
  "bit_length n = (if n = 0 then 0 else Suc (bit_length (n div 2)))"

declare bit_length.simps [simp del]

text \<open>The length of a value with \<open>len\<close>.\<close>

fun py_len :: "pyval \<Rightarrow> nat option" where
  "py_len (PStr s) = Some (length s)"
| "py_len (PList xs) = Some (length xs)"
| "py_len (PTuple xs) = Some (length xs)"
| "py_len (PDict d) = Some (length d)"
| "py_len _ = None"

definition measure_size :: "(pyval \<Rightarrow> nat) \<Rightarrow> pyval \<Rightarrow> nat" where
  "measure_size szof v = (case py_len v of Some n \<Rightarrow> n | None \<Rightarrow> szof v)"

text \<open>\<open>_value_size\<close>; on an integer, a bound of the length of its decimal form.\<close>

definition int_size :: "(pyval \<Rightarrow> nat) \<Rightarrow> int \<Rightarrow> nat" where
  "int_size szof i =
     (let bits = bit_length (nat \<bar>i\<bar>) in
      if bits \<le> 64 then length (int_str i) else max (szof (PInt i)) (bits div 3 + 1))"

definition value_size :: "(pyval \<Rightarrow> nat) \<Rightarrow> pyval \<Rightarrow> nat" where
  "value_size szof v =
     (case v of
        PStr s \<Rightarrow> length s
      | PInt i \<Rightarrow> int_size szof i
      | PBool b \<Rightarrow> int_size szof (if b then 1 else 0)
      | _ \<Rightarrow> measure_size szof v)"

text \<open>The loop of a walk over items: it stops once the total reaches the hard limit.\<close>

fun walk_total :: "nat \<Rightarrow> nat \<Rightarrow> nat \<Rightarrow> nat list \<Rightarrow> nat \<times> nat" where
  "walk_total hard acc count [] = (acc, count)"
| "walk_total hard acc count (n # ns) =
     (let acc' = acc + n in
      if hard \<le> acc' then (acc', count + 1) else walk_total hard acc' (count + 1) ns)"

definition walked :: "limits \<Rightarrow> nat list \<Rightarrow> nat" where
  "walked L ns = (case walk_total (max_result_hard L) 0 0 ns of (acc, count) \<Rightarrow> max acc count)"

fun content_size :: "limits \<Rightarrow> (pyval \<Rightarrow> nat) \<Rightarrow> pyval \<Rightarrow> nat" where
  "content_size L szof (PStr s) = length s"
| "content_size L szof (PInt i) = int_size szof i"
| "content_size L szof (PBool b) = 4"
| "content_size L szof PNone = 4"
| "content_size L szof (PList xs) = walked L (map (content_size L szof) xs)"
| "content_size L szof (PTuple xs) = walked L (map (content_size L szof) xs)"
| "content_size L szof (PDict d) = walked L (map (\<lambda>p. length (fst p) + content_size L szof (snd p)) d)"

definition measure_input :: "limits \<Rightarrow> (pyval \<Rightarrow> nat) \<Rightarrow> pyval list \<Rightarrow> nat" where
  "measure_input L szof args = sum_list (map (content_size L szof) args)"

definition check_result_size :: "limits \<Rightarrow> nat \<Rightarrow> nat \<Rightarrow> py_exc + unit" where
  "check_result_size L projected input = (if projected > allowed_result_size L input then Inl ValueError else Inr ())"

text \<open>\<open>_size_guard_result\<close> of \<^verbatim>\<open>core/expression_parser.py\<close>.\<close>

definition size_guard_result :: "limits \<Rightarrow> (pyval \<Rightarrow> nat) \<Rightarrow> pyval \<Rightarrow> nat \<Rightarrow> py_exc + pyval" where
  "size_guard_result L szof v input =
     (let size = measure_size szof v in
      if size > max_result_hard L then Inl ValueError
      else if size \<le> max_result_size L then Inr v
      else if size > allowed_result_size L input then Inl ValueError
      else Inr v)"

section \<open>Bounds of rendered text\<close>

definition occ :: "char \<Rightarrow> string \<Rightarrow> nat" where
  "occ c s = length (filter (\<lambda>d. d = c) s)"

definition ascii_escape :: "char \<Rightarrow> bool" where
  "ascii_escape c \<longleftrightarrow> (let n = (of_char c :: nat) in n \<le> 8 \<or> n = 11 \<or> n = 12 \<or> 14 \<le> n \<and> n \<le> 31 \<or> n = 127)"

definition latin1 :: "char \<Rightarrow> bool" where
  "latin1 c \<longleftrightarrow> 128 \<le> (of_char c :: nat)"

definition str_escape_width :: "string \<Rightarrow> nat" where
  "str_escape_width s =
     length s + 2 + occ (CHR 0x5C) s + (if CHR 0x22 \<in> set s then occ (CHR 0x27) s else 0)
       + (occ (CHR 0x09) s + occ (CHR 0x0A) s + occ (CHR 0x0D) s)
       + 3 * length (filter ascii_escape s) + 3 * length (filter latin1 s)"

text \<open>
  \<open>_container_render_bound\<close>: 16 for the brackets, and per item its bound and 2 for the separator; the loop
  ends early, with what it has so far, once the hard limit is reached.  Of a pair the limit is looked at after both parts.
\<close>

fun bound_loop :: "nat \<Rightarrow> nat \<Rightarrow> nat list \<Rightarrow> nat" where
  "bound_loop hard acc [] = acc"
| "bound_loop hard acc (n # ns) = (let acc' = acc + n in if hard \<le> acc' then acc' else bound_loop hard acc' ns)"

definition container_render_bound :: "limits \<Rightarrow> nat list \<Rightarrow> nat" where
  "container_render_bound L ns =
     (if length ns * 4 + 16 > max_result_hard L then length ns * 4 + 16 else bound_loop (max_result_hard L) 16 ns)"

fun repr_bound :: "limits \<Rightarrow> (pyval \<Rightarrow> nat) \<Rightarrow> pyval \<Rightarrow> nat" where
  "repr_bound L szof (PStr s) = str_escape_width s"
| "repr_bound L szof (PBool b) = 8"
| "repr_bound L szof (PInt i) = int_size szof i + 2"
| "repr_bound L szof PNone = 4"
| "repr_bound L szof (PList xs) = container_render_bound L (map (\<lambda>x. repr_bound L szof x + 2) xs)"
| "repr_bound L szof (PTuple xs) = container_render_bound L (map (\<lambda>x. repr_bound L szof x + 2) xs)"
| "repr_bound L szof (PDict d) =
     container_render_bound L (map (\<lambda>p. str_escape_width (fst p) + 2 + (repr_bound L szof (snd p) + 2)) d)"

fun render_size :: "limits \<Rightarrow> (pyval \<Rightarrow> nat) \<Rightarrow> pyval \<Rightarrow> nat" where
  "render_size L szof (PStr s) = length s"
| "render_size L szof v = repr_bound L szof v"


section \<open>The rendering bound is sound\<close>

declare nat_str.simps [simp del]

lemma bit_length_0 [simp]: "bit_length 0 = 0"
  by (simp add: bit_length.simps)

lemma bit_length_step: "n \<noteq> 0 \<Longrightarrow> bit_length n = Suc (bit_length (n div 2))"
  by (subst bit_length.simps) simp

lemma bit_length_mono: "m \<le> n \<Longrightarrow> bit_length m \<le> bit_length n"
proof (induction n arbitrary: m rule: bit_length.induct)
  case (1 n)
  show ?case
  proof (cases "m = 0")
    case False
    with "1.prems" have "n \<noteq> 0" "m div 2 \<le> n div 2" by (auto simp: div_le_mono)
    with "1.IH" False show ?thesis by (simp add: bit_length_step)
  qed simp
qed

lemma bit_length_div8: "8 \<le> n \<Longrightarrow> bit_length n = 3 + bit_length (n div 8)"
proof -
  assume n: "8 \<le> n"
  then have "n \<noteq> 0" "n div 2 \<noteq> 0" "n div 2 div 2 \<noteq> 0" by auto
  then have "bit_length n = 3 + bit_length (n div 2 div 2 div 2)" by (simp add: bit_length_step)
  then show ?thesis by (simp add: div_mult2_eq [symmetric])
qed

lemma decimal_length: "length (nat_str n) \<le> bit_length n div 3 + 1"
proof (induction n rule: nat_str.induct)
  case (1 n)
  show ?case
  proof (cases "n < 10")
    case True
    then show ?thesis by (subst nat_str.simps) simp
  next
    case False
    have "bit_length (n div 10) \<le> bit_length (n div 8)" by (rule bit_length_mono) (simp add: div_le_mono2)
    then have "3 + bit_length (n div 10) \<le> bit_length n" using False by (simp add: bit_length_div8)
    then have "bit_length (n div 10) div 3 + 1 \<le> bit_length n div 3"
      using div_le_mono [of "3 + bit_length (n div 10)" "bit_length n" 3] by simp
    with 1 False show ?thesis by (subst nat_str.simps) simp
  qed
qed

lemma int_str_length: "length (int_str i) \<le> int_size szof i + 1"
proof (cases "bit_length (nat \<bar>i\<bar>) \<le> 64")
  case True
  then show ?thesis by (simp add: int_size_def)
next
  case False
  moreover have "length (int_str i) \<le> length (nat_str (nat \<bar>i\<bar>)) + 1" by (simp add: int_str_def)
  ultimately show ?thesis using decimal_length [of "nat \<bar>i\<bar>"] by (simp add: int_size_def Let_def max_def)
qed

lemma occ_simps [simp]: "occ c [] = 0" "occ c (d # s) = (if d = c then 1 else 0) + occ c s"
  by (simp_all add: occ_def)

lemma occ_absent [simp]: "c \<notin> set s \<Longrightarrow> occ c s = 0"
  by (induction s) auto

lemma esc_char_length:
  "length (esc_char q c) \<le> 1 + (if c = CHR 0x5C then 1 else 0) + (if c = q then 1 else 0)
     + (if c = CHR 0x09 then 1 else 0) + (if c = CHR 0x0A then 1 else 0) + (if c = CHR 0x0D then 1 else 0)
     + 3 * (if ascii_escape c then 1 else 0) + 3 * (if latin1 c then 1 else 0)"
  using of_char_eq_iff [of c "CHR 0x5C", where 'a = nat] of_char_eq_iff [of c "CHR 0x09", where 'a = nat]
    of_char_eq_iff [of c "CHR 0x0A", where 'a = nat] of_char_eq_iff [of c "CHR 0x0D", where 'a = nat]
  by (auto simp: esc_char_def ascii_escape_def latin1_def Let_def)

lemma length_filter_Cons: "length (filter P (c # s)) = (if P c then 1 else 0) + length (filter P s)"
  by simp

lemma escaped_length:
  "length (concat (map (esc_char q) s)) \<le> length s + occ (CHR 0x5C) s + occ q s
     + (occ (CHR 0x09) s + occ (CHR 0x0A) s + occ (CHR 0x0D) s)
     + 3 * length (filter ascii_escape s) + 3 * length (filter latin1 s)"
proof (induction s)
  case (Cons c s)
  have "length (concat (map (esc_char q) (c # s))) = length (esc_char q c) + length (concat (map (esc_char q) s))" by simp
  with Cons esc_char_length [of q c] show ?case
    unfolding length_filter_Cons occ_simps list.size(4) distrib_left by linarith
qed simp

lemma str_repr_length: "length (str_repr s) \<le> str_escape_width s"
  using escaped_length [of "CHR 0x22" s] escaped_length [of "CHR 0x27" s]
  by (auto simp: str_repr_def str_escape_width_def Let_def)

lemma bound_loop_complete: "bound_loop hard acc ns < hard \<Longrightarrow> bound_loop hard acc ns = acc + sum_list ns"
proof (induction ns arbitrary: acc)
  case (Cons n ns)
  show ?case
  proof (cases "hard \<le> acc + n")
    case False
    with Cons.prems have "bound_loop hard (acc + n) ns < hard" by simp
    from Cons.IH [OF this] False show ?thesis by simp
  qed (use Cons.prems in simp)
qed simp

lemma container_bound:
  "container_render_bound L ns < max_result_hard L \<Longrightarrow> container_render_bound L ns = 16 + sum_list ns"
  by (auto simp: container_render_bound_def bound_loop_complete split: if_splits)

lemma join_with_length: "length (join_with sep ss) \<le> sum_list (map (\<lambda>s. length s + length sep) ss)"
  by (induction sep ss rule: join_with.induct) auto

lemma sum_list_bound: "(\<And>x. x \<in> set xs \<Longrightarrow> f x \<le> g x) \<Longrightarrow> sum_list (map f xs) \<le> (sum_list (map g xs) :: nat)"
  by (induction xs) (auto simp: add_le_mono)

lemma joined_items_length:
  fixes g :: "'a \<Rightarrow> nat"
  assumes "container_render_bound L (map g xs) < max_result_hard L"
    and "\<And>x. x \<in> set xs \<Longrightarrow> g x < max_result_hard L \<Longrightarrow> length (f x) + 2 \<le> g x"
  shows "length (join_with '', '' (map f xs)) + 16 \<le> container_render_bound L (map g xs)"
proof -
  have eq: "container_render_bound L (map g xs) = 16 + sum_list (map g xs)" using assms(1) by (rule container_bound)
  have "length (f x) + 2 \<le> g x" if x: "x \<in> set xs" for x
    using assms(2) [OF x] member_le_sum_list [of "g x" "map g xs"] x assms(1) eq by fastforce
  then have "sum_list (map (\<lambda>x. length (f x) + 2) xs) \<le> sum_list (map g xs)" by (rule sum_list_bound)
  moreover have "length (join_with '', '' (map f xs)) \<le> sum_list (map (\<lambda>x. length (f x) + 2) xs)"
    using join_with_length [of "'', ''" "map f xs"] by (simp add: o_def)
  ultimately show ?thesis using eq by simp
qed

lemma repr_bound_sound: "repr_bound L szof v < max_result_hard L \<Longrightarrow> length (py_repr v) \<le> repr_bound L szof v"
proof (induction v)
  case (PInt i)
  then show ?case using int_str_length [of i szof] by simp
next
  case (PStr s)
  then show ?case by (simp add: str_repr_length)
next
  case (PList xs)
  then show ?case using joined_items_length [of L "\<lambda>x. repr_bound L szof x + 2" xs py_repr] by fastforce
next
  case (PTuple xs)
  then have "length (join_with '', '' (map py_repr xs)) + 16 \<le> repr_bound L szof (PTuple xs)"
    using joined_items_length [of L "\<lambda>x. repr_bound L szof x + 2" xs py_repr] by fastforce
  then show ?case by (cases xs rule: remdups_adj.cases) auto
next
  case (PDict d)
  have "length (str_repr (fst p) @ '': '' @ py_repr (snd p)) + 2 \<le> str_escape_width (fst p) + 2 + (repr_bound L szof (snd p) + 2)"
    if "p \<in> set d" "str_escape_width (fst p) + 2 + (repr_bound L szof (snd p) + 2) < max_result_hard L" for p
    using PDict.IH [of p "snd p"] that str_repr_length [of "fst p"] by (cases p) auto
  with PDict.prems show ?case
    using joined_items_length [of L "\<lambda>p. str_escape_width (fst p) + 2 + (repr_bound L szof (snd p) + 2)" d
        "\<lambda>p. str_repr (fst p) @ '': '' @ py_repr (snd p)"] by fastforce
qed auto

text \<open>
  Property C35. The bound computed before a value is rendered is sound: below the hard limit, the text of the value is at most
  as long as the bound.
\<close>

theorem render_bound_sound:
  assumes "render_size L szof v < max_result_hard L"
  shows "length (py_str v) \<le> render_size L szof v"
  using assms repr_bound_sound [of L szof v] by (cases v) auto

text \<open>
  At the hard limit itself the bound is not sound: the loop over the items stops there, and the tests of
  the callers admit a bound equal to the limit.
\<close>

lemma render_bound_at_limit:
  "let L = \<lparr>max_result_size = 20, growth_factor = 4, max_result_hard = 36\<rparr>; v = PList [PInt 1, PInt 1, PInt 1, PInt 1, PStr ''0123456789012345678901234567890123456789''] in
     render_size L (\<lambda>_. 28) v = max_result_hard L \<and> length (py_str v) = 56"
  by code_simp

theorem render_bound_sound_witness:
  "let L = \<lparr>max_result_size = 20, growth_factor = 4, max_result_hard = 40\<rparr> in
     length (py_str (PList [PInt (- 12), PStr [CHR 0x0A]])) \<le> render_size L (\<lambda>_. 28) (PList [PInt (- 12), PStr [CHR 0x0A]])"
proof -
  have "render_size \<lparr>max_result_size = 20, growth_factor = 4, max_result_hard = 40\<rparr> (\<lambda>_. 28) (PList [PInt (- 12), PStr [CHR 0x0A]])
      < max_result_hard \<lparr>max_result_size = 20, growth_factor = 4, max_result_hard = 40\<rparr>" by code_simp
  then show ?thesis unfolding Let_def by (rule render_bound_sound)
qed

end
