(* ===== verification/Expr_Functions.thy ===== *)
theory Expr_Functions
  imports Expr_Size
begin

text \<open>
  The built-in functions of \<^verbatim>\<open>plaita/core/expression.py\<close> which build new strings and lists, with the projections
  of their size, and those which select or compare.  A function that may multiply its input (\<open>mul\<close>, \<open>replace\<close>,
  \<open>join\<close>) compares a projected size with the limit before it builds anything; the projections are shown to
  bound the results.
\<close>

section \<open>The operators of the language\<close>

fun py_add :: "pyval \<Rightarrow> pyval \<Rightarrow> py_exc + pyval" where
  "py_add (PStr a) (PStr b) = Inr (PStr (a @ b))"
| "py_add (PList a) (PList b) = Inr (PList (a @ b))"
| "py_add (PTuple a) (PTuple b) = Inr (PTuple (a @ b))"
| "py_add a b = (case (num_of a, num_of b) of (Some m, Some n) \<Rightarrow> Inr (PInt (m + n)) | _ \<Rightarrow> Inl TypeError)"

definition py_sub :: "pyval \<Rightarrow> pyval \<Rightarrow> py_exc + pyval" where
  "py_sub a b = (case (num_of a, num_of b) of (Some m, Some n) \<Rightarrow> Inr (PInt (m - n)) | _ \<Rightarrow> Inl TypeError)"

text \<open>A sequence times a number.\<close>

fun py_repeat :: "pyval \<Rightarrow> int \<Rightarrow> py_exc + pyval" where
  "py_repeat (PStr s) n = Inr (PStr (concat (replicate (nat n) s)))"
| "py_repeat (PList xs) n = Inr (PList (concat (replicate (nat n) xs)))"
| "py_repeat (PTuple xs) n = Inr (PTuple (concat (replicate (nat n) xs)))"
| "py_repeat _ n = Inl TypeError"

definition py_mul :: "pyval \<Rightarrow> pyval \<Rightarrow> py_exc + pyval" where
  "py_mul a b =
     (case (num_of a, num_of b) of
        (Some m, Some n) \<Rightarrow> Inr (PInt (m * n))
      | (Some m, None) \<Rightarrow> py_repeat b m
      | (None, Some n) \<Rightarrow> py_repeat a n
      | (None, None) \<Rightarrow> Inl TypeError)"

text \<open>\<open>str.count\<close> and \<open>str.replace\<close> for a pattern that is not empty: occurrences from the left, without overlap.\<close>

function str_count :: "string \<Rightarrow> string \<Rightarrow> nat" where
  "str_count old s =
     (if s = [] \<or> old = [] then 0
      else if Sublist.prefix old s then Suc (str_count old (drop (length old) s))
      else str_count old (tl s))"
  by pat_completeness auto
termination by (relation "measure (\<lambda>(old, s). length s)") auto

function replace_hits :: "string \<Rightarrow> string \<Rightarrow> string \<Rightarrow> string" where
  "replace_hits old new s =
     (if s = [] \<or> old = [] then s
      else if Sublist.prefix old s then new @ replace_hits old new (drop (length old) s)
      else hd s # replace_hits old new (tl s))"
  by pat_completeness auto
termination by (relation "measure (\<lambda>(old, new, s). length s)") auto

declare str_count.simps [simp del] replace_hits.simps [simp del]

definition py_str_replace :: "string \<Rightarrow> string \<Rightarrow> string \<Rightarrow> string" where
  "py_str_replace s old new =
     (if old = [] then new @ concat (map (\<lambda>c. c # new) s) else replace_hits old new s)"

text \<open>An index of a slice, clamped to the sequence; \<open>None\<close> stands for the end it is given for.\<close>

definition slice_index :: "nat \<Rightarrow> nat \<Rightarrow> pyval \<Rightarrow> nat option" where
  "slice_index len dflt v =
     (case v of
        PNone \<Rightarrow> Some dflt
      | _ \<Rightarrow>
         (case num_of v of
            None \<Rightarrow> None
          | Some i \<Rightarrow> Some (if i < 0 then nat (max 0 (int len + i)) else min len (nat i))))"

definition slice_list :: "'a list \<Rightarrow> pyval \<Rightarrow> pyval \<Rightarrow> 'a list option" where
  "slice_list xs b c =
     (case (slice_index (length xs) 0 b, slice_index (length xs) (length xs) c) of
        (Some i, Some j) \<Rightarrow> Some (take (j - i) (drop i xs))
      | _ \<Rightarrow> None)"

definition index_list :: "'a list \<Rightarrow> pyval \<Rightarrow> py_exc + 'a" where
  "index_list xs b =
     (case num_of b of
        None \<Rightarrow> Inl TypeError
      | Some i \<Rightarrow>
          (let j = (if i < 0 then int (length xs) + i else i) in
           if 0 \<le> j \<and> j < int (length xs) then Inr (xs ! nat j) else Inl IndexError))"

section \<open>The functions\<close>

definition seq_kind :: "pyval \<Rightarrow> string option" where
  "seq_kind v =
     (case v of
        PStr _ \<Rightarrow> Some ''str''
      | PList _ \<Rightarrow> Some ''list''
      | PTuple _ \<Rightarrow> Some ''tuple''
      | _ \<Rightarrow> None)"

definition trusted_len :: "pyval \<Rightarrow> nat" where
  "trusted_len v = (case py_len v of Some n \<Rightarrow> n | None \<Rightarrow> 0)"

definition pair_total :: "pyval \<Rightarrow> pyval \<Rightarrow> nat option" where
  "pair_total a b =
     (if seq_kind a \<noteq> None \<and> seq_kind b = seq_kind a then Some (trusted_len a + trusted_len b) else None)"

definition fn_add :: "limits \<Rightarrow> pyval \<Rightarrow> pyval \<Rightarrow> py_exc + pyval" where
  "fn_add L a b =
     rbind (case pair_total a b of None \<Rightarrow> Inr () | Some n \<Rightarrow> check_result_size L n n) (\<lambda>_. py_add a b)"

definition fn_extend :: "limits \<Rightarrow> pyval \<Rightarrow> pyval \<Rightarrow> py_exc + pyval" where
  "fn_extend L a b =
     rbind (case pair_total a b of None \<Rightarrow> Inr () | Some n \<Rightarrow> check_result_size L n n) (\<lambda>_. py_add a b)"

definition fn_append :: "limits \<Rightarrow> pyval \<Rightarrow> pyval \<Rightarrow> py_exc + pyval" where
  "fn_append L a b =
     rbind (case a of PList xs \<Rightarrow> check_result_size L (length xs + 1) (length xs + 1) | _ \<Rightarrow> Inr ()) (\<lambda>_. py_add a (PList [b]))"

text \<open>The sequence and the number of a repetition, in either order.\<close>

definition repetition :: "pyval \<Rightarrow> pyval \<Rightarrow> (pyval \<times> int) option" where
  "repetition a b =
     (case (num_of a, seq_kind b, seq_kind a, num_of b) of
        (Some n, Some _, _, _) \<Rightarrow> Some (b, n)
      | (_, _, Some _, Some n) \<Rightarrow> Some (a, n)
      | _ \<Rightarrow> None)"

definition fn_mul :: "limits \<Rightarrow> pyval \<Rightarrow> pyval \<Rightarrow> py_exc + pyval" where
  "fn_mul L a b =
     rbind (case repetition a b of
              Some (sq, n) \<Rightarrow> if 0 < n then check_result_size L (trusted_len sq * nat n) (trusted_len sq) else Inr ()
            | None \<Rightarrow> Inr ())
       (\<lambda>_. py_mul a b)"

definition replace_projected :: "string \<Rightarrow> string \<Rightarrow> string \<Rightarrow> nat" where
  "replace_projected s old new =
     (if old = [] then length s * (length new + 1) + length new
      else if length new > length old then length s + str_count old s * (length new - length old)
      else length s)"

definition fn_replace :: "limits \<Rightarrow> pyval \<Rightarrow> pyval \<Rightarrow> pyval \<Rightarrow> py_exc + pyval" where
  "fn_replace L a b c =
     (case (a, b, c) of
        (PStr s, PStr old, PStr new) \<Rightarrow>
          rbind (check_result_size L (replace_projected s old new) (length s + length old + length new))
            (\<lambda>_. Inr (PStr (py_str_replace s old new)))
      | _ \<Rightarrow> if seq_kind a \<noteq> None then Inl TypeError else Inl AttributeError)"

definition join_input_size :: "nat \<Rightarrow> nat \<Rightarrow> nat \<Rightarrow> nat" where
  "join_input_size count item_total sep_len = max (item_total + sep_len) count"

definition as_str :: "pyval \<Rightarrow> string option" where
  "as_str v = (case v of PStr s \<Rightarrow> Some s | _ \<Rightarrow> None)"

text \<open>
  The items a separator joins: the characters of a string, the items of a list or a tuple when they are
  all strings, the keys of a dictionary.  \<open>Inr None\<close>: left to \<open>str.join\<close>, which raises.
\<close>

definition join_items :: "pyval \<Rightarrow> py_exc + string list option" where
  "join_items v =
     (case v of
        PStr s \<Rightarrow> Inr (Some (map (\<lambda>c. [c]) s))
      | PList xs \<Rightarrow> Inr (those (map as_str xs))
      | PTuple xs \<Rightarrow> Inr (those (map as_str xs))
      | PDict d \<Rightarrow> Inr (Some (map fst d))
      | _ \<Rightarrow> Inl TypeError)"

text \<open>The test after each key of a dictionary.\<close>

fun join_scan :: "limits \<Rightarrow> nat \<Rightarrow> nat \<Rightarrow> nat \<Rightarrow> string list \<Rightarrow> py_exc + unit" where
  "join_scan L sep_len seen tot [] = Inr ()"
| "join_scan L sep_len seen tot (s # ss) =
     (let seen' = seen + 1; tot' = tot + length s in
      if seen' * 8 > max_result_hard L then Inl ValueError
      else if 2 \<le> seen' \<and> tot' + sep_len * (seen' - 1) > allowed_result_size L (join_input_size seen' tot' sep_len)
      then Inl ValueError
      else join_scan L sep_len seen' tot' ss)"

definition join_total :: "string list \<Rightarrow> nat \<Rightarrow> nat" where
  "join_total items sep_len =
     (let n = length items; item_total = sum_list (map length items) in
      if 1 < n then item_total + sep_len * (n - 1) else item_total)"

definition fn_join :: "limits \<Rightarrow> pyval \<Rightarrow> pyval \<Rightarrow> py_exc + pyval" where
  "fn_join L a b =
     (case b of
        PStr sep \<Rightarrow>
          rbind (join_items a) (\<lambda>r.
            case r of
              None \<Rightarrow> Inl TypeError
            | Some items \<Rightarrow>
                rbind (case a of PDict _ \<Rightarrow> join_scan L (length sep) 0 0 items | _ \<Rightarrow> Inr ()) (\<lambda>_.
                rbind (check_result_size L (join_total items (length sep))
                         (join_input_size (length items) (sum_list (map length items)) (length sep))) (\<lambda>_.
                Inr (PStr (join_with sep items)))))
      | _ \<Rightarrow> Inl TypeError)"

definition fn_concat :: "limits \<Rightarrow> (pyval \<Rightarrow> nat) \<Rightarrow> pyval list \<Rightarrow> py_exc + pyval" where
  "fn_concat L szof args =
     (let n = sum_list (map (render_size L szof) args) in
      rbind (check_result_size L n n) (\<lambda>_. Inr (PStr (concat (map py_str args)))))"

definition fn_and :: "pyval \<Rightarrow> pyval \<Rightarrow> pyval" where
  "fn_and a b = (if truthy a then b else a)"

definition fn_or :: "pyval list \<Rightarrow> pyval" where
  "fn_or args = (case find truthy args of Some v \<Rightarrow> v | None \<Rightarrow> PBool False)"

definition fn_not :: "pyval \<Rightarrow> pyval" where
  "fn_not a = PBool (\<not> truthy a)"

definition fn_ifelse :: "pyval \<Rightarrow> pyval \<Rightarrow> pyval \<Rightarrow> pyval" where
  "fn_ifelse c a b = (if truthy c then a else b)"

text \<open>The functions on sequences; on a dictionary a slice raises as before Python 3.12.\<close>

definition fn_slice :: "pyval \<Rightarrow> pyval \<Rightarrow> pyval \<Rightarrow> py_exc + pyval" where
  "fn_slice a b c =
     (case a of
        PStr s \<Rightarrow> (case slice_list s b c of Some r \<Rightarrow> Inr (PStr r) | None \<Rightarrow> Inl TypeError)
      | PList xs \<Rightarrow> (case slice_list xs b c of Some r \<Rightarrow> Inr (PList r) | None \<Rightarrow> Inl TypeError)
      | PTuple xs \<Rightarrow> (case slice_list xs b c of Some r \<Rightarrow> Inr (PTuple r) | None \<Rightarrow> Inl TypeError)
      | _ \<Rightarrow> Inl TypeError)"

definition fn_insert :: "pyval \<Rightarrow> pyval \<Rightarrow> pyval \<Rightarrow> py_exc + pyval" where
  "fn_insert a b c =
     rbind (fn_slice a PNone b) (\<lambda>l. rbind (py_add l (PList [c])) (\<lambda>m. rbind (fn_slice a b PNone) (\<lambda>r. py_add m r)))"

definition fn_addListItem :: "pyval \<Rightarrow> pyval \<Rightarrow> py_exc + pyval" where
  "fn_addListItem a b = py_add a (PList [b])"

definition fn_reverse :: "pyval \<Rightarrow> py_exc + pyval" where
  "fn_reverse a =
     (case a of
        PStr s \<Rightarrow> Inr (PStr (rev s))
      | PList xs \<Rightarrow> Inr (PList (rev xs))
      | PTuple xs \<Rightarrow> Inr (PTuple (rev xs))
      | _ \<Rightarrow> Inl TypeError)"

definition fn_getListItem :: "pyval \<Rightarrow> pyval \<Rightarrow> py_exc + pyval" where
  "fn_getListItem a b =
     (case a of
        PStr s \<Rightarrow> rbind (index_list s b) (\<lambda>c. Inr (PStr [c]))
      | PList xs \<Rightarrow> index_list xs b
      | PTuple xs \<Rightarrow> index_list xs b
      | PDict d \<Rightarrow>
          if \<not> hashable b then Inl TypeError
          else (case b of PStr k \<Rightarrow> (case dict_get d k of Some v \<Rightarrow> Inr v | None \<Rightarrow> Inl KeyError) | _ \<Rightarrow> Inl KeyError)
      | _ \<Rightarrow> Inl TypeError)"


section \<open>The projections bound the results\<close>

lemma drop_prefix_length: "Sublist.prefix old s \<Longrightarrow> length s = length old + length (drop (length old) s)"
  by (metis append_eq_conv_conj Sublist.prefix_def length_append)

lemma hits_none: "s = [] \<or> old = [] \<Longrightarrow> replace_hits old new s = s \<and> str_count old s = 0"
  by (simp add: replace_hits.simps [of old new s] str_count.simps [of old s])

lemma hits_here:
  "s \<noteq> [] \<Longrightarrow> old \<noteq> [] \<Longrightarrow> Sublist.prefix old s \<Longrightarrow>
     replace_hits old new s = new @ replace_hits old new (drop (length old) s)
     \<and> str_count old s = Suc (str_count old (drop (length old) s))"
  by (subst replace_hits.simps, subst str_count.simps) simp

lemma hits_later:
  "s \<noteq> [] \<Longrightarrow> old \<noteq> [] \<Longrightarrow> \<not> Sublist.prefix old s \<Longrightarrow>
     replace_hits old new s = hd s # replace_hits old new (tl s) \<and> str_count old s = str_count old (tl s)"
  by (subst replace_hits.simps, subst str_count.simps) simp

lemma replace_hits_length:
  "length (replace_hits old new s) + str_count old s * length old = length s + str_count old s * length new"
proof (induction old new s rule: replace_hits.induct)
  case (1 old new s)
  consider "s = [] \<or> old = []" | "s \<noteq> []" "old \<noteq> []" "Sublist.prefix old s" | "s \<noteq> []" "old \<noteq> []" "\<not> Sublist.prefix old s" by blast
  then show ?case
  proof cases
    case 1
    then show ?thesis using hits_none [of s old new] by simp
  next
    case 2
    then have IH: "length (replace_hits old new (drop (length old) s)) + str_count old (drop (length old) s) * length old
        = length (drop (length old) s) + str_count old (drop (length old) s) * length new" by (intro "1.IH"(1)) auto
    have "length (replace_hits old new s) = length new + length (replace_hits old new (drop (length old) s))"
      "str_count old s = Suc (str_count old (drop (length old) s))" using hits_here [OF 2, of new] by simp_all
    with IH drop_prefix_length [OF 2(3)] show ?thesis by (simp only: mult_Suc)
  next
    case 3
    then have "length (replace_hits old new (tl s)) + str_count old (tl s) * length old
        = length (tl s) + str_count old (tl s) * length new" by (intro "1.IH"(2)) auto
    with 3 hits_later [OF 3, of new] show ?thesis by (cases s) simp_all
  qed
qed

lemma spread_length: "length (concat (map (\<lambda>c. c # new) s)) = length s * (length new + 1)"
  by (induction s) auto

lemma replace_projection: "length (py_str_replace s old new) \<le> replace_projected s old new"
proof (cases "old = []")
  case True
  then show ?thesis by (simp add: py_str_replace_def replace_projected_def spread_length)
next
  case False
  have eq: "length (replace_hits old new s) + str_count old s * length old = length s + str_count old s * length new"
    by (rule replace_hits_length)
  show ?thesis
  proof (cases "length new > length old")
    case True
    with eq have "length (replace_hits old new s) = length s + str_count old s * (length new - length old)"
      by (simp add: diff_mult_distrib2)
    with False True show ?thesis by (simp add: py_str_replace_def replace_projected_def)
  next
    case shorter: False
    then have "str_count old s * length new \<le> str_count old s * length old" by simp
    with eq have "length (replace_hits old new s) \<le> length s" by linarith
    with False shorter show ?thesis by (simp add: py_str_replace_def replace_projected_def)
  qed
qed

lemma concat_replicate_length: "length (concat (replicate n xs)) = length xs * n"
  by (induction n) auto

lemma join_with_total: "length (join_with sep items) = join_total items (length sep)"
  by (induction sep items rule: join_with.induct) (auto simp: join_total_def Let_def)

lemma check_passed: "check_result_size L n m = Inr u \<Longrightarrow> n \<le> allowed_result_size L m"
  by (simp add: check_result_size_def split: if_splits)

lemma py_add_length: "pair_total a b = Some n \<Longrightarrow> py_add a b = Inr r \<Longrightarrow> py_len r = Some n"
  by (cases a; cases b) (auto simp: pair_total_def seq_kind_def trusted_len_def)

lemma rendered_total:
  assumes "sum_list (map (render_size L szof) args) < max_result_hard L"
  shows "length (concat (map py_str args)) \<le> sum_list (map (render_size L szof) args)"
proof -
  have "length (py_str v) \<le> render_size L szof v" if "v \<in> set args" for v
  proof -
    have "render_size L szof v \<le> sum_list (map (render_size L szof) args)" using that by (intro member_le_sum_list) auto
    with assms repr_bound_sound [of L szof v] show ?thesis by (cases v) auto
  qed
  then have "sum_list (map (\<lambda>v. length (py_str v)) args) \<le> sum_list (map (render_size L szof) args)" by (rule sum_list_bound)
  then show ?thesis by (simp add: length_concat o_def)
qed

text \<open>A call of a function by name, with the sizes it takes its limit from.\<close>

definition guarded_call :: "limits \<Rightarrow> (pyval \<Rightarrow> nat) \<Rightarrow> string \<Rightarrow> pyval list \<Rightarrow> py_exc + pyval" where
  "guarded_call L szof name args =
     (if name = ''concat'' then fn_concat L szof args
      else (case args of
          [a, b] \<Rightarrow>
            if name = ''add'' then fn_add L a b
            else if name = ''mul'' then fn_mul L a b
            else if name = ''append'' then fn_append L a b
            else if name = ''extend'' then fn_extend L a b
            else if name = ''join'' then fn_join L a b
            else Inl TypeError
        | [a, b, c] \<Rightarrow> if name = ''replace'' then fn_replace L a b c else Inl TypeError
        | _ \<Rightarrow> Inl TypeError))"

lemma fn_add_bounded: "fn_add L a b = Inr r \<Longrightarrow> py_len r = Some n \<Longrightarrow> n \<le> allowed_result_size L n"
proof -
  assume r: "fn_add L a b = Inr r" and n: "py_len r = Some n"
  show "n \<le> allowed_result_size L n"
  proof (cases "pair_total a b")
    case None
    with r n show ?thesis
      by (cases a; cases b) (auto simp: fn_add_def pair_total_def seq_kind_def)
  next
    case (Some m)
    with r have "py_add a b = Inr r" and m: "m \<le> allowed_result_size L m"
      by (auto simp: fn_add_def rbind_eq_Inr_iff dest: check_passed)
    with Some n py_add_length [of a b m r] show ?thesis by simp
  qed
qed

lemma fn_append_bounded: "fn_append L a b = Inr r \<Longrightarrow> py_len r = Some n \<Longrightarrow> n \<le> allowed_result_size L n"
  by (cases a) (auto simp: fn_append_def rbind_eq_Inr_iff dest!: check_passed)

lemma fn_mul_bounded:
  assumes "fn_mul L a b = Inr r" and "py_len r = Some n"
  obtains sq k where "repetition a b = Some (sq, k)" "n = trusted_len sq * nat k"
    "n = 0 \<or> n \<le> allowed_result_size L (trusted_len sq)"
proof -
  from assms have r: "py_mul a b = Inr r" by (auto simp: fn_mul_def rbind_eq_Inr_iff)
  obtain sq k where sq: "repetition a b = Some (sq, k)" and n: "n = trusted_len sq * nat k"
    using r assms(2) by (cases a; cases b)
      (auto simp: py_mul_def repetition_def seq_kind_def trusted_len_def concat_replicate_length)
  moreover have "n = 0 \<or> n \<le> allowed_result_size L (trusted_len sq)"
    using assms(1) sq n by (auto simp: fn_mul_def rbind_eq_Inr_iff split: if_splits dest!: check_passed)
  ultimately show thesis by (rule that)
qed

lemma fn_replace_bounded:
  assumes "fn_replace L a b c = Inr r"
  obtains s old new where "a = PStr s" "b = PStr old" "c = PStr new" "r = PStr (py_str_replace s old new)"
    "length (py_str_replace s old new) \<le> allowed_result_size L (length s + length old + length new)"
  using assms le_trans [OF replace_projection]
  by (auto simp: fn_replace_def rbind_eq_Inr_iff split: pyval.splits if_splits dest!: check_passed)

lemma fn_join_bounded:
  assumes "fn_join L a b = Inr r"
  obtains sep items where "b = PStr sep" "join_items a = Inr (Some items)" "r = PStr (join_with sep items)"
    "join_total items (length sep) \<le> allowed_result_size L (join_input_size (length items) (sum_list (map length items)) (length sep))"
proof (cases b)
  case (PStr sep)
  with assms obtain ri where ri: "join_items a = Inr ri" by (auto simp: fn_join_def rbind_eq_Inr_iff)
  with assms PStr obtain items where "ri = Some items" by (cases ri) (auto simp: fn_join_def)
  with assms PStr ri that show thesis by (auto simp: fn_join_def rbind_eq_Inr_iff dest!: check_passed)
qed (use assms in \<open>simp_all add: fn_join_def\<close>)

text \<open>What the limit of a call is taken from.\<close>

definition growth_base :: "limits \<Rightarrow> (pyval \<Rightarrow> nat) \<Rightarrow> string \<Rightarrow> pyval list \<Rightarrow> nat" where
  "growth_base L szof name args =
     (if name = ''concat'' then sum_list (map (render_size L szof) args)
      else if name = ''append'' then trusted_len (hd args) + 1
      else if name = ''mul'' then (case repetition (args ! 0) (args ! 1) of Some (sq, _) \<Rightarrow> trusted_len sq | None \<Rightarrow> 0)
      else if name = ''join'' then
        (case join_items (args ! 0) of
           Inr (Some items) \<Rightarrow> join_input_size (length items) (sum_list (map length items)) (trusted_len (args ! 1))
         | _ \<Rightarrow> 0)
      else sum_list (map trusted_len args))"

lemma fn_add_base: "fn_add L a b = Inr r \<Longrightarrow> py_len r = Some n \<Longrightarrow> n = trusted_len a + trusted_len b"
  by (cases a; cases b) (auto simp: fn_add_def rbind_eq_Inr_iff trusted_len_def)

lemma fn_append_base: "fn_append L a b = Inr r \<Longrightarrow> py_len r = Some n \<Longrightarrow> n = trusted_len a + 1"
  by (cases a) (auto simp: fn_append_def rbind_eq_Inr_iff trusted_len_def)

lemma fn_extend_add: "fn_extend L a b = fn_add L a b"
  by (simp add: fn_extend_def fn_add_def)

text \<open>
  A function that builds a string or a list returns it only if its length is within the limit for what it
  was built from: the larger of the fixed size and the growth factor times the size of the input, and never more
  than the hard limit.  For \<open>concat\<close> the bounds of the rendered arguments have to be below the hard limit.
\<close>

theorem built_results_bounded:
  assumes "guarded_call L szof name args = Inr r" and "py_len r = Some n"
    and "name = ''concat'' \<Longrightarrow> sum_list (map (render_size L szof) args) < max_result_hard L"
  shows "n \<le> allowed_result_size L (growth_base L szof name args)"
proof -
  consider "name = ''concat''" | a b where "args = [a, b]" "name \<in> {''add'', ''extend'', ''append'', ''mul'', ''join''}"
    | a b c where "args = [a, b, c]" "name = ''replace''"
    using assms(1) by (auto simp: guarded_call_def split: list.splits if_splits)
  then show ?thesis
  proof cases
    case 1
    with assms rendered_total [OF assms(3)] show ?thesis
      by (auto simp: guarded_call_def growth_base_def fn_concat_def rbind_eq_Inr_iff Let_def dest!: check_passed)
  next
    case (2 a b)
    from 2(2) consider "name = ''add'' \<or> name = ''extend''" | "name = ''append''" | "name = ''mul''" | "name = ''join''" by auto
    then show ?thesis
    proof cases
      case 1
      with assms(1) 2(1) have r: "fn_add L a b = Inr r" by (auto simp: guarded_call_def fn_extend_add)
      from 1 2(1) have "growth_base L szof name args = trusted_len a + trusted_len b" by (auto simp: growth_base_def)
      with fn_add_bounded [OF r assms(2)] fn_add_base [OF r assms(2)] show ?thesis by simp
    next
      case append: 2
      with assms(1) 2(1) have r: "fn_append L a b = Inr r" by (simp add: guarded_call_def)
      from append 2(1) have "growth_base L szof name args = trusted_len a + 1" by (simp add: growth_base_def)
      with fn_append_bounded [OF r assms(2)] fn_append_base [OF r assms(2)] show ?thesis by simp
    next
      case 3
      with assms(1) 2(1) have "fn_mul L a b = Inr r" by (simp add: guarded_call_def)
      then show ?thesis
        by (rule fn_mul_bounded [OF _ assms(2)]) (use 3 2(1) in \<open>auto simp: growth_base_def\<close>)
    next
      case 4
      with assms(1) 2(1) have "fn_join L a b = Inr r" by (simp add: guarded_call_def)
      then show ?thesis
        by (rule fn_join_bounded) (use assms(2) 4 2(1) in \<open>auto simp: growth_base_def trusted_len_def join_with_total\<close>)
    qed
  next
    case (3 a b c)
    with assms(1) have "fn_replace L a b c = Inr r" by (simp add: guarded_call_def)
    then show ?thesis
      by (rule fn_replace_bounded) (use assms(2) 3 in \<open>auto simp: growth_base_def trusted_len_def add.assoc\<close>)
  qed
qed

text \<open>
  The guards refuse growth, not size: with a growth factor of at least one, concatenation and appending give what the
  operators of the language give, up to the hard limit.
\<close>

theorem linear_growth_admitted:
  assumes "0 < growth_factor L"
  shows "(trusted_len a + trusted_len b \<le> max_result_hard L \<longrightarrow> fn_add L a b = py_add a b \<and> fn_extend L a b = py_add a b)
    \<and> (trusted_len a < max_result_hard L \<longrightarrow> fn_append L a b = py_add a (PList [b]))"
proof -
  have "check_result_size L n n = Inr ()" if "n \<le> max_result_hard L" for n
  proof -
    from assms have "n \<le> growth_factor L * n" by simp
    with that have "n \<le> allowed_result_size L n" unfolding allowed_result_size_def by linarith
    then show ?thesis by (simp add: check_result_size_def)
  qed
  then show ?thesis
    by (auto simp: fn_add_def fn_extend_def fn_append_def pair_total_def trusted_len_def split: pyval.splits)
qed

theorem built_results_bounded_witness:
  "let L = \<lparr>max_result_size = 5, growth_factor = 2, max_result_hard = 20\<rparr> in
     guarded_call L (\<lambda>_. 28) ''replace'' [PStr ''aXbX'', PStr ''X'', PStr ''--''] = Inr (PStr ''a--b--'')
     \<and> (6 :: nat) \<le> allowed_result_size L (growth_base L (\<lambda>_. 28) ''replace'' [PStr ''aXbX'', PStr ''X'', PStr ''--''])
     \<and> guarded_call L (\<lambda>_. 28) ''mul'' [PInt 6, PStr ''a''] = Inl ValueError"
proof -
  let ?L = "\<lparr>max_result_size = 5, growth_factor = 2, max_result_hard = 20\<rparr> :: limits"
  have r: "guarded_call ?L (\<lambda>_. 28) ''replace'' [PStr ''aXbX'', PStr ''X'', PStr ''--''] = Inr (PStr ''a--b--'')" by code_simp
  have m: "guarded_call ?L (\<lambda>_. 28) ''mul'' [PInt 6, PStr ''a''] = Inl ValueError" by code_simp
  have "(6 :: nat) \<le> allowed_result_size ?L (growth_base ?L (\<lambda>_. 28) ''replace'' [PStr ''aXbX'', PStr ''X'', PStr ''--''])"
    by (rule built_results_bounded [OF r]) simp_all
  with r m show ?thesis unfolding Let_def by blast
qed

theorem linear_growth_admitted_witness:
  "fn_add default_limits (PStr ''a'') (PStr ''b'') = Inr (PStr ''ab'')"
proof -
  have "0 < growth_factor default_limits" by (simp add: default_limits_def)
  from linear_growth_admitted [OF this, of "PStr ''a''" "PStr ''b''"] show ?thesis
    by (simp add: default_limits_def trusted_len_def)
qed

end
