(* ===== verification/Expression.thy ===== *)
theory Expression
  imports Expr_Functions
begin

text \<open>
  \<^verbatim>\<open>plaita/core/expression_parser.py\<close>: compilation and evaluation of expressions, the gates of path traversal, templates and the
  cache of compiled expressions, with the registry of \<^verbatim>\<open>plaita/core/expression.py\<close>.  The grammar is built with a parser
  library outside the repository, so the parse of a string, and the scan of a template for its interpolations, are
  arguments (\<open>grammar\<close>).  A path may meet objects of the host, so values here have three more kinds than data: objects
  with attributes, code objects (modules, functions, classes, frames) and mapping-like containers of the host (everything with
  \<open>__getitem__\<close> and \<open>get\<close>).  An object or a class may define what an index of it gives.  Functions return
  a value: the functions that change their argument in place, with their gate, are not among them.
\<close>

section \<open>Values, tokens and compiled expressions\<close>

datatype hval =
    HNone
  | HBool bool
  | HInt int
  | HStr string
  | HList "hval list"
  | HTuple "hval list"
  | HDict "(string \<times> hval) list"
  | HObj "(string \<times> hval) list" "(int \<times> hval) list option"
  | HCode "(string \<times> hval) list" "(int \<times> hval) list option"
  | HHost "(string \<times> hval) list"

datatype expr_exc = PyErr py_exc | NameFailure | ParseFailure | OtherFailure

fun of_py :: "pyval \<Rightarrow> hval" where
  "of_py PNone = HNone"
| "of_py (PBool b) = HBool b"
| "of_py (PInt i) = HInt i"
| "of_py (PStr s) = HStr s"
| "of_py (PList xs) = HList (map of_py xs)"
| "of_py (PTuple xs) = HTuple (map of_py xs)"
| "of_py (PDict d) = HDict (map (\<lambda>p. (fst p, of_py (snd p))) d)"

text \<open>The value as data, when it has no object of the host in it.\<close>

fun to_py :: "hval \<Rightarrow> pyval option" where
  "to_py HNone = Some PNone"
| "to_py (HBool b) = Some (PBool b)"
| "to_py (HInt i) = Some (PInt i)"
| "to_py (HStr s) = Some (PStr s)"
| "to_py (HList xs) = map_option PList (those (map to_py xs))"
| "to_py (HTuple xs) = map_option PTuple (those (map to_py xs))"
| "to_py (HDict d) = map_option PDict (those (map (\<lambda>p. map_option (Pair (fst p)) (to_py (snd p))) d))"
| "to_py (HObj a t) = None"
| "to_py (HCode a t) = None"
| "to_py (HHost a) = None"

text \<open>What the parser hands over: constants, words, variables and calls.\<close>

datatype seg_token = SegIndex int | SegField string

datatype token =
    TConst hval
  | TWord string
  | TVariable string "seg_token list"
  | TCall string "token list"

record grammar =
  g_prefix_expr :: "string \<Rightarrow> token option"
  g_interpolations :: "string \<Rightarrow> (token \<times> nat \<times> nat) list"

datatype segment = Index int | Field string string

datatype thunk =
    ConstThunk hval
  | PathThunk string "segment list"
  | CallThunk string "thunk list"

section \<open>Compilation\<close>

definition SPECIAL_ROOTS :: "string list" where
  "SPECIAL_ROOTS = [''INPUT'', ''NODE'', ''PARENT'', ''GLOBAL'', ''ENV'']"

definition eval_boolean :: "string \<Rightarrow> hval" where
  "eval_boolean raw =
     (if raw = ''null'' \<or> raw = ''None'' then HNone else HBool (raw = ''True'' \<or> raw = ''true''))"

definition compile_segment :: "string \<Rightarrow> seg_token \<Rightarrow> segment" where
  "compile_segment p sg =
     (case sg of
        SegIndex i \<Rightarrow> Index i
      | SegField raw \<Rightarrow> Field (if raw \<in> set SPECIAL_ROOTS then p @ raw else raw) raw)"

definition compile_variable :: "string \<Rightarrow> string \<Rightarrow> seg_token list \<Rightarrow> thunk" where
  "compile_variable p root sgs =
     PathThunk (if root = p @ ''FLOW'' then p @ ''FLOW_ID'' else root) (map (compile_segment p) sgs)"

text \<open>\<open>head.split(".")[1].split("(")[0]\<close>.\<close>

definition func_name :: "string \<Rightarrow> string" where
  "func_name head =
     takeWhile (\<lambda>c. c \<noteq> CHR ''('') (takeWhile (\<lambda>c. c \<noteq> CHR ''.'') (tl (dropWhile (\<lambda>c. c \<noteq> CHR ''.'') head)))"

fun compile :: "string \<Rightarrow> token \<Rightarrow> thunk" where
  "compile p (TConst v) = ConstThunk v"
| "compile p (TWord w) = ConstThunk (eval_boolean w)"
| "compile p (TVariable root sgs) = compile_variable p root sgs"
| "compile p (TCall head args) = CallThunk (func_name head) (map (compile p) args)"

definition compile_prefix :: "grammar \<Rightarrow> string \<Rightarrow> string \<Rightarrow> expr_exc + thunk" where
  "compile_prefix G p v =
     (case g_prefix_expr G v of None \<Rightarrow> Inl ParseFailure | Some t \<Rightarrow> Inr (compile p t))"

text \<open>The segments of a template: literal gaps (\<open>None\<close>) and interpolations, with their offsets.\<close>

fun template_segs :: "string \<Rightarrow> nat \<Rightarrow> nat \<Rightarrow> (token \<times> nat \<times> nat) list \<Rightarrow> (nat \<times> nat \<times> thunk option) list" where
  "template_segs p len pos [] = (if pos < len then [(pos, len, None)] else [])"
| "template_segs p len pos ((t, i, j) # ms) =
     (if i > pos then [(pos, i, None)] else []) @ (i, j, Some (compile p t)) # template_segs p len j ms"

definition compile_template :: "grammar \<Rightarrow> string \<Rightarrow> string \<Rightarrow> (nat \<times> nat \<times> thunk option) list" where
  "compile_template G p v = template_segs p (length v) 0 (g_interpolations G v)"

section \<open>Traversal of paths\<close>

definition dunder :: "string \<Rightarrow> bool" where
  "dunder k \<longleftrightarrow> prefix ''__'' k"

definition reserved_field :: "string \<Rightarrow> bool" where
  "reserved_field k \<longleftrightarrow> prefix ''_'' k"

definition value_error :: "expr_exc + 'a" where
  "value_error = Inl (PyErr ValueError)"

text \<open>\<open>_gate_mapping_value\<close>\<close>

definition gate_mapping_value :: "hval \<Rightarrow> expr_exc + hval" where
  "gate_mapping_value v = (case v of HHost _ \<Rightarrow> value_error | _ \<Rightarrow> Inr v)"

definition mapping_get :: "(string \<times> hval) list \<Rightarrow> string \<Rightarrow> expr_exc + hval" where
  "mapping_get d k =
     (if dunder k then value_error else Inr (case dict_get d k of Some v \<Rightarrow> v | None \<Rightarrow> HNone))"

definition get_attr :: "hval \<Rightarrow> string \<Rightarrow> expr_exc + hval" where
  "get_attr obj k =
     (case obj of
        HCode _ _ \<Rightarrow> value_error
      | HHost _ \<Rightarrow> value_error
      | HDict d \<Rightarrow> rbind (mapping_get d k) gate_mapping_value
      | HObj attrs _ \<Rightarrow>
          if reserved_field k then value_error
          else (case dict_get attrs k of
                  None \<Rightarrow> Inr HNone
                | Some (HCode _ _) \<Rightarrow> value_error
                | Some v \<Rightarrow> gate_mapping_value v)
      | _ \<Rightarrow> if reserved_field k then value_error else Inr HNone)"

text \<open>
  \<open>obj[i]\<close>.  What \<open>__getitem__\<close> of an object and \<open>__class_getitem__\<close> of a class return is a table of the object, without one there
  is no such method; an index outside of it raises an error of the object's own.  A container of the host never comes here, the gates refuse it.
\<close>

definition lift_err :: "py_exc + 'a \<Rightarrow> expr_exc + 'a" where
  "lift_err r = map_sum PyErr id r"

definition obj_item :: "(int \<times> hval) list option \<Rightarrow> int \<Rightarrow> expr_exc + hval" where
  "obj_item t i =
     (case t of
        None \<Rightarrow> Inl (PyErr TypeError)
      | Some m \<Rightarrow> (case map_of m i of None \<Rightarrow> Inl OtherFailure | Some v \<Rightarrow> Inr v))"

definition get_index :: "hval \<Rightarrow> int \<Rightarrow> expr_exc + hval" where
  "get_index obj i =
     (case obj of
        HStr s \<Rightarrow> rbind (lift_err (index_list s (PInt i))) (\<lambda>c. Inr (HStr [c]))
      | HList xs \<Rightarrow> lift_err (index_list xs (PInt i))
      | HTuple xs \<Rightarrow> lift_err (index_list xs (PInt i))
      | HDict d \<Rightarrow> Inl (PyErr KeyError)
      | HObj _ t \<Rightarrow> obj_item t i
      | HCode _ t \<Rightarrow> obj_item t i
      | _ \<Rightarrow> Inl (PyErr TypeError))"

definition walk_segment :: "hval \<Rightarrow> segment \<Rightarrow> expr_exc + hval" where
  "walk_segment obj sg =
     (case sg of
        Index i \<Rightarrow> rbind (get_index obj i) gate_mapping_value
      | Field target raw \<Rightarrow> get_attr obj target)"

fun walk_path :: "hval \<Rightarrow> segment list \<Rightarrow> expr_exc + hval" where
  "walk_path obj [] = Inr obj"
| "walk_path obj (sg # sgs) = rbind (walk_segment obj sg) (\<lambda>v. walk_path v sgs)"

text \<open>\<open>_container_has_root\<close>; a \<open>get\<close> method of a host object is not called in the model.\<close>

definition container_has_root :: "hval \<Rightarrow> string \<Rightarrow> bool" where
  "container_has_root obj k =
     (case obj of
        HDict d \<Rightarrow> dict_has d k
      | HStr s \<Rightarrow> str_contains k s
      | HList xs \<Rightarrow> HStr k \<in> set xs
      | HTuple xs \<Rightarrow> HStr k \<in> set xs
      | HObj a _ \<Rightarrow> dict_has a k
      | HCode a _ \<Rightarrow> dict_has a k
      | _ \<Rightarrow> False)"

text \<open>\<open>$NODE.raw.id\<close>: the segment \<open>raw\<close> is dropped unless the node container has that key.\<close>

definition effective_segments :: "string \<Rightarrow> string \<Rightarrow> hval \<Rightarrow> segment list \<Rightarrow> segment list" where
  "effective_segments p root obj sgs =
     (case sgs of
        Field _ raw # Field t r # rest \<Rightarrow>
          if root = p @ ''NODE'' \<and> raw = ''raw'' \<and> \<not> container_has_root obj ''raw'' then Field t r # rest else sgs
      | _ \<Rightarrow> sgs)"

definition eval_path :: "string \<Rightarrow> (string \<Rightarrow> hval option) \<Rightarrow> string \<Rightarrow> segment list \<Rightarrow> expr_exc + hval" where
  "eval_path p ctx root sgs =
     (case ctx root of
        None \<Rightarrow> Inl (PyErr KeyError)
      | Some obj \<Rightarrow>
          rbind (gate_mapping_value obj) (\<lambda>obj. walk_path obj (effective_segments p root obj sgs)))"

section \<open>Functions\<close>

text \<open>The two mapping readers of the library are gated by the engine, every other function is called as it is.\<close>

datatype efun =
    MappingGet
  | Plain "hval list \<Rightarrow> expr_exc + hval"

record descriptor =
  fd_name :: string
  fd_func :: efun
  fd_has_side_effects :: bool

type_synonym function_registry = "descriptor dict"

definition register :: "string \<Rightarrow> efun \<Rightarrow> bool \<Rightarrow> bool \<Rightarrow> function_registry \<Rightarrow> py_exc + function_registry" where
  "register name f side_effects override fr =
     (if name = [] then Inl ValueError
      else if dict_has fr name \<and> \<not> override then Inl ValueError
      else Inr (dict_set name \<lparr>fd_name = name, fd_func = f, fd_has_side_effects = side_effects\<rparr> fr))"

definition unregister :: "string \<Rightarrow> function_registry \<Rightarrow> function_registry" where
  "unregister name fr = dict_del name fr"

definition get_callable :: "function_registry \<Rightarrow> string \<Rightarrow> efun option" where
  "get_callable fr name = map_option fd_func (dict_get fr name)"

definition registered_names :: "function_registry \<Rightarrow> string list" where
  "registered_names fr = map fst fr"

text \<open>
  The surroundings of an evaluation: the limits; the size of an object in memory; the bound the engine finds for
  the text of a value which is not data, when it finds one, and that text; the registry given for the call, if any, and the default one.
\<close>

record setting =
  limits_of :: limits
  szof :: "hval \<Rightarrow> nat"
  object_bound :: "hval \<Rightarrow> nat option"
  object_str :: "hval \<Rightarrow> string"
  scoped :: "function_registry option"
  default_registry :: function_registry

definition lookup_function :: "setting \<Rightarrow> string \<Rightarrow> efun option" where
  "lookup_function E name =
     (case scoped E of None \<Rightarrow> get_callable (default_registry E) name | Some fr \<Rightarrow> get_callable fr name)"

definition UNDEFINED :: efun where
  "UNDEFINED = Plain (\<lambda>_. Inr (HStr ''undefined''))"

definition resolve_function :: "setting \<Rightarrow> string \<Rightarrow> expr_exc + efun" where
  "resolve_function E name =
     (case lookup_function E name of
        Some f \<Rightarrow> Inr f
      | None \<Rightarrow> if scoped E = None then Inl NameFailure else Inr UNDEFINED)"

text \<open>
  Sizes.  An object or a code object counts nothing, a container of the host what its items do;
  \<open>shadow\<close> is a data value of the same size.
\<close>

fun shadow :: "hval \<Rightarrow> pyval" where
  "shadow HNone = PNone"
| "shadow (HBool b) = PBool b"
| "shadow (HInt i) = PInt i"
| "shadow (HStr s) = PStr s"
| "shadow (HList xs) = PList (map shadow xs)"
| "shadow (HTuple xs) = PTuple (map shadow xs)"
| "shadow (HDict d) = PDict (map (\<lambda>p. (fst p, shadow (snd p))) d)"
| "shadow (HHost d) = PDict (map (\<lambda>p. (fst p, shadow (snd p))) d)"
| "shadow (HObj a t) = PStr []"
| "shadow (HCode a t) = PStr []"

definition measure_args :: "setting \<Rightarrow> hval list \<Rightarrow> nat" where
  "measure_args E args = measure_input (limits_of E) (\<lambda>v. szof E (of_py v)) (map shadow args)"

definition measure_value :: "setting \<Rightarrow> hval \<Rightarrow> nat" where
  "measure_value E v =
     (case v of
        HStr s \<Rightarrow> length s
      | HList xs \<Rightarrow> length xs
      | HTuple xs \<Rightarrow> length xs
      | HDict d \<Rightarrow> length d
      | HHost d \<Rightarrow> length d
      | _ \<Rightarrow> szof E v)"

definition guard_result :: "setting \<Rightarrow> hval \<Rightarrow> nat \<Rightarrow> expr_exc + hval" where
  "guard_result E v input =
     (let L = limits_of E; n = measure_value E v in
      if n > max_result_hard L then value_error
      else if n \<le> max_result_size L then Inr v
      else if n > allowed_result_size L input then value_error
      else Inr v)"

text \<open>\<open>_safe_mapping_get\<close>, on the arguments of a call.  A dictionary of the model has string keys.\<close>

definition hashable_value :: "hval \<Rightarrow> bool" where
  "hashable_value v = hashable (shadow v)"

definition dict_lookup :: "(string \<times> hval) list \<Rightarrow> hval \<Rightarrow> hval \<Rightarrow> expr_exc + hval" where
  "dict_lookup d k dflt =
     (if \<not> hashable_value k then Inl (PyErr TypeError)
      else Inr (case k of HStr s \<Rightarrow> (case dict_get d s of Some v \<Rightarrow> v | None \<Rightarrow> dflt) | _ \<Rightarrow> dflt))"

definition safe_mapping_get :: "hval \<Rightarrow> hval \<Rightarrow> hval \<Rightarrow> expr_exc + hval" where
  "safe_mapping_get a k dflt =
     (case a of
        HHost _ \<Rightarrow> value_error
      | HDict d \<Rightarrow> rbind (dict_lookup d k dflt) gate_mapping_value
      | _ \<Rightarrow> Inl (PyErr AttributeError))"

definition mapping_get_call :: "hval list \<Rightarrow> expr_exc + hval" where
  "mapping_get_call args =
     (case args of
        [a, k] \<Rightarrow> safe_mapping_get a k HNone
      | [a, k, dflt] \<Rightarrow> safe_mapping_get a k dflt
      | _ \<Rightarrow> Inl (PyErr TypeError))"

text \<open>The gate of the call, before anything is measured.\<close>

definition gate_mapping_call :: "efun \<Rightarrow> hval list \<Rightarrow> expr_exc + unit" where
  "gate_mapping_call f args =
     (case f of
        Plain _ \<Rightarrow> Inr ()
      | MappingGet \<Rightarrow>
          (case args of
             HHost _ # _ \<Rightarrow> value_error
           | HDict d # k # _ \<Rightarrow> rbind (rbind (dict_lookup d k HNone) gate_mapping_value) (\<lambda>_. Inr ())
           | _ \<Rightarrow> Inr ()))"

text \<open>
  \<open>join\<close> and \<open>sort\<close> consume their first argument: what cannot be walked twice is walked once, and what
  cannot be walked at all is refused as unmeasurable.
\<close>

definition materialize :: "string \<Rightarrow> hval list \<Rightarrow> expr_exc + hval list" where
  "materialize name args =
     (if name \<noteq> ''join'' \<and> name \<noteq> ''sort'' then Inr args
      else
        (case args of
           [] \<Rightarrow> Inr []
         | a # rest \<Rightarrow>
             (case a of
                HStr _ \<Rightarrow> Inr args
              | HList _ \<Rightarrow> Inr args
              | HTuple _ \<Rightarrow> Inr args
              | HDict _ \<Rightarrow> Inr args
              | HHost d \<Rightarrow> Inr (HList (map (\<lambda>p. HStr (fst p)) d) # rest)
              | _ \<Rightarrow> value_error)))"

text \<open>An error of the operators of the language leaves as it is, any other as an unmeasurable value.\<close>

definition native_error :: "expr_exc \<Rightarrow> bool" where
  "native_error e = (case e of PyErr x \<Rightarrow> x \<noteq> AssertionError | _ \<Rightarrow> False)"

definition apply_function :: "efun \<Rightarrow> hval list \<Rightarrow> expr_exc + hval" where
  "apply_function f args =
     (case (case f of Plain g \<Rightarrow> g args | MappingGet \<Rightarrow> mapping_get_call args) of
        Inr v \<Rightarrow> Inr v
      | Inl e \<Rightarrow> if native_error e then Inl e else value_error)"

definition call_function :: "setting \<Rightarrow> string \<Rightarrow> hval list \<Rightarrow> expr_exc + hval" where
  "call_function E name args =
     rbind (resolve_function E name) (\<lambda>f.
     rbind (gate_mapping_call f args) (\<lambda>_.
     rbind (materialize name args) (\<lambda>args'.
     rbind (apply_function f args') (\<lambda>v.
       guard_result E v (measure_args E args')))))"

section \<open>Evaluation\<close>

fun eval_thunk :: "setting \<Rightarrow> string \<Rightarrow> (string \<Rightarrow> hval option) \<Rightarrow> thunk \<Rightarrow> expr_exc + hval" where
  "eval_thunk E p ctx (ConstThunk v) = Inr v"
| "eval_thunk E p ctx (PathThunk root sgs) = eval_path p ctx root sgs"
| "eval_thunk E p ctx (CallThunk name args) = rbind (rmap (eval_thunk E p ctx) args) (call_function E name)"

definition eval_prefix :: "setting \<Rightarrow> grammar \<Rightarrow> string \<Rightarrow> (string \<Rightarrow> hval option) \<Rightarrow> string \<Rightarrow> expr_exc + hval" where
  "eval_prefix E G p ctx v = rbind (compile_prefix G p v) (eval_thunk E p ctx)"

definition render_bound :: "setting \<Rightarrow> hval \<Rightarrow> nat option" where
  "render_bound E v =
     (case to_py v of
        Some x \<Rightarrow> Some (render_size (limits_of E) (\<lambda>v. szof E (of_py v)) x)
      | None \<Rightarrow> object_bound E v)"

definition value_str :: "setting \<Rightarrow> hval \<Rightarrow> string" where
  "value_str E v = (case to_py v of Some x \<Rightarrow> py_str x | None \<Rightarrow> object_str E v)"

text \<open>The text of an interpolated value: bounded before it is rendered.\<close>

definition render_value :: "setting \<Rightarrow> hval \<Rightarrow> expr_exc + string" where
  "render_value E v =
     (case render_bound E v of
        None \<Rightarrow> value_error
      | Some bound \<Rightarrow>
          if bound > max_result_hard (limits_of E) then value_error
          else rbind (guard_result E (HStr (value_str E v)) bound) (\<lambda>_. Inr (value_str E v)))"

definition slice :: "nat \<Rightarrow> nat \<Rightarrow> string \<Rightarrow> string" where
  "slice i j s = take (j - i) (drop i s)"

definition render_segment ::
  "setting \<Rightarrow> string \<Rightarrow> (string \<Rightarrow> hval option) \<Rightarrow> string \<Rightarrow> nat \<times> nat \<times> thunk option \<Rightarrow> expr_exc + string" where
  "render_segment E p ctx v sg =
     (case sg of
        (i, j, None) \<Rightarrow> Inr (slice i j v)
      | (i, j, Some t) \<Rightarrow> rbind (eval_thunk E p ctx t) (render_value E))"

definition run_template ::
  "setting \<Rightarrow> string \<Rightarrow> (string \<Rightarrow> hval option) \<Rightarrow> string \<Rightarrow> (nat \<times> nat \<times> thunk option) list \<Rightarrow> expr_exc + hval" where
  "run_template E p ctx v sgs =
     (if \<forall>sg \<in> set sgs. snd (snd sg) = None then Inr (HStr v)
      else rbind (rmap (render_segment E p ctx v) sgs) (\<lambda>out. Inr (HStr (concat out))))"

definition eval_template :: "setting \<Rightarrow> grammar \<Rightarrow> string \<Rightarrow> (string \<Rightarrow> hval option) \<Rightarrow> string \<Rightarrow> expr_exc + hval" where
  "eval_template E G p ctx v =
     (if \<not> str_contains ''{%'' v then Inr (HStr v) else run_template E p ctx v (compile_template G p v))"

definition eval_string :: "setting \<Rightarrow> grammar \<Rightarrow> string \<Rightarrow> (string \<Rightarrow> hval option) \<Rightarrow> string \<Rightarrow> expr_exc + hval" where
  "eval_string E G p ctx v = (if prefix p v then eval_prefix E G p ctx v else eval_template E G p ctx v)"

fun eval_value :: "setting \<Rightarrow> grammar \<Rightarrow> string \<Rightarrow> (string \<Rightarrow> hval option) \<Rightarrow> hval \<Rightarrow> expr_exc + hval" where
  "eval_value E G p ctx (HStr v) = eval_string E G p ctx v"
| "eval_value E G p ctx (HList xs) = rbind (rmap (eval_value E G p ctx) xs) (\<lambda>ys. Inr (HList ys))"
| "eval_value E G p ctx (HDict d) =
     rbind (rmap (\<lambda>kv. rbind (eval_value E G p ctx (snd kv)) (\<lambda>v. Inr (fst kv, v))) d) (\<lambda>e. Inr (HDict e))"
| "eval_value E G p ctx v = Inr v"

text \<open>The older entry point: a string without a call, or which does not parse, is returned as it is.\<close>

definition parse_function :: "setting \<Rightarrow> grammar \<Rightarrow> string \<Rightarrow> (string \<Rightarrow> hval option) \<Rightarrow> string \<Rightarrow> expr_exc + hval" where
  "parse_function E G p ctx v =
     (if \<not> str_contains (p @ ''F.'') v then Inr (HStr v)
      else (case eval_string E G p ctx v of Inl ParseFailure \<Rightarrow> Inr (HStr v) | r \<Rightarrow> r))"

section \<open>The cache of compiled expressions\<close>

datatype compiled =
    CompiledPrefix thunk
  | CompiledTemplate "(nat \<times> nat \<times> thunk option) list"

record parser_state =
  compile_cache :: "(string \<times> compiled) list"
  long_cache :: "(string \<times> compiled) list"

definition MAX_CACHE_ENTRIES :: nat where
  "MAX_CACHE_ENTRIES = 8192"

definition MAX_CACHED_LEN :: nat where
  "MAX_CACHED_LEN = 4096"

definition LONG_CACHE_ENTRIES :: nat where
  "LONG_CACHE_ENTRIES = 64"

text \<open>The entries of an ordered dictionary, the oldest first.\<close>

definition move_to_end :: "string \<Rightarrow> compiled \<Rightarrow> (string \<times> compiled) list \<Rightarrow> (string \<times> compiled) list" where
  "move_to_end k x c = dict_del k c @ [(k, x)]"

definition evict :: "nat \<Rightarrow> (string \<times> compiled) list \<Rightarrow> (string \<times> compiled) list" where
  "evict maxsize c = drop (length c - maxsize) c"

definition lookup_and_store ::
  "nat \<Rightarrow> string \<Rightarrow> (string \<Rightarrow> expr_exc + compiled) \<Rightarrow> (string \<times> compiled) list \<Rightarrow> (expr_exc + compiled) \<times> (string \<times> compiled) list" where
  "lookup_and_store maxsize v compile_fn c =
     (case dict_get c v of
        Some x \<Rightarrow> (Inr x, move_to_end v x c)
      | None \<Rightarrow>
          (case compile_fn v of
             Inl e \<Rightarrow> (Inl e, c)
           | Inr x \<Rightarrow> (Inr x, evict maxsize (move_to_end v x c))))"

definition cached_compile ::
  "string \<Rightarrow> (string \<Rightarrow> expr_exc + compiled) \<Rightarrow> parser_state \<Rightarrow> (expr_exc + compiled) \<times> parser_state" where
  "cached_compile v compile_fn st =
     (if length v > MAX_CACHED_LEN
      then (case lookup_and_store LONG_CACHE_ENTRIES v compile_fn (long_cache st) of (r, c) \<Rightarrow> (r, st\<lparr>long_cache := c\<rparr>))
      else (case lookup_and_store MAX_CACHE_ENTRIES v compile_fn (compile_cache st) of (r, c) \<Rightarrow> (r, st\<lparr>compile_cache := c\<rparr>)))"

definition compile_prefix_fn :: "grammar \<Rightarrow> string \<Rightarrow> string \<Rightarrow> expr_exc + compiled" where
  "compile_prefix_fn G p v = map_sum id CompiledPrefix (compile_prefix G p v)"

definition compile_template_fn :: "grammar \<Rightarrow> string \<Rightarrow> string \<Rightarrow> expr_exc + compiled" where
  "compile_template_fn G p v = Inr (CompiledTemplate (compile_template G p v))"

text \<open>A cached template is not callable, a cached thunk cannot be iterated.\<close>

definition eval_string_cached ::
  "setting \<Rightarrow> grammar \<Rightarrow> string \<Rightarrow> (string \<Rightarrow> hval option) \<Rightarrow> string \<Rightarrow> parser_state \<Rightarrow> (expr_exc + hval) \<times> parser_state" where
  "eval_string_cached E G p ctx v st =
     (if prefix p v then
        (case cached_compile v (compile_prefix_fn G p) st of
           (Inl e, st') \<Rightarrow> (Inl e, st')
         | (Inr (CompiledPrefix t), st') \<Rightarrow> (eval_thunk E p ctx t, st')
         | (Inr (CompiledTemplate _), st') \<Rightarrow> (Inl (PyErr TypeError), st'))
      else if \<not> str_contains ''{%'' v then (Inr (HStr v), st)
      else
        (case cached_compile v (compile_template_fn G p) st of
           (Inl e, st') \<Rightarrow> (Inl e, st')
         | (Inr (CompiledTemplate sgs), st') \<Rightarrow> (run_template E p ctx v sgs, st')
         | (Inr (CompiledPrefix _), st') \<Rightarrow> (Inl (PyErr TypeError), st')))"

text \<open>Evaluation with the caches, one entry after the other.\<close>

fun eval_cached ::
    "setting \<Rightarrow> grammar \<Rightarrow> string \<Rightarrow> (string \<Rightarrow> hval option) \<Rightarrow> hval \<Rightarrow> parser_state \<Rightarrow> (expr_exc + hval) \<times> parser_state"
  and eval_list_cached ::
    "setting \<Rightarrow> grammar \<Rightarrow> string \<Rightarrow> (string \<Rightarrow> hval option) \<Rightarrow> hval list \<Rightarrow> parser_state \<Rightarrow> (expr_exc + hval list) \<times> parser_state"
  and eval_items_cached ::
    "setting \<Rightarrow> grammar \<Rightarrow> string \<Rightarrow> (string \<Rightarrow> hval option) \<Rightarrow> (string \<times> hval) list \<Rightarrow> parser_state \<Rightarrow> (expr_exc + (string \<times> hval) list) \<times> parser_state" where
  "eval_cached E G p ctx (HStr v) st = eval_string_cached E G p ctx v st"
| "eval_cached E G p ctx (HList xs) st = (case eval_list_cached E G p ctx xs st of (r, st') \<Rightarrow> (map_sum id HList r, st'))"
| "eval_cached E G p ctx (HDict d) st = (case eval_items_cached E G p ctx d st of (r, st') \<Rightarrow> (map_sum id HDict r, st'))"
| "eval_cached E G p ctx v st = (Inr v, st)"
| "eval_list_cached E G p ctx [] st = (Inr [], st)"
| "eval_list_cached E G p ctx (v # vs) st =
     (case eval_cached E G p ctx v st of
        (Inl e, st') \<Rightarrow> (Inl e, st')
      | (Inr w, st') \<Rightarrow> (case eval_list_cached E G p ctx vs st' of (r, st'') \<Rightarrow> (map_sum id ((#) w) r, st'')))"
| "eval_items_cached E G p ctx [] st = (Inr [], st)"
| "eval_items_cached E G p ctx (kv # d) st =
     (case eval_cached E G p ctx (snd kv) st of
        (Inl e, st') \<Rightarrow> (Inl e, st')
      | (Inr w, st') \<Rightarrow> (case eval_items_cached E G p ctx d st' of (r, st'') \<Rightarrow> (map_sum id ((#) (fst kv, w)) r, st'')))"

text \<open>Every entry is what the string compiles to now, and the caches keep their sizes.\<close>

definition compile_now :: "grammar \<Rightarrow> string \<Rightarrow> string \<Rightarrow> expr_exc + compiled" where
  "compile_now G p v = (if prefix p v then compile_prefix_fn G p v else compile_template_fn G p v)"

definition cache_ok :: "grammar \<Rightarrow> string \<Rightarrow> parser_state \<Rightarrow> bool" where
  "cache_ok G p st \<longleftrightarrow>
     (\<forall>(v, x) \<in> set (compile_cache st) \<union> set (long_cache st). compile_now G p v = Inr x)
     \<and> length (compile_cache st) \<le> MAX_CACHE_ENTRIES \<and> length (long_cache st) \<le> LONG_CACHE_ENTRIES"

definition new_parser :: parser_state where
  "new_parser = \<lparr>compile_cache = [], long_cache = []\<rparr>"

lemma new_parser_ok: "cache_ok G p new_parser"
  by (simp add: cache_ok_def new_parser_def)

lemma dict_get_member_iff: "dict_get c v = Some x \<Longrightarrow> (v, x) \<in> set c"
  by (simp add: dict_get_def map_of_SomeD)

lemma dict_del_length: "dict_get c v = Some x \<Longrightarrow> Suc (length (dict_del v c)) \<le> length c"
  using length_filter_less [of "(v, x)" c "\<lambda>(k, _). v \<noteq> k"] dict_get_member_iff [of c v x]
  by (simp add: dict_del_def AList.delete_eq Suc_le_eq)

lemma dict_del_member: "y \<in> set (dict_del v c) \<Longrightarrow> y \<in> set c"
  by (simp add: dict_del_def AList.delete_eq)

lemma evict_member: "y \<in> set (evict n c) \<Longrightarrow> y \<in> set c"
  unfolding evict_def by (rule in_set_dropD)

lemma evict_length: "length (evict n c) \<le> n"
  by (simp add: evict_def)

lemma lookup_and_store_ok:
  assumes c: "\<forall>(w, x) \<in> set c. compile_now G p w = Inr x" and "length c \<le> maxsize" and "compile_fn v = compile_now G p v"
    and "lookup_and_store maxsize v compile_fn c = (r, c')"
  shows "r = compile_now G p v \<and> (\<forall>(w, x) \<in> set c'. compile_now G p w = Inr x) \<and> length c' \<le> maxsize"
proof -
  have moved: "\<forall>(w, x) \<in> set (move_to_end v x c). compile_now G p w = Inr x" if "compile_now G p v = Inr x" for x
    using c that dict_del_member [of _ v c] by (fastforce simp: move_to_end_def)
  show ?thesis
  proof (cases "dict_get c v")
    case None
    show ?thesis
    proof (cases "compile_fn v")
      case (Inr x)
      with None assms(4) have "r = Inr x" "c' = evict maxsize (move_to_end v x c)" by (simp_all add: lookup_and_store_def)
      with moved [of x] Inr assms(3) evict_member [of _ maxsize "move_to_end v x c"] evict_length [of maxsize "move_to_end v x c"]
      show ?thesis by fastforce
    qed (use None assms in \<open>simp add: lookup_and_store_def\<close>)
  next
    case (Some x)
    with c dict_get_member_iff [OF Some] have x: "compile_now G p v = Inr x" by auto
    from Some assms(4) have "r = Inr x" "c' = move_to_end v x c" by (simp_all add: lookup_and_store_def)
    with moved [OF x] x assms(2) dict_del_length [OF Some] show ?thesis by (simp add: move_to_end_def)
  qed
qed

lemma cached_compile_ok:
  assumes "cache_ok G p st" and "compile_fn v = compile_now G p v" and "cached_compile v compile_fn st = (r, st')"
  shows "r = compile_now G p v \<and> cache_ok G p st'"
proof (cases "length v > MAX_CACHED_LEN")
  case True
  obtain r' c' where l: "lookup_and_store LONG_CACHE_ENTRIES v compile_fn (long_cache st) = (r', c')" by fastforce
  from assms(1) have "\<forall>(w, x) \<in> set (long_cache st). compile_now G p w = Inr x" "length (long_cache st) \<le> LONG_CACHE_ENTRIES"
    by (auto simp: cache_ok_def)
  from lookup_and_store_ok [OF this assms(2) l] True assms(1,3) l show ?thesis
    by (auto simp: cached_compile_def cache_ok_def LONG_CACHE_ENTRIES_def)
next
  case False
  obtain r' c' where l: "lookup_and_store MAX_CACHE_ENTRIES v compile_fn (compile_cache st) = (r', c')" by fastforce
  from assms(1) have "\<forall>(w, x) \<in> set (compile_cache st). compile_now G p w = Inr x" "length (compile_cache st) \<le> MAX_CACHE_ENTRIES"
    by (auto simp: cache_ok_def)
  from lookup_and_store_ok [OF this assms(2) l] False assms(1,3) l show ?thesis
    by (auto simp: cached_compile_def cache_ok_def MAX_CACHE_ENTRIES_def)
qed

lemma eval_string_cached_ok:
  assumes "cache_ok G p st" and "eval_string_cached E G p ctx v st = (r, st')"
  shows "r = eval_string E G p ctx v \<and> cache_ok G p st'"
proof -
  consider "prefix p v" | "\<not> prefix p v" "str_contains ''{%'' v" | "\<not> prefix p v" "\<not> str_contains ''{%'' v" by blast
  then show ?thesis
  proof cases
    case 1
    obtain c st1 where c: "cached_compile v (compile_prefix_fn G p) st = (c, st1)" by fastforce
    with cached_compile_ok [OF assms(1) _ c] 1 have "c = compile_prefix_fn G p v" "cache_ok G p st1" by (auto simp: compile_now_def)
    with assms(2) c 1 show ?thesis
      by (cases "compile_prefix G p v") (auto simp: eval_string_cached_def eval_string_def eval_prefix_def compile_prefix_fn_def)
  next
    case 2
    obtain c st1 where c: "cached_compile v (compile_template_fn G p) st = (c, st1)" by fastforce
    with cached_compile_ok [OF assms(1) _ c] 2 have "c = compile_template_fn G p v" "cache_ok G p st1" by (auto simp: compile_now_def)
    with assms(2) c 2 show ?thesis
      by (auto simp: eval_string_cached_def eval_string_def eval_template_def compile_template_fn_def)
  next
    case 3
    with assms show ?thesis by (auto simp: eval_string_cached_def eval_string_def eval_template_def)
  qed
qed

lemma eval_cached_ok:
  "cache_ok G p st \<Longrightarrow> eval_cached E G p ctx v st = (r, st') \<Longrightarrow> r = eval_value E G p ctx v \<and> cache_ok G p st'"
  "cache_ok G p st \<Longrightarrow> eval_list_cached E G p ctx vs st = (rs, st') \<Longrightarrow> rs = rmap (eval_value E G p ctx) vs \<and> cache_ok G p st'"
  "cache_ok G p st \<Longrightarrow> eval_items_cached E G p ctx d st = (ri, st') \<Longrightarrow>
     ri = rmap (\<lambda>kv. rbind (eval_value E G p ctx (snd kv)) (\<lambda>v. Inr (fst kv, v))) d \<and> cache_ok G p st'"
proof (induction E G p ctx v st and E G p ctx vs st and E G p ctx d st arbitrary: r st' and rs st' and ri st'
    rule: eval_cached_eval_list_cached_eval_items_cached.induct)
  case (1 E G p ctx v st)
  then show ?case using eval_string_cached_ok [of G p st E ctx v r st'] by simp
next
  case (2 E G p ctx xs st)
  then show ?case by (cases "rmap (eval_value E G p ctx) xs") (auto split: prod.splits)
next
  case (3 E G p ctx d st)
  then show ?case
    by (cases "rmap (\<lambda>kv. rbind (eval_value E G p ctx (snd kv)) (\<lambda>v. Inr (fst kv, v))) d") (auto split: prod.splits)
next
  case (6 E G p ctx v vs st)
  obtain r1 st1 where one: "eval_cached E G p ctx v st = (r1, st1)" by fastforce
  with "6.IH"(1) "6.prems"(1) have r1: "r1 = eval_value E G p ctx v" "cache_ok G p st1" by blast+
  show ?case
  proof (cases r1)
    case (Inl e)
    with r1 have "eval_value E G p ctx v = Inl e" by simp
    with one Inl r1(2) "6.prems" show ?thesis by simp
  next
    case (Inr w)
    obtain rs2 st2 where two: "eval_list_cached E G p ctx vs st1 = (rs2, st2)" by fastforce
    from "6.IH"(2) [OF one [symmetric] Inr r1(2) two] have "rs2 = rmap (eval_value E G p ctx) vs" "cache_ok G p st2" by blast+
    moreover from Inr r1 have "eval_value E G p ctx v = Inr w" by simp
    ultimately show ?thesis using one two Inr "6.prems" by (cases rs2) (auto dest: sym)
  qed
next
  case (8 E G p ctx kv d st)
  obtain r1 st1 where one: "eval_cached E G p ctx (snd kv) st = (r1, st1)" by fastforce
  with "8.IH"(1) "8.prems"(1) have r1: "r1 = eval_value E G p ctx (snd kv)" "cache_ok G p st1" by blast+
  show ?case
  proof (cases r1)
    case (Inl e)
    with r1 have "eval_value E G p ctx (snd kv) = Inl e" by simp
    with one Inl r1(2) "8.prems" show ?thesis by simp
  next
    case (Inr w)
    obtain rs2 st2 where two: "eval_items_cached E G p ctx d st1 = (rs2, st2)" by fastforce
    from "8.IH"(2) [OF one [symmetric] Inr r1(2) two] have "rs2 = rmap (\<lambda>kv. rbind (eval_value E G p ctx (snd kv)) (\<lambda>v. Inr (fst kv, v))) d" "cache_ok G p st2" by blast+
    moreover from Inr r1 have "eval_value E G p ctx (snd kv) = Inr w" by simp
    ultimately show ?thesis using one two Inr "8.prems" by (cases rs2) (auto dest: sym)
  qed
qed simp_all

end
