(* ===== verification/Expression_Safety.thy ===== *)
theory Expression_Safety
  imports Expression
begin

text \<open>
  Guarantees of the expression engine of \<open>Expression\<close>: what a path may read, what an evaluation depends on, that runtime
  values are never evaluated again, how templates are stitched, the sizes of results, and that the caches cannot be seen.
\<close>

section \<open>What a path reads\<close>

definition is_host :: "hval \<Rightarrow> bool" where
  "is_host v \<longleftrightarrow> (case v of HHost _ \<Rightarrow> True | _ \<Rightarrow> False)"

definition is_code :: "hval \<Rightarrow> bool" where
  "is_code v \<longleftrightarrow> (case v of HCode _ _ \<Rightarrow> True | _ \<Rightarrow> False)"

text \<open>
  The values which are part of another one as data: entries of dictionaries and sequences, characters of strings, and
  public attributes of objects which do not hold code.  No rule leads out of a code object or through a container of the host,
  and none reads a name of the interpreter.
\<close>

inductive data_part :: "hval \<Rightarrow> hval \<Rightarrow> bool" for obj where
  part_refl: "data_part obj obj"
| part_key: "data_part obj (HDict d) \<Longrightarrow> dict_get d k = Some v \<Longrightarrow> \<not> dunder k \<Longrightarrow> \<not> is_host v \<Longrightarrow> data_part obj v"
| part_attr: "data_part obj (HObj a t) \<Longrightarrow> dict_get a k = Some v \<Longrightarrow> \<not> reserved_field k \<Longrightarrow> \<not> is_host v \<Longrightarrow> \<not> is_code v \<Longrightarrow>
    data_part obj v"
| part_item: "data_part obj (HList xs) \<Longrightarrow> v \<in> set xs \<Longrightarrow> \<not> is_host v \<Longrightarrow> data_part obj v"
| part_tuple_item: "data_part obj (HTuple xs) \<Longrightarrow> v \<in> set xs \<Longrightarrow> \<not> is_host v \<Longrightarrow> data_part obj v"
| part_char: "data_part obj (HStr s) \<Longrightarrow> c \<in> set s \<Longrightarrow> data_part obj (HStr [c])"

lemma gate_passed: "gate_mapping_value v = Inr w \<longleftrightarrow> w = v \<and> \<not> is_host v"
  by (auto simp: gate_mapping_value_def is_host_def value_error_def split: hval.splits)

lemma index_list_mem: "index_list xs b = Inr x \<Longrightarrow> x \<in> set xs"
  by (auto simp: index_list_def Let_def split: option.splits if_splits)

lemma lift_err_Inr [simp]: "lift_err r = Inr x \<longleftrightarrow> r = Inr x"
  by (cases r) (simp_all add: lift_err_def)

text \<open>Objects and classes that define what an index of them gives.\<close>

definition own_index :: "hval \<Rightarrow> bool" where
  "own_index v \<longleftrightarrow> (case v of HObj _ (Some _) \<Rightarrow> True | HCode _ (Some _) \<Rightarrow> True | _ \<Rightarrow> False)"

lemma get_index_part:
  assumes "data_part obj v" and "get_index v i = Inr w" and "\<not> is_host w" and "\<not> own_index v"
  shows "data_part obj w"
  using assms
  by (cases v) (auto simp: get_index_def obj_item_def own_index_def rbind_eq_Inr_iff dest!: index_list_mem
      intro: data_part.intros split: option.splits)

lemma get_attr_part:
  assumes "data_part obj v" and "get_attr v k = Inr w"
  shows "w = HNone \<or> data_part obj w \<and> \<not> is_host w"
proof (cases v)
  case (HDict d)
  with assms show ?thesis
    by (auto simp: get_attr_def mapping_get_def rbind_eq_Inr_iff gate_passed value_error_def
        split: option.splits if_splits intro: part_key)
next
  case (HObj a t)
  show ?thesis
  proof (cases "dict_get a k")
    case None
    with HObj assms(2) show ?thesis by (simp add: get_attr_def value_error_def split: if_splits)
  next
    case (Some x)
    with HObj assms(2) have "w = x" "\<not> reserved_field k" "\<not> is_host x" "\<not> is_code x"
      by (auto simp: get_attr_def value_error_def gate_passed is_code_def split: if_splits hval.splits)
    with HObj Some assms(1) show ?thesis by (blast intro: part_attr)
  qed
qed (use assms(2) in \<open>auto simp: get_attr_def value_error_def split: if_splits\<close>)

lemma walk_from_none: "walk_path HNone sgs = Inr v \<Longrightarrow> v = HNone"
proof (induction sgs)
  case (Cons sg sgs)
  then show ?case
    by (cases sg) (auto simp: walk_segment_def get_index_def get_attr_def value_error_def rbind_eq_Inr_iff split: if_splits)
qed simp

text \<open>A walk that takes an index of such an object on its way.\<close>

fun indexes_object :: "hval \<Rightarrow> segment list \<Rightarrow> bool" where
  "indexes_object v [] = False"
| "indexes_object v (sg # sgs) =
     ((case sg of Index i \<Rightarrow> own_index v | Field t k \<Rightarrow> False)
      \<or> (case walk_segment v sg of Inl e \<Rightarrow> False | Inr x \<Rightarrow> indexes_object x sgs))"

lemma walk_path_part:
  "walk_path v sgs = Inr w \<Longrightarrow> data_part obj v \<Longrightarrow> \<not> is_host v \<Longrightarrow> \<not> indexes_object v sgs \<Longrightarrow> w = HNone \<or> data_part obj w"
proof (induction sgs arbitrary: v)
  case (Cons sg sgs)
  from Cons.prems(1) obtain x where x: "walk_segment v sg = Inr x" "walk_path x sgs = Inr w" by (auto simp: rbind_eq_Inr_iff)
  from x(1) Cons.prems(2,4) have "x = HNone \<or> data_part obj x \<and> \<not> is_host x"
    by (cases sg) (auto simp: walk_segment_def rbind_eq_Inr_iff gate_passed dest: get_index_part get_attr_part)
  moreover have "\<not> indexes_object x sgs" using Cons.prems(4) x(1) by simp
  ultimately show ?case using x(2) Cons.IH walk_from_none by blast
qed simp

lemma walk_path_no_host: "walk_path v sgs = Inr w \<Longrightarrow> \<not> is_host v \<Longrightarrow> \<not> is_host w"
proof (induction sgs arbitrary: v)
  case (Cons sg sgs)
  from Cons.prems(1) obtain x where x: "walk_segment v sg = Inr x" "walk_path x sgs = Inr w" by (auto simp: rbind_eq_Inr_iff)
  have "\<not> is_host x"
  proof (cases sg)
    case (Field t k)
    with x(1) have "get_attr v t = Inr x" by (simp add: walk_segment_def)
    from get_attr_part [OF part_refl this] show ?thesis by (auto simp: is_host_def)
  qed (use x(1) in \<open>auto simp: walk_segment_def rbind_eq_Inr_iff gate_passed\<close>)
  with x(2) Cons.IH show ?case by blast
qed simp

text \<open>
  Property C30. Unless a path takes an index of an object or a class that defines what its indices give, it hands out \<open>None\<close> or
  a data part of its root: no segment leaves a code object or reads a container of the host, no attribute it reads is reserved or
  holds code, no key it reads belongs to the interpreter.  In any case what it hands out is no container of the host.  In
  particular a string is handed out as it is stored, whatever it looks like.
\<close>

theorem paths_read_data_only:
  assumes "eval_path p ctx root sgs = Inr v"
  shows "\<exists>obj. ctx root = Some obj \<and> \<not> is_host obj \<and> \<not> is_host v
    \<and> (v = HNone \<or> data_part obj v \<or> indexes_object obj (effective_segments p root obj sgs))"
proof -
  from assms obtain obj where obj: "ctx root = Some obj" "\<not> is_host obj" "walk_path obj (effective_segments p root obj sgs) = Inr v"
    by (auto simp: eval_path_def rbind_eq_Inr_iff gate_passed split: option.splits)
  from walk_path_part [OF obj(3) part_refl obj(2)] walk_path_no_host [OF obj(3,2)] obj(1,2) show ?thesis by blast
qed

text \<open>
  The exception: an index is not checked for code, so what an object returns for one may be a module, and an index of a class that
  takes parameters gives an object of the interpreter.  A field of the module is refused again.
\<close>

lemma index_hands_out_code:
  "walk_path (HDict [(''t'', HObj [] (Some [(0, HCode [(''environ'', HHost e)] None)]))]) [Field ''t'' ''t'', Index 0] =
     Inr (HCode [(''environ'', HHost e)] None)"
  "walk_path (HDict [(''t'', HCode [] (Some [(0, HObj a None)]))]) [Field ''t'' ''t'', Index 0] = Inr (HObj a None)"
  "walk_path (HCode [(''environ'', HHost e)] None) [Field ''environ'' ''environ''] = value_error"
  by (simp_all add: walk_segment_def get_attr_def mapping_get_def dunder_def gate_mapping_value_def get_index_def obj_item_def
      dict_get_Cons value_error_def)

text \<open>A field of a code object is an error, and a code object held by an attribute is one as well.\<close>

lemma code_is_refused:
  "get_attr (HCode a t) k = value_error" "dict_get a k = Some (HCode c t) \<Longrightarrow> get_attr (HObj a u) k = value_error"
  "dunder k \<Longrightarrow> get_attr (HDict d) k = value_error"
  by (simp_all add: get_attr_def mapping_get_def value_error_def)

section \<open>What an evaluation depends on\<close>

fun thunk_roots :: "thunk \<Rightarrow> string set" where
  "thunk_roots (ConstThunk v) = {}"
| "thunk_roots (PathThunk root sgs) = {root}"
| "thunk_roots (CallThunk name args) = \<Union> (set (map thunk_roots args))"

definition template_roots :: "(nat \<times> nat \<times> thunk option) list \<Rightarrow> string set" where
  "template_roots sgs = (\<Union>sg \<in> set sgs. case snd (snd sg) of None \<Rightarrow> {} | Some t \<Rightarrow> thunk_roots t)"

definition string_roots :: "grammar \<Rightarrow> string \<Rightarrow> string \<Rightarrow> string set" where
  "string_roots G p v =
     (if prefix p v then (case compile_prefix G p v of Inl _ \<Rightarrow> {} | Inr t \<Rightarrow> thunk_roots t)
      else template_roots (compile_template G p v))"

fun value_roots :: "grammar \<Rightarrow> string \<Rightarrow> hval \<Rightarrow> string set" where
  "value_roots G p (HStr v) = string_roots G p v"
| "value_roots G p (HList xs) = \<Union> (set (map (value_roots G p) xs))"
| "value_roots G p (HDict d) = \<Union> (set (map (\<lambda>kv. value_roots G p (snd kv)) d))"
| "value_roots G p v = {}"

lemma rmap_agree: "(\<And>x. x \<in> set xs \<Longrightarrow> f x = g x) \<Longrightarrow> rmap f xs = rmap g xs"
  by (rule rmap_cong) simp_all

lemma eval_thunk_agree:
  "(\<And>r. r \<in> thunk_roots t \<Longrightarrow> ctx r = ctx' r) \<Longrightarrow> eval_thunk E p ctx t = eval_thunk E p ctx' t"
proof (induction t)
  case (CallThunk name args)
  then have "rmap (eval_thunk E p ctx) args = rmap (eval_thunk E p ctx') args" by (intro rmap_agree) auto
  then show ?case by simp
qed (simp_all add: eval_path_def)

lemma run_template_agree:
  assumes "\<And>r. r \<in> template_roots sgs \<Longrightarrow> ctx r = ctx' r"
  shows "run_template E p ctx v sgs = run_template E p ctx' v sgs"
proof -
  have "render_segment E p ctx v sg = render_segment E p ctx' v sg" if "sg \<in> set sgs" for sg
  proof (cases sg)
    case (fields i j t)
    show ?thesis
    proof (cases t)
      case (Some th)
      have "eval_thunk E p ctx th = eval_thunk E p ctx' th"
        using that fields Some assms by (intro eval_thunk_agree) (force simp: template_roots_def)
      with fields Some show ?thesis by (simp add: render_segment_def)
    qed (simp add: fields render_segment_def)
  qed
  then have "rmap (render_segment E p ctx v) sgs = rmap (render_segment E p ctx' v) sgs" by (rule rmap_agree)
  then show ?thesis by (simp add: run_template_def)
qed

text \<open>
  Property C33. The result of an evaluation, errors included, depends on the context only through the roots the expression
  names: an expression without the environment root, say, gives the same result in every environment.
\<close>

theorem only_named_roots_matter:
  assumes "\<And>r. r \<in> value_roots G p v \<Longrightarrow> ctx r = ctx' r"
  shows "eval_value E G p ctx v = eval_value E G p ctx' v"
  using assms
proof (induction v)
  case (HStr s)
  show ?case
  proof (cases "prefix p s")
    case True
    with HStr show ?thesis
      by (cases "compile_prefix G p s")
        (auto simp: eval_string_def eval_prefix_def string_roots_def intro: eval_thunk_agree)
  next
    case False
    with HStr have "run_template E p ctx s (compile_template G p s) = run_template E p ctx' s (compile_template G p s)"
      by (intro run_template_agree) (auto simp: string_roots_def)
    with False show ?thesis by (simp add: eval_string_def eval_template_def)
  qed
next
  case (HList xs)
  then have "rmap (eval_value E G p ctx) xs = rmap (eval_value E G p ctx') xs" by (intro rmap_agree) auto
  then show ?case by simp
next
  case (HDict d)
  have "eval_value E G p ctx (snd kv) = eval_value E G p ctx' (snd kv)" if "kv \<in> set d" for kv
    using HDict.IH [of kv "snd kv"] HDict.prems that by (cases kv) fastforce
  then have "rmap (\<lambda>kv. rbind (eval_value E G p ctx (snd kv)) (\<lambda>v. Inr (fst kv, v))) d =
      rmap (\<lambda>kv. rbind (eval_value E G p ctx' (snd kv)) (\<lambda>v. Inr (fst kv, v))) d" by (intro rmap_agree) simp
  then show ?case by simp
qed simp_all

section \<open>Templates\<close>

text \<open>What the scan of the parser library returns: matches from left to right, without overlap, each with its mark.\<close>

fun scan_from :: "nat \<Rightarrow> nat \<Rightarrow> (token \<times> nat \<times> nat) list \<Rightarrow> bool" where
  "scan_from len pos [] \<longleftrightarrow> pos \<le> len"
| "scan_from len pos ((t, i, j) # ms) \<longleftrightarrow> pos \<le> i \<and> i \<le> j \<and> scan_from len j ms"

definition scan_ok :: "grammar \<Rightarrow> string \<Rightarrow> bool" where
  "scan_ok G v \<longleftrightarrow>
     scan_from (length v) 0 (g_interpolations G v) \<and> (str_contains ''{%'' v \<or> g_interpolations G v = [])"

lemma scan_from_le: "scan_from len pos ms \<Longrightarrow> pos \<le> len"
  by (induction len pos ms rule: scan_from.induct) auto

lemma slice_append: "i \<le> j \<Longrightarrow> j \<le> length v \<Longrightarrow> slice i j v @ drop j v = drop i v"
  unfolding slice_def by (metis append_take_drop_id drop_drop le_add_diff_inverse2)

lemma segs_tile:
  "scan_from (length v) pos ms \<Longrightarrow>
     concat (map (\<lambda>(i, j, _). slice i j v) (template_segs p (length v) pos ms)) = drop pos v"
proof (induction p "length v" pos ms rule: template_segs.induct)
  case (1 p pos)
  then show ?case by (auto simp: slice_def)
next
  case (2 p pos t i j ms)
  then have le: "pos \<le> i" "i \<le> j" "j \<le> length v" using scan_from_le by auto
  have "slice pos i v @ slice i j v @ drop j v = drop pos v" using le by (simp add: slice_append)
  moreover have "slice pos i v = []" if "\<not> i > pos" using that by (simp add: slice_def)
  ultimately show ?case using 2 by (cases "i > pos") auto
qed

definition piece :: "string \<Rightarrow> (nat \<Rightarrow> nat \<Rightarrow> string) \<Rightarrow> nat \<times> nat \<times> thunk option \<Rightarrow> string" where
  "piece v f sg = (case sg of (i, j, t) \<Rightarrow> if t = None then slice i j v else f i j)"

lemma run_template_pieces:
  assumes "concat (map (\<lambda>(i, j, _). slice i j v) sgs) = v"
    and "\<And>i j t. (i, j, Some t) \<in> set sgs \<Longrightarrow> rbind (eval_thunk E p ctx t) (render_value E) = Inr (f i j)"
  shows "run_template E p ctx v sgs = Inr (HStr (concat (map (piece v f) sgs)))"
proof (cases "\<forall>sg \<in> set sgs. snd (snd sg) = None")
  case True
  then have m: "map (piece v f) sgs = map (\<lambda>(i, j, _). slice i j v) sgs" by (auto simp: piece_def)
  from True have "run_template E p ctx v sgs = Inr (HStr v)" by (simp add: run_template_def)
  then show ?thesis unfolding m assms(1) .
next
  case False
  have "render_segment E p ctx v sg = Inr (piece v f sg)" if "sg \<in> set sgs" for sg
    using assms(2) that by (cases sg) (auto simp: render_segment_def piece_def split: option.splits)
  then have "rmap (render_segment E p ctx v) sgs = Inr (map (piece v f) sgs)" by (rule rmap_total)
  moreover from False have "run_template E p ctx v sgs = rbind (rmap (render_segment E p ctx v) sgs) (\<lambda>out. Inr (HStr (concat out)))"
    unfolding run_template_def by (rule if_not_P)
  ultimately show ?thesis by simp
qed

text \<open>
  A template keeps its literal text: its segments tile the string, and when every interpolation renders, the result is the
  string with exactly the matched ranges replaced by the rendered values.  A text without a match is returned as it is.
\<close>

theorem template_keeps_literal_text:
  assumes "scan_ok G v"
    and "\<And>i j t. (i, j, Some t) \<in> set (compile_template G p v) \<Longrightarrow> rbind (eval_thunk E p ctx t) (render_value E) = Inr (f i j)"
  shows "concat (map (\<lambda>(i, j, _). slice i j v) (compile_template G p v)) = v
    \<and> eval_template E G p ctx v = Inr (HStr (concat (map (piece v f) (compile_template G p v))))"
proof -
  have tile: "concat (map (\<lambda>(i, j, _). slice i j v) (compile_template G p v)) = v"
    using assms(1) segs_tile [of v 0 "g_interpolations G v" p] by (simp add: scan_ok_def compile_template_def)
  have "eval_template E G p ctx v = Inr (HStr (concat (map (piece v f) (compile_template G p v))))"
  proof (cases "str_contains ''{%'' v")
    case True
    with run_template_pieces [OF tile assms(2)] show ?thesis by (simp add: eval_template_def)
  next
    case False
    with assms(1) have "g_interpolations G v = []" by (simp add: scan_ok_def)
    then have "compile_template G p v = (if v = [] then [] else [(0, length v, None)])" by (simp add: compile_template_def)
    with False show ?thesis by (simp add: eval_template_def piece_def slice_def)
  qed
  with tile show ?thesis ..
qed

section \<open>Sizes of results\<close>

lemma guard_passed: "guard_result E v n = Inr w \<Longrightarrow> w = v \<and> measure_value E v \<le> max_result_hard (limits_of E)
    \<and> (measure_value E v \<le> max_result_size (limits_of E) \<or> measure_value E v \<le> growth_factor (limits_of E) * n)"
  by (auto simp: guard_result_def Let_def value_error_def allowed_result_size_def split: if_splits)

text \<open>
  Whatever function is called, the value of a call is never larger than the hard limit, and is larger than the fixed limit only
  in proportion to its arguments, whose size is taken before the call.
\<close>

theorem call_results_bounded:
  assumes "eval_thunk E p ctx (CallThunk name args) = Inr v"
  shows "\<exists>vs vs'. rmap (eval_thunk E p ctx) args = Inr vs \<and> materialize name vs = Inr vs'
    \<and> measure_value E v \<le> max_result_hard (limits_of E)
    \<and> (measure_value E v \<le> max_result_size (limits_of E) \<or> measure_value E v \<le> growth_factor (limits_of E) * measure_args E vs')"
  using assms by (auto simp: call_function_def rbind_eq_Inr_iff dest!: guard_passed)

section \<open>The caches\<close>

text \<open>
  Property C32. The caches of compiled expressions cannot be seen: from caches that hold what their strings compile to, an evaluation with the caches has the
  result of the evaluation without them, and leaves such caches, within their sizes.
\<close>

theorem cached_evaluation_agrees:
  assumes "cache_ok G p st" and "eval_cached E G p ctx v st = (r, st')"
  shows "r = eval_value E G p ctx v \<and> cache_ok G p st'
    \<and> length (compile_cache st') \<le> MAX_CACHE_ENTRIES \<and> length (long_cache st') \<le> LONG_CACHE_ENTRIES"
  using eval_cached_ok(1) [OF assms] by (simp add: cache_ok_def)

section \<open>Examples and witnesses\<close>

definition demo_setting :: setting where
  "demo_setting =
     \<lparr>limits_of = \<lparr>max_result_size = 20, growth_factor = 4, max_result_hard = 60\<rparr>, szof = (\<lambda>_. 28), object_bound = (\<lambda>_. None),
      object_str = (\<lambda>_. []), scoped = None,
      default_registry =
        [(''id'', \<lparr>fd_name = ''id'', fd_func = Plain (\<lambda>args. case args of [a] \<Rightarrow> Inr a | _ \<Rightarrow> Inl (PyErr TypeError)),
                   fd_has_side_effects = False\<rparr>)]\<rparr>"

definition demo_text :: string where
  "demo_text = ''x {% $NODE.a.t %} y''"

definition demo_token :: token where
  "demo_token = TVariable ''$NODE'' [SegField ''a'', SegField ''t'']"

definition demo_grammar :: grammar where
  "demo_grammar =
     \<lparr>g_prefix_expr = (\<lambda>s. if s = ''$NODE.a.t'' then Some demo_token else None),
      g_interpolations = (\<lambda>s. if s = demo_text then [(demo_token, 2, 17)] else [])\<rparr>"

text \<open>A node result which looks like an expression, next to a host object which holds a module.\<close>

definition demo_ctx :: "string \<Rightarrow> hval option" where
  "demo_ctx = dict_get
     [(''$NODE'', HDict [(''a'', HDict [(''t'', HStr ''$INPUT''), (''h'', HObj [(''os'', HCode [] None), (''n'', HInt 1)] None)])]),
      (''$INPUT'', HStr ''q'')]"

lemma demo_path: "eval_path ''$'' demo_ctx ''$NODE'' [Field ''a'' ''a'', Field ''t'' ''t''] = Inr (HStr ''$INPUT'')"
  by code_simp

theorem paths_read_data_only_witness:
  "(\<exists>obj. demo_ctx ''$NODE'' = Some obj \<and> data_part obj (HStr ''$INPUT''))
    \<and> eval_path ''$'' demo_ctx ''$NODE'' [Field ''a'' ''a'', Field ''h'' ''h'', Field ''os'' ''os''] = Inl (PyErr ValueError)
    \<and> eval_path ''$'' demo_ctx ''$NODE'' [Field ''a'' ''a'', Field ''__class__'' ''__class__''] = Inl (PyErr ValueError)"
proof -
  have "eval_path ''$'' demo_ctx ''$NODE'' [Field ''a'' ''a'', Field ''h'' ''h'', Field ''os'' ''os''] = Inl (PyErr ValueError)"
    "eval_path ''$'' demo_ctx ''$NODE'' [Field ''a'' ''a'', Field ''__class__'' ''__class__''] = Inl (PyErr ValueError)"
    by code_simp+
  moreover have "\<not> indexes_object obj (effective_segments ''$'' ''$NODE'' obj [Field ''a'' ''a'', Field ''t'' ''t''])" for obj
    by (simp add: effective_segments_def split: sum.split)
  ultimately show ?thesis using paths_read_data_only [OF demo_path] by auto
qed

theorem only_named_roots_matter_witness:
  "eval_value demo_setting demo_grammar ''$'' (demo_ctx(''$ENV'' := Some (HStr ''secret''))) (HList [HStr ''$NODE.a.t'', HInt 1])
    = eval_value demo_setting demo_grammar ''$'' demo_ctx (HList [HStr ''$NODE.a.t'', HInt 1])"
  by (rule only_named_roots_matter)
    (auto simp: string_roots_def compile_prefix_def demo_grammar_def demo_token_def compile_variable_def)

lemma demo_segments:
  "compile_template demo_grammar ''$'' demo_text =
     [(0, 2, None), (2, 17, Some (PathThunk ''$NODE'' [Field ''a'' ''a'', Field ''t'' ''t''])), (17, 19, None)]"
  by code_simp

theorem template_keeps_literal_text_witness:
  "eval_template demo_setting demo_grammar ''$'' demo_ctx demo_text = Inr (HStr ''x $INPUT y'')"
proof -
  have ok: "scan_ok demo_grammar demo_text" by code_simp
  have run: "rbind (eval_thunk demo_setting ''$'' demo_ctx (PathThunk ''$NODE'' [Field ''a'' ''a'', Field ''t'' ''t''])) (render_value demo_setting)
      = Inr ''$INPUT''" by code_simp
  have "eval_template demo_setting demo_grammar ''$'' demo_ctx demo_text =
      Inr (HStr (concat (map (piece demo_text (\<lambda>_ _. ''$INPUT'')) (compile_template demo_grammar ''$'' demo_text))))"
    by (rule template_keeps_literal_text [OF ok, THEN conjunct2]) (use run in \<open>auto simp: demo_segments simp del: eval_thunk.simps\<close>)
  moreover have "concat (map (piece demo_text (\<lambda>_ _. ''$INPUT'')) (compile_template demo_grammar ''$'' demo_text)) = ''x $INPUT y''"
    by code_simp
  ultimately show ?thesis by (simp only:)
qed

theorem call_results_bounded_witness:
  "\<exists>vs vs'. rmap (eval_thunk demo_setting ''$'' demo_ctx) [ConstThunk (HStr ''abc'')] = Inr vs \<and> materialize ''id'' vs = Inr vs'
    \<and> measure_value demo_setting (HStr ''abc'') \<le> max_result_hard (limits_of demo_setting)
    \<and> (measure_value demo_setting (HStr ''abc'') \<le> max_result_size (limits_of demo_setting)
       \<or> measure_value demo_setting (HStr ''abc'') \<le> growth_factor (limits_of demo_setting) * measure_args demo_setting vs')"
proof -
  have "eval_thunk demo_setting ''$'' demo_ctx (CallThunk ''id'' [ConstThunk (HStr ''abc'')]) = Inr (HStr ''abc'')" by code_simp
  then show ?thesis by (rule call_results_bounded)
qed

theorem cached_evaluation_agrees_witness:
  "fst (eval_cached demo_setting demo_grammar ''$'' demo_ctx (HStr ''$NODE.a.t'') new_parser) = Inr (HStr ''$INPUT'')"
proof -
  obtain r st' where r: "eval_cached demo_setting demo_grammar ''$'' demo_ctx (HStr ''$NODE.a.t'') new_parser = (r, st')" by fastforce
  have "eval_value demo_setting demo_grammar ''$'' demo_ctx (HStr ''$NODE.a.t'') = Inr (HStr ''$INPUT'')" by code_simp
  with cached_evaluation_agrees [OF new_parser_ok r] r show ?thesis by simp
qed

end
