(* ===== verification/Expression_Engine.thy ===== *)
theory Expression_Engine
  imports Expression_Safety Exec_Context
begin

text \<open>
  The expression engine as the evaluator of an execution context: \<open>plaita.io.evaluate\<close> with the checkpoint as context.  What
  a node recorded is read back by expressions exactly as it was recorded.
\<close>

definition expr_error :: "expr_exc \<Rightarrow> exc" where
  "expr_error e =
     plain_exc (case e of
        PyErr x \<Rightarrow> Builtin x
      | NameFailure \<Rightarrow> NameErr
      | ParseFailure \<Rightarrow> OtherError
      | OtherFailure \<Rightarrow> OtherError)"

definition checkpoint_roots :: "ckpt \<Rightarrow> string \<Rightarrow> hval option" where
  "checkpoint_roots c root = map_option of_py (ck_getitem c root)"

text \<open>\<open>evaluate\<close> of \<^verbatim>\<open>plaita/io.py\<close>; a result which is not data, which only a function of the host can give here, is out of the model.\<close>

definition io_evaluate :: "setting \<Rightarrow> grammar \<Rightarrow> ckpt \<Rightarrow> string \<Rightarrow> pyval \<Rightarrow> exc + pyval" where
  "io_evaluate E G c p v =
     (case eval_value E G p (checkpoint_roots c) (of_py v) of
        Inl e \<Rightarrow> Inl (expr_error e)
      | Inr w \<Rightarrow> (case to_py w of Some x \<Rightarrow> Inr x | None \<Rightarrow> Inl (plain_exc OtherError)))"

lemma those_map_Some: "(\<And>x. x \<in> set xs \<Longrightarrow> f x = Some (g x)) \<Longrightarrow> those (map f xs) = Some (map g xs)"
  by (induction xs) auto

lemma to_of_py [simp]: "to_py (of_py v) = Some v"
proof (induction v)
  case (PList xs)
  then have "those (map (to_py \<circ> of_py) xs) = Some (map id xs)" by (intro those_map_Some) simp
  then show ?case by simp
next
  case (PTuple xs)
  then have "those (map (to_py \<circ> of_py) xs) = Some (map id xs)" by (intro those_map_Some) simp
  then show ?case by simp
next
  case (PDict d)
  have "those (map (\<lambda>p. map_option (Pair (fst p)) (to_py (of_py (snd p)))) d) = Some (map id d)"
    by (rule those_map_Some) (use PDict.IH in \<open>force\<close>)
  then show ?case by (simp add: o_def)
qed simp_all

lemma dict_get_of_py [simp]: "dict_get (map (\<lambda>p. (fst p, of_py (snd p))) d) k = map_option of_py (dict_get d k)"
  by (induction d) (auto simp: dict_get_Cons)

lemma of_py_not_host [simp]: "\<not> is_host (of_py v)"
  by (cases v) (simp_all add: is_host_def)

lemma gate_of_py [simp]: "gate_mapping_value (of_py v) = Inr (of_py v)"
  by (simp add: gate_passed)

lemma get_attr_of_py: "\<not> dunder k \<Longrightarrow> dict_get d k = Some v \<Longrightarrow> get_attr (of_py (PDict d)) k = Inr (of_py v)"
  by (simp add: get_attr_def mapping_get_def)

lemma effective_two:
  "effective_segments p root obj [Field a raw, Field t r] =
     (if root = p @ ''NODE'' \<and> raw = ''raw'' \<and> \<not> container_has_root obj ''raw'' then [Field t r] else [Field a raw, Field t r])"
  by (simp add: effective_segments_def)

lemma container_has_of_py: "container_has_root (of_py (PDict d)) k \<longleftrightarrow> dict_has d k"
  by (simp add: container_has_root_def dict_has_iff)

lemma path_reads_back:
  assumes "checkpoint_roots c root = Some (of_py (PDict d))" and "dict_get d nid = Some (PDict r)" and "dict_get r k = Some x"
    and "nid \<notin> set SPECIAL_ROOTS" and "k \<notin> set SPECIAL_ROOTS" and "\<not> dunder nid" and "\<not> dunder k" and "root \<noteq> p @ ''FLOW''"
  shows "eval_thunk E p (checkpoint_roots c) (compile p (TVariable root [SegField nid, SegField k])) = Inr (of_py x)"
proof -
  have "dict_has d nid" using assms(2) by (simp add: dict_has_iff)
  then have "effective_segments p root (of_py (PDict d)) [Field nid nid, Field k k] = [Field nid nid, Field k k]"
    by (auto simp: effective_two container_has_of_py simp del: of_py.simps)
  moreover have "get_attr (of_py (PDict d)) nid = Inr (of_py (PDict r))" "get_attr (of_py (PDict r)) k = Inr (of_py x)"
    using get_attr_of_py [OF assms(6,2)] get_attr_of_py [OF assms(7,3)] by simp_all
  ultimately show ?thesis
    using assms(1,4,5,8) by (simp add: compile_variable_def compile_segment_def eval_path_def walk_segment_def del: of_py.simps)
qed

text \<open>
  Property C31. A node's result is read back as it was recorded: after a result has been recorded under a node, the path expression for one
  of its fields evaluates to that field, verbatim, also when it is a string that looks like an expression or a template.  This is for a
  result recorded as it is (the node has no result payload) and a field that is not \<open>None\<close> (for \<open>None\<close> the enclosing contexts are asked), and
  for ids and fields that are not named \<open>INPUT\<close>, \<open>NODE\<close>, \<open>PARENT\<close>, \<open>GLOBAL\<close> or \<open>ENV\<close> (these are looked up with the prefix) and do
  not begin with two underscores (these are refused).
\<close>

theorem recorded_field_read_back:
  assumes "ctx_ok cx" and "node_results cx = PDict d" and "shallow (PDict r)" and "update_node_result None nid (PDict r) cx = Inr cx'"
    and "dict_get r k = Some x" and "x \<noteq> PNone"
    and "g_prefix_expr G s = Some (TVariable (node_key cx) [SegField nid, SegField k])" and "Sublist.prefix (en_prefix (cx_names cx)) s"
    and "nid \<notin> set SPECIAL_ROOTS" and "k \<notin> set SPECIAL_ROOTS" and "\<not> dunder nid" and "\<not> dunder k"
    and "en_node (cx_names cx) \<noteq> ''FLOW''"
  shows "evaluate (io_evaluate E G) cx' (PStr s) = Inr x"
proof -
  note free = sys_keys_free(5) [OF assms(1)]
  let ?p = "en_prefix (cx_names cx)"
  have cx': "cx' = set_state (node_key cx) (PDict (dict_set nid (PDict r) d)) cx"
    using update_node_result_eq [OF assms(1,2,3), of nid] assms(4) by simp
  have "get_state cx' (node_key cx) dflt = PDict (dict_set nid (PDict r) d)" for dflt
    using get_set_state [OF assms(1) free] by (simp add: cx')
  from this [of PNone] have "ck_getitem (cx_state cx') (node_key cx) = Some (PDict (dict_set nid (PDict r) d))"
    by (auto simp: get_state_def ck_get_def split: option.splits)
  then have "eval_thunk E ?p (checkpoint_roots (cx_state cx')) (compile ?p (TVariable (node_key cx) [SegField nid, SegField k])) = Inr (of_py x)"
    using assms(5,9-13) by (intro path_reads_back [where d = "dict_set nid (PDict r) d" and r = r])
      (simp_all add: checkpoint_roots_def node_key_def sys_key_def del: of_py.simps)
  then have "io_evaluate E G (cx_state cx') ?p (PStr s) = Inr x"
    using assms(7,8) by (simp add: io_evaluate_def eval_string_def eval_prefix_def compile_prefix_def del: compile.simps)
  moreover have "cx_names cx' = cx_names cx" by (simp add: cx' set_state_def)
  ultimately show ?thesis
    using assms(6) by (cases "cx_parents cx'") (simp_all add: evaluate_def)
qed

theorem recorded_field_read_back_witness:
  "\<exists>cx'. update_node_result None ''a'' (PDict [(''t'', PStr ''$INPUT'')]) example_ctx = Inr cx'
    \<and> evaluate (io_evaluate demo_setting demo_grammar) cx' (PStr ''$NODE.a.t'') = Inr (PStr ''$INPUT'')"
proof -
  have sh: "shallow (PDict [(''t'', PStr ''$INPUT'')])" by (simp add: shallow_def)
  obtain cx' where cx': "update_node_result None ''a'' (PDict [(''t'', PStr ''$INPUT'')]) example_ctx = Inr cx'"
    using update_node_result_eq [OF example_ctx_ok example_node_results sh] by blast
  have "evaluate (io_evaluate demo_setting demo_grammar) cx' (PStr ''$NODE.a.t'') = Inr (PStr ''$INPUT'')"
    by (rule recorded_field_read_back [OF example_ctx_ok example_node_results sh cx', where k = "''t''"])
      (simp_all add: demo_grammar_def demo_token_def node_key_def sys_key_def default_names_def SPECIAL_ROOTS_def dunder_def dict_get_Cons)
  with cx' show ?thesis by blast
qed

end
