(* ===== verification/Sexpr_Reader.thy ===== *)
theory Sexpr_Reader
  imports Py_Text
begin

text \<open>
  The reader of \<^verbatim>\<open>plaita/dsl/sexpr.py\<close>: tokens, atoms and nested forms, with a printer for the forms the writer
  emits.  Printed forms are read back (\<open>read_print\<close>).  A decimal literal keeps its text, since the values of
  the model have no floating-point numbers.
\<close>

section \<open>Tokens\<close>

datatype sx_error = Sx_Syntax | Sx_Value | Sx_Type | Sx_Index | Sx_Emit | Sx_Outside

datatype sx_token = T_String string | T_Left | T_Right | T_Atom string

text \<open>The forms: \<open>Symbol\<close> and \<open>Keyword\<close> are strings with a class of their own.\<close>

datatype sx = SNone | SBool bool | SInt int | SFloat string | SStr string | SSym string | SKw string | SList "sx list"

definition newline :: char where
  "newline = CHR 0x0A"

definition atom_char :: "char \<Rightarrow> bool" where
  "atom_char c \<longleftrightarrow> \<not> is_space c \<and> c \<noteq> CHR ''('' \<and> c \<noteq> CHR '')'' \<and> c \<noteq> CHR 0x22 \<and> c \<noteq> CHR '';''"

text \<open>A string literal after its opening quote: its body with the escapes, and what follows.\<close>

fun scan_string :: "string \<Rightarrow> (string \<times> string) option" where
  "scan_string [] = None"
| "scan_string (c # s) =
     (if c = CHR 0x22 then Some ([], s)
      else if c = CHR 0x5C then
        (case s of [] \<Rightarrow> None
         | d # t \<Rightarrow> if d = newline then None else map_option (\<lambda>(b, r). (c # d # b, r)) (scan_string t))
      else map_option (\<lambda>(b, r). (c # b, r)) (scan_string s))"

lemma scan_string_shorter: "scan_string s = Some (b, r) \<Longrightarrow> length r < length s"
proof (induction s arbitrary: b r rule: scan_string.induct)
  case (2 c s)
  show ?case
  proof (cases "c = CHR 0x5C")
    case True
    with 2(3) obtain d t a where "s = d # t" "d \<noteq> newline" "scan_string t = Some (a, r)"
      by (cases s) (auto split: if_splits)
    with 2(1) True have "length r < length t" by simp
    with \<open>s = d # t\<close> show ?thesis by simp
  next
    case False
    with 2(2,3) show ?thesis by (auto split: if_splits intro: less_SucI)
  qed
qed simp

lemma drop_shorter [termination_simp]: "length (dropWhile P s) < Suc (length s)"
  by (simp add: le_imp_less_Suc length_dropWhile_le)

function tokenize :: "string \<Rightarrow> sx_error + sx_token list" where
  "tokenize [] = Inr []"
| "tokenize (c # s) =
     (if is_space c then tokenize s
      else if c = CHR '';'' then tokenize (dropWhile (\<lambda>d. d \<noteq> newline) s)
      else if c = CHR 0x22 then
        (case scan_string s of None \<Rightarrow> Inl Sx_Syntax | Some (b, r) \<Rightarrow> rbind (tokenize r) (\<lambda>ts. Inr (T_String b # ts)))
      else if c = CHR ''('' then rbind (tokenize s) (\<lambda>ts. Inr (T_Left # ts))
      else if c = CHR '')'' then rbind (tokenize s) (\<lambda>ts. Inr (T_Right # ts))
      else rbind (tokenize (dropWhile atom_char s)) (\<lambda>ts. Inr (T_Atom (c # takeWhile atom_char s) # ts)))"
  by pat_completeness auto
termination
  by (relation "measure length") (auto simp: le_imp_less_Suc length_dropWhile_le dest: scan_string_shorter)

section \<open>Atoms\<close>

fun decode_string :: "string \<Rightarrow> string" where
  "decode_string [] = []"
| "decode_string (c # s) =
     (if c = CHR 0x5C then
        (case s of [] \<Rightarrow> [c]
         | d # t \<Rightarrow>
             if d = CHR ''n'' then newline # decode_string t
             else if d = CHR ''t'' then CHR 0x09 # decode_string t
             else if d = CHR ''r'' then CHR 0x0D # decode_string t
             else if d = CHR 0x22 \<or> d = CHR 0x5C then d # decode_string t
             else c # decode_string s)
      else c # decode_string s)"

text \<open>\<open>_INT_RE\<close> and \<open>_NUM_RE\<close>.\<close>

definition unsigned_text :: "string \<Rightarrow> string" where
  "unsigned_text s = (case s of c # r \<Rightarrow> if c = CHR ''-'' then r else s | [] \<Rightarrow> [])"

definition int_text :: "string \<Rightarrow> bool" where
  "int_text s \<longleftrightarrow> unsigned_text s \<noteq> [] \<and> list_all ascii_digit (unsigned_text s)"

definition decimal_text :: "string \<Rightarrow> bool" where
  "decimal_text s \<longleftrightarrow> (let u = unsigned_text s; r = dropWhile ascii_digit u in
     takeWhile ascii_digit u \<noteq> [] \<and> (case r of [] \<Rightarrow> False | c # t \<Rightarrow> c = CHR ''.'' \<and> t \<noteq> [] \<and> list_all ascii_digit t))"

definition read_atom :: "string \<Rightarrow> sx_error + sx" where
  "read_atom s =
     (if s = ''true'' \<or> s = ''True'' then Inr (SBool True)
      else if s = ''false'' \<or> s = ''False'' then Inr (SBool False)
      else if s = ''nil'' \<or> s = ''None'' \<or> s = ''null'' then Inr SNone
      else if int_text s then (case py_int s of Inl _ \<Rightarrow> Inl Sx_Value | Inr i \<Rightarrow> Inr (SInt i))
      else if decimal_text s then Inr (SFloat s)
      else (case s of c # r \<Rightarrow> if c = CHR '':'' then Inr (SKw r) else Inr (SSym s) | [] \<Rightarrow> Inr (SSym s)))"

section \<open>Forms\<close>

text \<open>
  \<open>parse_expr\<close> and the loop over the members of a list, which ends at a closing parenthesis or at the end.  What is left is
  always shorter (\<open>parse_shorter\<close>), so the tests of its length are never false.
\<close>

fun parse_expr :: "sx_token list \<Rightarrow> sx_error + sx \<times> sx_token list"
  and parse_members :: "sx_token list \<Rightarrow> sx_error + sx list \<times> sx_token list" where
  "parse_expr [] = Inl Sx_Index"
| "parse_expr (T_Left # ts) =
     rbind (parse_members ts) (\<lambda>(xs, r). case r of T_Right # r' \<Rightarrow> Inr (SList xs, r') | _ \<Rightarrow> Inl Sx_Syntax)"
| "parse_expr (T_Right # ts) = Inl Sx_Syntax"
| "parse_expr (T_String b # ts) = Inr (SStr (decode_string b), ts)"
| "parse_expr (T_Atom a # ts) = rbind (read_atom a) (\<lambda>x. Inr (x, ts))"
| "parse_members [] = Inr ([], [])"
| "parse_members (T_Right # ts) = Inr ([], T_Right # ts)"
| "parse_members (t # ts) =
     rbind (parse_expr (t # ts)) (\<lambda>(x, r).
       if length r \<le> length ts then rbind (parse_members r) (\<lambda>(xs, r'). Inr (x # xs, r')) else Inl Sx_Syntax)"

lemma parse_shorter:
  "parse_expr ts = Inr (x, r) \<Longrightarrow> length r < length ts" "parse_members ts = Inr (xs, r) \<Longrightarrow> length r \<le> length ts"
proof (induction ts and ts arbitrary: x r and xs r rule: parse_expr_parse_members.induct)
  case (2 ts)
  from 2(2) obtain ys where "parse_members ts = Inr (ys, T_Right # r)"
    by (auto simp: rbind_eq_Inr_iff split: list.splits sx_token.splits) (metis list.exhaust sx_token.exhaust)+
  from 2(1) [OF this] show ?case by simp
qed (auto simp: rbind_eq_Inr_iff split: if_splits, force+)

text \<open>\<open>read_forms\<close>: the forms at the top level.\<close>

function read_all :: "sx_token list \<Rightarrow> sx_error + sx list" where
  "read_all ts = (if ts = [] then Inr []
     else (case parse_expr ts of Inl e \<Rightarrow> Inl e | Inr (x, r) \<Rightarrow> rbind (read_all r) (\<lambda>xs. Inr (x # xs))))"
  by pat_completeness auto
termination
  by (relation "measure length") (auto dest: parse_shorter)

declare read_all.simps [simp del]

definition read_forms :: "string \<Rightarrow> sx_error + sx list" where
  "read_forms src = rbind (tokenize src) read_all"

section \<open>Printing\<close>

fun esc :: "string \<Rightarrow> string" where
  "esc [] = []"
| "esc (c # s) = (if c = CHR 0x5C \<or> c = CHR 0x22 then CHR 0x5C # c # esc s else c # esc s)"

text \<open>\<open>_string_to_src\<close>.\<close>

definition string_src :: "string \<Rightarrow> string" where
  "string_src s = CHR 0x22 # esc s @ [CHR 0x22]"

text \<open>\<open>" ".join\<close>.\<close>

fun spaced :: "string list \<Rightarrow> string" where
  "spaced [] = []"
| "spaced [s] = s"
| "spaced (s # t # ss) = s @ '' '' @ spaced (t # ss)"

definition parens :: "string list \<Rightarrow> string" where
  "parens ss = ''('' @ spaced ss @ '')''"

text \<open>How a form is printed, and the forms that are read back from their print.\<close>

fun print :: "sx \<Rightarrow> string" where
  "print SNone = ''nil''"
| "print (SBool b) = (if b then ''true'' else ''false'')"
| "print (SInt i) = int_str i"
| "print (SFloat t) = t"
| "print (SStr s) = string_src s"
| "print (SSym s) = s"
| "print (SKw s) = CHR '':'' # s"
| "print (SList xs) = parens (map print xs)"

definition bare :: "string \<Rightarrow> bool" where
  "bare s \<longleftrightarrow> s \<noteq> [] \<and> list_all atom_char s"

fun printable :: "sx \<Rightarrow> bool" where
  "printable (SInt i) = (length (int_str i) \<le> 4300)"
| "printable (SFloat t) = decimal_text t"
| "printable (SSym s) = (bare s \<and> read_atom s = Inr (SSym s))"
| "printable (SKw s) = list_all atom_char s"
| "printable (SList xs) = list_all printable xs"
| "printable x = True"

fun tokens :: "sx \<Rightarrow> sx_token list" where
  "tokens (SStr s) = [T_String (esc s)]"
| "tokens (SList xs) = T_Left # concat (map tokens xs) @ [T_Right]"
| "tokens x = [T_Atom (print x)]"

lemma scan_esc: "scan_string (esc s @ CHR 0x22 # r) = Some (esc s, r)"
  by (induction s) (auto simp: newline_def)

lemma decode_esc: "decode_string (esc s) = s"
  by (induction s) (auto simp: newline_def)

lemma atom_char_facts: "atom_char c \<Longrightarrow> \<not> is_space c \<and> c \<noteq> CHR '';'' \<and> c \<noteq> CHR 0x22 \<and> c \<noteq> CHR ''('' \<and> c \<noteq> CHR '')''"
  by (simp add: atom_char_def)

definition delimited :: "string \<Rightarrow> bool" where
  "delimited r \<longleftrightarrow> r = [] \<or> \<not> atom_char (hd r)"

lemma takeWhile_delimited:
  "list_all P s \<Longrightarrow> (r = [] \<or> \<not> P (hd r)) \<Longrightarrow> takeWhile P (s @ r) = s \<and> dropWhile P (s @ r) = r"
  by (induction s) (cases r; auto)+

lemma tokenize_atom: "bare s \<Longrightarrow> delimited r \<Longrightarrow> tokenize (s @ r) = rbind (tokenize r) (\<lambda>ts. Inr (T_Atom s # ts))"
proof -
  assume a: "bare s" "delimited r"
  then obtain c t where s: "s = c # t" "atom_char c" "list_all atom_char t" by (cases s) (auto simp: bare_def)
  have "takeWhile atom_char (t @ r) = t" "dropWhile atom_char (t @ r) = r"
    using takeWhile_delimited [OF s(3), of r] a(2) by (auto simp: delimited_def)
  with atom_char_facts [OF s(2)] show ?thesis by (simp add: s(1))
qed

section \<open>Printed forms are read back\<close>

lemma digit_atom: "ascii_digit c \<Longrightarrow> atom_char c \<and> c \<noteq> CHR '':''"
  using digit_not [of c] by (auto simp: atom_char_def ascii_digit_def)

lemma int_str_text: "int_text (int_str i) \<and> bare (int_str i)"
proof -
  let ?d = "nat_str (nat \<bar>i\<bar>)"
  have d: "list_all ascii_digit ?d" "?d \<noteq> []" by (simp_all add: nat_str_digits)
  then obtain c r where c: "?d = c # r" "ascii_digit c" by (cases ?d) auto
  from d have a: "list_all atom_char ?d" using digit_atom by (auto simp: list_all_iff)
  have "int_str i = (if i < 0 then CHR ''-'' # ?d else ?d)" by (simp add: int_str_def)
  moreover have "atom_char CHR ''-''" by (simp add: atom_char_def is_space_def)
  ultimately show ?thesis
    using d a c digit_not [of c] by (auto simp: int_text_def unsigned_text_def bare_def split: list.splits)
qed

lemma numeric_start:
  assumes "int_text s \<or> decimal_text s"
  obtains c r where "s = c # r" "ascii_digit c \<or> c = CHR ''-''"
proof (cases s)
  case Nil
  with assms show ?thesis by (simp add: int_text_def decimal_text_def unsigned_text_def)
next
  case (Cons c r)
  with assms that show ?thesis
    by (auto simp: int_text_def decimal_text_def unsigned_text_def Let_def split: if_splits)
qed

lemma not_reserved:
  assumes "int_text s \<or> decimal_text s"
  shows "s \<noteq> ''true'' \<and> s \<noteq> ''True'' \<and> s \<noteq> ''false'' \<and> s \<noteq> ''False'' \<and> s \<noteq> ''nil'' \<and> s \<noteq> ''None'' \<and> s \<noteq> ''null''"
  by (rule numeric_start [OF assms]) (auto simp: ascii_digit_def)

lemma decimal_not_int: "decimal_text s \<Longrightarrow> \<not> int_text s"
proof
  assume a: "decimal_text s" "int_text s"
  then have "dropWhile ascii_digit (unsigned_text s) = []" by (simp add: int_text_def dropWhile_eq_Nil_conv list_all_iff)
  with a(1) show False by (simp add: decimal_text_def)
qed

lemma decimal_bare: "decimal_text s \<Longrightarrow> bare s"
proof -
  assume a: "decimal_text s"
  let ?u = "unsigned_text s"
  have dot: "atom_char CHR ''.''" "atom_char CHR ''-''" by (simp_all add: atom_char_def is_space_def)
  from a obtain t where t: "takeWhile ascii_digit ?u \<noteq> []" "dropWhile ascii_digit ?u = CHR ''.'' # t" "list_all ascii_digit t"
    by (auto simp: decimal_text_def Let_def split: list.splits)
  have "?u = takeWhile ascii_digit ?u @ CHR ''.'' # t" using t(2) takeWhile_dropWhile_id [of ascii_digit ?u] by simp
  then have u: "set ?u = set (takeWhile ascii_digit ?u) \<union> {CHR ''.''} \<union> set t" "?u \<noteq> []"
    by (metis Un_insert_right list.set(2) set_append sup_bot_right insert_is_Un Un_assoc Un_commute, metis append_is_Nil_conv list.distinct(1))
  have "\<forall>c \<in> set ?u. atom_char c" unfolding u(1) using t(3) dot digit_atom by (auto simp: list_all_iff dest: set_takeWhileD)
  with u(2) dot(2) show ?thesis by (cases s) (auto simp: bare_def unsigned_text_def list_all_iff split: if_splits)
qed

fun atomic :: "sx \<Rightarrow> bool" where
  "atomic (SStr s) = False" | "atomic (SList xs) = False" | "atomic x = True"

lemma atom_printed: "printable x \<Longrightarrow> atomic x \<Longrightarrow> bare (print x) \<and> read_atom (print x) = Inr x"
proof (cases x)
  case (SInt i)
  moreover assume "printable x"
  ultimately show ?thesis using int_str_text [of i] not_reserved [of "int_str i"] py_int_int_str(1) [of i] by (simp add: read_atom_def)
next
  case (SFloat t)
  moreover assume "printable x"
  ultimately show ?thesis using decimal_bare [of t] not_reserved [of t] decimal_not_int [of t] by (simp add: read_atom_def)
next
  case (SKw s)
  moreover assume "printable x"
  moreover have "atom_char CHR '':''" by (simp add: atom_char_def is_space_def)
  ultimately show ?thesis
    by (auto simp: read_atom_def bare_def int_text_def decimal_text_def unsigned_text_def ascii_digit_def Let_def)
qed (auto simp: bare_def atom_char_def is_space_def read_atom_def)

lemma tokens_atomic: "atomic x \<Longrightarrow> tokens x = [T_Atom (print x)]"
  by (cases x) auto

lemma tokenize_string: "tokenize (string_src s @ r) = rbind (tokenize r) (\<lambda>ts. Inr (T_String (esc s) # ts))"
  by (simp add: string_src_def scan_esc is_space_def)

text \<open>A text that stands for some forms, whatever delimiter follows.\<close>

definition writes :: "string \<Rightarrow> sx list \<Rightarrow> bool" where
  "writes s xs \<longleftrightarrow> (\<forall>r. delimited r \<longrightarrow> tokenize (s @ r) = rbind (tokenize r) (\<lambda>ts. Inr (concat (map tokens xs) @ ts)))"

lemma writes_atomic: "printable x \<Longrightarrow> atomic x \<Longrightarrow> writes (print x) [x]"
  using tokenize_atom [OF conjunct1 [OF atom_printed [of x]]] by (simp add: writes_def tokens_atomic)

lemma writes_string: "writes (string_src s) [SStr s]"
  by (simp add: writes_def tokenize_string)

lemma delimited_space: "delimited (CHR '' '' # r)" "delimited (CHR '')'' # r)"
  by (simp_all add: delimited_def atom_char_def is_space_def)

lemma writes_space: "writes s xs \<Longrightarrow> writes t ys \<Longrightarrow> writes (s @ CHR '' '' # t) (xs @ ys)"
  by (simp add: writes_def delimited_space is_space_def rbind_assoc)

lemma writes_trailing: "writes s xs \<Longrightarrow> writes (s @ [CHR '' '']) xs"
  by (simp add: writes_def delimited_space is_space_def)

lemma writes_spaced: "list_all2 writes ss xss \<Longrightarrow> writes (spaced ss) (concat xss)"
proof (induction ss arbitrary: xss rule: spaced.induct)
  case 1
  then show ?case by (simp add: writes_def rbind_def split: sum.splits)
next
  case (3 s t ss)
  then obtain xs yss where "xss = xs # yss" "writes s xs" "list_all2 writes (t # ss) yss" by (auto simp: list_all2_Cons1)
  with 3 show ?case by (simp add: writes_space)
qed (auto simp: list_all2_Cons1)

lemma writes_parens: "writes s xs \<Longrightarrow> writes (''('' @ s @ '')'') [SList xs]"
  by (simp add: writes_def delimited_space is_space_def rbind_assoc)

lemma writes_print: "printable x \<Longrightarrow> writes (print x) [x]"
proof (induction x)
  case (SList xs)
  then have "list_all2 writes (map print xs) (map (\<lambda>x. [x]) xs)"
    by (auto simp: list_all2_conv_all_nth list_all_iff)
  from writes_parens [OF writes_spaced [OF this]] show ?case by (simp add: parens_def)
next
  case (SStr s)
  show ?case by (simp add: writes_string)
qed (rule writes_atomic; simp)+

lemma tokens_start: "printable x \<Longrightarrow> \<exists>t ts. tokens x = t # ts \<and> t \<noteq> T_Right"
  by (cases x) auto

lemma parse_atomic: "printable x \<Longrightarrow> atomic x \<Longrightarrow> parse_expr (tokens x @ ts) = Inr (x, ts)"
  using conjunct2 [OF atom_printed [of x]] by (simp add: tokens_atomic)

lemma parse_tokens:
  "printable x \<Longrightarrow> parse_expr (tokens x @ ts) = Inr (x, ts)"
proof (induction x arbitrary: ts)
  case (SList xs)
  have "list_all printable ys \<Longrightarrow> set ys \<subseteq> set xs \<Longrightarrow>
      parse_members (concat (map tokens ys) @ T_Right # ts) = Inr (ys, T_Right # ts)" for ys
  proof (induction ys)
    case (Cons y ys)
    let ?r = "concat (map tokens ys) @ T_Right # ts"
    obtain t u where t: "tokens y = t # u" "t \<noteq> T_Right" using tokens_start Cons.prems(1) by fastforce
    have "parse_expr (t # u @ ?r) = Inr (y, ?r)" using SList.IH [of y ?r] Cons.prems t by simp
    moreover have "parse_members ?r = Inr (ys, T_Right # ts)" using Cons by simp
    ultimately show ?case using t by (cases t) (simp_all add: t(1))
  qed simp
  with SList.prems show ?case by simp
next
  case (SStr s)
  show ?case by (simp add: decode_esc)
qed (rule parse_atomic; simp)+

lemma read_written: "writes s [x] \<Longrightarrow> printable x \<Longrightarrow> read_forms s = Inr [x]"
  using parse_tokens [of x "[]"] tokens_start [of x]
  by (auto simp: writes_def read_forms_def delimited_def read_all.simps dest: spec [of _ "[]"])

lemma read_print: "printable x \<Longrightarrow> read_forms (print x) = Inr [x]"
  by (rule read_written [OF writes_print])

end
