(* ===== verification/Sexpr_Compile.thy ===== *)
theory Sexpr_Compile
  imports Sexpr_Reader Decide
begin

text \<open>
  The compiler of \<^verbatim>\<open>plaita/dsl/sexpr.py\<close> from forms to the dictionary of a flow: arguments, values, conditions with
  their negation, error handlers, ids, the node types and nested flows.  Texts of errors are left out.  What
  a decimal literal stands for is the argument \<open>fl\<close>; a key of a dictionary that is not a string is outside the values
  of the model and ends in \<open>Sx_Outside\<close>.
\<close>

section \<open>Arguments\<close>

record floats =
  fl_value :: "string \<Rightarrow> pyval"
  fl_positive :: "string \<Rightarrow> bool"
  fl_natural :: "string \<Rightarrow> int option"

text \<open>A form as it is, without compilation: symbols and keywords are strings.\<close>

fun raw :: "floats \<Rightarrow> sx \<Rightarrow> pyval" where
  "raw fl SNone = PNone"
| "raw fl (SBool b) = PBool b"
| "raw fl (SInt i) = PInt i"
| "raw fl (SFloat t) = fl_value fl t"
| "raw fl (SStr s) = PStr s"
| "raw fl (SSym s) = PStr s"
| "raw fl (SKw s) = PStr s"
| "raw fl (SList xs) = PList (map (raw fl) xs)"

definition text_of :: "floats \<Rightarrow> sx \<Rightarrow> string" where
  "text_of fl x = py_str (raw fl x)"

definition kw_alias :: "string \<Rightarrow> string option" where
  "kw_alias s = (if s = ''->'' then Some ''next'' else if s = ''then'' then Some ''then'' else if s = ''else'' then Some ''else'' else None)"

fun keyword_name :: "sx \<Rightarrow> string option" where
  "keyword_name (SKw k) = Some k"
| "keyword_name (SSym s) = kw_alias s"
| "keyword_name x = None"

fun split_loop :: "sx list \<Rightarrow> sx list \<Rightarrow> sx dict \<Rightarrow> sx_error + sx list \<times> sx dict" where
  "split_loop [] pos kw = Inr (pos, kw)"
| "split_loop (a # as) pos kw =
     (case keyword_name a of
        None \<Rightarrow> split_loop as (pos @ [a]) kw
      | Some n \<Rightarrow> (case as of [] \<Rightarrow> Inl Sx_Syntax | v # r \<Rightarrow> split_loop r pos (dict_set n v kw)))"

definition split_args :: "sx list \<Rightarrow> sx_error + sx list \<times> sx dict" where
  "split_args as = split_loop as [] []"

fun opt :: "sx dict \<Rightarrow> string list \<Rightarrow> sx" where
  "opt kw [] = SNone"
| "opt kw (n # ns) = (case dict_get kw n of Some v \<Rightarrow> v | None \<Rightarrow> opt kw ns)"

definition reject_caps_none :: "sx dict \<Rightarrow> string list \<Rightarrow> sx_error + unit" where
  "reject_caps_none kw ns = (if list_ex (\<lambda>n. dict_get kw n = Some SNone) ns then Inl Sx_Syntax else Inr ())"

text \<open>Every value a form is split into is one of its members.\<close>

lemma split_loop_parts:
  "split_loop as pos kw = Inr (pos', kw') \<Longrightarrow> set pos' \<subseteq> set pos \<union> set as \<and> snd ` set kw' \<subseteq> snd ` set kw \<union> set as"
proof (induction as pos kw rule: split_loop.induct)
  case (2 a as pos kw)
  have set: "snd ` set (dict_set n v d) \<subseteq> insert v (snd ` set d)" for n and v :: sx and d
    unfolding dict_set_def by (induction d) auto
  show ?case
  proof (cases "keyword_name a")
    case None
    with 2 show ?thesis by auto
  next
    case (Some n)
    with 2(3) obtain v r where r: "as = v # r" "split_loop r pos (dict_set n v kw) = Inr (pos', kw')"
      by (auto split: list.splits)
    from 2(2) [OF Some r] have "set pos' \<subseteq> set pos \<union> set r" "snd ` set kw' \<subseteq> snd ` set (dict_set n v kw) \<union> set r" by blast+
    with set [of n v kw] r(1) show ?thesis by (simp, blast)
  qed
qed simp

lemma opt_parts: "opt kw ns = SNone \<or> opt kw ns \<in> snd ` set kw"
  by (induction ns) (force simp: dict_get_def split: option.splits dest: map_of_SomeD)+

lemma opt_size: "split_args as = Inr (pos, kw) \<Longrightarrow> opt kw ns \<noteq> SNone \<Longrightarrow> size (opt kw ns) < Suc (size_list size as)"
  using split_loop_parts [of as "[]" "[]" pos kw] opt_parts [of kw ns]
  by (auto simp: split_args_def intro!: le_imp_less_Suc size_list_estimation')

lemma pos_size: "split_args as = Inr (pos, kw) \<Longrightarrow> x \<in> set pos \<Longrightarrow> size x < Suc (size_list size as)"
  using split_loop_parts [of as "[]" "[]" pos kw]
  by (auto simp: split_args_def intro!: le_imp_less_Suc size_list_estimation')

section \<open>Values\<close>

text \<open>\<open>_dict_entry_key\<close>.\<close>

fun dict_entry_key :: "sx \<Rightarrow> sx_error + string" where
  "dict_entry_key (SStr s) = Inr s"
| "dict_entry_key (SSym s) = Inr s"
| "dict_entry_key (SKw s) = Inr s"
| "dict_entry_key (SList xs) = Inl Sx_Syntax"
| "dict_entry_key x = Inl Sx_Outside"

text \<open>\<open>_value\<close> and \<open>_compile_dict_literal\<close>.\<close>

fun sx_value :: "floats \<Rightarrow> sx \<Rightarrow> sx_error + pyval"
  and dict_literal :: "floats \<Rightarrow> sx list \<Rightarrow> pyval dict \<Rightarrow> sx_error + pyval dict" where
  "sx_value fl (SList (SSym h # xs)) =
     (if h = ''dict'' then rbind (dict_literal fl xs []) (\<lambda>d. Inr (PDict d))
      else if h = ''list'' then rbind (rmap (sx_value fl) xs) (\<lambda>vs. Inr (PList vs))
      else Inr (raw fl (SList (SSym h # xs))))"
| "sx_value fl x = Inr (raw fl x)"
| "dict_literal fl [] out = Inr out"
| "dict_literal fl [SKw k] out = Inl Sx_Syntax"
| "dict_literal fl (SKw k # v # r) out = rbind (sx_value fl v) (\<lambda>y. dict_literal fl r (dict_set k y out))"
| "dict_literal fl (SList [k, v] # r) out =
     rbind (sx_value fl v) (\<lambda>y. rbind (dict_entry_key k) (\<lambda>n. dict_literal fl r (dict_set n y out)))"
| "dict_literal fl (x # r) out = Inl Sx_Syntax"

definition type_spec :: "floats \<Rightarrow> sx \<Rightarrow> sx_error + pyval" where
  "type_spec fl x =
     (case x of
        SStr s \<Rightarrow> Inr (PDict [(''dataType'', PStr s)])
      | SSym s \<Rightarrow> Inr (PDict [(''dataType'', PStr s)])
      | SKw s \<Rightarrow> Inr (PDict [(''dataType'', PStr s)])
      | _ \<Rightarrow> sx_value fl x)"

section \<open>Ids\<close>

record id_ctx =
  ic_counter :: nat
  ic_claimed :: "string list"

definition start_ids :: id_ctx where
  "start_ids = \<lparr>ic_counter = 0, ic_claimed = []\<rparr>"

definition auto_id :: "nat \<Rightarrow> string" where
  "auto_id n = ''_n'' @ nat_str n"

lemma auto_id_inject [simp]: "auto_id m = auto_id n \<longleftrightarrow> m = n"
  by (simp add: auto_id_def)

text \<open>The loop of \<open>claim_id\<close>: the first number from \<open>n\<close> on whose id is free.\<close>

function first_free :: "string list \<Rightarrow> nat \<Rightarrow> nat" where
  "first_free used n = (if auto_id n \<in> set used then first_free used (Suc n) else n)"
  by pat_completeness auto
termination
proof (relation "measure (\<lambda>(used, n). card (set used - auto_id ` {..<n}))")
  fix used n
  assume "auto_id n \<in> set used"
  moreover have "auto_id n \<notin> auto_id ` {..<n}" by auto
  ultimately have "set used - auto_id ` {..<Suc n} \<subset> set used - auto_id ` {..<n}"
    by (auto simp: lessThan_Suc)
  then show "((used, Suc n), used, n) \<in> measure (\<lambda>(used, n). card (set used - auto_id ` {..<n}))"
    by (simp add: psubset_card_mono)
qed simp

declare first_free.simps [simp del]

lemma first_free_free: "auto_id (first_free used n) \<notin> set used"
  by (induction used n rule: first_free.induct) (subst first_free.simps, simp)

definition claim_id :: "floats \<Rightarrow> sx \<Rightarrow> id_ctx \<Rightarrow> sx_error + string \<times> id_ctx" where
  "claim_id fl x c =
     (if truthy (raw fl x) then
        (if text_of fl x \<in> set (ic_claimed c) then Inl Sx_Value
         else Inr (text_of fl x, c\<lparr>ic_claimed := text_of fl x # ic_claimed c\<rparr>))
      else (let n = first_free (ic_claimed c) (Suc (ic_counter c)) in
            Inr (auto_id n, \<lparr>ic_counter = n, ic_claimed = auto_id n # ic_claimed c\<rparr>)))"

lemma claim_new: "claim_id fl x c = Inr (i, c') \<Longrightarrow> i \<notin> set (ic_claimed c) \<and> ic_claimed c' = i # ic_claimed c"
  by (auto simp: claim_id_def Let_def first_free_free split: if_splits)

section \<open>Conditions\<close>

text \<open>A compiled condition: the dictionaries with field, operator and value, and with relation and conditions.\<close>

datatype scond = SCond pyval string pyval | SGroup relation "scond list"

fun cond_dict :: "scond \<Rightarrow> pyval" where
  "cond_dict (SCond f op v) = PDict [(''field'', f), (''operator'', PStr op), (''value'', v)]"
| "cond_dict (SGroup r cs) =
     PDict [(''relation'', PStr (case r of REL_AND \<Rightarrow> ''and'' | REL_OR \<Rightarrow> ''or'')), (''conditions'', PList (map cond_dict cs))]"

definition OP_ALIASES :: "string dict" where
  "OP_ALIASES =
     [(''=='', ''eq''), (''!='', ''ne''), (''>'', ''gt''), (''>='', ''gte''), (''<'', ''lt''), (''<='', ''lte''), (''in'', ''in''),
      (''not in'', ''notIn''), (''contains'', ''contains''), (''not contains'', ''notContains''), (''notIn'', ''notIn''),
      (''notContains'', ''notContains'')]"

definition OP_NEGATIONS :: "string dict" where
  "OP_NEGATIONS =
     [(''eq'', ''ne''), (''ne'', ''eq''), (''gt'', ''lte''), (''gte'', ''lt''), (''lt'', ''gte''), (''lte'', ''gt''), (''in'', ''notIn''),
      (''notIn'', ''in''), (''contains'', ''notContains''), (''notContains'', ''contains'')]"

definition normalize_op :: "string \<Rightarrow> string" where
  "normalize_op op = (case dict_get OP_ALIASES op of Some n \<Rightarrow> n | None \<Rightarrow> op)"

fun negate_condition :: "scond \<Rightarrow> sx_error + scond" where
  "negate_condition (SCond f op v) =
     (case dict_get OP_NEGATIONS op of None \<Rightarrow> Inl Sx_Syntax | Some n \<Rightarrow> Inr (SCond f n v))"
| "negate_condition (SGroup r cs) =
     rbind (rmap negate_condition cs) (\<lambda>ds. Inr (SGroup (case r of REL_AND \<Rightarrow> REL_OR | REL_OR \<Rightarrow> REL_AND) ds))"

fun compile_condition :: "floats \<Rightarrow> sx \<Rightarrow> sx_error + scond" where
  "compile_condition fl (SList (SSym h # xs)) =
     (if h = ''cond'' then
        (case xs of
           [f, op, v] \<Rightarrow> rbind (sx_value fl f) (\<lambda>f'. rbind (sx_value fl v) (\<lambda>v'. Inr (SCond f' (normalize_op (text_of fl op)) v')))
         | _ \<Rightarrow> Inl Sx_Syntax)
      else if h = ''and'' then rbind (rmap (compile_condition fl) xs) (\<lambda>cs. Inr (SGroup REL_AND cs))
      else if h = ''or'' then rbind (rmap (compile_condition fl) xs) (\<lambda>cs. Inr (SGroup REL_OR cs))
      else if h = ''not'' then
        (case xs of [x] \<Rightarrow> rbind (compile_condition fl x) negate_condition | _ \<Rightarrow> Inl Sx_Syntax)
      else Inl Sx_Syntax)"
| "compile_condition fl x = Inl Sx_Syntax"

section \<open>Fields of nodes\<close>

definition need :: "bool \<Rightarrow> sx_error + unit" where
  "need b = (if b then Inr () else Inl Sx_Syntax)"

text \<open>\<open>spec[key] = f(x)\<close> unless \<open>x\<close> is \<open>None\<close>.\<close>

definition put_field :: "string \<Rightarrow> (sx \<Rightarrow> sx_error + pyval) \<Rightarrow> sx \<Rightarrow> pyval dict \<Rightarrow> sx_error + pyval dict" where
  "put_field k f x d = (if x = SNone then Inr d else rbind (f x) (\<lambda>v. Inr (dict_set k v d)))"

definition as_text :: "floats \<Rightarrow> sx \<Rightarrow> sx_error + pyval" where
  "as_text fl x = Inr (PStr (text_of fl x))"

definition as_raw :: "floats \<Rightarrow> sx \<Rightarrow> sx_error + pyval" where
  "as_raw fl x = Inr (raw fl x)"

definition as_condition :: "floats \<Rightarrow> sx \<Rightarrow> sx_error + pyval" where
  "as_condition fl x = rbind (compile_condition fl x) (\<lambda>c. Inr (cond_dict c))"

text \<open>The rest of a form with one of the given heads; the first member of an empty list is an \<open>IndexError\<close>.\<close>

fun headed :: "string list \<Rightarrow> sx \<Rightarrow> sx_error + sx list" where
  "headed hs (SList []) = Inl Sx_Index"
| "headed hs (SList (SSym s # r)) = (if s \<in> set hs then Inr r else Inl Sx_Syntax)"
| "headed hs x = Inl Sx_Syntax"

definition compile_error_handler :: "floats \<Rightarrow> sx \<Rightarrow> sx_error + pyval" where
  "compile_error_handler fl form =
     rbind (headed [''on-error'', ''on-timeout''] form) (\<lambda>args. rbind (split_args args) (\<lambda>(pos, kw).
     rbind (need (pos \<noteq> [])) (\<lambda>_.
     let strategy = text_of fl (hd pos) in
     rbind (need (strategy \<in> set [''abort'', ''continue'', ''continue_with'', ''continue-with''])) (\<lambda>_.
     rbind (reject_caps_none kw [''retry'', ''retry-times'']) (\<lambda>_.
     rbind (put_field ''retryTimes'' (as_raw fl) (opt kw [''retry'', ''retry-times'']) [(''strategy'', PStr strategy)]) (\<lambda>d1.
     rbind (put_field ''defaultValue'' (sx_value fl) (opt kw [''default'', ''default-value'']) d1) (\<lambda>d2.
     rbind (put_field ''errorCode'' (as_raw fl) (opt kw [''code'', ''error-code'']) d2) (\<lambda>d3.
     rbind (put_field ''errorMessage'' (as_raw fl) (opt kw [''msg'', ''message'', ''error-message'']) d3) (\<lambda>d4.
     Inr (PDict d4))))))))))"

definition common_fields :: "floats \<Rightarrow> sx dict \<Rightarrow> pyval dict \<Rightarrow> id_ctx \<Rightarrow> sx_error + pyval dict \<times> id_ctx" where
  "common_fields fl kw spec c =
     rbind (claim_id fl (opt kw [''id'']) c) (\<lambda>(i, c').
     rbind (put_field ''next'' (as_text fl) (opt kw [''next'', ''then'']) (dict_set ''id'' (PStr i) spec)) (\<lambda>d1.
     rbind (put_field ''timeout'' (as_raw fl) (opt kw [''timeout'']) d1) (\<lambda>d2.
     rbind (put_field ''errorHandler'' (compile_error_handler fl) (opt kw [''on-error'', ''error-handler'']) d2) (\<lambda>d3.
     rbind (put_field ''timeoutHandler'' (compile_error_handler fl)
         (opt kw [''on-timeout'', ''timeout-handler'', ''timeoutHandler'', ''timeout_handler'']) d3) (\<lambda>d4.
     Inr (d4, c'))))))"

definition NON_ID_SYMBOLS :: "string list" where
  "NON_ID_SYMBOLS = [''true'', ''false'', ''nil'', ''True'', ''False'', ''None'']"

definition take_id :: "sx list \<Rightarrow> sx dict \<Rightarrow> sx list \<times> sx dict" where
  "take_id pos kw =
     (if opt kw [''id''] \<noteq> SNone then (pos, kw)
      else (case pos of
              SSym s # r \<Rightarrow> if take 1 s \<noteq> ''$'' \<and> s \<notin> set NON_ID_SYMBOLS then (r, dict_set ''id'' (SSym s) kw) else (pos, kw)
            | _ \<Rightarrow> (pos, kw)))"

text \<open>The arguments of a node that takes a positional id.\<close>

definition node_args :: "sx list \<Rightarrow> sx_error + sx list \<times> sx dict" where
  "node_args args = rbind (split_args args) (\<lambda>(pos, kw). Inr (take_id pos kw))"

text \<open>Fields set after the common ones.\<close>

definition put_after ::
  "string \<Rightarrow> (sx \<Rightarrow> sx_error + pyval) \<Rightarrow> sx \<Rightarrow> pyval dict \<times> id_ctx \<Rightarrow> sx_error + pyval dict \<times> id_ctx" where
  "put_after k f x r = rbind (put_field k f x (fst r)) (\<lambda>d. Inr (d, snd r))"

definition set_after :: "string \<Rightarrow> pyval \<Rightarrow> pyval dict \<times> id_ctx \<Rightarrow> pyval dict \<times> id_ctx" where
  "set_after k v r = (dict_set k v (fst r), snd r)"

section \<open>Nodes without flows\<close>

definition c_start :: "floats \<Rightarrow> sx list \<Rightarrow> id_ctx \<Rightarrow> sx_error + pyval dict \<times> id_ctx" where
  "c_start fl args c = rbind (node_args args) (\<lambda>(pos, kw). common_fields fl kw [(''type'', PStr ''start'')] c)"

definition error_payload :: "pyval \<Rightarrow> pyval" where
  "error_payload e = (if is_dict e then e else PDict [(''message'', PStr (py_str e))])"

definition c_end :: "floats \<Rightarrow> sx list \<Rightarrow> id_ctx \<Rightarrow> sx_error + pyval dict \<times> id_ctx" where
  "c_end fl args c =
     rbind (node_args args) (\<lambda>(pos, kw).
     rbind (common_fields fl kw [(''type'', PStr ''end'')] c) (\<lambda>r.
     rbind (put_after ''output'' (sx_value fl) (if pos \<noteq> [] then hd pos else opt kw [''output'']) r) (\<lambda>r1.
     let rt = opt kw [''result-type'', ''resultType''];
         r2 = set_after ''resultType'' (PStr (if rt \<noteq> SNone then text_of fl rt else ''success'')) r1 in
     rbind (sx_value fl (opt kw [''error''])) (\<lambda>e.
     Inr (if e \<noteq> PNone then set_after ''error'' (error_payload e) r2 else r2)))))"

definition c_assignment :: "floats \<Rightarrow> sx list \<Rightarrow> id_ctx \<Rightarrow> sx_error + pyval dict \<times> id_ctx" where
  "c_assignment fl args c =
     rbind (node_args args) (\<lambda>(pos, kw).
     rbind (need (length pos = 1)) (\<lambda>_.
     rbind (sx_value fl (hd pos)) (\<lambda>v.
     rbind (common_fields fl kw [(''type'', PStr ''assignment''), (''output'', v)] c) (\<lambda>r.
     rbind (put_after ''outputType'' (type_spec fl) (opt kw [''output-type'', ''outputType'']) r) (\<lambda>r1.
     put_after ''upstreamOutput'' (sx_value fl) (opt kw [''upstream-output'', ''upstreamOutput'', ''upstream_output'']) r1)))))"

definition c_if :: "floats \<Rightarrow> sx list \<Rightarrow> id_ctx \<Rightarrow> sx_error + pyval dict \<times> id_ctx" where
  "c_if fl args c =
     rbind (split_args args) (\<lambda>(pos, kw).
     rbind (need (pos \<noteq> [])) (\<lambda>_.
     rbind (as_condition fl (hd pos)) (\<lambda>q.
     rbind (common_fields fl kw [(''type'', PStr ''if''), (''condition'', q)] c) (\<lambda>r.
     let thn = opt kw [''next'', ''then'']; els = opt kw [''else'', ''else_next'', ''else-next''] in
     rbind (need (thn \<noteq> SNone \<and> els \<noteq> SNone)) (\<lambda>_.
     Inr (set_after ''else_next'' (PStr (text_of fl els)) (set_after ''next'' (PStr (text_of fl thn)) r)))))))"

definition c_branch :: "floats \<Rightarrow> sx list \<Rightarrow> sx_error + pyval" where
  "c_branch fl args =
     rbind (split_args args) (\<lambda>(pos, kw).
     rbind (need (pos \<noteq> [])) (\<lambda>_.
     rbind (put_field ''next'' (as_text fl) (opt kw [''next'']) [(''name'', PStr (text_of fl (hd pos)))]) (\<lambda>d1.
     rbind (put_field ''priority'' (as_raw fl) (opt kw [''priority'']) d1) (\<lambda>d2.
     rbind (put_field ''condition'' (as_condition fl) (opt kw [''when'', ''condition'']) d2) (\<lambda>d3.
     let d4 = (if truthy (raw fl (opt kw [''default'', ''is-default'', ''isDefault''])) then dict_set ''isDefault'' (PBool True) d3 else d3) in
     rbind (put_field ''label'' (as_text fl) (opt kw [''label'']) d4) (\<lambda>d5.
     rbind (put_field ''desc'' (as_text fl) (opt kw [''desc'']) d5) (\<lambda>d6. Inr (PDict d6))))))))"

definition c_switch :: "floats \<Rightarrow> sx list \<Rightarrow> id_ctx \<Rightarrow> sx_error + pyval dict \<times> id_ctx" where
  "c_switch fl args c =
     rbind (split_args args) (\<lambda>(pos, kw).
     rbind (rmap (\<lambda>b. rbind (headed [''branch''] b) (c_branch fl)) pos) (\<lambda>bs.
     rbind (need (bs \<noteq> [])) (\<lambda>_.
     rbind (common_fields fl kw [(''type'', PStr ''switch''), (''branches'', PList bs)] c) (\<lambda>r.
     put_after ''outputType'' (type_spec fl) (opt kw [''output-type'', ''outputType'', ''output_type'']) r))))"

definition c_match :: "floats \<Rightarrow> sx list \<Rightarrow> sx_error + pyval" where
  "c_match fl args =
     rbind (split_args args) (\<lambda>(pos, kw).
     rbind (need (2 \<le> length pos)) (\<lambda>_.
     rbind (sx_value fl (hd pos)) (\<lambda>v.
     let n = opt kw [''name''] in
     Inr (PDict [(''name'', PStr (text_of fl (if truthy (raw fl n) then n else hd pos))), (''value'', v),
       (''id'', PStr (text_of fl (pos ! 1)))]))))"

definition c_case :: "floats \<Rightarrow> sx list \<Rightarrow> id_ctx \<Rightarrow> sx_error + pyval dict \<times> id_ctx" where
  "c_case fl args c =
     rbind (split_args args) (\<lambda>(pos, kw).
     rbind (need (opt kw [''target''] \<noteq> SNone)) (\<lambda>_.
     rbind (rmap (\<lambda>m. rbind (headed [''match''] m) (c_match fl)) pos) (\<lambda>ms.
     rbind (sx_value fl (opt kw [''target''])) (\<lambda>t.
     rbind (common_fields fl kw [(''type'', PStr ''case''), (''target'', t), (''cases'', PList ms)] c) (\<lambda>r.
     rbind (put_after ''default'' (as_text fl) (opt kw [''default'']) r) (\<lambda>r1.
     put_after ''outputType'' (type_spec fl) (opt kw [''output-type'', ''outputType'', ''output_type'']) r1))))))"

definition c_code :: "floats \<Rightarrow> sx list \<Rightarrow> id_ctx \<Rightarrow> sx_error + pyval dict \<times> id_ctx" where
  "c_code fl args c =
     rbind (split_args args) (\<lambda>(pos, kw).
     let lang = opt kw [''lang'', ''language'']; code = opt kw [''code''] in
     rbind (need (lang \<noteq> SNone \<and> code \<noteq> SNone)) (\<lambda>_.
     rbind (common_fields fl kw [(''type'', PStr ''code''), (''language'', PStr (text_of fl lang)), (''code'', raw fl code)] c) (\<lambda>r.
     rbind (put_after ''input'' (sx_value fl) (opt kw [''input'']) r) (\<lambda>r1.
     put_after ''sandbox_backend'' (\<lambda>x. rbind (sx_value fl x) (\<lambda>v. if is_str v \<and> truthy v then Inr v else Inl Sx_Syntax))
       (opt kw [''sandbox-backend'', ''sandbox_backend'', ''sandboxBackend'']) r1))))"

definition host_list :: "floats \<Rightarrow> sx \<Rightarrow> sx_error + pyval" where
  "host_list fl x =
     rbind (sx_value fl x) (\<lambda>v.
       let vs = (case v of PList l \<Rightarrow> l | _ \<Rightarrow> [v]) in if list_all is_str vs then Inr (PList vs) else Inl Sx_Syntax)"

definition positive_seconds :: "floats \<Rightarrow> sx \<Rightarrow> sx_error + pyval" where
  "positive_seconds fl x =
     (case x of
        SInt i \<Rightarrow> if 0 < i then Inr (PInt i) else Inl Sx_Syntax
      | SFloat t \<Rightarrow> if fl_positive fl t then Inr (fl_value fl t) else Inl Sx_Syntax
      | _ \<Rightarrow> Inl Sx_Syntax)"

definition redirect_count :: "floats \<Rightarrow> sx \<Rightarrow> sx_error + pyval" where
  "redirect_count fl x =
     (case x of
        SInt i \<Rightarrow> if 0 \<le> i then Inr (PInt i) else Inl Sx_Syntax
      | SFloat t \<Rightarrow> (case fl_natural fl t of Some i \<Rightarrow> Inr (PInt i) | None \<Rightarrow> Inl Sx_Syntax)
      | _ \<Rightarrow> Inl Sx_Syntax)"

definition as_bool :: "sx \<Rightarrow> sx_error + pyval" where
  "as_bool x = (case x of SBool b \<Rightarrow> Inr (PBool b) | _ \<Rightarrow> Inl Sx_Syntax)"

definition c_http :: "floats \<Rightarrow> sx list \<Rightarrow> id_ctx \<Rightarrow> sx_error + pyval dict \<times> id_ctx" where
  "c_http fl args c =
     rbind (split_args args) (\<lambda>(pos, kw).
     let meth = opt kw [''method'']; url = opt kw [''url''];
         timeouts = [''request-timeout'', ''requestTimeout'', ''request_timeout''];
         redirects = [''max-redirects'', ''maxRedirects'', ''max_redirects''] in
     rbind (need (meth \<noteq> SNone \<and> url \<noteq> SNone)) (\<lambda>_.
     rbind (common_fields fl kw [(''type'', PStr ''http''), (''method'', PStr (text_of fl meth)), (''url'', raw fl url)] c) (\<lambda>r.
     rbind (put_after ''headers'' (sx_value fl) (opt kw [''headers'']) r) (\<lambda>r.
     rbind (put_after ''body'' (sx_value fl) (opt kw [''body'']) r) (\<lambda>r.
     rbind (put_after ''input'' (sx_value fl) (opt kw [''input'']) r) (\<lambda>r.
     rbind (put_after ''content_type'' (sx_value fl) (opt kw [''content-type'', ''contentType'', ''content_type'']) r) (\<lambda>r.
     rbind (put_after ''output'' (sx_value fl) (opt kw [''output'']) r) (\<lambda>r.
     rbind (put_after ''query'' (sx_value fl) (opt kw [''query'']) r) (\<lambda>r.
     rbind (put_after ''addressing'' (sx_value fl) (opt kw [''addressing'']) r) (\<lambda>r.
     rbind (put_after ''delegate'' (sx_value fl) (opt kw [''delegate'']) r) (\<lambda>r.
     rbind (put_after ''allowedHosts'' (host_list fl) (opt kw [''allowed-hosts'', ''allowedHosts'', ''allowed_hosts'']) r) (\<lambda>r.
     rbind (put_after ''deniedHosts'' (host_list fl) (opt kw [''denied-hosts'', ''deniedHosts'', ''denied_hosts'']) r) (\<lambda>r.
     rbind (put_after ''blockPrivateNetworks'' as_bool
         (opt kw [''block-private-networks'', ''blockPrivateNetworks'', ''block_private_networks'']) r) (\<lambda>r.
     rbind (reject_caps_none kw timeouts) (\<lambda>_.
     rbind (put_after ''requestTimeout'' (positive_seconds fl) (opt kw timeouts) r) (\<lambda>r.
     rbind (reject_caps_none kw redirects) (\<lambda>_.
     put_after ''maxRedirects'' (redirect_count fl) (opt kw redirects) r)))))))))))))))))"

definition c_event :: "floats \<Rightarrow> sx list \<Rightarrow> id_ctx \<Rightarrow> sx_error + pyval dict \<times> id_ctx" where
  "c_event fl args c =
     rbind (split_args args) (\<lambda>(pos, kw).
     let etype = opt kw [''type'', ''event-type'', ''eventType''] in
     rbind (need (etype \<noteq> SNone)) (\<lambda>_.
     rbind (common_fields fl kw [(''type'', PStr ''event''), (''eventType'', raw fl etype)] c) (\<lambda>r.
     rbind (put_after ''eventFilter'' (sx_value fl) (opt kw [''filter'', ''event-filter'', ''eventFilter'']) r) (\<lambda>r1.
     put_after ''subscriptionTimeout'' (positive_seconds fl)
       (opt kw [''subscription-timeout'', ''subscriptionTimeout'', ''subscription_timeout'']) r1))))"

definition c_mock :: "floats \<Rightarrow> sx list \<Rightarrow> id_ctx \<Rightarrow> sx_error + pyval dict \<times> id_ctx" where
  "c_mock fl args c =
     rbind (node_args args) (\<lambda>(pos, kw).
     rbind (common_fields fl kw [(''type'', PStr ''mock'')] c) (\<lambda>r.
     rbind (need (length pos \<le> 1)) (\<lambda>_.
     rbind (put_after ''value'' (sx_value fl) (if pos \<noteq> [] then hd pos else opt kw [''value'']) r) (\<lambda>r1.
     put_after ''output'' (sx_value fl) (opt kw [''output'']) r1))))"

section \<open>Nodes with flows\<close>

text \<open>The compiler of nested flows is the argument \<open>cf\<close>.\<close>

definition child_names :: "string list" where
  "child_names = [''child'', ''child-flow'', ''childFlow'']"

definition collection_common ::
  "(sx \<Rightarrow> sx_error + pyval) \<Rightarrow> floats \<Rightarrow> string \<Rightarrow> sx list \<Rightarrow> id_ctx \<Rightarrow> sx_error + pyval dict \<times> id_ctx" where
  "collection_common cf fl ntype args c =
     rbind (split_args args) (\<lambda>(pos, kw).
     let coll = opt kw [''collection'']; child = opt kw child_names in
     rbind (need (coll \<noteq> SNone \<and> child \<noteq> SNone)) (\<lambda>_.
     rbind (sx_value fl coll) (\<lambda>v.
     rbind (cf child) (\<lambda>f.
     rbind (put_field ''itemType'' (type_spec fl) (opt kw [''item-type'', ''itemType'', ''item_type''])
         [(''type'', PStr ntype), (''collection'', v), (''childFlow'', f)]) (\<lambda>d.
     common_fields fl kw d c)))))"

definition c_loop :: "(sx \<Rightarrow> sx_error + pyval) \<Rightarrow> floats \<Rightarrow> sx list \<Rightarrow> id_ctx \<Rightarrow> sx_error + pyval dict \<times> id_ctx" where
  "c_loop cf fl args c =
     rbind (collection_common cf fl ''loop'' args c) (\<lambda>r.
     rbind (split_args args) (\<lambda>(pos, kw). put_after ''condition'' (as_condition fl) (opt kw [''when'', ''condition'']) r))"

definition c_while :: "(sx \<Rightarrow> sx_error + pyval) \<Rightarrow> floats \<Rightarrow> sx list \<Rightarrow> id_ctx \<Rightarrow> sx_error + pyval dict \<times> id_ctx" where
  "c_while cf fl args c =
     rbind (split_args args) (\<lambda>(pos, kw).
     let q = opt kw [''when'', ''condition'']; child = opt kw child_names in
     rbind (need (q \<noteq> SNone \<and> child \<noteq> SNone)) (\<lambda>_.
     rbind (as_condition fl q) (\<lambda>v.
     rbind (cf child) (\<lambda>f.
     rbind (common_fields fl kw [(''type'', PStr ''while''), (''condition'', v), (''childFlow'', f)] c) (\<lambda>r.
     put_after ''maxIterations'' (as_raw fl) (opt kw [''max-iterations'', ''maxIterations'', ''max_iterations'']) r)))))"

definition c_map :: "(sx \<Rightarrow> sx_error + pyval) \<Rightarrow> floats \<Rightarrow> sx list \<Rightarrow> id_ctx \<Rightarrow> sx_error + pyval dict \<times> id_ctx" where
  "c_map cf fl args c =
     rbind (collection_common cf fl ''map'' args c) (\<lambda>r.
     rbind (split_args args) (\<lambda>(pos, kw).
     if truthy (raw fl (opt kw [''concurrent''])) then
       put_after ''maxConcurrent'' (as_raw fl) (opt kw [''max-concurrent'', ''maxConcurrent'']) (set_after ''concurrent'' (PBool True) r)
     else Inr r))"

definition c_reduce :: "(sx \<Rightarrow> sx_error + pyval) \<Rightarrow> floats \<Rightarrow> sx list \<Rightarrow> id_ctx \<Rightarrow> sx_error + pyval dict \<times> id_ctx" where
  "c_reduce cf fl args c =
     rbind (collection_common cf fl ''reduce'' args c) (\<lambda>r.
     rbind (split_args args) (\<lambda>(pos, kw). put_after ''initial'' (sx_value fl) (opt kw [''initial'']) r))"

definition c_child ::
  "(sx \<Rightarrow> sx_error + pyval) \<Rightarrow> floats \<Rightarrow> string \<Rightarrow> sx list \<Rightarrow> id_ctx \<Rightarrow> sx_error + pyval dict \<times> id_ctx" where
  "c_child cf fl ntype args c =
     rbind (split_args args) (\<lambda>(pos, kw).
     let named = opt kw [''input'']; inp = (if named = SNone \<and> pos \<noteq> [] then hd pos else named); child = opt kw child_names in
     rbind (need (inp \<noteq> SNone \<and> child \<noteq> SNone)) (\<lambda>_.
     rbind (sx_value fl inp) (\<lambda>v.
     rbind (cf child) (\<lambda>f.
     common_fields fl kw [(''type'', PStr ntype), (''input'', v), (''childFlow'', f)] c))))"

definition c_pbranch :: "(sx \<Rightarrow> sx_error + pyval) \<Rightarrow> floats \<Rightarrow> sx list \<Rightarrow> sx_error + pyval" where
  "c_pbranch cf fl args =
     rbind (split_args args) (\<lambda>(pos, kw).
     rbind (need (pos \<noteq> [])) (\<lambda>_.
     let flow = opt kw [''flow'', ''child'', ''childFlow''] in
     rbind (need (flow \<noteq> SNone)) (\<lambda>_.
     rbind (cf flow) (\<lambda>f.
     rbind (put_field ''input'' (sx_value fl) (opt kw [''input'']) [(''name'', PStr (text_of fl (hd pos))), (''flow'', f)]) (\<lambda>d1.
     rbind (put_field ''condition'' (as_condition fl) (opt kw [''when'', ''condition'']) d1) (\<lambda>d2. Inr (PDict d2)))))))"

definition join_names :: "floats \<Rightarrow> sx \<Rightarrow> sx_error + pyval" where
  "join_names fl x =
     Inr (PList (case x of SList xs \<Rightarrow> map (\<lambda>y. PStr (text_of fl y)) xs | _ \<Rightarrow> [PStr (text_of fl x)]))"

definition c_parallel :: "(sx \<Rightarrow> sx_error + pyval) \<Rightarrow> floats \<Rightarrow> sx list \<Rightarrow> id_ctx \<Rightarrow> sx_error + pyval dict \<times> id_ctx" where
  "c_parallel cf fl args c =
     rbind (split_args args) (\<lambda>(pos, kw).
     rbind (rmap (\<lambda>b. rbind (headed [''pbranch''] b) (c_pbranch cf fl)) pos) (\<lambda>bs.
     rbind (common_fields fl kw [(''type'', PStr ''parallel''), (''branches'', PList bs)] c) (\<lambda>r.
     rbind (put_after ''mode'' (as_text fl) (opt kw [''mode'']) r) (\<lambda>r1.
     rbind (put_after ''joinBranches'' (join_names fl) (opt kw [''join'', ''join-branches'', ''joinBranches'']) r1) (\<lambda>r2.
     Inr (if truthy (raw fl (opt kw [''conditional'', ''is-conditional'', ''isConditional'']))
          then set_after ''isConditional'' (PBool True) r2 else r2))))))"

text \<open>\<open>_NODE_COMPILERS\<close> and \<open>_compile_node\<close>.\<close>

definition node_compiler ::
  "(sx \<Rightarrow> sx_error + pyval) \<Rightarrow> floats \<Rightarrow> string \<Rightarrow> sx list \<Rightarrow> id_ctx \<Rightarrow> sx_error + pyval dict \<times> id_ctx" where
  "node_compiler cf fl t args c =
     (if t = ''start'' then c_start fl args c
      else if t = ''end'' then c_end fl args c
      else if t = ''assignment'' \<or> t = ''assign'' then c_assignment fl args c
      else if t = ''if'' then c_if fl args c
      else if t = ''switch'' then c_switch fl args c
      else if t = ''case'' then c_case fl args c
      else if t = ''loop'' then c_loop cf fl args c
      else if t = ''map'' then c_map cf fl args c
      else if t = ''filter'' \<or> t = ''find'' then collection_common cf fl t args c
      else if t = ''reduce'' then c_reduce cf fl args c
      else if t = ''while'' then c_while cf fl args c
      else if t = ''child'' \<or> t = ''reference'' then c_child cf fl t args c
      else if t = ''parallel'' then c_parallel cf fl args c
      else if t = ''code'' then c_code fl args c
      else if t = ''http'' then c_http fl args c
      else if t = ''event'' then c_event fl args c
      else if t = ''mock'' then c_mock fl args c
      else Inl Sx_Syntax)"

definition compile_node :: "(sx \<Rightarrow> sx_error + pyval) \<Rightarrow> floats \<Rightarrow> sx \<Rightarrow> id_ctx \<Rightarrow> sx_error + pyval dict \<times> id_ctx" where
  "compile_node cf fl form c = (case form of SList (SSym t # args) \<Rightarrow> node_compiler cf fl t args c | _ \<Rightarrow> Inl Sx_Syntax)"

text \<open>Only flows below the form are compiled.\<close>

lemma collection_cong:
  "(\<And>x. size x < Suc (size_list size args) \<Longrightarrow> cf x = cf' x) \<Longrightarrow> collection_common cf fl n args c = collection_common cf' fl n args c"
  unfolding collection_common_def Let_def need_def rbind_def
  by (auto split: sum.splits prod.splits if_splits dest: opt_size)

lemma c_child_cong:
  "(\<And>x. size x < Suc (size_list size args) \<Longrightarrow> cf x = cf' x) \<Longrightarrow> c_child cf fl n args c = c_child cf' fl n args c"
  unfolding c_child_def Let_def need_def rbind_def
  by (auto split: sum.splits prod.splits if_splits dest: opt_size)

lemma c_while_cong:
  "(\<And>x. size x < Suc (size_list size args) \<Longrightarrow> cf x = cf' x) \<Longrightarrow> c_while cf fl args c = c_while cf' fl args c"
  unfolding c_while_def Let_def need_def rbind_def
  by (auto split: sum.splits prod.splits if_splits dest: opt_size)

declare opt.simps [simp del]

lemma c_pbranch_cong:
  "(\<And>x. size x < Suc (size_list size args) \<Longrightarrow> cf x = cf' x) \<Longrightarrow> c_pbranch cf fl args = c_pbranch cf' fl args"
  unfolding c_pbranch_def Let_def need_def rbind_def
  by (auto split: sum.splits prod.splits if_splits dest: opt_size)

lemma headed_size: "headed hs x = Inr r \<Longrightarrow> size_list size r < size x"
  by (induction hs x rule: headed.induct) (auto split: if_splits)

lemma c_parallel_cong:
  assumes "\<And>x. size x < Suc (size_list size args) \<Longrightarrow> cf x = cf' x"
  shows "c_parallel cf fl args c = c_parallel cf' fl args c"
proof (cases "split_args args")
  case (Inr p)
  obtain pos kw where p: "p = (pos, kw)" by fastforce
  have "rbind (headed [''pbranch''] b) (c_pbranch cf fl) = rbind (headed [''pbranch''] b) (c_pbranch cf' fl)" if "b \<in> set pos" for b
  proof (cases "headed [''pbranch''] b")
    case (Inr r)
    have "size b < Suc (size_list size args)" using pos_size Inr p that \<open>split_args args = Inr p\<close> by blast
    with headed_size [OF Inr] have "c_pbranch cf fl r = c_pbranch cf' fl r" by (intro c_pbranch_cong assms) simp
    with Inr show ?thesis by simp
  qed simp
  then have "rmap (\<lambda>b. rbind (headed [''pbranch''] b) (c_pbranch cf fl)) pos
      = rmap (\<lambda>b. rbind (headed [''pbranch''] b) (c_pbranch cf' fl)) pos" by (intro rmap_cong) auto
  with Inr p show ?thesis by (simp add: c_parallel_def)
qed (simp add: c_parallel_def)

lemma compile_node_cong [fundef_cong]:
  assumes "form = form'" and "\<And>x. size x < size form' \<Longrightarrow> cf x = cf' x" and "c = c'"
  shows "compile_node cf fl form c = compile_node cf' fl form' c'"
proof (cases "\<exists>t args. form' = SList (SSym t # args)")
  case True
  then obtain t args where f: "form' = SList (SSym t # args)" by blast
  have eq: "cf x = cf' x" if "size x < Suc (size_list size args)" for x
    using that f by (intro assms(2)) simp
  note congs = collection_cong [of args cf cf', OF eq] c_child_cong [of args cf cf', OF eq] c_while_cong [of args cf cf', OF eq]
    c_parallel_cong [of args cf cf', OF eq]
  show ?thesis
    unfolding assms(1,3) f compile_node_def node_compiler_def c_loop_def c_map_def c_reduce_def
    by (simp add: congs)
next
  case False
  with assms(1,3) show ?thesis by (auto simp: compile_node_def split: sx.splits list.splits)
qed

section \<open>Flows\<close>

text \<open>The nodes of one flow, which share the context of ids.\<close>

fun compile_nodes :: "(sx \<Rightarrow> id_ctx \<Rightarrow> sx_error + pyval dict \<times> id_ctx) \<Rightarrow> sx list \<Rightarrow> id_ctx \<Rightarrow> sx_error + pyval dict list \<times> id_ctx" where
  "compile_nodes f [] c = Inr ([], c)"
| "compile_nodes f (x # xs) c = rbind (f x c) (\<lambda>(d, c1). rbind (compile_nodes f xs c1) (\<lambda>(ds, c2). Inr (d # ds, c2)))"

lemma compile_nodes_cong [fundef_cong]:
  "xs = ys \<Longrightarrow> (\<And>x c. x \<in> set ys \<Longrightarrow> f x c = g x c) \<Longrightarrow> c = c' \<Longrightarrow> compile_nodes f xs c = compile_nodes g ys c'"
  by (induction xs arbitrary: ys c c') (auto simp: rbind_def split: sum.splits)

definition flow_nodes :: "pyval dict list \<Rightarrow> pyval" where
  "flow_nodes ds = PList (map PDict ds)"

definition child_header :: "floats \<Rightarrow> sx dict \<Rightarrow> sx_error + pyval dict" where
  "child_header fl kw =
     rbind (put_field ''flow_id'' (as_text fl) (opt kw [''flow-id'']) [(''runtime'', PStr ''python'')]) (\<lambda>d1.
     rbind (put_field ''inputType'' (type_spec fl) (opt kw [''input-type'', ''inputType'']) d1) (\<lambda>d2.
     rbind (put_field ''outputType'' (type_spec fl) (opt kw [''output-type'', ''outputType'']) d2) (\<lambda>d3.
     put_field ''desc'' (as_raw fl) (opt kw [''desc'']) d3)))"

declare rbind_cong_Inr [fundef_cong]

function compile_childflow :: "floats \<Rightarrow> sx \<Rightarrow> sx_error + pyval" where
  "compile_childflow fl form =
     rbind (headed [''childflow''] form) (\<lambda>args.
     rbind (split_args args) (\<lambda>(pos, kw).
     rbind (child_header fl kw) (\<lambda>d.
     rbind (compile_nodes (compile_node (compile_childflow fl) fl) pos start_ids) (\<lambda>(ds, c).
     Inr (PDict (dict_set ''nodes'' (flow_nodes ds) d))))))"
  by pat_completeness auto
termination
proof (relation "measure (\<lambda>(fl, form). size form)")
  fix fl :: floats and form args p pos kw and d :: "pyval dict" and n x :: sx and c :: id_ctx
  assume "headed [''childflow''] form = Inr args" "split_args args = Inr p" "(pos, kw) = p" "n \<in> set pos" "size x < size n"
  then show "((fl, x), fl, form) \<in> measure (\<lambda>(fl, form). size form)"
    using headed_size [of "[''childflow'']" form args] pos_size [of args pos kw n] by simp
qed simp

declare compile_childflow.simps [simp del]

text \<open>The keywords of a flow that are taken as they are.\<close>

definition compile_flow :: "floats \<Rightarrow> sx \<Rightarrow> sx_error + pyval dict" where
  "compile_flow fl form =
     (case form of
        SList (SSym h # args) \<Rightarrow>
          rbind (need (h = ''flow'')) (\<lambda>_.
          rbind (split_args args) (\<lambda>(pos, kw).
          rbind (need (pos \<noteq> [])) (\<lambda>_.
          rbind (put_field ''inputType'' (type_spec fl) (opt kw [''input-type'', ''inputType''])
              [(''runtime'', PStr ''python''), (''flow_id'', PStr (text_of fl (hd pos)))]) (\<lambda>d.
          rbind (put_field ''outputType'' (type_spec fl) (opt kw [''output-type'', ''outputType'']) d) (\<lambda>d.
          rbind (put_field ''desc'' (as_raw fl) (opt kw [''desc'']) d) (\<lambda>d.
          rbind (put_field ''version'' (as_raw fl) (opt kw [''version'']) d) (\<lambda>d.
          rbind (put_field ''author'' (as_raw fl) (opt kw [''author'']) d) (\<lambda>d.
          rbind (put_field ''timeout'' (as_raw fl) (opt kw [''timeout'']) d) (\<lambda>d.
          rbind (put_field ''globalContext'' (sx_value fl) (opt kw [''global-context'', ''globalContext'']) d) (\<lambda>d.
          rbind (put_field ''metadata'' (sx_value fl) (opt kw [''metadata'']) d) (\<lambda>d.
          rbind (compile_nodes (compile_node (compile_childflow fl) fl) (tl pos) start_ids) (\<lambda>(ds, c).
          Inr (dict_set ''nodes'' (flow_nodes ds) d)))))))))))))
      | _ \<Rightarrow> Inl Sx_Syntax)"

definition compile_sexpr :: "floats \<Rightarrow> string \<Rightarrow> sx_error + pyval dict" where
  "compile_sexpr fl src =
     rbind (read_forms src) (\<lambda>forms.
       case forms of [] \<Rightarrow> Inl Sx_Value | [x] \<Rightarrow> compile_flow fl x | _ \<Rightarrow> Inl Sx_Syntax)"

end
