(* ===== verification/Sexpr_Ids.thy ===== *)
theory Sexpr_Ids
  imports Sexpr_Compile
begin

text \<open>
  The ids that the compiler of \<^verbatim>\<open>plaita/dsl/sexpr.py\<close> gives: every node compiler claims one new id and none of the
  fields it adds later replaces it, so the nodes of a flow, and of every flow nested in it, have distinct ids
  (\<open>compiled_ids_distinct\<close>).
\<close>

section \<open>Ids of compiled nodes\<close>

text \<open>A node that has claimed its id: it was new, and is now claimed.\<close>

definition claimed_by :: "id_ctx \<Rightarrow> pyval dict \<times> id_ctx \<Rightarrow> bool" where
  "claimed_by c r \<longleftrightarrow>
     (\<exists>i. dict_get (fst r) ''id'' = Some (PStr i) \<and> i \<notin> set (ic_claimed c) \<and> ic_claimed (snd r) = i # ic_claimed c)"

definition claims :: "id_ctx \<Rightarrow> sx_error + pyval dict \<times> id_ctx \<Rightarrow> bool" where
  "claims c m \<longleftrightarrow> (\<forall>r. m = Inr r \<longrightarrow> claimed_by c r)"

named_theorems claims_rules

lemma put_field_keeps: "put_field k f x d = Inr d' \<Longrightarrow> k \<noteq> ''id'' \<Longrightarrow> dict_get d' ''id'' = dict_get d ''id''"
  by (auto simp: put_field_def rbind_eq_Inr_iff split: if_splits)

lemma claimed_set_after [claims_rules]: "k \<noteq> ''id'' \<Longrightarrow> claimed_by c r \<Longrightarrow> claimed_by c (set_after k v r)"
  by (auto simp: set_after_def claimed_by_def)

lemma claimed_if [claims_rules]: "claimed_by c r \<Longrightarrow> claimed_by c s \<Longrightarrow> claimed_by c (if b then r else s)"
  by simp

lemma claims_Inr [claims_rules]: "claimed_by c r \<Longrightarrow> claims c (Inr r)"
  by (simp add: claims_def)

lemma claims_if [claims_rules]: "claims c m \<Longrightarrow> claims c n \<Longrightarrow> claims c (if b then m else n)"
  by simp

lemma claims_common [claims_rules]: "claims c (common_fields fl kw d c)"
  by (auto simp: claims_def common_fields_def rbind_eq_Inr_iff claimed_by_def dest!: claim_new put_field_keeps)

lemma claims_put_after [claims_rules]: "k \<noteq> ''id'' \<Longrightarrow> claimed_by c r \<Longrightarrow> claims c (put_after k f x r)"
  by (auto simp: claims_def put_after_def rbind_eq_Inr_iff claimed_by_def dest: put_field_keeps)

lemma claims_then: "claims c m \<Longrightarrow> (\<And>r. claimed_by c r \<Longrightarrow> claims c (f r)) \<Longrightarrow> claims c (rbind m f)"
  by (auto simp: claims_def rbind_eq_Inr_iff)

lemma claims_bind: "(\<And>x. claims c (f x)) \<Longrightarrow> claims c (rbind m f)"
  by (auto simp: claims_def rbind_eq_Inr_iff)

lemma claims_prod [claims_rules]: "(\<And>a b. claims c (f a b)) \<Longrightarrow> claims c (case p of (a, b) \<Rightarrow> f a b)"
  by (cases p) simp

lemmas claims_thens [claims_rules] = claims_then [OF claims_common] claims_then [OF claims_put_after]

lemma claims_collection [claims_rules]: "claims c (collection_common cf fl n args c)"
  unfolding collection_common_def Let_def by (rule claims_rules claims_bind | simp)+

lemmas claims_then_collection [claims_rules] = claims_then [OF claims_collection]

lemma claims_flow_nodes [claims_rules]:
  "claims c (c_loop cf fl args c)" "claims c (c_map cf fl args c)" "claims c (c_reduce cf fl args c)"
  "claims c (c_while cf fl args c)" "claims c (c_child cf fl n args c)" "claims c (c_parallel cf fl args c)"
  unfolding c_loop_def c_map_def c_reduce_def c_while_def c_child_def c_parallel_def Let_def
  by (rule claims_rules claims_bind | assumption | simp)+

lemma claims_plain_nodes [claims_rules]:
  "claims c (c_start fl args c)" "claims c (c_end fl args c)" "claims c (c_assignment fl args c)" "claims c (c_if fl args c)"
  "claims c (c_switch fl args c)" "claims c (c_case fl args c)" "claims c (c_code fl args c)" "claims c (c_http fl args c)"
  "claims c (c_event fl args c)" "claims c (c_mock fl args c)"
  unfolding c_start_def c_end_def c_assignment_def c_if_def c_switch_def c_case_def c_code_def c_http_def c_event_def c_mock_def Let_def
  by (rule claims_rules claims_bind | assumption | simp)+

lemma node_claims: "claims c (compile_node cf fl form c)"
proof -
  have "claims c (node_compiler cf fl t args c)" for t args
    unfolding node_compiler_def by (intro claims_rules) (simp add: claims_def)
  moreover have "claims c (Inl e)" for e by (simp add: claims_def)
  ultimately show ?thesis by (auto simp: compile_node_def split: sx.splits list.splits)
qed

lemma nodes_strings:
  "compile_nodes (compile_node cf fl) xs c = Inr (ds, c') \<Longrightarrow> e \<in> set ds \<Longrightarrow> \<exists>i. dict_get e ''id'' = Some (PStr i)"
proof (induction xs arbitrary: ds c)
  case (Cons x xs)
  then obtain d c1 es where d: "compile_node cf fl x c = Inr (d, c1)" "compile_nodes (compile_node cf fl) xs c1 = Inr (es, c')"
    "ds = d # es" by (auto simp: rbind_eq_Inr_iff)
  from node_claims [of c cf fl x] d(1) have "\<exists>i. dict_get d ''id'' = Some (PStr i)"
    by (auto simp: claims_def claimed_by_def)
  with Cons.IH [OF d(2)] Cons.prems d(3) show ?case by auto
qed simp

text \<open>The ids of the nodes of a flow, in order.\<close>

definition node_ids :: "pyval dict list \<Rightarrow> pyval option list" where
  "node_ids ds = map (\<lambda>d. dict_get d ''id'') ds"

lemma nodes_claimed:
  "compile_nodes (compile_node cf fl) xs c = Inr (ds, c') \<Longrightarrow> distinct (node_ids ds)
     \<and> set (node_ids ds) \<inter> (\<lambda>i. Some (PStr i)) ` set (ic_claimed c) = {} \<and> None \<notin> set (node_ids ds)"
proof (induction xs arbitrary: ds c)
  case (Cons x xs)
  then obtain d c1 es where d: "compile_node cf fl x c = Inr (d, c1)" "compile_nodes (compile_node cf fl) xs c1 = Inr (es, c')"
    "ds = d # es" by (auto simp: rbind_eq_Inr_iff)
  from node_claims [of c cf fl x] d(1) obtain i where
    "dict_get d ''id'' = Some (PStr i)" "i \<notin> set (ic_claimed c)" "ic_claimed c1 = i # ic_claimed c"
    by (auto simp: claims_def claimed_by_def)
  with Cons.IH [OF d(2)] d(3) show ?case by (auto simp: node_ids_def)
qed (simp add: node_ids_def)

definition ids_distinct :: "pyval dict \<Rightarrow> bool" where
  "ids_distinct d =
     (case dict_get d ''nodes'' of
        Some (PList ns) \<Rightarrow>
          distinct (map (\<lambda>n. case n of PDict e \<Rightarrow> dict_get e ''id'' | _ \<Rightarrow> None) ns)
          \<and> list_all (\<lambda>n. case n of PDict e \<Rightarrow> (case dict_get e ''id'' of Some i \<Rightarrow> is_str i | None \<Rightarrow> False) | _ \<Rightarrow> False) ns
      | _ \<Rightarrow> False)"

lemma ids_distinct_nodes:
  assumes "compile_nodes (compile_node cf fl) xs c = Inr (ds, c')"
  shows "ids_distinct (dict_set ''nodes'' (flow_nodes ds) d)"
proof -
  have "(case dict_get e ''id'' of Some i \<Rightarrow> is_str i | None \<Rightarrow> False)" if "e \<in> set ds" for e
    using nodes_strings [OF assms that] by (auto simp: is_str_def)
  with nodes_claimed [OF assms] show ?thesis
    by (simp add: ids_distinct_def flow_nodes_def node_ids_def list_all_iff o_def)
qed

text \<open>
  Property C21.  The nodes of a compiled flow have ids, each a string and no two equal, whether they are written or numbered; so
  do the nodes of every nested flow.
\<close>

theorem compiled_ids_distinct:
  "(compile_sexpr fl src = Inr d \<longrightarrow> ids_distinct d)
     \<and> (compile_childflow fl form = Inr v \<longrightarrow> (\<exists>e. v = PDict e \<and> ids_distinct e))"
proof -
  have "compile_flow fl x = Inr d \<Longrightarrow> ids_distinct d" for x
    by (auto simp: compile_flow_def rbind_eq_Inr_iff intro: ids_distinct_nodes split: sx.splits list.splits)
  moreover have "compile_childflow fl form = Inr v \<Longrightarrow> \<exists>e. v = PDict e \<and> ids_distinct e"
    by (subst (asm) compile_childflow.simps) (auto simp: rbind_eq_Inr_iff intro: ids_distinct_nodes)
  moreover have "\<exists>x. compile_flow fl x = Inr d" if "compile_sexpr fl src = Inr d"
  proof -
    from that obtain fs where "(case fs of [] \<Rightarrow> Inl Sx_Value | [x] \<Rightarrow> compile_flow fl x | _ \<Rightarrow> Inl Sx_Syntax) = Inr d"
      unfolding compile_sexpr_def rbind_eq_Inr_iff by blast
    then show ?thesis by (cases fs; cases "tl fs"; auto)
  qed
  ultimately show ?thesis by blast
qed

definition no_floats :: floats where
  "no_floats = \<lparr>fl_value = (\<lambda>t. PStr t), fl_positive = (\<lambda>t. False), fl_natural = (\<lambda>t. None)\<rparr>"

definition sample_source :: string where
  "sample_source = ''(flow f (start) (end :id b :output $x))''"

definition sample_flow :: "pyval dict" where
  "sample_flow =
     [(''runtime'', PStr ''python''), (''flow_id'', PStr ''f''),
      (''nodes'', PList
        [PDict [(''type'', PStr ''start''), (''id'', PStr ''_n1'')],
         PDict [(''type'', PStr ''end''), (''id'', PStr ''b''), (''output'', PStr ''$x''), (''resultType'', PStr ''success'')]])]"

theorem compiled_ids_distinct_witness:
  "compile_sexpr no_floats sample_source = Inr sample_flow \<and> ids_distinct sample_flow"
proof -
  have "compile_sexpr no_floats sample_source = Inr sample_flow" by code_simp
  with compiled_ids_distinct [of no_floats sample_source sample_flow] show ?thesis by blast
qed

end
