(* ===== verification/Sexpr_Emit.thy ===== *)
theory Sexpr_Emit
  imports Sexpr_Ids
begin

text \<open>
  The writer of \<^verbatim>\<open>plaita/dsl/sexpr.py\<close> for values, conditions and error handlers, and what reading its
  output gives.  The values of the model have no floating-point numbers: the code writes these with \<open>str\<close>, and those
  in exponent form are read back as symbols (\<open>exponent_reads_as_symbol\<close>).  Data without them is read back unchanged (\<open>data_read_back\<close>), as are conditions over expressions and data
  (\<open>condition_read_back\<close>); the negation of a condition is its complement under \<^verbatim>\<open>plaita/node/decide.py\<close>
  (\<open>negation_is_complement\<close>), except where an operand is \<open>None\<close> or a group is empty.
\<close>

section \<open>Writing values\<close>

definition expression_string :: "string \<Rightarrow> bool" where
  "expression_string s \<longleftrightarrow> take 1 s = ''$''"

text \<open>\<open>_dict_entry_to_src\<close> for a string key; the values of the model have no other keys.\<close>

definition dict_entry_src :: "string \<Rightarrow> string \<Rightarrow> string" where
  "dict_entry_src k v = (if bare k then CHR '':'' # k @ CHR '' '' # v else ''('' @ (string_src k @ CHR '' '' # v) @ '')'')"

definition dict_src :: "string list \<Rightarrow> string" where
  "dict_src es = (if es = [] then ''(dict)'' else ''('' @ (''dict'' @ CHR '' '' # spaced es) @ '')'')"

definition string_expr_src :: "string \<Rightarrow> string" where
  "string_expr_src s = (if bare s then s else string_src s)"

text \<open>\<open>_expr_to_src\<close> and \<open>_data_value_to_src\<close>, on values without floating-point numbers.\<close>

fun expr_src :: "pyval \<Rightarrow> string" where
  "expr_src (PStr s) = string_expr_src s"
| "expr_src (PBool b) = (if b then ''true'' else ''false'')"
| "expr_src (PInt i) = int_str i"
| "expr_src PNone = ''nil''"
| "expr_src (PList xs) = parens (map expr_src xs)"
| "expr_src (PDict d) = dict_src (map (\<lambda>p. dict_entry_src (fst p) (expr_src (snd p))) d)"
| "expr_src (PTuple xs) = py_str (PTuple xs)"

fun data_src :: "pyval \<Rightarrow> string" where
  "data_src (PStr s) = (if expression_string s then string_expr_src s else string_src s)"
| "data_src (PDict d) = dict_src (map (\<lambda>p. dict_entry_src (fst p) (data_src (snd p))) d)"
| "data_src (PList xs) = ''('' @ (''list'' @ CHR '' '' # spaced (map data_src xs)) @ '')''"
| "data_src x = expr_src x"

fun cond_src :: "scond \<Rightarrow> string" where
  "cond_src (SCond f op v) = ''('' @ (''cond'' @ CHR '' '' # expr_src f @ CHR '' '' # op @ CHR '' '' # data_src v) @ '')''"
| "cond_src (SGroup r cs) =
     ''('' @ ((case r of REL_AND \<Rightarrow> ''and'' | REL_OR \<Rightarrow> ''or'') @ CHR '' '' # spaced (map cond_src cs)) @ '')''"

text \<open>\<open>_error_handler_to_src\<close>; the texts of the retry count and the code are those of \<open>str\<close>.\<close>

definition opt_src :: "pyval dict \<Rightarrow> string \<Rightarrow> string \<Rightarrow> (pyval \<Rightarrow> string) \<Rightarrow> string list" where
  "opt_src d key name f = (case dict_get d key of None \<Rightarrow> [] | Some v \<Rightarrow> [CHR '':'' # name @ CHR '' '' # f v])"

definition error_handler_src :: "string \<Rightarrow> pyval dict \<Rightarrow> string" where
  "error_handler_src head d =
     parens ([head, (case dict_get d ''strategy'' of Some s \<Rightarrow> py_str s | None \<Rightarrow> ''abort'')]
       @ opt_src d ''retryTimes'' ''retry'' py_str @ opt_src d ''defaultValue'' ''default'' data_src
       @ opt_src d ''errorCode'' ''code'' py_str @ opt_src d ''errorMessage'' ''msg'' data_src)"

section \<open>Data is read back\<close>

text \<open>The form that stands for a value, and the values of JSON: no tuples, keys distinct, integers that Python prints.\<close>

definition string_form :: "string \<Rightarrow> sx" where
  "string_form s = (if expression_string s \<and> bare s then SSym s else SStr s)"

definition entry_forms :: "string \<Rightarrow> sx \<Rightarrow> sx list" where
  "entry_forms k x = (if bare k then [SKw k, x] else [SList [SStr k, x]])"

fun data_form :: "pyval \<Rightarrow> sx" where
  "data_form PNone = SNone"
| "data_form (PBool b) = SBool b"
| "data_form (PInt i) = SInt i"
| "data_form (PStr s) = string_form s"
| "data_form (PList xs) = SList (SSym ''list'' # map data_form xs)"
| "data_form (PDict d) = SList (SSym ''dict'' # concat (map (\<lambda>p. entry_forms (fst p) (data_form (snd p))) d))"
| "data_form (PTuple xs) = SNone"

fun json_value :: "pyval \<Rightarrow> bool" where
  "json_value (PInt i) = (length (int_str i) \<le> 4300)"
| "json_value (PList xs) = list_all json_value xs"
| "json_value (PDict d) = (dict_wf d \<and> list_all (\<lambda>p. json_value (snd p)) d)"
| "json_value (PTuple xs) = False"
| "json_value v = True"

lemma expression_symbol: "expression_string s \<Longrightarrow> bare s \<Longrightarrow> read_atom s = Inr (SSym s)"
  by (cases s) (auto simp: expression_string_def read_atom_def int_text_def decimal_text_def unsigned_text_def ascii_digit_def Let_def)

lemma word_writes: "writes ''list'' [SSym ''list'']" "writes ''dict'' [SSym ''dict'']" "writes ''cond'' [SSym ''cond'']"
  "writes ''and'' [SSym ''and'']" "writes ''or'' [SSym ''or'']"
  using writes_atomic [of "SSym ''list''"] writes_atomic [of "SSym ''dict''"] writes_atomic [of "SSym ''cond''"]
    writes_atomic [of "SSym ''and''"] writes_atomic [of "SSym ''or''"]
  by (simp_all add: bare_def atom_char_def is_space_def read_atom_def int_text_def decimal_text_def unsigned_text_def ascii_digit_def)

lemma writes_entry: "writes s [x] \<Longrightarrow> writes (dict_entry_src k s) (entry_forms k x)"
proof (cases "bare k")
  case True
  assume "writes s [x]"
  moreover have "writes (CHR '':'' # k) [SKw k]" using writes_atomic [of "SKw k"] True by (simp add: bare_def)
  ultimately show ?thesis using writes_space [of "CHR '':'' # k" "[SKw k]" s "[x]"] True by (simp add: dict_entry_src_def entry_forms_def)
next
  case False
  assume "writes s [x]"
  with writes_parens [OF writes_space [OF writes_string]] False show ?thesis by (simp add: dict_entry_src_def entry_forms_def)
qed

lemma writes_dict: "list_all2 writes es xss \<Longrightarrow> writes (dict_src es) [SList (SSym ''dict'' # concat xss)]"
  using writes_parens [OF writes_space [OF word_writes(2) writes_spaced]] writes_parens [OF word_writes(2)]
  by (auto simp: dict_src_def)

lemma list_all2_mapI: "(\<And>x. x \<in> set xs \<Longrightarrow> P (f x) (g x)) \<Longrightarrow> list_all2 P (map f xs) (map g xs)"
  by (induction xs) auto

lemma data_writes: "json_value v \<Longrightarrow> writes (data_src v) [data_form v]"
proof (induction v)
  case (PStr s)
  show ?case
    using writes_atomic [of "SSym s"] expression_symbol [of s] writes_string [of s]
    by (auto simp: string_expr_src_def string_form_def)
next
  case (PList xs)
  then have "list_all2 writes (map data_src xs) (map (\<lambda>x. [data_form x]) xs)"
    by (intro list_all2_mapI) (auto simp: list_all_iff)
  from writes_parens [OF writes_space [OF word_writes(1) writes_spaced [OF this]]] show ?case
    by (simp add: concat_map_singleton)
next
  case (PDict d)
  then have "list_all2 writes (map (\<lambda>p. dict_entry_src (fst p) (data_src (snd p))) d)
      (map (\<lambda>p. entry_forms (fst p) (data_form (snd p))) d)"
    by (intro list_all2_mapI writes_entry) (auto simp: list_all_iff)
  from writes_dict [OF this] show ?case by simp
next
  case (PBool b)
  show ?case using writes_atomic [of "SBool b"] by simp
next
  case (PInt i)
  then show ?case using writes_atomic [of "SInt i"] by simp
next
  case PNone
  show ?case using writes_atomic [of SNone] by simp
qed simp

lemma data_printable: "json_value v \<Longrightarrow> printable (data_form v)"
proof (induction v)
  case (PStr s)
  then show ?case by (simp add: string_form_def expression_symbol)
next
  case (PList xs)
  then show ?case using word_writes by (auto simp: list_all_iff bare_def atom_char_def is_space_def read_atom_def
        int_text_def decimal_text_def unsigned_text_def ascii_digit_def)
next
  case (PDict d)
  then have "list_all printable (entry_forms (fst p) (data_form (snd p)))" if "p \<in> set d" for p
    using that by (cases p) (auto simp: entry_forms_def list_all_iff bare_def)
  then show ?case by (auto simp: list_all_iff bare_def atom_char_def is_space_def read_atom_def
        int_text_def decimal_text_def unsigned_text_def ascii_digit_def)
qed auto

lemma literal_entry:
  "dict_literal fl (entry_forms k x @ r) out = rbind (sx_value fl x) (\<lambda>y. dict_literal fl r (dict_set k y out))"
  by (simp add: entry_forms_def)

lemma data_value: "json_value v \<Longrightarrow> sx_value fl (data_form v) = Inr v"
proof (induction v)
  case (PList xs)
  then have "rmap (sx_value fl) (map data_form xs) = Inr (map (\<lambda>x. x) xs)"
    by (induction xs) auto
  then show ?case by simp
next
  case (PDict d)
  have "dict_literal fl (concat (map (\<lambda>p. entry_forms (fst p) (data_form (snd p))) e)) out = Inr (fold (\<lambda>(k, v). dict_set k v) e out)"
    if "set e \<subseteq> set d" for e out
    using that PDict by (induction e arbitrary: out) (auto simp: literal_entry list_all_iff split: prod.splits)
  with PDict.prems dict_set_rebuild [of "[]" d] show ?case by simp
qed (auto simp: string_form_def)

text \<open>
  Property C23.  Data without floating-point numbers survives the textual form: a value of JSON built from null, booleans, strings, integers
  of at most 4300 characters, lists and objects (keys distinct) that is written into a data field is read back as one form, whose
  value is the same, with the type of every part and every nested key.  Floating-point numbers, some of which are not read back, are left out.
\<close>

theorem data_read_back:
  assumes "json_value v"
  shows "rbind (read_forms (data_src v)) (rmap (sx_value fl)) = Inr [v]"
  using read_written [OF data_writes [OF assms] data_printable [OF assms]] data_value [OF assms, of fl] by simp

text \<open>
  The text of a floating-point number is read as one only in decimal form; \<open>str\<close> of a small or a large one has an exponent,
  which is read as a symbol, that is as a string.
\<close>

lemma exponent_reads_as_symbol:
  "read_atom ''0.5'' = Inr (SFloat ''0.5'')" "read_atom ''1e-07'' = Inr (SSym ''1e-07'')" "read_atom ''1e+20'' = Inr (SSym ''1e+20'')"
  "sx_value fl (SSym ''1e-07'') = Inr (PStr ''1e-07'')"
  by (simp_all add: read_atom_def int_text_def decimal_text_def unsigned_text_def ascii_digit_def)

section \<open>Conditions are read back\<close>

text \<open>
  A field is written as an expression, without quotes if it can be: a text that reads as something else than a symbol is not
  kept.  An operator is written as it is.
\<close>

definition field_ok :: "pyval \<Rightarrow> bool" where
  "field_ok f =
     (case f of PStr s \<Rightarrow> bare s \<longrightarrow> read_atom s = Inr (SSym s) | PInt i \<Rightarrow> length (int_str i) \<le> 4300
      | PNone \<Rightarrow> True | PBool _ \<Rightarrow> True | _ \<Rightarrow> False)"

definition operator_ok :: "string \<Rightarrow> bool" where
  "operator_ok op \<longleftrightarrow> bare op \<and> read_atom op = Inr (SSym op) \<and> normalize_op op = op"

fun cond_ok :: "scond \<Rightarrow> bool" where
  "cond_ok (SCond f op v) = (field_ok f \<and> operator_ok op \<and> json_value v)"
| "cond_ok (SGroup r cs) = list_all cond_ok cs"

definition field_form :: "pyval \<Rightarrow> sx" where
  "field_form f = (case f of PStr s \<Rightarrow> if bare s then SSym s else SStr s | _ \<Rightarrow> data_form f)"

fun cond_form :: "scond \<Rightarrow> sx" where
  "cond_form (SCond f op v) = SList [SSym ''cond'', field_form f, SSym op, data_form v]"
| "cond_form (SGroup r cs) = SList (SSym (case r of REL_AND \<Rightarrow> ''and'' | REL_OR \<Rightarrow> ''or'') # map cond_form cs)"

lemma field_writes: "field_ok f \<Longrightarrow> writes (expr_src f) [field_form f] \<and> printable (field_form f) \<and> sx_value fl (field_form f) = Inr f"
  using data_writes [of f] data_printable [of f]
  by (cases f) (auto simp: field_ok_def field_form_def string_expr_src_def writes_string intro: writes_atomic [of "SSym s" for s, simplified])

lemma operator_writes: "operator_ok op \<Longrightarrow> writes op [SSym op] \<and> printable (SSym op)"
  using writes_atomic [of "SSym op"] by (simp add: operator_ok_def)

lemma word_printable: "printable (SSym ''cond'')" "printable (SSym ''and'')" "printable (SSym ''or'')"
  by (simp_all add: bare_def atom_char_def is_space_def read_atom_def int_text_def decimal_text_def unsigned_text_def ascii_digit_def)

lemma cond_writes: "cond_ok c \<Longrightarrow> writes (cond_src c) [cond_form c] \<and> printable (cond_form c)"
proof (induction c)
  case (SCond f op v)
  then have f: "writes (expr_src f) [field_form f]" "printable (field_form f)" and op: "writes op [SSym op]" "printable (SSym op)"
    and v: "writes (data_src v) [data_form v]" "printable (data_form v)"
    using field_writes operator_writes data_writes data_printable by auto
  from writes_parens [OF writes_space [OF word_writes(3) writes_space [OF f(1) writes_space [OF op(1) v(1)]]]] f(2) op(2) v(2)
  show ?case using word_printable by simp
next
  case (SGroup r cs)
  then have cs: "list_all2 writes (map cond_src cs) (map (\<lambda>c. [cond_form c]) cs)" and "list_all printable (map cond_form cs)"
    by (auto simp: list_all_iff intro!: list_all2_mapI)
  with writes_parens [OF writes_space [OF word_writes(4) writes_spaced [OF cs]]]
    writes_parens [OF writes_space [OF word_writes(5) writes_spaced [OF cs]]]
  show ?case using word_printable by (cases r) (simp_all add: concat_map_singleton list_all_iff)
qed

lemma cond_compiles: "cond_ok c \<Longrightarrow> compile_condition fl (cond_form c) = Inr c"
proof (induction c)
  case (SCond f op v)
  then show ?case using field_writes [of f fl] data_value [of v fl] by (simp add: operator_ok_def text_of_def)
next
  case (SGroup r cs)
  then have "rmap (compile_condition fl) (map cond_form cs) = Inr (map (\<lambda>c. c) cs)"
    by (induction cs) auto
  then show ?case by (cases r) simp_all
qed

text \<open>
  Property C22.  A condition survives the textual form: groups of any depth, fields that are expressions (texts that do not read as
  another literal, integers, booleans, null), canonical operators and data to compare with that is JSON without floating-point
  numbers are read back as they were.
\<close>

theorem condition_read_back:
  assumes "cond_ok c"
  shows "rbind (read_forms (cond_src c)) (rmap (compile_condition fl)) = Inr [c]"
  using read_written [OF conjunct1 [OF cond_writes [OF assms]] conjunct2 [OF cond_writes [OF assms]]]
    cond_compiles [OF assms, of fl] by simp

text \<open>The operators of \<^verbatim>\<open>plaita/node/decide.py\<close> are canonical.\<close>

fun op_name :: "cond_op \<Rightarrow> string" where
  "op_name OP_EQ = ''eq''" | "op_name OP_NE = ''ne''" | "op_name OP_GT = ''gt''" | "op_name OP_GTE = ''gte''"
| "op_name OP_LT = ''lt''" | "op_name OP_LTE = ''lte''" | "op_name OP_IN = ''in''" | "op_name OP_NOTIN = ''notIn''"
| "op_name OP_CONTAINS = ''contains''" | "op_name OP_NOT_CONTAINS = ''notContains''"
| "op_name OP_TRUTHY = ''truthy''" | "op_name OP_FALSY = ''falsy''"

lemma op_name_ok: "operator_ok (op_name op)"
  by (cases op) (simp_all add: operator_ok_def bare_def atom_char_def is_space_def read_atom_def int_text_def decimal_text_def
      unsigned_text_def ascii_digit_def normalize_op_def OP_ALIASES_def dict_get_Cons)

section \<open>Negation\<close>

text \<open>The compiled form of a condition that \<^verbatim>\<open>decide.py\<close> evaluates.\<close>

fun compiled_cond :: "condition \<Rightarrow> scond" where
  "compiled_cond (Condition f op v) = SCond f (op_name op) v"
| "compiled_cond (ConditionGroup r cs) = SGroup r (map compiled_cond cs)"

fun dict_free :: "pyval \<Rightarrow> bool" where
  "dict_free (PList xs) = list_all dict_free xs"
| "dict_free (PTuple xs) = list_all dict_free xs"
| "dict_free (PDict d) = False"
| "dict_free v = True"

text \<open>Operands with a value, and groups with a member; operands that are ordered hold no dictionaries.\<close>

definition ordering :: "cond_op \<Rightarrow> bool" where
  "ordering op \<longleftrightarrow> op \<in> {OP_GT, OP_GTE, OP_LT, OP_LTE}"

fun well_defined :: "(pyval \<Rightarrow> exc + pyval) \<Rightarrow> condition \<Rightarrow> bool" where
  "well_defined ev (Condition f op v) =
     (case (ev f, ev v) of
        (Inr x, Inr y) \<Rightarrow> (op \<in> {OP_EQ, OP_NE} \<or> x \<noteq> PNone \<and> y \<noteq> PNone) \<and> (ordering op \<longrightarrow> dict_free x \<and> dict_free y)
      | _ \<Rightarrow> False)"
| "well_defined ev (ConditionGroup r cs) = (cs \<noteq> [] \<and> list_all (well_defined ev) cs)"

fun flip :: "cond_op \<Rightarrow> cond_op" where
  "flip OP_GT = OP_LTE"
| "flip OP_GTE = OP_LT"
| "flip OP_LT = OP_GTE"
| "flip OP_LTE = OP_GT"
| "flip op = opposite op"

fun negated :: "condition \<Rightarrow> condition" where
  "negated (Condition f op v) = Condition f (flip op) v"
| "negated (ConditionGroup r cs) = ConditionGroup (case r of REL_AND \<Rightarrow> REL_OR | REL_OR \<Rightarrow> REL_AND) (map negated cs)"

lemma negations: "dict_get OP_NEGATIONS (op_name op) = (if op = OP_TRUTHY \<or> op = OP_FALSY then None else Some (op_name (flip op)))"
  by (cases op) (simp_all add: OP_NEGATIONS_def dict_get_Cons)

lemma negate_compiled: "negate_condition (compiled_cond C) = Inr d \<Longrightarrow> d = compiled_cond (negated C)"
proof (induction C arbitrary: d)
  case (ConditionGroup r cs)
  have "rmap negate_condition (map compiled_cond cs) = Inr ds \<Longrightarrow> ds = map compiled_cond (map negated cs)" for ds
    using ConditionGroup.IH by (induction cs arbitrary: ds) (fastforce simp: rbind_eq_Inr_iff)+
  with ConditionGroup.prems show ?case by (auto simp: rbind_eq_Inr_iff split: relation.splits)
qed (auto simp: negations split: if_splits)

lemma py_eq_list_sym:
  "(\<And>x y. x \<in> set xs \<Longrightarrow> y \<in> set ys \<Longrightarrow> py_eq x y = py_eq y x) \<Longrightarrow> py_eq_list xs ys = py_eq_list ys xs"
  by (induction xs ys rule: list_induct2') auto

lemma py_eq_flat: "dict_free x \<Longrightarrow> dict_free y \<Longrightarrow> py_eq x y = py_eq y x"
proof (induction x arbitrary: y)
  case (PList xs)
  then show ?case by (cases y) (auto simp: list_all_iff intro!: py_eq_list_sym)
next
  case (PTuple xs)
  then show ?case by (cases y) (auto simp: list_all_iff intro!: py_eq_list_sym)
qed (case_tac y; auto)+

text \<open>\<open><=\<close> is the complement of \<open>>\<close>, on errors too.\<close>

lemma py_le_list_not_lt:
  "(\<And>x y. x \<in> set xs \<Longrightarrow> y \<in> set ys \<Longrightarrow> py_eq x y = py_eq y x \<and> py_le x y = rbind (py_lt y x) (\<lambda>b. Inr (\<not> b)))
     \<Longrightarrow> py_le_list xs ys = rbind (py_lt_list ys xs) (\<lambda>b. Inr (\<not> b))"
  by (induction xs ys rule: list_induct2') auto

lemma py_le_not_lt: "dict_free x \<Longrightarrow> dict_free y \<Longrightarrow> py_le x y = rbind (py_lt y x) (\<lambda>b. Inr (\<not> b))"
proof (induction x arbitrary: y)
  case (PList xs)
  then show ?case by (cases y) (auto simp: list_all_iff py_eq_flat intro!: py_le_list_not_lt)
next
  case (PTuple xs)
  then show ?case by (cases y) (auto simp: list_all_iff py_eq_flat intro!: py_le_list_not_lt)
qed (case_tac y; auto simp: not_less)+

lemma flipped_matcher:
  assumes "ordering op \<Longrightarrow> dict_free x \<and> dict_free y" and "op \<noteq> OP_TRUTHY" and "op \<noteq> OP_FALSY"
    and "condition_matcher op x y = Inr b"
  shows "condition_matcher (flip op) x y = Inr (\<not> b)"
  using assms py_le_not_lt [of x y] py_le_not_lt [of y x]
  by (cases op) (auto simp: ordering_def rbind_eq_Inr_iff)

lemma flipped_condition:
  assumes "well_defined ev (Condition f op v)" and "op \<noteq> OP_TRUTHY" and "op \<noteq> OP_FALSY" and "match_condition ev f op v = Inr b"
  shows "match_condition ev f (flip op) v = Inr (\<not> b)"
proof -
  from assms(1) obtain x y where xy: "ev f = Inr x" "ev v = Inr y" by (auto split: sum.splits)
  show ?thesis
  proof (cases "x = PNone \<or> y = PNone")
    case True
    with assms xy show ?thesis by (cases op) (auto simp: match_condition_def ordering_def)
  next
    case False
    with assms xy have "condition_matcher op x y = Inr b"
      by (simp add: match_condition_def lift_py_def split: sum.splits)
    with assms xy have "condition_matcher (flip op) x y = Inr (\<not> b)"
      by (intro flipped_matcher) auto
    moreover have "flip op \<noteq> OP_TRUTHY" "flip op \<noteq> OP_FALSY" using assms(2,3) by (cases op; simp)+
    ultimately show ?thesis using False xy by (simp add: match_condition_def lift_py_def)
  qed
qed

lemma negated_match:
  "well_defined ev C \<Longrightarrow> negate_condition (compiled_cond C) = Inr d \<Longrightarrow> match ev C = Inr b \<Longrightarrow> match ev (negated C) = Inr (\<not> b)"
proof (induction C arbitrary: d b)
  case (Condition f op v)
  then show ?case using flipped_condition by (simp add: negations split: if_splits)
next
  case (ConditionGroup r cs)
  have "rmap (match ev) (map negated cs) = Inr (map Not bs)"
    if "rmap (match ev) cs = Inr bs" "rmap negate_condition (map compiled_cond cs) = Inr ds" for bs ds
    using ConditionGroup.IH ConditionGroup.prems(1) that
    by (induction cs arbitrary: bs ds) (fastforce simp: rbind_eq_Inr_iff)+
  with ConditionGroup.prems show ?case
    by (cases r) (auto simp: rbind_eq_Inr_iff list_all_iff list_ex_iff)
qed

text \<open>
  The negation that \<open>not\<close> compiles to is the complement: where the operands of a condition have a value, no
  group is empty and the condition evaluates, the compiled negation is the compiled form of a condition with the other result.
\<close>

theorem negation_is_complement:
  assumes "negate_condition (compiled_cond C) = Inr d" and "well_defined ev C" and "match ev C = Inr b"
  shows "d = compiled_cond (negated C) \<and> match ev (negated C) = Inr (\<not> b)"
  using negate_compiled [OF assms(1)] negated_match [OF assms(2,1,3)] by simp

text \<open>Without a value neither a condition nor its negation holds, and an empty group holds either way.\<close>

lemma negation_of_absent:
  "match (\<lambda>x. Inr x) (Condition PNone OP_GTE (PInt 18)) = Inr False
     \<and> match (\<lambda>x. Inr x) (negated (Condition PNone OP_GTE (PInt 18))) = Inr False
     \<and> match (\<lambda>x. Inr x) (ConditionGroup r []) = Inr True \<and> match (\<lambda>x. Inr x) (negated (ConditionGroup r [])) = Inr True"
  by (simp add: match_condition_def)

section \<open>Error handlers are read back\<close>

text \<open>A handler as \<open>_compile_error_handler\<close> builds it: strategy, retries, default value, code and message.\<close>

record handler =
  hd_strategy :: string
  hd_retry :: "int option"
  hd_default :: "pyval option"
  hd_code :: "int option"
  hd_message :: "string option"

definition opt_field :: "string \<Rightarrow> ('a \<Rightarrow> pyval) \<Rightarrow> 'a option \<Rightarrow> pyval dict" where
  "opt_field k f x = (case x of None \<Rightarrow> [] | Some y \<Rightarrow> [(k, f y)])"

definition handler_dict :: "handler \<Rightarrow> pyval dict" where
  "handler_dict h =
     (''strategy'', PStr (hd_strategy h)) # opt_field ''retryTimes'' PInt (hd_retry h) @ opt_field ''defaultValue'' (\<lambda>v. v) (hd_default h)
       @ opt_field ''errorCode'' PInt (hd_code h) @ opt_field ''errorMessage'' PStr (hd_message h)"

definition handler_ok :: "handler \<Rightarrow> bool" where
  "handler_ok h \<longleftrightarrow>
     hd_strategy h \<in> set [''abort'', ''continue'', ''continue_with'', ''continue-with'']
     \<and> list_all (\<lambda>x. case x of None \<Rightarrow> True | Some i \<Rightarrow> json_value (PInt i)) [hd_retry h, hd_code h]
     \<and> (case hd_default h of None \<Rightarrow> True | Some v \<Rightarrow> v \<noteq> PNone \<and> json_value v)"

definition opt_form :: "string \<Rightarrow> ('a \<Rightarrow> sx) \<Rightarrow> 'a option \<Rightarrow> sx list" where
  "opt_form k f x = (case x of None \<Rightarrow> [] | Some y \<Rightarrow> [SKw k, f y])"

definition handler_form :: "string \<Rightarrow> handler \<Rightarrow> sx" where
  "handler_form head h =
     SList ([SSym head, SSym (hd_strategy h)] @ opt_form ''retry'' SInt (hd_retry h) @ opt_form ''default'' data_form (hd_default h)
       @ opt_form ''code'' SInt (hd_code h) @ opt_form ''msg'' string_form (hd_message h))"

text \<open>Parts that write list_members in order.\<close>

definition writes_all :: "string list \<Rightarrow> sx list \<Rightarrow> bool" where
  "writes_all ss xs \<longleftrightarrow> (\<exists>xss. list_all2 writes ss xss \<and> concat xss = xs)"

lemma writes_all_append: "writes_all ss xs \<Longrightarrow> writes_all ts ys \<Longrightarrow> writes_all (ss @ ts) (xs @ ys)"
  unfolding writes_all_def by (metis concat_append list_all2_appendI)

lemma writes_all_parens: "writes_all ss xs \<Longrightarrow> writes (parens ss) [SList xs]"
  using writes_spaced writes_parens by (auto simp: writes_all_def parens_def)

lemma writes_all_one: "writes s xs \<Longrightarrow> writes_all [s] xs"
  unfolding writes_all_def by (intro exI [of _ "[xs]"]) simp

lemma writes_all_two: "writes s [x] \<Longrightarrow> writes t [y] \<Longrightarrow> writes_all [s, t] [x, y]"
  unfolding writes_all_def by (intro exI [of _ "[[x], [y]]"]) simp

lemma writes_all_Nil: "writes_all [] []"
  by (simp add: writes_all_def)

lemma writes_keyword: "bare k \<Longrightarrow> writes s [x] \<Longrightarrow> writes (CHR '':'' # k @ CHR '' '' # s) [SKw k, x]"
  using writes_space [of "CHR '':'' # k" "[SKw k]" s "[x]"] writes_atomic [of "SKw k"] by (simp add: bare_def)

lemma writes_opt:
  assumes "bare k" and "\<And>y. x = Some y \<Longrightarrow> writes (g (f y)) [q y]"
  shows "writes_all (case map_option f x of None \<Rightarrow> [] | Some v \<Rightarrow> [CHR '':'' # k @ CHR '' '' # g v]) (opt_form k q x)"
  using assms writes_keyword [of k] by (cases x) (auto simp: opt_form_def intro: writes_all_one writes_all_Nil)

lemma handler_fields:
  "dict_get (handler_dict h) ''strategy'' = Some (PStr (hd_strategy h))"
  "dict_get (handler_dict h) ''retryTimes'' = map_option PInt (hd_retry h)"
  "dict_get (handler_dict h) ''defaultValue'' = map_option (\<lambda>v. v) (hd_default h)"
  "dict_get (handler_dict h) ''errorCode'' = map_option PInt (hd_code h)"
  "dict_get (handler_dict h) ''errorMessage'' = map_option PStr (hd_message h)"
  by (simp_all add: handler_dict_def opt_field_def dict_get_Cons split: option.splits)

lemma head_words:
  "writes ''on-error'' [SSym ''on-error''] \<and> printable (SSym ''on-error'')"
  "writes ''on-timeout'' [SSym ''on-timeout''] \<and> printable (SSym ''on-timeout'')"
  "writes ''abort'' [SSym ''abort''] \<and> printable (SSym ''abort'')"
  "writes ''continue'' [SSym ''continue''] \<and> printable (SSym ''continue'')"
  "writes ''continue_with'' [SSym ''continue_with''] \<and> printable (SSym ''continue_with'')"
  "writes ''continue-with'' [SSym ''continue-with''] \<and> printable (SSym ''continue-with'')"
  using writes_atomic [of "SSym ''on-error''"] writes_atomic [of "SSym ''on-timeout''"] writes_atomic [of "SSym ''abort''"]
    writes_atomic [of "SSym ''continue''"] writes_atomic [of "SSym ''continue_with''"] writes_atomic [of "SSym ''continue-with''"]
  by (simp_all add: bare_def atom_char_def is_space_def read_atom_def int_text_def decimal_text_def unsigned_text_def ascii_digit_def)

lemma handler_words:
  "handler_ok h \<Longrightarrow> writes (hd_strategy h) [SSym (hd_strategy h)] \<and> printable (SSym (hd_strategy h))"
  unfolding handler_ok_def using head_words by (auto simp del: printable.simps)

lemma keyword_words: "bare ''retry'' \<and> bare ''default'' \<and> bare ''code'' \<and> bare ''msg''"
  by (simp add: bare_def atom_char_def is_space_def)

lemma handler_writes:
  assumes "handler_ok h" and "head \<in> set [''on-error'', ''on-timeout'']"
  shows "writes (error_handler_src head (handler_dict h)) [handler_form head h]"
proof -
  have i: "writes (py_str (PInt i)) [SInt i]" if "hd_retry h = Some i \<or> hd_code h = Some i" for i
    using assms(1) that writes_atomic [of "SInt i"] by (elim disjE) (simp_all add: handler_ok_def)
  have v: "hd_default h = Some v \<Longrightarrow> writes (data_src v) [data_form v]" for v
    using assms(1) data_writes [of v] by (simp add: handler_ok_def)
  have m: "hd_message h = Some t \<Longrightarrow> writes (data_src (PStr t)) [string_form t]" for t
    using data_writes [of "PStr t"] by simp
  have hs: "writes head [SSym head]" "writes (hd_strategy h) [SSym (hd_strategy h)]"
    using head_words(1,2) handler_words [OF assms(1)] assms(2) by auto
  have "writes_all (opt_src (handler_dict h) ''retryTimes'' ''retry'' py_str) (opt_form ''retry'' SInt (hd_retry h))"
    unfolding opt_src_def handler_fields using keyword_words i by (intro writes_opt) auto
  moreover have "writes_all (opt_src (handler_dict h) ''defaultValue'' ''default'' data_src) (opt_form ''default'' data_form (hd_default h))"
    unfolding opt_src_def handler_fields using keyword_words v by (intro writes_opt) auto
  moreover have "writes_all (opt_src (handler_dict h) ''errorCode'' ''code'' py_str) (opt_form ''code'' SInt (hd_code h))"
    unfolding opt_src_def handler_fields using keyword_words i by (intro writes_opt) auto
  moreover have "writes_all (opt_src (handler_dict h) ''errorMessage'' ''msg'' data_src) (opt_form ''msg'' string_form (hd_message h))"
    unfolding opt_src_def handler_fields using keyword_words m by (intro writes_opt) auto
  ultimately show ?thesis
    unfolding error_handler_src_def handler_fields handler_form_def
    using hs by (intro writes_all_parens writes_all_append) (simp_all add: writes_all_two)
qed

lemma printable_list: "printable (SList xs) \<longleftrightarrow> list_all printable xs"
  by simp

lemma handler_printable:
  assumes "handler_ok h" and "head \<in> set [''on-error'', ''on-timeout'']"
  shows "printable (handler_form head h)"
proof -
  have "list_all printable (opt_form ''retry'' SInt (hd_retry h))" "list_all printable (opt_form ''code'' SInt (hd_code h))"
    using assms(1) by (auto simp: opt_form_def handler_ok_def atom_char_def is_space_def split: option.splits)
  moreover have "list_all printable (opt_form ''default'' data_form (hd_default h))"
    using assms(1) data_printable by (auto simp: opt_form_def handler_ok_def atom_char_def is_space_def split: option.splits)
  moreover have "list_all printable (opt_form ''msg'' string_form (hd_message h))"
    using data_printable [of "PStr t" for t] by (auto simp: opt_form_def atom_char_def is_space_def split: option.splits)
  ultimately show ?thesis
    unfolding handler_form_def printable_list
    using head_words(1,2) handler_words [OF assms(1)] assms(2) by (auto simp del: printable.simps)
qed

lemma raw_string_form [simp]: "raw fl (string_form s) = PStr s"
  by (simp add: string_form_def)

lemma data_form_None: "json_value v \<Longrightarrow> data_form v = SNone \<longleftrightarrow> v = PNone"
  by (cases v) (auto simp: string_form_def)

lemma string_form_value: "string_form s \<noteq> SNone"
  by (simp add: string_form_def)

definition opt_kw :: "string \<Rightarrow> ('a \<Rightarrow> sx) \<Rightarrow> 'a option \<Rightarrow> sx dict" where
  "opt_kw k f x = (case x of None \<Rightarrow> [] | Some y \<Rightarrow> [(k, f y)])"

fun list_members :: "sx \<Rightarrow> sx list" where
  "list_members (SList xs) = xs"
| "list_members x = []"

lemma split_handler:
  "kw_alias s = None \<Longrightarrow>
     split_args ([SSym s] @ opt_form ''retry'' p r @ opt_form ''default'' q v @ opt_form ''code'' t c @ opt_form ''msg'' u m)
     = Inr ([SSym s], opt_kw ''retry'' p r @ opt_kw ''default'' q v @ opt_kw ''code'' t c @ opt_kw ''msg'' u m)"
  by (cases r; cases v; cases c; cases m) (simp_all add: split_args_def opt_form_def opt_kw_def dict_set_def)

lemma handler_compiles:
  assumes "handler_ok h" and "head \<in> set [''on-error'', ''on-timeout'']"
  shows "compile_error_handler fl (handler_form head h) = Inr (PDict (handler_dict h))"
proof -
  have s: "kw_alias (hd_strategy h) = None" "hd_strategy h \<in> set [''abort'', ''continue'', ''continue_with'', ''continue-with'']"
    using assms(1) by (auto simp: handler_ok_def kw_alias_def)
  have v: "hd_default h = Some v \<Longrightarrow> data_form v \<noteq> SNone \<and> sx_value fl (data_form v) = Inr v" for v
    using assms(1) data_value [of v fl] data_form_None [of v] by (auto simp: handler_ok_def)
  let ?kw = "opt_kw ''retry'' SInt (hd_retry h) @ opt_kw ''default'' data_form (hd_default h) @ opt_kw ''code'' SInt (hd_code h)
    @ opt_kw ''msg'' string_form (hd_message h)"
  have args: "headed [''on-error'', ''on-timeout''] (handler_form head h) = Inr (tl (list_members (handler_form head h)))"
      "split_args (tl (list_members (handler_form head h))) = Inr ([SSym (hd_strategy h)], ?kw)"
    using assms(2) split_handler [OF s(1)] by (auto simp: handler_form_def)
  have fields: "dict_get ?kw ''retry'' = map_option SInt (hd_retry h)" "dict_get ?kw ''retry-times'' = None"
    "dict_get ?kw ''default'' = map_option data_form (hd_default h)" "dict_get ?kw ''default-value'' = None"
    "dict_get ?kw ''code'' = map_option SInt (hd_code h)" "dict_get ?kw ''error-code'' = None"
    "dict_get ?kw ''msg'' = map_option string_form (hd_message h)" "dict_get ?kw ''message'' = None" "dict_get ?kw ''error-message'' = None"
    by (simp_all add: opt_kw_def dict_get_Cons split: option.splits)
  have s2: "need (text_of fl (SSym (hd_strategy h)) \<in> set [''abort'', ''continue'', ''continue_with'', ''continue-with'']) = Inr ()"
    "text_of fl (SSym (hd_strategy h)) = hd_strategy h"
    using s(2) by (simp_all add: text_of_def need_def)
  show ?thesis
    unfolding compile_error_handler_def args rbind_Inr split Let_def opt.simps fields reject_caps_none_def
    using s2 v
    by (cases "hd_retry h"; cases "hd_default h"; cases "hd_code h"; cases "hd_message h")
       (simp_all add: need_def put_field_def opt_kw_def dict_get_Cons handler_dict_def opt_field_def dict_set_def as_raw_def string_form_value)
qed

text \<open>
  An error handler survives the textual form: strategy, number of retries, any default value that is data, error code
  and message are read back as they were, under either head.
\<close>

theorem handler_read_back:
  assumes "handler_ok h" and "head \<in> set [''on-error'', ''on-timeout'']"
  shows "rbind (read_forms (error_handler_src head (handler_dict h))) (rmap (compile_error_handler fl)) = Inr [PDict (handler_dict h)]"
  using read_written [OF handler_writes [OF assms] handler_printable [OF assms]] handler_compiles [OF assms, of fl] by simp

theorem handler_read_back_witness:
  "rbind (read_forms (error_handler_src ''on-error'' (handler_dict
       \<lparr>hd_strategy = ''continue'', hd_retry = Some 2, hd_default = Some (PStr ''true''), hd_code = None, hd_message = Some ''a b''\<rparr>)))
     (rmap (compile_error_handler no_floats))
   = Inr [PDict [(''strategy'', PStr ''continue''), (''retryTimes'', PInt 2), (''defaultValue'', PStr ''true''), (''errorMessage'', PStr ''a b'')]]"
proof -
  let ?h = "\<lparr>hd_strategy = ''continue'', hd_retry = Some 2, hd_default = Some (PStr ''true''), hd_code = None, hd_message = Some ''a b''\<rparr>"
  have "handler_ok ?h" by (simp add: handler_ok_def int_str_def nat_str.simps [of 2])
  from handler_read_back [OF this, of "''on-error''" no_floats] show ?thesis by (simp add: handler_dict_def opt_field_def)
qed

theorem data_read_back_witness:
  "rbind (read_forms (data_src (PDict [(''a b'', PList [PStr ''true'', PStr ''$x'', PInt (-7)]), (''n'', PNone)]))) (rmap (sx_value no_floats))
     = Inr [PDict [(''a b'', PList [PStr ''true'', PStr ''$x'', PInt (-7)]), (''n'', PNone)]]"
proof -
  have "json_value (PDict [(''a b'', PList [PStr ''true'', PStr ''$x'', PInt (-7)]), (''n'', PNone)])"
    by (simp add: dict_wf_def int_str_def nat_str.simps [of 7])
  from data_read_back [OF this, of no_floats] show ?thesis .
qed

theorem condition_read_back_witness:
  "rbind (read_forms (cond_src (SGroup REL_OR [SCond (PStr ''$age'') ''gte'' (PInt 18), SCond (PStr ''$tag'') ''in'' (PList [PStr ''a''])])))
     (rmap (compile_condition no_floats))
   = Inr [SGroup REL_OR [SCond (PStr ''$age'') ''gte'' (PInt 18), SCond (PStr ''$tag'') ''in'' (PList [PStr ''a''])]]"
proof -
  have "cond_ok (SGroup REL_OR [SCond (PStr ''$age'') ''gte'' (PInt 18), SCond (PStr ''$tag'') ''in'' (PList [PStr ''a''])])"
    using op_name_ok [of OP_GTE] op_name_ok [of OP_IN] expression_symbol [of "''$age''"] expression_symbol [of "''$tag''"]
    by (simp add: field_ok_def int_str_def expression_string_def nat_str.simps [of 18] nat_str.simps [of "Suc 0"])
  from condition_read_back [OF this, of no_floats] show ?thesis .
qed

theorem negation_is_complement_witness:
  "match Inr (ConditionGroup REL_AND [Condition (PInt 20) OP_GTE (PInt 18), Condition (PStr ''a'') OP_EQ (PStr ''b'')]) = Inr False
     \<and> negate_condition (compiled_cond (ConditionGroup REL_AND [Condition (PInt 20) OP_GTE (PInt 18), Condition (PStr ''a'') OP_EQ (PStr ''b'')]))
         = Inr (SGroup REL_OR [SCond (PInt 20) ''lt'' (PInt 18), SCond (PStr ''a'') ''ne'' (PStr ''b'')])
     \<and> match Inr (negated (ConditionGroup REL_AND [Condition (PInt 20) OP_GTE (PInt 18), Condition (PStr ''a'') OP_EQ (PStr ''b'')]))
         = Inr True"
proof -
  let ?C = "ConditionGroup REL_AND [Condition (PInt 20) OP_GTE (PInt 18), Condition (PStr ''a'') OP_EQ (PStr ''b'')]"
  have n: "negate_condition (compiled_cond ?C) = Inr (SGroup REL_OR [SCond (PInt 20) ''lt'' (PInt 18), SCond (PStr ''a'') ''ne'' (PStr ''b'')])"
    by (simp add: OP_NEGATIONS_def dict_get_Cons)
  have m: "match Inr ?C = Inr False" by (simp add: match_condition_def lift_py_def)
  have "well_defined Inr ?C" by simp
  from negation_is_complement [OF n this m] n m show ?thesis by simp
qed

end
