(* ===== verification/Flow_Validate.thy ===== *)
theory Flow_Validate
  imports Py_Text
begin

text \<open>
  \<^verbatim>\<open>plaita/dsl/ir_validate.py\<close>: the validation of flow documents before they are built, shared by all front ends.
  Graphs and their reachability, the structural checks of every node, the rules with their scans for references, and the
  recursion over nested flows.  Texts of messages are left out: a violation keeps what the message names.  The results that
  \<open>FlowIRGraph\<close> caches are computed at each use, which cannot be observed, since nothing changes a document while it is
  validated.  The names of the registered functions and the construction of a \<open>Property\<close> are arguments.
\<close>

section \<open>Violations\<close>

datatype verdict =
    No_Start nat
  | Unreachable "string list"
  | No_End
  | Unknown_Joins "string list"
  | Unknown_Nodes "string list"
  | Unknown_Functions "string list"
  | Wrong_Literal pyval
  | Forbidden_Type pyval
  | Verdict string

datatype violation =
    Not_A_Dict
  | Nodes_Not_A_List
  | Duplicate_Ids "pyval list"
  | No_Such_Target pyval string pyval
  | No_Child_Flow pyval pyval
  | No_True_Branch pyval
  | No_False_Branch pyval
  | No_Default_Branch pyval
  | Rule_Violated verdict

text \<open>\<open>FlowIRValidationError\<close> with its path, or the \<open>TypeError\<close> of a value that is iterated or hashed and cannot be.\<close>

datatype ir_error = Ir_Error violation string | Ir_Type_Error

section \<open>Documents\<close>

text \<open>\<open>d.get(k)\<close>, \<open>a or b\<close>, and \<open>x in s\<close> for a set \<open>s\<close>.\<close>

abbreviation field_of :: "pyval dict \<Rightarrow> string \<Rightarrow> pyval" where
  "field_of d k \<equiv> pget d k PNone"

definition py_or :: "pyval \<Rightarrow> pyval \<Rightarrow> pyval" where
  "py_or a b = (if truthy a then a else b)"

definition in_set :: "pyval \<Rightarrow> pyval list \<Rightarrow> ir_error + bool" where
  "in_set x s = (if hashable x then Inr (list_ex (py_eq x) s) else Inl Ir_Type_Error)"

text \<open>\<open>for x in v or []\<close>.\<close>

definition iter_items :: "pyval \<Rightarrow> ir_error + pyval list" where
  "iter_items v =
     (if \<not> truthy v then Inr []
      else (case v of
              PList xs \<Rightarrow> Inr xs
            | PTuple xs \<Rightarrow> Inr xs
            | PStr s \<Rightarrow> Inr (map (\<lambda>c. PStr [c]) s)
            | PDict d \<Rightarrow> Inr (map (\<lambda>p. PStr (fst p)) d)
            | _ \<Rightarrow> Inl Ir_Type_Error))"

fun dicts_in :: "pyval list \<Rightarrow> pyval dict list" where
  "dicts_in [] = []"
| "dicts_in (PDict d # xs) = d # dicts_in xs"
| "dicts_in (x # xs) = dicts_in xs"

definition str_list :: "pyval \<Rightarrow> string list" where
  "str_list v = (case v of PStr s \<Rightarrow> [s] | _ \<Rightarrow> [])"

text \<open>A loop whose body may raise.\<close>

fun each :: "('a \<Rightarrow> 'e + unit) \<Rightarrow> 'a list \<Rightarrow> 'e + unit" where
  "each f [] = Inr ()"
| "each f (x # xs) = rbind (f x) (\<lambda>_. each f xs)"

section \<open>Graphs\<close>

record ir_graph =
  gr_path :: string
  gr_nodes :: "pyval list"
  gr_host :: "pyval dict option"
  gr_ancestors :: "pyval dict list"

definition CHILD_FLOW_REQUIRED :: "pyval list" where
  "CHILD_FLOW_REQUIRED = map PStr [''child'', ''loop'', ''while'', ''map'', ''filter'', ''find'', ''reduce'']"

definition graph_ids :: "ir_graph \<Rightarrow> string list" where
  "graph_ids g = filter (\<lambda>i. i \<noteq> []) (concat (map (\<lambda>n. str_list (field_of n ''id'')) (dicts_in (gr_nodes g))))"

definition graph_start :: "ir_graph \<Rightarrow> pyval dict option" where
  "graph_start g = find (\<lambda>n. field_of n ''type'' = PStr ''start'') (dicts_in (gr_nodes g))"

definition node_by_id :: "pyval list \<Rightarrow> string \<Rightarrow> pyval dict option" where
  "node_by_id ns i = find (\<lambda>n. field_of n ''id'' = PStr i) (dicts_in ns)"

definition branch_targets :: "pyval dict \<Rightarrow> string list" where
  "branch_targets b = str_list (field_of b ''next'') @ str_list (field_of b ''name'')"

definition case_targets :: "pyval dict \<Rightarrow> string list" where
  "case_targets c = str_list (py_or (field_of c ''id'') (field_of c ''next''))"

text \<open>\<open>_iter_edge_targets\<close>.\<close>

definition edge_targets :: "pyval dict \<Rightarrow> ir_error + string list" where
  "edge_targets n =
     rbind (iter_items (field_of n ''branches'')) (\<lambda>bs.
     rbind (iter_items (field_of n ''cases'')) (\<lambda>cs.
       Inr (concat (map (\<lambda>k. str_list (field_of n k)) [''next'', ''else_next'', ''elseNext'', ''default''])
         @ concat (map branch_targets (dicts_in bs)) @ concat (map case_targets (dicts_in cs)))))"

lemma node_by_id_Some: "node_by_id ns i = Some n \<Longrightarrow> n \<in> set (dicts_in ns) \<and> field_of n ''id'' = PStr i"
  by (auto simp: node_by_id_def dest: find_SomeD)

lemma finite_known: "finite {c. node_by_id ns c \<noteq> None}"
proof (rule finite_surj [of "set (dicts_in ns)" _ "\<lambda>n. hd (str_list (field_of n ''id''))"])
  show "{c. node_by_id ns c \<noteq> None} \<subseteq> (\<lambda>n. hd (str_list (field_of n ''id''))) ` set (dicts_in ns)"
    by (force dest: node_by_id_Some simp: str_list_def)
qed simp

text \<open>The search of \<open>reachable_from_start\<close>; the top of the stack is its head.\<close>

function search :: "pyval list \<Rightarrow> string list \<Rightarrow> string list \<Rightarrow> ir_error + string list" where
  "search ns [] seen = Inr seen"
| "search ns (c # st) seen =
     (if c \<in> set seen then search ns st seen
      else (case node_by_id ns c of
              None \<Rightarrow> search ns st (c # seen)
            | Some n \<Rightarrow> (case edge_targets n of Inl e \<Rightarrow> Inl e | Inr ts \<Rightarrow> search ns (rev ts @ st) (c # seen))))"
  by pat_completeness auto
termination
proof (relation "measures [\<lambda>(ns, st, seen). card ({c. node_by_id ns c \<noteq> None} - set seen), \<lambda>(ns, st, seen). length st]", goal_cases)
  case 1
  show ?case by simp
next
  case (2 ns c st seen)
  then show ?case by simp
next
  case (3 ns c st seen)
  then have "{c. node_by_id ns c \<noteq> None} - set (c # seen) = {c. node_by_id ns c \<noteq> None} - set seen" by auto
  then show ?case by simp
next
  case (4 ns c st seen n ts)
  have "finite ({c. node_by_id ns c \<noteq> None} - set seen)" by (intro finite_Diff finite_known)
  moreover have "{c. node_by_id ns c \<noteq> None} - set (c # seen) \<subset> {c. node_by_id ns c \<noteq> None} - set seen"
    using 4 by auto
  ultimately have "card ({c. node_by_id ns c \<noteq> None} - set (c # seen)) < card ({c. node_by_id ns c \<noteq> None} - set seen)"
    by (rule psubset_card_mono)
  then show ?case by (simp only: in_measures prod.case simp_thms)
qed

definition reachable_from_start :: "ir_graph \<Rightarrow> ir_error + string list" where
  "reachable_from_start g =
     (case graph_start g of None \<Rightarrow> Inr [] | Some n \<Rightarrow> search (gr_nodes g) (str_list (field_of n ''id'')) [])"

definition has_start :: "ir_graph \<Rightarrow> ir_error + bool" where
  "has_start g = rbind (reachable_from_start g) (\<lambda>_. Inr (graph_start g \<noteq> None))"

fun any_of :: "('a \<Rightarrow> 'e + bool) \<Rightarrow> 'a list \<Rightarrow> 'e + bool" where
  "any_of f [] = Inr False"
| "any_of f (x # xs) = rbind (f x) (\<lambda>b. if b then Inr True else any_of f xs)"

definition in_childflow_subtree :: "ir_graph \<Rightarrow> ir_error + bool" where
  "in_childflow_subtree g = any_of (\<lambda>a. in_set (field_of a ''type'') CHILD_FLOW_REQUIRED) (gr_ancestors g)"

section \<open>Rules\<close>

type_synonym ir_rule = "pyval dict \<Rightarrow> string \<Rightarrow> ir_graph \<Rightarrow> ir_error + verdict option"

definition check_flow_entry_and_reachability :: ir_rule where
  "check_flow_entry_and_reachability n p g =
     (if gr_nodes g = [] then Inr None
      else rbind (has_start g) (\<lambda>hs.
        if \<not> hs then Inl (Ir_Error (Rule_Violated (No_Start (length (gr_nodes g)))) (gr_path g))
        else rbind (reachable_from_start g) (\<lambda>rs.
          let un = sort (remdups (filter (\<lambda>i. i \<notin> set rs) (graph_ids g))) in
          if un \<noteq> [] then Inl (Ir_Error (Rule_Violated (Unreachable un)) (gr_path g)) else Inr None)))"

definition check_childflow_reachable_end :: ir_rule where
  "check_childflow_reachable_end n p g =
     (if gr_host g = None \<or> gr_nodes g = [] then Inr None
      else rbind (has_start g) (\<lambda>hs.
        if \<not> hs then Inr None
        else rbind (reachable_from_start g) (\<lambda>rs.
          rbind (any_of (\<lambda>m. if field_of m ''type'' = PStr ''end'' then in_set (field_of m ''id'') (map PStr rs) else Inr False)
              (dicts_in (gr_nodes g))) (\<lambda>found.
            if found then Inr None else Inl (Ir_Error (Rule_Violated No_End) (gr_path g))))))"

definition joins_known :: "pyval dict \<Rightarrow> pyval list \<Rightarrow> ir_error + verdict option" where
  "joins_known n js =
     (if js = [] then Inr None
      else rbind (iter_items (field_of n ''branches'')) (\<lambda>bs.
        let known = concat (map (\<lambda>b. str_list (field_of b ''name'')) (dicts_in bs));
            bad = filter (\<lambda>j. j \<notin> set known) (concat (map str_list js)) in
        Inr (if bad = [] then None else Some (Unknown_Joins bad))))"

definition check_parallel_join_branches :: ir_rule where
  "check_parallel_join_branches n p g =
     (if field_of n ''type'' \<noteq> PStr ''parallel'' then Inr None
      else (case py_or (field_of n ''joinBranches'') (field_of n ''join_branches'') of
              PList js \<Rightarrow> joins_known n js
            | PTuple js \<Rightarrow> joins_known n js
            | _ \<Rightarrow> Inr None))"

section \<open>References\<close>

text \<open>\<open>_NODE_REF_RE\<close> and \<open>_FUNC_REF_RE\<close> at one position: the name that is found, and the length of the match.\<close>

definition node_ref_at :: "string \<Rightarrow> (string \<times> nat) option" where
  "node_ref_at s =
     (if Sublist.prefix ''$NODE.'' s then
        (let k = takeWhile (\<lambda>c. is_key_char c \<or> c = CHR ''-'') (drop 6 s) in if k = [] then None else Some (k, 6 + length k))
      else None)"

definition func_ref_at :: "string \<Rightarrow> (string \<times> nat) option" where
  "func_ref_at s =
     (if Sublist.prefix ''$F.'' s then
        (let k = takeWhile is_key_char (drop 3 s); r = drop (3 + length k) s; w = takeWhile is_space r in
         if k \<noteq> [] \<and> Sublist.prefix ''('' (drop (length w) r) then Some (k, 4 + length k + length w) else None)
      else None)"

text \<open>\<open>findall\<close>: matches from left to right that do not overlap, none behind a letter, a digit or one of \<open>_.$\<close>.\<close>

definition blocked :: "char option \<Rightarrow> bool" where
  "blocked p = (case p of None \<Rightarrow> False | Some c \<Rightarrow> is_key_char c \<or> c = CHR ''.'' \<or> c = CHR ''$'')"

function find_refs :: "(string \<Rightarrow> (string \<times> nat) option) \<Rightarrow> char option \<Rightarrow> string \<Rightarrow> string list" where
  "find_refs m p s =
     (if s = [] then []
      else (case (if blocked p then None else m s) of
              Some (k, l) \<Rightarrow> k # find_refs m (Some (List.last (take (max 1 l) s))) (drop (max 1 l) s)
            | None \<Rightarrow> find_refs m (Some (hd s)) (tl s)))"
  by pat_completeness auto
termination
  by (relation "measure (\<lambda>(m, p, s). length s)") auto

declare find_refs.simps [simp del]

definition UNSCANNED_KEYS :: "string list" where
  "UNSCANNED_KEYS =
     [''code'', ''desc'', ''description'', ''name'', ''title'', ''label'', ''node_name'', ''id'', ''type'', ''next'', ''else_next'',
      ''elseNext'', ''default'', ''flow_id'', ''flowId'', ''source_line'', ''language'', ''error'', ''childFlow'', ''child_flow'', ''flow'']"

definition UNSCANNED_NODE_ONLY_KEYS :: "string list" where
  "UNSCANNED_NODE_ONLY_KEYS = [''error'']"

definition UNSCANNED_NESTED_KEYS :: "string list" where
  "UNSCANNED_NESTED_KEYS = filter (\<lambda>k. k \<notin> set UNSCANNED_NODE_ONLY_KEYS) UNSCANNED_KEYS"

fun iter_strings :: "string list \<Rightarrow> pyval \<Rightarrow> string list" where
  "iter_strings skip (PStr s) = [s]"
| "iter_strings skip (PDict d) = concat (map (\<lambda>p. if fst p \<in> set skip then [] else iter_strings skip (snd p)) d)"
| "iter_strings skip (PList xs) = concat (map (iter_strings skip) xs)"
| "iter_strings skip (PTuple xs) = concat (map (iter_strings skip) xs)"
| "iter_strings skip v = []"

definition collect_refs :: "(string \<Rightarrow> (string \<times> nat) option) \<Rightarrow> pyval dict \<Rightarrow> string list" where
  "collect_refs m n =
     concat (map (\<lambda>p. if fst p \<in> set UNSCANNED_KEYS then []
       else concat (map (find_refs m None) (iter_strings UNSCANNED_NESTED_KEYS (snd p)))) n)"

definition unknown_names :: "string list \<Rightarrow> string list \<Rightarrow> string list" where
  "unknown_names refs known = sort (remdups (filter (\<lambda>r. r \<notin> set known) refs))"

definition check_node_refs :: ir_rule where
  "check_node_refs n p g =
     (let un = unknown_names (collect_refs node_ref_at n) (graph_ids g) in Inr (if un = [] then None else Some (Unknown_Nodes un)))"

text \<open>\<open>_expression_function_rule\<close> with the names of a registry, the default one or another.\<close>

definition check_expression_functions :: "string list \<Rightarrow> ir_rule" where
  "check_expression_functions names n p g =
     (let un = unknown_names (collect_refs func_ref_at n) names in Inr (if un = [] then None else Some (Unknown_Functions un)))"

fun is_static_value :: "pyval \<Rightarrow> bool" where
  "is_static_value (PStr s) = (\<not> str_contains ''$'' s \<and> \<not> str_contains ''{%'' s)"
| "is_static_value (PDict d) = list_all (\<lambda>p. is_static_value (snd p)) d"
| "is_static_value (PList xs) = list_all is_static_value xs"
| "is_static_value (PTuple xs) = list_all is_static_value xs"
| "is_static_value v = True"

text \<open>\<open>Property.model_validate\<close> is the argument \<open>mk\<close>; whatever it or the match raises is left to the node.\<close>

definition check_output_type_literal :: "(pyval \<Rightarrow> property option) \<Rightarrow> ir_rule" where
  "check_output_type_literal mk n p g =
     (let declared = py_or (field_of n ''outputType'') (field_of n ''output_type''); out = field_of n ''output'' in
      if \<not> truthy declared \<or> \<not> dict_has n ''output'' \<or> out = PNone \<or> \<not> is_static_value out then Inr None
      else (case mk declared of
              None \<Rightarrow> Inr None
            | Some t \<Rightarrow> Inr (case pmatch t out of Inl _ \<Rightarrow> None | Inr ok \<Rightarrow> if ok then None else Some (Wrong_Literal out))))"

text \<open>\<open>forbid_node_types_in_childflow\<close>.\<close>

definition forbid_node_types_in_childflow :: "pyval list \<Rightarrow> ir_rule" where
  "forbid_node_types_in_childflow forbidden n p g =
     rbind (in_childflow_subtree g) (\<lambda>inside.
       if \<not> inside then Inr None
       else rbind (in_set (field_of n ''type'') forbidden) (\<lambda>bad. Inr (if bad then Some (Forbidden_Type (field_of n ''type'')) else None)))"

definition DEFAULT_RULES :: "string list \<Rightarrow> (pyval \<Rightarrow> property option) \<Rightarrow> ir_rule list" where
  "DEFAULT_RULES names mk =
     [check_flow_entry_and_reachability, check_childflow_reachable_end, check_parallel_join_branches, check_node_refs,
      check_expression_functions names, check_output_type_literal mk]"

section \<open>Validation of one graph\<close>

text \<open>The ids that are seen a second time, in the order of that.\<close>

fun duplicates :: "pyval list \<Rightarrow> pyval list \<Rightarrow> ir_error + pyval list" where
  "duplicates seen [] = Inr []"
| "duplicates seen (i # is) =
     (if \<not> hashable i then Inl Ir_Type_Error
      else rbind (duplicates (i # seen) is) (\<lambda>ds. Inr (if length (filter (py_eq i) seen) = 1 then i # ds else ds)))"

definition check_target :: "pyval list \<Rightarrow> string \<Rightarrow> pyval \<Rightarrow> string \<Rightarrow> pyval \<Rightarrow> ir_error + unit" where
  "check_target ids gp owner fld target =
     (if target = PNone then Inr ()
      else rbind (in_set target ids) (\<lambda>ok. if ok then Inr () else Inl (Ir_Error (No_Such_Target owner fld target) gp)))"

definition given :: "bool \<Rightarrow> violation \<Rightarrow> string \<Rightarrow> ir_error + unit" where
  "given ok v p = (if ok then Inr () else Inl (Ir_Error v p))"

text \<open>The checks of \<open>_validate_nodes\<close> on one node, before its rules.\<close>

definition check_node :: "pyval list \<Rightarrow> string \<Rightarrow> string \<Rightarrow> pyval dict \<Rightarrow> ir_error + unit" where
  "check_node ids p gp n =
     (let nid = field_of n ''id''; t = field_of n ''type''; targets_of = check_target ids gp nid in
      rbind (in_set t CHILD_FLOW_REQUIRED) (\<lambda>host.
      rbind (given (host \<longrightarrow> truthy (field_of n ''childFlow'') \<or> truthy (field_of n ''child_flow'')) (No_Child_Flow nid t) p) (\<lambda>_.
      rbind (if t \<noteq> PStr ''end'' then targets_of ''next'' (field_of n ''next'') else Inr ()) (\<lambda>_.
      if t = PStr ''if'' then
        rbind (given (field_of n ''next'' \<noteq> PNone) (No_True_Branch nid) p) (\<lambda>_.
        rbind (given (field_of n ''else_next'' \<noteq> PNone) (No_False_Branch nid) p) (\<lambda>_.
        rbind (targets_of ''next'' (field_of n ''next'')) (\<lambda>_. targets_of ''else_next'' (field_of n ''else_next''))))
      else if t = PStr ''switch'' then
        rbind (iter_items (field_of n ''branches'')) (\<lambda>bs.
        rbind (each (\<lambda>b. targets_of ''branches[].next'' (field_of b ''next'')) (dicts_in bs)) (\<lambda>_.
        given (list_ex (\<lambda>b. truthy (field_of b ''isDefault'')) (dicts_in bs)) (No_Default_Branch nid) p))
      else if t = PStr ''case'' then
        rbind (iter_items (field_of n ''cases'')) (\<lambda>cs.
        rbind (each (\<lambda>c. targets_of ''cases[].target'' (py_or (field_of c ''id'') (field_of c ''next''))) (dicts_in cs)) (\<lambda>_.
        targets_of ''default'' (field_of n ''default'')))
      else if t = PStr ''parallel'' then
        rbind (iter_items (field_of n ''branches'')) (\<lambda>bs.
        each (\<lambda>b. targets_of ''branches[].next'' (field_of b ''next'')) (dicts_in bs))
      else Inr ()))))"

text \<open>\<open>_node_path\<close>.\<close>

definition node_path :: "string \<Rightarrow> pyval dict \<Rightarrow> nat \<Rightarrow> string" where
  "node_path p n k =
     (let label = (case field_of n ''id'' of PStr i \<Rightarrow> if i \<noteq> [] then i else nat_str k | _ \<Rightarrow> nat_str k) in
      (if p \<noteq> [] then p @ ''.'' else []) @ ''nodes['' @ label @ '']'')"

definition run_rules :: "ir_rule list \<Rightarrow> pyval dict \<Rightarrow> string \<Rightarrow> ir_graph \<Rightarrow> ir_error + unit" where
  "run_rules rules n p g =
     each (\<lambda>r. rbind (r n p g) (\<lambda>v. case v of None \<Rightarrow> Inr () | Some w \<Rightarrow> Inl (Ir_Error (Rule_Violated w) p))) rules"

definition validate_nodes ::
  "pyval list \<Rightarrow> string \<Rightarrow> ir_rule list \<Rightarrow> pyval dict option \<Rightarrow> pyval dict list \<Rightarrow> ir_error + unit" where
  "validate_nodes ns p rules host anc =
     (let gp = (if p \<noteq> [] then p else ''nodes'');
          ids = filter truthy (map (\<lambda>n. field_of n ''id'') (dicts_in ns));
          g = \<lparr>gr_path = gp, gr_nodes = ns, gr_host = host, gr_ancestors = anc\<rparr> in
      rbind (duplicates [] ids) (\<lambda>dupes.
      rbind (given (dupes = []) (Duplicate_Ids dupes) gp) (\<lambda>_.
      each (\<lambda>(k, n). case n of
              PDict d \<Rightarrow> rbind (check_node ids p gp d) (\<lambda>_. run_rules rules d (node_path p d k) g)
            | _ \<Rightarrow> Inr ()) (List.enumerate 0 ns))))"

section \<open>Nested flows\<close>

section \<open>Nested flows\<close>

lemma member_size: "x \<in> set xs \<Longrightarrow> size x < size (PList xs)" "x \<in> set xs \<Longrightarrow> size x < size (PTuple xs)"
  by (auto dest: size_list_estimation' [OF _ order_refl] simp: less_Suc_eq_le)

lemma field_smaller: "field_of d k \<noteq> PNone \<Longrightarrow> size (field_of d k) < size (PDict d)"
proof -
  assume "field_of d k \<noteq> PNone"
  then obtain v where v: "dict_get d k = Some v" "field_of d k = v" by (auto simp: pget_def split: option.splits)
  then have "(k, v) \<in> set d" by (auto simp: dict_get_def dest: map_of_SomeD)
  then have "size_prod (\<lambda>_. 0) size (k, v) \<le> size_list (size_prod (\<lambda>_. 0) size) d" by (intro size_list_estimation') auto
  then show ?thesis using v by simp
qed

lemma dicts_in_iff: "d \<in> set (dicts_in xs) \<longleftrightarrow> PDict d \<in> set xs"
  by (induction xs rule: dicts_in.induct) auto

text \<open>The flows that a node holds, with their paths: its child flow, and the flows of its branches.\<close>

definition sub_path :: "string \<Rightarrow> pyval dict \<Rightarrow> string \<Rightarrow> string" where
  "sub_path p n rest =
     (if p \<noteq> [] then p @ ''.'' else []) @ ''nodes['' @ py_str (py_or (field_of n ''id'') (PStr ''?'')) @ '']'' @ rest"

definition child_frames :: "string \<Rightarrow> pyval dict \<Rightarrow> (string \<times> pyval) list" where
  "child_frames p n =
     (case py_or (field_of n ''childFlow'') (field_of n ''child_flow'') of
        PDict e \<Rightarrow> [(sub_path p n ''.childFlow'', PDict e)]
      | _ \<Rightarrow> [])"

definition branch_frames :: "string \<Rightarrow> pyval dict \<Rightarrow> pyval list \<Rightarrow> (string \<times> pyval) list" where
  "branch_frames p n bs =
     concat (map (\<lambda>(k, b). case b of
         PDict m \<Rightarrow> (case field_of m ''flow'' of
            PDict f \<Rightarrow> [(sub_path p n (''.branches['' @ nat_str k @ ''].flow''), PDict f)]
          | _ \<Rightarrow> [])
       | _ \<Rightarrow> []) (List.enumerate 0 bs))"

lemma child_frames_size: "(q, f) \<in> set (child_frames p n) \<Longrightarrow> size f < size (PDict n)"
proof -
  assume "(q, f) \<in> set (child_frames p n)"
  then have "f = field_of n ''childFlow'' \<or> f = field_of n ''child_flow''" and "f \<noteq> PNone"
    by (auto simp: child_frames_def py_or_def split: pyval.splits if_splits)
  then show ?thesis using field_smaller [of n "''childFlow''"] field_smaller [of n "''child_flow''"] by auto
qed

lemma iter_items_size: "iter_items v = Inr xs \<Longrightarrow> PDict m \<in> set xs \<Longrightarrow> size (PDict m) < size v"
  using member_size [of "PDict m" xs] by (auto simp: iter_items_def simp del: pyval.size split: if_splits pyval.splits)

lemma branch_frames_size:
  assumes "iter_items (field_of n ''branches'') = Inr bs" and "(q, f) \<in> set (branch_frames p n bs)"
  shows "size f < size (PDict n)"
proof -
  from assms(2) obtain m where m: "PDict m \<in> set bs" "field_of m ''flow'' = f" "f \<noteq> PNone"
    by (auto simp: branch_frames_def in_set_enumerate_eq split: pyval.splits) (metis nth_mem pyval.distinct(11))
  from iter_items_size [OF assms(1) m(1)] have "size (PDict m) < size (field_of n ''branches'')" .
  moreover from this have "field_of n ''branches'' \<noteq> PNone" by auto
  ultimately show ?thesis using field_smaller [of n "''branches''"] field_smaller [of m "''flow''"] m(2,3) by simp
qed

lemma nodes_size: "py_or (field_of d ''nodes'') (PList []) = PList ns \<Longrightarrow> n \<in> set (dicts_in ns) \<Longrightarrow> size (PDict n) < size (PDict d)"
  using field_smaller [of d "''nodes''"] member_size [of "PDict n" ns]
  by (auto simp: py_or_def dicts_in_iff simp del: pyval.size split: if_splits)

lemma each_cong [fundef_cong]: "xs = ys \<Longrightarrow> (\<And>x. x \<in> set ys \<Longrightarrow> f x = g x) \<Longrightarrow> each f xs = each g ys"
  by (induction xs arbitrary: ys) auto

declare rbind_cong_Inr [fundef_cong]

text \<open>\<open>_validate_ir\<close>.\<close>

function validate_ir :: "bool \<Rightarrow> ir_rule list \<Rightarrow> string \<Rightarrow> pyval dict option \<Rightarrow> pyval dict list \<Rightarrow> pyval \<Rightarrow> ir_error + unit" where
  "validate_ir rec rules p host anc data =
     (case data of
        PDict d \<Rightarrow>
          (case py_or (field_of d ''nodes'') (PList []) of
             PList ns \<Rightarrow>
               rbind (validate_nodes ns p rules host anc) (\<lambda>_.
                 if rec then
                   each (\<lambda>n.
                     rbind (each (\<lambda>(q, f). validate_ir True rules q (Some n) (anc @ [n]) f) (child_frames p n)) (\<lambda>_.
                     if field_of n ''type'' = PStr ''parallel'' then
                       rbind (iter_items (field_of n ''branches'')) (\<lambda>bs.
                         each (\<lambda>(q, f). validate_ir True rules q (Some n) (anc @ [n]) f) (branch_frames p n bs))
                     else Inr ())) (dicts_in ns)
                 else Inr ())
           | _ \<Rightarrow> Inl (Ir_Error Nodes_Not_A_List (if p \<noteq> [] then p else ''nodes'')))
      | _ \<Rightarrow> Inl (Ir_Error Not_A_Dict (if p \<noteq> [] then p else ''<root>'')))"
  by pat_completeness auto
termination
proof (relation "measure (\<lambda>(rec, rules, p, host, anc, data). size data)", goal_cases)
  case 1
  show ?case by simp
next
  case (2 rec rules p host anc data d ns u n x q f)
  then show ?case using nodes_size [of d ns n] child_frames_size [of q f p n] by (auto simp del: pyval.size)
next
  case (3 rec rules p host anc data d ns u n v bs x q f)
  then show ?case using nodes_size [of d ns n] branch_frames_size [of n bs q f p] by (auto simp del: pyval.size)
qed

declare validate_ir.simps [simp del]

text \<open>\<open>validate_flow_ir\<close>.\<close>

definition validate_flow_ir ::
  "string list \<Rightarrow> (pyval \<Rightarrow> property option) \<Rightarrow> bool \<Rightarrow> string \<Rightarrow> ir_rule list option \<Rightarrow> pyval \<Rightarrow> ir_error + unit" where
  "validate_flow_ir names mk rec p rules data =
     validate_ir rec (case rules of None \<Rightarrow> DEFAULT_RULES names mk | Some rs \<Rightarrow> rs) p None [] data"

end
