(* ===== verification/Validate_Sound.thy ===== *)
theory Validate_Sound
  imports Flow_Validate
begin

text \<open>
  What the validation of \<^verbatim>\<open>plaita/dsl/ir_validate.py\<close> gives: its search is exact (\<open>reachable_ids_exact\<close>), it reaches
  every nested flow (\<open>validation_reaches_every_flow\<close>), what it accepts is sound (\<open>validated_flow_is_sound\<close>), and the
  routing of \<^verbatim>\<open>plaita/core/flow.py\<close> finds a node for every declared target of an accepted flow
  (\<open>validated_routes_exist\<close>).
\<close>

section \<open>Reachability\<close>

definition graph_edge :: "pyval list \<Rightarrow> string \<Rightarrow> string \<Rightarrow> bool" where
  "graph_edge ns i j \<longleftrightarrow> (\<exists>n ts. node_by_id ns i = Some n \<and> edge_targets n = Inr ts \<and> j \<in> set ts)"

lemma search_invariant:
  "search ns st seen = Inr rs \<Longrightarrow>
     set st \<union> set seen \<subseteq> set rs
     \<and> (\<forall>j \<in> set rs. j \<in> set seen \<or> (\<exists>i \<in> set st. (graph_edge ns)\<^sup>*\<^sup>* i j))
     \<and> (\<forall>i \<in> set rs - set seen. \<forall>j. graph_edge ns i j \<longrightarrow> j \<in> set rs)"
proof (induction ns st seen rule: search.induct)
  case (2 ns c st seen)
  show ?case
  proof (cases "c \<in> set seen")
    case True
    with 2(1) 2(4) show ?thesis by auto
  next
    case False
    show ?thesis
    proof (cases "node_by_id ns c")
      case None
      then have no: "\<not> graph_edge ns c j" for j by (simp add: graph_edge_def)
      have s: "search ns st (c # seen) = Inr rs" using 2(4) False None by simp
      note ih = 2(2) [OF False None s]
      have "j \<in> set seen \<or> (\<exists>i \<in> set (c # st). (graph_edge ns)\<^sup>*\<^sup>* i j)" if "j \<in> set rs" for j
      proof -
        have "j \<in> set (c # seen) \<or> (\<exists>i \<in> set st. (graph_edge ns)\<^sup>*\<^sup>* i j)"
          using conjunct1 [OF conjunct2 [OF ih]] that by blast
        then show ?thesis by (elim disjE bexE) (use set_ConsD in \<open>fastforce+\<close>)
      qed
      then have all: "\<forall>j \<in> set rs. j \<in> set seen \<or> (\<exists>i \<in> set (c # st). (graph_edge ns)\<^sup>*\<^sup>* i j)" by blast
      have closed: "\<forall>i \<in> set rs - set seen. \<forall>j. graph_edge ns i j \<longrightarrow> j \<in> set rs"
      proof (intro ballI allI impI)
        fix i j
        assume i: "i \<in> set rs - set seen" "graph_edge ns i j"
        with no have "i \<in> set rs - set (c # seen)" by auto
        with i(2) conjunct2 [OF conjunct2 [OF ih]] show "j \<in> set rs" by blast
      qed
      have "set (c # st) \<union> set seen \<subseteq> set rs" using conjunct1 [OF ih] by simp
      with all closed show ?thesis by blast
    next
      case (Some n)
      with 2(4) False obtain ts where ts: "edge_targets n = Inr ts" "search ns (rev ts @ st) (c # seen) = Inr rs"
        by (auto split: sum.splits)
      then have edges: "graph_edge ns c j \<longleftrightarrow> j \<in> set ts" for j using Some by (simp add: graph_edge_def)
      have u: "set (rev ts @ st) = set ts \<union> set st" by simp
      note inv = 2(3) [OF False Some ts(1,2), unfolded u]
      note ih = conjunct1 [OF inv] conjunct1 [OF conjunct2 [OF inv]] conjunct2 [OF conjunct2 [OF inv]]
      have "j \<in> set seen \<or> (\<exists>i \<in> set (c # st). (graph_edge ns)\<^sup>*\<^sup>* i j)" if "j \<in> set rs" for j
      proof -
        from ih(2) that consider "j = c" | "j \<in> set seen" | i where "i \<in> set ts" "(graph_edge ns)\<^sup>*\<^sup>* i j"
          | i where "i \<in> set st" "(graph_edge ns)\<^sup>*\<^sup>* i j" by (metis UnE set_ConsD)
        then show ?thesis
        proof cases
          case 3
          with edges have "(graph_edge ns)\<^sup>*\<^sup>* c j" by (meson converse_rtranclp_into_rtranclp)
          then show ?thesis by simp
        next
          case 4
          then show ?thesis by (intro disjI2 bexI [of _ i]) simp_all
        qed simp_all
      qed
      then have all: "\<forall>j \<in> set rs. j \<in> set seen \<or> (\<exists>i \<in> set (c # st). (graph_edge ns)\<^sup>*\<^sup>* i j)" by blast
      have closed: "\<forall>i \<in> set rs - set seen. \<forall>j. graph_edge ns i j \<longrightarrow> j \<in> set rs"
      proof (intro ballI allI impI)
        fix i j
        assume i: "i \<in> set rs - set seen" "graph_edge ns i j"
        show "j \<in> set rs"
        proof (cases "i = c")
          case True
          with i(2) edges ih(1) show ?thesis by blast
        next
          case False
          with i(1) have "i \<in> set rs - set (c # seen)" by simp
          with i(2) ih(3) show ?thesis by blast
        qed
      qed
      have "set (c # st) \<union> set seen \<subseteq> set rs" using ih(1) by simp
      with all closed show ?thesis by blast
    qed
  qed
qed simp

lemma reachable_ids:
  assumes "reachable_from_start g = Inr rs" and "graph_start g = Some n" and "field_of n ''id'' = PStr i"
  shows "set rs = {j. (graph_edge (gr_nodes g))\<^sup>*\<^sup>* i j}"
proof -
  from assms have "search (gr_nodes g) [i] [] = Inr rs" by (simp add: reachable_from_start_def str_list_def)
  from search_invariant [OF this] have i: "i \<in> set rs" and all: "\<And>j. j \<in> set rs \<Longrightarrow> (graph_edge (gr_nodes g))\<^sup>*\<^sup>* i j"
    and closed: "\<And>k j. k \<in> set rs \<Longrightarrow> graph_edge (gr_nodes g) k j \<Longrightarrow> j \<in> set rs" by auto
  have "j \<in> set rs" if "(graph_edge (gr_nodes g))\<^sup>*\<^sup>* i j" for j
    using that i closed by (induction rule: rtranclp_induct) auto
  with all show ?thesis by auto
qed

text \<open>
  Property C20.  The search of the validation is exact: the ids it calls reachable are those to which a path of declared successors
  leads from the start node.
\<close>

theorem reachable_ids_exact:
  assumes "reachable_from_start g = Inr rs" and "graph_start g = Some n" and "field_of n ''id'' = PStr i"
  shows "set rs = {j. (graph_edge (gr_nodes g))\<^sup>*\<^sup>* i j}"
  using reachable_ids [OF assms] .

theorem reachable_ids_exact_witness:
  "set [''d'', ''c'', ''b'', ''a''] =
     {j. (graph_edge [PDict [(''type'', PStr ''start''), (''id'', PStr ''a''), (''next'', PStr ''b'')],
        PDict [(''type'', PStr ''if''), (''id'', PStr ''b''), (''next'', PStr ''c''), (''else_next'', PStr ''d'')],
        PDict [(''id'', PStr ''c'')], PDict [(''id'', PStr ''d''), (''next'', PStr ''b'')], PDict [(''id'', PStr ''x''), (''next'', PStr ''a'')]])\<^sup>*\<^sup>* ''a'' j}"
proof -
  let ?g = "\<lparr>gr_path = [], gr_nodes = [PDict [(''type'', PStr ''start''), (''id'', PStr ''a''), (''next'', PStr ''b'')],
        PDict [(''type'', PStr ''if''), (''id'', PStr ''b''), (''next'', PStr ''c''), (''else_next'', PStr ''d'')],
        PDict [(''id'', PStr ''c'')], PDict [(''id'', PStr ''d''), (''next'', PStr ''b'')], PDict [(''id'', PStr ''x''), (''next'', PStr ''a'')]],
      gr_host = None, gr_ancestors = []\<rparr>"
  have r: "reachable_from_start ?g = Inr [''c'', ''d'', ''b'', ''a'']" by code_simp
  have s: "graph_start ?g = Some [(''type'', PStr ''start''), (''id'', PStr ''a''), (''next'', PStr ''b'')]" by code_simp
  have i: "field_of [(''type'', PStr ''start''), (''id'', PStr ''a''), (''next'', PStr ''b'')] ''id'' = PStr ''a''" by code_simp
  from reachable_ids_exact [OF r s i] show ?thesis by (simp add: insert_commute)
qed

section \<open>Acceptance\<close>

lemma each_iff: "each f xs = Inr () \<longleftrightarrow> (\<forall>x \<in> set xs. f x = Inr ())"
  by (induction xs) (auto simp: rbind_eq_Inr_iff)

lemma given_iff [simp]: "given ok v p = Inr () \<longleftrightarrow> ok"
  by (simp add: given_def)

lemma in_set_iff: "in_set x s = Inr b \<longleftrightarrow> hashable x \<and> b = list_ex (py_eq x) s"
  by (auto simp: in_set_def)

lemma check_target_iff: "check_target ids gp o' f t = Inr () \<longleftrightarrow> t = PNone \<or> hashable t \<and> list_ex (py_eq t) ids"
  by (auto simp: check_target_def rbind_eq_Inr_iff in_set_iff)

text \<open>The targets of a node that the validation looks up.\<close>

definition checked_targets :: "pyval dict \<Rightarrow> pyval list" where
  "checked_targets n =
     (let t = field_of n ''type'';
          items = (\<lambda>k. case iter_items (field_of n k) of Inr xs \<Rightarrow> dicts_in xs | Inl _ \<Rightarrow> []) in
      (if t \<noteq> PStr ''end'' then [field_of n ''next''] else [])
      @ (if t = PStr ''if'' then [field_of n ''else_next''] else [])
      @ (if t = PStr ''switch'' \<or> t = PStr ''parallel'' then map (\<lambda>b. field_of b ''next'') (items ''branches'') else [])
      @ (if t = PStr ''case'' then map (\<lambda>c. py_or (field_of c ''id'') (field_of c ''next'')) (items ''cases'') @ [field_of n ''default''] else []))"

lemma check_node_targets:
  assumes "check_node ids p gp n = Inr ()" and "t \<in> set (checked_targets n)"
  shows "t = PNone \<or> list_ex (py_eq t) ids"
  using assms by (auto simp: check_node_def checked_targets_def Let_def rbind_eq_Inr_iff each_iff check_target_iff split: if_splits)

lemma check_node_shape:
  assumes "check_node ids p gp n = Inr ()"
  shows "field_of n ''type'' = PStr ''if'' \<Longrightarrow> field_of n ''next'' \<noteq> PNone \<and> field_of n ''else_next'' \<noteq> PNone"
    and "field_of n ''type'' = PStr ''switch'' \<Longrightarrow>
      \<exists>bs. iter_items (field_of n ''branches'') = Inr bs \<and> (\<exists>b \<in> set (dicts_in bs). truthy (field_of b ''isDefault''))"
    and "field_of n ''type'' \<in> set CHILD_FLOW_REQUIRED \<Longrightarrow> truthy (field_of n ''childFlow'') \<or> truthy (field_of n ''child_flow'')"
    and "field_of n ''type'' = PStr ''parallel'' \<Longrightarrow> \<exists>bs. iter_items (field_of n ''branches'') = Inr bs"
  using assms
  by (auto simp: check_node_def Let_def rbind_eq_Inr_iff in_set_iff list_ex_iff CHILD_FLOW_REQUIRED_def split: if_splits)


lemma run_rules_iff: "run_rules rules n p g = Inr () \<longleftrightarrow> (\<forall>r \<in> set rules. r n p g = Inr None)"
  by (auto simp: run_rules_def each_iff rbind_eq_Inr_iff split: option.splits)

definition graph_of :: "string \<Rightarrow> pyval dict option \<Rightarrow> pyval dict list \<Rightarrow> pyval list \<Rightarrow> ir_graph" where
  "graph_of p host anc ns = \<lparr>gr_path = (if p \<noteq> [] then p else ''nodes''), gr_nodes = ns, gr_host = host, gr_ancestors = anc\<rparr>"

definition given_ids :: "pyval list \<Rightarrow> pyval list" where
  "given_ids ns = filter truthy (map (\<lambda>n. field_of n ''id'') (dicts_in ns))"

lemma validate_nodes_iff:
  "validate_nodes ns p rules host anc = Inr () \<longleftrightarrow>
     duplicates [] (given_ids ns) = Inr []
     \<and> (\<forall>(k, n) \<in> set (List.enumerate 0 ns). \<forall>d. n = PDict d \<longrightarrow>
          check_node (given_ids ns) p (gr_path (graph_of p host anc ns)) d = Inr ()
          \<and> (\<forall>r \<in> set rules. r d (node_path p d k) (graph_of p host anc ns) = Inr None))"
  by (fastforce simp: validate_nodes_def Let_def rbind_eq_Inr_iff each_iff run_rules_iff graph_of_def given_ids_def split: pyval.splits)

lemma validate_nodes_member:
  assumes "validate_nodes ns p rules host anc = Inr ()" and "d \<in> set (dicts_in ns)"
  shows "check_node (given_ids ns) p (gr_path (graph_of p host anc ns)) d = Inr ()"
    and "\<exists>k. \<forall>r \<in> set rules. r d (node_path p d k) (graph_of p host anc ns) = Inr None"
proof -
  from assms(2) have "PDict d \<in> set ns" by (simp add: dicts_in_iff)
  then obtain k where "k < length ns" "ns ! k = PDict d" by (auto simp: in_set_conv_nth)
  then have "(k, PDict d) \<in> set (List.enumerate 0 ns)" by (auto simp: in_set_enumerate_eq)
  with assms(1) show "check_node (given_ids ns) p (gr_path (graph_of p host anc ns)) d = Inr ()"
    "\<exists>k. \<forall>r \<in> set rules. r d (node_path p d k) (graph_of p host anc ns) = Inr None"
    unfolding validate_nodes_iff by blast+
qed

section \<open>Frames\<close>

text \<open>A flow of a document, with its path, its host and the hosts above it; and the flows right below it.\<close>

type_synonym frame = "string \<times> pyval dict option \<times> pyval dict list \<times> pyval"

definition flow_nodes_of :: "pyval \<Rightarrow> pyval list option" where
  "flow_nodes_of data =
     (case data of PDict d \<Rightarrow> (case py_or (field_of d ''nodes'') (PList []) of PList ns \<Rightarrow> Some ns | _ \<Rightarrow> None) | _ \<Rightarrow> None)"

definition node_frames :: "string \<Rightarrow> pyval dict \<Rightarrow> (string \<times> pyval) list" where
  "node_frames p n =
     child_frames p n
     @ (if field_of n ''type'' = PStr ''parallel'' then
          (case iter_items (field_of n ''branches'') of Inr bs \<Rightarrow> branch_frames p n bs | Inl _ \<Rightarrow> []) else [])"

fun below :: "frame \<Rightarrow> frame list" where
  "below (p, host, anc, data) =
     (case flow_nodes_of data of None \<Rightarrow> []
      | Some ns \<Rightarrow> concat (map (\<lambda>n. map (\<lambda>(q, f). (q, Some n, anc @ [n], f)) (node_frames p n)) (dicts_in ns)))"

definition nested :: "frame \<Rightarrow> frame \<Rightarrow> bool" where
  "nested x y \<longleftrightarrow> (\<lambda>a b. b \<in> set (below a))\<^sup>*\<^sup>* x y"

fun frame_ok :: "ir_rule list \<Rightarrow> frame \<Rightarrow> bool" where
  "frame_ok rules (p, host, anc, data) =
     (case flow_nodes_of data of None \<Rightarrow> False | Some ns \<Rightarrow> validate_nodes ns p rules host anc = Inr ())"

definition frame_valid :: "ir_rule list \<Rightarrow> frame \<Rightarrow> bool" where
  "frame_valid rules x = (case x of (p, host, anc, data) \<Rightarrow> validate_ir True rules p host anc data = Inr ())"

lemma node_frames_valid:
  assumes "check_node ids p gp n = Inr ()"
  shows "rbind (each (\<lambda>(q, f). v q f) (child_frames p n)) (\<lambda>_.
           if field_of n ''type'' = PStr ''parallel'' then
             rbind (iter_items (field_of n ''branches'')) (\<lambda>bs. each (\<lambda>(q, f). v q f) (branch_frames p n bs)) else Inr ()) = Inr ()
         \<longleftrightarrow> (\<forall>(q, f) \<in> set (node_frames p n). v q f = Inr ())"
  using check_node_shape(4) [OF assms]
  by (cases "field_of n ''type'' = PStr ''parallel''") (auto simp: rbind_eq_Inr_iff each_iff node_frames_def ball_Un)

lemma frame_valid_step: "frame_valid rules x \<longleftrightarrow> frame_ok rules x \<and> (\<forall>y \<in> set (below x). frame_valid rules y)"
proof -
  obtain p host anc data where x: "x = (p, host, anc, data)" by (cases x)
  show ?thesis
  proof (cases "flow_nodes_of data")
    case None
    then have "validate_ir True rules p host anc data \<noteq> Inr ()"
      by (subst validate_ir.simps) (auto simp: flow_nodes_of_def split: pyval.splits)
    with None show ?thesis by (simp add: x frame_valid_def)
  next
    case (Some ns)
    then obtain d where d: "data = PDict d" "py_or (field_of d ''nodes'') (PList []) = PList ns"
      by (auto simp: flow_nodes_of_def split: pyval.splits)
    let ?v = "\<lambda>n (q, f). validate_ir True rules q (Some n) (anc @ [n]) f"
    let ?each = "\<lambda>n. rbind (each (?v n) (child_frames p n)) (\<lambda>_. if field_of n ''type'' = PStr ''parallel'' then
        rbind (iter_items (field_of n ''branches'')) (\<lambda>bs. each (?v n) (branch_frames p n bs)) else Inr ())"
    have step: "validate_ir True rules p host anc data = Inr () \<longleftrightarrow>
        validate_nodes ns p rules host anc = Inr () \<and> (\<forall>n \<in> set (dicts_in ns). ?each n = Inr ())"
      by (subst validate_ir.simps) (simp add: d rbind_eq_Inr_iff each_iff)
    have "?each n = Inr () \<longleftrightarrow> (\<forall>(q, f) \<in> set (node_frames p n). frame_valid rules (q, Some n, anc @ [n], f))"
      if "validate_nodes ns p rules host anc = Inr ()" "n \<in> set (dicts_in ns)" for n
      using node_frames_valid [OF validate_nodes_member(1) [OF that], of "\<lambda>q f. validate_ir True rules q (Some n) (anc @ [n]) f"]
      by (simp add: frame_valid_def)
    then have sub: "(\<forall>n \<in> set (dicts_in ns). ?each n = Inr ()) \<longleftrightarrow>
        (\<forall>n \<in> set (dicts_in ns). \<forall>(q, f) \<in> set (node_frames p n). frame_valid rules (q, Some n, anc @ [n], f))"
      if "validate_nodes ns p rules host anc = Inr ()" using that by (intro ball_cong) simp_all
    have A: "(\<forall>y \<in> set (below x). frame_valid rules y) \<longleftrightarrow>
        (\<forall>n \<in> set (dicts_in ns). \<forall>(q, f) \<in> set (node_frames p n). frame_valid rules (q, Some n, anc @ [n], f))"
      using Some by (auto simp: x)
    have B: "frame_valid rules x \<longleftrightarrow> validate_ir True rules p host anc data = Inr ()" by (simp add: frame_valid_def x)
    have C: "frame_ok rules x \<longleftrightarrow> validate_nodes ns p rules host anc = Inr ()" using Some by (simp add: x)
    show ?thesis unfolding A B C step by (rule conj_cong [OF refl sub])
  qed
qed

lemma node_frames_size: "(q, f) \<in> set (node_frames p n) \<Longrightarrow> size f < size (PDict n)"
proof -
  assume a: "(q, f) \<in> set (node_frames p n)"
  show ?thesis
  proof (cases "(q, f) \<in> set (child_frames p n)")
    case True
    then show ?thesis by (rule child_frames_size)
  next
    case False
    with a have par: "(q, f) \<in> set (case iter_items (field_of n ''branches'') of Inr bs \<Rightarrow> branch_frames p n bs | Inl _ \<Rightarrow> [])"
      by (cases "field_of n ''type'' = PStr ''parallel''") (simp_all only: node_frames_def set_append Un_iff if_True if_False list.set empty_iff simp_thms)
    then obtain bs where "iter_items (field_of n ''branches'') = Inr bs" "(q, f) \<in> set (branch_frames p n bs)"
    proof (cases "iter_items (field_of n ''branches'')")
      case (Inl e)
      with par have False by simp
      then show ?thesis ..
    next
      case (Inr bs)
      with par have "(q, f) \<in> set (branch_frames p n bs)" by simp
      with Inr show ?thesis by (rule that)
    qed
    then show ?thesis by (rule branch_frames_size)
  qed
qed

lemma below_smaller: "y \<in> set (below x) \<Longrightarrow> size (snd (snd (snd y))) < size (snd (snd (snd x)))"
proof -
  assume y: "y \<in> set (below x)"
  obtain p host anc data where x: "x = (p, host, anc, data)" by (cases x)
  from y obtain ns where ns: "flow_nodes_of data = Some ns" by (cases "flow_nodes_of data") (auto simp: x)
  with y obtain n q f where n: "n \<in> set (dicts_in ns)" "(q, f) \<in> set (node_frames p n)" "snd (snd (snd y)) = f"
    by (auto simp: x)
  from ns obtain d where d: "data = PDict d" "py_or (field_of d ''nodes'') (PList []) = PList ns"
    by (auto simp: flow_nodes_of_def split: pyval.splits)
  from n(2) have "size f < size (PDict n)"
    by (rule node_frames_size)
  with nodes_size [OF d(2) n(1)] n(3) d(1) show ?thesis by (simp add: x)
qed

text \<open>Validation accepts a document iff it accepts every flow in it, however deep.\<close>

lemma validation_reaches_every_flow: "frame_valid rules x \<longleftrightarrow> (\<forall>y. nested x y \<longrightarrow> frame_ok rules y)"
proof
  assume v: "frame_valid rules x"
  show "\<forall>y. nested x y \<longrightarrow> frame_ok rules y"
  proof (intro allI impI)
    fix y
    assume "nested x y"
    then have "(\<lambda>a b. b \<in> set (below a))\<^sup>*\<^sup>* x y" by (simp add: nested_def)
    then have "frame_valid rules y"
    proof (induction rule: rtranclp_induct)
      case base
      show ?case by (rule v)
    next
      case (step y z)
      with frame_valid_step [of rules y] show ?case by blast
    qed
    with frame_valid_step [of rules y] show "frame_ok rules y" by blast
  qed
next
  assume "\<forall>y. nested x y \<longrightarrow> frame_ok rules y"
  then show "frame_valid rules x"
  proof (induction "size (snd (snd (snd x)))" arbitrary: x rule: less_induct)
    case less
    have "frame_valid rules y" if "y \<in> set (below x)" for y
    proof (rule less.hyps [OF below_smaller [OF that]], intro allI impI)
      fix z
      assume "nested y z"
      with that have "nested x z" by (simp add: nested_def converse_rtranclp_into_rtranclp)
      with less.prems show "frame_ok rules z" by blast
    qed
    moreover have "nested x x" by (simp add: nested_def)
    with less.prems have "frame_ok rules x" by blast
    ultimately show ?case by (subst frame_valid_step) blast
  qed
qed


section \<open>What an accepted flow satisfies\<close>

lemma strings_truthy: "concat (map str_list (filter truthy xs)) = filter (\<lambda>i. i \<noteq> []) (concat (map str_list xs))"
proof (induction xs)
  case (Cons x xs)
  then show ?case by (cases x) (auto simp: str_list_def)
qed simp

lemma graph_ids_strings: "graph_ids (graph_of p host anc ns) = concat (map str_list (given_ids ns))"
  by (simp add: graph_ids_def graph_of_def given_ids_def strings_truthy comp_def)

lemma string_member: "s \<in> set (concat (map str_list xs)) \<longleftrightarrow> PStr s \<in> set xs"
  by (induction xs) (auto simp: str_list_def split: pyval.splits)

lemma count_string:
  "distinct (concat (map str_list xs)) \<Longrightarrow> length (filter (\<lambda>w. w = PStr s) xs) = (if PStr s \<in> set xs then 1 else 0)"
proof (induction xs)
  case (Cons x xs)
  then show ?case using string_member [of s xs] by (cases x) (auto simp: str_list_def)
qed simp

lemma no_duplicates:
  "duplicates seen is = Inr [] \<Longrightarrow> distinct (concat (map str_list seen)) \<Longrightarrow> distinct (concat (map str_list (rev is @ seen)))"
proof (induction seen "is" rule: duplicates.induct)
  case (2 seen i "is")
  then have d: "hashable i" "duplicates (i # seen) is = Inr []" "length (filter (py_eq i) seen) \<noteq> 1"
    by (auto simp: rbind_eq_Inr_iff split: if_splits)
  have "distinct (concat (map str_list (i # seen)))"
  proof (cases "\<exists>s. i = PStr s")
    case True
    then obtain s where s: "i = PStr s" by blast
    have "filter (py_eq (PStr s)) seen = filter (\<lambda>w. w = PStr s) seen" by (intro filter_cong) auto
    with d(3) s count_string [OF 2(3), of s] have "PStr s \<notin> set seen" by auto
    then have "s \<notin> set (concat (map str_list seen))" using string_member by blast
    moreover have "str_list i = [s]" by (simp add: s str_list_def)
    ultimately show ?thesis using 2(3) by simp
  next
    case False
    then have "str_list i = []" by (cases i) (auto simp: str_list_def)
    with 2(3) show ?thesis by simp
  qed
  with 2(1) d show ?case by simp
qed simp

lemma accepted_ids_distinct:
  assumes "validate_nodes ns p rules host anc = Inr ()"
  shows "distinct (graph_ids (graph_of p host anc ns))"
proof -
  from assms have "duplicates [] (given_ids ns) = Inr []" by (simp add: validate_nodes_iff)
  from no_duplicates [OF this] have "distinct (rev (concat (map str_list (rev (given_ids ns)))))" by simp
  moreover have "rev (concat (map str_list (rev (given_ids ns)))) = concat (map str_list (given_ids ns))"
  proof -
    have "rev (str_list v) = str_list v" for v by (cases v) (simp_all add: str_list_def)
    then show ?thesis by (simp add: rev_concat rev_map comp_def)
  qed
  ultimately show ?thesis by (simp add: graph_ids_strings)
qed

text \<open>Where a path from the start node leads.\<close>

definition starts_to :: "ir_graph \<Rightarrow> string \<Rightarrow> bool" where
  "starts_to g j \<longleftrightarrow>
     (\<exists>n i. graph_start g = Some n \<and> field_of n ''id'' = PStr i \<and> (graph_edge (gr_nodes g))\<^sup>*\<^sup>* i j)"

lemma reachable_starts_to: "reachable_from_start g = Inr rs \<Longrightarrow> j \<in> set rs \<Longrightarrow> starts_to g j"
proof -
  assume r: "reachable_from_start g = Inr rs" "j \<in> set rs"
  then obtain n where n: "graph_start g = Some n" by (cases "graph_start g") (auto simp: reachable_from_start_def)
  show ?thesis
  proof (cases "\<exists>i. field_of n ''id'' = PStr i")
    case True
    with n r reachable_ids show ?thesis by (fastforce simp: starts_to_def)
  next
    case False
    then have "str_list (field_of n ''id'') = []" by (cases "field_of n ''id''") (auto simp: str_list_def)
    with n r show ?thesis by (simp add: reachable_from_start_def)
  qed
qed

lemma entry_rule:
  assumes "check_flow_entry_and_reachability n p g = Inr None" and "gr_nodes g \<noteq> []" and "i \<in> set (graph_ids g)"
  shows "starts_to g i"
proof -
  from assms obtain rs where rs: "reachable_from_start g = Inr rs" and "sort (remdups (filter (\<lambda>i. i \<notin> set rs) (graph_ids g))) = []"
    by (auto simp: check_flow_entry_and_reachability_def Let_def rbind_eq_Inr_iff split: if_splits)
  then have "set (filter (\<lambda>i. i \<notin> set rs) (graph_ids g)) = {}" by (metis list.set(1) set_remdups set_sort)
  with assms(3) have "i \<in> set rs" by (auto simp: filter_empty_conv)
  with rs show ?thesis by (rule reachable_starts_to)
qed

lemma start_rule:
  assumes "check_flow_entry_and_reachability n p g = Inr None" and "gr_nodes g \<noteq> []"
  shows "graph_start g \<noteq> None"
  using assms by (auto simp: check_flow_entry_and_reachability_def has_start_def rbind_eq_Inr_iff split: if_splits)

lemma any_of_True: "any_of f xs = Inr True \<Longrightarrow> \<exists>x \<in> set xs. f x = Inr True"
  by (induction xs) (auto simp: rbind_eq_Inr_iff split: if_splits)

lemma end_rule:
  assumes "check_childflow_reachable_end n p g = Inr None" and "graph_start g \<noteq> None" and "gr_host g \<noteq> None" and "gr_nodes g \<noteq> []"
  shows "\<exists>m i. m \<in> set (dicts_in (gr_nodes g)) \<and> field_of m ''type'' = PStr ''end'' \<and> field_of m ''id'' = PStr i \<and> starts_to g i"
proof -
  from assms obtain rs where rs: "reachable_from_start g = Inr rs"
    and "any_of (\<lambda>m. if field_of m ''type'' = PStr ''end'' then in_set (field_of m ''id'') (map PStr rs) else Inr False)
      (dicts_in (gr_nodes g)) = Inr True"
    by (auto simp: check_childflow_reachable_end_def has_start_def rbind_eq_Inr_iff split: if_splits)
  from any_of_True [OF this(2)] obtain m where m: "m \<in> set (dicts_in (gr_nodes g))" "field_of m ''type'' = PStr ''end''"
    "in_set (field_of m ''id'') (map PStr rs) = Inr True" by (auto split: if_splits)
  then obtain i where "field_of m ''id'' = PStr i" "i \<in> set rs"
    by (cases "field_of m ''id''") (auto simp: in_set_iff list_ex_iff)
  with m rs reachable_starts_to show ?thesis by blast
qed

lemma join_rule:
  assumes "check_parallel_join_branches n p g = Inr None" and "field_of n ''type'' = PStr ''parallel''"
    and "py_or (field_of n ''joinBranches'') (field_of n ''join_branches'') \<in> {PList js, PTuple js}" and "PStr j \<in> set js"
  shows "\<exists>bs. iter_items (field_of n ''branches'') = Inr bs \<and> (\<exists>b \<in> set (dicts_in bs). field_of b ''name'' = PStr j)"
proof -
  have "joins_known n js = Inr None" using assms(1-3) by (auto simp: check_parallel_join_branches_def)
  with assms(4) obtain bs where bs: "iter_items (field_of n ''branches'') = Inr bs"
    "filter (\<lambda>j. j \<notin> set (concat (map (\<lambda>b. str_list (field_of b ''name'')) (dicts_in bs)))) (concat (map str_list js)) = []"
    by (auto simp: joins_known_def Let_def rbind_eq_Inr_iff split: if_splits)
  have "j \<in> set (concat (map str_list js))" using assms(4) string_member by blast
  with bs(2) have "j \<in> set (concat (map str_list (map (\<lambda>b. field_of b ''name'') (dicts_in bs))))"
    unfolding filter_empty_conv by (simp add: comp_def) blast
  then have "PStr j \<in> set (map (\<lambda>b. field_of b ''name'') (dicts_in bs))" using string_member by blast
  with bs(1) show ?thesis by auto
qed

lemma unknown_names_none: "unknown_names refs known = [] \<longleftrightarrow> set refs \<subseteq> set known"
proof -
  have "unknown_names refs known = [] \<longleftrightarrow> set (unknown_names refs known) = {}" by simp
  also have "set (unknown_names refs known) = set refs - set known" by (auto simp: unknown_names_def)
  finally show ?thesis by blast
qed

text \<open>The properties of one graph and of one of its nodes that a run relies on.\<close>

definition sound_node :: "string list \<Rightarrow> ir_graph \<Rightarrow> pyval dict \<Rightarrow> bool" where
  "sound_node names g n \<longleftrightarrow>
     (\<forall>s. PStr s \<in> set (checked_targets n) \<longrightarrow> s \<in> set (graph_ids g))
     \<and> (field_of n ''type'' = PStr ''if'' \<longrightarrow> field_of n ''next'' \<noteq> PNone \<and> field_of n ''else_next'' \<noteq> PNone)
     \<and> (field_of n ''type'' = PStr ''switch'' \<longrightarrow>
          (\<exists>bs. iter_items (field_of n ''branches'') = Inr bs \<and> (\<exists>b \<in> set (dicts_in bs). truthy (field_of b ''isDefault''))))
     \<and> (field_of n ''type'' \<in> set CHILD_FLOW_REQUIRED \<longrightarrow> truthy (field_of n ''childFlow'') \<or> truthy (field_of n ''child_flow''))
     \<and> set (collect_refs node_ref_at n) \<subseteq> set (graph_ids g) \<and> set (collect_refs func_ref_at n) \<subseteq> set names
     \<and> (\<forall>js j. field_of n ''type'' = PStr ''parallel'' \<and> PStr j \<in> set js
          \<and> py_or (field_of n ''joinBranches'') (field_of n ''join_branches'') \<in> {PList js, PTuple js} \<longrightarrow>
          (\<exists>bs. iter_items (field_of n ''branches'') = Inr bs \<and> (\<exists>b \<in> set (dicts_in bs). field_of b ''name'' = PStr j)))"

definition sound_graph :: "string list \<Rightarrow> ir_graph \<Rightarrow> bool" where
  "sound_graph names g \<longleftrightarrow>
     distinct (graph_ids g) \<and> (\<forall>n \<in> set (dicts_in (gr_nodes g)). sound_node names g n)
     \<and> (dicts_in (gr_nodes g) \<noteq> [] \<longrightarrow>
          graph_start g \<noteq> None \<and> (\<forall>i \<in> set (graph_ids g). starts_to g i)
          \<and> (gr_host g \<noteq> None \<longrightarrow>
               (\<exists>m i. m \<in> set (dicts_in (gr_nodes g)) \<and> field_of m ''type'' = PStr ''end'' \<and> field_of m ''id'' = PStr i \<and> starts_to g i)))"

lemma accepted_node_is_sound:
  assumes v: "validate_nodes ns p (DEFAULT_RULES names mk) host anc = Inr ()" and n: "n \<in> set (dicts_in ns)"
  shows "sound_node names (graph_of p host anc ns) n"
proof -
  let ?g = "graph_of p host anc ns"
  note c = validate_nodes_member(1) [OF v n]
  from validate_nodes_member(2) [OF v n] obtain k where
    r: "\<forall>r \<in> set (DEFAULT_RULES names mk). r n (node_path p n k) ?g = Inr None" by blast
  have t: "s \<in> set (graph_ids ?g)" if "PStr s \<in> set (checked_targets n)" for s
    using check_node_targets [OF c that] string_member [of s "given_ids ns"]
    by (auto simp: graph_ids_strings list_ex_iff)
  have "check_node_refs n (node_path p n k) ?g = Inr None" and "check_expression_functions names n (node_path p n k) ?g = Inr None"
    and j: "check_parallel_join_branches n (node_path p n k) ?g = Inr None"
    using r by (simp_all add: DEFAULT_RULES_def)
  then have refs: "set (collect_refs node_ref_at n) \<subseteq> set (graph_ids ?g)" "set (collect_refs func_ref_at n) \<subseteq> set names"
    unfolding unknown_names_none [symmetric]
    by (auto simp: check_node_refs_def check_expression_functions_def Let_def split: if_splits)
  show ?thesis
    unfolding sound_node_def using t check_node_shape [OF c] refs join_rule [OF j] by blast
qed


lemma accepted_graph_is_sound:
  assumes v: "validate_nodes ns q (DEFAULT_RULES names mk) host anc = Inr ()"
  shows "sound_graph names (graph_of q host anc ns)"
proof -
  let ?g = "graph_of q host anc ns"
  have g: "gr_nodes ?g = ns" "gr_host ?g = host" by (simp_all add: graph_of_def)
  have "graph_start ?g \<noteq> None \<and> (\<forall>i \<in> set (graph_ids ?g). starts_to ?g i)
      \<and> (host \<noteq> None \<longrightarrow> (\<exists>m i. m \<in> set (dicts_in ns) \<and> field_of m ''type'' = PStr ''end'' \<and> field_of m ''id'' = PStr i \<and> starts_to ?g i))"
    if some: "dicts_in ns \<noteq> []"
  proof -
    from some obtain n where n: "n \<in> set (dicts_in ns)" by (cases "dicts_in ns") auto
    from validate_nodes_member(2) [OF v n] obtain k where
      "check_flow_entry_and_reachability n (node_path q n k) ?g = Inr None" "check_childflow_reachable_end n (node_path q n k) ?g = Inr None"
      by (auto simp: DEFAULT_RULES_def)
    moreover have "gr_nodes ?g \<noteq> []" using some g by auto
    ultimately show ?thesis using entry_rule start_rule end_rule g by metis
  qed
  then show ?thesis
    unfolding sound_graph_def g using accepted_ids_distinct [OF v] accepted_node_is_sound [OF v] by blast
qed

text \<open>
  Property C18.  A document that the validation accepts is sound in every flow, however deep: ids are distinct and every checked
  target is one of them, decision nodes have their branches and hosts their flow, the start node exists and leads to every id and, in
  a nested flow, to an end node; references name nodes of the same flow and registered functions, joins name branches.  A flow
  whose list of nodes holds no node object is accepted too, and is the exception: it has no start and no end.
\<close>

theorem validated_flow_is_sound:
  assumes "validate_flow_ir names mk True p None data = Inr ()" and "nested (p, None, [], data) (q, host, anc, f)"
  shows "\<exists>ns. flow_nodes_of f = Some ns \<and> sound_graph names (graph_of q host anc ns)"
proof -
  from assms(1) have "frame_valid (DEFAULT_RULES names mk) (p, None, [], data)"
    by (simp add: frame_valid_def validate_flow_ir_def)
  with assms(2) have "frame_ok (DEFAULT_RULES names mk) (q, host, anc, f)" by (simp add: validation_reaches_every_flow)
  with accepted_graph_is_sound show ?thesis by (auto split: option.splits)
qed

text \<open>The exception: a flow without nodes is accepted, though it has no start node.\<close>

lemma empty_flow_accepted:
  "validate_flow_ir names mk strict p None (PDict [(''nodes'', PList [])]) = Inr ()"
  "graph_start (graph_of p None [] []) = None"
  by (simp_all add: validate_flow_ir_def validate_ir.simps flow_nodes_of_def py_or_def pget_def dict_get_Cons validate_nodes_def
      graph_start_def graph_of_def given_def Let_def)

definition sample_child :: pyval where
  "sample_child =
     PDict [(''nodes'', PList [PDict [(''type'', PStr ''start''), (''id'', PStr ''s''), (''next'', PStr ''e'')],
       PDict [(''type'', PStr ''end''), (''id'', PStr ''e''), (''output'', PStr ''$F.add($NODE.s, 1)'')]])]"

definition sample_document :: pyval where
  "sample_document =
     PDict [(''nodes'', PList [PDict [(''type'', PStr ''start''), (''id'', PStr ''s''), (''next'', PStr ''m'')],
       PDict [(''type'', PStr ''map''), (''id'', PStr ''m''), (''childFlow'', sample_child), (''next'', PStr ''e'')],
       PDict [(''type'', PStr ''end''), (''id'', PStr ''e''), (''output'', PStr ''$NODE.m'')]])]"

theorem validated_flow_is_sound_witness:
  "validate_flow_ir [''add''] (\<lambda>v. None) True [] None sample_document = Inr ()
     \<and> (\<exists>host anc ns. flow_nodes_of sample_child = Some ns
         \<and> sound_graph [''add''] (graph_of ''nodes[m].childFlow'' host anc ns) \<and> dicts_in ns \<noteq> [])"
proof -
  have v: "validate_flow_ir [''add''] (\<lambda>v. None) True [] None sample_document = Inr ()" by code_simp
  have "(\<lambda>a b. b \<in> set (below a)) ([], None, [], sample_document)
      (''nodes[m].childFlow'', Some [(''type'', PStr ''map''), (''id'', PStr ''m''), (''childFlow'', sample_child), (''next'', PStr ''e'')],
       [[(''type'', PStr ''map''), (''id'', PStr ''m''), (''childFlow'', sample_child), (''next'', PStr ''e'')]], sample_child)"
    by code_simp
  then have n: "nested ([], None, [], sample_document)
      (''nodes[m].childFlow'', Some [(''type'', PStr ''map''), (''id'', PStr ''m''), (''childFlow'', sample_child), (''next'', PStr ''e'')],
       [[(''type'', PStr ''map''), (''id'', PStr ''m''), (''childFlow'', sample_child), (''next'', PStr ''e'')]], sample_child)"
    unfolding nested_def by (rule r_into_rtranclp)
  from validated_flow_is_sound [OF v n] obtain ns where ns: "flow_nodes_of sample_child = Some ns"
    "sound_graph [''add''] (graph_of ''nodes[m].childFlow'' (Some [(''type'', PStr ''map''), (''id'', PStr ''m''), (''childFlow'', sample_child), (''next'', PStr ''e'')])
       [[(''type'', PStr ''map''), (''id'', PStr ''m''), (''childFlow'', sample_child), (''next'', PStr ''e'')]] ns)" by blast
  moreover from ns(1) have "dicts_in ns \<noteq> []" by (auto simp: flow_nodes_of_def sample_child_def py_or_def dict_get_Cons pget_def)
  ultimately show ?thesis using v by blast
qed

section \<open>Routes\<close>

text \<open>
  The node that the node classes build from its document (\<open>Node\<close>, \<open>Bool.setup_branches\<close>, \<open>SwitchLegacy.setup_branches\<close>,
  \<open>Switch.setup_branches\<close>): id, type and successor, and the branches of decision nodes.
\<close>

definition opt_text :: "pyval \<Rightarrow> string option" where
  "opt_text v = (case v of PStr s \<Rightarrow> Some s | _ \<Rightarrow> None)"

definition case_default :: "pyval dict \<Rightarrow> string option" where
  "case_default n = (if dict_has n ''default'' then opt_text (field_of n ''default'') else Some ''default'')"

definition built_branches :: "pyval dict \<Rightarrow> branch list option \<Rightarrow> bool" where
  "built_branches n r =
     (if field_of n ''type'' = PStr ''if'' then
        (\<exists>c. r = Some (bool_branches c (opt_text (field_of n ''next'')) (opt_text (field_of n ''else_next''))))
      else if field_of n ''type'' = PStr ''case'' then
        (\<exists>xs cs t bs. iter_items (field_of n ''cases'') = Inr xs \<and> case_branches t cs (case_default n) = Inr bs \<and> r = Some bs
           \<and> list_all2 (\<lambda>x c. \<exists>d. x = PDict d \<and> case_id c = opt_text (field_of d ''id'')) xs cs)
      else if field_of n ''type'' = PStr ''switch'' then
        (\<exists>xs bs. iter_items (field_of n ''branches'') = Inr xs \<and> r = Some bs
           \<and> list_all2 (\<lambda>d b. b_next b = opt_text (field_of d ''next'') \<and> b_name b = opt_text (field_of d ''name'')) (dicts_in xs) bs)
      else r = None)"

definition built :: "pyval dict \<Rightarrow> node \<Rightarrow> bool" where
  "built n m \<longleftrightarrow>
     field_of n ''id'' = PStr (nd_id m) \<and> field_of n ''type'' = PStr (nd_type m) \<and> nd_next m = opt_text (field_of n ''next'')
     \<and> nd_branching m = (nd_type m \<in> {''if'', ''switch'', ''case''}) \<and> built_branches n (nd_branches m)"

text \<open>Every branch of a switch names its target by \<open>next\<close>, and a case node has a default.\<close>

definition explicit_targets :: "pyval dict \<Rightarrow> bool" where
  "explicit_targets n \<longleftrightarrow>
     (field_of n ''type'' = PStr ''case'' \<longrightarrow> str_truthy (opt_text (field_of n ''default'')))
     \<and> (field_of n ''type'' = PStr ''switch'' \<longrightarrow>
          (\<forall>xs. iter_items (field_of n ''branches'') = Inr xs \<longrightarrow> (\<forall>b \<in> set (dicts_in xs). str_truthy (opt_text (field_of b ''next'')))))"

lemma opt_text_Some: "opt_text v = Some s \<longleftrightarrow> v = PStr s"
  by (cases v) (auto simp: opt_text_def)

lemma resolved: "resolve_branch_target nt b = Some s \<Longrightarrow> s \<noteq> [] \<Longrightarrow> b_next b = Some s \<or> \<not> str_truthy (b_next b) \<and> b_name b = Some s"
  by (auto simp: resolve_branch_target_def str_truthy_def split: if_splits)

lemma branch_target_found:
  "get_branch_target m br = Some s \<Longrightarrow>
     \<exists>bs b. nd_branches m = Some bs \<and> b \<in> set bs \<and> s \<noteq> [] \<and> resolve_branch_target (nd_name_as_target m) b = Some s"
  by (auto simp: get_branch_target_def str_truthy_def split: option.splits if_splits dest!: find_SomeD)

lemma case_branches_members:
  "case_branches t cs dflt = Inr bs \<Longrightarrow> b \<in> set bs \<Longrightarrow>
     (\<exists>c \<in> set cs. \<exists>i. case_id c = Some i \<and> b_next b = Some i \<and> b_name b = Some i)
     \<or> b_next b = dflt \<and> b_name b = Some ''default''"
proof -
  assume a: "case_branches t cs dflt = Inr bs" "b \<in> set bs"
  have "rmap (case_branch t) cs = Inr ys \<Longrightarrow> y \<in> set ys \<Longrightarrow>
      \<exists>c \<in> set cs. \<exists>i. case_id c = Some i \<and> b_next y = Some i \<and> b_name y = Some i" for ys y
    by (induction cs arbitrary: ys) (auto simp: rbind_eq_Inr_iff case_branch_def split: option.splits)
  with a show ?thesis by (fastforce simp: case_branches_def rbind_eq_Inr_iff)
qed

lemma checked_target_of_route:
  assumes b: "built n m" and e: "explicit_targets n" and t: "get_target_node m br = Some s" and ne: "nd_type m \<noteq> ''end''"
  shows "PStr s \<in> set (checked_targets n)"
proof (cases "\<not> nd_branching m \<and> str_truthy (nd_next m)")
  case True
  with t b have "field_of n ''next'' = PStr s" by (simp add: get_target_node_def built_def) (metis opt_text_Some)
  with b ne show ?thesis by (simp add: checked_targets_def Let_def built_def)
next
  case False
  then have "get_target_node m br = get_branch_target m br" unfolding get_target_node_def by (rule if_not_P)
  with t branch_target_found obtain bs c where r: "nd_branches m = Some bs" "c \<in> set bs" "s \<noteq> []"
    "resolve_branch_target (nd_name_as_target m) c = Some s" by metis
  from resolved [OF r(4,3)] have c: "b_next c = Some s \<or> \<not> str_truthy (b_next c) \<and> b_name c = Some s" .
  from b r(1) have bb: "built_branches n (Some bs)" by (simp add: built_def)
  consider "field_of n ''type'' = PStr ''if''" | "field_of n ''type'' = PStr ''case''" | "field_of n ''type'' = PStr ''switch''"
    using bb by (auto simp: built_branches_def split: if_splits)
  then show ?thesis
  proof cases
    case 1
    with bb r(2) c have "field_of n ''next'' = PStr s \<or> field_of n ''else_next'' = PStr s"
      by (auto simp: built_branches_def bool_branches_def opt_text_Some)
    with 1 show ?thesis by (auto simp: checked_targets_def Let_def)
  next
    case 2
    then obtain xs cs t where xs: "iter_items (field_of n ''cases'') = Inr xs" "case_branches t cs (case_default n) = Inr bs"
      "list_all2 (\<lambda>x c. \<exists>d. x = PDict d \<and> case_id c = opt_text (field_of d ''id'')) xs cs"
      using bb by (auto simp: built_branches_def)
    from 2 e have d: "str_truthy (opt_text (field_of n ''default''))" "case_default n = opt_text (field_of n ''default'')"
      by (auto simp: explicit_targets_def case_default_def dict_has_iff pget_def opt_text_def str_truthy_def split: option.splits)
    from case_branches_members [OF xs(2) r(2)] show ?thesis
    proof (elim disjE bexE exE conjE)
      fix k i
      assume k: "k \<in> set cs" "case_id k = Some i" "b_next c = Some i" "b_name c = Some i"
      with c have "i = s" by auto
      with k(1,2) xs(3) obtain x where "PDict x \<in> set xs" "field_of x ''id'' = PStr s"
        by (auto simp: list_all2_conv_all_nth in_set_conv_nth opt_text_Some) (metis nth_mem opt_text_Some)
      then have "x \<in> set (dicts_in xs)" "py_or (field_of x ''id'') (field_of x ''next'') = PStr s"
        using r(3) by (simp_all add: dicts_in_iff py_or_def)
      with 2 xs(1) show ?thesis by (force simp: checked_targets_def Let_def)
    next
      assume "b_next c = case_default n" "b_name c = Some ''default''"
      with c d have "field_of n ''default'' = PStr s" by (auto simp: opt_text_Some)
      with 2 show ?thesis by (simp add: checked_targets_def Let_def)
    qed
  next
    case 3
    then obtain xs where xs: "iter_items (field_of n ''branches'') = Inr xs"
      "list_all2 (\<lambda>d b. b_next b = opt_text (field_of d ''next'') \<and> b_name b = opt_text (field_of d ''name'')) (dicts_in xs) bs"
      using bb by (auto simp: built_branches_def)
    from r(2) obtain i where i: "i < length bs" "bs ! i = c" by (auto simp: in_set_conv_nth)
    define x where "x = dicts_in xs ! i"
    with xs(2) i have x: "x \<in> set (dicts_in xs)" "b_next c = opt_text (field_of x ''next'')"
      by (auto simp: list_all2_conv_all_nth)
    with 3 e xs(1) have "str_truthy (b_next c)" by (simp add: explicit_targets_def)
    with c x(2) have "field_of x ''next'' = PStr s" by (simp add: opt_text_Some)
    with 3 x(1) xs(1) show ?thesis by (force simp: checked_targets_def Let_def)
  qed
qed

text \<open>
  Property C19.  In a flow that the validation accepts, routing never meets a missing node: from a node whose branches name
  their targets, and whatever branch it took, the next node is found or there is none to go to.
\<close>

theorem validated_routes_exist:
  assumes "validate_nodes ns q (DEFAULT_RULES names mk) host anc = Inr ()" and "list_all2 built (dicts_in ns) (nodes F)"
    and "(n, m) \<in> set (zip (dicts_in ns) (nodes F))" and "explicit_targets n"
  shows "\<exists>r. next_node F m br = Inr r \<and> (r = None \<or> (\<exists>k \<in> set (nodes F). r = Some k))"
proof (cases "nd_type m = ''end'' \<or> get_target_node m br = None")
  case True
  then show ?thesis by (auto simp: next_node_def is_end_node_def find_node_by_id_def)
next
  case False
  then obtain s where s: "get_target_node m br = Some s" by auto
  from assms(2,3) have b: "built n m" by (auto simp: list_all2_iff)
  from checked_target_of_route [OF b assms(4) s] False have "PStr s \<in> set (checked_targets n)" by simp
  moreover have "n \<in> set (dicts_in ns)" using assms(3) by (rule set_zip_leftD)
  ultimately have "s \<in> set (graph_ids (graph_of q host anc ns))"
    using accepted_graph_is_sound [OF assms(1)] by (auto simp: sound_graph_def sound_node_def graph_of_def)
  then have "PStr s \<in> set (given_ids ns)" using graph_ids_strings string_member by metis
  then obtain j where j: "j < length (dicts_in ns)" "field_of (dicts_in ns ! j) ''id'' = PStr s"
    by (auto simp: given_ids_def in_set_conv_nth)
  with assms(2) have "nd_id (nodes F ! j) = s" by (auto simp: built_def dest: list_all2_nthD)
  moreover have "nodes F ! j \<in> set (nodes F)" using j(1) assms(2) by (simp add: list_all2_lengthD)
  ultimately have "dict_has (build_index (nodes F)) s" by (auto simp: build_index_has)
  then obtain k where k: "dict_get (build_index (nodes F)) s = Some k" by (auto simp: dict_has_iff)
  with s False build_index_get_id [OF k] show ?thesis by (auto simp: next_node_def is_end_node_def find_node_by_id_def)
qed


definition sample_node_list :: "pyval list" where
  "sample_node_list =
     [PDict [(''type'', PStr ''start''), (''id'', PStr ''s''), (''next'', PStr ''e'')], PDict [(''type'', PStr ''end''), (''id'', PStr ''e'')]]"

theorem validated_routes_exist_witness:
  "next_node (Flow None [simple_node ''s'' ''start'' (Some ''e''), simple_node ''e'' ''end'' None] PNone [] [])
       (simple_node ''s'' ''start'' (Some ''e'')) None = Inr (Some (simple_node ''e'' ''end'' None))"
proof -
  let ?F = "Flow None [simple_node ''s'' ''start'' (Some ''e''), simple_node ''e'' ''end'' None] PNone [] []"
  have s: "validate_nodes sample_node_list [] (DEFAULT_RULES [] (\<lambda>v. None)) None [] = Inr ()" by code_simp
  have b: "list_all2 built (dicts_in sample_node_list) (nodes ?F)"
    by (simp add: sample_node_list_def built_def built_branches_def simple_node_def opt_text_def pget_def dict_get_Cons)
  have z: "([(''type'', PStr ''start''), (''id'', PStr ''s''), (''next'', PStr ''e'')], simple_node ''s'' ''start'' (Some ''e''))
      \<in> set (zip (dicts_in sample_node_list) (nodes ?F))"
    by (simp add: sample_node_list_def)
  have e: "explicit_targets [(''type'', PStr ''start''), (''id'', PStr ''s''), (''next'', PStr ''e'')]"
    by (simp add: explicit_targets_def pget_def dict_get_Cons)
  from validated_routes_exist [OF s b z e, of None] show ?thesis
    by (auto simp: next_node_def is_end_node_def get_target_node_def find_node_by_id_def simple_node_def str_truthy_def build_index_def dict_get_Cons)
qed

text \<open>
  Targets that are not written are not checked: a case node without default is accepted, but its default branch leads to a node
  named \<open>default\<close>, and so does a switch branch without \<open>next\<close>, which leads to its name.
\<close>

definition case_document :: "pyval list" where
  "case_document =
     [PDict [(''type'', PStr ''start''), (''id'', PStr ''s''), (''next'', PStr ''c'')],
      PDict [(''type'', PStr ''case''), (''id'', PStr ''c''), (''target'', PStr ''$INPUT''),
        (''cases'', PList [PDict [(''id'', PStr ''e''), (''value'', PInt 1)]])],
      PDict [(''type'', PStr ''end''), (''id'', PStr ''e'')]]"

lemma unwritten_target_is_not_checked:
  "validate_nodes case_document [] (DEFAULT_RULES [] (\<lambda>v. None)) None [] = Inr ()
     \<and> case_default (dicts_in case_document ! 1) = Some ''default'' \<and> ''default'' \<notin> set (graph_ids (graph_of [] None [] case_document))"
  by code_simp

end
