(* ===== verification/Http_Policy.thy ===== *)
theory Http_Policy
  imports Py_Text "HOL-Library.Word"
begin

text \<open>
  The access policy of \<^verbatim>\<open>plaita/node/http.py\<close>: which hosts and addresses an HTTP node may reach, and what a
  redirect may carry.  The parts of \<open>ipaddress\<close> and \<open>urllib.parse\<close> that the code uses are written out: addresses and
  networks from their texts, membership with mapped addresses, and scheme, host and port of a URL.  The checks of bracketed and of
  unicode hosts are left out.  A \<open>ValueError\<close> is \<open>None\<close>.
\<close>

section \<open>Addresses\<close>

datatype ip = V4 "32 word" | V6 "128 word"

datatype net = Net4 "32 word" nat | Net6 "128 word" nat

fun split_at :: "char \<Rightarrow> string \<Rightarrow> string list" where
  "split_at c [] = [[]]"
| "split_at c (d # s) = (if d = c then [] # split_at c s else (case split_at c s of p # ps \<Rightarrow> (d # p) # ps | [] \<Rightarrow> [[d]]))"

definition digits_value :: "string \<Rightarrow> int" where
  "digits_value s = foldl (\<lambda>a c. a * 10 + (of_char c - 48)) 0 s"

definition octet :: "string \<Rightarrow> int option" where
  "octet s =
     (if s \<noteq> [] \<and> list_all ascii_digit s \<and> length s \<le> 3 \<and> (s = ''0'' \<or> hd s \<noteq> CHR ''0'') \<and> digits_value s \<le> 255
      then Some (digits_value s) else None)"

fun these_all :: "'a option list \<Rightarrow> 'a list option" where
  "these_all [] = Some []"
| "these_all (x # xs) = (case (x, these_all xs) of (Some y, Some ys) \<Rightarrow> Some (y # ys) | _ \<Rightarrow> None)"

definition number :: "int \<Rightarrow> int list \<Rightarrow> int" where
  "number b ds = foldl (\<lambda>a d. a * b + d) 0 ds"

definition ipv4_number :: "string \<Rightarrow> int option" where
  "ipv4_number s =
     (let ps = split_at CHR ''.'' s in if length ps = 4 then map_option (number 256) (these_all (map octet ps)) else None)"

definition hex_value :: "char \<Rightarrow> int option" where
  "hex_value c =
     (let n = (of_char c :: int) in
      if 48 \<le> n \<and> n \<le> 57 then Some (n - 48) else if 97 \<le> n \<and> n \<le> 102 then Some (n - 87) else if 65 \<le> n \<and> n \<le> 70 then Some (n - 55)
      else None)"

definition hextet :: "string \<Rightarrow> int option" where
  "hextet s = (if s \<noteq> [] \<and> length s \<le> 4 then map_option (number 16) (these_all (map hex_value s)) else None)"

text \<open>The parts of an IPv6 text, with the last one replaced by two if it is an IPv4 text.\<close>

definition mapped_parts :: "string \<Rightarrow> (string list \<times> int list) option" where
  "mapped_parts s =
     (let ps = split_at CHR '':'' s in
      if length ps < 3 then None
      else if CHR ''.'' \<in> set (List.last ps) then
        map_option (\<lambda>n. (butlast ps, [n div 65536, n mod 65536])) (ipv4_number (List.last ps))
      else Some (ps, []))"

text \<open>The groups of an IPv6 text: the position of \<open>::\<close> among the inner parts, and what it stands for.\<close>

definition ipv6_groups :: "string list \<Rightarrow> int list \<Rightarrow> int list option" where
  "ipv6_groups ps tail =
     (let n = length ps + length tail;
          empties = filter (\<lambda>i. 0 < i \<and> i + 1 < n \<and> i < length ps \<and> ps ! i = []) [0..<n] in
      if n > 9 \<or> length empties > 1 then None
      else (case empties of
              [] \<Rightarrow> if n = 8 \<and> ps \<noteq> [] \<and> hd ps \<noteq> [] then map_option (\<lambda>gs. gs @ tail) (these_all (map hextet ps)) else None
            | k # _ \<Rightarrow>
                (let lead = take k ps; rest = drop (Suc k) ps;
                     hi = (if hd ps = [] then (if k = 1 then Some [] else None) else these_all (map hextet lead));
                     lo = (if rest \<noteq> [] \<and> tail = [] \<and> List.last ps = [] then (if length rest = 1 then Some [] else None)
                           else map_option (\<lambda>gs. gs @ tail) (these_all (map hextet rest))) in
                 (case (hi, lo) of
                    (Some h, Some l) \<Rightarrow> if length h + length l < 8 then Some (h @ replicate (8 - length h - length l) 0 @ l) else None
                  | _ \<Rightarrow> None))))"

text \<open>An IPv6 text may end with a scope, which plays no part in what follows.\<close>

definition without_scope :: "string \<Rightarrow> string option" where
  "without_scope s =
     (if CHR ''/'' \<in> set s then None
      else (case split_at CHR ''%'' s of [a] \<Rightarrow> Some a | [a, sc] \<Rightarrow> if sc = [] then None else Some a | _ \<Rightarrow> None))"

definition ipv6_number :: "string \<Rightarrow> int option" where
  "ipv6_number s =
     (case without_scope s of
        None \<Rightarrow> None
      | Some a \<Rightarrow> (case mapped_parts a of
                    None \<Rightarrow> None
                  | Some (ps, tail) \<Rightarrow> map_option (number 65536) (ipv6_groups ps tail)))"

definition ip_address :: "string \<Rightarrow> ip option" where
  "ip_address s =
     (case ipv4_number s of
        Some n \<Rightarrow> Some (V4 (of_int n))
      | None \<Rightarrow> map_option (\<lambda>n. V6 (of_int n)) (ipv6_number s))"

text \<open>A prefix length, or for IPv4 a mask or its complement.\<close>

definition mask4 :: "nat \<Rightarrow> int" where
  "mask4 p = 2 ^ 32 - 2 ^ (32 - p)"

definition prefix_length :: "int \<Rightarrow> string \<Rightarrow> nat option" where
  "prefix_length w s = (if s \<noteq> [] \<and> list_all ascii_digit s \<and> digits_value s \<le> w then Some (nat (digits_value s)) else None)"

definition prefix4 :: "string \<Rightarrow> nat option" where
  "prefix4 s =
     (case prefix_length 32 s of
        Some p \<Rightarrow> Some p
      | None \<Rightarrow> (case ipv4_number s of
                  None \<Rightarrow> None
                | Some m \<Rightarrow> (case find (\<lambda>p. mask4 p = m) [0..<33] of
                             Some p \<Rightarrow> Some p
                           | None \<Rightarrow> find (\<lambda>p. mask4 p = 2 ^ 32 - 1 - m) [0..<33])))"

text \<open>\<open>ip_network(s, strict=False)\<close>.\<close>

definition ip_network :: "string \<Rightarrow> net option" where
  "ip_network s =
     (case split_at CHR ''/'' s of
        [a] \<Rightarrow> (case ip_address a of Some (V4 w) \<Rightarrow> Some (Net4 w 32) | Some (V6 w) \<Rightarrow> Some (Net6 w 128) | None \<Rightarrow> None)
      | [a, m] \<Rightarrow> (case ip_address a of
                    Some (V4 w) \<Rightarrow> map_option (Net4 w) (prefix4 m)
                  | Some (V6 w) \<Rightarrow> map_option (Net6 w) (prefix_length 128 m)
                  | None \<Rightarrow> None)
      | _ \<Rightarrow> None)"

fun in_net :: "ip \<Rightarrow> net \<Rightarrow> bool" where
  "in_net (V4 a) (Net4 b p) = (drop_bit (32 - p) a = drop_bit (32 - p) b)"
| "in_net (V6 a) (Net6 b p) = (drop_bit (128 - p) a = drop_bit (128 - p) b)"
| "in_net a n = False"

fun ipv4_mapped :: "ip \<Rightarrow> ip option" where
  "ipv4_mapped (V6 w) = (if drop_bit 32 w = 0xFFFF then Some (V4 (ucast w)) else None)"
| "ipv4_mapped (V4 w) = None"

text \<open>\<open>_ip_matches_networks\<close> on networks, and on one network given by its text.\<close>

definition address_in :: "ip \<Rightarrow> net list \<Rightarrow> bool" where
  "address_in a ns = list_ex (\<lambda>n. in_net a n \<or> (case ipv4_mapped a of Some b \<Rightarrow> in_net b n | None \<Rightarrow> False)) ns"

definition ip_matches_networks :: "string \<Rightarrow> net list \<Rightarrow> bool option" where
  "ip_matches_networks s ns = map_option (\<lambda>a. address_in a ns) (ip_address s)"

definition PRIVATE_NETWORKS :: "string list" where
  "PRIVATE_NETWORKS =
     [''0.0.0.0/8'', ''10.0.0.0/8'', ''127.0.0.0/8'', ''169.254.0.0/16'', ''172.16.0.0/12'', ''192.0.0.0/24'', ''192.168.0.0/16'',
      ''100.64.0.0/10'', ''198.18.0.0/15'', ''::1/128'', ''fc00::/7'', ''fe80::/10'']"

definition private_nets :: "net list" where
  "private_nets = (case these_all (map ip_network PRIVATE_NETWORKS) of Some ns \<Rightarrow> ns | None \<Rightarrow> [])"

section \<open>URLs\<close>

definition lower_char :: "char \<Rightarrow> char" where
  "lower_char c = (let n = (of_char c :: nat) in if 65 \<le> n \<and> n \<le> 90 \<or> 192 \<le> n \<and> n \<le> 222 \<and> n \<noteq> 215 then char_of (n + 32) else c)"

definition lower :: "string \<Rightarrow> string" where
  "lower s = map lower_char s"

definition before :: "char \<Rightarrow> string \<Rightarrow> string" where
  "before c s = takeWhile (\<lambda>d. d \<noteq> c) s"

definition after :: "char \<Rightarrow> string \<Rightarrow> string" where
  "after c s = drop (Suc (length (before c s))) s"

definition scheme_char :: "char \<Rightarrow> bool" where
  "scheme_char c \<longleftrightarrow> is_key_char c \<and> c \<noteq> CHR ''_'' \<or> c \<in> set ''+-.''"

record purl =
  pu_scheme :: string
  pu_host :: "string option"
  pu_port :: "nat option option"

text \<open>The port of a network location: none if it is empty, an error if it is not a number up to 65535 (raised when it is read).\<close>

definition port_of :: "string \<Rightarrow> nat option option" where
  "port_of s =
     (if s = [] then Some None
      else if list_all ascii_digit s \<and> digits_value s \<le> 65535 then Some (Some (nat (digits_value s))) else None)"

text \<open>\<open>urlparse\<close>, and \<open>hostname\<close> and \<open>port\<close> of its result.\<close>

definition url_scheme :: "string \<Rightarrow> string \<times> string" where
  "url_scheme u =
     (let h = before CHR '':'' u in
      if length h < length u \<and> h \<noteq> [] \<and> is_key_char (hd h) \<and> \<not> ascii_digit (hd h) \<and> hd h \<noteq> CHR ''_'' \<and> list_all scheme_char h
      then (lower h, after CHR '':'' u) else ([], u))"

definition url_netloc :: "string \<Rightarrow> string" where
  "url_netloc r = (if Sublist.prefix ''//'' r then takeWhile (\<lambda>c. c \<notin> set ''/?#'') (drop 2 r) else [])"

definition last_part :: "char \<Rightarrow> string \<Rightarrow> string" where
  "last_part c s = List.last (split_at c s)"

definition host_port :: "string \<Rightarrow> string \<times> string" where
  "host_port n =
     (let h = last_part CHR ''@'' n in
      if CHR ''['' \<in> set h then
        (let b = after CHR ''['' h in (before CHR '']'' b, after CHR '':'' (after CHR '']'' b)))
      else (before CHR '':'' h, after CHR '':'' h))"

definition lower_host :: "string \<Rightarrow> string" where
  "lower_host h = lower (before CHR ''%'' h) @ dropWhile (\<lambda>c. c \<noteq> CHR ''%'') h"

definition urlparse :: "string \<Rightarrow> purl option" where
  "urlparse u0 =
     (let u = filter (\<lambda>c. c \<notin> set [CHR 0x09, CHR 0x0A, CHR 0x0D]) (dropWhile (\<lambda>c. (of_char c :: nat) \<le> 32) u0);
          (sch, r) = url_scheme u; n = url_netloc r; (h, p) = host_port n in
      if (CHR ''['' \<in> set n) \<noteq> (CHR '']'' \<in> set n) then None
      else Some \<lparr>pu_scheme = sch, pu_host = (if h = [] then None else Some (lower_host h)), pu_port = port_of p\<rparr>)"

section \<open>Policies\<close>

record policy =
  po_allowed :: "string list"
  po_denied :: "string list"
  po_block :: bool

datatype policy_error =
    Bad_Scheme
  | No_Host
  | Denied string
  | Not_Allowed
  | Cannot_Resolve
  | Private_Address string
  | Bad_Url

definition strip_brackets :: "string \<Rightarrow> string" where
  "strip_brackets s = (let p = (\<lambda>c. c \<in> set ''[]'') in rev (dropWhile p (rev (dropWhile p s))))"

definition is_cidr :: "string \<Rightarrow> bool" where
  "is_cidr e \<longleftrightarrow> CHR ''/'' \<in> set e"

text \<open>\<open>any\<close> over addresses, where an address that cannot be read ends the search as an error.\<close>

fun any_ip :: "(string \<Rightarrow> bool option) \<Rightarrow> string list \<Rightarrow> bool option" where
  "any_ip f [] = Some False"
| "any_ip f (x # xs) = (case f x of None \<Rightarrow> None | Some True \<Rightarrow> Some True | Some False \<Rightarrow> any_ip f xs)"

text \<open>\<open>_host_entry_matches\<close>.\<close>

definition cidr_matches :: "string \<Rightarrow> string list option \<Rightarrow> bool" where
  "cidr_matches e ips =
     (case ips of
        None \<Rightarrow> False
      | Some xs \<Rightarrow>
          any_ip (\<lambda>x. case ip_address x of None \<Rightarrow> None
                   | Some a \<Rightarrow> (case ip_network e of None \<Rightarrow> None | Some n \<Rightarrow> Some (address_in a [n]))) xs = Some True)"

definition suffix_matches :: "string \<Rightarrow> string \<Rightarrow> bool" where
  "suffix_matches e host =
     (if Sublist.prefix ''*.'' e then host = drop 2 e \<or> Sublist.suffix (''.'' @ drop 2 e) host else host = e)"

definition host_entry_matches :: "string \<Rightarrow> string \<Rightarrow> string list option \<Rightarrow> bool" where
  "host_entry_matches entry host ips =
     (let e = lower (str_strip entry) in
      if e = [] then False else if is_cidr e then cidr_matches e ips else suffix_matches e host)"

text \<open>The first private address; an address that cannot be read is an error, which is not a policy error but ends the request too.\<close>

fun check_private :: "string list \<Rightarrow> policy_error + unit" where
  "check_private [] = Inr ()"
| "check_private (x # xs) =
     (case ip_matches_networks x private_nets of
        None \<Rightarrow> Inl Bad_Url
      | Some b \<Rightarrow> if b then Inl (Private_Address x) else check_private xs)"

text \<open>\<open>_validate_host_target\<close>.\<close>

definition validate_host_target :: "policy \<Rightarrow> string \<Rightarrow> string list option \<Rightarrow> policy_error + unit" where
  "validate_host_target P host ips =
     (case find (\<lambda>e. host_entry_matches e host ips) (po_denied P) of
        Some e \<Rightarrow> Inl (Denied e)
      | None \<Rightarrow>
          if po_allowed P \<noteq> [] \<and> \<not> list_ex (\<lambda>e. host_entry_matches e host ips) (po_allowed P) then
            Inl (if ips = None \<and> list_ex is_cidr (po_allowed P) then Cannot_Resolve else Not_Allowed)
          else if po_block P then (case ips of None \<Rightarrow> Inl Cannot_Resolve | Some xs \<Rightarrow> check_private xs)
          else Inr ())"

text \<open>\<open>_host_allowed\<close>: whether the host has to be resolved, and the checks before a request.\<close>

definition needs_addresses :: "policy \<Rightarrow> bool" where
  "needs_addresses P \<longleftrightarrow> po_denied P \<noteq> [] \<or> po_block P \<or> list_ex is_cidr (po_allowed P)"

definition target_host :: "string \<Rightarrow> policy_error + string \<times> purl" where
  "target_host u =
     (case urlparse u of
        None \<Rightarrow> Inl Bad_Url
      | Some p \<Rightarrow>
          if pu_scheme p \<notin> {''http'', ''https''} then Inl Bad_Scheme
          else (case pu_host p of None \<Rightarrow> Inl No_Host | Some h \<Rightarrow> Inr (strip_brackets (lower h), p)))"

definition target_port :: "purl \<Rightarrow> policy_error + nat" where
  "target_port p =
     (case pu_port p of
        None \<Rightarrow> Inl Bad_Url
      | Some q \<Rightarrow> Inr (if q \<noteq> None \<and> q \<noteq> Some 0 then the q else if pu_scheme p = ''https'' then 443 else 80))"

section \<open>Redirects\<close>

definition SENSITIVE_REDIRECT_HEADERS :: "string list" where
  "SENSITIVE_REDIRECT_HEADERS =
     [''authorization'', ''cookie'', ''cookie2'', ''proxy-authorization'', ''proxy-authenticate'', ''www-authenticate'']"

definition default_port :: "string \<Rightarrow> nat option list" where
  "default_port sch = (if sch = ''http'' then [Some 80, None] else if sch = ''https'' then [Some 443, None] else [None, None])"

text \<open>\<open>_redirect_changes_origin\<close> on parsed URLs; \<open>None\<close> if a port that is read cannot be.\<close>

definition changes_origin :: "purl \<Rightarrow> purl \<Rightarrow> bool option" where
  "changes_origin old new =
     (if pu_host old \<noteq> pu_host new then Some True
      else (case (pu_port old, pu_port new) of
              (Some p, Some q) \<Rightarrow> Some
                (if pu_scheme old = ''http'' \<and> p \<in> {Some 80, None} \<and> pu_scheme new = ''https'' \<and> q \<in> {Some 443, None} then False
                 else if pu_scheme old = pu_scheme new \<and> p \<in> set (default_port (pu_scheme old)) \<and> q \<in> set (default_port (pu_scheme old))
                 then False
                 else p \<noteq> q \<or> pu_scheme old \<noteq> pu_scheme new)
            | _ \<Rightarrow> None))"

type_synonym headers = "(string \<times> string) list"

definition sensitive :: "string \<times> string \<Rightarrow> bool" where
  "sensitive h \<longleftrightarrow> lower (fst h) \<in> set SENSITIVE_REDIRECT_HEADERS"

definition url_changes_origin :: "string \<Rightarrow> string \<Rightarrow> bool option" where
  "url_changes_origin from to = (case (urlparse from, urlparse to) of (Some a, Some b) \<Rightarrow> changes_origin a b | _ \<Rightarrow> None)"

definition strip_sensitive_headers :: "headers \<Rightarrow> string \<Rightarrow> string \<Rightarrow> headers option" where
  "strip_sensitive_headers hs from to =
     map_option (\<lambda>c. if c then filter (\<lambda>h. \<not> sensitive h) hs else hs) (url_changes_origin from to)"

definition upper :: "string \<Rightarrow> string" where
  "upper s = map (\<lambda>c. let n = (of_char c :: nat) in if 97 \<le> n \<and> n \<le> 122 then char_of (n - 32) else c) s"

definition redirect_method :: "int \<Rightarrow> string \<Rightarrow> string" where
  "redirect_method status m =
     (if status = 303 \<and> upper m \<noteq> ''HEAD'' then ''GET''
      else if status = 302 \<and> upper m \<noteq> ''HEAD'' then ''GET''
      else if status = 301 \<and> upper m = ''POST'' then ''GET''
      else m)"

record request =
  rq_method :: string
  rq_url :: string
  rq_headers :: headers
  rq_body :: "string option"

definition drop_headers :: "string list \<Rightarrow> headers \<Rightarrow> headers" where
  "drop_headers names hs = filter (\<lambda>h. lower (fst h) \<notin> set names) hs"

text \<open>\<open>_redirect_request\<close> up to the \<open>prepare\<close> of the client library; \<open>None\<close> if a URL cannot be parsed.\<close>

definition redirect_request :: "int \<Rightarrow> string \<Rightarrow> request \<Rightarrow> string \<Rightarrow> request option" where
  "redirect_request status from r to =
     (let hs = drop_headers [''host'', ''content-length''] (rq_headers r); keeps = (status = 307 \<or> status = 308) in
      map_option (\<lambda>hs'. \<lparr>rq_method = redirect_method status (rq_method r), rq_url = to, rq_headers = hs',
          rq_body = (if keeps then rq_body r else None)\<rparr>)
        (strip_sensitive_headers (if keeps then hs else drop_headers [''content-type'', ''transfer-encoding''] hs) from to))"

end
