(* ===== verification/Http_Node.thy ===== *)
theory Http_Node
  imports Http_Policy
begin

text \<open>
  The requests of an HTTP node (\<open>HttpExecutor\<close> of \<^verbatim>\<open>plaita/node/http.py\<close>): the cache of resolved hosts, connections that are
  pinned to checked addresses, and the loops that follow redirects, synchronous and asynchronous.  The client libraries are
  arguments: what a request becomes when it is prepared, which host and port it is sent to, whether an open connection is used
  again, and what the network answers.  The log of the state records every address that is dialed and every request that is sent.
\<close>

section \<open>Clients\<close>

record response =
  rs_status :: int
  rs_url :: string
  rs_location :: "string option"
  rs_chunks :: "nat list"
  rs_broken :: bool

datatype http_error =
    Policy_Error policy_error
  | Cancelled_Request
  | Budget_Exceeded
  | Too_Many_Redirects
  | Too_Large
  | Client_Error

record 'w client =
  cl_prepare :: "request \<Rightarrow> request option"
  cl_endpoint :: "request \<Rightarrow> string \<times> nat"
  cl_join :: "string \<Rightarrow> string \<Rightarrow> string option"
  cl_getaddrinfo :: "string \<Rightarrow> nat \<Rightarrow> 'w \<Rightarrow> string list option \<times> 'w"
  cl_clock :: "'w \<Rightarrow> int \<times> 'w"
  cl_cancelled :: "'w \<Rightarrow> bool \<times> 'w"
  cl_connect :: "string \<Rightarrow> nat \<Rightarrow> 'w \<Rightarrow> bool \<times> 'w"
  cl_reuse :: "request \<Rightarrow> 'w \<Rightarrow> bool \<times> 'w"
  cl_exchange :: "request \<Rightarrow> int \<Rightarrow> 'w \<Rightarrow> response option \<times> 'w"

text \<open>
  An address that is dialed for a host and a port among those the host resolved to; a request that is sent, the URL it was made for,
  when, with which timeout, and the dial that made the connection it leaves over (none for the connections the client library makes by itself).
\<close>

record dial =
  di_host :: string
  di_port :: nat
  di_ips :: "string list"
  di_ip :: string

record sent =
  se_request :: request
  se_target :: string
  se_time :: int
  se_timeout :: int
  se_dial :: "dial option"

record 'w net_state =
  ns_dns :: "((string \<times> nat) \<times> int \<times> string list) list"
  ns_open :: "((string \<times> nat) \<times> dial) list"
  ns_dialed :: "dial list"
  ns_sent :: "sent list"
  ns_world :: 'w

record executor =
  ex_policy :: policy
  ex_timeout :: int
  ex_redirects :: nat
  ex_dns_ttl :: int
  ex_operator_block :: bool

text \<open>\<open>_effective_block_private\<close>, \<open>_restrictions_active\<close>.\<close>

definition effective_policy :: "executor \<Rightarrow> policy" where
  "effective_policy X = (ex_policy X)\<lparr>po_block := po_block (ex_policy X) \<or> ex_operator_block X\<rparr>"

definition restrictions_active :: "executor \<Rightarrow> bool" where
  "restrictions_active X \<longleftrightarrow> (let P = effective_policy X in po_allowed P \<noteq> [] \<or> po_denied P \<noteq> [] \<or> po_block P)"

text \<open>An operation on the world.\<close>

definition with_world :: "('w \<Rightarrow> 'a \<times> 'w) \<Rightarrow> 'w net_state \<Rightarrow> 'a \<times> 'w net_state" where
  "with_world f s = (let (x, w) = f (ns_world s) in (x, s\<lparr>ns_world := w\<rparr>))"

section \<open>Resolution\<close>

text \<open>\<open>_resolve_host\<close> and \<open>_cached_resolve_host\<close>: a failure is not cached.\<close>

definition resolve_host :: "'w client \<Rightarrow> string \<Rightarrow> nat \<Rightarrow> 'w net_state \<Rightarrow> string list option \<times> 'w net_state" where
  "resolve_host C h p s = (let (r, s1) = with_world (cl_getaddrinfo C h p) s in (map_option (\<lambda>xs. sort (remdups xs)) r, s1))"

definition store_resolved ::
  "int \<Rightarrow> string \<Rightarrow> nat \<Rightarrow> string list option \<times> 'w net_state \<Rightarrow> string list option \<times> 'w net_state" where
  "store_resolved now h p r =
     (case r of (Some ips, s) \<Rightarrow> (Some ips, s\<lparr>ns_dns := AList.update (h, p) (now, ips) (ns_dns s)\<rparr>) | (None, s) \<Rightarrow> (None, s))"

definition cached_resolve_host ::
  "'w client \<Rightarrow> int \<Rightarrow> string \<Rightarrow> nat \<Rightarrow> 'w net_state \<Rightarrow> string list option \<times> 'w net_state" where
  "cached_resolve_host C ttl h p s =
     (if ttl \<le> 0 then resolve_host C h p s
      else (let (now, s1) = with_world (cl_clock C) s in
        case map_of (ns_dns s1) (h, p) of
          Some (t, ips) \<Rightarrow> if now - t < ttl then (Some ips, s1) else store_resolved now h p (resolve_host C h p s1)
        | None \<Rightarrow> store_resolved now h p (resolve_host C h p s1)))"

text \<open>\<open>_check_policy\<close>: \<open>_host_allowed\<close> with the cached resolver.\<close>

definition check_policy :: "'w client \<Rightarrow> executor \<Rightarrow> string \<Rightarrow> 'w net_state \<Rightarrow> (policy_error + unit) \<times> 'w net_state" where
  "check_policy C X u s =
     (let P = effective_policy X in
      case target_host u of
        Inl e \<Rightarrow> (Inl e, s)
      | Inr (h, p) \<Rightarrow>
          if needs_addresses P then
            (case target_port p of
               Inl e \<Rightarrow> (Inl e, s)
             | Inr q \<Rightarrow> (let (ips, s1) = cached_resolve_host C (ex_dns_ttl X) h q s in (validate_host_target P h ips, s1)))
          else (validate_host_target P h None, s))"

text \<open>\<open>_resolve_and_validate\<close>: the addresses a connection may use.\<close>

definition resolve_and_validate ::
  "'w client \<Rightarrow> executor \<Rightarrow> string \<Rightarrow> nat \<Rightarrow> 'w net_state \<Rightarrow> (policy_error + string list) \<times> 'w net_state" where
  "resolve_and_validate C X h p s =
     (let (r, s1) = cached_resolve_host C (ex_dns_ttl X) h p s in
      case r of
        None \<Rightarrow> (Inl Cannot_Resolve, s1)
      | Some ips \<Rightarrow>
          if ips = [] then (Inl Cannot_Resolve, s1)
          else (case validate_host_target (effective_policy X) h (Some ips) of Inl e \<Rightarrow> (Inl e, s1) | Inr _ \<Rightarrow> (Inr ips, s1)))"

section \<open>Connections\<close>

text \<open>\<open>_PinnedConnectionMixin._new_conn\<close>: one address after the other, until one accepts.\<close>

fun dial_first :: "'w client \<Rightarrow> string \<Rightarrow> nat \<Rightarrow> string list \<Rightarrow> string list \<Rightarrow> 'w net_state \<Rightarrow> dial option \<times> 'w net_state" where
  "dial_first C h p ips [] s = (None, s)"
| "dial_first C h p ips (x # xs) s =
     (let d = \<lparr>di_host = h, di_port = p, di_ips = ips, di_ip = x\<rparr>;
          (ok, s2) = with_world (cl_connect C x p) (s\<lparr>ns_dialed := ns_dialed s @ [d]\<rparr>) in
      if ok then (Some d, s2\<lparr>ns_open := ((h, p), d) # ns_open s2\<rparr>) else dial_first C h p ips xs s2)"

definition new_conn :: "'w client \<Rightarrow> executor \<Rightarrow> string \<Rightarrow> nat \<Rightarrow> 'w net_state \<Rightarrow> (http_error + dial) \<times> 'w net_state" where
  "new_conn C X h p s =
     (let (r, s1) = resolve_and_validate C X h p s in
      case r of
        Inl e \<Rightarrow> (Inl (Policy_Error e), s1)
      | Inr ips \<Rightarrow> (let (c, s2) = dial_first C h p ips ips s1 in (case c of Some d \<Rightarrow> Inr d | None \<Rightarrow> Inl Client_Error, s2)))"

text \<open>
  The connection of a request: the session of a restricted executor has one that is open, or makes a pinned one; the shared session
  connects by itself.
\<close>

definition connected :: "'w client \<Rightarrow> executor \<Rightarrow> request \<Rightarrow> bool \<Rightarrow> 'w net_state \<Rightarrow> (http_error + dial option) \<times> 'w net_state" where
  "connected C X r again s =
     (if restrictions_active X then
        (case if again then map_of (ns_open s) (cl_endpoint C r) else None of
           Some d \<Rightarrow> (Inr (Some d), s)
         | None \<Rightarrow>
             (let (c, s1) = new_conn C X (fst (cl_endpoint C r)) (snd (cl_endpoint C r)) s in
              (case c of Inl e \<Rightarrow> Inl e | Inr d \<Rightarrow> Inr (Some d), s1)))
      else (Inr None, s))"

definition exchanged ::
  "'w client \<Rightarrow> request \<Rightarrow> string \<Rightarrow> int \<Rightarrow> int \<Rightarrow> dial option \<Rightarrow> 'w net_state \<Rightarrow> (http_error + response) \<times> 'w net_state" where
  "exchanged C r to now t d s =
     (let (a, s') = with_world (cl_exchange C r t)
        (s\<lparr>ns_sent := ns_sent s @ [\<lparr>se_request = r, se_target = to, se_time = now, se_timeout = t, se_dial = d\<rparr>]\<rparr>) in
      ((case a of None \<Rightarrow> Inl Client_Error | Some x \<Rightarrow> Inr x), s'))"

definition session_send ::
  "'w client \<Rightarrow> executor \<Rightarrow> request \<Rightarrow> string \<Rightarrow> int \<Rightarrow> int \<Rightarrow> 'w net_state \<Rightarrow> (http_error + response) \<times> 'w net_state" where
  "session_send C X r to now t s =
     (let (again, s0) = with_world (cl_reuse C r) s; (c, s1) = connected C X r again s0 in
      case c of Inl e \<Rightarrow> (Inl e, s1) | Inr d \<Rightarrow> exchanged C r to now t d s1)"

text \<open>\<open>_send_sync_with_budget\<close>.\<close>

definition send_with_budget ::
  "'w client \<Rightarrow> executor \<Rightarrow> request \<Rightarrow> string \<Rightarrow> int \<Rightarrow> 'w net_state \<Rightarrow> (http_error + response) \<times> 'w net_state" where
  "send_with_budget C X r to deadline s =
     (let (c, s1) = with_world (cl_cancelled C) s in
      if c then (Inl Cancelled_Request, s1)
      else (let (now, s2) = with_world (cl_clock C) s1; left = deadline - now in
        if left \<le> 0 then (Inl Budget_Exceeded, s2)
        else session_send C X r to now left s2))"

section \<open>The synchronous loop\<close>

text \<open>\<open>Response.is_redirect\<close> of the client library.\<close>

definition is_redirect :: "response \<Rightarrow> bool" where
  "is_redirect x \<longleftrightarrow> rs_location x \<noteq> None \<and> rs_status x \<in> {301, 302, 303, 307, 308}"

definition guard_policy :: "'w client \<Rightarrow> executor \<Rightarrow> string \<Rightarrow> 'w net_state \<Rightarrow> (http_error + unit) \<times> 'w net_state" where
  "guard_policy C X u s =
     (if restrictions_active X then
        (let (r, s1) = check_policy C X u s in ((case r of Inl e \<Rightarrow> Inl (Policy_Error e) | Inr _ \<Rightarrow> Inr ()), s1))
      else (Inr (), s))"

text \<open>The request for the next hop, with the URL it goes to.\<close>

definition next_request :: "'w client \<Rightarrow> request \<Rightarrow> response \<Rightarrow> (request \<times> string) option" where
  "next_request C r x =
     (case cl_join C (rs_url x) (case rs_location x of Some l \<Rightarrow> l | None \<Rightarrow> []) of
        None \<Rightarrow> None
      | Some to \<Rightarrow>
          (case redirect_request (rs_status x) (if rs_url x \<noteq> [] then rs_url x else rq_url r) r to of
             None \<Rightarrow> None
           | Some q \<Rightarrow> map_option (\<lambda>q'. (q', to)) (cl_prepare C q)))"

fun follow ::
  "'w client \<Rightarrow> executor \<Rightarrow> int \<Rightarrow> nat \<Rightarrow> request \<Rightarrow> response \<Rightarrow> 'w net_state \<Rightarrow> (request \<times> (http_error + response)) \<times> 'w net_state" where
  "follow C X deadline 0 r x s = ((r, if is_redirect x then Inl Too_Many_Redirects else Inr x), s)"
| "follow C X deadline (Suc k) r x s =
     (if \<not> is_redirect x then ((r, Inr x), s)
      else (case next_request C r x of
              None \<Rightarrow> ((r, Inl Client_Error), s)
            | Some (q, to) \<Rightarrow>
                (let (g, s1) = guard_policy C X to s in
                 case g of
                   Inl e \<Rightarrow> ((q, Inl e), s1)
                 | Inr _ \<Rightarrow>
                     (let (a, s2) = send_with_budget C X q to deadline s1 in
                      case a of Inl e \<Rightarrow> ((q, Inl e), s2) | Inr y \<Rightarrow> follow C X deadline k q y s2))))"

text \<open>The body, chunk by chunk, up to the cap.\<close>

fun read_capped :: "nat \<Rightarrow> nat \<Rightarrow> nat list \<Rightarrow> nat option" where
  "read_capped cap n [] = Some n"
| "read_capped cap n (c # cs) = (if cap < n + c then None else read_capped cap (n + c) cs)"

text \<open>\<open>HttpResponse\<close>: what an error is classified by, and \<open>handle_http_node_err\<close>.\<close>

record outcome =
  oc_request :: "request option"
  oc_response :: "response option"
  oc_result :: "http_error + nat"

definition failed_with :: "request \<Rightarrow> http_error \<Rightarrow> outcome" where
  "failed_with r e = \<lparr>oc_request = Some r, oc_response = None, oc_result = Inl e\<rparr>"

definition error_code :: "outcome option \<Rightarrow> int" where
  "error_code r =
     (case r of None \<Rightarrow> 1001 | Some y \<Rightarrow> if oc_request y \<noteq> None \<and> oc_response y = None then 1002 else 1003)"

definition read_body :: "nat \<Rightarrow> request \<Rightarrow> response \<Rightarrow> outcome" where
  "read_body cap r x =
     (case read_capped cap 0 (rs_chunks x) of
        None \<Rightarrow> \<lparr>oc_request = Some r, oc_response = Some x, oc_result = Inl Too_Large\<rparr>
      | Some n \<Rightarrow> if rs_broken x then failed_with r Client_Error
                  else \<lparr>oc_request = Some r, oc_response = Some x, oc_result = Inr n\<rparr>)"

text \<open>The hops of a request that has been prepared, from the first check of the policy to the last answer.\<close>

definition send_all ::
  "'w client \<Rightarrow> executor \<Rightarrow> request \<Rightarrow> 'w net_state \<Rightarrow> (request \<times> (http_error + response)) \<times> 'w net_state" where
  "send_all C X r s =
     (let (g, s1) = guard_policy C X (rq_url r) s in
      case g of
        Inl e \<Rightarrow> ((r, Inl e), s1)
      | Inr _ \<Rightarrow>
          (let (now, s2) = with_world (cl_clock C) s1; deadline = now + ex_timeout X;
               (a, s3) = send_with_budget C X r (rq_url r) deadline s2 in
           case a of Inl e \<Rightarrow> ((r, Inl e), s3) | Inr x \<Rightarrow> follow C X deadline (ex_redirects X) r x s3))"

text \<open>\<open>handle_request\<close>: a restricted request has a session of its own.  A request that cannot be prepared leaves no outcome.\<close>

definition handle_request :: "'w client \<Rightarrow> executor \<Rightarrow> nat \<Rightarrow> request \<Rightarrow> 'w net_state \<Rightarrow> outcome option \<times> 'w net_state" where
  "handle_request C X cap r0 s =
     (case cl_prepare C r0 of
        None \<Rightarrow> (None, s)
      | Some r \<Rightarrow>
          (let ((q, a), s1) = send_all C X r (s\<lparr>ns_open := []\<rparr>) in
           (Some (case a of Inl e \<Rightarrow> failed_with q e | Inr x \<Rightarrow> read_body cap q x), s1)))"

end
