(* ===== verification/Http_Safety.thy ===== *)
theory Http_Safety
  imports Http_Node
begin

unbundle bit_operations_syntax

text \<open>
  Safety of the requests of an HTTP node: a restricted request only goes to addresses that its policy accepts, whatever the network
  answers; a secret header does not follow a redirect to another origin; all hops share one budget.
\<close>

section \<open>Policies\<close>

lemma find_None_all: "(find P xs = None) = (\<forall>x \<in> set xs. \<not> P x)"
  by (induction xs) auto

lemma check_private_all:
  "check_private xs = Inr () \<Longrightarrow> x \<in> set xs \<Longrightarrow> ip_matches_networks x private_nets = Some False"
  by (induction xs) (auto split: option.splits if_splits)

lemma validated_denied: "validate_host_target P h ips = Inr () \<Longrightarrow> e \<in> set (po_denied P) \<Longrightarrow> \<not> host_entry_matches e h ips"
  by (auto simp: validate_host_target_def find_None_all split: option.splits)

lemma validated_allowed:
  "validate_host_target P h ips = Inr () \<Longrightarrow> po_allowed P = [] \<or> list_ex (\<lambda>e. host_entry_matches e h ips) (po_allowed P)"
  by (auto simp: validate_host_target_def split: option.splits if_splits)

lemma validated_private:
  "validate_host_target P h (Some ips) = Inr () \<Longrightarrow> po_block P \<Longrightarrow> x \<in> set ips \<Longrightarrow> ip_matches_networks x private_nets = Some False"
  by (auto simp: validate_host_target_def check_private_all split: option.splits if_splits)

section \<open>The log\<close>

text \<open>The operations on the world leave the rest of the state as it is.\<close>

lemma with_world_fields [simp]:
  "ns_dns (snd (with_world f s)) = ns_dns s"
  "ns_open (snd (with_world f s)) = ns_open s"
  "ns_dialed (snd (with_world f s)) = ns_dialed s"
  "ns_sent (snd (with_world f s)) = ns_sent s"
  by (simp_all add: with_world_def split: prod.split)

definition same_log :: "'w net_state \<Rightarrow> 'w net_state \<Rightarrow> bool" where
  "same_log s s' \<longleftrightarrow> ns_open s' = ns_open s \<and> ns_dialed s' = ns_dialed s \<and> ns_sent s' = ns_sent s"

lemma same_log_refl [simp]: "same_log s s"
  by (simp add: same_log_def)

lemma same_log_trans: "same_log s s' \<Longrightarrow> same_log s' s'' \<Longrightarrow> same_log s s''"
  by (simp add: same_log_def)

lemma same_log_with_world [simp]: "same_log s (snd (with_world f s))"
  by (simp add: same_log_def)

lemma same_log_resolve_host [simp]: "same_log s (snd (resolve_host C h p s))"
  by (simp add: resolve_host_def case_prod_beta)

lemma same_log_store_resolved: "same_log s (snd r) \<Longrightarrow> same_log s (snd (store_resolved now h p r))"
  by (cases r) (auto simp: store_resolved_def same_log_def split: option.splits)

lemma same_log_cached_resolve_host [simp]: "same_log s (snd (cached_resolve_host C ttl h p s))"
  by (auto simp: cached_resolve_host_def Let_def case_prod_beta split: option.splits
      intro!: same_log_store_resolved intro: same_log_trans [OF same_log_with_world same_log_resolve_host])

lemma same_log_check_policy [simp]: "same_log s (snd (check_policy C X u s))"
  by (auto simp: check_policy_def Let_def case_prod_beta split: sum.splits prod.splits)

lemma same_log_guard_policy [simp]: "same_log s (snd (guard_policy C X u s))"
  by (auto simp: guard_policy_def case_prod_beta split: sum.splits)

lemma same_log_resolve_and_validate [simp]: "same_log s (snd (resolve_and_validate C X h p s))"
  by (auto simp: resolve_and_validate_def Let_def case_prod_beta split: option.splits sum.splits)

section \<open>Connections\<close>

definition checked_dial :: "executor \<Rightarrow> dial \<Rightarrow> bool" where
  "checked_dial X d \<longleftrightarrow>
     di_ip d \<in> set (di_ips d) \<and> validate_host_target (effective_policy X) (di_host d) (Some (di_ips d)) = Inr ()"

text \<open>
  Every dial is checked, every open connection has its dial, to the host and port it is kept for, and so has every request of a
  restricted executor.
\<close>

definition net_ok :: "'w client \<Rightarrow> executor \<Rightarrow> 'w net_state \<Rightarrow> bool" where
  "net_ok C X s \<longleftrightarrow>
     (\<forall>d \<in> set (ns_dialed s). checked_dial X d) \<and>
     (\<forall>(a, d) \<in> set (ns_open s). d \<in> set (ns_dialed s) \<and> (di_host d, di_port d) = a) \<and>
     (restrictions_active X \<longrightarrow>
        (\<forall>e \<in> set (ns_sent s). \<exists>d \<in> set (ns_dialed s). se_dial e = Some d \<and> (di_host d, di_port d) = cl_endpoint C (se_request e)))"

lemma net_ok_same_log: "same_log s s' \<Longrightarrow> net_ok C X s \<Longrightarrow> net_ok C X s'"
  by (simp add: same_log_def net_ok_def)

lemma net_ok_with_world [simp]: "net_ok C X (snd (with_world f s)) = net_ok C X s"
  by (simp add: net_ok_def)

lemma resolved_checked:
  "resolve_and_validate C X h p s = (Inr ips, s1) \<Longrightarrow> validate_host_target (effective_policy X) h (Some ips) = Inr ()"
  by (auto simp: resolve_and_validate_def Let_def case_prod_beta split: option.splits sum.splits if_splits)

lemma net_ok_dial:
  assumes "net_ok C X s" and "checked_dial X d"
  shows "net_ok C X (s\<lparr>ns_dialed := ns_dialed s @ [d]\<rparr>)"
  using assms unfolding net_ok_def by auto

lemma net_ok_open:
  "net_ok C X s \<Longrightarrow> d \<in> set (ns_dialed s) \<Longrightarrow> (di_host d, di_port d) = a \<Longrightarrow> net_ok C X (s\<lparr>ns_open := (a, d) # ns_open s\<rparr>)"
  unfolding net_ok_def by auto

text \<open>The dial of a connection that was made or kept for an endpoint.\<close>

definition dialed_for :: "'w net_state \<Rightarrow> string \<times> nat \<Rightarrow> dial \<Rightarrow> bool" where
  "dialed_for s a d \<longleftrightarrow> d \<in> set (ns_dialed s) \<and> (di_host d, di_port d) = a"

lemma net_ok_dial_first:
  assumes "net_ok C X s" and "set xs \<subseteq> set ips" and "validate_host_target (effective_policy X) h (Some ips) = Inr ()"
  shows "net_ok C X (snd (dial_first C h p ips xs s)) \<and> (\<forall>d. fst (dial_first C h p ips xs s) = Some d \<longrightarrow>
    dialed_for (snd (dial_first C h p ips xs s)) (h, p) d)"
  using assms
proof (induction xs arbitrary: s)
  case (Cons x xs)
  define d where "d = \<lparr>di_host = h, di_port = p, di_ips = ips, di_ip = x\<rparr>"
  define s1 where "s1 = s\<lparr>ns_dialed := ns_dialed s @ [d]\<rparr>"
  define r where "r = with_world (cl_connect C x p) s1"
  have ok1: "net_ok C X (snd r)"
    using Cons.prems by (simp add: r_def s1_def d_def net_ok_dial checked_dial_def)
  have d: "d \<in> set (ns_dialed (snd r))" "(di_host d, di_port d) = (h, p)"
    by (simp_all add: r_def s1_def d_def)
  show ?case
  proof (cases "fst r")
    case True
    then show ?thesis
      using net_ok_open [OF ok1 d] d
      by (simp add: d_def [symmetric] s1_def [symmetric] r_def [symmetric] Let_def case_prod_beta dialed_for_def)
  next
    case False
    then show ?thesis
      using Cons.IH [OF ok1] Cons.prems by (simp add: d_def [symmetric] s1_def [symmetric] r_def [symmetric] Let_def case_prod_beta)
  qed
qed simp

lemma net_ok_new_conn:
  assumes "net_ok C X s"
  shows "net_ok C X (snd (new_conn C X h p s)) \<and> (\<forall>d. fst (new_conn C X h p s) = Inr d \<longrightarrow>
    dialed_for (snd (new_conn C X h p s)) (h, p) d)"
proof -
  have n: "net_ok C X (snd (resolve_and_validate C X h p s))"
    using net_ok_same_log assms same_log_resolve_and_validate by blast
  show ?thesis
  proof (cases "resolve_and_validate C X h p s")
    case (Pair r s1)
    then show ?thesis
      using n net_ok_dial_first [of C X s1] resolved_checked [of C X h p s]
      by (cases r) (auto simp: new_conn_def case_prod_beta split: option.splits)
  qed
qed


section \<open>Sending\<close>

lemma endpoint_dialed: "net_ok C X s \<Longrightarrow> map_of (ns_open s) a = Some d \<Longrightarrow> dialed_for s a d"
  unfolding net_ok_def dialed_for_def by (blast dest: map_of_SomeD)

lemma net_ok_sent:
  assumes "net_ok C X s" and "restrictions_active X \<longrightarrow> (\<exists>d. se_dial e = Some d \<and> dialed_for s (cl_endpoint C (se_request e)) d)"
  shows "net_ok C X (s\<lparr>ns_sent := ns_sent s @ [e]\<rparr>)"
  using assms unfolding net_ok_def dialed_for_def by auto

lemma connected_ok:
  assumes "net_ok C X s"
  shows "net_ok C X (snd (connected C X r again s)) \<and> (\<forall>c. fst (connected C X r again s) = Inr c \<longrightarrow> restrictions_active X \<longrightarrow>
    (\<exists>d. c = Some d \<and> dialed_for (snd (connected C X r again s)) (cl_endpoint C r) d))"
  using net_ok_new_conn [OF assms, of "fst (cl_endpoint C r)" "snd (cl_endpoint C r)"] assms endpoint_dialed [OF assms]
  by (auto simp: connected_def case_prod_beta split: option.splits sum.splits)

lemma exchanged_sent [simp]:
  "ns_sent (snd (exchanged C r to now t d s)) =
     ns_sent s @ [\<lparr>se_request = r, se_target = to, se_time = now, se_timeout = t, se_dial = d\<rparr>]"
  by (simp add: exchanged_def case_prod_beta)

lemma net_ok_session_send:
  assumes "net_ok C X s"
  shows "net_ok C X (snd (session_send C X r to now t s))"
proof -
  define k where "k = connected C X r (fst (with_world (cl_reuse C r) s)) (snd (with_world (cl_reuse C r) s))"
  have k: "net_ok C X (snd k) \<and> (\<forall>c. fst k = Inr c \<longrightarrow> restrictions_active X \<longrightarrow> (\<exists>d. c = Some d \<and> dialed_for (snd k) (cl_endpoint C r) d))"
    unfolding k_def by (rule connected_ok) (simp add: assms)
  show ?thesis
  proof (cases "fst k")
    case (Inl e)
    then show ?thesis using k by (simp add: session_send_def k_def [symmetric] case_prod_beta)
  next
    case (Inr c)
    have "net_ok C X ((snd k)\<lparr>ns_sent := ns_sent (snd k) @ [\<lparr>se_request = r, se_target = to, se_time = now, se_timeout = t, se_dial = c\<rparr>]\<rparr>)"
      by (rule net_ok_sent) (use k Inr in auto)
    with Inr show ?thesis by (simp add: session_send_def k_def [symmetric] exchanged_def case_prod_beta)
  qed
qed

lemma net_ok_send_with_budget: "net_ok C X s \<Longrightarrow> net_ok C X (snd (send_with_budget C X r to deadline s))"
  by (simp add: send_with_budget_def Let_def case_prod_beta net_ok_session_send)

lemma net_ok_guard: "net_ok C X s \<Longrightarrow> net_ok C X (snd (guard_policy C X u s))"
  using net_ok_same_log same_log_guard_policy by blast

lemma net_ok_follow: "net_ok C X s \<Longrightarrow> net_ok C X (snd (follow C X deadline k r x s))"
proof (induction k arbitrary: r x s)
  case (Suc k)
  show ?case
  proof (cases "is_redirect x")
    case True
    show ?thesis
    proof (cases "next_request C r x")
      case (Some z)
      obtain q to where z: "z = (q, to)" by (cases z)
      obtain g s1 where g: "guard_policy C X to s = (g, s1)" by fastforce
      obtain a s2 where a: "send_with_budget C X q to deadline s1 = (a, s2)" by fastforce
      have n: "net_ok C X s1" "net_ok C X s2"
        using net_ok_guard [OF Suc.prems, of to] net_ok_send_with_budget [of C X s1 q to deadline] by (simp_all add: g a)
      then show ?thesis
        using True Some Suc.IH [OF n(2)] by (cases g; cases a) (simp_all add: z g a)
    qed (simp add: True Suc.prems)
  qed (simp add: Suc.prems)
qed simp

lemma net_ok_send_all: "net_ok C X s \<Longrightarrow> net_ok C X (snd (send_all C X r s))"
  by (auto simp: send_all_def Let_def case_prod_beta net_ok_follow net_ok_send_with_budget net_ok_guard split: sum.split)

lemma net_ok_handle_request:
  assumes "ns_dialed s = []" and "ns_sent s = []" and "handle_request C X cap r s = (y, s')"
  shows "net_ok C X s' \<or> ns_dialed s' = [] \<and> ns_sent s' = []"
proof -
  have "net_ok C X (s\<lparr>ns_open := []\<rparr>)"
    using assms by (simp add: net_ok_def)
  then have "net_ok C X (snd (send_all C X q (s\<lparr>ns_open := []\<rparr>)))" for q
    by (rule net_ok_send_all)
  then show ?thesis
    using assms by (auto simp: handle_request_def case_prod_beta split: option.splits)
qed

section \<open>Hops\<close>

definition answers :: "'w client \<Rightarrow> request \<Rightarrow> response \<Rightarrow> bool" where
  "answers C r x \<longleftrightarrow> (\<exists>t w. fst (cl_exchange C r t w) = Some x)"

text \<open>The requests that are sent after one: each follows an answer to the one before it, and has what is left of the budget.\<close>

fun hops :: "'w client \<Rightarrow> int \<Rightarrow> request \<Rightarrow> sent list \<Rightarrow> bool" where
  "hops C deadline r [] = True"
| "hops C deadline r (e # es) =
     (0 < se_timeout e \<and> se_time e + se_timeout e = deadline \<and>
      (\<exists>x. answers C r x \<and> next_request C r x = Some (se_request e, se_target e)) \<and> hops C deadline (se_request e) es)"

lemma hops_budget: "hops C deadline r es \<Longrightarrow> e \<in> set es \<Longrightarrow> 0 < se_timeout e \<and> se_time e + se_timeout e = deadline"
  by (induction es arbitrary: r) auto

lemma sent_same_log: "same_log s s' \<Longrightarrow> ns_sent s' = ns_sent s"
  by (simp add: same_log_def)

lemma sent_dial_first [simp]: "ns_sent (snd (dial_first C h p ips xs s)) = ns_sent s"
proof (induction xs arbitrary: s)
  case (Cons x xs)
  show ?case
    by (simp add: Let_def case_prod_beta Cons.IH)
qed simp

lemma sent_new_conn [simp]: "ns_sent (snd (new_conn C X h p s)) = ns_sent s"
  using sent_same_log [OF same_log_resolve_and_validate [of s C X h p]]
  by (simp add: new_conn_def case_prod_beta split: sum.split)

lemma sent_connected [simp]: "ns_sent (snd (connected C X r again s)) = ns_sent s"
  by (simp add: connected_def case_prod_beta split: option.split)

lemma exchanged_answer: "fst (exchanged C r to now t d s) = Inr x \<Longrightarrow> answers C r x"
  by (auto simp: exchanged_def answers_def with_world_def case_prod_beta split: option.splits)

lemma session_send_log:
  assumes "session_send C X r to now t s = (a, s')"
  shows "(\<exists>e. a = Inl e) \<and> ns_sent s' = ns_sent s \<or>
    (\<exists>d. ns_sent s' = ns_sent s @ [\<lparr>se_request = r, se_target = to, se_time = now, se_timeout = t, se_dial = d\<rparr>]) \<and> (\<forall>x. a = Inr x \<longrightarrow> answers C r x)"
proof -
  define k where "k = connected C X r (fst (with_world (cl_reuse C r) s)) (snd (with_world (cl_reuse C r) s))"
  have k: "ns_sent (snd k) = ns_sent s"
    by (simp add: k_def)
  have *: "(case fst k of Inl e \<Rightarrow> (Inl e, snd k) | Inr d \<Rightarrow> exchanged C r to now t d (snd k)) = (a, s')"
    using assms unfolding session_send_def k_def by (simp add: case_prod_beta)
  then show ?thesis
  proof (cases "fst k")
    case (Inr u)
    then have ex: "exchanged C r to now t u (snd k) = (a, s')"
      using * by simp
    show ?thesis
      using exchanged_sent [of C r to now t u "snd k"] exchanged_answer [of C r to now t u "snd k"] unfolding ex by (simp add: k)
  qed (use k in auto)
qed

lemma send_with_budget_log:
  assumes "send_with_budget C X r to deadline s = (a, s')"
  shows "(\<exists>e. a = Inl e) \<and> ns_sent s' = ns_sent s \<or>
    (\<exists>e. ns_sent s' = ns_sent s @ [e] \<and> se_request e = r \<and> se_target e = to \<and> 0 < se_timeout e \<and>
      se_time e + se_timeout e = deadline \<and> (\<forall>x. a = Inr x \<longrightarrow> answers C r x))"
proof -
  define c where "c = with_world (cl_cancelled C) s"
  define n where "n = with_world (cl_clock C) (snd c)"
  have sent: "ns_sent (snd c) = ns_sent s" "ns_sent (snd n) = ns_sent s"
    by (simp_all add: c_def n_def)
  consider "fst c" | "\<not> fst c" "deadline - fst n \<le> 0" | "\<not> fst c" "0 < deadline - fst n"
    by linarith
  then show ?thesis
  proof cases
    case 3
    then have "session_send C X r to (fst n) (deadline - fst n) (snd n) = (a, s')"
      using assms by (simp add: send_with_budget_def Let_def case_prod_beta c_def n_def)
    from session_send_log [OF this] 3 show ?thesis
      by (auto simp: sent)
  qed (use assms sent in \<open>auto simp: send_with_budget_def Let_def case_prod_beta c_def n_def\<close>)
qed

lemma follow_log:
  assumes "answers C r x"
  shows "\<exists>es. ns_sent (snd (follow C X deadline k r x s)) = ns_sent s @ es \<and> length es \<le> k \<and> hops C deadline r es"
  using assms
proof (induction k arbitrary: r x s)
  case (Suc k)
  have nil: "\<exists>es. ns_sent s' = ns_sent s @ es \<and> length es \<le> Suc k \<and> hops C deadline r es" if "ns_sent s' = ns_sent s" for s'
    by (rule exI [of _ "[]"]) (simp add: that)
  show ?case
  proof (cases "is_redirect x \<and> next_request C r x \<noteq> None")
    case True
    then obtain q to where z: "next_request C r x = Some (q, to)" by fastforce
    obtain g s1 where g: "guard_policy C X to s = (g, s1)" by fastforce
    obtain a s2 where a: "send_with_budget C X q to deadline s1 = (a, s2)" by fastforce
    have s1: "ns_sent s1 = ns_sent s"
      using sent_same_log [OF same_log_guard_policy [of s C X to]] by (simp add: g)
    show ?thesis
    proof (cases g)
      case (Inl e)
      then show ?thesis using True nil [of s1] by (simp add: z g s1)
    next
      case (Inr u)
      have fl: "follow C X deadline (Suc k) r x s = (case a of Inl e \<Rightarrow> ((q, Inl e), s2) | Inr y \<Rightarrow> follow C X deadline k q y s2)"
        using True by (simp add: z g Inr a)
      from send_with_budget_log [OF a] show ?thesis
      proof (elim disjE exE conjE)
        fix e
        assume "a = Inl e" and "ns_sent s2 = ns_sent s1"
        then show ?thesis using nil [of s2] by (simp add: fl s1 del: follow.simps)
      next
        fix e
        assume e: "ns_sent s2 = ns_sent s1 @ [e]" "se_request e = q" "se_target e = to" "0 < se_timeout e"
          "se_time e + se_timeout e = deadline" "\<forall>y. a = Inr y \<longrightarrow> answers C q y"
        have one: "hops C deadline r [e]"
          using e z Suc.prems by auto
        show ?thesis
        proof (cases a)
          case (Inl f)
          then show ?thesis by (intro exI [of _ "[e]"]) (use e one in \<open>simp add: fl s1 del: follow.simps\<close>)
        next
          case (Inr y)
          with e have "answers C q y" by simp
          from Suc.IH [OF this, of s2] obtain es where es: "ns_sent (snd (follow C X deadline k q y s2)) = ns_sent s2 @ es"
            "length es \<le> k" "hops C deadline q es" by auto
          show ?thesis by (intro exI [of _ "e # es"]) (use e one es in \<open>simp add: fl Inr s1 del: follow.simps\<close>)
        qed
      qed
    qed
  next
    case False
    then have "snd (follow C X deadline (Suc k) r x s) = s"
      by (cases "is_redirect x"; cases "next_request C r x") auto
    then show ?thesis
      using nil [of s] by (simp del: follow.simps)
  qed
qed simp

text \<open>All that a request sends: the prepared request, and the hops after it.\<close>

lemma send_all_log:
  "\<exists>t es. ns_sent (snd (send_all C X r s)) = ns_sent s @ es \<and> (es = [] \<or> (\<exists>e fs. es = e # fs \<and> length fs \<le> ex_redirects X \<and>
    se_request e = r \<and> 0 < se_timeout e \<and> se_time e + se_timeout e = t + ex_timeout X \<and> hops C (t + ex_timeout X) r fs))"
proof -
  obtain g s1 where g: "guard_policy C X (rq_url r) s = (g, s1)" by fastforce
  obtain t s2 where c: "with_world (cl_clock C) s1 = (t, s2)" by fastforce
  obtain a s3 where a: "send_with_budget C X r (rq_url r) (t + ex_timeout X) s2 = (a, s3)" by fastforce
  have s2: "ns_sent s1 = ns_sent s" "ns_sent s2 = ns_sent s"
    using sent_same_log [OF same_log_guard_policy [of s C X "rq_url r"]] with_world_fields(4) [of "cl_clock C" s1] by (simp_all add: g c)
  show ?thesis
  proof (cases g)
    case (Inr u)
    have al: "send_all C X r s = (case a of Inl e \<Rightarrow> ((r, Inl e), s3) | Inr x \<Rightarrow> follow C X (t + ex_timeout X) (ex_redirects X) r x s3)"
      by (simp add: send_all_def g Inr c a)
    from send_with_budget_log [OF a] show ?thesis
    proof (elim disjE exE conjE)
      fix e
      assume e: "ns_sent s3 = ns_sent s2 @ [e]" "se_request e = r" "0 < se_timeout e" "se_time e + se_timeout e = t + ex_timeout X"
        "\<forall>x. a = Inr x \<longrightarrow> answers C r x"
      show ?thesis
      proof (cases a)
        case (Inl f)
        then show ?thesis by (intro exI [of _ t] exI [of _ "[e]"]) (use e in \<open>simp add: al s2\<close>)
      next
        case (Inr x)
        with e have "answers C r x" by simp
        from follow_log [OF this, of X "t + ex_timeout X" "ex_redirects X" s3] obtain es where
          es: "ns_sent (snd (follow C X (t + ex_timeout X) (ex_redirects X) r x s3)) = ns_sent s3 @ es"
          "length es \<le> ex_redirects X" "hops C (t + ex_timeout X) r es" by auto
        show ?thesis by (intro exI [of _ t] exI [of _ "e # es"]) (use e es in \<open>simp add: al Inr s2\<close>)
      qed
    qed (auto simp: al s2)
  qed (auto simp: send_all_def g s2)
qed

text \<open>\<open>handle_request\<close> sends what \<open>send_all\<close> sends for the prepared request.\<close>

lemma handle_request_log:
  assumes "handle_request C X cap r0 s = (y, s')" and "ns_sent s = []"
  shows "ns_sent s' = [] \<or> (\<exists>t r e fs. ns_sent s' = e # fs \<and> length fs \<le> ex_redirects X \<and> se_request e = r \<and> 0 < se_timeout e \<and>
    se_time e + se_timeout e = t + ex_timeout X \<and> hops C (t + ex_timeout X) r fs)"
proof (cases "cl_prepare C r0")
  case None
  then show ?thesis using assms by (simp add: handle_request_def)
next
  case (Some r)
  then have "ns_sent s' = ns_sent (snd (send_all C X r (s\<lparr>ns_open := []\<rparr>)))"
    using assms by (auto simp: handle_request_def case_prod_beta)
  with send_all_log [of C X r "s\<lparr>ns_open := []\<rparr>"] assms(2) show ?thesis by fastforce
qed

section \<open>Origins\<close>

definition kept_origin :: "string \<Rightarrow> string \<Rightarrow> bool" where
  "kept_origin u v \<longleftrightarrow>
     (\<exists>a b. urlparse u = Some a \<and> urlparse v = Some b \<and> pu_host b = pu_host a \<and>
       (pu_scheme b = pu_scheme a \<or> pu_scheme a = ''http'' \<and> pu_scheme b = ''https''))"

lemma same_origin_kept: "url_changes_origin u v = Some False \<Longrightarrow> kept_origin u v"
  by (auto simp: url_changes_origin_def changes_origin_def kept_origin_def split: option.splits if_splits)

lemma stripped_secret:
  assumes "strip_sensitive_headers hs u v = Some hs'" and "sensitive kv" and "kv \<in> set hs'"
  shows "kv \<in> set hs \<and> kept_origin u v"
proof -
  obtain c where c: "url_changes_origin u v = Some c" "hs' = (if c then filter (\<lambda>h. \<not> sensitive h) hs else hs)"
    using assms(1) by (auto simp: strip_sensitive_headers_def)
  with assms(2,3) show ?thesis by (cases c) (simp_all add: same_origin_kept)
qed

lemma redirect_request_secret:
  assumes "redirect_request st u r v = Some q" and "sensitive kv" and "kv \<in> set (rq_headers q)"
  shows "kv \<in> set (rq_headers r) \<and> kept_origin u v"
proof -
  obtain hs where hs: "strip_sensitive_headers hs u v = Some (rq_headers q)" "set hs \<subseteq> set (rq_headers r)"
    using assms(1) by (auto simp: redirect_request_def drop_headers_def Let_def split: if_splits)
  then show ?thesis using stripped_secret [OF hs(1) assms(2,3)] by blast
qed

text \<open>What a client library does not do: make up the header, and report another URL than that of the request.\<close>

definition adds_header :: "'w client \<Rightarrow> string \<times> string \<Rightarrow> bool" where
  "adds_header C kv \<longleftrightarrow> (\<exists>q q'. cl_prepare C q = Some q' \<and> kv \<in> set (rq_headers q') \<and> kv \<notin> set (rq_headers q))"

lemma next_request_secret:
  assumes "next_request C r x = Some (q, v)" and "rs_url x = rq_url r" and "sensitive kv" and "\<not> adds_header C kv"
    and "kv \<in> set (rq_headers q)"
  shows "kv \<in> set (rq_headers r) \<and> kept_origin (rq_url r) v"
proof -
  obtain q0 where q0: "redirect_request (rs_status x) (rq_url r) r v = Some q0" "cl_prepare C q0 = Some q"
    using assms(1,2) by (auto simp: next_request_def split: option.splits if_splits)
  then have "kv \<in> set (rq_headers q0)"
    using assms(4,5) by (auto simp: adds_header_def)
  then show ?thesis
    using redirect_request_secret [OF q0(1) assms(3)] by simp
qed

lemma hops_secret:
  assumes "hops C D r es" and "\<And>r x. answers C r x \<Longrightarrow> rs_url x = rq_url r" and "sensitive kv" and "\<not> adds_header C kv"
    and "j < length es" and "kv \<in> set (rq_headers (se_request (es ! j)))" and "i \<le> j"
  shows "kv \<in> set (rq_headers (if i = 0 then r else se_request (es ! (i - 1)))) \<and>
    kept_origin (rq_url (if i = 0 then r else se_request (es ! (i - 1)))) (se_target (es ! i))"
  using assms(1,5,6,7)
proof (induction es arbitrary: r i j)
  case (Cons e es)
  obtain x where x: "rs_url x = rq_url r" "next_request C r x = Some (se_request e, se_target e)"
    using Cons.prems(1) assms(2) by auto
  note st = next_request_secret [OF x(2,1) assms(3,4)]
  show ?case
  proof (cases j)
    case 0
    then show ?thesis using st Cons.prems by simp
  next
    case (Suc k)
    have k: "hops C D (se_request e) es" "k < length es" "kv \<in> set (rq_headers (se_request (es ! k)))"
      using Cons.prems Suc by simp_all
    have e: "kv \<in> set (rq_headers r) \<and> kept_origin (rq_url r) (se_target e)"
      using Cons.IH [OF k le0] st by simp
    show ?thesis
    proof (cases i)
      case (Suc m)
      then have "m \<le> k" using Cons.prems(4) \<open>j = Suc k\<close> by simp
      from Cons.IH [OF k this] show ?thesis
        using e Suc by (cases m) simp_all
    qed (use e in simp)
  qed
qed simp

section \<open>An example\<close>

text \<open>A client whose host redirects once, on the same host; the restricted executor below lets it do so.\<close>

definition http_client :: "int client" where
  "http_client =
     \<lparr>cl_prepare = Some, cl_endpoint = (\<lambda>r. (''a.io'', 443)), cl_join = (\<lambda>u v. Some v),
      cl_getaddrinfo = (\<lambda>h p w. (Some [''8.8.8.8''], w)), cl_clock = (\<lambda>w. (w, w + 1)), cl_cancelled = (\<lambda>w. (False, w)),
      cl_connect = (\<lambda>a p w. (True, w)), cl_reuse = (\<lambda>r w. (True, w)),
      cl_exchange = (\<lambda>r t w. (Some (if rq_url r = ''https://a.io/1''
          then \<lparr>rs_status = 302, rs_url = rq_url r, rs_location = Some ''https://a.io/2'', rs_chunks = [], rs_broken = False\<rparr>
          else \<lparr>rs_status = 200, rs_url = rq_url r, rs_location = None, rs_chunks = [3], rs_broken = False\<rparr>), w))\<rparr>"

definition http_executor :: executor where
  "http_executor =
     \<lparr>ex_policy = \<lparr>po_allowed = [''*.io''], po_denied = [''10.0.0.0/8''], po_block = True\<rparr>, ex_timeout = 30, ex_redirects = 5,
      ex_dns_ttl = 30, ex_operator_block = False\<rparr>"

definition http_request :: request where
  "http_request = \<lparr>rq_method = ''GET'', rq_url = ''https://a.io/1'', rq_headers = [(''Cookie'', ''s'')], rq_body = None\<rparr>"

definition http_state :: "int net_state" where
  "http_state = \<lparr>ns_dns = [], ns_open = [], ns_dialed = [], ns_sent = [], ns_world = 0\<rparr>"

definition http_run :: "outcome option \<times> int net_state" where
  "http_run = handle_request http_client http_executor 10 http_request http_state"

lemma http_run: "handle_request http_client http_executor 10 http_request http_state = (fst http_run, snd http_run)"
  by (simp add: http_run_def)

lemma http_run_sent:
  "length (ns_sent (snd http_run)) = 2 \<and> se_request (ns_sent (snd http_run) ! 0) = http_request \<and>
   rq_headers (se_request (ns_sent (snd http_run) ! 1)) = [(''Cookie'', ''s'')]"
  by code_simp

lemma http_run_dialed: "ns_dialed (snd http_run) = [\<lparr>di_host = ''a.io'', di_port = 443, di_ips = [''8.8.8.8''], di_ip = ''8.8.8.8''\<rparr>]"
  by code_simp

lemma http_state_empty: "ns_dialed http_state = []" "ns_sent http_state = []"
  by (simp_all add: http_state_def)

lemma http_client_url: "answers http_client r x \<Longrightarrow> rs_url x = rq_url r"
  by (auto simp: answers_def http_client_def split: if_splits)

lemma http_client_headers: "\<not> adds_header http_client kv"
  by (simp add: adds_header_def http_client_def)

lemma http_cookie_sensitive: "sensitive (''Cookie'', ''s'')"
  by code_simp

lemma http_restricted: "restrictions_active http_executor" "po_block (ex_policy http_executor)"
  by (simp_all add: restrictions_active_def effective_policy_def http_executor_def)

section \<open>Mapped addresses\<close>

lemma private_nets_eq:
  "private_nets =
     [Net4 0 8, Net4 0x0A000000 8, Net4 0x7F000000 8, Net4 0xA9FE0000 16, Net4 0xAC100000 12, Net4 0xC0000000 24, Net4 0xC0A80000 16,
      Net4 0x64400000 10, Net4 0xC6120000 15, Net6 1 128, Net6 0xFC000000000000000000000000000000 7,
      Net6 0xFE800000000000000000000000000000 10]"
  by code_simp

definition mapped_word :: "32 word \<Rightarrow> 128 word" where
  "mapped_word w = push_bit 32 0xFFFF OR ucast w"

lemma drop_mapped_word: "drop_bit 32 (mapped_word w) = 0xFFFF"
proof -
  have "drop_bit 32 (ucast w :: 128 word) = 0"
    by (rule bit_word_eqI) (auto simp: bit_simps dest: bit_imp_le_length)
  moreover have "drop_bit 32 (push_bit 32 (0xFFFF :: 128 word)) = 0xFFFF"
    by simp
  ultimately show ?thesis by (simp add: mapped_word_def drop_bit_or)
qed

lemma ucast_low_word: "ucast (push_bit 32 x OR ucast w :: 128 word) = (w :: 32 word)"
  by (rule bit_word_eqI) (auto simp: bit_simps)

lemma ucast_mapped_word: "ucast (mapped_word w) = w"
  unfolding mapped_word_def by (rule ucast_low_word)

lemma drop_mapped_word_more: "32 \<le> n \<Longrightarrow> drop_bit n (mapped_word w) = drop_bit (n - 32) 0xFFFF"
  using drop_bit_drop_bit [of "n - 32" 32 "mapped_word w"] by (simp add: drop_mapped_word)

lemma mapped_word_not_one: "mapped_word w \<noteq> 1"
  using drop_mapped_word [of w] by auto

section \<open>Properties\<close>

lemma net_ok_dialed: "net_ok C X s \<Longrightarrow> d \<in> set (ns_dialed s) \<Longrightarrow> checked_dial X d"
  by (simp add: net_ok_def)

lemma handle_request_dials:
  assumes "handle_request C X cap r s = (y, s')" and "ns_dialed s = []" and "ns_sent s = []" and "d \<in> set (ns_dialed s')"
  shows "checked_dial X d"
  using net_ok_handle_request [OF assms(2,3,1)] net_ok_dialed assms(4) by fastforce

text \<open>
  Property C24.  Whatever the resolver and the network answer, and however many redirects there are, a synchronous request of an HTTP
  node only dials addresses that were checked: the address is one of those its host resolved to; no denied entry matches the host
  or any of these addresses; an allowed entry, if there are any, matches the host or at least one of these addresses (not necessarily the
  dialed one); and no private or special address is dialed when these are blocked, by the node or by the operator.
\<close>

theorem dialed_addresses_accepted:
  assumes "handle_request C X cap r s = (y, s')" and "ns_dialed s = []" and "ns_sent s = []" and "d \<in> set (ns_dialed s')"
  shows "di_ip d \<in> set (di_ips d) \<and>
    (\<forall>e \<in> set (po_denied (ex_policy X)). \<not> host_entry_matches e (di_host d) (Some (di_ips d))) \<and>
    (po_allowed (ex_policy X) = [] \<or> list_ex (\<lambda>e. host_entry_matches e (di_host d) (Some (di_ips d))) (po_allowed (ex_policy X))) \<and>
    (po_block (ex_policy X) \<or> ex_operator_block X \<longrightarrow> ip_matches_networks (di_ip d) private_nets = Some False)"
proof -
  have d: "di_ip d \<in> set (di_ips d)" and v: "validate_host_target (effective_policy X) (di_host d) (Some (di_ips d)) = Inr ()"
    using handle_request_dials [OF assms] by (simp_all add: checked_dial_def)
  show ?thesis
    using d validated_denied [OF v] validated_allowed [OF v] validated_private [OF v _ d] by (simp add: effective_policy_def)
qed

theorem dialed_addresses_accepted_witness:
  "ns_dialed (snd http_run) = [\<lparr>di_host = ''a.io'', di_port = 443, di_ips = [''8.8.8.8''], di_ip = ''8.8.8.8''\<rparr>] \<and>
   ip_matches_networks ''8.8.8.8'' private_nets = Some False"
  using dialed_addresses_accepted [OF http_run http_state_empty, of "\<lparr>di_host = ''a.io'', di_port = 443, di_ips = [''8.8.8.8''], di_ip = ''8.8.8.8''\<rparr>"]
  by (simp add: http_run_dialed http_restricted)

text \<open>
  Property C25.  Every request of a restricted HTTP node, sent synchronously, leaves over a connection, new or kept open, that was made by a
  recorded dial for the very host and port the request is sent to, and the host and the addresses of that dial were checked.
\<close>

theorem restricted_requests_pinned:
  assumes "handle_request C X cap r s = (y, s')" and "ns_dialed s = []" and "ns_sent s = []" and "restrictions_active X"
    and "e \<in> set (ns_sent s')"
  shows "\<exists>d \<in> set (ns_dialed s'). se_dial e = Some d \<and> (di_host d, di_port d) = cl_endpoint C (se_request e) \<and>
    di_ip d \<in> set (di_ips d) \<and> validate_host_target (effective_policy X) (di_host d) (Some (di_ips d)) = Inr ()"
proof -
  have "net_ok C X s'"
    using net_ok_handle_request [OF assms(2,3,1)] assms(5) by auto
  then obtain d where "d \<in> set (ns_dialed s')" "se_dial e = Some d" "(di_host d, di_port d) = cl_endpoint C (se_request e)"
    using assms(4,5) unfolding net_ok_def by blast
  then show ?thesis
    using handle_request_dials [OF assms(1-3)] by (auto simp: checked_dial_def)
qed

theorem restricted_requests_pinned_witness:
  "\<exists>d. se_dial (ns_sent (snd http_run) ! 1) = Some d \<and> d \<in> set (ns_dialed (snd http_run)) \<and> (di_host d, di_port d) = (''a.io'', 443)"
proof -
  have e: "ns_sent (snd http_run) ! 1 \<in> set (ns_sent (snd http_run))"
    by (rule nth_mem) (simp add: http_run_sent)
  have "cl_endpoint http_client q = (''a.io'', 443)" for q by (simp add: http_client_def)
  then show ?thesis
    using restricted_requests_pinned [OF http_run http_state_empty http_restricted(1) e] by auto
qed

text \<open>
  Property C26.  A secret header (such as \<open>Authorization\<close> or \<open>Cookie\<close>) that the client library does not make up itself is on a synchronous
  request after redirects only if the URL of every redirect before it, as the code parses it (\<open>urlparse\<close> on the joined Location), names
  the same host and does not fall back from https to http (the library reports with an answer the URL it sent the request to).  Where the client library reads that URL otherwise, the request
  goes to the host the library reads (\<open>backslash_location_leaks\<close>).
\<close>

theorem secrets_stay_in_origin:
  assumes "handle_request C X cap r s = (y, s')" and "ns_sent s = []" and "\<And>r x. answers C r x \<Longrightarrow> rs_url x = rq_url r"
    and "sensitive kv" and "\<not> adds_header C kv"
    and "j < length (ns_sent s')" and "kv \<in> set (rq_headers (se_request (ns_sent s' ! j)))" and "i < j"
  shows "kv \<in> set (rq_headers (se_request (ns_sent s' ! i))) \<and>
    kept_origin (rq_url (se_request (ns_sent s' ! i))) (se_target (ns_sent s' ! Suc i))"
proof -
  obtain D q e fs where log: "ns_sent s' = e # fs" "se_request e = q" "hops C D q fs"
    using handle_request_log [OF assms(1,2)] assms(6) by auto
  obtain k where k: "j = Suc k" using assms(8) by (cases j) auto
  have "k < length fs" "kv \<in> set (rq_headers (se_request (fs ! k)))" "i \<le> k"
    using assms(6-8) by (simp_all add: log k)
  from hops_secret [OF log(3) assms(3,4,5) this] show ?thesis
    by (cases i) (simp_all add: log)
qed

theorem secrets_stay_in_origin_witness:
  "(''Cookie'', ''s'') \<in> set (rq_headers (se_request (ns_sent (snd http_run) ! 1))) \<and>
   kept_origin ''https://a.io/1'' (se_target (ns_sent (snd http_run) ! Suc 0))"
  using secrets_stay_in_origin [OF http_run http_state_empty(2) http_client_url http_cookie_sensitive http_client_headers, of 1 0]
    http_run_sent by (simp add: http_request_def)

text \<open>
  A client library that takes a backslash for the end of the host, and reports the URL as it prepared it: the code sees a
  Location on the same host and leaves the cookie on the request, which the library sends to \<^verbatim>\<open>evil.io\<close>.
\<close>

definition backslash_location :: string where
  "backslash_location = ''http://evil.io'' @ [CHR 0x5C] @ ''@good.io/''"

definition leaky_client :: "int client" where
  "leaky_client = http_client\<lparr>
     cl_prepare := (\<lambda>q. Some (if rq_url q = backslash_location then q\<lparr>rq_url := ''http://evil.io/''\<rparr> else q)),
     cl_endpoint := (\<lambda>q. (if rq_url q = ''http://evil.io/'' then ''evil.io'' else ''good.io'', 80)),
     cl_exchange := (\<lambda>q t w. (Some (if rq_url q = ''http://good.io/''
          then \<lparr>rs_status = 302, rs_url = rq_url q, rs_location = Some backslash_location, rs_chunks = [], rs_broken = False\<rparr>
          else \<lparr>rs_status = 200, rs_url = rq_url q, rs_location = None, rs_chunks = [3], rs_broken = False\<rparr>), w))\<rparr>"

lemma backslash_location_leaks:
  "map (\<lambda>e. (cl_endpoint leaky_client (se_request e), rq_headers (se_request e)))
     (ns_sent (snd (handle_request leaky_client http_executor 10 (http_request\<lparr>rq_url := ''http://good.io/''\<rparr>) http_state))) =
   [((''good.io'', 80), [(''Cookie'', ''s'')]), ((''evil.io'', 80), [(''Cookie'', ''s'')])]"
  by code_simp

text \<open>
  Property C27.  A request of an HTTP node sends at most one request more than its limit of redirects, and all of them share one budget:
  each is sent before the common deadline, with what is left of the time as its timeout.
\<close>

theorem requests_within_budget:
  assumes "handle_request C X cap r s = (y, s')" and "ns_sent s = []"
  shows "length (ns_sent s') \<le> Suc (ex_redirects X) \<and>
    (\<exists>t. \<forall>e \<in> set (ns_sent s'). 0 < se_timeout e \<and> se_time e + se_timeout e = t + ex_timeout X)"
proof (intro conjI)
  from handle_request_log [OF assms] show "length (ns_sent s') \<le> Suc (ex_redirects X)" by auto
  from handle_request_log [OF assms] show "\<exists>t. \<forall>e \<in> set (ns_sent s'). 0 < se_timeout e \<and> se_time e + se_timeout e = t + ex_timeout X"
    using hops_budget by fastforce
qed

theorem requests_within_budget_witness:
  "length (ns_sent (snd http_run)) = 2 \<and> length (ns_sent (snd http_run)) \<le> Suc (ex_redirects http_executor)"
  using requests_within_budget [OF http_run http_state_empty(2)] http_run_sent by simp

text \<open>
  The check of private addresses cannot be passed with an IPv4 address written as a mapped IPv6 one: it answers the same
  for both.
\<close>

theorem mapped_address_checked_alike:
  "address_in (V6 (mapped_word w)) private_nets = address_in (V4 w) private_nets"
  by (simp add: private_nets_eq address_in_def drop_mapped_word ucast_mapped_word drop_mapped_word_more mapped_word_not_one)

text \<open>What the policy lets pass: the unspecified IPv6 address, and addresses outside an allowed network beside one inside it.\<close>

lemma unspecified_address_passes: "ip_matches_networks ''::'' private_nets = Some False"
  by code_simp

lemma one_allowed_address_is_enough:
  "validate_host_target \<lparr>po_allowed = [''8.8.8.0/24''], po_denied = [], po_block = False\<rparr> ''a.io'' (Some [''8.8.8.8'', ''10.0.0.1'']) = Inr ()"
  by code_simp

text \<open>The body is read up to the cap and no further.\<close>

lemma read_capped_sum: "n \<le> cap \<Longrightarrow> read_capped cap n cs = (if n + sum_list cs \<le> cap then Some (n + sum_list cs) else None)"
  by (induction cs arbitrary: n) auto

end
