(* ===== verification/Http_Async.thy ===== *)
theory Http_Async
  imports Http_Safety
begin

text \<open>
  The asynchronous loop of an HTTP node (\<open>_send_async\<close> of \<^verbatim>\<open>plaita/node/http.py\<close>), and what it shares with the synchronous one: the
  budget, the number of requests, and the origin of secrets.  The session is that of the client library, with its own connections;
  the check of the policy before each hop is the code's.
\<close>

section \<open>The loop\<close>

text \<open>A redirect needs a location that is not empty.\<close>

definition async_location :: "response \<Rightarrow> string option" where
  "async_location x =
     (case rs_location x of
        None \<Rightarrow> None
      | Some l \<Rightarrow> if l \<noteq> [] \<and> rs_status x \<in> {301, 302, 303, 307, 308} then Some l else None)"

definition async_next :: "'w client \<Rightarrow> request \<Rightarrow> response \<Rightarrow> string \<Rightarrow> request option" where
  "async_next C r x l =
     (case cl_join C (rs_url x) l of
        None \<Rightarrow> None
      | Some to \<Rightarrow>
          map_option (\<lambda>hs. \<lparr>rq_method = redirect_method (rs_status x) (rq_method r), rq_url = to, rq_headers = hs,
              rq_body = (if rs_status x = 307 \<or> rs_status x = 308 then rq_body r else None)\<rparr>)
            (strip_sensitive_headers (rq_headers r) (rs_url x) to))"

fun async_loop ::
  "'w client \<Rightarrow> executor \<Rightarrow> int \<Rightarrow> nat \<Rightarrow> request \<Rightarrow> 'w net_state \<Rightarrow> (request \<times> (http_error + response)) \<times> 'w net_state" where
  "async_loop C X deadline 0 r s = ((r, Inl Too_Many_Redirects), s)"
| "async_loop C X deadline (Suc k) r s =
     (let (c, s1) = with_world (cl_cancelled C) s in
      if c then ((r, Inl Cancelled_Request), s1)
      else (let (now, s2) = with_world (cl_clock C) s1; left = deadline - now in
        if left \<le> 0 then ((r, Inl Budget_Exceeded), s2)
        else (let (a, s3) = exchanged C r (rq_url r) now left None s2 in
          case a of
            Inl e \<Rightarrow> ((r, Inl e), s3)
          | Inr x \<Rightarrow>
              (case async_location x of
                 None \<Rightarrow> ((r, Inr x), s3)
               | Some l \<Rightarrow>
                   (case async_next C r x l of
                      None \<Rightarrow> ((r, Inl Client_Error), s3)
                    | Some q \<Rightarrow>
                        (let (g, s4) = guard_policy C X (rq_url q) s3 in
                         case g of Inl e \<Rightarrow> ((q, Inl e), s4) | Inr _ \<Rightarrow> async_loop C X deadline k q s4))))))"

text \<open>\<open>_send_async\<close> on a request as it was built.\<close>

definition send_async :: "'w client \<Rightarrow> executor \<Rightarrow> nat \<Rightarrow> request \<Rightarrow> 'w net_state \<Rightarrow> outcome \<times> 'w net_state" where
  "send_async C X cap r s =
     (let (g, s1) = guard_policy C X (rq_url r) s in
      case g of
        Inl e \<Rightarrow> (failed_with r e, s1)
      | Inr _ \<Rightarrow>
          (let (now, s2) = with_world (cl_clock C) s1;
               ((q, a), s3) = async_loop C X (now + ex_timeout X) (Suc (ex_redirects X)) r s2 in
           ((case a of Inl e \<Rightarrow> failed_with q e | Inr x \<Rightarrow> read_body cap q x), s3)))"

section \<open>Hops\<close>

text \<open>The requests of the loop from one on: each follows an answer to the one before it.\<close>

fun async_hops :: "'w client \<Rightarrow> int \<Rightarrow> request \<Rightarrow> sent list \<Rightarrow> bool" where
  "async_hops C deadline r [] = True"
| "async_hops C deadline r (e # es) =
     (se_request e = r \<and> 0 < se_timeout e \<and> se_time e + se_timeout e = deadline \<and>
      (es = [] \<or> (\<exists>x l q. answers C r x \<and> async_next C r x l = Some q \<and> async_hops C deadline q es)))"

lemma async_hops_budget: "async_hops C deadline r es \<Longrightarrow> e \<in> set es \<Longrightarrow> 0 < se_timeout e \<and> se_time e + se_timeout e = deadline"
  by (induction es arbitrary: r) auto

lemma async_loop_log:
  "\<exists>es. ns_sent (snd (async_loop C X deadline k r s)) = ns_sent s @ es \<and> length es \<le> k \<and> async_hops C deadline r es"
proof (induction k arbitrary: r s)
  case (Suc k)
  obtain c s1 where c: "with_world (cl_cancelled C) s = (c, s1)" by fastforce
  obtain t s2 where t: "with_world (cl_clock C) s1 = (t, s2)" by fastforce
  obtain a s3 where a: "exchanged C r (rq_url r) t (deadline - t) None s2 = (a, s3)" by fastforce
  have s2: "ns_sent s1 = ns_sent s" "ns_sent s2 = ns_sent s"
    using with_world_fields(4) [of "cl_cancelled C" s] with_world_fields(4) [of "cl_clock C" s1] by (simp_all add: c t)
  define e where "e = \<lparr>se_request = r, se_target = rq_url r, se_time = t, se_timeout = deadline - t, se_dial = None\<rparr>"
  have s3: "ns_sent s3 = ns_sent s @ [e]"
    using exchanged_sent [of C r "rq_url r" t "deadline - t" None s2] by (simp add: a s2 e_def)
  show ?case
  proof (cases "c \<or> deadline - t \<le> 0")
    case True
    then show ?thesis by (intro exI [of _ "[]"]) (auto simp: c t s2 Let_def)
  next
    case False
    then have one: "async_hops C deadline r [e]" by (simp add: e_def)
    have nil: "\<exists>es. ns_sent s' = ns_sent s @ es \<and> length es \<le> Suc k \<and> async_hops C deadline r es" if "ns_sent s' = ns_sent s3" for s'
      by (intro exI [of _ "[e]"]) (use that one s3 in simp)
    show ?thesis
    proof (cases "\<exists>x l q. a = Inr x \<and> async_location x = Some l \<and> async_next C r x l = Some q")
      case True
      then obtain x l q where x: "a = Inr x" "async_location x = Some l" "async_next C r x l = Some q" by blast
      obtain g s4 where g: "guard_policy C X (rq_url q) s3 = (g, s4)" by fastforce
      have s4: "ns_sent s4 = ns_sent s3"
        using sent_same_log [OF same_log_guard_policy [of s3 C X "rq_url q"]] by (simp add: g)
      have lp: "async_loop C X deadline (Suc k) r s = (case g of Inl e \<Rightarrow> ((q, Inl e), s4) | Inr _ \<Rightarrow> async_loop C X deadline k q s4)"
        using False by (simp add: c t a x g)
      show ?thesis
      proof (cases g)
        case (Inl f)
        then show ?thesis using nil [of s4] by (simp add: lp s4 del: async_loop.simps)
      next
        case (Inr u)
        obtain es where es: "ns_sent (snd (async_loop C X deadline k q s4)) = ns_sent s4 @ es" "length es \<le> k"
          "async_hops C deadline q es" using Suc.IH [of q s4] by blast
        have "answers C r x"
          using exchanged_answer [of C r "rq_url r" t "deadline - t" None s2 x] by (simp add: a x)
        with es x one show ?thesis
          by (intro exI [of _ "e # es"]) (auto simp: lp Inr s4 s3 simp del: async_loop.simps)
      qed
    next
      case no: False
      have "snd (async_loop C X deadline (Suc k) r s) = s3"
        using no False by (auto simp: c t a Let_def split: sum.split option.split)
      then show ?thesis using nil [of s3] by (simp del: async_loop.simps)
    qed
  qed
qed simp

lemma send_async_log:
  "\<exists>t es. ns_sent (snd (send_async C X cap r s)) = ns_sent s @ es \<and> length es \<le> Suc (ex_redirects X) \<and>
    async_hops C (t + ex_timeout X) r es"
proof -
  obtain g s1 where g: "guard_policy C X (rq_url r) s = (g, s1)" by fastforce
  obtain t s2 where t: "with_world (cl_clock C) s1 = (t, s2)" by fastforce
  have s2: "ns_sent s1 = ns_sent s" "ns_sent s2 = ns_sent s"
    using sent_same_log [OF same_log_guard_policy [of s C X "rq_url r"]] with_world_fields(4) [of "cl_clock C" s1] by (simp_all add: g t)
  show ?thesis
  proof (cases g)
    case (Inl e)
    then show ?thesis by (intro exI [of _ 0] exI [of _ "[]"]) (simp add: send_async_def g s2)
  next
    case (Inr u)
    then have "ns_sent (snd (send_async C X cap r s)) =
        ns_sent (snd (async_loop C X (t + ex_timeout X) (Suc (ex_redirects X)) r s2))"
      by (simp add: send_async_def g t case_prod_beta del: async_loop.simps)
    with async_loop_log [of C X "t + ex_timeout X" "Suc (ex_redirects X)" r s2] show ?thesis
      by (metis s2(2))
  qed
qed

section \<open>What both loops keep\<close>

lemma async_next_secret:
  assumes "async_next C r x l = Some q" and "rs_url x = rq_url r" and "sensitive kv" and "kv \<in> set (rq_headers q)"
  shows "kv \<in> set (rq_headers r) \<and> kept_origin (rq_url r) (rq_url q)"
proof -
  have "strip_sensitive_headers (rq_headers r) (rq_url r) (rq_url q) = Some (rq_headers q)"
    using assms(1,2) by (auto simp: async_next_def split: option.splits)
  then show ?thesis using stripped_secret assms(3,4) by blast
qed

lemma async_hops_secret:
  assumes "async_hops C D r es" and "\<And>r x. answers C r x \<Longrightarrow> rs_url x = rq_url r" and "sensitive kv"
    and "j < length es" and "kv \<in> set (rq_headers (se_request (es ! j)))" and "i < j"
  shows "kv \<in> set (rq_headers (se_request (es ! i))) \<and> kept_origin (rq_url (se_request (es ! i))) (rq_url (se_request (es ! Suc i)))"
  using assms(1,4,5,6)
proof (induction es arbitrary: r i j)
  case (Cons e es)
  obtain k where k: "j = Suc k" using Cons.prems(4) by (cases j) auto
  have ne: "es \<noteq> []" using Cons.prems(2) k by auto
  then obtain x l q where x: "answers C r x" "async_next C r x l = Some q" "async_hops C D q es" and er: "se_request e = r"
    using Cons.prems(1) by auto
  have q: "se_request (es ! 0) = q" using x(3) ne by (cases es) auto
  have tail: "k < length es" "kv \<in> set (rq_headers (se_request (es ! k)))" using Cons.prems k by simp_all
  have "kv \<in> set (rq_headers q)"
  proof (cases k)
    case (Suc m)
    then show ?thesis using Cons.IH [OF x(3) tail, of 0] q by simp
  qed (use tail q in simp)
  then have first: "kv \<in> set (rq_headers r) \<and> kept_origin (rq_url r) (rq_url q)"
    using async_next_secret [OF x(2) assms(2) [OF x(1)] assms(3)] by simp
  show ?case
  proof (cases i)
    case (Suc m)
    then show ?thesis using Cons.IH [OF x(3) tail, of m] Cons.prems(4) k by simp
  qed (use first er q in simp)
qed simp

text \<open>
  The asynchronous loop sends at most one request more than the limit of redirects, all within one budget, and a secret header that is
  on a request was on all requests before it, none of which left its host or fell back from https to http, as the code reads their URLs.
\<close>

theorem async_requests_within_budget:
  assumes "send_async C X cap r s = (y, s')" and "ns_sent s = []"
  shows "length (ns_sent s') \<le> Suc (ex_redirects X) \<and>
    (\<exists>t. \<forall>e \<in> set (ns_sent s'). 0 < se_timeout e \<and> se_time e + se_timeout e = t + ex_timeout X)"
  using send_async_log [of C X cap r s] async_hops_budget assms by fastforce

theorem async_secrets_stay_in_origin:
  assumes "send_async C X cap r s = (y, s')" and "ns_sent s = []" and "\<And>r x. answers C r x \<Longrightarrow> rs_url x = rq_url r"
    and "sensitive kv" and "j < length (ns_sent s')" and "kv \<in> set (rq_headers (se_request (ns_sent s' ! j)))" and "i < j"
  shows "kv \<in> set (rq_headers (se_request (ns_sent s' ! i))) \<and>
    kept_origin (rq_url (se_request (ns_sent s' ! i))) (rq_url (se_request (ns_sent s' ! Suc i)))"
proof -
  obtain D where "async_hops C D r (ns_sent s')"
    using send_async_log [of C X cap r s] assms(1,2) by auto
  from async_hops_secret [OF this assms(3-7)] show ?thesis .
qed

text \<open>
  The loops differ in the headers they carry over: the synchronous one computes \<open>Host\<close> and the headers of the body anew, the
  asynchronous one keeps those of the first request, also for another host.
\<close>

lemma host_header_carried_over:
  fixes x :: response
  defines "r \<equiv> \<lparr>rq_method = ''GET'', rq_url = ''http://a.io/'', rq_headers = [(''Host'', ''a.io'')], rq_body = None\<rparr>"
    and "x \<equiv> \<lparr>rs_status = 302, rs_url = ''http://a.io/'', rs_location = Some ''http://b.io/'', rs_chunks = [], rs_broken = False\<rparr>"
  shows "map_option rq_headers (async_next http_client r x ''http://b.io/'') = Some [(''Host'', ''a.io'')] \<and>
    map_option (rq_headers \<circ> fst) (next_request http_client r x) = Some []"
  unfolding r_def x_def by code_simp

end
