(* ===== verification/Spec2Isabelle.thy ===== *)
theory Spec2Isabelle
  imports Wakeup Capabilities Flow_Nodes Parallel_Node Start_Dedup Tenant_Quota Queue_Safety Queue_Scan Worker_Retry Expression_Engine Sexpr_Emit Validate_Sound Http_Async
begin

text \<open>
  Plaita: a verification development of the flow engine.

  Plaita (\<open>src/plaita\<close>) executes flows: graphs of nodes whose order is given by \<open>next\<close>
  targets and by the branches of decision nodes.  A run keeps its state in an execution context
  over a checkpoint (\<open>core/context.py\<close>, \<open>core/state.py\<close>); a node is executed by the
  runner with a budget, retries, cancellation and error strategies (\<open>core/runner.py\<close>); a
  strategy (\<open>core/strategies.py\<close>) drives the flow: in process to the end (normal), in process
  yielding an output per node (generator), or one step per call from a stored checkpoint
  (distributed).  In the distributed mode a node may suspend until an event arrives: the step
  registers a subscription with the event bus (\<open>event/core.py\<close>, \<open>event/memory.py\<close>) and a
  later call resumes the node.

  The theories, in the order of the calls:

  \<^item> \<open>Plaita_Prelude\<close>: results, dictionaries with their interface locales, the
    simplification collections.  \<open>Py_Value\<close>: the Python values the engine handles, with
    equality, ordering, membership, truth and \<open>str\<close> as the language defines them.
  \<^item> \<open>Flow_Errors\<close>: \<open>core/errors.py\<close>.  The exception classes with their bases, codes and
    error types; the error handlers with their validators; the resume types.
  \<^item> \<open>Decide\<close>: \<open>node/decide.py\<close>.  Conditions, groups, and the switch, if and case nodes.
    The theorems say which branch is taken, with ties, defaults and absent operands.
  \<^item> \<open>Flow_Graph\<close>: \<open>core/flow.py\<close>.  The node index, start node and routing, the cycle
    search, the scan for environment references.  The cycle search is shown exact against
    reachability in the graph.
  \<^item> \<open>Checkpoint\<close>: \<open>core/state.py\<close>.  The checkpoint with its named fields, extra keys and
    scratch bindings, and its storage form, with the round trips.
  \<^item> \<open>Exec_Context\<close>: \<open>core/context.py\<close>.  Construction, setup, node results, children,
    the environment allowlist.  The context invariant \<open>ctx_ok\<close> is preserved.
  \<^item> \<open>Timeouts\<close>: the timeout parser, the construction-time check, the merge of the three
    sources of a budget and the default deadline (\<open>core/runner.py\<close>, \<open>core/executor.py\<close>,
    \<open>core/deadline.py\<close>, \<open>node/basic.py\<close>).
  \<^item> \<open>Runner\<close>: \<open>core/runner.py\<close>.  Classification of errors, backoff, cancellation, the
    retry loop, and the recording of a result.  Results on every branch, with bounds on attempts,
    waits and budgets.
  \<^item> \<open>Event_Node\<close>: \<open>node/event_node.py\<close>.  The states of an event node.
  \<^item> \<open>Strategies\<close>: the step all strategies share, the normal and the generator strategy.
    Draining the generator refines the normal run; the deadline ends every run.
  \<^item> \<open>Distributed\<close>: the distributed strategy with subscription, the resume gate, nested
    suspension and nested resume.  Pending nodes are never skipped; a suspension, also one inside
    called flows, has a subscription; continuing from a stored checkpoint takes the successor the shared step takes.
  \<^item> \<open>Event_Bus\<close>: \<open>event/core.py\<close> and \<open>event/memory.py\<close>.  Event and subscription stores,
    matching, the processing tracker, publication, dispatch and retries.  \<open>Event_Delivery\<close>:
    its guarantees as a step relation of stores and searches, at most one delivery of an event to
    a subscription, and settled retries.  \<open>Wakeup\<close>: the distributed strategy on this bus, and the
    messages of \<open>server/event_filter.py\<close>: a parked node can be woken.
  \<^item> \<open>Capabilities\<close>: \<open>core/capabilities.py\<close>, \<open>node/capabilities.py\<close>.  The execution
    tiers, the closure of a flow over the flows it calls, the gate at the entry of a run and the
    guard of the runner, the registration contract and the ledger of shipped nodes.
  \<^item> \<open>Executor\<close>: \<open>core/executor.py\<close>, \<open>core/executor_compat.py\<close>,
    \<open>core/_error_normalization.py\<close>.  The facade around the strategies: preparation, the eager,
    lazy and distributed entry points, child executions, callbacks and the shape of errors.
  \<^item> \<open>Collection_Nodes\<close>: \<open>node/loop.py\<close> with the executors of
    \<open>core/parallel_executor.py\<close>.  Loop, map, filter, find, reduce and while nodes over child
    executions: what they compute, how a failing child ends them, that the concurrent map agrees
    with the sequential one and that the while node returns.
  \<^item> \<open>Flow_Nodes\<close>: \<open>node/child.py\<close>, \<open>node/assignment.py\<close>, \<open>node/end.py\<close> and the type
    check of \<open>io.py\<close>.
  \<^item> \<open>Parallel_Node\<close>: \<open>node/concurrent.py\<close>.  Branches in threads, processes, coroutines or inline,
    under any schedule: each joined branch has the result of its own run, background branches are accounted
    for, suspending branches are rejected.  The pickling of the process pool and the runs in its
    processes are arguments.
  \<^item> \<open>Redis_Store\<close>: the Redis commands the server code uses, as an interface with its laws
    and a store that satisfies them.  \<open>Execution_Lease\<close>: \<open>server/execution_lease.py\<close>,
    \<open>storage/fenced.py\<close> and the keys of \<open>storage/redis.py\<close>.  The lease, its fencing
    generations and the fenced writes as a step relation over any interleaving of workers: only the
    newest generation writes.  Lua writes numbers with fourteen digits, so a generation from \<open>10 ^ 14\<close> on cannot save.
  \<^item> \<open>Start_Dedup\<close>: \<open>server/start_dedup.py\<close>.  At most one execution per deduplication key:
    the scripts of the claim, its reservation, record, recovery, release and migration as steps of
    concurrent clients.  An accepted start is stable, and no start is recorded without a reservation.
  \<^item> \<open>Py_Text\<close>: numbers and their texts.  \<open>Task_Envelope\<close>, \<open>Task_Queue\<close>: \<open>server/task_queue.py\<close>.  The messages of start and
    resume tasks, and the stream with its pending entries, the reclaiming of orphans and the dead
    letters, with any command lost.  \<open>Queue_Safety\<close>: every operation is a sequence of single changes;
    no message is lost, and none is handed out beyond its budget.  \<open>Queue_Scan\<close>: the scan reaches
    every orphan.
  \<^item> \<open>Tenant_Quota\<close>: \<open>server/tenant_quota.py\<close>.  The bound on the starts of a tenant that run at
    once, as steps of workers and console with lost connections: the slots never exceed the quota.
  \<^item> \<open>Worker_Retry\<close>: the failure of a step in \<open>server/flow_worker.py\<close>.  The chain of causes, the counters
    in Redis and their resets, the decision to repeat or to end.  Repetitions and wakeups are bounded, and
    only transient failures are repeated.
  \<^item> \<open>Expr_Size\<close>, \<open>Expr_Functions\<close>: \<open>core/expression.py\<close>.  The size guards of expressions and
    the functions that build strings and lists: the bound of a rendered value is sound, and no function
    returns more than its projection admitted.
  \<^item> \<open>Expression\<close>: \<open>core/expression_parser.py\<close>.  Compilation of parsed expressions, traversal of
    paths with its gates, calls, templates, and the caches of compiled expressions.
    \<open>Expression_Safety\<close>: a path reads data only unless it takes an index of an object of the host, the result
    depends on the named roots only, literal text is kept, the caches cannot be seen.  \<open>Expression_Engine\<close>: the engine as the
    evaluator of an execution context; recorded results are read back verbatim.
  \<^item> \<open>Sexpr_Reader\<close>, \<open>Sexpr_Compile\<close>, \<open>Sexpr_Ids\<close>, \<open>Sexpr_Emit\<close>: \<open>dsl/sexpr.py\<close>.  The textual
    form of flows: tokens and forms, the compiler of every node type, the ids of nodes, and the writer of
    values, conditions and handlers.  What is written (without floating-point numbers) is read back, ids are distinct, and a negated
    condition is the complement under \<open>Decide\<close> where the operands have a value.
  \<^item> \<open>Flow_Validate\<close>, \<open>Validate_Sound\<close>: \<open>dsl/ir_validate.py\<close>.  The validation of flow documents that all
    front ends share: the checks of nodes, the rules, the recursion over nested flows.  Its search is
    exact, what it accepts is sound at every depth, and the routing of \<open>Flow_Graph\<close> finds a node for
    every target that an accepted document writes.
  \<^item> \<open>Http_Policy\<close>, \<open>Http_Node\<close>, \<open>Http_Safety\<close>, \<open>Http_Async\<close>: \<open>node/http.py\<close>.  The access policy of HTTP nodes,
    resolution, pinned connections, and the synchronous and the asynchronous loop over redirects.  The client libraries, the resolver and the network are
    a record of functions; the log of dialed addresses and sent requests is what the theorems speak of.  For any network,
    only checked addresses are dialed, restricted requests leave over connections dialed for them, secrets stay in their origin as
    the code parses it, and all hops share one budget.

  State and effects.  Code that may raise returns \<open>exc + 'a\<close>.  Code that changes the
  context or the world outside (clock, cancellation flag, event bus) is a function of context and
  world to a result, a context and a world; what the world does is a record of functions
  (\<open>env\<close>, \<open>host\<close>, \<open>bus_env\<close>), so that the theorems hold for every clock, node body
  and bus which satisfies the hypotheses they name.  The expression evaluator is such an
  argument, which \<open>Expression_Engine\<close> instantiates, as are the parser library behind the grammar of
  expressions, the ISO 8601 parser, both packages outside the repository, and the Redis server.

  Fuel.  The loops of the strategies over a cyclic flow need not end, so they take fuel and
  return \<open>None\<close> when it runs out; \<open>deadline_ends_every_run\<close> gives the amount that
  is enough under a clock that advances.  The retry loop runs over the list of attempts, the
  polling sleep, the cycle search and the pattern parser have termination proofs.

  Restrictions of the model.  Floating-point numbers are left out of the values; strings are
  lists of characters below 256; time is an integer number of microseconds.  The set of present
  keys of a checkpoint is a list without duplicates.  Log output, spans, metrics and the text of
  messages are left out; callbacks of the runner are the entries of its log.  The name of the
  final output of a flow, a Chinese word in the source, is written \<open>''end''\<close>.  Retry tasks of
  the event bus run in the order of their creation.

  Not modelled: the functions of expressions that change their argument in place, with their
  gate, and the formatting of strings by the operator \<open>%\<close>; the construction of node objects from flow
  documents, the builder, and the writer of whole nodes in \<open>dsl/sexpr.py\<close>; the bodies of code nodes; the fields of http nodes,
  their asynchronous connections and the masking of their records; threads and the asyncio plumbing;
  the Redis and SQL event buses; the console.  Of the workers and the server, the lease, the
  deduplication of starts, the quota of running starts, the task queue and the decisions on failures
  are modelled, and the rest is not.  What is left out is input and output around the parts above.
\<close>

end
